(* ===== verification/Prelude.thy ===== *)
theory Prelude
  imports Main "HOL-Library.Word" "HOL-Library.AList" "HOL-Library.Sublist"
begin

text \<open>
  Shared vocabulary of the development: results with Go errors, the type names the
  models use, the development's fact collections, and generic lemmas on lists,
  association lists and words that several components need.

  A Go function that returns \<open>(v, err)\<close> becomes a function into \<open>err + 'v\<close>:
  \<open>Inl e\<close> is a non-nil error, \<open>Inr v\<close> a nil error.  Go strings and byte slices are
  both Isabelle strings (lists of 8-bit characters), so lengths count bytes.
\<close>

section \<open>Fact collections\<close>

named_theorems path_simps \<open>equations of the path functions on clean paths\<close>
named_theorems fs_simps \<open>what file-system operations do to names, nodes and contents\<close>
named_theorems frame_simps \<open>what an operation leaves unchanged\<close>

section \<open>Go errors and results\<close>

text \<open>
  The errors the program tells apart: \<open>ENOENT\<close> (what \<open>os.IsNotExist\<close> tests), other
  errno values, \<open>io.EOF\<close>, \<open>io.ErrUnexpectedEOF\<close> and errors made from text.
\<close>

datatype err =
    ENOENT
  | EEXIST
  | EISDIR
  | ENOTDIR
  | ENOTEMPTY
  | ELOOP
  | EOther nat
  | EOF
  | UnexpectedEOF
  | ErrText string

definition os_IsNotExist :: "err \<Rightarrow> bool" where
  "os_IsNotExist e \<longleftrightarrow> e = ENOENT"

type_synonym 'a res = "err + 'a"
type_synonym int64 = "64 word"
type_synonym bytes = string

definition res_ok :: "'a res \<Rightarrow> bool" where
  "res_ok r \<longleftrightarrow> (case r of Inl _ \<Rightarrow> False | Inr _ \<Rightarrow> True)"

lemma res_ok_simps [simp]: "res_ok (Inr x)" "\<not> res_ok (Inl e)"
  by (simp_all add: res_ok_def)

lemma res_ok_iff: "res_ok r \<longleftrightarrow> (\<exists>x. r = Inr x)"
  by (cases r) auto

text \<open>
  A Go call that may panic or run forever: a run-time panic and a loop that never ends are
  values of their own, different from a returned error.
\<close>

datatype 'a outcome = Panic string | Diverge | Ret 'a

definition returns :: "'a outcome \<Rightarrow> bool" where
  "returns r \<longleftrightarrow> (case r of Ret _ \<Rightarrow> True | _ \<Rightarrow> False)"

definition bind_outcome :: "'a outcome \<Rightarrow> ('a \<Rightarrow> 'b outcome) \<Rightarrow> 'b outcome" where
  "bind_outcome r f = (case r of Panic m \<Rightarrow> Panic m | Diverge \<Rightarrow> Diverge | Ret x \<Rightarrow> f x)"

lemma returns_simps [simp]: "returns (Ret x)" "\<not> returns (Panic m)" "\<not> returns Diverge"
  by (simp_all add: returns_def)

lemma bind_outcome_simps [simp]:
  "bind_outcome (Ret x) f = f x" "bind_outcome (Panic m) f = Panic m"
  "bind_outcome Diverge f = Diverge"
  by (simp_all add: bind_outcome_def)

lemma bind_outcome_eq_Ret [simp]:
  "bind_outcome r f = Ret y \<longleftrightarrow> (\<exists>x. r = Ret x \<and> f x = Ret y)"
  by (cases r) auto

lemma bind_outcomeE:
  assumes "bind_outcome r f = Ret y"
  obtains x where "r = Ret x" and "f x = Ret y"
  using assms by (cases r) auto

lemma bind_outcome_cong [fundef_cong]:
  "r = r' \<Longrightarrow> (\<And>x. r' = Ret x \<Longrightarrow> f x = f' x) \<Longrightarrow> bind_outcome r f = bind_outcome r' f'"
  by (cases r') auto

text \<open>
  What an \<open>io.Reader\<close> delivers until it ends: its bytes, and the error it ends in
  (\<open>None\<close> is \<open>io.EOF\<close>).
\<close>

type_synonym stream = "bytes \<times> err option"

section \<open>Lists\<close>

lemma nth_append_left [simp]: "i < length xs \<Longrightarrow> (xs @ ys) ! i = xs ! i"
  by (simp add: nth_append)

lemma drop_min_length [simp]:
  "drop (min (length xs) n) xs = drop n xs" "drop (min n (length xs)) xs = drop n xs"
  by (auto simp: min_def)

lemma take_min_length [simp]:
  "take (min (length xs) n) xs = take n xs" "take (min n (length xs)) xs = take n xs"
  by (auto simp: min_def)

lemma sum_list_map_filter_split:
  "sum_list (map f xs) = sum_list (map f (filter P xs)) + (sum_list (map f (filter (\<lambda>x. \<not> P x) xs)) :: 'a :: comm_monoid_add)"
  by (induction xs) (auto simp: ac_simps)

lemma map_of_filter_key:
  "map_of (filter (\<lambda>p. P (fst p)) xs) k = (if P k then map_of xs k else None)"
  by (induction xs) auto

lemma takeWhile_eq_all_prefix:
  "(\<forall>x \<in> set xs. P x) \<Longrightarrow> \<not> P y \<Longrightarrow> takeWhile P (xs @ y # ys) = xs"
  by (induction xs) auto

lemma dropWhile_eq_all_prefix:
  "(\<forall>x \<in> set xs. P x) \<Longrightarrow> \<not> P y \<Longrightarrow> dropWhile P (xs @ y # ys) = y # ys"
  by (induction xs) auto

text \<open>
  A separator character that occurs in neither left part determines the split.
\<close>

lemma append_sep_eq:
  assumes "c \<notin> set xs" and "c \<notin> set xs'"
  shows "xs @ c # ys = xs' @ c # ys' \<longleftrightarrow> xs = xs' \<and> ys = ys'"
proof
  assume eq: "xs @ c # ys = xs' @ c # ys'"
  have "takeWhile (\<lambda>d. d \<noteq> c) (xs @ c # ys) = xs"
    using assms(1) by (intro takeWhile_eq_all_prefix) auto
  moreover have "takeWhile (\<lambda>d. d \<noteq> c) (xs' @ c # ys') = xs'"
    using assms(2) by (intro takeWhile_eq_all_prefix) auto
  ultimately have "xs = xs'" using eq by simp
  with eq show "xs = xs' \<and> ys = ys'" by simp
qed simp

section \<open>Association lists\<close>

lemma map_of_AList_update [simp]:
  "map_of (AList.update k v al) = (map_of al)(k \<mapsto> v)"
  by (rule AList.update_conv')

lemma map_of_AList_delete [simp]:
  "map_of (AList.delete k al) = (map_of al)(k := None)"
  by (rule AList.delete_conv')

lemma distinct_AList_update [intro]:
  "distinct (map fst al) \<Longrightarrow> distinct (map fst (AList.update k v al))"
  by (rule AList.distinct_update)

lemma distinct_AList_delete [intro]:
  "distinct (map fst al) \<Longrightarrow> distinct (map fst (AList.delete k al))"
  by (rule AList.distinct_delete)

end
