(* ===== verification/GoPath.thy ===== *)
theory GoPath
  imports GoStrings
begin

text \<open>
  \<open>path/filepath\<close> on a Unix system: \<open>Clean\<close>, \<open>Join\<close>, \<open>Dir\<close>, \<open>Base\<close>, and the theory of
  clean absolute paths that lets the file-system proofs tell paths apart.
\<close>

section \<open>Definitions\<close>

abbreviation slash :: char where
  "slash \<equiv> CHR ''/''"

text \<open>
  One path component is pushed on the reversed stack of kept components; \<open>..\<close> pops, and is
  dropped at the root of a rooted path or kept in a relative one.
\<close>

fun clean_push :: "bool \<Rightarrow> string list \<Rightarrow> string \<Rightarrow> string list" where
  "clean_push rooted st w =
     (if w = [] \<or> w = ''.'' then st
      else if w = ''..'' then
        (case st of
           [] \<Rightarrow> if rooted then [] else [''..'']
         | t # ts \<Rightarrow> if t = ''..'' then ''..'' # st else ts)
      else w # st)"

definition clean_comps :: "bool \<Rightarrow> string list \<Rightarrow> string list" where
  "clean_comps rooted ws = rev (fold (\<lambda>w st. clean_push rooted st w) ws [])"

definition rooted :: "string \<Rightarrow> bool" where
  "rooted p \<longleftrightarrow> (case p of [] \<Rightarrow> False | c # _ \<Rightarrow> c = slash)"

definition Clean :: "string \<Rightarrow> string" where
  "Clean p =
     (let out = join_with [slash] (clean_comps (rooted p) (split_on slash p))
      in if rooted p then slash # out else if out = [] then ''.'' else out)"

text \<open>\<open>filepath.Join\<close>: leading empty elements are dropped, the rest joined and cleaned.\<close>

fun Join :: "string list \<Rightarrow> string" where
  "Join [] = []"
| "Join (e # es) = (if e = [] then Join es else Clean (join_with [slash] (e # es)))"

text \<open>\<open>filepath.Dir\<close> and \<open>filepath.Base\<close>: everything before, and after, the last slash.\<close>

definition after_last_slash :: "string \<Rightarrow> string" where
  "after_last_slash p = rev (takeWhile (\<lambda>c. c \<noteq> slash) (rev p))"

definition upto_last_slash :: "string \<Rightarrow> string" where
  "upto_last_slash p = rev (dropWhile (\<lambda>c. c \<noteq> slash) (rev p))"

definition path_Dir :: "string \<Rightarrow> string" where
  "path_Dir p = Clean (upto_last_slash p)"

definition path_Base :: "string \<Rightarrow> string" where
  "path_Base p =
     (if p = [] then ''.''
      else let q = rev (dropWhile (\<lambda>c. c = slash) (rev p)); b = after_last_slash q
           in if b = [] then [slash] else b)"

section \<open>Clean absolute paths\<close>

text \<open>A plain component: non-empty, no slash, neither \<open>.\<close> nor \<open>..\<close>.\<close>

definition plain :: "string \<Rightarrow> bool" where
  "plain w \<longleftrightarrow> w \<noteq> [] \<and> slash \<notin> set w \<and> w \<noteq> ''.'' \<and> w \<noteq> ''..''"

definition abs_path :: "string list \<Rightarrow> string" where
  "abs_path ws = slash # join_with [slash] ws"

text \<open>A clean absolute path other than the root directory.\<close>

definition clean_abs :: "string \<Rightarrow> bool" where
  "clean_abs p \<longleftrightarrow>
     rooted p \<and> split_on slash (tl p) \<noteq> [[]] \<and> list_all plain (split_on slash (tl p))"

lemma plainD: "plain w \<Longrightarrow> w \<noteq> []" "plain w \<Longrightarrow> slash \<notin> set w"
  by (simp_all add: plain_def)

lemma clean_push_plain [simp]: "plain w \<Longrightarrow> clean_push r st w = w # st"
  by (simp add: plain_def)

lemma clean_push_Nil [simp]: "clean_push r st [] = st"
  by simp

declare clean_push.simps [simp del]

lemma fold_clean_plain:
  "list_all plain ws \<Longrightarrow> fold (\<lambda>w st. clean_push r st w) ws st = rev ws @ st"
  by (induction ws arbitrary: st) auto

lemma clean_comps_plain: "list_all plain ws \<Longrightarrow> clean_comps r ws = ws"
  by (simp add: clean_comps_def fold_clean_plain)

lemma clean_comps_Nil_Cons [simp]: "clean_comps r ([] # ws) = clean_comps r ws"
  by (simp add: clean_comps_def)

lemma split_slash_rooted: "rooted p \<Longrightarrow> split_on slash p = [] # split_on slash (tl p)"
  by (cases p) (auto simp: rooted_def)

lemma clean_abs_iff: "clean_abs p \<longleftrightarrow> (\<exists>ws. ws \<noteq> [] \<and> list_all plain ws \<and> p = abs_path ws)"
proof
  assume c: "clean_abs p"
  let ?ws = "split_on slash (tl p)"
  have "p = abs_path ?ws"
    using c by (cases p) (auto simp: clean_abs_def rooted_def abs_path_def join_split)
  with c show "\<exists>ws. ws \<noteq> [] \<and> list_all plain ws \<and> p = abs_path ws"
    by (intro exI [of _ ?ws]) (simp add: clean_abs_def)
next
  assume "\<exists>ws. ws \<noteq> [] \<and> list_all plain ws \<and> p = abs_path ws"
  then obtain ws where ws: "ws \<noteq> []" "list_all plain ws" "p = abs_path ws" by blast
  from ws(1,2) have "split_on slash (join_with [slash] ws) = ws"
    by (intro split_join) (auto simp: list_all_iff plain_def)
  moreover have "ws \<noteq> [[]]" using ws(1,2) by (auto simp: plain_def)
  ultimately show "clean_abs p"
    using ws by (simp add: clean_abs_def abs_path_def rooted_def)
qed

lemma Clean_abs_path:
  assumes "list_all plain ws"
  shows "Clean (abs_path ws) = abs_path ws"
proof (cases "ws = []")
  case True
  then show ?thesis by (simp add: abs_path_def Clean_def rooted_def clean_comps_def)
next
  case False
  with assms have "split_on slash (join_with [slash] ws) = ws"
    by (intro split_join) (auto simp: list_all_iff plain_def)
  with assms show ?thesis
    by (simp add: abs_path_def Clean_def rooted_def clean_comps_plain)
qed

lemma join_abs_path:
  "ws \<noteq> [] \<Longrightarrow> vs \<noteq> [] \<Longrightarrow> join_with [slash] (abs_path ws # vs) = abs_path (ws @ vs)"
  by (simp add: join_with_Cons abs_path_def join_with_append)

text \<open>
  Joining plain components under a clean absolute path just appends them.
\<close>

lemma Join_clean:
  assumes "clean_abs p" and "list_all plain vs" and "vs \<noteq> []"
  shows "Join (p # vs) = p @ slash # join_with [slash] vs" and "clean_abs (Join (p # vs))"
proof -
  from assms(1) obtain ws where ws: "ws \<noteq> []" "list_all plain ws" "p = abs_path ws"
    by (auto simp: clean_abs_iff)
  from ws assms(2,3) have "Clean (join_with [slash] (p # vs)) = abs_path (ws @ vs)"
    by (simp add: join_abs_path Clean_abs_path)
  moreover have "p \<noteq> []" using ws by (simp add: abs_path_def)
  ultimately have j: "Join (p # vs) = abs_path (ws @ vs)" by simp
  with ws assms(3) show "Join (p # vs) = p @ slash # join_with [slash] vs"
    by (simp add: abs_path_def join_with_append)
  from j ws assms show "clean_abs (Join (p # vs))"
    by (auto simp: clean_abs_iff intro!: exI [of _ "ws @ vs"])
qed

lemma Join2 [path_simps]:
  "clean_abs p \<Longrightarrow> plain a \<Longrightarrow> Join [p, a] = p @ slash # a"
  using Join_clean(1) [of p "[a]"] by simp

lemma Join3 [path_simps]:
  "clean_abs p \<Longrightarrow> plain a \<Longrightarrow> plain b \<Longrightarrow> Join [p, a, b] = p @ slash # a @ slash # b"
  using Join_clean(1) [of p "[a, b]"] by simp

lemma clean_abs_Join2: "clean_abs p \<Longrightarrow> plain a \<Longrightarrow> clean_abs (p @ slash # a)"
  using Join_clean [of p "[a]"] by simp

lemma clean_abs_Join3:
  "clean_abs p \<Longrightarrow> plain a \<Longrightarrow> plain b \<Longrightarrow> clean_abs (p @ slash # a @ slash # b)"
  using Join_clean [of p "[a, b]"] by simp

lemma clean_abs_nonempty: "clean_abs p \<Longrightarrow> p \<noteq> []"
  by (auto simp: clean_abs_def rooted_def)

lemma Clean_clean_abs: "clean_abs p \<Longrightarrow> Clean p = p"
  by (auto simp: clean_abs_iff Clean_abs_path)

text \<open>The parent directory of \<open>p/a\<close> is \<open>p\<close>, its base name is \<open>a\<close>.\<close>

lemma upto_last_slash_snoc:
  "slash \<notin> set a \<Longrightarrow> upto_last_slash (p @ slash # a) = p @ [slash]"
proof -
  assume a: "slash \<notin> set a"
  have "dropWhile (\<lambda>c. c \<noteq> slash) (rev a @ slash # rev p) = slash # rev p"
    using a by (intro dropWhile_eq_all_prefix) auto
  then show ?thesis by (simp add: upto_last_slash_def)
qed

lemma after_last_slash_snoc: "slash \<notin> set a \<Longrightarrow> after_last_slash (p @ slash # a) = a"
proof -
  assume a: "slash \<notin> set a"
  have "takeWhile (\<lambda>c. c \<noteq> slash) (rev a @ slash # rev p) = rev a"
    using a by (intro takeWhile_eq_all_prefix) auto
  then show ?thesis by (simp add: after_last_slash_def)
qed

lemma split_on_snoc_sep: "split_on c (s @ [c]) = split_on c s @ [[]]"
proof (induction s)
  case (Cons x xs)
  then show ?case by (cases "split_on c xs") auto
qed simp

lemma clean_comps_snoc_Nil: "clean_comps r (ws @ [[]]) = clean_comps r ws"
  by (simp add: clean_comps_def)

lemma rooted_append: "p \<noteq> [] \<Longrightarrow> rooted (p @ q) = rooted p"
  by (cases p) (simp_all add: rooted_def)

lemma Clean_snoc_slash: "p \<noteq> [] \<Longrightarrow> Clean (p @ [slash]) = Clean p"
  by (simp add: Clean_def rooted_append split_on_snoc_sep clean_comps_snoc_Nil)

lemma path_Dir_snoc [path_simps]:
  "clean_abs p \<Longrightarrow> plain a \<Longrightarrow> path_Dir (p @ slash # a) = p"
  by (simp add: path_Dir_def upto_last_slash_snoc plainD Clean_snoc_slash clean_abs_nonempty
      Clean_clean_abs)

lemma path_Base_snoc [path_simps]:
  assumes "plain a" shows "path_Base (p @ slash # a) = a"
proof -
  have "dropWhile (\<lambda>c. c = slash) (rev (p @ slash # a)) = rev (p @ slash # a)"
    using assms by (cases "rev a") (auto simp: plain_def rev_swap dest: plainD)
  then show ?thesis
    using assms by (simp add: path_Base_def Let_def after_last_slash_snoc plainD)
qed

text \<open>Names in one directory are told apart by the last component.\<close>

lemma same_dir_eq: "(p @ slash # a = p @ slash # b) \<longleftrightarrow> a = b"
  by simp

lemma sub_dir_eq:
  assumes "slash \<notin> set a" and "slash \<notin> set b"
  shows "(p @ slash # a @ slash # x = p @ slash # b @ slash # y) \<longleftrightarrow> a = b \<and> x = y"
  using append_sep_eq [OF assms] by simp

end
