(* ===== verification/GoFS.thy ===== *)
theory GoFS
  imports GoPath
begin

text \<open>
  The file system as the Go packages \<open>os\<close> and \<open>io/ioutil\<close> show it to the program.

  Names are cleaned absolute paths; a name refers to an inode, so that two hard links share
  one content (\<open>os.Link\<close> followed by a truncation of one of the names matters to this
  program).  A file's bytes are seen in one of three views: plain bytes, a JSON document, or
  a gzip stream of JSON documents that ends cleanly or in a decoding error.  The byte formats
  of JSON and gzip are not modelled: \<open>render\<close>, an arbitrary function, gives the bytes of a
  document where it is read as bytes.

  Every operation asks \<open>faults\<close> first, an arbitrary function of the operation and its path:
  any call may fail with any errno, so that every error branch of the program is reachable.
  Operations that change the disk append the atomic events they consist of to \<open>log\<close>; the
  states a crash can leave behind are the replays of the prefixes of that log.
\<close>

section \<open>Contents and nodes\<close>

datatype json =
    JNull
  | JBool bool
  | JInt int
  | JFloat string
  | JStr string
  | JArr "json list"
  | JObj "(string \<times> json) list"

datatype blob =
    Raw bytes
  | JsonDoc json
  | GzipJson "json list" bool

datatype node = Reg blob | Dir | Symlink string

datatype fsop =
    OpLstat | OpStat | OpOpen | OpRead | OpCreate | OpWrite | OpRename | OpLink
  | OpRemoveAll | OpReadDir | OpMkdir | OpTempDir

datatype fsev =
    EvCreate string nat
  | EvTrunc nat
  | EvWrite nat blob
  | EvRename string string
  | EvRenameDir string string
  | EvLink nat string
  | EvRemove string
  | EvMkdir string nat

record fs =
  names :: "(string \<times> nat) list"
  nodes :: "(nat \<times> node) list"
  next_ino :: nat
  faults :: "fsop \<Rightarrow> string \<Rightarrow> err option"
  render :: "blob \<Rightarrow> bytes"
  log :: "fsev list"

section \<open>Atomic events\<close>

definition below :: "string \<Rightarrow> string \<Rightarrow> bool" where
  "below p q \<longleftrightarrow> q = p \<or> prefix (p @ [slash]) q"

fun apply_ev :: "fsev \<Rightarrow> fs \<Rightarrow> fs" where
  "apply_ev (EvCreate p i) s =
     s\<lparr>names := AList.update p i (names s), nodes := AList.update i (Reg (Raw [])) (nodes s),
       next_ino := Suc i\<rparr>"
| "apply_ev (EvTrunc i) s = s\<lparr>nodes := AList.update i (Reg (Raw [])) (nodes s)\<rparr>"
| "apply_ev (EvWrite i b) s = s\<lparr>nodes := AList.update i (Reg b) (nodes s)\<rparr>"
| "apply_ev (EvRename a b) s =
     (case map_of (names s) a of
        None \<Rightarrow> s
      | Some i \<Rightarrow> s\<lparr>names := AList.update b i (AList.delete a (names s))\<rparr>)"
| "apply_ev (EvRenameDir a b) s =
     s\<lparr>names := map (\<lambda>(p, i). (if below a p then b @ drop (length a) p else p, i))
                  (filter (\<lambda>(p, i). p \<noteq> b) (names s))\<rparr>"
| "apply_ev (EvLink i b) s = s\<lparr>names := AList.update b i (names s)\<rparr>"
| "apply_ev (EvRemove p) s = s\<lparr>names := filter (\<lambda>q. \<not> below p (fst q)) (names s)\<rparr>"
| "apply_ev (EvMkdir p i) s =
     s\<lparr>names := AList.update p i (names s), nodes := AList.update i Dir (nodes s),
       next_ino := Suc i\<rparr>"

definition emit :: "fsev \<Rightarrow> fs \<Rightarrow> fs" where
  "emit e s = (let t = apply_ev e s in t\<lparr>log := log s @ [e]\<rparr>)"

section \<open>Reading operations\<close>

definition node_at :: "fs \<Rightarrow> string \<Rightarrow> node option" where
  "node_at s p = (case map_of (names s) p of None \<Rightarrow> None | Some i \<Rightarrow> map_of (nodes s) i)"

definition os_Lstat :: "fs \<Rightarrow> string \<Rightarrow> node res" where
  "os_Lstat s p =
     (case faults s OpLstat p of
        Some e \<Rightarrow> Inl e
      | None \<Rightarrow> (case node_at s p of None \<Rightarrow> Inl ENOENT | Some n \<Rightarrow> Inr n))"

text \<open>The path a final symbolic link leads to; Linux gives up after 40 links.\<close>

fun resolve_fuel :: "nat \<Rightarrow> fs \<Rightarrow> string \<Rightarrow> string res" where
  "resolve_fuel n s p =
     (case node_at s p of
        Some (Symlink t) \<Rightarrow>
          (case n of
             0 \<Rightarrow> Inl ELOOP
           | Suc m \<Rightarrow> resolve_fuel m s (if rooted t then Clean t else Join [path_Dir p, t]))
      | _ \<Rightarrow> Inr p)"

declare resolve_fuel.simps [simp del]

definition resolve :: "fs \<Rightarrow> string \<Rightarrow> string res" where
  "resolve s p = resolve_fuel 40 s p"

definition os_Stat :: "fs \<Rightarrow> string \<Rightarrow> node res" where
  "os_Stat s p =
     (case faults s OpStat p of
        Some e \<Rightarrow> Inl e
      | None \<Rightarrow>
          (case resolve s p of
             Inl e \<Rightarrow> Inl e
           | Inr q \<Rightarrow> (case node_at s q of None \<Rightarrow> Inl ENOENT | Some n \<Rightarrow> Inr n)))"

text \<open>\<open>os.Open\<close> gives a handle on the inode the name refers to when it is opened.\<close>

definition os_Open :: "fs \<Rightarrow> string \<Rightarrow> nat res" where
  "os_Open s p =
     (case faults s OpOpen p of
        Some e \<Rightarrow> Inl e
      | None \<Rightarrow>
          (case resolve s p of
             Inl e \<Rightarrow> Inl e
           | Inr q \<Rightarrow>
               (case map_of (names s) q of
                  None \<Rightarrow> Inl ENOENT
                | Some i \<Rightarrow> Inr i)))"

definition read_ino :: "fs \<Rightarrow> nat \<Rightarrow> blob res" where
  "read_ino s i =
     (case map_of (nodes s) i of
        Some (Reg b) \<Rightarrow> Inr b
      | _ \<Rightarrow> Inl EISDIR)"

definition blob_bytes :: "fs \<Rightarrow> blob \<Rightarrow> bytes" where
  "blob_bytes s b = (case b of Raw x \<Rightarrow> x | _ \<Rightarrow> render s b)"

lemma blob_bytes_Raw [simp]: "blob_bytes s (Raw x) = x"
  by (simp add: blob_bytes_def)

text \<open>Reading an open handle to its end.\<close>

definition ino_stream :: "fs \<Rightarrow> string \<Rightarrow> nat \<Rightarrow> stream" where
  "ino_stream s p i =
     (case faults s OpRead p of
        Some e \<Rightarrow> ([], Some e)
      | None \<Rightarrow>
          (case read_ino s i of
             Inl e \<Rightarrow> ([], Some e)
           | Inr b \<Rightarrow> (blob_bytes s b, None)))"

definition ReadFile :: "fs \<Rightarrow> string \<Rightarrow> blob res" where
  "ReadFile s p =
     (case os_Open s p of
        Inl e \<Rightarrow> Inl e
      | Inr i \<Rightarrow> (case faults s OpRead p of Some e \<Rightarrow> Inl e | None \<Rightarrow> read_ino s i))"

text \<open>\<open>ioutil.ReadDir\<close>: the sorted names of the entries of a directory.\<close>

definition entry_name :: "string \<Rightarrow> string \<Rightarrow> string option" where
  "entry_name d p =
     (let pre = (if d = [slash] then d else d @ [slash]); rest = drop (length pre) p
      in if prefix pre p \<and> rest \<noteq> [] \<and> slash \<notin> set rest then Some rest else None)"

definition dir_entries :: "fs \<Rightarrow> string \<Rightarrow> string list" where
  "dir_entries s d = sort (List.map_filter (\<lambda>p. entry_name d (fst p)) (names s))"

definition ReadDir :: "fs \<Rightarrow> string \<Rightarrow> string list res" where
  "ReadDir s d =
     (case faults s OpReadDir d of
        Some e \<Rightarrow> Inl e
      | None \<Rightarrow>
          (case resolve s d of
             Inl e \<Rightarrow> Inl e
           | Inr q \<Rightarrow>
               (case node_at s q of
                  None \<Rightarrow> Inl ENOENT
                | Some Dir \<Rightarrow> Inr (dir_entries s q)
                | Some _ \<Rightarrow> Inl ENOTDIR)))"

section \<open>Changing operations\<close>

definition is_dir_at :: "fs \<Rightarrow> string \<Rightarrow> bool" where
  "is_dir_at s p \<longleftrightarrow> node_at s p = Some Dir"

text \<open>\<open>os.Create\<close>, and the opening half of \<open>ioutil.WriteFile\<close>: truncate or create.\<close>

definition os_Create :: "string \<Rightarrow> fs \<Rightarrow> nat res \<times> fs" where
  "os_Create p s =
     (case faults s OpCreate p of
        Some e \<Rightarrow> (Inl e, s)
      | None \<Rightarrow>
          (case resolve s p of
             Inl e \<Rightarrow> (Inl e, s)
           | Inr q \<Rightarrow>
               (case map_of (names s) q of
                  Some i \<Rightarrow>
                    (case map_of (nodes s) i of
                       Some (Reg _) \<Rightarrow> (Inr i, emit (EvTrunc i) s)
                     | _ \<Rightarrow> (Inl EISDIR, s))
                | None \<Rightarrow>
                    if is_dir_at s (path_Dir q)
                    then (Inr (next_ino s), emit (EvCreate q (next_ino s)) s)
                    else (Inl ENOENT, s))))"

definition write_ino :: "string \<Rightarrow> nat \<Rightarrow> blob \<Rightarrow> fs \<Rightarrow> unit res \<times> fs" where
  "write_ino p i b s =
     (case faults s OpWrite p of
        Some e \<Rightarrow> (Inl e, s)
      | None \<Rightarrow> (Inr (), emit (EvWrite i b) s))"

definition WriteFile :: "string \<Rightarrow> blob \<Rightarrow> fs \<Rightarrow> unit res \<times> fs" where
  "WriteFile p b s =
     (case os_Create p s of
        (Inl e, s') \<Rightarrow> (Inl e, s')
      | (Inr i, s') \<Rightarrow> write_ino p i b s')"

definition os_Rename :: "string \<Rightarrow> string \<Rightarrow> fs \<Rightarrow> unit res \<times> fs" where
  "os_Rename a b s =
     (case faults s OpRename a of
        Some e \<Rightarrow> (Inl e, s)
      | None \<Rightarrow>
          (case map_of (names s) a of
             None \<Rightarrow> (Inl ENOENT, s)
           | Some i \<Rightarrow>
               if map_of (names s) b = Some i then (Inr (), s)
               else if \<not> is_dir_at s (path_Dir b) then (Inl ENOENT, s)
               else if is_dir_at s a then
                 (case node_at s b of
                    None \<Rightarrow> (Inr (), emit (EvRenameDir a b) s)
                  | Some Dir \<Rightarrow>
                      if dir_entries s b = [] then (Inr (), emit (EvRenameDir a b) s)
                      else (Inl ENOTEMPTY, s)
                  | Some _ \<Rightarrow> (Inl ENOTDIR, s))
               else if is_dir_at s b then (Inl EISDIR, s)
               else (Inr (), emit (EvRename a b) s)))"

definition os_Link :: "string \<Rightarrow> string \<Rightarrow> fs \<Rightarrow> unit res \<times> fs" where
  "os_Link a b s =
     (case faults s OpLink a of
        Some e \<Rightarrow> (Inl e, s)
      | None \<Rightarrow>
          (case map_of (names s) a of
             None \<Rightarrow> (Inl ENOENT, s)
           | Some i \<Rightarrow>
               if is_dir_at s a then (Inl (EOther 1), s)
               else if map_of (names s) b \<noteq> None then (Inl EEXIST, s)
               else if \<not> is_dir_at s (path_Dir b) then (Inl ENOENT, s)
               else (Inr (), emit (EvLink i b) s)))"

text \<open>\<open>os.RemoveAll\<close>: a missing path is no error.\<close>

definition os_RemoveAll :: "string \<Rightarrow> fs \<Rightarrow> unit res \<times> fs" where
  "os_RemoveAll p s =
     (case faults s OpRemoveAll p of
        Some e \<Rightarrow> (Inl e, s)
      | None \<Rightarrow> (Inr (), emit (EvRemove p) s))"

text \<open>
  \<open>ioutil.TempDir("", prefix)\<close>: the first free name of a sequence of candidates; it gives up
  with \<open>EEXIST\<close> after 10000 of them.
\<close>

definition temp_name :: "string \<Rightarrow> nat \<Rightarrow> string" where
  "temp_name pre k = Join [''/tmp'', pre @ show_nat k]"

fun free_temp :: "nat \<Rightarrow> nat \<Rightarrow> string \<Rightarrow> fs \<Rightarrow> string option" where
  "free_temp 0 k pre s = None"
| "free_temp (Suc n) k pre s =
     (if map_of (names s) (temp_name pre k) = None then Some (temp_name pre k)
      else free_temp n (Suc k) pre s)"

definition TempDir :: "string \<Rightarrow> fs \<Rightarrow> string res \<times> fs" where
  "TempDir pre s =
     (case faults s OpTempDir pre of
        Some e \<Rightarrow> (Inl e, s)
      | None \<Rightarrow>
          (case free_temp 10000 (next_ino s) pre s of
             None \<Rightarrow> (Inl EEXIST, s)
           | Some p \<Rightarrow> (Inr p, emit (EvMkdir p (next_ino s)) s)))"

lemma free_temp_fresh: "free_temp n k pre s = Some p \<Longrightarrow> map_of (names s) p = None"
  by (induction n k pre s rule: free_temp.induct) (auto split: if_splits)

lemma TempDir_Inr:
  assumes "TempDir pre s = (Inr p, s')"
  shows "map_of (names s) p = None" and "names s' = AList.update p (next_ino s) (names s)"
    and "faults s' = faults s"
  using assms by (auto simp: TempDir_def emit_def Let_def dest: free_temp_fresh split: option.splits)

section \<open>Frame rules: faults never change\<close>

lemma faults_apply_ev [simp, frame_simps]: "faults (apply_ev e s) = faults s"
  by (cases e) (auto split: option.splits)

lemma log_apply_ev [simp]: "log (apply_ev e s) = log s"
  by (cases e) (auto split: option.splits)

lemma faults_emit [simp, frame_simps]: "faults (emit e s) = faults s"
  by (simp add: emit_def Let_def)

lemma log_emit [simp]: "log (emit e s) = log s @ [e]"
  by (simp add: emit_def Let_def)

lemma names_emit [simp]: "names (emit e s) = names (apply_ev e s)"
  by (simp add: emit_def Let_def)

lemma nodes_emit [simp]: "nodes (emit e s) = nodes (apply_ev e s)"
  by (simp add: emit_def Let_def)

lemma next_ino_emit [simp]: "next_ino (emit e s) = next_ino (apply_ev e s)"
  by (simp add: emit_def Let_def)

lemma faults_os_Create [simp, frame_simps]: "faults (snd (os_Create p s)) = faults s"
  by (auto simp: os_Create_def split: option.splits sum.splits node.splits)

lemma faults_write_ino [simp, frame_simps]: "faults (snd (write_ino p i b s)) = faults s"
  by (auto simp: write_ino_def split: option.splits)

lemma faults_WriteFile [simp, frame_simps]: "faults (snd (WriteFile p b s)) = faults s"
  using faults_os_Create [of p s]
  by (auto simp: WriteFile_def simp del: faults_os_Create split: prod.splits sum.splits)

lemma faults_os_Rename [simp, frame_simps]: "faults (snd (os_Rename a b s)) = faults s"
  by (auto simp: os_Rename_def split: option.splits node.splits)

lemma faults_os_Link [simp, frame_simps]: "faults (snd (os_Link a b s)) = faults s"
  by (auto simp: os_Link_def split: option.splits)

lemma faults_os_RemoveAll [simp, frame_simps]: "faults (snd (os_RemoveAll p s)) = faults s"
  by (auto simp: os_RemoveAll_def split: option.splits)

section \<open>Crash states\<close>

text \<open>
  \<open>s'\<close> was reached from \<open>s\<close> by the events the log grew by; stopping after any number of
  them gives the states a crash can leave.  The log itself is not part of the disk.
\<close>

fun replay :: "fsev list \<Rightarrow> fs \<Rightarrow> fs" where
  "replay [] s = s"
| "replay (e # es) s = replay es (emit e s)"

lemma replay_append: "replay (xs @ ys) s = replay ys (replay xs s)"
  by (induction xs arbitrary: s) auto

definition new_events :: "fs \<Rightarrow> fs \<Rightarrow> fsev list" where
  "new_events s s' = drop (length (log s)) (log s')"

definition crash_states :: "fs \<Rightarrow> fs \<Rightarrow> fs list" where
  "crash_states s s' = map (\<lambda>k. replay (take k (new_events s s')) s) [0..<Suc (length (new_events s s'))]"

text \<open>\<open>extends s s'\<close>: \<open>s'\<close> really is the result of replaying what its log grew by.\<close>

definition extends :: "fs \<Rightarrow> fs \<Rightarrow> bool" where
  "extends s s' \<longleftrightarrow> (\<exists>es. s' = replay es s)"

lemma log_replay: "log (replay es s) = log s @ es"
  by (induction es arbitrary: s) auto

lemma extends_refl [simp, intro]: "extends s s"
  by (auto simp: extends_def intro: exI [of _ "[]"])

lemma extends_emit [simp, intro]: "extends s (emit e s)"
  by (auto simp: extends_def intro: exI [of _ "[e]"])

lemma extends_trans: "extends s t \<Longrightarrow> extends t u \<Longrightarrow> extends s u"
  by (auto simp: extends_def replay_append [symmetric])

lemma extends_new_events: "extends s s' \<Longrightarrow> s' = replay (new_events s s') s"
  by (auto simp: extends_def new_events_def log_replay)

lemma extends_os_Create: "extends s (snd (os_Create p s))"
  by (auto simp: os_Create_def split: option.splits sum.splits node.splits)

lemma extends_write_ino: "extends s (snd (write_ino p i b s))"
  by (auto simp: write_ino_def split: option.splits)

lemma extends_WriteFile: "extends s (snd (WriteFile p b s))"
proof (cases "os_Create p s")
  case (Pair r s1)
  then have "extends s s1" using extends_os_Create [of s p] by simp
  then show ?thesis
    using Pair extends_write_ino [of s1 p _ b]
    by (auto simp: WriteFile_def split: sum.splits intro: extends_trans)
qed

lemma extends_os_Rename: "extends s (snd (os_Rename a b s))"
  by (auto simp: os_Rename_def split: option.splits node.splits)

lemma extends_os_Link: "extends s (snd (os_Link a b s))"
  by (auto simp: os_Link_def split: option.splits)

lemma extends_TempDir: "extends s (snd (TempDir pre s))"
  by (auto simp: TempDir_def split: option.splits)

lemma extends_os_RemoveAll: "extends s (snd (os_RemoveAll p s))"
  by (auto simp: os_RemoveAll_def split: option.splits)

end
