(* ===== verification/GoHash.thy ===== *)
theory GoHash
  imports GoStrings
begin

unbundle bit_operations_syntax

text \<open>
  The hash functions of Go's standard library that the program uses: \<open>hash/crc64\<close> with
  the ISO polynomial (the per-file checksums of tar-split) and \<open>crypto/sha256\<close>,
  \<open>crypto/sha512\<close> (the digests of layers).  They are the published algorithms on byte
  lists; the theorems of the development use their output lengths, that
  \<open>crc64\<close> and the digests are functions of the bytes, and nothing about collisions.
\<close>

section \<open>hash/crc64, ISO polynomial\<close>

definition crc64_poly :: "64 word" where
  "crc64_poly = 0xD800000000000000"

definition crc64_shift :: "64 word \<Rightarrow> 64 word" where
  "crc64_shift c = (if bit c 0 then drop_bit 1 c XOR crc64_poly else drop_bit 1 c)"

definition crc64_byte :: "char \<Rightarrow> 64 word \<Rightarrow> 64 word" where
  "crc64_byte b c =
     (crc64_shift ^^ 8) ((c AND 0xFF) XOR of_nat (of_char b)) XOR drop_bit 8 c"

text \<open>The running value is complemented on entry and on exit; \<open>Sum\<close> is big-endian.\<close>

definition crc64_update :: "64 word \<Rightarrow> bytes \<Rightarrow> 64 word" where
  "crc64_update c bs = NOT (fold crc64_byte bs (NOT c))"

fun be_bytes :: "nat \<Rightarrow> int \<Rightarrow> bytes" where
  "be_bytes 0 n = []"
| "be_bytes (Suc k) n = be_bytes k (n div 256) @ [byte (nat (n mod 256))]"

lemma length_be_bytes [simp]: "length (be_bytes k n) = k"
  by (induction k arbitrary: n) auto

definition crc64_sum :: "64 word \<Rightarrow> bytes" where
  "crc64_sum c = be_bytes 8 (uint c)"

definition crc64 :: "bytes \<Rightarrow> bytes" where
  "crc64 bs = crc64_sum (crc64_update 0 bs)"

lemma length_crc64 [simp]: "length (crc64 bs) = 8"
  by (simp add: crc64_def crc64_sum_def)

lemma crc64_update_append:
  "crc64_update c (xs @ ys) = crc64_update (crc64_update c xs) ys"
  by (simp add: crc64_update_def)

section \<open>crypto/sha256 and crypto/sha512\<close>

text \<open>
  Both are the same construction over 32-bit and 64-bit words, with their own rotation
  amounts, constants and initial values.
\<close>

record 'w sha2 =
  big0 :: "'w \<Rightarrow> 'w"
  big1 :: "'w \<Rightarrow> 'w"
  small0 :: "'w \<Rightarrow> 'w"
  small1 :: "'w \<Rightarrow> 'w"
  consts_K :: "'w list"
  word_size :: nat

definition rotr :: "nat \<Rightarrow> 'a::len word \<Rightarrow> 'a word" where
  "rotr n w = drop_bit n w OR push_bit (LENGTH('a) - n) w"

definition rot3 :: "nat \<Rightarrow> nat \<Rightarrow> nat \<Rightarrow> 'a::len word \<Rightarrow> 'a word" where
  "rot3 a b c w = rotr a w XOR rotr b w XOR rotr c w"

definition rot2s :: "nat \<Rightarrow> nat \<Rightarrow> nat \<Rightarrow> 'a::len word \<Rightarrow> 'a word" where
  "rot2s a b c w = rotr a w XOR rotr b w XOR drop_bit c w"

text \<open>The message schedule, latest word first.\<close>

fun schedule :: "('a::len word) sha2 \<Rightarrow> nat \<Rightarrow> 'a word list \<Rightarrow> 'a word list" where
  "schedule p 0 ws = ws"
| "schedule p (Suc n) ws =
     schedule p n ((small1 p (ws ! 1) + ws ! 6 + small0 p (ws ! 14) + ws ! 15) # ws)"

fun sha2_round :: "('a::len word) sha2 \<Rightarrow> 'a word \<times> 'a word \<Rightarrow> 'a word list \<Rightarrow> 'a word list" where
  "sha2_round p (k, w) [a, b, c, d, e, f, g, h] =
     (let t1 = h + big1 p e + ((e AND f) XOR (NOT e AND g)) + k + w;
          t2 = big0 p a + ((a AND b) XOR (a AND c) XOR (b AND c))
      in [t1 + t2, a, b, c, d + t1, e, f, g])"
| "sha2_round p _ st = st"

fun be_int :: "bytes \<Rightarrow> int \<Rightarrow> int" where
  "be_int [] n = n"
| "be_int (b # bs) n = be_int bs (256 * n + of_char b)"

function chunks :: "nat \<Rightarrow> 'b list \<Rightarrow> 'b list list" where
  "chunks k xs = (if k = 0 \<or> xs = [] then [] else take k xs # chunks k (drop k xs))"
  by pat_completeness auto
termination
  by (relation "measure (\<lambda>(k, xs). length xs)") auto

declare chunks.simps [simp del]

definition sha2_block :: "('a::len word) sha2 \<Rightarrow> bytes \<Rightarrow> 'a word list \<Rightarrow> 'a word list" where
  "sha2_block p blk st =
     (let ws = rev (map (\<lambda>c. word_of_int (be_int c 0)) (chunks (word_size p) blk));
          sched = rev (schedule p (length (consts_K p) - 16) ws)
      in map2 (+) st (fold (sha2_round p) (zip (consts_K p) sched) st))"

definition sha2_pad :: "nat \<Rightarrow> bytes \<Rightarrow> bytes" where
  "sha2_pad wsz msg =
     (let blk = 16 * wsz; used = (length msg + 1 + 2 * wsz) mod blk;
          fill = (if used = 0 then 0 else blk - used)
      in msg @ [byte 128] @ replicate fill (byte 0) @ be_bytes (2 * wsz) (8 * int (length msg)))"

definition sha2_sum :: "('a::len word) sha2 \<Rightarrow> 'a word list \<Rightarrow> bytes \<Rightarrow> 'a word list" where
  "sha2_sum p init msg =
     fold (sha2_block p) (chunks (16 * word_size p) (sha2_pad (word_size p) msg)) init"

definition words_bytes :: "nat \<Rightarrow> 'a::len word list \<Rightarrow> bytes" where
  "words_bytes wsz ws = concat (map (\<lambda>w. be_bytes wsz (uint w)) ws)"

text \<open>
  The tables of constants are the leading bits of the fractional parts of square and cube roots
  of the first primes: \<open>frac_root k w p\<close> has the first \<open>w\<close> fractional bits of the \<open>k\<close>-th root
  of \<open>p\<close>, found bit by bit.
\<close>

definition sha2_primes :: "int list" where
  "sha2_primes = [
    2, 3, 5, 7, 11, 13, 17, 19, 23, 29, 31, 37, 41, 43, 47, 53,
    59, 61, 67, 71, 73, 79, 83, 89, 97, 101, 103, 107, 109, 113, 127, 131,
    137, 139, 149, 151, 157, 163, 167, 173, 179, 181, 191, 193, 197, 199, 211, 223,
    227, 229, 233, 239, 241, 251, 257, 263, 269, 271, 277, 281, 283, 293, 307, 311,
    313, 317, 331, 337, 347, 349, 353, 359, 367, 373, 379, 383, 389, 397, 401, 409]"

fun root_bits :: "nat \<Rightarrow> nat \<Rightarrow> int \<Rightarrow> int \<Rightarrow> int" where
  "root_bits k 0 n r = r"
| "root_bits k (Suc b) n r = root_bits k b n (if (r + 2 ^ b) ^ k \<le> n then r + 2 ^ b else r)"

definition frac_root :: "nat \<Rightarrow> nat \<Rightarrow> int \<Rightarrow> int" where
  "frac_root k w p = root_bits k (w + 9) (p * 2 ^ (k * w)) 0 mod 2 ^ w"

definition sha256_K :: "32 word list" where
  "sha256_K = map (\<lambda>p. word_of_int (frac_root 3 32 p)) (take 64 sha2_primes)"

definition sha256_H0 :: "32 word list" where
  "sha256_H0 = map (\<lambda>p. word_of_int (frac_root 2 32 p)) (take 8 sha2_primes)"

definition sha512_K :: "64 word list" where
  "sha512_K = map (\<lambda>p. word_of_int (frac_root 3 64 p)) sha2_primes"

definition sha512_H0 :: "64 word list" where
  "sha512_H0 = map (\<lambda>p. word_of_int (frac_root 2 64 p)) (take 8 sha2_primes)"

definition sha384_H0 :: "64 word list" where
  "sha384_H0 = map (\<lambda>p. word_of_int (frac_root 2 64 p)) (take 8 (drop 8 sha2_primes))"

definition sha256_params :: "(32 word) sha2" where
  "sha256_params =
     \<lparr>big0 = rot3 2 13 22, big1 = rot3 6 11 25, small0 = rot2s 7 18 3, small1 = rot2s 17 19 10,
      consts_K = sha256_K, word_size = 4\<rparr>"

definition sha512_params :: "(64 word) sha2" where
  "sha512_params =
     \<lparr>big0 = rot3 28 34 39, big1 = rot3 14 18 41, small0 = rot2s 1 8 7, small1 = rot2s 19 61 6,
      consts_K = sha512_K, word_size = 8\<rparr>"

definition sha256 :: "bytes \<Rightarrow> bytes" where
  "sha256 msg = words_bytes 4 (sha2_sum sha256_params sha256_H0 msg)"

definition sha512 :: "bytes \<Rightarrow> bytes" where
  "sha512 msg = words_bytes 8 (sha2_sum sha512_params sha512_H0 msg)"

definition sha384 :: "bytes \<Rightarrow> bytes" where
  "sha384 msg = take 48 (words_bytes 8 (sha2_sum sha512_params sha384_H0 msg))"

section \<open>Output lengths\<close>

lemma length_sha2_round: "length (sha2_round p kw st) = length st"
  by (cases "(p, kw, st)" rule: sha2_round.cases) (auto simp: Let_def)

lemma length_fold_rounds: "length (fold (sha2_round p) kws st) = length st"
  by (induction kws arbitrary: st) (auto simp: length_sha2_round)

lemma length_sha2_sum: "length (sha2_sum p init msg) = length init"
proof -
  have "length (fold (sha2_block p) bs init) = length init" for bs
    by (induction bs arbitrary: init) (auto simp: sha2_block_def Let_def length_fold_rounds)
  then show ?thesis by (simp add: sha2_sum_def)
qed

lemma length_words_bytes: "length (words_bytes k ws) = k * length ws"
  by (induction ws) (auto simp: words_bytes_def)

lemma length_sha256 [simp]: "length (sha256 msg) = 32"
  by (simp add: sha256_def length_words_bytes length_sha2_sum sha256_H0_def sha2_primes_def)

lemma length_sha512 [simp]: "length (sha512 msg) = 64"
  by (simp add: sha512_def length_words_bytes length_sha2_sum sha512_H0_def sha2_primes_def)

lemma length_sha384 [simp]: "length (sha384 msg) = 48"
  by (simp add: sha384_def length_words_bytes length_sha2_sum sha384_H0_def sha2_primes_def)

end
