(* ===== verification/GoBase64.thy ===== *)
theory GoBase64
  imports GoStrings
begin

text \<open>
  \<open>encoding/base64\<close>, standard alphabet with padding: what \<open>encoding/json\<close> writes for a
  \<open>[]byte\<close> field and accepts for one.
\<close>

definition b64_table :: string where
  "b64_table = ''ABCDEFGHIJKLMNOPQRSTUVWXYZabcdefghijklmnopqrstuvwxyz0123456789+/''"

definition b64_char :: "nat \<Rightarrow> char" where
  "b64_char n = b64_table ! n"

definition b64_val :: "char \<Rightarrow> nat option" where
  "b64_val c = index_byte c b64_table"

fun b64_encode :: "bytes \<Rightarrow> string" where
  "b64_encode [] = []"
| "b64_encode [a] =
     (let x = of_char a in [b64_char (x div 4), b64_char (x mod 4 * 16), CHR ''='', CHR ''=''])"
| "b64_encode [a, b] =
     (let x = of_char a; y = of_char b
      in [b64_char (x div 4), b64_char (x mod 4 * 16 + y div 16), b64_char (y mod 16 * 4), CHR ''=''])"
| "b64_encode (a # b # c # r) =
     (let x = of_char a; y = of_char b; z = of_char c
      in b64_char (x div 4) # b64_char (x mod 4 * 16 + y div 16) #
         b64_char (y mod 16 * 4 + z div 64) # b64_char (z mod 64) # b64_encode r)"

text \<open>Decoding skips line breaks; padding may only end the input.\<close>

fun b64_decode_quads :: "string \<Rightarrow> bytes option" where
  "b64_decode_quads [] = Some []"
| "b64_decode_quads (p # q # r # s # t) =
     (case (b64_val p, b64_val q) of
        (Some i, Some j) \<Rightarrow>
          if r = CHR ''='' then
            (if s = CHR ''='' \<and> t = [] then Some [byte (i * 4 + j div 16)] else None)
          else
            (case b64_val r of
               None \<Rightarrow> None
             | Some k \<Rightarrow>
                 if s = CHR ''='' then
                   (if t = [] then Some [byte (i * 4 + j div 16), byte (j mod 16 * 16 + k div 4)]
                    else None)
                 else
                   (case (b64_val s, b64_decode_quads t) of
                      (Some l, Some bs) \<Rightarrow>
                        Some (byte (i * 4 + j div 16) # byte (j mod 16 * 16 + k div 4) #
                              byte (k mod 4 * 64 + l) # bs)
                    | _ \<Rightarrow> None))
      | _ \<Rightarrow> None)"
| "b64_decode_quads _ = None"

definition b64_decode :: "string \<Rightarrow> bytes option" where
  "b64_decode s = b64_decode_quads (filter (\<lambda>c. c \<noteq> byte 10 \<and> c \<noteq> byte 13) s)"

section \<open>Round trip\<close>

lemma b64_table_index: "\<forall>n \<in> set [0..<64]. index_byte (b64_table ! n) b64_table = Some n"
  by code_simp

lemma b64_table_chars: "\<forall>n \<in> set [0..<64]. b64_table ! n \<noteq> CHR ''='' \<and>
    b64_table ! n \<noteq> byte 10 \<and> b64_table ! n \<noteq> byte 13"
  by code_simp

lemma b64_val_char [simp]: "n < 64 \<Longrightarrow> b64_val (b64_char n) = Some n"
  using b64_table_index by (auto simp: b64_val_def b64_char_def)

lemma b64_char_neq [simp]:
  assumes "n < 64"
  shows "b64_char n \<noteq> CHR ''=''" "b64_char n \<noteq> byte 10" "b64_char n \<noteq> byte 13"
  using assms b64_table_chars by (auto simp: b64_char_def)

lemma byte_of_char: "byte (of_char c) = c"
  by (simp add: byte_def)

lemma eq_sign_neq [simp]: "CHR ''='' \<noteq> byte 10" "CHR ''='' \<noteq> byte 13"
  by code_simp+

lemma char_quotients [simp]:
  fixes a :: char
  shows "(of_char a :: nat) div 4 < 64"
    and "(of_char a :: nat) div 16 < 16"
    and "(of_char a :: nat) div 64 < 4"
  using of_char_lt_256 [of a] by linarith+

lemma b64_digit_bounds [simp]:
  fixes x u :: nat
  shows "u < 16 \<Longrightarrow> x mod 4 * 16 + u < 64"
    and "u < 4 \<Longrightarrow> x mod 16 * 4 + u < 64"
    and "x mod 4 * 16 < 64"
    and "x mod 16 * 4 < 64"
proof -
  have "x mod 4 < 4" and "x mod 16 < 16" by simp_all
  then show "u < 16 \<Longrightarrow> x mod 4 * 16 + u < 64" and "u < 4 \<Longrightarrow> x mod 16 * 4 + u < 64"
    and "x mod 4 * 16 < 64" and "x mod 16 * 4 < 64" by linarith+
qed

lemma b64_encode_chars: "c \<in> set (b64_encode bs) \<Longrightarrow> c \<noteq> byte 10 \<and> c \<noteq> byte 13"
proof (induction bs rule: b64_encode.induct)
  case (2 a)
  then show ?case by (auto simp: Let_def)
next
  case (3 a b)
  then show ?case by (auto simp: Let_def)
next
  case (4 a b d r)
  then show ?case by (auto simp: Let_def)
qed simp

lemma b64_decode_quads_encode: "b64_decode_quads (b64_encode bs) = Some bs"
proof (induction bs rule: b64_encode.induct)
  case (2 a)
  then show ?case by (simp add: Let_def byte_of_char)
next
  case (3 a b)
  then show ?case by (simp add: Let_def byte_of_char)
next
  case (4 a b c r)
  have "b64_decode_quads (b64_encode r) = Some r" by (rule 4) simp_all
  then show ?case by (simp add: Let_def byte_of_char)
qed simp

lemma b64_decode_encode [simp]: "b64_decode (b64_encode bs) = Some bs"
proof -
  have "filter (\<lambda>c. c \<noteq> byte 10 \<and> c \<noteq> byte 13) (b64_encode bs) = b64_encode bs"
    by (rule filter_True) (auto dest: b64_encode_chars)
  then show ?thesis by (simp add: b64_decode_def b64_decode_quads_encode)
qed

end
