(* ===== verification/TarStorage.thy ===== *)
theory TarStorage
  imports GoFS GoHash GoBase64
begin

text \<open>
  Package \<open>tar-split/tar/storage\<close>: the entries of a tar-split record (\<open>entry.go\<close>), the JSON
  packer and unpacker that write and read them with their duplicate-path check
  (\<open>packer.go\<close>), and the file getters and putters (\<open>getter.go\<close>).

  \<open>encoding/json\<close> is modelled between Go values and JSON values: which keys a struct field
  writes and reads, \<open>omitempty\<close>, base64 for \<open>[]byte\<close>, the coercion of strings to valid UTF-8
  and the type errors of decoding.
\<close>

section \<open>Entries (entry.go)\<close>

definition FileType :: int64 where "FileType = 1"
definition SegmentType :: int64 where "SegmentType = 2"

text \<open>\<open>Payload\<close> distinguishes a nil slice (JSON null) from an empty one.\<close>

record entry =
  etype :: int64
  ename :: string
  ename_raw :: bytes
  esize :: int64
  epayload :: "bytes option"
  eposition :: int64

definition zero_entry :: entry where
  "zero_entry = \<lparr>etype = 0, ename = [], ename_raw = [], esize = 0, epayload = None, eposition = 0\<rparr>"

definition SetName :: "string \<Rightarrow> entry \<Rightarrow> entry" where
  "SetName name e =
     (if ValidString name then e\<lparr>ename := name\<rparr> else e\<lparr>ename_raw := name\<rparr>)"

definition SetNameBytes :: "bytes \<Rightarrow> entry \<Rightarrow> entry" where
  "SetNameBytes name e =
     (if ValidString name then e\<lparr>ename := name\<rparr> else e\<lparr>ename_raw := name\<rparr>)"

definition GetName :: "entry \<Rightarrow> string" where
  "GetName e = (if 0 < length (ename_raw e) then ename_raw e else ename e)"

definition GetNameBytes :: "entry \<Rightarrow> bytes" where
  "GetNameBytes e = (if 0 < length (ename_raw e) then ename_raw e else ename e)"

text \<open>The bytes of a payload; Go reads a nil slice as empty.\<close>

definition payload :: "entry \<Rightarrow> bytes" where
  "payload e = (case epayload e of None \<Rightarrow> [] | Some b \<Rightarrow> b)"

definition entries_Less :: "entry list \<Rightarrow> nat \<Rightarrow> nat \<Rightarrow> bool" where
  "entries_Less es i j \<longleftrightarrow> sint (eposition (es ! i)) < sint (eposition (es ! j))"

section \<open>JSON of an entry\<close>

definition omit :: "bool \<Rightarrow> (string \<times> json) \<Rightarrow> (string \<times> json) list" where
  "omit isempty kv = (if isempty then [] else [kv])"

definition encode_entry :: "entry \<Rightarrow> json" where
  "encode_entry e =
     JObj ([(''type'', JInt (sint (etype e)))] @
           omit (ename e = []) (''name'', JStr (coerce_utf8 (ename e))) @
           omit (ename_raw e = []) (''name_raw'', JStr (b64_encode (ename_raw e))) @
           omit (esize e = 0) (''size'', JInt (sint (esize e))) @
           [(''payload'', case epayload e of None \<Rightarrow> JNull | Some b \<Rightarrow> JStr (b64_encode b)),
            (''position'', JInt (sint (eposition e)))])"

definition ErrUnmarshalType :: err where
  "ErrUnmarshalType = ErrText ''json: cannot unmarshal value''"

text \<open>Object keys match field names up to case folding.\<close>

definition lower :: "char \<Rightarrow> char" where
  "lower c = (if in_range 65 90 c then byte (of_char c + 32) else c)"

fun fold_key :: "string \<Rightarrow> string" where
  "fold_key [] = []"
| "fold_key (a # b # c # t) =
     (if a = byte 197 \<and> b = byte 191 then CHR ''s'' # fold_key (c # t)
      else if a = byte 226 \<and> b = byte 132 \<and> c = byte 170 then CHR ''k'' # fold_key t
      else lower a # fold_key (b # c # t))"
| "fold_key [a, b] =
     (if a = byte 197 \<and> b = byte 191 then [CHR ''s''] else [lower a, lower b])"
| "fold_key [a] = [lower a]"

definition decode_int :: "json \<Rightarrow> int64 \<Rightarrow> int64 res" where
  "decode_int j old =
     (case j of
        JInt i \<Rightarrow> if - (2 ^ 63) \<le> i \<and> i < 2 ^ 63 then Inr (word_of_int i) else Inl ErrUnmarshalType
      | JNull \<Rightarrow> Inr old
      | _ \<Rightarrow> Inl ErrUnmarshalType)"

definition decode_string :: "json \<Rightarrow> string \<Rightarrow> string res" where
  "decode_string j old =
     (case j of JStr s \<Rightarrow> Inr s | JNull \<Rightarrow> Inr old | _ \<Rightarrow> Inl ErrUnmarshalType)"

fun decode_byte_array :: "json list \<Rightarrow> bytes res" where
  "decode_byte_array [] = Inr []"
| "decode_byte_array (j # js) =
     (case (case j of
              JInt i \<Rightarrow> if 0 \<le> i \<and> i < 256 then Inr (byte (nat i)) else Inl ErrUnmarshalType
            | JNull \<Rightarrow> Inr (byte 0)
            | _ \<Rightarrow> Inl ErrUnmarshalType) of
        Inl e \<Rightarrow> Inl e
      | Inr b \<Rightarrow> map_sum id (\<lambda>bs. b # bs) (decode_byte_array js))"

definition decode_bytes :: "json \<Rightarrow> bytes option res" where
  "decode_bytes j =
     (case j of
        JNull \<Rightarrow> Inr None
      | JStr s \<Rightarrow> (case b64_decode s of None \<Rightarrow> Inl ErrUnmarshalType | Some b \<Rightarrow> Inr (Some b))
      | JArr js \<Rightarrow> map_sum id Some (decode_byte_array js)
      | _ \<Rightarrow> Inl ErrUnmarshalType)"

text \<open>
  One key of the object.  A mismatch is remembered and decoding goes on; \<open>Decode\<close> returns
  the first one.
\<close>

definition decode_field :: "string \<times> json \<Rightarrow> entry \<times> err option \<Rightarrow> entry \<times> err option" where
  "decode_field kv st =
     (let (e, er) = st; k = fold_key (fst kv); j = snd kv;
          keep = (\<lambda>(r :: entry res). case r of
                    Inl x \<Rightarrow> (e, case er of None \<Rightarrow> Some x | Some y \<Rightarrow> Some y)
                  | Inr e' \<Rightarrow> (e', er))
      in if k = ''type'' then keep (map_sum id (\<lambda>i. e\<lparr>etype := i\<rparr>) (decode_int j (etype e)))
         else if k = ''name'' then keep (map_sum id (\<lambda>s. e\<lparr>ename := s\<rparr>) (decode_string j (ename e)))
         else if k = ''name_raw'' then
           keep (map_sum id (\<lambda>b. e\<lparr>ename_raw := (case b of None \<Rightarrow> [] | Some x \<Rightarrow> x)\<rparr>) (decode_bytes j))
         else if k = ''size'' then keep (map_sum id (\<lambda>i. e\<lparr>esize := i\<rparr>) (decode_int j (esize e)))
         else if k = ''payload'' then keep (map_sum id (\<lambda>b. e\<lparr>epayload := b\<rparr>) (decode_bytes j))
         else if k = ''position'' then
           keep (map_sum id (\<lambda>i. e\<lparr>eposition := i\<rparr>) (decode_int j (eposition e)))
         else st)"

definition decode_entry :: "json \<Rightarrow> entry res" where
  "decode_entry j =
     (case j of
        JNull \<Rightarrow> Inr zero_entry
      | JObj kvs \<Rightarrow>
          (let (e, er) = fold decode_field kvs (zero_entry, None)
           in case er of Some x \<Rightarrow> Inl x | None \<Rightarrow> Inr e)
      | _ \<Rightarrow> Inl ErrUnmarshalType)"

section \<open>Packer and unpacker (packer.go)\<close>

definition ErrDuplicatePath :: err where
  "ErrDuplicatePath = ErrText ''duplicates of file paths not supported''"

text \<open>The decoder's state: the documents still to come and how the stream ends.\<close>

record unpacker =
  up_seen :: "string set"
  up_docs :: "json list"
  up_end :: err

definition NewJSONUnpacker :: "json list \<Rightarrow> err \<Rightarrow> unpacker" where
  "NewJSONUnpacker docs en = \<lparr>up_seen = {}, up_docs = docs, up_end = en\<rparr>"

definition unpacker_Next :: "unpacker \<Rightarrow> entry res \<times> unpacker" where
  "unpacker_Next u =
     (case up_docs u of
        [] \<Rightarrow> (Inl (up_end u), u)
      | d # ds \<Rightarrow>
          (let u' = u\<lparr>up_docs := ds\<rparr>
           in case decode_entry d of
                Inl e \<Rightarrow> (Inl e, u')
              | Inr e \<Rightarrow>
                  if etype e = FileType then
                    (let cName = Clean (GetName e)
                     in if cName \<in> up_seen u then (Inl ErrDuplicatePath, u')
                        else (Inr e, u'\<lparr>up_seen := insert cName (up_seen u)\<rparr>))
                  else (Inr e, u')))"

text \<open>
  The packer's writer: the documents written so far, and an arbitrary function that says
  which write fails.
\<close>

record packer =
  pk_docs :: "json list"
  pk_fail :: "int64 \<Rightarrow> err option"
  pk_pos :: int64
  pk_seen :: "string set"

definition NewJSONPacker :: "(int64 \<Rightarrow> err option) \<Rightarrow> packer" where
  "NewJSONPacker wfail = \<lparr>pk_docs = [], pk_fail = wfail, pk_pos = 0, pk_seen = {}\<rparr>"

definition raw_name :: "entry \<Rightarrow> entry" where
  "raw_name e =
     (if ename e \<noteq> [] then
        (if \<not> ValidString (ename e) then e\<lparr>ename_raw := ename e, ename := []\<rparr> else e)
      else e)"

definition encode_at :: "entry \<Rightarrow> packer \<Rightarrow> int64 res \<times> packer" where
  "encode_at e p =
     (let e' = e\<lparr>eposition := pk_pos p\<rparr>
      in case pk_fail p (pk_pos p) of
           Some x \<Rightarrow> (Inl x, p)
         | None \<Rightarrow> (Inr (eposition e'),
                    p\<lparr>pk_docs := pk_docs p @ [encode_entry e'], pk_pos := pk_pos p + 1\<rparr>))"

definition AddEntry :: "entry \<Rightarrow> packer \<Rightarrow> int64 res \<times> packer" where
  "AddEntry e0 p =
     (let e = raw_name e0
      in if etype e = FileType then
           (let cName = Clean (GetName e)
            in if cName \<in> pk_seen p then (Inl ErrDuplicatePath, p)
               else encode_at e (p\<lparr>pk_seen := insert cName (pk_seen p)\<rparr>))
         else encode_at e p)"

section \<open>Getters and putters (getter.go)\<close>

text \<open>\<open>pathFileGetter.Get\<close>: the file below the layer's directory.\<close>

definition pathFileGetter_Get :: "fs \<Rightarrow> string \<Rightarrow> string \<Rightarrow> stream res" where
  "pathFileGetter_Get s root filename =
     (case os_Open s (Join [root, filename]) of
        Inl e \<Rightarrow> Inl e
      | Inr i \<Rightarrow> Inr (ino_stream s (Join [root, filename]) i))"

type_synonym file_buffer = "(string \<times> bytes) list"

definition bufferFileGetPutter_Get :: "file_buffer \<Rightarrow> string \<Rightarrow> stream res" where
  "bufferFileGetPutter_Get files name =
     (case map_of files name of
        None \<Rightarrow> Inl (ErrText ''no such file'')
      | Some b \<Rightarrow> Inr (b, None))"

definition bufferFileGetPutter_Put ::
  "string \<Rightarrow> stream \<Rightarrow> file_buffer \<Rightarrow> (int64 \<times> bytes) res \<times> file_buffer" where
  "bufferFileGetPutter_Put name r files =
     (case snd r of
        Some e \<Rightarrow> (Inl e, files)
      | None \<Rightarrow> (Inr (of_nat (length (fst r)), crc64 (fst r)), AList.update name (fst r) files))"

text \<open>\<open>bitBucketFilePutter.Put\<close> returns the sum of what was read even with an error.\<close>

definition bitBucketFilePutter_Put :: "string \<Rightarrow> stream \<Rightarrow> int64 \<times> bytes \<times> err option" where
  "bitBucketFilePutter_Put name r = (of_nat (length (fst r)), crc64 (fst r), snd r)"

section \<open>Round trip of one entry\<close>

lemma sint_range64: "- (2 ^ 63) \<le> sint (w :: int64)" "sint (w :: int64) < 2 ^ 63"
  using sint_ge [of w] sint_lt [of w] by simp_all

lemma decode_int_sint [simp]: "decode_int (JInt (sint w)) old = Inr w"
  using sint_range64 [of w] by (simp add: decode_int_def)

text \<open>A name without capitals and without bytes above 127 is its own case folding.\<close>

definition ascii_key :: "string \<Rightarrow> bool" where
  "ascii_key s \<longleftrightarrow>
     list_all (\<lambda>c. (of_char c :: nat) < 65 \<or> 90 < (of_char c :: nat) \<and> (of_char c :: nat) < 128) s"

lemma fold_key_ascii: "ascii_key s \<Longrightarrow> fold_key s = s"
proof (induction s rule: fold_key.induct)
  case (2 a b c t)
  have "a \<noteq> byte 197" "a \<noteq> byte 226" using "2.prems" by (auto simp: ascii_key_def of_char_byte)
  with 2 show ?case by (auto simp: ascii_key_def lower_def in_range_def)
next
  case (3 a b)
  have "a \<noteq> byte 197" using "3.prems" by (auto simp: ascii_key_def of_char_byte)
  with 3 show ?case by (auto simp: ascii_key_def lower_def in_range_def)
qed (auto simp: ascii_key_def lower_def in_range_def)

declare fold_key.simps [simp del]

lemma fold_keys [simp]:
  "fold_key ''type'' = ''type''" "fold_key ''name'' = ''name''"
  "fold_key ''name_raw'' = ''name_raw''" "fold_key ''size'' = ''size''"
  "fold_key ''payload'' = ''payload''" "fold_key ''position'' = ''position''"
  by (rule fold_key_ascii, simp add: ascii_key_def)+

lemma decode_field_simps [simp]:
  "decode_field (''type'', j) (e, er) =
     (case decode_int j (etype e) of
        Inl x \<Rightarrow> (e, case er of None \<Rightarrow> Some x | Some y \<Rightarrow> Some y) | Inr i \<Rightarrow> (e\<lparr>etype := i\<rparr>, er))"
  "decode_field (''name'', j) (e, er) =
     (case decode_string j (ename e) of
        Inl x \<Rightarrow> (e, case er of None \<Rightarrow> Some x | Some y \<Rightarrow> Some y) | Inr s \<Rightarrow> (e\<lparr>ename := s\<rparr>, er))"
  "decode_field (''name_raw'', j) (e, er) =
     (case decode_bytes j of
        Inl x \<Rightarrow> (e, case er of None \<Rightarrow> Some x | Some y \<Rightarrow> Some y)
      | Inr b \<Rightarrow> (e\<lparr>ename_raw := (case b of None \<Rightarrow> [] | Some x \<Rightarrow> x)\<rparr>, er))"
  "decode_field (''size'', j) (e, er) =
     (case decode_int j (esize e) of
        Inl x \<Rightarrow> (e, case er of None \<Rightarrow> Some x | Some y \<Rightarrow> Some y) | Inr i \<Rightarrow> (e\<lparr>esize := i\<rparr>, er))"
  "decode_field (''payload'', j) (e, er) =
     (case decode_bytes j of
        Inl x \<Rightarrow> (e, case er of None \<Rightarrow> Some x | Some y \<Rightarrow> Some y) | Inr b \<Rightarrow> (e\<lparr>epayload := b\<rparr>, er))"
  "decode_field (''position'', j) (e, er) =
     (case decode_int j (eposition e) of
        Inl x \<Rightarrow> (e, case er of None \<Rightarrow> Some x | Some y \<Rightarrow> Some y) | Inr i \<Rightarrow> (e\<lparr>eposition := i\<rparr>, er))"
  by (cases "decode_int j (etype e)"; cases "decode_string j (ename e)"; cases "decode_bytes j";
      cases "decode_int j (esize e)"; cases "decode_int j (eposition e)"; simp add: decode_field_def Let_def)+

lemma decode_encode_entry:
  assumes "ValidString (ename e)"
  shows "decode_entry (encode_entry e) = Inr e"
  using assms
  by (simp add: decode_entry_def encode_entry_def omit_def zero_entry_def decode_string_def
      decode_bytes_def coerce_utf8_valid split: option.splits)

lemma raw_name_valid: "ValidString (ename (raw_name e))"
  by (simp add: raw_name_def)

lemma GetName_raw_name:
  assumes "ename_raw e = [] \<or> ValidString (ename e)"
  shows "GetName (raw_name e) = GetName e"
  using assms by (auto simp: raw_name_def GetName_def)

lemma raw_name_fields [simp]:
  "etype (raw_name e) = etype e" "esize (raw_name e) = esize e" "epayload (raw_name e) = epayload e"
  by (simp_all add: raw_name_def)

lemma GetName_SetName:
  assumes "ename e = []" and "ename_raw e = []"
  shows "GetName (SetName n e) = n"
  using assms by (auto simp: SetName_def GetName_def)

lemma GetName_position [simp]: "GetName (e\<lparr>eposition := p\<rparr>) = GetName e"
  by (simp add: GetName_def)


section \<open>Round trip of a whole record\<close>

fun pack_all :: "entry list \<Rightarrow> packer \<Rightarrow> err option \<times> packer" where
  "pack_all [] p = (None, p)"
| "pack_all (e # es) p =
     (case AddEntry e p of
        (Inl x, p') \<Rightarrow> (Some x, p')
      | (Inr _, p') \<Rightarrow> pack_all es p')"

lemma unpacker_Next_shrinks:
  "unpacker_Next u = (Inr e, u') \<Longrightarrow> length (up_docs u') < length (up_docs u)"
  by (auto simp: unpacker_Next_def Let_def split: list.splits sum.splits if_splits)

text \<open>Calling \<open>Next\<close> until it fails: the entries and the final error.\<close>

function unpack_all :: "unpacker \<Rightarrow> entry list \<times> err" where
  "unpack_all u =
     (case unpacker_Next u of
        (Inl x, u') \<Rightarrow> ([], x)
      | (Inr e, u') \<Rightarrow> (let (es, x) = unpack_all u' in (e # es, x)))"
  by pat_completeness auto
termination
  by (relation "measure (\<lambda>u. length (up_docs u))") (auto dest!: unpacker_Next_shrinks [OF sym])

declare unpack_all.simps [simp del]

definition stored :: "int64 \<Rightarrow> entry \<Rightarrow> entry" where
  "stored k e = (raw_name e)\<lparr>eposition := k\<rparr>"

fun stored_from :: "int64 \<Rightarrow> entry list \<Rightarrow> entry list" where
  "stored_from k [] = []"
| "stored_from k (e # es) = stored k e # stored_from (k + 1) es"

lemma ValidString_stored: "ValidString (ename (stored k e))"
  by (simp add: stored_def raw_name_valid)

lemma stored_fields [simp]:
  "etype (stored k e) = etype e" "esize (stored k e) = esize e" "epayload (stored k e) = epayload e"
  "eposition (stored k e) = k" "GetName (stored k e) = GetName (raw_name e)"
  by (simp_all add: stored_def)

lemma payload_stored [simp]: "payload (stored k e) = payload e"
  by (simp add: payload_def)

lemma length_stored_from [simp]: "length (stored_from k es) = length es"
  by (induction es arbitrary: k) auto

lemma stored_from_append:
  "stored_from k (xs @ ys) = stored_from k xs @ stored_from (k + of_nat (length xs)) ys"
  by (induction xs arbitrary: k) (auto simp: algebra_simps)

text \<open>What one successful \<open>AddEntry\<close> writes, and that \<open>Next\<close> accepts it.\<close>

lemma AddEntry_ok:
  assumes "AddEntry e p = (Inr n, p')"
  shows "pk_docs p' = pk_docs p @ [encode_entry (stored (pk_pos p) e)]"
    and "pk_pos p' = pk_pos p + 1"
    and "n = pk_pos p"
    and "unpacker_Next \<lparr>up_seen = pk_seen p, up_docs = encode_entry (stored (pk_pos p) e) # ds, up_end = en\<rparr> =
           (Inr (stored (pk_pos p) e), \<lparr>up_seen = pk_seen p', up_docs = ds, up_end = en\<rparr>)"
  using assms decode_encode_entry [OF ValidString_stored [of "pk_pos p" e]]
  by (auto simp: AddEntry_def encode_at_def Let_def stored_def unpacker_Next_def
      split: if_splits option.splits)

lemma pack_all_docs:
  assumes "pack_all es p = (None, p')"
  shows "\<exists>ds. pk_docs p' = pk_docs p @ ds \<and>
           unpack_all \<lparr>up_seen = pk_seen p, up_docs = ds, up_end = en\<rparr> = (stored_from (pk_pos p) es, en)"
  using assms
proof (induction es arbitrary: p)
  case Nil
  then show ?case by (simp add: unpack_all.simps unpacker_Next_def)
next
  case (Cons e es)
  then obtain n p1 where a: "AddEntry e p = (Inr n, p1)" and r: "pack_all es p1 = (None, p')"
    by (auto split: prod.splits sum.splits)
  from Cons.IH [OF r] obtain ds where ds: "pk_docs p' = pk_docs p1 @ ds"
    "unpack_all \<lparr>up_seen = pk_seen p1, up_docs = ds, up_end = en\<rparr> = (stored_from (pk_pos p1) es, en)"
    by blast
  note ok = AddEntry_ok [OF a]
  show ?case
    by (rule exI [of _ "encode_entry (stored (pk_pos p) e) # ds"])
      (subst unpack_all.simps, simp add: ok ds)
qed

text \<open>
  C29: The tar-split record is a faithful log: when every \<open>AddEntry\<close> of a list of entries
  succeeds, reading the written documents with the unpacker returns exactly those entries in
  their order, numbered from 0, with their names moved to \<open>name_raw\<close> where they are not valid
  UTF-8, and then ends as the stream ends; no duplicate-path error, no decoding error and no
  loss.
\<close>

theorem pack_unpack_roundtrip:
  assumes "pack_all es (NewJSONPacker wfail) = (None, p)"
  shows "unpack_all (NewJSONUnpacker (pk_docs p) en) = (stored_from 0 es, en)"
  using pack_all_docs [OF assms, of en] by (simp add: NewJSONPacker_def NewJSONUnpacker_def)

definition demo_entries :: "entry list" where
  "demo_entries =
     [zero_entry\<lparr>etype := SegmentType, epayload := Some ''hdr''\<rparr>,
      SetName [byte 255] (zero_entry\<lparr>etype := FileType, esize := 4, epayload := Some ''sum''\<rparr>)]"

lemma pack_unpack_roundtrip_witness:
  "\<exists>p. pack_all demo_entries (NewJSONPacker (\<lambda>_. None)) = (None, p) \<and>
       unpack_all (NewJSONUnpacker (pk_docs p) EOF) = (stored_from 0 demo_entries, EOF)"
proof -
  have "fst (pack_all demo_entries (NewJSONPacker (\<lambda>_. None))) = None" by code_simp
  then obtain p where p: "pack_all demo_entries (NewJSONPacker (\<lambda>_. None)) = (None, p)"
    by (metis prod.collapse)
  from pack_unpack_roundtrip [OF p, of EOF] p show ?thesis by blast
qed

end
