(* ===== verification/TarReader.thy ===== *)
theory TarReader
  imports GoHash GoFS
begin

text \<open>
  Package \<open>tar-split/archive/tar\<close>: the reader of \<open>reader.go\<close> with its raw accounting, the
  header layout, the PAX records, the GNU long names and the sparse formats.

  The underlying \<open>io.Reader\<close> is the bytes still to come and the error (or \<open>io.EOF\<close>) it ends
  with; each read delivers as much as it is asked for while there are bytes.  Go's iteration
  over a map visits the keys in an arbitrary order, a field of the reader's state here.  The
  field \<open>tr_sparse\<close> has no counterpart in the code: it records that a sparse entry was met, so
  that theorems can speak of streams without one.
\<close>

section \<open>Constants (common.go, reader.go)\<close>

definition blockSize :: nat where "blockSize = 512"
definition zeroBlock :: bytes where "zeroBlock = replicate 512 (byte 0)"

definition ErrHeader :: err where
  "ErrHeader = ErrText ''archive/tar: invalid tar header''"

definition TypeChar :: char where "TypeChar = CHR ''3''"
definition TypeBlock :: char where "TypeBlock = CHR ''4''"
definition TypeXHeader :: char where "TypeXHeader = CHR ''x''"
definition TypeGNULongName :: char where "TypeGNULongName = CHR ''L''"
definition TypeGNULongLink :: char where "TypeGNULongLink = CHR ''K''"
definition TypeGNUSparse :: char where "TypeGNUSparse = CHR ''S''"

text \<open>Times are the two arguments of \<open>time.Unix\<close>.\<close>

record header =
  Name :: string
  Mode :: int64
  Uid :: int64
  Gid :: int64
  Size :: int64
  ModTime :: "int64 \<times> int64"
  Typeflag :: char
  Linkname :: string
  Uname :: string
  Gname :: string
  Devmajor :: int64
  Devminor :: int64
  AccessTime :: "int64 \<times> int64"
  ChangeTime :: "int64 \<times> int64"
  Xattrs :: "(string \<times> string) list"

record sparseEntry =
  sp_offset :: int64
  sp_numBytes :: int64

text \<open>\<open>numBytesReader\<close>: \<open>regFileReader\<close> and \<open>sparseFileReader\<close>.\<close>

datatype curr_reader =
    RegFile int64
  | SparseFile int64 "sparseEntry list" int64 int64

record tar_reader =
  tr_rest :: bytes
  tr_end :: err
  tr_err :: "err option"
  tr_pad :: int64
  tr_curr :: "curr_reader option"
  tr_acc :: bool
  tr_raw :: bytes
  tr_order :: "(string \<times> string) list \<Rightarrow> (string \<times> string) list"
  tr_sparse :: bool

definition NewReader ::
  "bytes \<Rightarrow> err \<Rightarrow> ((string \<times> string) list \<Rightarrow> (string \<times> string) list) \<Rightarrow> tar_reader" where
  "NewReader bs en ord =
     \<lparr>tr_rest = bs, tr_end = en, tr_err = None, tr_pad = 0, tr_curr = None, tr_acc = False,
      tr_raw = [], tr_order = ord, tr_sparse = False\<rparr>"

text \<open>\<open>RawBytes\<close> hands the buffer out and resets it.\<close>

definition RawBytes :: "tar_reader \<Rightarrow> bytes \<times> tar_reader" where
  "RawBytes tr = (if tr_acc tr then (tr_raw tr, tr\<lparr>tr_raw := []\<rparr>) else ([], tr))"

definition write_raw :: "bytes \<Rightarrow> tar_reader \<Rightarrow> tar_reader" where
  "write_raw b tr = (if tr_acc tr then tr\<lparr>tr_raw := tr_raw tr @ b\<rparr> else tr)"

section \<open>Fields of a header block\<close>

definition cString :: "bytes \<Rightarrow> string" where
  "cString b = takeWhile (\<lambda>c. c \<noteq> byte 0) b"

text \<open>\<open>bytes.Trim(b, " \<open>\<close>x00")\<close>.\<close>

definition trim_field :: "bytes \<Rightarrow> bytes" where
  "trim_field b =
     (let p = (\<lambda>c. c = CHR '' '' \<or> c = byte 0) in rev (dropWhile p (rev (dropWhile p b))))"

text \<open>\<open>strconv.ParseUint(s, 8, 64)\<close>.\<close>

fun read_oct :: "int \<Rightarrow> string \<Rightarrow> int option" where
  "read_oct n [] = Some n"
| "read_oct n (c # cs) =
     (if in_range 48 55 c then read_oct (8 * n + (of_char c - 48)) cs else None)"

definition ParseUint8 :: "string \<Rightarrow> int option" where
  "ParseUint8 s =
     (if s = [] then None
      else case read_oct 0 s of
             None \<Rightarrow> None
           | Some n \<Rightarrow> if n < 2 ^ 64 then Some n else None)"

text \<open>\<open>octal\<close>: base 256 when the top bit of the first byte is set; \<open>None\<close> sets \<open>tr.err\<close>.\<close>

definition base256 :: "bytes \<Rightarrow> int64" where
  "base256 b =
     fold (\<lambda>c x. or (push_bit 8 x) (word_of_nat (of_char c)))
       (case b of [] \<Rightarrow> [] | c # cs \<Rightarrow> byte (of_char c mod 128) # cs) 0"

definition octal :: "bytes \<Rightarrow> int64 option" where
  "octal b =
     (if b \<noteq> [] \<and> 128 \<le> (of_char (hd b) :: nat) then Some (base256 b)
      else (let t = trim_field b
            in if t = [] then Some 0
               else map_option word_of_int (ParseUint8 (cString t))))"

definition slice :: "nat \<Rightarrow> nat \<Rightarrow> bytes \<Rightarrow> bytes" where
  "slice i j b = take (j - i) (drop i b)"

text \<open>\<open>checksum\<close>: the sums of the bytes read as unsigned and as signed, the checksum field
  counted as eight spaces.\<close>

definition chk_unsigned :: "bytes \<Rightarrow> int64" where
  "chk_unsigned h =
     (\<Sum>c\<leftarrow>take 148 h. word_of_nat (of_char c)) + 256 +
     (\<Sum>c\<leftarrow>drop 156 h. word_of_nat (of_char c))"

definition signed_byte :: "char \<Rightarrow> int64" where
  "signed_byte c = scast (word_of_nat (of_char c) :: 8 word)"

definition chk_signed :: "bytes \<Rightarrow> int64" where
  "chk_signed h =
     (\<Sum>c\<leftarrow>take 148 h. signed_byte c) + 256 + (\<Sum>c\<leftarrow>drop 156 h. signed_byte c)"

text \<open>A checksum field that is no octal number leaves \<open>tr.err\<close> set, which fails the header.\<close>

definition verifyChecksum :: "bytes \<Rightarrow> bool" where
  "verifyChecksum h =
     (case octal (slice 148 156 h) of
        None \<Rightarrow> False
      | Some given \<Rightarrow> given = chk_unsigned h \<or> given = chk_signed h)"

text \<open>
  The fields of a block whose checksum is right.  Any numeric field that does not parse, and a
  negative size, give \<open>ErrHeader\<close> (\<open>None\<close>); the fields of the device numbers are parsed for
  device entries only.
\<close>

definition header_format :: "bytes \<Rightarrow> string" where
  "header_format h =
     (let magic = slice 257 265 h
      in if take 6 magic = ''ustar'' @ [byte 0] then
           (if slice 508 512 h = ''tar'' @ [byte 0] then ''star'' else ''posix'')
         else if magic = ''ustar  '' @ [byte 0] then ''gnu'' else [])"

definition unpack_fields :: "bytes \<Rightarrow> header option" where
  "unpack_fields h =
     Option.bind (octal (slice 100 108 h)) (\<lambda>mode.
     Option.bind (octal (slice 108 116 h)) (\<lambda>uid.
     Option.bind (octal (slice 116 124 h)) (\<lambda>gid.
     Option.bind (octal (slice 124 136 h)) (\<lambda>size.
     if sint size < 0 then None else
     Option.bind (octal (slice 136 148 h)) (\<lambda>mtime.
       Some \<lparr>Name = cString (slice 0 100 h), Mode = mode, Uid = uid, Gid = gid, Size = size,
             ModTime = (mtime, 0), Typeflag = h ! 156, Linkname = cString (slice 157 257 h),
             Uname = [], Gname = [], Devmajor = 0, Devminor = 0, AccessTime = (0, 0),
             ChangeTime = (0, 0), Xattrs = []\<rparr>)))))"

definition add_prefix :: "string \<Rightarrow> header \<Rightarrow> header" where
  "add_prefix pre hdr = (if 0 < length pre then hdr\<lparr>Name := pre @ [slash] @ Name hdr\<rparr> else hdr)"

definition unpack_ustar :: "bytes \<Rightarrow> header \<Rightarrow> header option" where
  "unpack_ustar h hdr0 =
     (let fmt = header_format h
      in if fmt = [] then Some hdr0
         else
           (let hdr1 = hdr0\<lparr>Uname := cString (slice 265 297 h), Gname := cString (slice 297 329 h)\<rparr>
            in Option.bind
                 (if Typeflag hdr1 = TypeChar \<or> Typeflag hdr1 = TypeBlock then
                    Option.bind (octal (slice 329 337 h)) (\<lambda>maj.
                    Option.bind (octal (slice 337 345 h)) (\<lambda>min.
                      Some (hdr1\<lparr>Devmajor := maj, Devminor := min\<rparr>)))
                  else Some hdr1) (\<lambda>hdr2.
               if fmt = ''star'' then
                 Option.bind (octal (slice 476 488 h)) (\<lambda>atime.
                 Option.bind (octal (slice 488 500 h)) (\<lambda>ctime.
                   Some (add_prefix (cString (slice 345 476 h))
                           (hdr2\<lparr>AccessTime := (atime, 0), ChangeTime := (ctime, 0)\<rparr>))))
               else Some (add_prefix (cString (slice 345 500 h)) hdr2))))"

definition parse_header :: "bytes \<Rightarrow> header option" where
  "parse_header h = (if verifyChecksum h then Option.bind (unpack_fields h) (unpack_ustar h) else None)"


section \<open>Reading the underlying stream\<close>

text \<open>\<open>io.ReadFull\<close> for a buffer of \<open>k > 0\<close> bytes.\<close>

definition read_full :: "nat \<Rightarrow> tar_reader \<Rightarrow> bytes res \<times> tar_reader" where
  "read_full k tr =
     (if k \<le> length (tr_rest tr) then
        (Inr (take k (tr_rest tr)), tr\<lparr>tr_rest := drop k (tr_rest tr)\<rparr>)
      else if tr_rest tr = [] then (Inl (tr_end tr), tr)
      else (Inl (if tr_end tr = EOF then UnexpectedEOF else tr_end tr), tr\<lparr>tr_rest := []\<rparr>))"

definition numBytes :: "tar_reader \<Rightarrow> int64" where
  "numBytes tr =
     (case tr_curr tr of
        None \<Rightarrow> 0 | Some (RegFile nb) \<Rightarrow> nb | Some (SparseFile nb _ _ _) \<Rightarrow> nb)"

text \<open>\<open>skipUnread\<close>: \<open>io.CopyN\<close> of the unread bytes and the padding; a negative count copies
  nothing and is no error.\<close>

definition skipUnread :: "tar_reader \<Rightarrow> tar_reader" where
  "skipUnread tr =
     (let nr = sint (numBytes tr + tr_pad tr);
          got = (if nr \<le> 0 then [] else take (nat nr) (tr_rest tr));
          tr1 = write_raw got (tr\<lparr>tr_curr := None, tr_pad := 0, tr_rest := drop (length got) (tr_rest tr)\<rparr>)
      in tr1\<lparr>tr_err := (if int (length got) < nr then Some (tr_end tr) else None)\<rparr>)"

text \<open>
  One 512-byte block read by \<open>readHeader\<close>.  When the stream ends right before it and raw
  accounting is on, the zeroed buffer is written to the raw bytes and the error is cleared.
\<close>

definition read_block :: "tar_reader \<Rightarrow> bytes option \<times> tar_reader" where
  "read_block tr =
     (case read_full blockSize tr of
        (Inl e, tr1) \<Rightarrow>
          if e = EOF \<and> tr_acc tr then (None, (write_raw zeroBlock tr1)\<lparr>tr_err := None\<rparr>)
          else (None, tr1\<lparr>tr_err := Some e\<rparr>)
      | (Inr h, tr1) \<Rightarrow> (Some h, (write_raw h tr1)\<lparr>tr_err := None\<rparr>))"

section \<open>Old GNU sparse maps\<close>

text \<open>Up to \<open>n\<close> entries of a block; a zero entry ends them, a bad number is an error.\<close>

fun sparse_entries :: "nat \<Rightarrow> bytes \<Rightarrow> sparseEntry list option" where
  "sparse_entries 0 b = Some []"
| "sparse_entries (Suc n) b =
     (case octal (take 12 b) of
        None \<Rightarrow> None
      | Some off \<Rightarrow>
          (case octal (take 12 (drop 12 b)) of
             None \<Rightarrow> None
           | Some nb \<Rightarrow>
               if off = 0 \<and> nb = 0 then Some []
               else map_option (\<lambda>es. \<lparr>sp_offset = off, sp_numBytes = nb\<rparr> # es)
                      (sparse_entries n (drop 24 b))))"

text \<open>The extension headers.\<close>

lemma read_full_shrinks:
  "read_full k tr = (Inr b, tr1) \<Longrightarrow> 0 < k \<Longrightarrow> length (tr_rest tr1) < length (tr_rest tr)"
  by (auto simp: read_full_def split: if_splits)

lemma tr_rest_write_raw [simp]: "tr_rest (write_raw b tr) = tr_rest tr"
  by (simp add: write_raw_def)

function sparse_ext :: "sparseEntry list \<Rightarrow> tar_reader \<Rightarrow> sparseEntry list option \<times> tar_reader" where
  "sparse_ext sp tr =
     (case read_full blockSize tr of
        (Inl e, tr1) \<Rightarrow> (None, tr1\<lparr>tr_err := Some e\<rparr>)
      | (Inr h, tr1) \<Rightarrow>
          (let tr2 = (write_raw h tr1)\<lparr>tr_err := None\<rparr>
           in case sparse_entries 21 h of
                None \<Rightarrow> (None, tr2\<lparr>tr_err := Some ErrHeader\<rparr>)
              | Some es \<Rightarrow>
                  if h ! 504 \<noteq> byte 0 then sparse_ext (sp @ es) tr2
                  else (Some (sp @ es), tr2)))"
  by pat_completeness auto
termination
  by (relation "measure (\<lambda>(sp, tr). length (tr_rest tr))")
    (auto dest!: read_full_shrinks [OF sym] simp: blockSize_def)

declare sparse_ext.simps [simp del]

definition readOldGNUSparseMap :: "bytes \<Rightarrow> tar_reader \<Rightarrow> sparseEntry list option \<times> tar_reader" where
  "readOldGNUSparseMap h tr =
     (case sparse_entries 4 (drop 386 h) of
        None \<Rightarrow> (None, tr\<lparr>tr_err := Some ErrHeader\<rparr>)
      | Some sp \<Rightarrow> if h ! 482 \<noteq> byte 0 then sparse_ext sp tr else (Some sp, tr))"

section \<open>readHeader\<close>

definition open_entry :: "bytes \<Rightarrow> header \<Rightarrow> tar_reader \<Rightarrow> header option \<times> tar_reader" where
  "open_entry h hdr tr =
     (let nb = Size hdr;
          tr1 = tr\<lparr>tr_pad := and (- nb) 511, tr_curr := Some (RegFile nb)\<rparr>
      in if Typeflag hdr = TypeGNUSparse then
           (case octal (slice 483 495 h) of
              None \<Rightarrow> (None, tr1\<lparr>tr_err := Some ErrHeader, tr_sparse := True\<rparr>)
            | Some rsize \<Rightarrow>
                (case readOldGNUSparseMap h tr1 of
                   (None, tr2) \<Rightarrow> (None, tr2\<lparr>tr_sparse := True\<rparr>)
                 | (Some sp, tr2) \<Rightarrow>
                     (Some (hdr\<lparr>Size := rsize\<rparr>),
                      tr2\<lparr>tr_curr := Some (SparseFile nb sp 0 rsize), tr_sparse := True\<rparr>)))
         else (Some hdr, tr1))"

definition readHeader :: "tar_reader \<Rightarrow> header option \<times> tar_reader" where
  "readHeader tr =
     (case read_block tr of
        (None, tr1) \<Rightarrow> (None, tr1)
      | (Some h, tr1) \<Rightarrow>
          if h = zeroBlock then
            (case read_block tr1 of
               (None, tr2) \<Rightarrow> (None, tr2)
             | (Some h2, tr2) \<Rightarrow>
                 (None, tr2\<lparr>tr_err := Some (if h2 = zeroBlock then EOF else ErrHeader)\<rparr>))
          else
            (case parse_header h of
               None \<Rightarrow> (None, tr1\<lparr>tr_err := Some ErrHeader\<rparr>)
             | Some hdr \<Rightarrow> open_entry h hdr tr1))"

section \<open>Reading an entry\<close>

text \<open>
  \<open>regFileReader.Read\<close> and \<open>sparseFileReader.Read\<close> into a buffer of \<open>k\<close> bytes.  A negative
  slice bound is a run-time panic.
\<close>

definition reg_Read :: "int \<Rightarrow> int64 \<Rightarrow> tar_reader \<Rightarrow> (bytes \<times> err option \<times> int64 \<times> tar_reader) outcome" where
  "reg_Read k nb tr =
     (if nb = 0 then Ret ([], Some EOF, nb, tr)
      else if sint nb < 0 then Panic ''slice bounds out of range''
      else
        (let n = nat (min k (sint nb));
             got = take n (tr_rest tr);
             er = (if tr_rest tr = [] \<and> 0 < n then Some (tr_end tr) else None);
             nb' = nb - of_nat (length got)
         in Ret (got, if er = Some EOF \<and> 0 < sint nb' then Some UnexpectedEOF else er, nb',
                 tr\<lparr>tr_rest := drop (length got) (tr_rest tr)\<rparr>)))"

type_synonym sparse_st = "int64 \<times> sparseEntry list \<times> int64 \<times> int64"

definition readHole :: "int \<Rightarrow> int64 \<Rightarrow> int64 \<Rightarrow> bytes \<times> int64" where
  "readHole k pos toOffset =
     (let n = min (sint (toOffset - pos)) k
      in (replicate (nat n) (byte 0), pos + word_of_int n))"

definition sparse_Read ::
  "int \<Rightarrow> sparse_st \<Rightarrow> tar_reader \<Rightarrow> (bytes \<times> err option \<times> sparse_st \<times> tar_reader) outcome" where
  "sparse_Read k st tr =
     (let (nb, sp, pos, tot) = st in
      case sp of
        [] \<Rightarrow>
          if sint pos < sint tot then
            (let (b, pos') = readHole k pos tot in Ret (b, None, (nb, sp, pos', tot), tr))
          else Ret ([], Some EOF, st, tr)
      | f # fs \<Rightarrow>
          if sint tot < sint (sp_offset f) then Ret ([], Some UnexpectedEOF, st, tr)
          else if sint pos < sint (sp_offset f) then
            (let (b, pos') = readHole k pos (sp_offset f) in Ret (b, None, (nb, sp, pos', tot), tr))
          else
            (let bytesLeft = sp_numBytes f - (pos - sp_offset f)
             in if sint bytesLeft < 0 then Panic ''slice bounds out of range''
                else bind_outcome (reg_Read (min k (sint bytesLeft)) nb tr) (\<lambda>(b, er, nb', tr').
                  (let pos' = pos + of_nat (length b);
                       sp' = (if of_nat (length b) = bytesLeft then fs else sp)
                   in Ret (b, if er = Some EOF \<and> sint pos' < sint tot then None else er,
                           (nb', sp', pos', tot), tr')))))"

definition curr_Read ::
  "int \<Rightarrow> curr_reader \<Rightarrow> tar_reader \<Rightarrow> (bytes \<times> err option \<times> curr_reader \<times> tar_reader) outcome" where
  "curr_Read k c tr =
     (case c of
        RegFile nb \<Rightarrow>
          bind_outcome (reg_Read k nb tr) (\<lambda>(b, er, nb', tr'). Ret (b, er, RegFile nb', tr'))
      | SparseFile nb sp pos tot \<Rightarrow>
          bind_outcome (sparse_Read k (nb, sp, pos, tot) tr) (\<lambda>(b, er, (nb', sp', pos', tot'), tr').
            Ret (b, er, SparseFile nb' sp' pos' tot', tr')))"

text \<open>\<open>Reader.Read\<close> with a buffer of \<open>k\<close> bytes.\<close>

definition tr_Read :: "int \<Rightarrow> tar_reader \<Rightarrow> (bytes \<times> err option \<times> tar_reader) outcome" where
  "tr_Read k tr =
     (case tr_curr tr of
        None \<Rightarrow> Ret ([], Some EOF, tr)
      | Some c \<Rightarrow>
          bind_outcome (curr_Read k c tr) (\<lambda>(b, er, c', tr').
            (let tr1 = tr'\<lparr>tr_curr := Some c'\<rparr>
             in case er of
                  None \<Rightarrow> Ret (b, None, tr1)
                | Some e \<Rightarrow> Ret (b, Some e, if e = EOF then tr1 else tr1\<lparr>tr_err := Some e\<rparr>))))"

text \<open>
  \<open>io.Copy\<close> and \<open>ioutil.ReadAll\<close>: read until an error, \<open>io.EOF\<close> being success.  A reader that
  keeps returning neither bytes nor an error is read forever: the loop is a partial function.
\<close>

partial_function (option) copy_loop ::
  "bytes \<Rightarrow> tar_reader \<Rightarrow> (bytes \<times> err option \<times> tar_reader) outcome option" where
  "copy_loop acc tr =
     (case tr_Read 32768 tr of
        Panic m \<Rightarrow> Some (Panic m)
      | Diverge \<Rightarrow> Some Diverge
      | Ret (b, er, tr') \<Rightarrow>
          (case er of
             None \<Rightarrow> copy_loop (acc @ b) tr'
           | Some e \<Rightarrow> Some (Ret (acc @ b, if e = EOF then None else Some e, tr'))))"

definition read_all :: "tar_reader \<Rightarrow> (bytes \<times> err option \<times> tar_reader) outcome" where
  "read_all tr = (case copy_loop [] tr of None \<Rightarrow> Diverge | Some r \<Rightarrow> r)"


section \<open>PAX records\<close>

definition paxGNUSparseNumBlocks :: string where "paxGNUSparseNumBlocks = ''GNU.sparse.numblocks''"
definition paxGNUSparseOffset :: string where "paxGNUSparseOffset = ''GNU.sparse.offset''"
definition paxGNUSparseNumBytes :: string where "paxGNUSparseNumBytes = ''GNU.sparse.numbytes''"
definition paxGNUSparseMap :: string where "paxGNUSparseMap = ''GNU.sparse.map''"
definition paxGNUSparseName :: string where "paxGNUSparseName = ''GNU.sparse.name''"
definition paxGNUSparseMajor :: string where "paxGNUSparseMajor = ''GNU.sparse.major''"
definition paxGNUSparseMinor :: string where "paxGNUSparseMinor = ''GNU.sparse.minor''"
definition paxGNUSparseSize :: string where "paxGNUSparseSize = ''GNU.sparse.size''"
definition paxGNUSparseRealSize :: string where "paxGNUSparseRealSize = ''GNU.sparse.realsize''"
definition paxXattr :: string where "paxXattr = ''SCHILY.xattr.''"

text \<open>
  The records \<open>"%d %s=%s\n"\<close> of an extended header.  The slice \<open>buf[sp+1 : n-1]\<close> panics when
  the length field is longer than the record it announces, as in \<open>"000005 "\<close>.
\<close>

function pax_records ::
  "bytes \<Rightarrow> (string \<times> string) list \<Rightarrow> bytes \<Rightarrow> ((string \<times> string) list \<times> bytes) res outcome" where
  "pax_records buf headers smap =
     (if buf = [] then Ret (Inr (headers, smap))
      else case index_byte (CHR '' '') buf of
        None \<Rightarrow> Ret (Inl ErrHeader)
      | Some sp \<Rightarrow>
          (case ParseInt64 (take sp buf) of
             Inl _ \<Rightarrow> Ret (Inl ErrHeader)
           | Inr n \<Rightarrow>
               if n < 5 \<or> int (length buf) < n then Ret (Inl ErrHeader)
               else if n - 1 < int sp + 1 then Panic ''slice bounds out of range''
               else
                 (let rcrd = slice (sp + 1) (nat n - 1) buf; rest = drop (nat n) buf
                  in case index_byte (CHR ''='') rcrd of
                       None \<Rightarrow> Ret (Inl ErrHeader)
                     | Some eq \<Rightarrow>
                         (let key = take eq rcrd; value = drop (eq + 1) rcrd
                          in if key = paxGNUSparseOffset \<or> key = paxGNUSparseNumBytes
                             then pax_records rest headers (smap @ value @ '','')
                             else pax_records rest (AList.update key value headers) smap))))"
  by pat_completeness auto
termination
  by (relation "measure (\<lambda>(buf, _, _). length buf)") auto

declare pax_records.simps [simp del]

definition parse_pax_bytes :: "bytes \<Rightarrow> (string \<times> string) list res outcome" where
  "parse_pax_bytes buf =
     bind_outcome (pax_records buf [] []) (\<lambda>r.
       Ret (map_sum id (\<lambda>(headers, smap).
              if smap \<noteq> [] then AList.update paxGNUSparseMap (butlast smap) headers else headers) r))"

definition parsePAX :: "tar_reader \<Rightarrow> ((string \<times> string) list res \<times> tar_reader) outcome" where
  "parsePAX tr =
     bind_outcome (read_all tr) (\<lambda>(buf, er, tr1).
       case er of
         Some e \<Rightarrow> Ret (Inl e, tr1)
       | None \<Rightarrow> bind_outcome (parse_pax_bytes buf) (\<lambda>r. Ret (r, write_raw buf tr1)))"

text \<open>\<open>parsePAXTime\<close>: the arguments it gives to \<open>time.Unix\<close>.\<close>

definition parsePAXTime :: "string \<Rightarrow> (int64 \<times> int64) res" where
  "parsePAXTime t =
     (case index_byte (CHR ''.'') t of
        None \<Rightarrow> map_sum id (\<lambda>i. (word_of_int i, 0)) (ParseInt64 t)
      | Some pos \<Rightarrow>
          (case ParseInt64 (take pos t) of
             Inl e \<Rightarrow> Inl e
           | Inr secs \<Rightarrow>
               (let nano = take 9 (drop (pos + 1) t @ replicate 9 (CHR ''0''))
                in map_sum id (\<lambda>i. (word_of_int secs, word_of_int i)) (ParseInt64 nano))))"

definition merge_key :: "string \<times> string \<Rightarrow> header \<Rightarrow> header res" where
  "merge_key kv hdr =
     (let k = fst kv; v = snd kv in
      if k = ''path'' then Inr (hdr\<lparr>Name := v\<rparr>)
      else if k = ''linkpath'' then Inr (hdr\<lparr>Linkname := v\<rparr>)
      else if k = ''gname'' then Inr (hdr\<lparr>Gname := v\<rparr>)
      else if k = ''uname'' then Inr (hdr\<lparr>Uname := v\<rparr>)
      else if k = ''uid'' then map_sum id (\<lambda>i. hdr\<lparr>Uid := word_of_int i\<rparr>) (ParseInt64 v)
      else if k = ''gid'' then map_sum id (\<lambda>i. hdr\<lparr>Gid := word_of_int i\<rparr>) (ParseInt64 v)
      else if k = ''atime'' then map_sum id (\<lambda>t. hdr\<lparr>AccessTime := t\<rparr>) (parsePAXTime v)
      else if k = ''mtime'' then map_sum id (\<lambda>t. hdr\<lparr>ModTime := t\<rparr>) (parsePAXTime v)
      else if k = ''ctime'' then map_sum id (\<lambda>t. hdr\<lparr>ChangeTime := t\<rparr>) (parsePAXTime v)
      else if k = ''size'' then map_sum id (\<lambda>i. hdr\<lparr>Size := word_of_int i\<rparr>) (ParseInt64 v)
      else if prefix paxXattr k
      then Inr (hdr\<lparr>Xattrs := AList.update (drop (length paxXattr) k) v (Xattrs hdr)\<rparr>)
      else Inr hdr)"

text \<open>\<open>mergePAX\<close> over the records in the order they are visited; its caller ignores its error.\<close>

fun mergePAX :: "(string \<times> string) list \<Rightarrow> header \<Rightarrow> header \<times> err option" where
  "mergePAX [] hdr = (hdr, None)"
| "mergePAX (kv # kvs) hdr =
     (case merge_key kv hdr of
        Inl e \<Rightarrow> (hdr, Some e)
      | Inr hdr' \<Rightarrow> mergePAX kvs hdr')"

section \<open>PAX sparse files\<close>

text \<open>\<open>make([]sparseEntry, 0, n)\<close> panics for a negative or unallocatable capacity.\<close>

definition make_ok :: "int \<Rightarrow> bool" where
  "make_ok n \<longleftrightarrow> 0 \<le> n \<and> 16 * n < 2 ^ 48"

fun read_pairs :: "string list \<Rightarrow> sparseEntry list option" where
  "read_pairs (a # b # ws) =
     (case ParseInt64 a of
        Inl _ \<Rightarrow> None
      | Inr off \<Rightarrow>
          (case ParseInt64 b of
             Inl _ \<Rightarrow> None
           | Inr nb \<Rightarrow>
               map_option (\<lambda>es. \<lparr>sp_offset = word_of_int off, sp_numBytes = word_of_int nb\<rparr> # es)
                 (read_pairs ws)))"
| "read_pairs ws = Some []"

definition readGNUSparseMap0x1 :: "(string \<times> string) list \<Rightarrow> sparseEntry list res outcome" where
  "readGNUSparseMap0x1 headers =
     (case map_of headers paxGNUSparseNumBlocks of
        None \<Rightarrow> Ret (Inl ErrHeader)
      | Some s \<Rightarrow>
          (case ParseInt64 s of
             Inl _ \<Rightarrow> Ret (Inl ErrHeader)
           | Inr n \<Rightarrow>
               (let smap = (case map_of headers paxGNUSparseMap of None \<Rightarrow> [] | Some m \<Rightarrow> m);
                    ws = split_on (CHR '','') smap
                in if (of_nat (length ws) :: int64) \<noteq> 2 * word_of_int n then Ret (Inl ErrHeader)
                   else if \<not> make_ok n then Panic ''makeslice: cap out of range''
                   else (case read_pairs ws of
                           None \<Rightarrow> Ret (Inl ErrHeader)
                         | Some sp \<Rightarrow> Ret (Inr sp)))))"

text \<open>\<open>io.ReadFull\<close> on the entry reader \<open>tr.curr\<close> itself: no raw accounting here.\<close>

partial_function (option) full_loop ::
  "nat \<Rightarrow> bytes \<Rightarrow> tar_reader \<Rightarrow> (bytes res \<times> tar_reader) outcome option" where
  "full_loop k acc tr =
     (if k \<le> length acc then Some (Ret (Inr acc, tr))
      else case tr_curr tr of
        None \<Rightarrow> Some (Panic ''nil pointer dereference'')
      | Some c \<Rightarrow>
          (case curr_Read (int (k - length acc)) c tr of
             Panic m \<Rightarrow> Some (Panic m)
           | Diverge \<Rightarrow> Some Diverge
           | Ret (b, er, c', tr') \<Rightarrow>
               (let acc' = acc @ b; tr1 = tr'\<lparr>tr_curr := Some c'\<rparr> in
                case er of
                  None \<Rightarrow> full_loop k acc' tr1
                | Some e \<Rightarrow>
                    Some (Ret (if k \<le> length acc' then Inr acc'
                               else if acc' \<noteq> [] \<and> e = EOF then Inl UnexpectedEOF else Inl e, tr1)))))"

definition read_full_curr :: "nat \<Rightarrow> tar_reader \<Rightarrow> (bytes res \<times> tar_reader) outcome" where
  "read_full_curr k tr = (case full_loop k [] tr of None \<Rightarrow> Diverge | Some r \<Rightarrow> r)"

definition take_decimal :: "bytes \<Rightarrow> nat \<Rightarrow> (int \<times> bytes) res" where
  "take_decimal sh nl =
     (case ParseInt64 (take nl sh) of
        Inl _ \<Rightarrow> Inl ErrHeader
      | Inr n \<Rightarrow> Inr (n, drop (nl + 1) sh))"

definition readDecimal :: "bytes \<Rightarrow> tar_reader \<Rightarrow> ((int \<times> bytes) res \<times> tar_reader) outcome" where
  "readDecimal sh tr =
     (case index_byte (byte 10) sh of
        Some nl \<Rightarrow> Ret (take_decimal sh nl, tr)
      | None \<Rightarrow>
          if 512 \<le> length sh then Ret (Inl ErrHeader, tr)
          else bind_outcome (read_full_curr 512 tr) (\<lambda>(r, tr').
                 case r of
                   Inl e \<Rightarrow> Ret (Inl e, tr')
                 | Inr blk \<Rightarrow>
                     (case index_byte (byte 10) blk of
                        None \<Rightarrow> Ret (Inl ErrHeader, tr')
                      | Some nl \<Rightarrow> Ret (take_decimal (sh @ blk) (length sh + nl), tr'))))"

fun read_map_entries ::
  "nat \<Rightarrow> bytes \<Rightarrow> tar_reader \<Rightarrow> (sparseEntry list res \<times> tar_reader) outcome" where
  "read_map_entries 0 sh tr = Ret (Inr [], tr)"
| "read_map_entries (Suc n) sh tr =
     bind_outcome (readDecimal sh tr) (\<lambda>(r, tr1).
       case r of
         Inl e \<Rightarrow> Ret (Inl e, tr1)
       | Inr (off, sh1) \<Rightarrow>
           bind_outcome (readDecimal sh1 tr1) (\<lambda>(r2, tr2).
             case r2 of
               Inl e \<Rightarrow> Ret (Inl e, tr2)
             | Inr (nb, sh2) \<Rightarrow>
                 bind_outcome (read_map_entries n sh2 tr2) (\<lambda>(r3, tr3).
                   Ret (map_sum id (\<lambda>es. \<lparr>sp_offset = word_of_int off, sp_numBytes = word_of_int nb\<rparr> # es) r3,
                        tr3))))"

definition readGNUSparseMap1x0 :: "tar_reader \<Rightarrow> (sparseEntry list res \<times> tar_reader) outcome" where
  "readGNUSparseMap1x0 tr =
     bind_outcome (read_full_curr 512 tr) (\<lambda>(r, tr1).
       case r of
         Inl e \<Rightarrow> Ret (Inl e, tr1)
       | Inr sh \<Rightarrow>
           bind_outcome (readDecimal sh tr1) (\<lambda>(r2, tr2).
             case r2 of
               Inl e \<Rightarrow> Ret (Inl e, tr2)
             | Inr (n, sh2) \<Rightarrow>
                 if make_ok n then read_map_entries (nat n) sh2 tr2
                 else Panic ''makeslice: cap out of range''))"

definition sparse_format :: "(string \<times> string) list \<Rightarrow> string" where
  "sparse_format headers =
     (let get = map_of headers in
      case (get paxGNUSparseMajor, get paxGNUSparseMinor) of
        (Some a, Some b) \<Rightarrow> a @ ''.'' @ b
      | _ \<Rightarrow>
          if get paxGNUSparseName \<noteq> None \<and> get paxGNUSparseMap \<noteq> None then ''0.1''
          else if get paxGNUSparseSize \<noteq> None then ''0.0'' else [])"

definition sparse_size :: "(string \<times> string) list \<Rightarrow> header \<Rightarrow> header res" where
  "sparse_size headers hdr =
     (let set_size = (\<lambda>s. case ParseInt64 s of
                            Inl _ \<Rightarrow> Inl ErrHeader | Inr i \<Rightarrow> Inr (hdr\<lparr>Size := word_of_int i\<rparr>))
      in case map_of headers paxGNUSparseSize of
           Some s \<Rightarrow> set_size s
         | None \<Rightarrow>
             (case map_of headers paxGNUSparseRealSize of
                Some s \<Rightarrow> set_size s
              | None \<Rightarrow> Inr hdr))"

text \<open>The sparse map, \<open>None\<close> where the headers describe no sparse file of a known format.\<close>

definition checkForGNUSparsePAXHeaders ::
  "header \<Rightarrow> (string \<times> string) list \<Rightarrow> tar_reader \<Rightarrow>
   (sparseEntry list option res \<times> header \<times> tar_reader) outcome" where
  "checkForGNUSparsePAXHeaders hdr headers tr =
     (let fmt = sparse_format headers in
      if fmt \<noteq> ''0.0'' \<and> fmt \<noteq> ''0.1'' \<and> fmt \<noteq> ''1.0'' then Ret (Inr None, hdr, tr)
      else
        (let hdr1 = (case map_of headers paxGNUSparseName of None \<Rightarrow> hdr | Some n \<Rightarrow> hdr\<lparr>Name := n\<rparr>)
         in case sparse_size headers hdr1 of
              Inl e \<Rightarrow> Ret (Inl e, hdr1, tr\<lparr>tr_sparse := True\<rparr>)
            | Inr hdr2 \<Rightarrow>
                bind_outcome
                  (if fmt = ''1.0'' then readGNUSparseMap1x0 tr
                   else bind_outcome (readGNUSparseMap0x1 headers) (\<lambda>r. Ret (r, tr)))
                  (\<lambda>(r, tr1). Ret (map_sum id Some r, hdr2, tr1\<lparr>tr_sparse := True\<rparr>))))"


section \<open>Reading consumes the stream\<close>

text \<open>What a read may change: the stream gets shorter; accounting and flags stay.\<close>

definition reads :: "tar_reader \<Rightarrow> tar_reader \<Rightarrow> bool" where
  "reads tr tr' \<longleftrightarrow>
     suffix (tr_rest tr') (tr_rest tr) \<and> tr_raw tr' = tr_raw tr \<and> tr_acc tr' = tr_acc tr \<and>
     tr_sparse tr' = tr_sparse tr \<and> tr_pad tr' = tr_pad tr \<and> tr_end tr' = tr_end tr"

lemma reads_refl [simp]: "reads tr tr"
  by (simp add: reads_def)

lemma reads_trans: "reads a b \<Longrightarrow> reads b c \<Longrightarrow> reads a c"
  using suffix_order.trans by (auto simp: reads_def)

lemma reads_upd [simp]:
  "reads tr (tr'\<lparr>tr_curr := c\<rparr>) = reads tr tr'" "reads tr (tr'\<lparr>tr_err := e\<rparr>) = reads tr tr'"
  by (simp_all add: reads_def)

lemma reg_Read_rest:
  "reg_Read k nb tr = Ret (b, er, nb', tr') \<Longrightarrow> reads tr tr' \<and> tr_rest tr = b @ tr_rest tr'"
  by (auto simp: reg_Read_def reads_def Let_def suffix_drop split: if_splits)

lemma sparse_Read_rest:
  "sparse_Read k st tr = Ret (b, er, st', tr') \<Longrightarrow> reads tr tr'"
  by (auto simp: sparse_Read_def Let_def dest!: reg_Read_rest
      split: list.splits if_splits prod.splits)

lemma curr_Read_rest:
  "curr_Read k c tr = Ret (b, er, c', tr') \<Longrightarrow> reads tr tr'"
  by (auto simp: curr_Read_def dest!: reg_Read_rest sparse_Read_rest split: curr_reader.splits)

lemma tr_Read_rest:
  "tr_Read k tr = Ret (b, er, tr') \<Longrightarrow> reads tr tr'"
proof (cases "tr_curr tr")
  case (Some c)
  assume "tr_Read k tr = Ret (b, er, tr')"
  with Some obtain b1 e1 c1 tr1 where "curr_Read k c tr = Ret (b1, e1, c1, tr1)"
    and "tr' = (case e1 of Some e \<Rightarrow> if e = EOF then tr1\<lparr>tr_curr := Some c1\<rparr>
             else tr1\<lparr>tr_curr := Some c1, tr_err := Some e\<rparr> | None \<Rightarrow> tr1\<lparr>tr_curr := Some c1\<rparr>)"
    by (fastforce simp: tr_Read_def Let_def split: option.splits)
  then show ?thesis by (simp add: curr_Read_rest split: option.split)
qed (simp add: tr_Read_def)

lemma copy_loop_rest:
  assumes "copy_loop acc tr = Some (Ret (b, er, tr'))"
  shows "reads tr tr'"
proof -
  let ?P = "\<lambda>acc tr r. \<forall>b er tr'. r = Ret (b, er, tr') \<longrightarrow> reads tr tr'"
  from assms have "?P acc tr (Ret (b, er, tr'))"
  proof (rule copy_loop.raw_induct [rotated, where P = ?P])
    fix loop acc tr r
    assume ih: "\<And>acc tr r. loop acc tr = Some r \<Longrightarrow> ?P acc tr r"
      and eq: "(case tr_Read 32768 tr of Panic m \<Rightarrow> Some (Panic m) | Diverge \<Rightarrow> Some Diverge
        | Ret (b, er, tr') \<Rightarrow> (case er of None \<Rightarrow> loop (acc @ b) tr'
            | Some e \<Rightarrow> Some (Ret (acc @ b, if e = EOF then None else Some e, tr')))) = Some r"
    show "?P acc tr r"
    proof (cases "tr_Read 32768 tr")
      case (Ret q)
      obtain b er tr1 where q: "q = (b, er, tr1)" by (cases q) auto
      have d: "reads tr tr1" using tr_Read_rest Ret q by blast
      show ?thesis
      proof (cases er)
        case None
        with eq Ret q have "loop (acc @ b) tr1 = Some r" by simp
        from ih [OF this] d show ?thesis by (blast intro: reads_trans)
      next
        case (Some e)
        with eq Ret q d show ?thesis by auto
      qed
    qed (use eq in auto)
  qed
  then show ?thesis by blast
qed

lemma read_all_reads: "read_all tr = Ret (b, er, tr') \<Longrightarrow> reads tr tr'"
  by (auto simp: read_all_def dest: copy_loop_rest split: option.splits)

lemma read_all_rest:
  "read_all tr = Ret (b, er, tr') \<Longrightarrow> \<exists>d. tr_rest tr = d @ tr_rest tr'"
  by (drule read_all_reads) (auto simp: reads_def suffix_def)

lemma skipUnread_rest: "\<exists>d. tr_rest tr = d @ tr_rest (skipUnread tr)"
  by (rule exI [of _ "take (nat (sint (numBytes tr + tr_pad tr))) (tr_rest tr)"])
    (auto simp: skipUnread_def Let_def)

lemma read_full_rest:
  "read_full k tr = (r, tr') \<Longrightarrow> \<exists>d. tr_rest tr = d @ tr_rest tr'"
  by (auto simp: read_full_def split: if_splits intro: exI [of _ "take k (tr_rest tr)"])

lemma read_block_rest:
  "read_block tr = (r, tr') \<Longrightarrow> \<exists>d. tr_rest tr = d @ tr_rest tr'"
  by (auto simp: read_block_def dest!: read_full_rest split: prod.splits sum.splits if_splits)

lemma read_block_Some:
  "read_block tr = (Some h, tr') \<Longrightarrow>
     length h = 512 \<and> tr_rest tr = h @ tr_rest tr' \<and> tr' = (write_raw h tr)\<lparr>tr_rest := tr_rest tr', tr_err := None\<rparr>"
  by (auto simp: read_block_def read_full_def blockSize_def write_raw_def
      split: prod.splits sum.splits if_splits)

lemma sparse_ext_rest:
  "sparse_ext sp tr = (r, tr') \<Longrightarrow> \<exists>d. tr_rest tr = d @ tr_rest tr'"
proof (induction sp tr rule: sparse_ext.induct)
  case (1 sp tr)
  show ?case
  proof (cases "read_full blockSize tr")
    case (Pair q tr1)
    with read_full_rest [OF Pair] 1 show ?thesis
      by (subst (asm) (2) sparse_ext.simps)
        (fastforce simp: Let_def split: sum.splits option.splits if_splits)
  qed
qed

lemma open_entry_rest:
  "open_entry h hdr tr = (r, tr') \<Longrightarrow> \<exists>d. tr_rest tr = d @ tr_rest tr'"
  by (auto simp: open_entry_def readOldGNUSparseMap_def Let_def dest!: sparse_ext_rest
      split: if_splits option.splits prod.splits)

lemma readHeader_shrinks:
  "readHeader tr = (Some hdr, tr') \<Longrightarrow> length (tr_rest tr') < length (tr_rest tr)"
  by (auto simp: readHeader_def dest!: read_block_Some open_entry_rest
      split: prod.splits option.splits if_splits)


section \<open>Next\<close>

definition reset_raw :: "tar_reader \<Rightarrow> tar_reader" where
  "reset_raw tr = (if tr_acc tr then tr\<lparr>tr_raw := []\<rparr> else tr)"

text \<open>The part every call of \<open>Next\<close> starts with: skip what is left of the last entry and read
  a header.\<close>

definition next_header :: "tar_reader \<Rightarrow> header option \<times> tar_reader" where
  "next_header tr =
     (let tr0 = reset_raw tr; tr1 = (if tr_err tr0 = None then skipUnread tr0 else tr0)
      in if tr_err tr1 \<noteq> None then (None, tr1) else readHeader tr1)"

definition pax_header ::
  "tar_reader \<Rightarrow> (header option \<times> err option \<times> tar_reader) outcome" where
  "pax_header tr =
     bind_outcome (parsePAX tr) (\<lambda>(r, tr1).
       case r of
         Inl e \<Rightarrow> Ret (None, Some e, tr1)
       | Inr headers \<Rightarrow>
           (let tr2 = skipUnread tr1
            in if tr_err tr2 \<noteq> None then Ret (None, tr_err tr2, tr2)
               else
                 (case readHeader tr2 of
                    (None, tr3) \<Rightarrow> Ret (None, tr_err tr3, tr3)
                  | (Some hdr, tr3) \<Rightarrow>
                      bind_outcome
                        (checkForGNUSparsePAXHeaders (fst (mergePAX (tr_order tr3 headers) hdr)) headers tr3)
                        (\<lambda>(sp, hdr', tr4).
                          case sp of
                            Inl e \<Rightarrow> Ret (None, Some e, tr4\<lparr>tr_err := Some e\<rparr>)
                          | Inr None \<Rightarrow> Ret (Some hdr', None, tr4)
                          | Inr (Some es) \<Rightarrow>
                              (case tr_curr tr4 of
                                 Some (RegFile nb) \<Rightarrow>
                                   Ret (Some hdr', None, tr4\<lparr>tr_curr := Some (SparseFile nb es 0 (Size hdr'))\<rparr>)
                               | _ \<Rightarrow> Panic ''interface conversion'')))))"

lemma next_header_shrinks:
  "next_header tr = (Some hdr, tr') \<Longrightarrow> length (tr_rest tr') < length (tr_rest tr)"
proof -
  assume a: "next_header tr = (Some hdr, tr')"
  let ?tr1 = "if tr_err (reset_raw tr) = None then skipUnread (reset_raw tr) else reset_raw tr"
  from a have "readHeader ?tr1 = (Some hdr, tr')"
    unfolding next_header_def Let_def by (auto split: if_splits)
  from readHeader_shrinks [OF this] have "length (tr_rest tr') < length (tr_rest ?tr1)" .
  moreover obtain d where "tr_rest (reset_raw tr) = d @ tr_rest ?tr1"
    using skipUnread_rest [of "reset_raw tr"] by (cases "tr_err (reset_raw tr) = None") auto
  moreover have "tr_rest (reset_raw tr) = tr_rest tr" by (simp add: reset_raw_def)
  ultimately show "length (tr_rest tr') < length (tr_rest tr)" by simp
qed

text \<open>
  After a GNU long name or long link the name is read, the raw bytes so far are kept aside,
  \<open>Next\<close> is called again and its header gets the name; when that call returns no header, the
  assignment to its field panics.
\<close>

function Next :: "tar_reader \<Rightarrow> (header option \<times> err option \<times> tar_reader) outcome" where
  "Next tr =
     (case next_header tr of
        (None, tr1) \<Rightarrow> Ret (None, tr_err tr1, tr1)
      | (Some hdr, tr1) \<Rightarrow>
          if Typeflag hdr = TypeXHeader then pax_header tr1
          else if Typeflag hdr = TypeGNULongName \<or> Typeflag hdr = TypeGNULongLink then
            bind_outcome (read_all tr1) (\<lambda>(realname, er, tr2).
              case er of
                Some e \<Rightarrow> Ret (None, Some e, tr2)
              | None \<Rightarrow>
                  (let tr3 = write_raw realname tr2; (buf, tr4) = RawBytes tr3 in
                   bind_outcome (Next tr4) (\<lambda>(hdr2, _, tr5).
                     (let (b5, tr6) = RawBytes tr5; tr7 = write_raw (buf @ b5) tr6 in
                      case hdr2 of
                        None \<Rightarrow> Panic ''nil pointer dereference''
                      | Some h2 \<Rightarrow>
                          Ret (Some (if Typeflag hdr = TypeGNULongName
                                     then h2\<lparr>Name := cString realname\<rparr>
                                     else h2\<lparr>Linkname := cString realname\<rparr>), None, tr7)))))
          else Ret (Some hdr, tr_err tr1, tr1))"
  by pat_completeness auto
termination
proof (relation "measure (\<lambda>tr. length (tr_rest tr))", goal_cases)
  case (2 tr hd0 tr1 hdr r nm p er tr2 tr3 q buf tr4)
  then have "next_header tr = (Some hdr, tr1)" and "read_all tr1 = Ret (nm, er, tr2)"
    and "tr_rest tr4 = tr_rest tr2"
    by (auto simp: RawBytes_def split: if_splits)
  with next_header_shrinks [of tr hdr tr1] read_all_rest [of tr1 nm er tr2] show ?case by auto
qed simp

declare Next.simps [simp del]


section \<open>Raw accounting\<close>

text \<open>
  \<open>acct tr tr'\<close>: going from \<open>tr\<close> to \<open>tr'\<close>, every byte taken from the stream went to the raw
  bytes, unless a sparse entry was met.
\<close>

definition acct :: "tar_reader \<Rightarrow> tar_reader \<Rightarrow> bool" where
  "acct tr tr' \<longleftrightarrow>
     (tr_sparse tr \<longrightarrow> tr_sparse tr') \<and>
     (tr_acc tr \<and> \<not> tr_sparse tr' \<longrightarrow>
        tr_acc tr' \<and> tr_raw tr @ tr_rest tr = tr_raw tr' @ tr_rest tr')"

lemma acct_refl [simp]: "acct tr tr"
  by (simp add: acct_def)

lemma acct_trans: "acct a b \<Longrightarrow> acct b c \<Longrightarrow> acct a c"
  by (auto simp: acct_def)

lemma acct_upd [simp]:
  "acct tr (tr'\<lparr>tr_curr := c\<rparr>) = acct tr tr'" "acct tr (tr'\<lparr>tr_err := e\<rparr>) = acct tr tr'"
  "acct tr (tr'\<lparr>tr_pad := n\<rparr>) = acct tr tr'" "acct tr (tr'\<lparr>tr_sparse := True\<rparr>)"
  by (simp_all add: acct_def)

lemma acct_skipUnread: "acct tr (skipUnread tr)"
  by (auto simp: acct_def skipUnread_def write_raw_def Let_def)

lemma acct_read_block: "read_block tr = (Some h, tr') \<Longrightarrow> acct tr tr'"
  by (auto simp: acct_def read_block_def read_full_def write_raw_def
      split: prod.splits sum.splits if_splits)

lemma read_block_fields:
  "read_block tr = (Some h, tr') \<Longrightarrow> tr_acc tr' = tr_acc tr \<and> tr_err tr' = None"
  by (auto simp: read_block_def read_full_def write_raw_def
      split: prod.splits sum.splits if_splits)

lemma read_block_EOF:
  "read_block tr = (None, tr') \<Longrightarrow> tr_acc tr \<Longrightarrow> tr_err tr' \<noteq> Some EOF \<and> tr_sparse tr' = tr_sparse tr"
  by (auto simp: read_block_def read_full_def write_raw_def split: prod.splits sum.splits if_splits)

lemma write_raw_fields [simp]:
  "tr_acc (write_raw b tr) = tr_acc tr" "tr_sparse (write_raw b tr) = tr_sparse tr"
  "tr_err (write_raw b tr) = tr_err tr" "tr_curr (write_raw b tr) = tr_curr tr"
  "tr_pad (write_raw b tr) = tr_pad tr" "tr_end (write_raw b tr) = tr_end tr"
  by (simp_all add: write_raw_def)

text \<open>An entry that is open for reading and is not sparse.\<close>

definition reg_open :: "tar_reader \<Rightarrow> bool" where
  "reg_open tr \<longleftrightarrow>
     tr_err tr = None \<and> (\<exists>nb. tr_curr tr = Some (RegFile nb) \<and> 0 \<le> sint nb)"

lemma unpack_fields_Size: "unpack_fields h = Some hdr \<Longrightarrow> 0 \<le> sint (Size hdr)"
  by (auto simp: unpack_fields_def bind_eq_Some_conv split: if_splits)

lemma Size_add_prefix [simp]: "Size (add_prefix p hdr) = Size hdr"
  by (simp add: add_prefix_def)

lemma unpack_ustar_Size: "unpack_ustar h hdr0 = Some hdr \<Longrightarrow> Size hdr = Size hdr0"
  by (auto simp: unpack_ustar_def Let_def bind_eq_Some_conv split: if_splits)

lemma parse_header_Size: "parse_header h = Some hdr \<Longrightarrow> 0 \<le> sint (Size hdr)"
  by (simp add: parse_header_def bind_eq_Some_conv split: if_splits)
    (metis unpack_fields_Size unpack_ustar_Size)

lemma readHeader_Some:
  assumes "readHeader tr = (Some hdr, tr')"
  shows "acct tr tr'" and "\<not> tr_sparse tr' \<Longrightarrow> reg_open tr' \<and> 0 \<le> sint (Size hdr)"
proof -
  from assms obtain h tr1 where h: "read_block tr = (Some h, tr1)" and
    hd: "\<exists>hd0. parse_header h = Some hd0 \<and> open_entry h hd0 tr1 = (Some hdr, tr')"
    by (auto simp: readHeader_def split: prod.splits option.splits if_splits)
  then obtain hd0 where hd0: "parse_header h = Some hd0" "open_entry h hd0 tr1 = (Some hdr, tr')"
    by blast
  have e1: "tr_err tr1 = None" using read_block_fields [OF h] by simp
  have a1: "acct tr tr1" by (rule acct_read_block [OF h])
  have "acct tr1 tr' \<and> (\<not> tr_sparse tr' \<longrightarrow> reg_open tr' \<and> 0 \<le> sint (Size hdr))"
    using hd0 parse_header_Size [OF hd0(1)] e1
    by (auto simp: open_entry_def Let_def reg_open_def split: if_splits option.splits prod.splits)
  with a1 show "acct tr tr'" and "\<not> tr_sparse tr' \<Longrightarrow> reg_open tr' \<and> 0 \<le> sint (Size hdr)"
    by (auto intro: acct_trans)
qed

lemma readHeader_EOF:
  assumes "readHeader tr = (None, tr')" and "tr_err tr' = Some EOF" and "tr_acc tr"
  shows "acct tr tr'"
proof (cases "read_block tr")
  case (Pair r tr1)
  show ?thesis
  proof (cases r)
    case None
    with assms Pair read_block_EOF [of tr tr1] show ?thesis by (auto simp: readHeader_def)
  next
    case (Some h)
    with Pair have a1: "acct tr tr1" and acc1: "tr_acc tr1"
      using acct_read_block read_block_fields [of tr h tr1] assms(3) by auto
    show ?thesis
    proof (cases "h = zeroBlock")
      case True
      obtain r2 tr2 where r2: "read_block tr1 = (r2, tr2)" by (cases "read_block tr1")
      from assms True Pair Some r2 read_block_EOF [of tr1 tr2] acc1 obtain h2 where "r2 = Some h2"
        by (cases r2) (auto simp: readHeader_def)
      with assms True Pair Some r2 acct_read_block [of tr1 h2 tr2] a1 show ?thesis
        by (auto simp: readHeader_def intro: acct_trans)
    next
      case False
      with assms Pair Some a1 show ?thesis
        by (auto simp: readHeader_def open_entry_def ErrHeader_def Let_def
            split: option.splits if_splits prod.splits)
    qed
  qed
qed


text \<open>Reading a regular entry always returns, with the bytes that are there.\<close>

lemma sint_diff_of_nat:
  fixes nb :: int64
  assumes "0 \<le> sint nb" and "int k \<le> sint nb"
  shows "sint (nb - of_nat k) = sint nb - int k"
proof -
  have "sint (of_nat k :: int64) = int k"
    using assms sint_lt [of nb] by (simp add: signed_of_nat signed_take_bit_int_eq_self)
  then show ?thesis
    using assms sint_lt [of nb] by (simp add: sint_word_ariths signed_take_bit_int_eq_self)
qed

lemma tr_Read_reg:
  assumes c: "tr_curr tr = Some (RegFile nb)" and nb: "0 < sint nb" and r: "tr_rest tr \<noteq> []"
  defines "got \<equiv> take (nat (min 32768 (sint nb))) (tr_rest tr)"
  shows "tr_Read 32768 tr = Ret (got, None,
           tr\<lparr>tr_rest := drop (length got) (tr_rest tr), tr_curr := Some (RegFile (nb - of_nat (length got)))\<rparr>)"
    and "sint (nb - of_nat (length got)) = sint nb - int (length got)" and "0 < length got"
proof -
  show "sint (nb - of_nat (length got)) = sint nb - int (length got)"
    using nb unfolding got_def by (intro sint_diff_of_nat) (auto simp: min_def)
  show "0 < length got" using nb r by (auto simp: got_def)
  show "tr_Read 32768 tr = Ret (got, None,
           tr\<lparr>tr_rest := drop (length got) (tr_rest tr), tr_curr := Some (RegFile (nb - of_nat (length got)))\<rparr>)"
    using nb r unfolding tr_Read_def curr_Read_def reg_Read_def c got_def by (auto simp: Let_def)
qed

lemma copy_loop_reg:
  assumes "tr_curr tr = Some (RegFile nb)" and "0 \<le> sint nb"
  shows "\<exists>er tr'. copy_loop acc tr = Some (Ret (acc @ take (nat (sint nb)) (tr_rest tr), er, tr')) \<and>
           tr_rest tr' = drop (nat (sint nb)) (tr_rest tr) \<and>
           (\<exists>nb'. tr_curr tr' = Some (RegFile nb') \<and> 0 \<le> sint nb') \<and>
           (er = None \<longleftrightarrow> nat (sint nb) \<le> length (tr_rest tr)) \<and>
           (er = None \<longrightarrow> tr_err tr' = tr_err tr) \<and> er \<noteq> Some EOF"
  using assms
proof (induction "length (tr_rest tr)" arbitrary: acc tr nb rule: less_induct)
  case less
  consider "nb = 0" | "nb \<noteq> 0" "tr_rest tr = []" | "nb \<noteq> 0" "tr_rest tr \<noteq> []" by blast
  then show ?case
  proof cases
    case 1
    with less.prems show ?thesis
      by (subst copy_loop.simps) (simp add: tr_Read_def curr_Read_def reg_Read_def)
  next
    case 2
    with less.prems have "0 < sint nb" by (metis sint_0 order_less_le signed_eq_0_iff)
    with 2 less.prems show ?thesis
      by (subst copy_loop.simps) (auto simp: tr_Read_def curr_Read_def reg_Read_def Let_def)
  next
    case 3
    with less.prems have pos: "0 < sint nb" by (metis sint_0 order_less_le signed_eq_0_iff)
    define got where "got = take (nat (min 32768 (sint nb))) (tr_rest tr)"
    define nb1 where "nb1 = nb - of_nat (length got)"
    define tr1 where "tr1 = tr\<lparr>tr_rest := drop (length got) (tr_rest tr), tr_curr := Some (RegFile nb1)\<rparr>"
    note rd = tr_Read_reg [OF less.prems(1) pos 3(2), folded got_def, folded nb1_def, folded tr1_def]
    have len: "length got \<le> nat (sint nb)" by (auto simp: got_def min_def)
    have s1: "nat (sint nb1) = nat (sint nb) - length got" and p1: "0 \<le> sint nb1"
      using rd(2) len pos by auto
    have "length (tr_rest tr1) < length (tr_rest tr)" using rd(3) 3(2) by (simp add: tr1_def)
    from less.hyps [OF this, of nb1 "acc @ got"] p1 obtain er tr' where
      ih: "copy_loop (acc @ got) tr1 = Some (Ret ((acc @ got) @ take (nat (sint nb1)) (tr_rest tr1), er, tr'))"
      "tr_rest tr' = drop (nat (sint nb1)) (tr_rest tr1)"
      "\<exists>nb'. tr_curr tr' = Some (RegFile nb') \<and> 0 \<le> sint nb'"
      "er = None \<longleftrightarrow> nat (sint nb1) \<le> length (tr_rest tr1)"
      "er = None \<longrightarrow> tr_err tr' = tr_err tr1" "er \<noteq> Some EOF"
      by (auto simp: tr1_def)
    have "copy_loop acc tr = copy_loop (acc @ got) tr1"
      by (subst copy_loop.simps) (simp add: rd(1))
    moreover have "got @ take (nat (sint nb1)) (tr_rest tr1) = take (nat (sint nb)) (tr_rest tr)"
    proof -
      have g: "take (length got) (tr_rest tr) = got" by (simp add: got_def)
      have "nat (sint nb) = length got + nat (sint nb1)" using s1 len by simp
      then show ?thesis by (simp only: take_add g) (simp add: tr1_def)
    qed
    moreover have "drop (nat (sint nb1)) (tr_rest tr1) = drop (nat (sint nb)) (tr_rest tr)"
      using s1 len by (simp add: tr1_def)
    moreover have "nat (sint nb1) \<le> length (tr_rest tr1) \<longleftrightarrow> nat (sint nb) \<le> length (tr_rest tr)"
    proof -
      have "length got \<le> length (tr_rest tr)" by (simp add: got_def)
      moreover have "length (tr_rest tr1) = length (tr_rest tr) - length got" by (simp add: tr1_def)
      ultimately show ?thesis using s1 len by linarith
    qed
    moreover have "tr_err tr1 = tr_err tr" by (simp add: tr1_def)
    ultimately show ?thesis using ih by (intro exI [of _ er] exI [of _ tr']) simp
  qed
qed


definition wf_open :: "tar_reader \<Rightarrow> bool" where
  "wf_open tr \<longleftrightarrow> tr_sparse tr \<or> reg_open tr"

lemma reg_open_write_raw [simp]: "reg_open (write_raw b tr) = reg_open tr"
  by (simp add: reg_open_def)

lemma read_all_reg:
  assumes "reg_open tr"
  obtains b er tr' where "read_all tr = Ret (b, er, tr')" and "tr_rest tr = b @ tr_rest tr'"
    and "er \<noteq> Some EOF" and "er = None \<longrightarrow> reg_open tr'"
proof -
  from assms obtain nb where nb: "tr_err tr = None" "tr_curr tr = Some (RegFile nb)" "0 \<le> sint nb"
    by (auto simp: reg_open_def)
  from copy_loop_reg [OF nb(2,3), of "[]"] obtain er tr' where
    "copy_loop [] tr = Some (Ret (take (nat (sint nb)) (tr_rest tr), er, tr'))"
    "tr_rest tr' = drop (nat (sint nb)) (tr_rest tr)" "er \<noteq> Some EOF"
    "er = None \<longrightarrow> reg_open tr'"
    using nb(1) by (auto simp: reg_open_def)
  then show thesis by (intro that [of "take (nat (sint nb)) (tr_rest tr)" er tr']) (simp_all add: read_all_def)
qed

lemma read_all_acct:
  assumes "wf_open tr" and "read_all tr = Ret (b, er, tr')"
  shows "er = None \<Longrightarrow> acct tr (write_raw b tr') \<and> wf_open tr'"
    and "er \<noteq> Some EOF \<or> acct tr tr'"
proof -
  have r: "reads tr tr'" using assms(2) by (rule read_all_reads)
  have "tr_sparse tr' \<or> (tr_rest tr = b @ tr_rest tr' \<and> er \<noteq> Some EOF \<and> (er = None \<longrightarrow> reg_open tr'))"
  proof (cases "tr_sparse tr")
    case False
    with assms(1) have "reg_open tr" by (simp add: wf_open_def)
    then show ?thesis using assms(2) by (elim read_all_reg) auto
  qed (use r in \<open>simp add: reads_def\<close>)
  with r show "er = None \<Longrightarrow> acct tr (write_raw b tr') \<and> wf_open tr'"
    and "er \<noteq> Some EOF \<or> acct tr tr'"
    by (auto simp: acct_def reads_def wf_open_def write_raw_def)
qed

lemma parsePAX_acct:
  assumes "wf_open tr" and "parsePAX tr = Ret (r, tr')"
  shows "r \<noteq> Inl EOF \<or> acct tr tr'" and "r = Inr hs \<Longrightarrow> acct tr tr'"
proof -
  from assms(2) obtain b er tr1 where rd: "read_all tr = Ret (b, er, tr1)" and
    c: "case er of Some e \<Rightarrow> r = Inl e \<and> tr' = tr1
        | None \<Rightarrow> parse_pax_bytes b = Ret r \<and> tr' = write_raw b tr1"
    by (auto simp: parsePAX_def split: option.splits)
  with read_all_acct [OF assms(1) rd] show "r \<noteq> Inl EOF \<or> acct tr tr'" and "r = Inr hs \<Longrightarrow> acct tr tr'"
    by (auto split: option.splits)
qed

lemma sparse_flag_read_block: "read_block tr = (r, tr') \<Longrightarrow> tr_sparse tr' = tr_sparse tr"
  by (auto simp: read_block_def read_full_def split: prod.splits sum.splits if_splits)

lemma sparse_flag_readHeader:
  "readHeader tr = (r, tr') \<Longrightarrow> tr_sparse tr \<Longrightarrow> tr_sparse tr'"
  by (auto simp: readHeader_def open_entry_def Let_def dest!: sparse_flag_read_block
      split: prod.splits option.splits if_splits)

lemma readHeader_EOF':
  assumes "readHeader tr = (None, tr')" and "tr_err tr' = Some EOF"
  shows "acct tr tr'"
proof (cases "tr_acc tr")
  case True
  with assms show ?thesis by (rule readHeader_EOF)
next
  case False
  with sparse_flag_readHeader [OF assms(1)] show ?thesis by (simp add: acct_def)
qed

lemma readHeader_wf: "readHeader tr = (Some hdr, tr') \<Longrightarrow> acct tr tr' \<and> wf_open tr'"
  using readHeader_Some [of tr hdr tr'] by (auto simp: wf_open_def)

lemma checkForGNU_acct:
  "checkForGNUSparsePAXHeaders hdr hs tr = Ret (r, hdr', tr') \<Longrightarrow>
     acct tr tr' \<and> (tr_sparse tr' \<or> r = Inr None \<and> tr' = tr)"
  by (auto simp: checkForGNUSparsePAXHeaders_def Let_def split: if_splits sum.splits)

lemma next_header_acct:
  assumes "next_header tr = (r, tr')"
  shows "r = Some hdr \<Longrightarrow> acct (reset_raw tr) tr' \<and> wf_open tr'"
    and "r = None \<Longrightarrow> tr_err tr' = Some EOF \<Longrightarrow> acct (reset_raw tr) tr'"
proof -
  let ?tr1 = "if tr_err (reset_raw tr) = None then skipUnread (reset_raw tr) else reset_raw tr"
  have a: "acct (reset_raw tr) ?tr1" by (simp add: acct_skipUnread)
  show "r = Some hdr \<Longrightarrow> acct (reset_raw tr) tr' \<and> wf_open tr'"
  proof -
    assume "r = Some hdr"
    with assms have "readHeader ?tr1 = (Some hdr, tr')"
      unfolding next_header_def Let_def by (metis prod.inject option.distinct(1))
    from readHeader_wf [OF this] acct_trans [OF a] show ?thesis by blast
  qed
  show "r = None \<Longrightarrow> tr_err tr' = Some EOF \<Longrightarrow> acct (reset_raw tr) tr'"
  proof -
    assume "r = None" and e: "tr_err tr' = Some EOF"
    with assms have "tr' = ?tr1 \<or> readHeader ?tr1 = (None, tr')"
      unfolding next_header_def Let_def by (metis prod.inject)
    with readHeader_EOF' [OF _ e] a show ?thesis by (blast intro: acct_trans)
  qed
qed

lemma pax_header_acct:
  assumes "wf_open tr" and "pax_header tr = Ret (r, er, tr')"
  shows "r = Some hdr \<Longrightarrow> er = None \<and> acct tr tr' \<and> wf_open tr'"
    and "r = None \<Longrightarrow> er = Some EOF \<Longrightarrow> acct tr tr'"
proof -
  from assms(2) obtain q tr1 where pp: "parsePAX tr = Ret (q, tr1)"
    by (auto simp: pax_header_def)
  note a1 = parsePAX_acct [OF assms(1) pp]
  have rest: "(\<exists>hs. q = Inr hs) \<Longrightarrow>
      (r = Some hdr \<longrightarrow> er = None \<and> acct tr tr' \<and> wf_open tr') \<and>
      (r = None \<longrightarrow> er = Some EOF \<longrightarrow> acct tr tr')"
  proof -
    assume "\<exists>hs. q = Inr hs"
    then obtain hs where hs: "q = Inr hs" by blast
    have a2: "acct tr (skipUnread tr1)" using a1(2) [OF hs] acct_skipUnread acct_trans by blast
    show ?thesis
    proof (cases "tr_err (skipUnread tr1)")
      case (Some e)
      with assms(2) pp hs a2 show ?thesis by (auto simp: pax_header_def Let_def)
    next
      case None
      obtain h3 tr3 where h3: "readHeader (skipUnread tr1) = (h3, tr3)" by fastforce
      show ?thesis
      proof (cases h3)
        case N: None
        with assms(2) pp hs None h3 a2 readHeader_EOF' [of "skipUnread tr1" tr3] show ?thesis
          by (auto simp: pax_header_def Let_def intro: acct_trans)
      next
        case (Some h)
        with h3 have a3: "acct tr tr3" "wf_open tr3"
          using readHeader_wf a2 acct_trans by blast+
        from assms(2) pp hs None h3 Some obtain sp hdr' tr4 where
          ck: "checkForGNUSparsePAXHeaders (fst (mergePAX (tr_order tr3 hs) h)) hs tr3 = Ret (sp, hdr', tr4)"
          by (auto simp: pax_header_def Let_def)
        note a4 = checkForGNU_acct [OF ck]
        with a3(1) have "acct tr tr4" by (blast intro: acct_trans)
        with assms(2) pp hs None h3 Some ck a3 a4 show ?thesis
          by (auto simp: pax_header_def Let_def wf_open_def
              split: sum.splits option.splits curr_reader.splits)
      qed
    qed
  qed
  show "r = Some hdr \<Longrightarrow> er = None \<and> acct tr tr' \<and> wf_open tr'"
    and "r = None \<Longrightarrow> er = Some EOF \<Longrightarrow> acct tr tr'"
    using rest a1(1) assms(2) pp by (cases q; auto simp: pax_header_def)+
qed


lemma reset_raw_fields [simp]:
  "tr_acc (reset_raw tr) = tr_acc tr" "tr_rest (reset_raw tr) = tr_rest tr"
  "tr_sparse (reset_raw tr) = tr_sparse tr" "tr_acc tr \<Longrightarrow> tr_raw (reset_raw tr) = []"
  by (simp_all add: reset_raw_def)

lemma acct_reset_raw:
  "acct (reset_raw tr) tr' \<longleftrightarrow>
     (tr_sparse tr \<longrightarrow> tr_sparse tr') \<and>
     (tr_acc tr \<and> \<not> tr_sparse tr' \<longrightarrow> tr_acc tr' \<and> tr_rest tr = tr_raw tr' @ tr_rest tr')"
  by (auto simp: acct_def)

text \<open>A long name: the raw bytes set aside and those of the header that follows.\<close>

lemma long_name_acct:
  assumes "acct a tr3" and "RawBytes tr3 = (buf, tr4)" and "acct (reset_raw tr4) tr5"
    and "RawBytes tr5 = (b5, tr6)"
  shows "acct a (write_raw (buf @ b5) tr6)"
  using assms by (auto simp: acct_def RawBytes_def write_raw_def reset_raw_def split: if_splits)

lemma RawBytes_fields:
  "RawBytes tr = (b, tr') \<Longrightarrow>
     tr_sparse tr' = tr_sparse tr \<and> tr_err tr' = tr_err tr \<and> tr_curr tr' = tr_curr tr \<and>
     tr_acc tr' = tr_acc tr \<and> tr_rest tr' = tr_rest tr \<and> (tr_acc tr \<longrightarrow> b = tr_raw tr \<and> tr_raw tr' = [])"
  by (auto simp: RawBytes_def split: if_splits)

lemma wf_open_RawBytes: "RawBytes tr = (b, tr') \<Longrightarrow> wf_open tr \<Longrightarrow> wf_open (write_raw c tr')"
  by (auto dest!: RawBytes_fields simp: wf_open_def reg_open_def)

lemma Next_acct:
  assumes "Next tr = Ret (r, er, tr')"
  shows "(\<forall>hdr. r = Some hdr \<longrightarrow> acct (reset_raw tr) tr' \<and> wf_open tr' \<and> (tr_sparse tr' \<or> er = None)) \<and>
         (r = None \<longrightarrow> er = Some EOF \<longrightarrow> acct (reset_raw tr) tr')"
  using assms
proof (induction tr arbitrary: r er tr' rule: Next.induct)
  case (1 tr)
  obtain h1 tr1 where nh: "next_header tr = (h1, tr1)" by fastforce
  note A = next_header_acct [OF nh]
  show ?case
  proof (cases h1)
    case None
    with 1(2) nh A show ?thesis by (subst (asm) Next.simps) auto
  next
    case (Some hdr)
    note a1 = A(1) [OF Some]
    then have a: "acct (reset_raw tr) tr1" and w: "wf_open tr1" by simp_all
    consider "Typeflag hdr = TypeXHeader"
      | "Typeflag hdr \<noteq> TypeXHeader" "Typeflag hdr = TypeGNULongName \<or> Typeflag hdr = TypeGNULongLink"
      | "Typeflag hdr \<noteq> TypeXHeader" "\<not> (Typeflag hdr = TypeGNULongName \<or> Typeflag hdr = TypeGNULongLink)"
      by blast
    then show ?thesis
    proof cases
      case 1
      with \<open>Next tr = Ret (r, er, tr')\<close> nh Some have "pax_header tr1 = Ret (r, er, tr')"
        by (subst (asm) Next.simps) simp
      from pax_header_acct [OF w this] acct_trans [OF a] show ?thesis by blast
    next
      case 2
      with \<open>Next tr = Ret (r, er, tr')\<close> nh Some obtain nm e2 tr2 where
        ra: "read_all tr1 = Ret (nm, e2, tr2)"
        by (subst (asm) Next.simps) auto
      note R = read_all_acct [OF w ra]
      show ?thesis
      proof (cases e2)
        case S: (Some e)
        with \<open>Next tr = Ret (r, er, tr')\<close> nh Some 2 ra have "r = None" "er = Some e" "tr' = tr2"
          by (subst (asm) Next.simps, simp)+
        with R(2) S a show ?thesis by (auto intro: acct_trans)
      next
        case N: None
        obtain buf tr4 where b4: "RawBytes (write_raw nm tr2) = (buf, tr4)" by fastforce
        from \<open>Next tr = Ret (r, er, tr')\<close> nh Some 2 ra N b4 obtain hx e5 tr5 where
          nx0: "Next tr4 = Ret (hx, e5, tr5)"
          unfolding Next.simps [of tr] by (auto simp: Let_def)
        obtain b5 tr6 where b6: "RawBytes tr5 = (b5, tr6)" by fastforce
        from \<open>Next tr = Ret (r, er, tr')\<close> nh Some 2 ra N b4 nx0 b6 obtain h2 where h2: "hx = Some h2"
          unfolding Next.simps [of tr] by (cases hx) (auto simp: Let_def)
        with \<open>Next tr = Ret (r, er, tr')\<close> nh Some 2 ra N b4 nx0 b6 obtain h3 where
          res: "r = Some h3" "er = None" "tr' = write_raw (buf @ b5) tr6"
          unfolding Next.simps [of tr] by (auto simp: Let_def)
        from nx0 h2 have nx: "Next tr4 = Ret (Some h2, e5, tr5)" by simp
        have "acct (reset_raw tr) (write_raw nm tr2)" using R(1) [OF N] a acct_trans by blast
        moreover have ih: "acct (reset_raw tr4) tr5" "wf_open tr5"
          using "1.IH" [OF nh [symmetric] Some 2 ra refl refl N refl refl b4 [symmetric] nx] h2
          by blast+
        ultimately show ?thesis
          using res long_name_acct [OF _ b4 ih(1) b6] wf_open_RawBytes [OF b6 ih(2)] by auto
      qed
    next
      case 3
      with \<open>Next tr = Ret (r, er, tr')\<close> nh Some have "r = Some hdr \<and> er = tr_err tr1 \<and> tr' = tr1"
        unfolding Next.simps [of tr] by auto
      with a w show ?thesis by (auto simp: wf_open_def reg_open_def)
    qed
  qed
qed


section \<open>Progress\<close>

text \<open>Every header \<open>Next\<close> returns has taken bytes from the stream.\<close>

abbreviation suf :: "tar_reader \<Rightarrow> tar_reader \<Rightarrow> bool" where
  "suf tr tr' \<equiv> suffix (tr_rest tr') (tr_rest tr)"

lemma full_loop_rest:
  assumes "full_loop k acc tr = Some (Ret (b, tr'))"
  shows "reads tr tr'"
proof -
  let ?P = "\<lambda>k acc tr r. \<forall>b tr'. r = Ret (b, tr') \<longrightarrow> reads tr tr'"
  from assms have "?P k acc tr (Ret (b, tr'))"
  proof (rule full_loop.raw_induct [rotated, where P = ?P])
    fix loop k acc tr r
    assume ih: "\<And>k acc tr r. loop k acc tr = Some r \<Longrightarrow> ?P k acc tr r"
      and eq: "(if k \<le> length acc then Some (Ret (Inr acc, tr))
        else case tr_curr tr of None \<Rightarrow> Some (Panic ''nil pointer dereference'')
          | Some c \<Rightarrow> (case curr_Read (int (k - length acc)) c tr of
               Panic m \<Rightarrow> Some (Panic m) | Diverge \<Rightarrow> Some Diverge
             | Ret (b, er, c', tr') \<Rightarrow> (let acc' = acc @ b; tr1 = tr'\<lparr>tr_curr := Some c'\<rparr> in
                case er of None \<Rightarrow> loop k acc' tr1
                | Some e \<Rightarrow> Some (Ret (if k \<le> length acc' then Inr acc'
                     else if acc' \<noteq> [] \<and> e = EOF then Inl UnexpectedEOF else Inl e, tr1))))) = Some r"
    show "?P k acc tr r"
    proof (cases "k \<le> length acc \<or> tr_curr tr = None")
      case True
      with eq show ?thesis by (auto split: if_splits option.splits)
    next
      case False
      then obtain c where c: "\<not> k \<le> length acc" "tr_curr tr = Some c" by blast
      show ?thesis
      proof (cases "curr_Read (int (k - length acc)) c tr")
        case (Ret q)
        obtain b er c' tr1 where q: "q = (b, er, c', tr1)" by (cases q) auto
        have d: "reads tr (tr1\<lparr>tr_curr := Some c'\<rparr>)" using curr_Read_rest Ret q by simp
        show ?thesis
        proof (cases er)
          case None
          with eq c Ret q have "loop k (acc @ b) (tr1\<lparr>tr_curr := Some c'\<rparr>) = Some r" by simp
          from ih [OF this] d show ?thesis by (blast intro: reads_trans)
        next
          case (Some e)
          with eq c Ret q d show ?thesis by (auto simp: Let_def)
        qed
      qed (use eq c in auto)
    qed
  qed
  then show ?thesis by blast
qed

lemma read_full_curr_rest: "read_full_curr k tr = Ret (r, tr') \<Longrightarrow> reads tr tr'"
  by (auto simp: read_full_curr_def dest: full_loop_rest split: option.splits)

lemma readDecimal_rest: "readDecimal sh tr = Ret (r, tr') \<Longrightarrow> reads tr tr'"
  by (auto simp: readDecimal_def simp del: bind_outcome_eq_Ret elim!: bind_outcomeE
      dest!: read_full_curr_rest split: option.splits if_splits sum.splits)

lemma read_map_entries_rest: "read_map_entries n sh tr = Ret (r, tr') \<Longrightarrow> reads tr tr'"
proof (induction n arbitrary: sh tr r tr')
  case (Suc n)
  then obtain r1 tr1 where 1: "readDecimal sh tr = Ret (r1, tr1)" by auto
  show ?case
  proof (cases r1)
    case (Inl e)
    with Suc.prems 1 readDecimal_rest [OF 1] show ?thesis by simp
  next
    case (Inr q)
    obtain off sh1 where q: "q = (off, sh1)" by fastforce
    from Suc.prems 1 Inr q obtain r2 tr2 where 2: "readDecimal sh1 tr1 = Ret (r2, tr2)" by auto
    have t2: "reads tr tr2" using readDecimal_rest [OF 1] readDecimal_rest [OF 2] by (rule reads_trans)
    show ?thesis
    proof (cases r2)
      case (Inl e)
      with Suc.prems 1 Inr q 2 t2 show ?thesis by simp
    next
      case I2: (Inr q2)
      obtain nb sh2 where q2: "q2 = (nb, sh2)" by fastforce
      from Suc.prems 1 Inr q 2 I2 q2 obtain r3 where "read_map_entries n sh2 tr2 = Ret (r3, tr')" by auto
      from Suc.IH [OF this] t2 show ?thesis by (rule reads_trans [rotated])
    qed
  qed
qed simp

lemma readGNUSparseMap1x0_rest:
  assumes "readGNUSparseMap1x0 tr = Ret (r, tr')"
  shows "reads tr tr'"
proof -
  from assms obtain r1 tr1 where 1: "read_full_curr 512 tr = Ret (r1, tr1)"
    by (auto simp: readGNUSparseMap1x0_def)
  then have t1: "reads tr tr1" by (rule read_full_curr_rest)
  show ?thesis
  proof (cases r1)
    case (Inl e)
    with assms 1 t1 show ?thesis by (simp add: readGNUSparseMap1x0_def)
  next
    case (Inr sh)
    with assms 1 obtain r2 tr2 where 2: "readDecimal sh tr1 = Ret (r2, tr2)"
      by (auto simp: readGNUSparseMap1x0_def)
    have t2: "reads tr tr2" using t1 readDecimal_rest [OF 2] by (rule reads_trans)
    with assms 1 Inr 2 show ?thesis
      by (auto simp: readGNUSparseMap1x0_def split: sum.splits if_splits
          dest!: read_map_entries_rest intro: reads_trans)
  qed
qed

lemma checkForGNU_rest:
  "checkForGNUSparsePAXHeaders hdr hs tr = Ret (r, hdr', tr') \<Longrightarrow> suf tr tr'"
  by (auto simp: checkForGNUSparsePAXHeaders_def Let_def reads_def dest!: readGNUSparseMap1x0_rest
      split: if_splits sum.splits)

lemma parsePAX_rest: "parsePAX tr = Ret (r, tr') \<Longrightarrow> suf tr tr'"
  by (auto simp: parsePAX_def reads_def dest!: read_all_reads split: option.splits)

lemma suf_skipUnread: "suf tr (skipUnread tr)"
  using skipUnread_rest [of tr] by (auto simp: suffix_def)

lemma suf_readHeader: "readHeader tr = (Some h, tr') \<Longrightarrow> suf tr tr'"
  by (auto simp: readHeader_def suffix_def dest!: read_block_Some open_entry_rest
      split: prod.splits option.splits if_splits)

lemma pax_header_rest:
  assumes "pax_header tr = Ret (Some hdr, er, tr')"
  shows "suf tr tr'"
proof -
  from assms obtain hs tr1 where 1: "parsePAX tr = Ret (Inr hs, tr1)"
    by (auto simp: pax_header_def simp del: bind_outcome_eq_Ret elim!: bind_outcomeE split: sum.splits)
  with assms have e: "tr_err (skipUnread tr1) = None"
    by (cases "tr_err (skipUnread tr1)") (auto simp: pax_header_def Let_def)
  with assms 1 obtain h tr3 where 3: "readHeader (skipUnread tr1) = (Some h, tr3)"
    by (cases "readHeader (skipUnread tr1)"; cases "fst (readHeader (skipUnread tr1))")
      (auto simp: pax_header_def Let_def)
  with assms 1 e obtain sp hdr' tr4 where
    4: "checkForGNUSparsePAXHeaders (fst (mergePAX (tr_order tr3 hs) h)) hs tr3 = Ret (sp, hdr', tr4)"
    by (auto simp: pax_header_def Let_def)
  from assms 1 e 3 4 have "tr_rest tr' = tr_rest tr4"
    by (auto simp: pax_header_def Let_def split: sum.splits option.splits curr_reader.splits)
  with parsePAX_rest [OF 1] suf_skipUnread [of tr1] suf_readHeader [OF 3] checkForGNU_rest [OF 4]
  show ?thesis using suffix_order.trans by metis
qed

lemma Next_shrinks:
  "Next tr = Ret (Some hdr, er, tr') \<Longrightarrow> length (tr_rest tr') < length (tr_rest tr)"
proof (induction tr arbitrary: hdr er tr' rule: Next.induct)
  case (1 tr)
  note eq = 1(2) [unfolded Next.simps [of tr]]
  from eq obtain h tr1 where nh: "next_header tr = (Some h, tr1)"
    by (cases "next_header tr"; cases "fst (next_header tr)") auto
  have l1: "length (tr_rest tr1) < length (tr_rest tr)" using next_header_shrinks [OF nh] .
  consider "Typeflag h = TypeXHeader"
    | "Typeflag h \<noteq> TypeXHeader" "Typeflag h = TypeGNULongName \<or> Typeflag h = TypeGNULongLink"
    | "Typeflag h \<noteq> TypeXHeader" "\<not> (Typeflag h = TypeGNULongName \<or> Typeflag h = TypeGNULongLink)"
    by blast
  then show ?case
  proof cases
    case 1
    with eq nh have "pax_header tr1 = Ret (Some hdr, er, tr')" by simp
    from pax_header_rest [OF this] l1 show ?thesis by (auto dest: suffix_length_le)
  next
    case 2
    with eq nh obtain nm e2 tr2 where ra: "read_all tr1 = Ret (nm, e2, tr2)" by auto
    with eq nh 2 have e2: "e2 = None" by (cases e2) auto
    obtain buf tr4 where b4: "RawBytes (write_raw nm tr2) = (buf, tr4)" by fastforce
    from eq nh 2 ra e2 b4 obtain hx e5 tr5 where nx: "Next tr4 = Ret (hx, e5, tr5)"
      by (auto simp: Let_def)
    obtain b5 tr6 where b6: "RawBytes tr5 = (b5, tr6)" by fastforce
    from eq nh 2 ra e2 b4 nx b6 obtain h2 where h2: "hx = Some h2"
      by (cases hx) (auto simp: Let_def)
    from eq nh 2 ra e2 b4 nx b6 h2 have "tr_rest tr' = tr_rest tr5"
      by (auto simp: Let_def dest!: RawBytes_fields)
    moreover have "length (tr_rest tr5) < length (tr_rest tr4)"
      by (rule "1.IH" [OF nh [symmetric] refl 2 ra refl refl e2 refl refl b4 [symmetric] nx [unfolded h2]])
    moreover have "length (tr_rest tr4) \<le> length (tr_rest tr1)"
      using RawBytes_fields [OF b4] read_all_rest [OF ra] by auto
    ultimately show ?thesis using l1 by simp
  next
    case 3
    with eq nh l1 show ?thesis by auto
  qed
qed

section \<open>How the underlying stream ends\<close>

lemma end_skipUnread [simp]: "tr_end (skipUnread tr) = tr_end tr"
  by (simp add: skipUnread_def Let_def)

lemma end_read_block: "read_block tr = (r, tr') \<Longrightarrow> tr_end tr' = tr_end tr"
  by (auto simp: read_block_def read_full_def Let_def split: if_splits sum.splits prod.splits)

lemma end_read_full: "read_full k tr = (r, tr') \<Longrightarrow> tr_end tr' = tr_end tr"
  by (auto simp: read_full_def split: if_splits)

lemma end_sparse_ext: "sparse_ext sp tr = (r, tr') \<Longrightarrow> tr_end tr' = tr_end tr"
proof (induction sp tr rule: sparse_ext.induct)
  case (1 sp tr)
  obtain x tr1 where x: "read_full blockSize tr = (x, tr1)" by fastforce
  note e = end_read_full [OF x]
  show ?case
  proof (cases x)
    case (Inl y)
    with "1.prems" x e show ?thesis by (auto simp: sparse_ext.simps [of sp tr])
  next
    case (Inr h)
    with "1.prems" x e "1.IH" [OF x [symmetric] Inr refl] show ?thesis
      by (auto simp: sparse_ext.simps [of sp tr] Let_def split: option.splits if_splits)
  qed
qed

lemma end_open_entry: "open_entry h hdr tr = (r, tr') \<Longrightarrow> tr_end tr' = tr_end tr"
  by (auto simp: open_entry_def readOldGNUSparseMap_def Let_def dest!: end_sparse_ext
      split: option.splits prod.splits if_splits)

lemma end_readHeader: "readHeader tr = (r, tr') \<Longrightarrow> tr_end tr' = tr_end tr"
  by (auto simp: readHeader_def dest!: end_read_block end_open_entry split: prod.splits option.splits if_splits)

lemma end_next_header: "next_header tr = (r, tr') \<Longrightarrow> tr_end tr' = tr_end tr"
  by (auto simp: next_header_def reset_raw_def Let_def dest!: end_readHeader split: if_splits)

lemma end_read_all: "read_all tr = Ret (b, er, tr') \<Longrightarrow> tr_end tr' = tr_end tr"
  by (auto simp: reads_def dest: read_all_reads)

lemma end_parsePAX: "parsePAX tr = Ret (r, tr') \<Longrightarrow> tr_end tr' = tr_end tr"
  by (auto simp: parsePAX_def reads_def dest!: read_all_reads split: option.splits)

lemma end_checkForGNU: "checkForGNUSparsePAXHeaders hdr hs tr = Ret (r, hdr', tr') \<Longrightarrow> tr_end tr' = tr_end tr"
  by (auto simp: checkForGNUSparsePAXHeaders_def Let_def reads_def dest!: readGNUSparseMap1x0_rest
      split: if_splits sum.splits)

lemma end_RawBytes: "RawBytes tr = (b, tr') \<Longrightarrow> tr_end tr' = tr_end tr"
  by (auto simp: RawBytes_def split: if_splits)

lemma end_pax_header: "pax_header tr = Ret (r, er, tr') \<Longrightarrow> tr_end tr' = tr_end tr"
  by (auto simp: pax_header_def Let_def simp del: bind_outcome_eq_Ret elim!: bind_outcomeE
      dest!: end_parsePAX end_readHeader end_checkForGNU
      split: sum.splits prod.splits option.splits if_splits curr_reader.splits)

lemma end_Next: "Next tr = Ret (hdr, er, tr') \<Longrightarrow> tr_end tr' = tr_end tr"
proof (induction tr arbitrary: hdr er tr' rule: Next.induct)
  case (1 tr)
  note eq = 1(2) [unfolded Next.simps [of tr]]
  obtain ho tr1 where nh: "next_header tr = (ho, tr1)" by fastforce
  note e1 = end_next_header [OF nh]
  show ?case
  proof (cases ho)
    case None
    with eq nh e1 show ?thesis by simp
  next
    case (Some h)
    note nh = nh [unfolded Some]
    consider "Typeflag h = TypeXHeader"
      | "Typeflag h \<noteq> TypeXHeader" "Typeflag h = TypeGNULongName \<or> Typeflag h = TypeGNULongLink"
      | "Typeflag h \<noteq> TypeXHeader" "\<not> (Typeflag h = TypeGNULongName \<or> Typeflag h = TypeGNULongLink)"
      by blast
    then show ?thesis
    proof cases
      case 1
      with eq nh e1 show ?thesis by (auto dest: end_pax_header)
    next
      case 2
      with eq nh obtain nm e2 tr2 where ra: "read_all tr1 = Ret (nm, e2, tr2)" by auto
      note r2 = end_read_all [OF ra]
      show ?thesis
      proof (cases e2)
        case (Some x)
        with eq nh 2 ra r2 e1 show ?thesis by auto
      next
        case e2: None
        obtain buf tr4 where b4: "RawBytes (write_raw nm tr2) = (buf, tr4)" by fastforce
        from eq nh 2 ra e2 b4 obtain hx e5 tr5 where nx: "Next tr4 = Ret (hx, e5, tr5)"
          by (auto simp: Let_def)
        have "tr_end tr5 = tr_end tr4"
          by (rule "1.IH" [OF nh [symmetric] refl 2 ra refl refl e2 refl refl b4 [symmetric] nx])
        moreover obtain b5 tr6 where b6: "RawBytes tr5 = (b5, tr6)" by fastforce
        moreover from eq nh 2 ra e2 b4 nx b6 have "tr_end tr' = tr_end tr6"
          by (cases hx) (auto simp: Let_def)
        ultimately show ?thesis using end_RawBytes [OF b4] end_RawBytes [OF b6] r2 e1 by simp
      qed
    next
      case 3
      with eq nh e1 show ?thesis by auto
    qed
  qed
qed

end
