(* ===== verification/TarAsm.thy ===== *)
theory TarAsm
  imports TarStorage TarReader
begin

text \<open>
  Package \<open>tar-split/tar/asm\<close>: \<open>assemble.go\<close> writes a tar stream from a record and the files
  of a layer, \<open>disassemble.go\<close> splits a tar stream into such a record.

  Both are written over the interfaces of \<open>tar/storage\<close>: an unpacker, a packer, a file getter
  and a file putter are functions on a state of their own.  The contracts are two locales,
  \<open>entry_log\<close> (what was added can be read back) and \<open>file_store\<close> (what was put can be got),
  interpreted in \<open>TarRoundtrip\<close> on the JSON packer and unpacker and on the buffer of \<open>getter.go\<close>.
\<close>

section \<open>Assembling (assemble.go)\<close>

text \<open>
  \<open>copyWithBuffer\<close> with the writer of \<open>io.MultiWriter(w, crcHash)\<close>: 32 KiB at a time, first to
  \<open>w\<close>, then to the checksum; the result has the bytes the checksum has seen.
\<close>

fun copy_chunks ::
  "(bytes \<Rightarrow> 'w \<Rightarrow> err option \<times> 'w) \<Rightarrow> bytes list \<Rightarrow> bytes \<Rightarrow> 'w \<Rightarrow> err option \<times> bytes \<times> 'w" where
  "copy_chunks wr [] crc w = (None, crc, w)"
| "copy_chunks wr (b # bs) crc w =
     (case wr b w of
        (Some e, w') \<Rightarrow> (Some e, crc, w')
      | (None, w') \<Rightarrow> copy_chunks wr bs (crc @ b) w')"

definition copyWithBuffer ::
  "(bytes \<Rightarrow> 'w \<Rightarrow> err option \<times> 'w) \<Rightarrow> stream \<Rightarrow> 'w \<Rightarrow> err option \<times> bytes \<times> 'w" where
  "copyWithBuffer wr src w =
     (case copy_chunks wr (chunks 32768 (fst src)) [] w of
        (Some e, crc, w') \<Rightarrow> (Some e, crc, w')
      | (None, crc, w') \<Rightarrow> (snd src, crc, w'))"

definition ErrIntegrity :: "string \<Rightarrow> err" where
  "ErrIntegrity name = ErrText (''file integrity checksum failed for '' @ name)"

text \<open>One entry: \<open>Some\<close> error ends the assembly.\<close>

definition write_entry ::
  "(string \<Rightarrow> stream res) \<Rightarrow> (bytes \<Rightarrow> 'w \<Rightarrow> err option \<times> 'w) \<Rightarrow> entry \<Rightarrow> 'w \<Rightarrow> err option \<times> 'w" where
  "write_entry fg wr e w =
     (if etype e = SegmentType then wr (payload e) w
      else if etype e = FileType then
        (if esize e = 0 then (None, w)
         else
           (case fg (GetName e) of
              Inl x \<Rightarrow> (Some x, w)
            | Inr fh \<Rightarrow>
                (case copyWithBuffer wr fh w of
                   (Some x, _, w') \<Rightarrow> (Some x, w')
                 | (None, crc, w') \<Rightarrow>
                     if crc64 crc = payload e then (None, w')
                     else (Some (ErrIntegrity (GetName e)), w'))))
      else (None, w))"

text \<open>The loop asks the unpacker until it fails; an unpacker may never do so.\<close>

partial_function (option) WriteOutputTarStream ::
  "('u \<Rightarrow> entry res \<times> 'u) \<Rightarrow> (string \<Rightarrow> stream res) \<Rightarrow> (bytes \<Rightarrow> 'w \<Rightarrow> err option \<times> 'w) \<Rightarrow>
   'u \<Rightarrow> 'w \<Rightarrow> (err option \<times> 'u \<times> 'w) option" where
  "WriteOutputTarStream nxt fg wr u w =
     (case nxt u of
        (Inl x, u') \<Rightarrow> Some (if x = EOF then None else Some x, u', w)
      | (Inr e, u') \<Rightarrow>
          (case write_entry fg wr e w of
             (Some x, w') \<Rightarrow> Some (Some x, u', w')
           | (None, w') \<Rightarrow> WriteOutputTarStream nxt fg wr u' w'))"

text \<open>\<open>NewOutputTarStream\<close>: what the reader of the pipe sees.\<close>

definition pipe_write :: "bytes \<Rightarrow> bytes \<Rightarrow> err option \<times> bytes" where
  "pipe_write b w = (None, w @ b)"

definition NewOutputTarStream ::
  "('u \<Rightarrow> entry res \<times> 'u) \<Rightarrow> (string \<Rightarrow> stream res) \<Rightarrow> 'u \<Rightarrow> stream option" where
  "NewOutputTarStream nxt fg u =
     map_option (\<lambda>(er, _, w). (w, er)) (WriteOutputTarStream nxt fg pipe_write u [])"

section \<open>Disassembling (disassemble.go)\<close>

definition segment :: "bytes \<Rightarrow> entry" where
  "segment b = zero_entry\<lparr>etype := SegmentType, epayload := Some b\<rparr>"

definition add_raw ::
  "(entry \<Rightarrow> 'p \<Rightarrow> int64 res \<times> 'p) \<Rightarrow> bytes \<Rightarrow> 'p \<Rightarrow> err option \<times> 'p" where
  "add_raw add b p =
     (if 0 < length b then
        (case add (segment b) p of (Inl x, p') \<Rightarrow> (Some x, p') | (Inr _, p') \<Rightarrow> (None, p'))
      else (None, p))"

type_synonym 'f putter = "string \<Rightarrow> stream \<Rightarrow> 'f \<Rightarrow> (bytes option \<times> err option) \<times> 'f"

text \<open>The end of the stream: what the tar reader has left is one last segment.\<close>

definition finish_stream ::
  "(entry \<Rightarrow> 'p \<Rightarrow> int64 res \<times> 'p) \<Rightarrow> tar_reader \<Rightarrow> 'p \<Rightarrow> 'f \<Rightarrow> err option \<times> tar_reader \<times> 'p \<times> 'f" where
  "finish_stream add tr p f =
     (let tr' = tr\<lparr>tr_rest := []\<rparr> in
      if tr_end tr \<noteq> EOF then (Some (tr_end tr), tr', p, f)
      else
        (case add (segment (tr_rest tr)) p of
           (Inl x, p') \<Rightarrow> (Some x, tr', p', f)
         | (Inr _, p') \<Rightarrow> (None, tr', p', f)))"

definition file_entry :: "header \<Rightarrow> bytes option \<Rightarrow> entry" where
  "file_entry hdr csum =
     SetName (Name hdr) (zero_entry\<lparr>etype := FileType, esize := Size hdr, epayload := csum\<rparr>)"

text \<open>The body of the loop after \<open>Next\<close> returned a header, up to the next iteration.\<close>

definition put_payload ::
  "'f putter \<Rightarrow> header \<Rightarrow> tar_reader \<Rightarrow> 'f \<Rightarrow> ((bytes option \<times> err option) \<times> tar_reader \<times> 'f) outcome" where
  "put_payload put hdr tr f =
     (if 0 < sint (Size hdr) then
        bind_outcome (read_all tr) (\<lambda>(b, er, tr').
          (let (r, f') = put (Name hdr) (b, er) f in Ret (r, tr', f')))
      else Ret ((None, None), tr, f))"

definition disasm_entry ::
  "(entry \<Rightarrow> 'p \<Rightarrow> int64 res \<times> 'p) \<Rightarrow> 'f putter \<Rightarrow> header \<Rightarrow> tar_reader \<Rightarrow> 'p \<Rightarrow> 'f \<Rightarrow>
   (err option \<times> tar_reader \<times> 'p \<times> 'f) outcome" where
  "disasm_entry add put hdr tr p f =
     (let (b, tr1) = RawBytes tr in
      case add_raw add b p of
        (Some x, p1) \<Rightarrow> Ret (Some x, tr1, p1, f)
      | (None, p1) \<Rightarrow>
          bind_outcome (put_payload put hdr tr1 f) (\<lambda>((csum, er), tr2, f').
            case er of
              Some x \<Rightarrow> Ret (Some x, tr2, p1, f')
            | None \<Rightarrow>
                (case add (file_entry hdr csum) p1 of
                   (Inl x, p2) \<Rightarrow> Ret (Some x, tr2, p2, f')
                 | (Inr _, p2) \<Rightarrow>
                     (let (b3, tr3) = RawBytes tr2; (x, p3) = add_raw add b3 p2
                      in Ret (x, tr3, p3, f')))))"

lemma RawBytes_rest: "RawBytes tr = (b, tr') \<Longrightarrow> tr_rest tr' = tr_rest tr"
  by (auto dest: RawBytes_fields)

lemma put_payload_rest:
  "put_payload put hdr tr f = Ret (r, tr', f') \<Longrightarrow> length (tr_rest tr') \<le> length (tr_rest tr)"
  by (auto simp: put_payload_def simp del: bind_outcome_eq_Ret elim!: bind_outcomeE
      dest!: read_all_rest split: if_splits prod.splits)

lemma disasm_entry_rest:
  assumes "disasm_entry add put hdr tr p f = Ret (x, tr', p', f')"
  shows "length (tr_rest tr') \<le> length (tr_rest tr)"
proof -
  obtain b tr1 where b: "RawBytes tr = (b, tr1)" by fastforce
  obtain e1 p1 where r: "add_raw add b p = (e1, p1)" by fastforce
  show ?thesis
  proof (cases e1)
    case Some
    with assms b r show ?thesis by (auto simp: disasm_entry_def dest: RawBytes_rest)
  next
    case None
    with assms b r obtain csum er tr2 f2 where pp: "put_payload put hdr tr1 f = Ret ((csum, er), tr2, f2)"
      by (auto simp: disasm_entry_def)
    with assms b r None have "tr_rest tr' = tr_rest tr2"
      by (auto simp: disasm_entry_def split: option.splits sum.splits prod.splits dest: RawBytes_rest)
    with put_payload_rest [OF pp] RawBytes_rest [OF b] show ?thesis by simp
  qed
qed

function disassemble ::
  "(entry \<Rightarrow> 'p \<Rightarrow> int64 res \<times> 'p) \<Rightarrow> 'f putter \<Rightarrow> tar_reader \<Rightarrow> 'p \<Rightarrow> 'f \<Rightarrow>
   (err option \<times> tar_reader \<times> 'p \<times> 'f) outcome" where
  "disassemble add put tr p f =
     bind_outcome (Next tr) (\<lambda>(hdr, er, tr1).
       case er of
         Some e \<Rightarrow>
           if e \<noteq> EOF then Ret (Some e, tr1, p, f)
           else
             (let (b, tr2) = RawBytes tr1 in
              case add_raw add b p of
                (Some x, p1) \<Rightarrow> Ret (Some x, tr2, p1, f)
              | (None, p1) \<Rightarrow> Ret (finish_stream add tr2 p1 f))
       | None \<Rightarrow>
           (case hdr of
              None \<Rightarrow> Ret (finish_stream add tr1 p f)
            | Some h \<Rightarrow>
                bind_outcome (disasm_entry add put h tr1 p f) (\<lambda>(x, tr2, p2, f2).
                  case x of
                    Some e \<Rightarrow> Ret (Some e, tr2, p2, f2)
                  | None \<Rightarrow> disassemble add put tr2 p2 f2)))"
  by pat_completeness auto
termination
  by (relation "measure (\<lambda>(add, put, tr, p, f). length (tr_rest tr))")
    (auto dest!: Next_shrinks disasm_entry_rest)

declare disassemble.simps [simp del]

text \<open>
  \<open>NewInputTarStream\<close>: the consumer of the returned reader gets every byte the goroutine took
  from the source, then its error or the end of the stream.  A nil putter stands for
  \<open>NewDiscardFilePutter\<close>.
\<close>

definition input_reader ::
  "((string \<times> string) list \<Rightarrow> (string \<times> string) list) \<Rightarrow> stream \<Rightarrow> tar_reader" where
  "input_reader ord r =
     (NewReader (fst r) (case snd r of None \<Rightarrow> EOF | Some e \<Rightarrow> e) ord)\<lparr>tr_acc := True\<rparr>"

definition NewInputTarStream ::
  "((string \<times> string) list \<Rightarrow> (string \<times> string) list) \<Rightarrow> (entry \<Rightarrow> 'p \<Rightarrow> int64 res \<times> 'p) \<Rightarrow> 'f putter \<Rightarrow>
   stream \<Rightarrow> 'p \<Rightarrow> 'f \<Rightarrow> (stream \<times> 'p \<times> 'f) outcome" where
  "NewInputTarStream ord add put r p f =
     bind_outcome (disassemble add put (input_reader ord r) p f) (\<lambda>(er, tr', p', f').
       Ret ((take (length (fst r) - length (tr_rest tr')) (fst r), er), p', f'))"

definition discard_putter :: "unit putter" where
  "discard_putter name r f =
     (let (_, csum, er) = bitBucketFilePutter_Put name r in ((Some csum, er), f))"

definition buffer_putter :: "file_buffer putter" where
  "buffer_putter name r files =
     (case bufferFileGetPutter_Put name r files of
        (Inl e, files') \<Rightarrow> ((None, Some e), files')
      | (Inr (_, csum), files') \<Rightarrow> ((Some csum, None), files'))"

end
