(* ===== verification/TarRoundtrip.thy ===== *)
theory TarRoundtrip
  imports TarAsm
begin

text \<open>
  The contracts of the interfaces of \<open>tar/storage\<close> and what \<open>tar/asm\<close> guarantees under them:
  assembling a record always ends and writes the concatenation of its pieces, and a stream that
  was split into a record is assembled again byte for byte.
\<close>

section \<open>What an entry contributes to the stream\<close>

definition piece :: "(string \<Rightarrow> stream res) \<Rightarrow> entry \<Rightarrow> bytes" where
  "piece fg e =
     (if etype e = SegmentType then payload e
      else if etype e = FileType \<and> esize e \<noteq> 0 then
        (case fg (GetName e) of Inr (b, _) \<Rightarrow> b | Inl _ \<Rightarrow> [])
      else [])"

text \<open>The file an entry names is there, complete and with the recorded checksum.\<close>

definition good_entry :: "(string \<Rightarrow> stream res) \<Rightarrow> entry \<Rightarrow> bool" where
  "good_entry fg e \<longleftrightarrow>
     (etype e = FileType \<and> esize e \<noteq> 0 \<longrightarrow>
        (\<exists>b. fg (GetName e) = Inr (b, None) \<and> crc64 b = payload e))"

lemma concat_chunks: "0 < n \<Longrightarrow> concat (chunks n xs) = xs"
  by (induction n xs rule: chunks.induct) (subst chunks.simps, auto)

lemma copy_chunks_pipe: "copy_chunks pipe_write bs crc w = (None, crc @ concat bs, w @ concat bs)"
  by (induction bs arbitrary: crc w) (auto simp: pipe_write_def)

lemma copyWithBuffer_pipe: "copyWithBuffer pipe_write (b, er) w = (er, b, w @ b)"
  by (cases er) (simp_all add: copyWithBuffer_def copy_chunks_pipe concat_chunks)

lemma Seg_File [simp]: "SegmentType \<noteq> FileType" "FileType \<noteq> SegmentType"
  by (simp_all add: SegmentType_def FileType_def)

text \<open>An entry is written iff it is good; then exactly its piece is appended.\<close>

lemma write_entry_pipe:
  "fst (write_entry fg pipe_write e w) = None \<longleftrightarrow> good_entry fg e"
  "good_entry fg e \<Longrightarrow> snd (write_entry fg pipe_write e w) = w @ piece fg e"
  by (auto simp: write_entry_def good_entry_def piece_def copyWithBuffer_pipe pipe_write_def
      split: sum.splits option.splits prod.splits)

section \<open>The unpacker's contract\<close>

text \<open>\<open>remaining u\<close>: the entries the unpacker will still return and the error after them.\<close>

locale entry_source =
  fixes nxt :: "'u \<Rightarrow> entry res \<times> 'u"
    and remaining :: "'u \<Rightarrow> entry list \<times> err"
  assumes nxt_end: "remaining u = ([], x) \<Longrightarrow> fst (nxt u) = Inl x"
    and nxt_more: "remaining u = (e # es, x) \<Longrightarrow> fst (nxt u) = Inr e \<and> remaining (snd (nxt u)) = (es, x)"

fun assemble_entries ::
  "(string \<Rightarrow> stream res) \<Rightarrow> (bytes \<Rightarrow> 'w \<Rightarrow> err option \<times> 'w) \<Rightarrow> entry list \<Rightarrow> err \<Rightarrow> 'w \<Rightarrow> err option \<times> 'w" where
  "assemble_entries fg wr [] x w = (if x = EOF then None else Some x, w)"
| "assemble_entries fg wr (e # es) x w =
     (case write_entry fg wr e w of
        (Some y, w') \<Rightarrow> (Some y, w')
      | (None, w') \<Rightarrow> assemble_entries fg wr es x w')"

context entry_source
begin

lemma WriteOutputTarStream_spec:
  assumes "remaining u = (es, x)"
  shows "\<exists>u'. WriteOutputTarStream nxt fg wr u w =
           Some (fst (assemble_entries fg wr es x w), u', snd (assemble_entries fg wr es x w))"
  using assms
proof (induction es arbitrary: u w)
  case Nil
  from nxt_end [OF this] show ?case
    by (subst WriteOutputTarStream.simps) (cases "nxt u", simp)
next
  case (Cons e es)
  note n = nxt_more [OF Cons.prems]
  obtain u1 where u1: "nxt u = (Inr e, u1)" "remaining u1 = (es, x)"
    using n by (cases "nxt u") auto
  show ?case
  proof (cases "write_entry fg wr e w")
    case (Pair r w1)
    with u1 Cons.IH [OF u1(2), of w1] show ?thesis
      by (subst WriteOutputTarStream.simps) (cases r; simp)
  qed
qed

end

lemma assemble_pipe:
  "fst (assemble_entries fg pipe_write es x w) = None \<longleftrightarrow> (\<forall>e \<in> set es. good_entry fg e) \<and> x = EOF"
  "\<forall>e \<in> set es. good_entry fg e \<Longrightarrow>
     snd (assemble_entries fg pipe_write es x w) = w @ concat (map (piece fg) es)"
proof (induction es arbitrary: w)
  case (Cons e es)
  {
    case 1
    show ?case using Cons.IH(1) write_entry_pipe [of fg e w]
      by (cases "write_entry fg pipe_write e w"; cases "fst (write_entry fg pipe_write e w)") auto
  next
    case 2
    then show ?case using Cons.IH(2) write_entry_pipe [of fg e w]
      by (cases "write_entry fg pipe_write e w") auto
  }
qed simp_all

section \<open>The packer's contract\<close>

text \<open>\<open>logged p\<close>: the entries that can be read back; file names are pairwise different.\<close>

definition clash :: "entry \<Rightarrow> entry \<Rightarrow> bool" where
  "clash a b \<longleftrightarrow> etype a = FileType \<and> etype b = FileType \<and> GetName a = GetName b"

locale entry_log =
  fixes add :: "entry \<Rightarrow> 'p \<Rightarrow> int64 res \<times> 'p"
    and inv :: "'p \<Rightarrow> bool"
    and logged :: "'p \<Rightarrow> entry list"
  assumes add_inv: "inv p \<Longrightarrow> add e p = (Inr n, p') \<Longrightarrow> inv p'"
    and add_logged: "inv p \<Longrightarrow> add e p = (Inr n, p') \<Longrightarrow> logged p' = logged p @ [stored n e]"
    and add_fresh: "inv p \<Longrightarrow> add e p = (Inr n, p') \<Longrightarrow> d \<in> set (logged p) \<Longrightarrow> \<not> clash d (stored n e)"

section \<open>The file store's contract\<close>

locale file_store =
  fixes put :: "'f putter"
    and get :: "'f \<Rightarrow> string \<Rightarrow> stream res"
  assumes put_sum: "put n (b, er) f = ((c, None), f') \<Longrightarrow> er = None \<and> c = Some (crc64 b)"
    and put_get: "put n (b, er) f = ((c, None), f') \<Longrightarrow> get f' n = Inr (b, None)"
    and put_other: "put n r f = ((c, None), f') \<Longrightarrow> m \<noteq> n \<Longrightarrow> get f' m = get f m"

section \<open>Splitting loses nothing\<close>

lemma stored_segment [simp]:
  "etype (segment b) = SegmentType" "epayload (segment b) = Some b"
  by (simp_all add: segment_def)

lemma piece_segment [simp]: "piece fg (stored n (segment b)) = b"
  by (simp add: piece_def payload_def)

lemma good_segment [simp]: "good_entry fg (stored n (segment b))"
  by (simp add: good_entry_def)

lemma file_entry_fields [simp]:
  "etype (file_entry h c) = FileType" "esize (file_entry h c) = Size h" "epayload (file_entry h c) = c"
  by (simp_all add: file_entry_def SetName_def)

lemma GetName_file_entry [simp]: "GetName (raw_name (file_entry h c)) = Name h"
  by (auto simp: file_entry_def SetName_def raw_name_def GetName_def zero_entry_def)

text \<open>\<open>f\<close> still serves every file entry of \<open>es\<close> as \<open>f0\<close> did.\<close>

definition same_files :: "(string \<Rightarrow> stream res) \<Rightarrow> (string \<Rightarrow> stream res) \<Rightarrow> entry list \<Rightarrow> bool" where
  "same_files g g' es \<longleftrightarrow> (\<forall>e \<in> set es. etype e = FileType \<longrightarrow> g' (GetName e) = g (GetName e))"

lemma same_files_good:
  "same_files g g' es \<Longrightarrow> \<forall>e \<in> set es. good_entry g e \<Longrightarrow> \<forall>e \<in> set es. good_entry g' e"
  by (auto simp: same_files_def good_entry_def)

lemma same_files_piece:
  "same_files g g' es \<Longrightarrow> map (piece g') es = map (piece g) es"
  by (auto simp: same_files_def piece_def)

lemma same_files_refl [simp]: "same_files g g es"
  by (simp add: same_files_def)

lemma same_files_trans: "same_files g g' es \<Longrightarrow> same_files g' g'' es \<Longrightarrow> same_files g g'' es"
  by (simp add: same_files_def)

lemma same_files_append [simp]:
  "same_files g g' (xs @ ys) \<longleftrightarrow> same_files g g' xs \<and> same_files g g' ys"
  by (auto simp: same_files_def)

locale tar_split = entry_log add inv logged + file_store put get
  for add :: "entry \<Rightarrow> 'p \<Rightarrow> int64 res \<times> 'p" and inv logged
    and put :: "'f putter" and get
begin

text \<open>\<open>grew p f p' f' bs\<close>: the log grew by good entries whose pieces are \<open>bs\<close>, and the files of
  the entries that were there are still the same.\<close>

definition grew :: "'p \<Rightarrow> 'f \<Rightarrow> 'p \<Rightarrow> 'f \<Rightarrow> bytes \<Rightarrow> bool" where
  "grew p f p' f' bs \<longleftrightarrow>
     inv p' \<and> same_files (get f) (get f') (logged p) \<and>
     (\<exists>es. logged p' = logged p @ es \<and> (\<forall>e \<in> set es. good_entry (get f') e) \<and>
           concat (map (piece (get f')) es) = bs)"

lemma grew_refl: "inv p \<Longrightarrow> grew p f p f []"
  by (simp add: grew_def)

lemma grew_trans:
  assumes "grew p f p1 f1 b1" and "grew p1 f1 p2 f2 b2"
  shows "grew p f p2 f2 (b1 @ b2)"
proof -
  from assms obtain e1 e2 where
    1: "logged p1 = logged p @ e1" "\<forall>e \<in> set e1. good_entry (get f1) e"
       "concat (map (piece (get f1)) e1) = b1" "same_files (get f) (get f1) (logged p)" and
    2: "logged p2 = logged p1 @ e2" "\<forall>e \<in> set e2. good_entry (get f2) e"
       "concat (map (piece (get f2)) e2) = b2" "same_files (get f1) (get f2) (logged p1)" "inv p2"
    unfolding grew_def by blast
  from 2(4) 1(1) have s: "same_files (get f1) (get f2) e1" "same_files (get f1) (get f2) (logged p)"
    by simp_all
  have "same_files (get f) (get f2) (logged p)" using 1(4) s(2) by (rule same_files_trans)
  moreover note same_files_good [OF s(1) 1(2)]
  moreover have "concat (map (piece (get f2)) (e1 @ e2)) = b1 @ b2"
    unfolding map_append concat_append same_files_piece [OF s(1)] by (simp add: 1(3) 2(3))
  ultimately show ?thesis
    unfolding grew_def using 1(1) 2(1,2,5) by (intro conjI exI [of _ "e1 @ e2"]) auto
qed

lemma add_raw_grew:
  assumes "add_raw add b p = (None, p')" and "inv p"
  shows "grew p f p' f b"
proof (cases "b = []")
  case False
  with assms obtain n where "add (segment b) p = (Inr n, p')"
    by (auto simp: add_raw_def split: prod.splits sum.splits)
  with assms(2) show ?thesis
    by (auto simp: grew_def add_logged dest: add_inv)
qed (use assms in \<open>auto simp: add_raw_def grew_refl\<close>)

lemma finish_grew:
  assumes "finish_stream add tr p f = (None, tr', p', f')" and "inv p"
  shows "grew p f p' f' (tr_rest tr)" and "tr' = tr\<lparr>tr_rest := []\<rparr>"
proof -
  from assms(1) obtain n where "add (segment (tr_rest tr)) p = (Inr n, p')" and "f' = f"
    and "tr' = tr\<lparr>tr_rest := []\<rparr>"
    by (auto simp: finish_stream_def Let_def split: if_splits prod.splits sum.splits)
  with assms(2) show "grew p f p' f' (tr_rest tr)" and "tr' = tr\<lparr>tr_rest := []\<rparr>"
    by (auto simp: grew_def add_logged dest: add_inv)
qed


text \<open>The payload of an entry: what was put is what the stream held.\<close>

lemma put_payload_grew:
  assumes "put_payload put hdr tr f = Ret ((csum, None), tr', f')" and "wf_open tr"
    and "\<not> tr_sparse tr'"
  obtains b where "tr_rest tr = b @ tr_rest tr'" and "tr_raw tr' = tr_raw tr" and "tr_acc tr' = tr_acc tr"
    and "tr_sparse tr = tr_sparse tr'"
    and "0 < sint (Size hdr) \<Longrightarrow> csum = Some (crc64 b) \<and> get f' (Name hdr) = Inr (b, None)"
    and "\<not> 0 < sint (Size hdr) \<Longrightarrow> b = []"
    and "m \<noteq> Name hdr \<Longrightarrow> get f' m = get f m"
proof (cases "0 < sint (Size hdr)")
  case False
  with assms(1) show thesis by (intro that [of "[]"]) (auto simp: put_payload_def)
next
  case True
  with assms(1) obtain b er where rd: "read_all tr = Ret (b, er, tr')"
    and pt: "put (Name hdr) (b, er) f = ((csum, None), f')"
    by (auto simp: put_payload_def simp del: bind_outcome_eq_Ret elim!: bind_outcomeE
        split: prod.splits)
  have r: "reads tr tr'" using rd by (rule read_all_reads)
  have er: "er = None" using put_sum [OF pt] by simp
  from r assms(2,3) have "reg_open tr" by (simp add: wf_open_def reads_def)
  with rd have "tr_rest tr = b @ tr_rest tr'" by (elim read_all_reg) auto
  with True r er put_sum [OF pt] put_get [OF pt] show thesis
    by (intro that [of b]) (auto simp: reads_def intro: put_other [OF pt])
qed

lemma disasm_entry_grew:
  assumes d: "disasm_entry add put hdr tr p f = Ret (None, tr', p', f')"
    and ip: "inv p" and w: "wf_open tr" and acc: "tr_acc tr" and sp: "\<not> tr_sparse tr'"
    and sz: "0 \<le> sint (Size hdr)"
  shows "\<exists>c. tr_rest tr = c @ tr_rest tr' \<and> grew p f p' f' (tr_raw tr @ c)"
    and "tr_acc tr'" and "\<not> tr_sparse tr"
proof -
  obtain b tr1 where b: "RawBytes tr = (b, tr1)" by fastforce
  note bf = RawBytes_fields [OF b]
  obtain x1 p1 where r1: "add_raw add b p = (x1, p1)" by fastforce
  with d b have x1: "x1 = None" by (cases x1) (auto simp: disasm_entry_def)
  from d b r1 x1 obtain csum er tr2 f2 where
    pp: "put_payload put hdr tr1 f = Ret ((csum, er), tr2, f2)" by (auto simp: disasm_entry_def)
  with d b r1 x1 have er: "er = None" by (cases er) (auto simp: disasm_entry_def)
  with d b r1 x1 pp obtain n p2 where ad: "add (file_entry hdr csum) p1 = (Inr n, p2)"
    by (cases "add (file_entry hdr csum) p1"; cases "fst (add (file_entry hdr csum) p1)")
      (auto simp: disasm_entry_def)
  obtain b3 tr3 where b3: "RawBytes tr2 = (b3, tr3)" by fastforce
  note b3f = RawBytes_fields [OF b3]
  from d b r1 x1 pp er ad b3 have r3: "add_raw add b3 p2 = (None, p')" and eq: "tr' = tr3" "f' = f2"
    by (auto simp: disasm_entry_def split: prod.splits)
  have w1: "wf_open tr1" using w bf by (simp add: wf_open_def reg_open_def)
  have sp2: "\<not> tr_sparse tr2" using sp b3f eq by simp
  from put_payload_grew [OF pp [unfolded er] w1 sp2] obtain c where
    c: "tr_rest tr1 = c @ tr_rest tr2" "tr_raw tr2 = tr_raw tr1" "tr_acc tr2 = tr_acc tr1"
       "tr_sparse tr1 = tr_sparse tr2"
       "0 < sint (Size hdr) \<Longrightarrow> csum = Some (crc64 c) \<and> get f2 (Name hdr) = Inr (c, None)"
       "\<not> 0 < sint (Size hdr) \<Longrightarrow> c = []"
       "\<And>m. m \<noteq> Name hdr \<Longrightarrow> get f2 m = get f m"
    by metis
  have g1: "grew p f p1 f b" using add_raw_grew [OF r1 [unfolded x1] ip] .
  then have i1: "inv p1" by (simp add: grew_def)
  let ?e = "stored n (file_entry hdr csum)"
  have "same_files (get f) (get f2) (logged p1)"
    using add_fresh [OF i1 ad] c(7) by (force simp: same_files_def clash_def)
  moreover have "good_entry (get f2) ?e \<and> piece (get f2) ?e = c"
  proof (cases "0 < sint (Size hdr)")
    case True
    then show ?thesis using c(5) by (auto simp: good_entry_def piece_def payload_def)
  next
    case False
    with sz have "Size hdr = 0" by (metis linorder_not_le order_antisym signed_eq_0_iff)
    with False c(6) show ?thesis by (auto simp: good_entry_def piece_def)
  qed
  ultimately have g2: "grew p1 f p2 f2 c"
    using add_inv [OF i1 ad] add_logged [OF i1 ad] by (simp add: grew_def)
  then have i2: "inv p2" by (simp add: grew_def)
  have b3e: "b3 = []" using b3f bf c acc by simp
  have g3: "grew p2 f2 p' f2 b3" by (rule add_raw_grew [OF r3 i2])
  have g: "grew p f p' f' (b @ c)" using grew_trans [OF grew_trans [OF g1 g2] g3] b3e eq by simp
  have rest: "tr_rest tr = c @ tr_rest tr'" using bf b3f c(1) eq by simp
  with g bf acc show "\<exists>c. tr_rest tr = c @ tr_rest tr' \<and> grew p f p' f' (tr_raw tr @ c)"
    by auto
  show "tr_acc tr'" "\<not> tr_sparse tr"
    using bf b3f c acc eq sp by auto
qed


lemma disasm_entry_acc:
  assumes d: "disasm_entry add put hdr tr p f = Ret (x, tr', p', f')"
  shows "tr_acc tr' = tr_acc tr"
  using d
  by (auto simp: disasm_entry_def put_payload_def reads_def simp del: bind_outcome_eq_Ret
      elim!: bind_outcomeE dest!: RawBytes_fields read_all_reads
      split: prod.splits option.splits sum.splits if_splits)

lemma disasm_entry_logged:
  assumes d: "disasm_entry add put hdr tr p f = Ret (None, tr', p', f')" and ip: "inv p"
  shows "inv p' \<and> (\<exists>n c. stored n (file_entry hdr c) \<in> set (logged p')) \<and> tr_sparse tr' = tr_sparse tr"
proof -
  obtain b tr1 where b: "RawBytes tr = (b, tr1)" by fastforce
  obtain x1 p1 where r1: "add_raw add b p = (x1, p1)" by fastforce
  with d b have x1: "x1 = None" by (cases x1) (auto simp: disasm_entry_def)
  from d b r1 x1 obtain csum er tr2 f2 where
    pp: "put_payload put hdr tr1 f = Ret ((csum, er), tr2, f2)" by (auto simp: disasm_entry_def)
  with d b r1 x1 have er: "er = None" by (cases er) (auto simp: disasm_entry_def)
  with d b r1 x1 pp obtain n p2 where ad: "add (file_entry hdr csum) p1 = (Inr n, p2)"
    by (cases "add (file_entry hdr csum) p1"; cases "fst (add (file_entry hdr csum) p1)")
      (auto simp: disasm_entry_def)
  obtain b3 tr3 where b3: "RawBytes tr2 = (b3, tr3)" by fastforce
  from d b r1 x1 pp er ad b3 have r3: "add_raw add b3 p2 = (None, p')" and eq: "tr' = tr3"
    by (auto simp: disasm_entry_def split: prod.splits)
  have i1: "inv p1" using add_raw_grew [OF r1 [unfolded x1] ip] by (simp add: grew_def)
  have i2: "inv p2" using add_inv [OF i1 ad] .
  have g3: "grew p2 f2 p' f2 b3" by (rule add_raw_grew [OF r3 i2])
  have "tr_sparse tr2 = tr_sparse tr1"
    using pp by (auto simp: put_payload_def reads_def simp del: bind_outcome_eq_Ret elim!: bind_outcomeE
        dest!: read_all_reads split: if_splits prod.splits)
  moreover have "stored n (file_entry hdr csum) \<in> set (logged p')"
    using add_logged [OF i1 ad] g3 by (auto simp: grew_def)
  ultimately show ?thesis
    using g3 RawBytes_fields [OF b] RawBytes_fields [OF b3] eq by (auto simp: grew_def)
qed

end

text \<open>No header and no error: the end-of-archive mark is missing, and \<open>tr.err\<close> is nil.\<close>

lemma pax_header_None: "pax_header tr = Ret (None, None, tr') \<Longrightarrow> tr_err tr' = None"
  by (auto simp: pax_header_def Let_def simp del: bind_outcome_eq_Ret elim!: bind_outcomeE
      split: sum.splits option.splits prod.splits if_splits curr_reader.splits)

lemma Next_None: "Next tr = Ret (None, None, tr') \<Longrightarrow> tr_err tr' = None"
  unfolding Next.simps [of tr]
  by (auto simp: Let_def simp del: bind_outcome_eq_Ret elim!: bind_outcomeE dest: pax_header_None
      split: prod.splits option.splits if_splits)

lemma finish_err: "finish_stream add tr p f = (x, tr', p', f') \<Longrightarrow> tr_err tr' = tr_err tr \<and> tr_sparse tr' = tr_sparse tr"
  by (auto simp: finish_stream_def Let_def split: if_splits prod.splits sum.splits)

text \<open>One round of the loop of a run that ends at the end-of-archive mark.\<close>

lemma disassemble_cases:
  assumes d: "disassemble add put tr p f = Ret (None, tr', p', f')" and e: "tr_err tr' = Some EOF"
  obtains (End) hdr tr1 b tr2 p1 where "Next tr = Ret (hdr, Some EOF, tr1)" "RawBytes tr1 = (b, tr2)"
      "add_raw add b p = (None, p1)" "finish_stream add tr2 p1 f = (None, tr', p', f')"
  | (Entry) h tr1 tr2 p2 f2 where "Next tr = Ret (Some h, None, tr1)"
      "disasm_entry add put h tr1 p f = Ret (None, tr2, p2, f2)"
      "disassemble add put tr2 p2 f2 = Ret (None, tr', p', f')"
proof -
  note eq = d [unfolded disassemble.simps [of add put tr p f]]
  from eq obtain hdr er tr1 where nx: "Next tr = Ret (hdr, er, tr1)" by auto
  show thesis
  proof (cases er)
    case (Some x)
    with eq nx have x: "x = EOF" by (auto split: if_splits)
    obtain b tr2 where b: "RawBytes tr1 = (b, tr2)" by fastforce
    obtain y p1 where y: "add_raw add b p = (y, p1)" by fastforce
    from eq nx Some x b y have "y = None" "finish_stream add tr2 p1 f = (None, tr', p', f')"
      by (auto split: option.splits)
    with nx Some x b y show thesis by (intro End) simp_all
  next
    case None
    show thesis
    proof (cases hdr)
      case N: None
      with nx None have "tr_err tr1 = None" using Next_None by simp
      with eq nx None N finish_err [of add tr1 p f None tr' p' f'] e show thesis by simp
    next
      case (Some h)
      with eq nx None obtain x tr2 p2 f2 where de: "disasm_entry add put h tr1 p f = Ret (x, tr2, p2, f2)"
        by auto
      with eq nx None Some have "x = None" "disassemble add put tr2 p2 f2 = Ret (None, tr', p', f')"
        by (auto split: option.splits)
      with nx None Some de show thesis by (intro Entry) simp_all
    qed
  qed
qed


lemma RawBytes_sparse: "RawBytes tr = (b, tr') \<Longrightarrow> tr_sparse tr' = tr_sparse tr"
  by (auto dest: RawBytes_fields)

lemma Next_sparse: "Next tr = Ret (Some h, er, tr1) \<Longrightarrow> tr_sparse tr \<Longrightarrow> tr_sparse tr1"
  "Next tr = Ret (hdr, Some EOF, tr1) \<Longrightarrow> tr_sparse tr \<Longrightarrow> tr_sparse tr1"
  using Next_acct [of tr "Some h" er tr1] Next_acct [of tr hdr "Some EOF" tr1]
  by (auto simp: acct_reset_raw)

context tar_split
begin

lemma disassemble_sparse:
  assumes "disassemble add put tr p f = Ret (None, tr', p', f')" and "tr_err tr' = Some EOF"
    and "inv p" and "tr_sparse tr"
  shows "tr_sparse tr'"
  using assms
proof (induction "length (tr_rest tr)" arbitrary: tr p f rule: less_induct)
  case less
  from less.prems(1,2) show ?case
  proof (cases rule: disassemble_cases)
    case (End hdr tr1 b tr2 p1)
    then show ?thesis
      using Next_sparse(2) [OF End(1) less.prems(4)] RawBytes_sparse [OF End(2)] finish_err [OF End(4)] by simp
  next
    case (Entry h tr1 tr2 p2 f2)
    note l = disasm_entry_logged [OF Entry(2) less.prems(3)]
    have "length (tr_rest tr2) < length (tr_rest tr)"
      using Next_shrinks [OF Entry(1)] disasm_entry_rest [OF Entry(2)] by simp
    moreover have "tr_sparse tr2" using Next_sparse(1) [OF Entry(1) less.prems(4)] l by simp
    ultimately show ?thesis using less.hyps Entry(3) less.prems(2) l by blast
  qed
qed

text \<open>
  A stream that is split up to its end-of-archive mark, without a sparse file and without a
  negative size, is exactly the pieces of the logged entries.
\<close>

lemma disassemble_grew:
  assumes "disassemble add put tr p f = Ret (None, tr', p', f')" and "tr_err tr' = Some EOF"
    and "inv p" and "tr_acc tr" and "\<not> tr_sparse tr'"
    and "\<forall>e \<in> set (logged p'). 0 \<le> sint (esize e)"
  shows "grew p f p' f' (tr_rest tr) \<and> tr_rest tr' = []"
  using assms
proof (induction "length (tr_rest tr)" arbitrary: tr p f rule: less_induct)
  case less
  from less.prems(1,2) show ?case
  proof (cases rule: disassemble_cases)
    case (End hdr tr1 b tr2 p1)
    have sp1: "\<not> tr_sparse tr1"
      using less.prems(5) RawBytes_sparse [OF End(2)] finish_err [OF End(4)] by simp
    with Next_acct [OF End(1)] have "acct (reset_raw tr) tr1" by (cases hdr) auto
    with sp1 less.prems(4) have r: "tr_rest tr = tr_raw tr1 @ tr_rest tr1" "tr_acc tr1"
      by (auto simp: acct_reset_raw)
    have g1: "grew p f p1 f b" using add_raw_grew [OF End(3) less.prems(3)] .
    then have "inv p1" by (simp add: grew_def)
    from finish_grew [OF End(4) this] grew_trans [OF g1] RawBytes_fields [OF End(2)] r
    show ?thesis by (auto)
  next
    case (Entry h tr1 tr2 p2 f2)
    note l = disasm_entry_logged [OF Entry(2) less.prems(3)]
    have sp1: "\<not> tr_sparse tr1"
      using disassemble_sparse [OF Entry(3) less.prems(2)] l less.prems(5) by blast
    with Next_acct [OF Entry(1)] have a: "acct (reset_raw tr) tr1" "wf_open tr1" by auto
    with sp1 less.prems(4) have r: "tr_rest tr = tr_raw tr1 @ tr_rest tr1" "tr_acc tr1"
      by (auto simp: acct_reset_raw)
    have acc2: "tr_acc tr2"
      using Entry(2) r(2) sp1 l by (auto dest: disasm_entry_acc)
    have "length (tr_rest tr2) < length (tr_rest tr)"
      using Next_shrinks [OF Entry(1)] disasm_entry_rest [OF Entry(2)] by simp
    from less.hyps [OF this Entry(3) less.prems(2)] l acc2 less.prems(5,6)
    have ih: "grew p2 f2 p' f' (tr_rest tr2)" "tr_rest tr' = []" by blast+
    from ih(1) have "set (logged p2) \<subseteq> set (logged p')" by (auto simp: grew_def)
    with l obtain n c where "stored n (file_entry h c) \<in> set (logged p')" by blast
    with less.prems(6) have "0 \<le> sint (Size h)" by fastforce
    from disasm_entry_grew(1) [OF Entry(2) less.prems(3) a(2) r(2) _ this] l sp1
    obtain d where "tr_rest tr1 = d @ tr_rest tr2" "grew p f p2 f2 (tr_raw tr1 @ d)" by auto
    with grew_trans [OF this(2) ih(1)] r ih(2) show ?thesis by simp
  qed
qed

end


section \<open>The contracts hold for the code's packer, unpacker and buffer\<close>

interpretation json_source: entry_source unpacker_Next unpack_all
proof unfold_locales
  fix u x assume "unpack_all u = ([], x)"
  then show "fst (unpacker_Next u) = Inl x"
    by (subst (asm) unpack_all.simps) (auto split: prod.splits sum.splits)
next
  fix u e es x assume "unpack_all u = (e # es, x)"
  then show "fst (unpacker_Next u) = Inr e \<and> unpack_all (snd (unpacker_Next u)) = (es, x)"
    by (subst (asm) unpack_all.simps) (auto split: prod.splits sum.splits)
qed

interpretation buffer_store: file_store buffer_putter bufferFileGetPutter_Get
  by unfold_locales
    (auto simp: buffer_putter_def bufferFileGetPutter_Put_def bufferFileGetPutter_Get_def
      split: option.splits)

definition json_logged :: "packer \<Rightarrow> entry list" where
  "json_logged p = fst (unpack_all (NewJSONUnpacker (pk_docs p) EOF))"

text \<open>Reading on after the documents of \<open>p\<close> is reading with the names of \<open>p\<close> seen.\<close>

definition json_inv :: "packer \<Rightarrow> bool" where
  "json_inv p \<longleftrightarrow>
     (\<forall>ds en. unpack_all (NewJSONUnpacker (pk_docs p @ ds) en) =
        (let (es, x) = unpack_all \<lparr>up_seen = pk_seen p, up_docs = ds, up_end = en\<rparr>
         in (json_logged p @ es, x))) \<and>
     (\<forall>e \<in> set (json_logged p). etype e = FileType \<longrightarrow> Clean (GetName e) \<in> pk_seen p)"

lemma unpack_all_Nil [simp]: "unpack_all \<lparr>up_seen = S, up_docs = [], up_end = x\<rparr> = ([], x)"
  by (subst unpack_all.simps) (simp add: unpacker_Next_def)

lemma json_inv_init: "json_inv (NewJSONPacker wfail)"
  by (auto simp: json_inv_def json_logged_def NewJSONPacker_def NewJSONUnpacker_def split: prod.splits)

lemma json_inv_docs:
  assumes "json_inv p"
  shows "unpack_all (NewJSONUnpacker (pk_docs p) en) = (json_logged p, en)"
  using assms unfolding json_inv_def by (elim conjE allE [of _ "[]"]) simp

lemma AddEntry_seen:
  assumes "AddEntry e p = (Inr n, p')"
  shows "pk_seen p \<subseteq> pk_seen p'"
    and "etype e = FileType \<Longrightarrow>
           Clean (GetName (raw_name e)) \<notin> pk_seen p \<and> Clean (GetName (raw_name e)) \<in> pk_seen p'"
  using assms by (auto simp: AddEntry_def encode_at_def Let_def split: if_splits option.splits)

lemma AddEntry_log:
  assumes "json_inv p" and a: "AddEntry e p = (Inr n, p')"
  shows "json_logged p' = json_logged p @ [stored n e]" and "json_inv p'"
proof -
  note ok = AddEntry_ok [OF a]
  have run: "unpack_all (NewJSONUnpacker (pk_docs p' @ ds) en) =
      (let (es, x) = unpack_all \<lparr>up_seen = pk_seen p', up_docs = ds, up_end = en\<rparr>
       in (json_logged p @ stored n e # es, x))" for ds en
  proof -
    have "unpack_all \<lparr>up_seen = pk_seen p, up_docs = encode_entry (stored (pk_pos p) e) # ds, up_end = en\<rparr> =
        (let (es, x) = unpack_all \<lparr>up_seen = pk_seen p', up_docs = ds, up_end = en\<rparr>
         in (stored n e # es, x))"
      by (subst unpack_all.simps) (simp add: ok)
    with assms(1) show ?thesis
      by (simp add: json_inv_def ok(1) split: prod.splits)
  qed
  from run [of "[]" EOF] show l: "json_logged p' = json_logged p @ [stored n e]"
    by (simp add: json_logged_def [of p'])
  have "\<forall>d \<in> set (json_logged p'). etype d = FileType \<longrightarrow> Clean (GetName d) \<in> pk_seen p'"
    using assms(1) AddEntry_seen [OF a] by (auto simp: l json_inv_def)
  with run l show "json_inv p'" by (simp add: json_inv_def split: prod.splits)
qed

interpretation json_log: entry_log AddEntry json_inv json_logged
proof unfold_locales
  fix p e n p' d
  assume "json_inv p" and a: "AddEntry e p = (Inr n, p')" and d: "d \<in> set (json_logged p)"
  show "\<not> clash d (stored n e)"
  proof
    assume c: "clash d (stored n e)"
    then have "Clean (GetName d) \<in> pk_seen p"
      using \<open>json_inv p\<close> d by (auto simp: json_inv_def clash_def)
    with c AddEntry_seen(2) [OF a] show False by (auto simp: clash_def)
  qed
qed (auto dest: AddEntry_log)

interpretation json_split: tar_split AddEntry json_inv json_logged buffer_putter bufferFileGetPutter_Get
  by unfold_locales

section \<open>Plain entries and the end of an archive\<close>

lemma Next_regular:
  assumes "tr_err tr = None" and "tr_acc tr"
    and "tr_curr tr = None \<or> tr_curr tr = Some (RegFile 0)"
    and "sint (tr_pad tr) = int (length pad)" and "tr_rest tr = pad @ h @ rest" and "length h = 512"
    and "h \<noteq> zeroBlock" and "parse_header h = Some hdr" and "Typeflag hdr = CHR ''0''"
  shows "Next tr = Ret (Some hdr, None,
           tr\<lparr>tr_curr := Some (RegFile (Size hdr)), tr_pad := (- Size hdr) AND 511,
              tr_rest := rest, tr_raw := pad @ h\<rparr>)"
proof -
  have n: "numBytes tr = 0" using assms(3) by (auto simp: numBytes_def)
  have "next_header tr = (Some hdr, tr\<lparr>tr_curr := Some (RegFile (Size hdr)), tr_pad := (- Size hdr) AND 511,
              tr_rest := rest, tr_raw := pad @ h\<rparr>)"
    using assms n
    by (cases tr) (auto simp: next_header_def reset_raw_def skipUnread_def numBytes_def readHeader_def read_block_def
        read_full_def write_raw_def blockSize_def open_entry_def TypeGNUSparse_def Let_def)
  with assms(9) show ?thesis
    by (subst Next.simps) (simp add: TypeXHeader_def TypeGNULongName_def TypeGNULongLink_def assms(1))
qed

lemma Next_trailer:
  assumes "tr_err tr = None" and "tr_acc tr"
    and "tr_curr tr = None \<or> tr_curr tr = Some (RegFile 0)"
    and "sint (tr_pad tr) = int (length pad)" and "tr_rest tr = pad @ zeroBlock @ zeroBlock @ rest"
  shows "Next tr = Ret (None, Some EOF,
           tr\<lparr>tr_curr := None, tr_pad := 0, tr_err := Some EOF,
              tr_rest := rest, tr_raw := pad @ zeroBlock @ zeroBlock\<rparr>)"
proof -
  have n: "numBytes tr = 0" using assms(3) by (auto simp: numBytes_def)
  have z: "length zeroBlock = 512" by (simp add: zeroBlock_def)
  have "next_header tr = (None, tr\<lparr>tr_curr := None, tr_pad := 0, tr_err := Some EOF,
              tr_rest := rest, tr_raw := pad @ zeroBlock @ zeroBlock\<rparr>)"
    using assms n z
    by (cases tr) (auto simp: next_header_def reset_raw_def skipUnread_def numBytes_def readHeader_def read_block_def
        read_full_def write_raw_def blockSize_def Let_def)
  then show ?thesis by (subst Next.simps) simp
qed


section \<open>A one-file archive\<close>

definition demo_block :: bytes where
  "demo_block =
     ''a'' @ replicate 99 (byte 0) @ ''0000644'' @ [byte 0] @ ''0000000'' @ [byte 0] @ ''0000000'' @ [byte 0] @
     ''00000000002'' @ [byte 0] @ ''00000000000'' @ [byte 0] @ ''0004661'' @ [byte 0] @ ''0'' @ replicate 355 (byte 0)"

definition demo_pad :: bytes where "demo_pad = replicate 510 (byte 0)"

definition demo_tar :: bytes where
  "demo_tar = demo_block @ ''hi'' @ demo_pad @ zeroBlock @ zeroBlock"

definition demo_hdr :: header where
  "demo_hdr =
     \<lparr>Name = ''a'', Mode = 420, Uid = 0, Gid = 0, Size = 2, ModTime = (0, 0), Typeflag = CHR ''0'',
      Linkname = [], Uname = [], Gname = [], Devmajor = 0, Devminor = 0, AccessTime = (0, 0),
      ChangeTime = (0, 0), Xattrs = []\<rparr>"

lemma demo_block_header:
  "parse_header demo_block = Some demo_hdr" "length demo_block = 512" "demo_block \<noteq> zeroBlock"
  by code_simp+

definition demo_packer :: packer where "demo_packer = NewJSONPacker (\<lambda>_. None)"

lemma demo_packer_seen [simp]: "pk_seen demo_packer = {}"
  by (simp add: demo_packer_def NewJSONPacker_def)

text \<open>A packer whose writer does not fail and whose log has no negative size.\<close>

definition fine :: "packer \<Rightarrow> bool" where
  "fine p \<longleftrightarrow> pk_fail p = (\<lambda>_. None) \<and> json_inv p \<and> (\<forall>e \<in> set (json_logged p). 0 \<le> sint (esize e))"

lemma fine_AddEntry:
  assumes "fine p" and "AddEntry e p = (Inr n, p')" and "0 \<le> sint (esize e)"
  shows "fine p'"
  using assms AddEntry_log [of p e n p']
  by (auto simp: fine_def AddEntry_def encode_at_def Let_def split: if_splits option.splits)

lemma AddEntry_segment:
  assumes "fine p"
  shows "\<exists>n p'. AddEntry (segment b) p = (Inr n, p') \<and> fine p' \<and> pk_seen p' = pk_seen p"
proof -
  have "\<exists>p'. AddEntry (segment b) p = (Inr (pk_pos p), p') \<and> pk_seen p' = pk_seen p"
    using assms by (auto simp: fine_def AddEntry_def encode_at_def raw_name_def segment_def
        zero_entry_def SegmentType_def FileType_def Let_def)
  then show ?thesis
    using fine_AddEntry [OF assms] by (fastforce simp: segment_def zero_entry_def)
qed

lemma add_raw_segment:
  assumes "fine p"
  shows "\<exists>p'. add_raw AddEntry b p = (None, p') \<and> fine p' \<and> pk_seen p' = pk_seen p"
  using assms AddEntry_segment [OF assms, of b] by (cases "b = []") (auto simp: add_raw_def)

lemma demo_fine: "fine demo_packer"
  using json_inv_init [of "\<lambda>_. None"]
  by (simp add: fine_def demo_packer_def json_logged_def NewJSONPacker_def NewJSONUnpacker_def)

lemma demo_read:
  assumes "tr_curr tr = Some (RegFile 2)" and "tr_rest tr = ''hi'' @ rest"
  shows "read_all tr = Ret (''hi'', None, tr\<lparr>tr_curr := Some (RegFile 0), tr_rest := rest\<rparr>)"
  using assms
  by (cases tr) (simp add: read_all_def copy_loop.simps [of "[]"] copy_loop.simps [of "''hi''"]
      tr_Read_def curr_Read_def reg_Read_def Let_def)

lemma demo_entry:
  assumes "tr_curr tr = Some (RegFile 2)" and "tr_rest tr = ''hi'' @ rest" and "tr_acc tr"
    and "fine p" and "pk_seen p = {}"
  shows "\<exists>p'. disasm_entry AddEntry buffer_putter demo_hdr tr p [] =
           Ret (None, tr\<lparr>tr_curr := Some (RegFile 0), tr_rest := rest, tr_raw := []\<rparr>, p', [(''a'', ''hi'')]) \<and>
           fine p'"
proof -
  let ?tr = "tr\<lparr>tr_raw := []\<rparr>"
  have raw: "RawBytes tr = (tr_raw tr, ?tr)" using assms(3) by (simp add: RawBytes_def)
  from add_raw_segment [OF assms(4), of "tr_raw tr"] obtain p1 where
    p1: "add_raw AddEntry (tr_raw tr) p = (None, p1)" "fine p1" "pk_seen p1 = {}"
    using assms(5) by auto
  have put: "put_payload buffer_putter demo_hdr ?tr [] =
      Ret ((Some (crc64 ''hi''), None), ?tr\<lparr>tr_curr := Some (RegFile 0), tr_rest := rest\<rparr>, [(''a'', ''hi'')])"
    using demo_read [of ?tr rest] assms(1,2)
    by (simp add: put_payload_def demo_hdr_def buffer_putter_def bufferFileGetPutter_Put_def)
  have "\<exists>p2. AddEntry (file_entry demo_hdr (Some (crc64 ''hi''))) p1 = (Inr (pk_pos p1), p2)"
    using p1(2,3) by (auto simp: AddEntry_def encode_at_def raw_name_def file_entry_def SetName_def
        zero_entry_def Let_def fine_def)
  then obtain p2 where p2: "AddEntry (file_entry demo_hdr (Some (crc64 ''hi''))) p1 = (Inr (pk_pos p1), p2)"
    by blast
  with fine_AddEntry [OF p1(2)] have "fine p2" by (simp add: demo_hdr_def)
  note p2 = p2 this
  have "RawBytes (?tr\<lparr>tr_curr := Some (RegFile 0), tr_rest := rest\<rparr>) = ([], ?tr\<lparr>tr_curr := Some (RegFile 0), tr_rest := rest\<rparr>)"
    using assms(3) by (simp add: RawBytes_def)
  with raw p1 put p2 show ?thesis
    by (auto simp: disasm_entry_def add_raw_def)
qed

lemma demo_run:
  "\<exists>tr' p'. disassemble AddEntry buffer_putter (input_reader id (demo_tar, None)) demo_packer [] =
       Ret (None, tr', p', [(''a'', ''hi'')]) \<and> tr_err tr' = Some EOF \<and> \<not> tr_sparse tr' \<and> fine p'"
proof -
  let ?tr0 = "input_reader id (demo_tar, None)"
  let ?rest = "''hi'' @ demo_pad @ zeroBlock @ zeroBlock"
  define tr1 where "tr1 = ?tr0\<lparr>tr_curr := Some (RegFile 2), tr_pad := 510, tr_rest := ?rest, tr_raw := demo_block\<rparr>"
  have n1: "Next ?tr0 = Ret (Some demo_hdr, None, tr1)"
    using Next_regular [of ?tr0 "[]" demo_block ?rest demo_hdr] demo_block_header
    by (simp add: input_reader_def NewReader_def demo_tar_def tr1_def demo_hdr_def)
  obtain p2 where e: "disasm_entry AddEntry buffer_putter demo_hdr tr1 demo_packer [] =
      Ret (None, tr1\<lparr>tr_curr := Some (RegFile 0), tr_rest := demo_pad @ zeroBlock @ zeroBlock, tr_raw := []\<rparr>, p2, [(''a'', ''hi'')])"
    and p2: "fine p2"
    using demo_entry [of tr1 "demo_pad @ zeroBlock @ zeroBlock" demo_packer] demo_fine
    by (auto simp: tr1_def input_reader_def NewReader_def)
  define tr2 where "tr2 = tr1\<lparr>tr_curr := Some (RegFile 0), tr_rest := demo_pad @ zeroBlock @ zeroBlock, tr_raw := []\<rparr>"
  define tr3 where "tr3 = tr2\<lparr>tr_curr := None, tr_pad := 0, tr_err := Some EOF, tr_rest := [],
      tr_raw := demo_pad @ zeroBlock @ zeroBlock\<rparr>"
  have n2: "Next tr2 = Ret (None, Some EOF, tr3)"
    using Next_trailer [of tr2 demo_pad "[]"]
    by (simp add: tr2_def tr1_def tr3_def input_reader_def NewReader_def demo_pad_def)
  have acc3: "tr_acc tr3" "tr_end tr3 = EOF" "tr_rest tr3 = []" "\<not> tr_sparse tr3"
    by (simp_all add: tr3_def tr2_def tr1_def input_reader_def NewReader_def)
  from add_raw_segment [OF p2, of "tr_raw tr3"] obtain p3 where
    p3: "add_raw AddEntry (tr_raw tr3) p2 = (None, p3)" "fine p3" by blast
  from AddEntry_segment [OF p3(2), of "[]"] obtain n p4 where
    p40: "AddEntry (segment []) p3 = (Inr n, p4)" "fine p4" by blast
  then have p4: "finish_stream AddEntry (tr3\<lparr>tr_raw := []\<rparr>) p3 [(''a'', ''hi'')] =
      (None, tr3\<lparr>tr_raw := []\<rparr>, p4, [(''a'', ''hi'')])"
    using acc3 by (cases tr3) (simp add: finish_stream_def)
  have "disassemble AddEntry buffer_putter tr2 p2 [(''a'', ''hi'')] =
      Ret (None, tr3\<lparr>tr_raw := []\<rparr>, p4, [(''a'', ''hi'')])"
    by (subst disassemble.simps) (simp add: n2 RawBytes_def acc3 p3(1) p4)
  then have "disassemble AddEntry buffer_putter ?tr0 demo_packer [] =
      Ret (None, tr3\<lparr>tr_raw := []\<rparr>, p4, [(''a'', ''hi'')])"
    by (subst disassemble.simps) (simp add: n1 e tr2_def)
  with acc3 p40(2) show ?thesis by (intro exI [of _ "tr3\<lparr>tr_raw := []\<rparr>"] exI [of _ p4]) (simp add: tr3_def)
qed



section \<open>Lossless\<close>

text \<open>
  C3: Splitting a tar stream loses nothing: when \<open>NewInputTarStream\<close> reads a stream up to its
  end-of-archive mark without an error, met no sparse file and recorded no negative size, then
  its consumer has seen every byte, and \<open>WriteOutputTarStream\<close> run on the written record and the
  stored files returns and writes exactly the bytes of the original stream.
\<close>

theorem tar_split_lossless:
  assumes "disassemble AddEntry buffer_putter (input_reader ord (bs, None)) (NewJSONPacker wfail) [] =
             Ret (None, tr', p', files)"
    and "tr_err tr' = Some EOF" and "\<not> tr_sparse tr'"
    and "\<forall>e \<in> set (fst (unpack_all (NewJSONUnpacker (pk_docs p') EOF))). 0 \<le> sint (esize e)"
  shows "NewInputTarStream ord AddEntry buffer_putter (bs, None) (NewJSONPacker wfail) [] =
           Ret ((bs, None), p', files) \<and>
         (\<exists>u'. WriteOutputTarStream unpacker_Next (bufferFileGetPutter_Get files) pipe_write
                 (NewJSONUnpacker (pk_docs p') EOF) [] = Some (None, u', bs))"
proof -
  have g: "json_split.grew (NewJSONPacker wfail) [] p' files bs \<and> tr_rest tr' = []"
    using json_split.disassemble_grew [OF assms(1,2) json_inv_init] assms(3,4)
    by (simp add: input_reader_def NewReader_def json_logged_def)
  have l0: "json_logged (NewJSONPacker wfail) = []"
    by (simp add: json_logged_def NewJSONPacker_def NewJSONUnpacker_def)
  from g l0 have i: "json_inv p'" and good: "\<forall>e \<in> set (json_logged p'). good_entry (bufferFileGetPutter_Get files) e"
    and bs: "concat (map (piece (bufferFileGetPutter_Get files)) (json_logged p')) = bs"
    by (auto simp: json_split.grew_def)
  from json_source.WriteOutputTarStream_spec
    [OF json_inv_docs [OF i, of EOF], of "bufferFileGetPutter_Get files" pipe_write "[]"]
  obtain u' where
    "WriteOutputTarStream unpacker_Next (bufferFileGetPutter_Get files) pipe_write (NewJSONUnpacker (pk_docs p') EOF) [] =
       Some (fst (assemble_entries (bufferFileGetPutter_Get files) pipe_write (json_logged p') EOF []), u',
             snd (assemble_entries (bufferFileGetPutter_Get files) pipe_write (json_logged p') EOF []))"
    by blast
  with assemble_pipe good bs assms(1) g show ?thesis
    by (auto simp: NewInputTarStream_def)
qed


lemma tar_split_lossless_witness:
  "\<exists>p' u'. NewInputTarStream id AddEntry buffer_putter (demo_tar, None) (NewJSONPacker (\<lambda>_. None)) [] =
       Ret ((demo_tar, None), p', [(''a'', ''hi'')]) \<and>
     WriteOutputTarStream unpacker_Next (bufferFileGetPutter_Get [(''a'', ''hi'')]) pipe_write
       (NewJSONUnpacker (pk_docs p') EOF) [] = Some (None, u', demo_tar)"
proof -
  from demo_run obtain tr' p' where
    "disassemble AddEntry buffer_putter (input_reader id (demo_tar, None)) (NewJSONPacker (\<lambda>_. None)) [] =
       Ret (None, tr', p', [(''a'', ''hi'')])" "tr_err tr' = Some EOF" "\<not> tr_sparse tr'" "fine p'"
    by (auto simp: demo_packer_def)
  then show ?thesis
    using tar_split_lossless [of id demo_tar "\<lambda>_. None" tr' p'] by (auto simp: fine_def json_logged_def)
qed

end
