(* ===== verification/Digest.thy ===== *)
theory Digest
  imports GoHash
begin

text \<open>
  Package \<open>distribution/digest\<close>: the digest strings \<open>algorithm:hex\<close> that name layers and
  images (\<open>digest.go\<close>), the algorithms (\<open>digester.go\<close>) and the verifier that checks bytes
  against a digest (\<open>verifiers.go\<close>).  A digest is a plain string; \<open>Algorithm\<close> and \<open>Hex\<close>
  panic on a string without a colon.
\<close>

section \<open>Algorithms (digester.go)\<close>

type_synonym algorithm = string
type_synonym digest = string

definition SHA256 :: algorithm where "SHA256 = ''sha256''"
definition SHA384 :: algorithm where "SHA384 = ''sha384''"
definition SHA512 :: algorithm where "SHA512 = ''sha512''"

definition Canonical :: algorithm where "Canonical = SHA256"

text \<open>The \<open>crypto.Hash\<close> values the table maps to, with their sizes and sums.\<close>

datatype crypto_hash = CryptoSHA256 | CryptoSHA384 | CryptoSHA512

fun hash_Size :: "crypto_hash \<Rightarrow> nat" where
  "hash_Size CryptoSHA256 = 32"
| "hash_Size CryptoSHA384 = 48"
| "hash_Size CryptoSHA512 = 64"

fun hash_Sum :: "crypto_hash \<Rightarrow> bytes \<Rightarrow> bytes" where
  "hash_Sum CryptoSHA256 p = sha256 p"
| "hash_Sum CryptoSHA384 p = sha384 p"
| "hash_Sum CryptoSHA512 p = sha512 p"

definition algorithms :: "algorithm \<Rightarrow> crypto_hash option" where
  "algorithms a =
     (if a = SHA256 then Some CryptoSHA256
      else if a = SHA384 then Some CryptoSHA384
      else if a = SHA512 then Some CryptoSHA512
      else None)"

text \<open>All three implementations are linked into the program, so \<open>h.Available()\<close> holds.\<close>

definition Available :: "algorithm \<Rightarrow> bool" where
  "Available a = (case algorithms a of None \<Rightarrow> False | Some h \<Rightarrow> True)"

definition alg_Size :: "algorithm \<Rightarrow> nat" where
  "alg_Size a = (case algorithms a of None \<Rightarrow> 0 | Some h \<Rightarrow> hash_Size h)"

definition alg_Set :: "string \<Rightarrow> algorithm" where
  "alg_Set value = (if value = [] then Canonical else value)"

text \<open>A digester: the algorithm, its hash and the bytes written to the hash so far.\<close>

record digester =
  dg_alg :: algorithm
  dg_hash :: crypto_hash
  dg_buf :: bytes

definition alg_Hash :: "algorithm \<Rightarrow> crypto_hash outcome" where
  "alg_Hash a =
     (if \<not> Available a then Panic (a @ '' not available (make sure it is imported)'')
      else (case algorithms a of Some h \<Rightarrow> Ret h | None \<Rightarrow> Panic ''nil map entry''))"

definition alg_New :: "algorithm \<Rightarrow> digester outcome" where
  "alg_New a =
     bind_outcome (alg_Hash a) (\<lambda>h. Ret \<lparr>dg_alg = a, dg_hash = h, dg_buf = []\<rparr>)"

definition dg_write :: "bytes \<Rightarrow> digester \<Rightarrow> digester" where
  "dg_write p d = d\<lparr>dg_buf := dg_buf d @ p\<rparr>"

section \<open>Digest strings (digest.go)\<close>

definition NewDigestFromHex :: "string \<Rightarrow> string \<Rightarrow> digest" where
  "NewDigestFromHex alg hex = alg @ '':'' @ hex"

definition NewDigestFromBytes :: "algorithm \<Rightarrow> bytes \<Rightarrow> digest" where
  "NewDigestFromBytes alg p = alg @ '':'' @ hex_string p"

definition NewDigest :: "algorithm \<Rightarrow> crypto_hash \<Rightarrow> bytes \<Rightarrow> digest" where
  "NewDigest alg h buf = NewDigestFromBytes alg (hash_Sum h buf)"

definition digester_Digest :: "digester \<Rightarrow> digest" where
  "digester_Digest d = NewDigest (dg_alg d) (dg_hash d) (dg_buf d)"

definition alg_FromReader :: "algorithm \<Rightarrow> stream \<Rightarrow> digest res outcome" where
  "alg_FromReader a rd =
     bind_outcome (alg_New a) (\<lambda>d.
       case snd rd of
         Some e \<Rightarrow> Ret (Inl e)
       | None \<Rightarrow> Ret (Inr (digester_Digest (dg_write (fst rd) d))))"

definition alg_FromBytes :: "algorithm \<Rightarrow> bytes \<Rightarrow> digest outcome" where
  "alg_FromBytes a p =
     bind_outcome (alg_New a) (\<lambda>d. Ret (digester_Digest (dg_write p d)))"

text \<open>
  \<open>digest.FromReader\<close> and \<open>digest.FromBytes\<close> use the canonical algorithm, which is
  available, so they do not panic: these are their values.
\<close>

definition FromBytes :: "bytes \<Rightarrow> digest" where
  "FromBytes p = (case alg_FromBytes Canonical p of Ret d \<Rightarrow> d | _ \<Rightarrow> [])"

definition FromReader :: "stream \<Rightarrow> digest res" where
  "FromReader rd = (case alg_FromReader Canonical rd of Ret r \<Rightarrow> r | _ \<Rightarrow> Inr [])"

definition ErrDigestInvalidFormat :: err where
  "ErrDigestInvalidFormat = ErrText ''invalid checksum digest format''"

definition ErrDigestInvalidLength :: err where
  "ErrDigestInvalidLength = ErrText ''invalid checksum digest length''"

definition ErrDigestUnsupported :: err where
  "ErrDigestUnsupported = ErrText ''unsupported digest algorithm''"

text \<open>
  The regular expression \<open>[a-zA-Z0-9-_+.]+:[a-fA-F0-9]+\<close>, anchored.  The colon is in
  neither class, so a match splits at the first colon.
\<close>

definition alg_char :: "char \<Rightarrow> bool" where
  "alg_char c \<longleftrightarrow>
     in_range 97 122 c \<or> in_range 65 90 c \<or> in_range 48 57 c \<or> c \<in> set ''-_+.''"

definition hex_digit :: "char \<Rightarrow> bool" where
  "hex_digit c \<longleftrightarrow> in_range 97 102 c \<or> in_range 65 70 c \<or> in_range 48 57 c"

definition DigestRegexpAnchored :: "string \<Rightarrow> bool" where
  "DigestRegexpAnchored s =
     (case index_byte CHR '':'' s of
        None \<Rightarrow> False
      | Some i \<Rightarrow>
          take i s \<noteq> [] \<and> list_all alg_char (take i s) \<and>
          drop (Suc i) s \<noteq> [] \<and> list_all hex_digit (drop (Suc i) s))"

text \<open>\<open>Validate\<close>: \<open>None\<close> is a nil error.\<close>

definition Validate :: "digest \<Rightarrow> err option" where
  "Validate s =
     (if \<not> DigestRegexpAnchored s then Some ErrDigestInvalidFormat
      else (case index_byte CHR '':'' s of
          None \<Rightarrow> Some ErrDigestInvalidFormat
        | Some i \<Rightarrow>
            if i + 1 = length s then Some ErrDigestInvalidFormat
            else let algorithm = take i s
                 in if algorithm = SHA256 \<or> algorithm = SHA384 \<or> algorithm = SHA512
                    then (if alg_Size algorithm * 2 \<noteq> length (drop (i + 1) s)
                          then Some ErrDigestInvalidLength else None)
                    else Some ErrDigestUnsupported))"

definition ParseDigest :: "string \<Rightarrow> digest \<times> err option" where
  "ParseDigest s = (s, Validate s)"

definition sepIndex :: "digest \<Rightarrow> nat outcome" where
  "sepIndex d =
     (case index_byte CHR '':'' d of
        None \<Rightarrow> Panic (''could not find : in digest: '' @ d)
      | Some i \<Rightarrow> Ret i)"

definition digest_Algorithm :: "digest \<Rightarrow> algorithm outcome" where
  "digest_Algorithm d = bind_outcome (sepIndex d) (\<lambda>i. Ret (take i d))"

definition digest_Hex :: "digest \<Rightarrow> string outcome" where
  "digest_Hex d = bind_outcome (sepIndex d) (\<lambda>i. Ret (drop (i + 1) d))"

section \<open>Verifiers (verifiers.go)\<close>

record verifier =
  vf_digest :: digest
  vf_hash :: crypto_hash
  vf_buf :: bytes

definition NewDigestVerifier :: "digest \<Rightarrow> verifier res outcome" where
  "NewDigestVerifier d =
     (case Validate d of
        Some e \<Rightarrow> Ret (Inl e)
      | None \<Rightarrow>
          bind_outcome (digest_Algorithm d) (\<lambda>a.
          bind_outcome (alg_Hash a) (\<lambda>h.
            Ret (Inr \<lparr>vf_digest = d, vf_hash = h, vf_buf = []\<rparr>))))"

definition vf_Write :: "bytes \<Rightarrow> verifier \<Rightarrow> verifier" where
  "vf_Write p v = v\<lparr>vf_buf := vf_buf v @ p\<rparr>"

definition vf_Verified :: "verifier \<Rightarrow> bool outcome" where
  "vf_Verified v =
     bind_outcome (digest_Algorithm (vf_digest v)) (\<lambda>a.
       Ret (vf_digest v = NewDigest a (vf_hash v) (vf_buf v)))"

section \<open>Facts\<close>

lemma algorithms_supported:
  "algorithms SHA256 = Some CryptoSHA256"
  "algorithms SHA384 = Some CryptoSHA384"
  "algorithms SHA512 = Some CryptoSHA512"
  by (simp_all add: algorithms_def SHA256_def SHA384_def SHA512_def)

lemma algorithms_SomeD: "algorithms a = Some h \<Longrightarrow> a = SHA256 \<or> a = SHA384 \<or> a = SHA512"
  by (auto simp: algorithms_def split: if_splits)

lemma length_hash_Sum [simp]: "length (hash_Sum h p) = hash_Size h"
  by (cases h) auto

lemma alg_Size_pos: "algorithms a = Some h \<Longrightarrow> alg_Size a = hash_Size h \<and> 0 < alg_Size a"
  by (cases h) (auto simp: alg_Size_def)

lemma alg_New_Ret: "algorithms a = Some h \<Longrightarrow> alg_New a = Ret \<lparr>dg_alg = a, dg_hash = h, dg_buf = []\<rparr>"
  by (simp add: alg_New_def alg_Hash_def Available_def)

lemma FromBytes_eq: "FromBytes p = NewDigestFromBytes SHA256 (sha256 p)"
  by (simp add: FromBytes_def alg_FromBytes_def Canonical_def alg_New_Ret algorithms_supported
      digester_Digest_def dg_write_def NewDigest_def)

lemma FromReader_eq:
  "FromReader rd = (case snd rd of None \<Rightarrow> Inr (FromBytes (fst rd)) | Some e \<Rightarrow> Inl e)"
  by (simp add: FromReader_def FromBytes_eq alg_FromReader_def Canonical_def alg_New_Ret
      algorithms_supported digester_Digest_def dg_write_def NewDigest_def split: option.splits)

lemma supported_no_colon: "algorithms a = Some h \<Longrightarrow> CHR '':'' \<notin> set a"
  by (auto dest!: algorithms_SomeD simp: SHA256_def SHA384_def SHA512_def)

lemma supported_alg_char: "algorithms a = Some h \<Longrightarrow> a \<noteq> [] \<and> list_all alg_char a"
  by (auto dest!: algorithms_SomeD
      simp: SHA256_def SHA384_def SHA512_def alg_char_def in_range_def)

lemma lower_hex_digit: "is_lower_hex c \<Longrightarrow> hex_digit c"
  by (auto simp: is_lower_hex_def hex_digit_def)

lemma index_colon:
  "CHR '':'' \<notin> set a \<Longrightarrow> index_byte CHR '':'' (a @ '':'' @ h) = Some (length a)"
  using index_byte_append [of "CHR '':''" a h] by simp

text \<open>The parts of a digest built from an algorithm and a hex string.\<close>

lemma parts_of_hex_digest:
  assumes "CHR '':'' \<notin> set a"
  shows "digest_Algorithm (NewDigestFromHex a h) = Ret a"
    and "digest_Hex (NewDigestFromHex a h) = Ret h"
  using index_colon [OF assms, of h]
  by (simp_all add: digest_Algorithm_def digest_Hex_def sepIndex_def NewDigestFromHex_def)

lemma Validate_parts:
  assumes a: "algorithms a = Some k" and h: "list_all hex_digit h" and l: "length h = 2 * hash_Size k"
  shows "Validate (NewDigestFromHex a h) = None"
proof -
  have "h \<noteq> []" using l by (cases k) auto
  moreover have "index_byte CHR '':'' (a @ CHR '':'' # h) = Some (length a)"
    using supported_no_colon [OF a] by (rule index_byte_append)
  moreover have "a = SHA256 \<or> a = SHA384 \<or> a = SHA512"
    using a by (rule algorithms_SomeD)
  ultimately show ?thesis
    using supported_alg_char [OF a] alg_Size_pos [OF a] h l
    by (simp add: Validate_def NewDigestFromHex_def DigestRegexpAnchored_def Let_def)
qed

lemma Validate_None_parts:
  assumes "Validate d = None"
  obtains a h k where "d = NewDigestFromHex a h" and "algorithms a = Some k"
    and "list_all hex_digit h" and "length h = 2 * hash_Size k" and "CHR '':'' \<notin> set a"
proof -
  from assms obtain i where i: "index_byte CHR '':'' d = Some i"
    by (auto simp: Validate_def split: if_splits option.splits)
  let ?a = "take i d" and ?h = "drop (Suc i) d"
  from index_byte_SomeD [OF i] have d: "d = ?a @ CHR '':'' # ?h" and nc: "CHR '':'' \<notin> set ?a"
    using id_take_nth_drop [of i d] by auto
  from assms i have h: "list_all hex_digit ?h" and l: "alg_Size ?a * 2 = length ?h"
    and s: "?a = SHA256 \<or> ?a = SHA384 \<or> ?a = SHA512"
    by (auto simp: Validate_def DigestRegexpAnchored_def Let_def split: if_splits)
  from s obtain k where k: "algorithms ?a = Some k"
    by (auto simp: algorithms_supported)
  show thesis
  proof (rule that)
    show "d = NewDigestFromHex ?a ?h" using d by (simp add: NewDigestFromHex_def)
    show "algorithms ?a = Some k" by (rule k)
    show "list_all hex_digit ?h" by (rule h)
    show "length ?h = 2 * hash_Size k" using l alg_Size_pos [OF k] by simp
    show "CHR '':'' \<notin> set ?a" by (rule nc)
  qed
qed

lemma hex_string_digits: "list_all hex_digit (hex_string p)"
  using hex_string_lower lower_hex_digit by (auto simp: list_all_iff)

lemma NewDigestFromBytes_hex: "NewDigestFromBytes a p = NewDigestFromHex a (hex_string p)"
  by (simp add: NewDigestFromBytes_def NewDigestFromHex_def)

lemma Validate_NewDigest: "algorithms a = Some h \<Longrightarrow> Validate (NewDigest a h p) = None"
  by (simp add: NewDigest_def NewDigestFromBytes_hex Validate_parts hex_string_digits)

lemma Validate_FromBytes [simp]: "Validate (FromBytes p) = None"
  using Validate_NewDigest [OF algorithms_supported(1), of p]
  by (simp add: FromBytes_eq NewDigest_def)

lemma FromBytes_nonempty [simp]: "FromBytes p \<noteq> []"
  by (simp add: FromBytes_eq NewDigestFromBytes_def SHA256_def)

lemma digest_total: "Validate d = None \<Longrightarrow> returns (digest_Algorithm d) \<and> returns (digest_Hex d)"
  by (erule Validate_None_parts) (simp add: parts_of_hex_digest)

section \<open>Properties\<close>

text \<open>C34: \<open>Validate\<close> accepts exactly the strings \<open>a:h\<close> whose algorithm \<open>a\<close> is one of
  sha256, sha384 and sha512 and whose hex part \<open>h\<close> consists of hexadecimal digits, two for
  each byte of that algorithm's sum.\<close>

theorem Validate_correct:
  "Validate d = None \<longleftrightarrow>
     (\<exists>a h k. d = NewDigestFromHex a h \<and> algorithms a = Some k \<and>
              list_all hex_digit h \<and> length h = 2 * hash_Size k)"
  using Validate_parts Validate_None_parts by metis


text \<open>
  C29: \<open>Algorithm\<close> and \<open>Hex\<close> panic exactly on a string without a colon, so never on a digest that
  passed \<open>ParseDigest\<close>; and the two parts of a digest made from parts are these parts.
\<close>

lemma digest_parts_panic_iff:
  "(returns (digest_Hex d) \<longleftrightarrow> CHR '':'' \<in> set d) \<and>
   (returns (digest_Algorithm d) \<longleftrightarrow> CHR '':'' \<in> set d) \<and>
   (snd (ParseDigest d) = None \<longrightarrow> returns (digest_Hex d) \<and> returns (digest_Algorithm d))"
proof -
  have "returns (digest_Hex d) \<longleftrightarrow> CHR '':'' \<in> set d" "returns (digest_Algorithm d) \<longleftrightarrow> CHR '':'' \<in> set d"
    using index_byte_None [of "CHR '':''" d]
    by (simp_all add: digest_Hex_def digest_Algorithm_def sepIndex_def del: not_None_eq split: option.split) auto
  then show ?thesis using digest_total [of d] by (auto simp: ParseDigest_def)
qed

lemma digest_parts_panic_iff_witness:
  "snd (ParseDigest (FromBytes ''layer'')) = None \<and> returns (digest_Hex (FromBytes ''layer''))"
  using digest_parts_panic_iff [of "FromBytes ''layer''"] by (auto simp: ParseDigest_def)

lemma vf_Write_all: "vf_buf (fold vf_Write ps v) = vf_buf v @ concat ps \<and>
    vf_digest (fold vf_Write ps v) = vf_digest v \<and> vf_hash (fold vf_Write ps v) = vf_hash v"
  by (induction ps arbitrary: v) (auto simp: vf_Write_def)

lemma NewDigestVerifier_valid:
  assumes "Validate d = None"
  obtains a k h where "d = NewDigestFromHex a h" and "algorithms a = Some k"
    and "NewDigestVerifier d = Ret (Inr \<lparr>vf_digest = d, vf_hash = k, vf_buf = []\<rparr>)"
    and "digest_Algorithm d = Ret a"
proof -
  from assms obtain a h k where p: "d = NewDigestFromHex a h" "algorithms a = Some k" "CHR '':'' \<notin> set a"
    by (rule Validate_None_parts)
  with assms have "NewDigestVerifier d = Ret (Inr \<lparr>vf_digest = d, vf_hash = k, vf_buf = []\<rparr>)"
    by (simp add: NewDigestVerifier_def parts_of_hex_digest alg_Hash_def Available_def)
  with p parts_of_hex_digest(1) [OF p(3)] that show thesis by blast
qed

text \<open>
  C35: A verifier made for a valid digest accepts what was written to it, in any pieces, exactly
  when the digest is the one its algorithm computes over the concatenation.
\<close>

theorem verifier_correct:
  assumes "Validate d = None"
  shows "\<exists>v a k. NewDigestVerifier d = Ret (Inr v) \<and> digest_Algorithm d = Ret a \<and> algorithms a = Some k \<and>
           (\<forall>ps. vf_Verified (fold vf_Write ps v) = Ret (d = NewDigest a k (concat ps)))"
proof -
  from assms obtain a k h where "algorithms a = Some k"
    and v: "NewDigestVerifier d = Ret (Inr \<lparr>vf_digest = d, vf_hash = k, vf_buf = []\<rparr>)"
    and a: "digest_Algorithm d = Ret a"
    by (rule NewDigestVerifier_valid)
  then show ?thesis
    by (intro exI conjI) (auto simp: vf_Verified_def vf_Write_all)
qed

lemma verifier_correct_witness:
  "\<exists>v. NewDigestVerifier (FromBytes ''layer'') = Ret (Inr v) \<and>
     vf_Verified (fold vf_Write [''la'', ''yer''] v) = Ret True"
proof -
  have p: "digest_Algorithm (FromBytes ''layer'') = Ret SHA256"
    using parts_of_hex_digest(1) [OF supported_no_colon [OF algorithms_supported(1)]]
    by (simp add: FromBytes_eq NewDigestFromBytes_hex)
  from verifier_correct [of "FromBytes ''layer''"] obtain v a k where
    "NewDigestVerifier (FromBytes ''layer'') = Ret (Inr v)" "digest_Algorithm (FromBytes ''layer'') = Ret a"
    "algorithms a = Some k"
    "\<forall>ps. vf_Verified (fold vf_Write ps v) = Ret (FromBytes ''layer'' = NewDigest a k (concat ps))"
    by auto
  then have "vf_Verified (fold vf_Write [''la'', ''yer''] v) =
      Ret (FromBytes ''layer'' = NewDigest a k (concat [''la'', ''yer'']))" by blast
  moreover have "a = SHA256" "k = CryptoSHA256"
    using p \<open>digest_Algorithm _ = Ret a\<close> \<open>algorithms a = Some k\<close> by (auto simp: algorithms_supported)
  ultimately show ?thesis using \<open>NewDigestVerifier _ = _\<close>
    by (auto simp: FromBytes_eq NewDigest_def)
qed

text \<open>
  C37: \<open>Validate\<close> accepts upper-case hexadecimal digits, but no content has such a digest: the
  verifier of a valid digest with an upper-case digit rejects everything.
\<close>

lemma uppercase_digest_never_verifies:
  assumes "Validate d = None" and "digest_Hex d = Ret h" and "\<exists>c \<in> set h. in_range 65 70 c"
  shows "\<exists>v. NewDigestVerifier d = Ret (Inr v) \<and> (\<forall>ps. vf_Verified (fold vf_Write ps v) = Ret False)"
proof -
  from assms(1) obtain a k h' where d: "d = NewDigestFromHex a h'" and k: "algorithms a = Some k"
    and v: "NewDigestVerifier d = Ret (Inr \<lparr>vf_digest = d, vf_hash = k, vf_buf = []\<rparr>)"
    and a: "digest_Algorithm d = Ret a"
    by (rule NewDigestVerifier_valid)
  have nc: "CHR '':'' \<notin> set a" using k by (rule supported_no_colon)
  have "h' = h" using assms(2) d parts_of_hex_digest(2) [OF nc] by simp
  have "d \<noteq> NewDigest a k p" for p
  proof
    assume "d = NewDigest a k p"
    then have "h = hex_string (hash_Sum k p)"
      using d \<open>h' = h\<close> nc by (simp add: NewDigest_def NewDigestFromBytes_hex NewDigestFromHex_def)
    with assms(3) obtain c where "is_lower_hex c" "in_range 65 70 c" using hex_string_lower by blast
    then show False by (auto simp: is_lower_hex_def in_range_def)
  qed
  then show ?thesis using v a by (intro exI conjI) (auto simp: vf_Verified_def vf_Write_all)
qed

lemma uppercase_digest_never_verifies_witness:
  "\<exists>v. NewDigestVerifier (''sha256:'' @ replicate 64 (CHR ''A'')) = Ret (Inr v) \<and>
     (\<forall>ps. vf_Verified (fold vf_Write ps v) = Ret False)"
proof (rule uppercase_digest_never_verifies)
  show "Validate (''sha256:'' @ replicate 64 (CHR ''A'')) = None" by code_simp
  show "digest_Hex (''sha256:'' @ replicate 64 (CHR ''A'')) = Ret (replicate 64 (CHR ''A''))" by code_simp
  show "\<exists>c \<in> set (replicate 64 (CHR ''A'')). in_range 65 70 c" by code_simp
qed

end
