(* ===== verification/DigestSet.thy ===== *)
theory DigestSet
  imports Digest
begin

text \<open>
  The digest set of \<open>distribution/digest/set.go\<close>: a slice of entries sorted by hex value and
  algorithm that supports lookup by an abbreviated digest.  The image store finds images by the short
  ids users type through it.  The mutex of the set makes every operation atomic, so the model threads
  the slice through the operations.
\<close>

section \<open>The set and its operations\<close>

definition ErrDigestNotFound :: err where
  "ErrDigestNotFound = ErrText ''digest not found''"

definition ErrDigestAmbiguous :: err where
  "ErrDigestAmbiguous = ErrText ''ambiguous digest string''"

record digestEntry =
  de_alg :: algorithm
  de_val :: string
  de_digest :: digest

type_synonym digestEntries = "digestEntry list"

definition NewSet :: digestEntries where
  "NewSet = []"

definition digestEntries_Less :: "digestEntries \<Rightarrow> nat \<Rightarrow> nat \<Rightarrow> bool" where
  "digestEntries_Less d i j =
     (if de_val (d ! i) \<noteq> de_val (d ! j) then de_val (d ! i) < de_val (d ! j)
      else de_alg (d ! i) < de_alg (d ! j))"

definition checkShortMatch :: "algorithm \<Rightarrow> string \<Rightarrow> string \<Rightarrow> string \<Rightarrow> bool" where
  "checkShortMatch alg hex shortAlg shortHex =
     (if length hex = length shortHex then
        (if hex \<noteq> shortHex then False
         else if 0 < length shortAlg \<and> alg \<noteq> shortAlg then False
         else True)
      else if \<not> prefix shortHex hex then False
      else if 0 < length shortAlg \<and> alg \<noteq> shortAlg then False
      else True)"

text \<open>\<open>sort.Search\<close>: binary search for the first index at which a monotone predicate holds.\<close>

function search_between :: "(nat \<Rightarrow> bool) \<Rightarrow> nat \<Rightarrow> nat \<Rightarrow> nat" where
  "search_between f i j =
     (if i < j then
        (let h = i + (j - i) div 2
         in if \<not> f h then search_between f (h + 1) j else search_between f i h)
      else i)"
  by pat_completeness auto
termination
  by (relation "measure (\<lambda>(f, i, j). j - i)") auto

declare search_between.simps [simp del]

definition sort_Search :: "nat \<Rightarrow> (nat \<Rightarrow> bool) \<Rightarrow> nat" where
  "sort_Search n f = search_between f 0 n"

text \<open>The search function of \<open>Add\<close>, \<open>Remove\<close> and of a lookup with an algorithm.\<close>

definition at_least :: "digestEntries \<Rightarrow> algorithm \<Rightarrow> string \<Rightarrow> nat \<Rightarrow> bool" where
  "at_least es alg hex i =
     (if de_val (es ! i) = hex then alg \<le> de_alg (es ! i) else hex \<le> de_val (es ! i))"

definition set_Lookup :: "digestEntries \<Rightarrow> string \<Rightarrow> digest res outcome" where
  "set_Lookup es d =
     (if es = [] then Ret (Inl ErrDigestNotFound)
      else
        bind_outcome
          (case ParseDigest d of
             (dgst, err) \<Rightarrow>
               if err = Some ErrDigestInvalidFormat then Ret ([], d, \<lambda>i. d \<le> de_val (es ! i))
               else bind_outcome (digest_Hex dgst) (\<lambda>hex.
                    bind_outcome (digest_Algorithm dgst) (\<lambda>alg. Ret (alg, hex, at_least es alg hex))))
          (\<lambda>(alg, hex, searchFunc).
             let idx = sort_Search (length es) searchFunc
             in if idx = length es \<or> \<not> checkShortMatch (de_alg (es ! idx)) (de_val (es ! idx)) alg hex
                then Ret (Inl ErrDigestNotFound)
                else if de_alg (es ! idx) = alg \<and> de_val (es ! idx) = hex
                then Ret (Inr (de_digest (es ! idx)))
                else if idx + 1 < length es \<and>
                        checkShortMatch (de_alg (es ! (idx + 1))) (de_val (es ! (idx + 1))) alg hex
                then Ret (Inl ErrDigestAmbiguous)
                else Ret (Inr (de_digest (es ! idx)))))"

text \<open>\<open>Add\<close> and \<open>Remove\<close> return the error and the slice they leave.\<close>

definition set_Add :: "digest \<Rightarrow> digestEntries \<Rightarrow> (err option \<times> digestEntries) outcome" where
  "set_Add d es =
     (case Validate d of
        Some err \<Rightarrow> Ret (Some err, es)
      | None \<Rightarrow>
          bind_outcome (digest_Algorithm d) (\<lambda>alg. bind_outcome (digest_Hex d) (\<lambda>hex.
            let entry = \<lparr>de_alg = alg, de_val = hex, de_digest = d\<rparr>;
                idx = sort_Search (length es) (at_least es (de_alg entry) (de_val entry))
            in if idx = length es then Ret (None, es @ [entry])
               else if de_digest (es ! idx) = d then Ret (None, es)
               else Ret (None, take idx es @ [entry] @ drop idx es))))"

definition set_Remove :: "digest \<Rightarrow> digestEntries \<Rightarrow> (err option \<times> digestEntries) outcome" where
  "set_Remove d es =
     (case Validate d of
        Some err \<Rightarrow> Ret (Some err, es)
      | None \<Rightarrow>
          bind_outcome (digest_Algorithm d) (\<lambda>alg. bind_outcome (digest_Hex d) (\<lambda>hex.
            let idx = sort_Search (length es) (at_least es alg hex)
            in if idx = length es \<or> de_digest (es ! idx) \<noteq> d then Ret (None, es)
               else Ret (None, take idx es @ drop (idx + 1) es))))"

definition set_All :: "digestEntries \<Rightarrow> digest list" where
  "set_All es = map de_digest es"

text \<open>
  \<open>ShortCodeTable\<close>.  The innermost loop walks the entries after the current one while they match the
  short code; the middle loop lengthens the code; the outer loop keeps the length for the entries that
  were seen to share a prefix and resets it behind them.
\<close>

fun short_scan :: "string \<Rightarrow> digestEntries \<Rightarrow> nat \<Rightarrow> nat \<times> bool \<Rightarrow> nat \<times> bool" where
  "short_scan short [] j (resetIdx, extended) = (resetIdx, extended)"
| "short_scan short (e # es) j (resetIdx, extended) =
     (if checkShortMatch (de_alg e) (de_val e) [] short
      then short_scan short es (j + 1) (if j > resetIdx then j else resetIdx, True)
      else (resetIdx, extended))"

function short_extend :: "digestEntry \<Rightarrow> digestEntries \<Rightarrow> nat \<Rightarrow> nat \<Rightarrow> nat \<Rightarrow> string \<times> nat \<times> nat" where
  "short_extend e rest i l resetIdx =
     (if length (de_val e) \<le> l then (de_digest e, l, resetIdx)
      else (let short = take l (de_val e)
            in case short_scan short rest (i + 1) (resetIdx, False) of
                 (resetIdx, extended) \<Rightarrow>
                   if extended then short_extend e rest i (l + 1) resetIdx
                   else (short, l, resetIdx)))"
  by pat_completeness auto
termination
  by (relation "measure (\<lambda>(e, rest, i, l, r). length (de_val e) - l)") auto

declare short_extend.simps [simp del]

fun short_table ::
  "nat \<Rightarrow> digestEntries \<Rightarrow> nat \<Rightarrow> nat \<Rightarrow> nat \<Rightarrow> (digest \<rightharpoonup> string) \<Rightarrow> (digest \<rightharpoonup> string)" where
  "short_table len [] i l resetIdx m = m"
| "short_table len (e # es) i l resetIdx m =
     (case short_extend e es i l resetIdx of
        (short, l, resetIdx) \<Rightarrow>
          short_table len es (i + 1) (if resetIdx \<le> i then len else l) resetIdx (m(de_digest e \<mapsto> short)))"

text \<open>A negative length makes \<open>val[:l]\<close> panic at the first entry.\<close>

definition ShortCodeTable :: "digestEntries \<Rightarrow> int \<Rightarrow> (digest \<rightharpoonup> string) outcome" where
  "ShortCodeTable es len =
     (if len < 0 \<and> es \<noteq> [] then Panic ''slice bounds out of range''
      else Ret (short_table (nat len) es 0 (nat len) 0 (\<lambda>_. None)))"

section \<open>Binary search\<close>

lemma search_between_spec:
  assumes mono: "\<And>x y. x \<le> y \<Longrightarrow> y < n \<Longrightarrow> f x \<Longrightarrow> f y" and "i \<le> j" and "j \<le> n"
    and "\<And>x. x < i \<Longrightarrow> \<not> f x" and "\<And>x. j \<le> x \<Longrightarrow> x < n \<Longrightarrow> f x"
  shows "search_between f i j \<le> n \<and> (\<forall>x < search_between f i j. \<not> f x) \<and>
         (\<forall>x < n. search_between f i j \<le> x \<longrightarrow> f x)"
  using assms(2-)
proof (induction "j - i" arbitrary: i j rule: less_induct)
  case less
  show ?case
  proof (cases "i < j")
    case True
    let ?h = "i + (j - i) div 2"
    have h: "i \<le> ?h" "?h < j" "?h < n" using True less.prems by auto
    have step: "search_between f i j = (if f ?h then search_between f i ?h else search_between f (?h + 1) j)"
      using True by (simp add: search_between.simps [of f i j] Let_def)
    show ?thesis
    proof (cases "f ?h")
      case False
      have "\<not> f x" if "x < ?h + 1" for x using mono [of x ?h] that h False by fastforce
      moreover have "j - (?h + 1) < j - i" using h True by arith
      ultimately have "search_between f (?h + 1) j \<le> n \<and> (\<forall>x < search_between f (?h + 1) j. \<not> f x) \<and>
          (\<forall>x < n. search_between f (?h + 1) j \<le> x \<longrightarrow> f x)"
        using h(2) less.prems(2,4) by (intro less.hyps) simp_all
      with step False show ?thesis by simp
    next
      case fh: True
      have "f x" if "?h \<le> x" "x < n" for x using mono [of ?h x] that fh by blast
      moreover have "?h - i < j - i" using True by auto
      ultimately have "search_between f i ?h \<le> n \<and> (\<forall>x < search_between f i ?h. \<not> f x) \<and>
          (\<forall>x < n. search_between f i ?h \<le> x \<longrightarrow> f x)"
        using h less.prems(3) by (intro less.hyps) simp_all
      with step fh show ?thesis by simp
    qed
  next
    case False
    then have "search_between f i j = i" by (simp add: search_between.simps [of f i j])
    moreover have "i = j" using False less.prems(1) by simp
    ultimately show ?thesis using less.prems by simp
  qed
qed

lemma sort_Search_spec:
  assumes "\<And>x y. x \<le> y \<Longrightarrow> y < n \<Longrightarrow> f x \<Longrightarrow> f y"
  shows "sort_Search n f \<le> n" and "\<And>x. x < sort_Search n f \<Longrightarrow> \<not> f x"
    and "\<And>x. sort_Search n f \<le> x \<Longrightarrow> x < n \<Longrightarrow> f x"
  using search_between_spec [of n f 0 n] assms by (auto simp: sort_Search_def)

section \<open>Strings in lexicographic order\<close>

lemma prefix_le: "prefix x y \<Longrightarrow> x \<le> (y :: string)"
proof (induction x arbitrary: y)
  case (Cons a x)
  then show ?case by (cases y) auto
qed simp

lemma prefix_between: "prefix d z \<Longrightarrow> d \<le> y \<Longrightarrow> y \<le> z \<Longrightarrow> prefix d (y :: string)"
proof (induction d arbitrary: y z)
  case (Cons a d)
  then show ?case by (cases y; cases z) (auto simp: prefix_Cons)
qed simp

lemma checkShortMatch_eq:
  "checkShortMatch alg hex a h \<longleftrightarrow> prefix h hex \<and> (a = [] \<or> a = alg)"
  by (auto simp: checkShortMatch_def prefix_def)

section \<open>The invariant\<close>

text \<open>Entries are those of valid digests, strictly sorted by hex value.\<close>

definition entry_of :: "digest \<Rightarrow> digestEntry" where
  "entry_of d = (case (digest_Algorithm d, digest_Hex d) of
       (Ret a, Ret h) \<Rightarrow> \<lparr>de_alg = a, de_val = h, de_digest = d\<rparr>
     | _ \<Rightarrow> \<lparr>de_alg = [], de_val = [], de_digest = d\<rparr>)"

definition set_inv :: "digestEntries \<Rightarrow> bool" where
  "set_inv es \<longleftrightarrow>
     (\<forall>e \<in> set es. Validate (de_digest e) = None \<and> e = entry_of (de_digest e)) \<and>
     sorted_wrt (\<lambda>x y. de_val x < de_val y) es"

lemma entry_of_simps [simp]:
  "de_digest (entry_of d) = d"
  by (simp add: entry_of_def split: outcome.splits)

lemma entry_of_valid:
  assumes "Validate d = None"
  obtains a h k where "digest_Algorithm d = Ret a" and "digest_Hex d = Ret h" and "d = NewDigestFromHex a h"
    and "entry_of d = \<lparr>de_alg = a, de_val = h, de_digest = d\<rparr>" and "algorithms a = Some k"
    and "length h = 2 * hash_Size k" and "list_all hex_digit h"
proof -
  from assms obtain a h k where p: "d = NewDigestFromHex a h" "algorithms a = Some k" "length h = 2 * hash_Size k"
    "CHR '':'' \<notin> set a" "list_all hex_digit h" by (rule Validate_None_parts)
  from parts_of_hex_digest [OF p(4), of h] p(1) have "digest_Algorithm d = Ret a" "digest_Hex d = Ret h" by simp_all
  with p that show thesis by (simp add: entry_of_def)
qed

text \<open>The sums of the three algorithms differ in length, so the hex value determines the digest.\<close>

lemma val_inj:
  assumes "Validate d = None" and "Validate d' = None" and "de_val (entry_of d) = de_val (entry_of d')"
  shows "d = d'"
proof -
  from assms(1) obtain a h k where d: "d = NewDigestFromHex a h" "entry_of d = \<lparr>de_alg = a, de_val = h, de_digest = d\<rparr>"
    "algorithms a = Some k" "length h = 2 * hash_Size k" by (rule entry_of_valid) blast
  from assms(2) obtain a' h' k' where d': "d' = NewDigestFromHex a' h'" "entry_of d' = \<lparr>de_alg = a', de_val = h', de_digest = d'\<rparr>"
    "algorithms a' = Some k'" "length h' = 2 * hash_Size k'" by (rule entry_of_valid) blast
  from d d' assms(3) have h: "h = h'" by simp
  with d(4) d'(4) have "k = k'" by (cases k; cases k') auto
  with d(3) d'(3) have "a = a'" by (auto simp: algorithms_def split: if_splits)
  with h d d' show ?thesis by simp
qed

lemma set_invD:
  assumes "set_inv es" and "i < length es"
  shows "Validate (de_digest (es ! i)) = None" and "es ! i = entry_of (de_digest (es ! i))"
    and "\<And>j. j < length es \<Longrightarrow> i < j \<Longrightarrow> de_val (es ! i) < de_val (es ! j)"
    and "\<And>j. j < length es \<Longrightarrow> i \<le> j \<Longrightarrow> de_val (es ! i) \<le> de_val (es ! j)"
proof -
  show "Validate (de_digest (es ! i)) = None" "es ! i = entry_of (de_digest (es ! i))"
    using assms by (auto simp: set_inv_def)
  show *: "de_val (es ! i) < de_val (es ! j)" if "j < length es" "i < j" for j
    using assms that by (auto simp: set_inv_def sorted_wrt_iff_nth_less)
  show "de_val (es ! i) \<le> de_val (es ! j)" if "j < length es" "i \<le> j" for j
    using * [of j] that by (cases "i = j") auto
qed

lemma at_least_mono:
  assumes inv: "set_inv es" and "x \<le> y" and "y < length es" and "at_least es a h x"
  shows "at_least es a h y"
proof (cases "x = y")
  case False
  with set_invD(3) [OF inv, of x y] assms have lt: "de_val (es ! x) < de_val (es ! y)" by simp
  from assms(4) have "h \<le> de_val (es ! x)" by (auto simp: at_least_def split: if_splits)
  with lt have "h < de_val (es ! y)" by simp
  then show ?thesis by (auto simp: at_least_def)
qed (use assms in simp)

lemma search_at_least:
  assumes "set_inv es"
  shows "sort_Search (length es) (at_least es a h) \<le> length es"
    and "\<And>x. x < sort_Search (length es) (at_least es a h) \<Longrightarrow> \<not> at_least es a h x"
    and "\<And>x. sort_Search (length es) (at_least es a h) \<le> x \<Longrightarrow> x < length es \<Longrightarrow> at_least es a h x"
  using sort_Search_spec [of "length es" "at_least es a h"] at_least_mono [OF assms] by blast+

text \<open>Where the search for a valid digest ends: at its entry, or where it belongs.\<close>

lemma search_position:
  assumes inv: "set_inv es" and d: "Validate d = None"
  defines "e \<equiv> entry_of d" and "idx \<equiv> sort_Search (length es) (at_least es (de_alg (entry_of d)) (de_val (entry_of d)))"
  shows "idx \<le> length es" and "\<And>x. x < idx \<Longrightarrow> de_val (es ! x) < de_val e"
    and "\<And>x. idx \<le> x \<Longrightarrow> x < length es \<Longrightarrow> de_val e \<le> de_val (es ! x)"
    and "d \<in> set (set_All es) \<longleftrightarrow> idx < length es \<and> de_digest (es ! idx) = d"
proof -
  note spec = search_at_least [where a = "de_alg e" and h = "de_val e", OF inv]
  show le: "idx \<le> length es" using spec(1) by (simp add: idx_def e_def)
  have same: "es ! x = e" if "x < length es" "de_val (es ! x) = de_val e" for x
  proof -
    note s = set_invD(1,2) [OF inv that(1)]
    with val_inj [OF s(1) d] that(2) have "de_digest (es ! x) = d" by (simp add: e_def)
    with s(2) show ?thesis by (simp add: e_def)
  qed
  show lt: "de_val (es ! x) < de_val e" if "x < idx" for x
  proof -
    from that have "\<not> at_least es (de_alg e) (de_val e) x" using spec(2) [where x = x] by (simp add: idx_def e_def)
    with same [of x] that le show ?thesis by (auto simp: at_least_def split: if_splits)
  qed
  show ge: "de_val e \<le> de_val (es ! x)" if "idx \<le> x" "x < length es" for x
    using spec(3) [where x = x] that by (auto simp: idx_def e_def at_least_def split: if_splits)
  show "d \<in> set (set_All es) \<longleftrightarrow> idx < length es \<and> de_digest (es ! idx) = d"
  proof
    assume "d \<in> set (set_All es)"
    then obtain x where x: "x < length es" "de_digest (es ! x) = d"
      by (auto simp: set_All_def in_set_conv_nth)
    then have v: "de_val (es ! x) = de_val e" using set_invD(2) [OF inv x(1)] by (simp add: e_def)
    with lt [of x] have ix: "idx \<le> x" by (metis leI less_irrefl)
    have "\<not> idx < x"
    proof
      assume "idx < x"
      with set_invD(3) [OF inv, of idx x] x(1) ge [of idx] v show False by auto
    qed
    with ix x show "idx < length es \<and> de_digest (es ! idx) = d" by auto
  qed (auto simp: set_All_def)
qed

section \<open>Refinement of a set\<close>

text \<open>A sequence of additions (\<open>True\<close>) and removals, and the same sequence on a mathematical set.\<close>

fun run_ops ::
  "(digest \<Rightarrow> 's \<Rightarrow> (err option \<times> 's) outcome) \<Rightarrow> (digest \<Rightarrow> 's \<Rightarrow> (err option \<times> 's) outcome) \<Rightarrow>
   (bool \<times> digest) list \<Rightarrow> 's \<Rightarrow> 's outcome" where
  "run_ops add remove [] s = Ret s"
| "run_ops add remove ((True, d) # ops) s = bind_outcome (add d s) (\<lambda>(e, s'). run_ops add remove ops s')"
| "run_ops add remove ((False, d) # ops) s = bind_outcome (remove d s) (\<lambda>(e, s'). run_ops add remove ops s')"

fun spec_ops :: "(bool \<times> digest) list \<Rightarrow> digest set \<Rightarrow> digest set" where
  "spec_ops [] S = S"
| "spec_ops ((True, d) # ops) S = spec_ops ops (if Validate d = None then insert d S else S)"
| "spec_ops ((False, d) # ops) S = spec_ops ops (S - {d})"

text \<open>
  What a client of the set relies on: operations with an abstraction to a set of digests, an invariant,
  and a domain of digests outside of which an operation only reports an error.
\<close>

locale digest_set =
  fixes inv :: "'s \<Rightarrow> bool" and abs :: "'s \<Rightarrow> digest set" and new :: 's
    and add :: "digest \<Rightarrow> 's \<Rightarrow> (err option \<times> 's) outcome"
    and remove :: "digest \<Rightarrow> 's \<Rightarrow> (err option \<times> 's) outcome"
  assumes new: "inv new" "abs new = {}"
    and add: "inv s \<Longrightarrow> \<exists>s'. add d s = Ret (Validate d, s') \<and> inv s' \<and>
                abs s' = (if Validate d = None then insert d (abs s) else abs s)"
    and remove: "inv s \<Longrightarrow> \<exists>s'. remove d s = Ret (Validate d, s') \<and> inv s' \<and> abs s' = abs s - {d}"
begin

lemma run_ops_refine: "inv s \<Longrightarrow> \<exists>s'. run_ops add remove ops s = Ret s' \<and> inv s' \<and> abs s' = spec_ops ops (abs s)"
proof (induction ops arbitrary: s)
  case (Cons op ops)
  obtain b d where op: "op = (b, d)" by fastforce
  show ?case
  proof (cases b)
    case True
    from add [OF Cons.prems, of d] obtain s1 where s1: "add d s = Ret (Validate d, s1)" "inv s1"
      "abs s1 = (if Validate d = None then insert d (abs s) else abs s)" by blast
    from Cons.IH [OF s1(2)] s1 True op show ?thesis by auto
  next
    case False
    from remove [OF Cons.prems, of d] obtain s1 where s1: "remove d s = Ret (Validate d, s1)" "inv s1"
      "abs s1 = abs s - {d}" by blast
    from Cons.IH [OF s1(2)] s1 False op show ?thesis by auto
  qed
qed simp

end

lemma set_inv_insert:
  assumes inv: "set_inv es" and d: "Validate d = None" and "idx \<le> length es"
    and lt: "\<And>x. x < idx \<Longrightarrow> de_val (es ! x) < de_val (entry_of d)"
    and gt: "\<And>x. idx \<le> x \<Longrightarrow> x < length es \<Longrightarrow> de_val (entry_of d) < de_val (es ! x)"
  shows "set_inv (take idx es @ [entry_of d] @ drop idx es)"
proof -
  have "sorted_wrt (\<lambda>x y. de_val x < de_val y) (take idx es)" "sorted_wrt (\<lambda>x y. de_val x < de_val y) (drop idx es)"
    using inv by (simp_all add: set_inv_def sorted_wrt_take sorted_wrt_drop)
  moreover have "\<forall>e \<in> set (take idx es). de_val e < de_val (entry_of d)"
    using lt assms(3) by (auto simp: in_set_conv_nth)
  moreover have "\<forall>e \<in> set (drop idx es). de_val (entry_of d) < de_val e"
    using gt by (auto simp: in_set_conv_nth)
  ultimately have "sorted_wrt (\<lambda>x y. de_val x < de_val y) (take idx es @ [entry_of d] @ drop idx es)"
    by (auto simp: sorted_wrt_append intro: order.strict_trans)
  moreover have "\<forall>e \<in> set (take idx es @ [entry_of d] @ drop idx es).
      Validate (de_digest e) = None \<and> e = entry_of (de_digest e)"
    using inv d by (auto simp: set_inv_def dest: in_set_takeD in_set_dropD)
  ultimately show ?thesis unfolding set_inv_def by blast
qed

lemma set_take_drop: "set (take n es) \<union> set (drop n es) = set es"
  by (metis append_take_drop_id set_append)

lemma set_Add_correct:
  assumes inv: "set_inv es"
  shows "\<exists>es'. set_Add d es = Ret (Validate d, es') \<and> set_inv es' \<and>
     set (set_All es') = (if Validate d = None then insert d (set (set_All es)) else set (set_All es))"
proof (cases "Validate d")
  case None
  then obtain a h where p: "digest_Algorithm d = Ret a" "digest_Hex d = Ret h"
    "entry_of d = \<lparr>de_alg = a, de_val = h, de_digest = d\<rparr>" by (rule entry_of_valid) blast
  define idx where "idx = sort_Search (length es) (at_least es a h)"
  have idx: "idx = sort_Search (length es) (at_least es (de_alg (entry_of d)) (de_val (entry_of d)))"
    by (simp add: idx_def p(3))
  note pos = search_position [OF inv None, folded idx]
  let ?es = "take idx es @ [entry_of d] @ drop idx es"
  have run: "set_Add d es = Ret (None, if idx < length es \<and> de_digest (es ! idx) = d then es else ?es)"
    using None p pos(1) by (auto simp: set_Add_def idx_def [symmetric] Let_def)
  show ?thesis
  proof (cases "d \<in> set (set_All es)")
    case True
    with run pos(4) None inv show ?thesis by (auto simp: insert_absorb)
  next
    case False
    have "de_val (entry_of d) < de_val (es ! x)" if "idx \<le> x" "x < length es" for x
    proof -
      have "de_val (entry_of d) \<noteq> de_val (es ! x)"
        using val_inj [OF None set_invD(1) [OF inv that(2)]] set_invD(2) [OF inv that(2)] that(2) False
        by (auto simp: set_All_def)
      with pos(3) [OF that] show ?thesis by simp
    qed
    from set_inv_insert [OF inv None pos(1,2) this] have "set_inv ?es" by blast
    moreover have "set (set_All ?es) = insert d (set (set_All es))"
      using set_take_drop [of idx es] by (auto simp: set_All_def)
    ultimately show ?thesis using run pos(4) False None by auto
  qed
qed (use inv in \<open>simp add: set_Add_def\<close>)

lemma set_Remove_correct:
  assumes inv: "set_inv es"
  shows "\<exists>es'. set_Remove d es = Ret (Validate d, es') \<and> set_inv es' \<and> set (set_All es') = set (set_All es) - {d}"
proof (cases "Validate d")
  case None
  then obtain a h where p: "digest_Algorithm d = Ret a" "digest_Hex d = Ret h"
    "entry_of d = \<lparr>de_alg = a, de_val = h, de_digest = d\<rparr>" by (rule entry_of_valid) blast
  define idx where "idx = sort_Search (length es) (at_least es a h)"
  have idx: "idx = sort_Search (length es) (at_least es (de_alg (entry_of d)) (de_val (entry_of d)))"
    by (simp add: idx_def p(3))
  note pos = search_position [OF inv None, folded idx]
  let ?es = "take idx es @ drop (idx + 1) es"
  have run: "set_Remove d es = Ret (None, if idx < length es \<and> de_digest (es ! idx) = d then ?es else es)"
    using None p pos(1) by (auto simp: set_Remove_def idx_def [symmetric] Let_def)
  show ?thesis
  proof (cases "d \<in> set (set_All es)")
    case True
    with pos(4) have i: "idx < length es" "de_digest (es ! idx) = d" by auto
    have split: "es = take idx es @ es ! idx # drop (idx + 1) es" using id_take_nth_drop [OF i(1)] by simp
    have inv': "set_inv (take idx es @ es ! idx # drop (idx + 1) es)" using inv split by simp
    then have "set_inv ?es" by (auto simp: set_inv_def sorted_wrt_append)
    moreover have "d \<notin> set (set_All ?es)"
    proof
      assume "d \<in> set (set_All ?es)"
      then obtain e where e: "e \<in> set (take idx es) \<union> set (drop (idx + 1) es)" "de_digest e = d" by (auto simp: set_All_def)
      have "de_val e < de_val (es ! idx) \<or> de_val (es ! idx) < de_val e"
        using inv' e(1) unfolding set_inv_def sorted_wrt_append by auto
      moreover have "e \<in> set es" using e(1) by (auto dest: in_set_takeD in_set_dropD)
      then have "e = entry_of d" using inv e(2) unfolding set_inv_def by blast
      moreover have "es ! idx = entry_of d" using set_invD(2) [OF inv i(1)] i(2) by simp
      ultimately show False by simp
    qed
    moreover have "set (set_All es) = insert d (set (set_All ?es))"
      using i(2) by (subst split) (simp add: set_All_def)
    ultimately show ?thesis using run i None by auto
  next
    case False
    with run pos(4) None inv show ?thesis by auto
  qed
next
  case (Some e)
  then have "d \<notin> set (set_All es)" using inv by (auto simp: set_All_def set_inv_def)
  with Some inv show ?thesis by (simp add: set_Remove_def)
qed

interpretation dset: digest_set set_inv "\<lambda>es. set (set_All es)" NewSet set_Add set_Remove
  by unfold_locales (use set_Add_correct set_Remove_correct in \<open>auto simp: NewSet_def set_inv_def set_All_def\<close>)

section \<open>Lookup\<close>

text \<open>Which digests a string abbreviates: a prefix of the hex value, with or without the algorithm.\<close>

definition abbreviates :: "string \<Rightarrow> digest \<Rightarrow> bool" where
  "abbreviates d x =
     (if Validate d = Some ErrDigestInvalidFormat then prefix d (de_val (entry_of x))
      else de_alg (entry_of d) = de_alg (entry_of x) \<and> prefix (de_val (entry_of d)) (de_val (entry_of x)))"

lemma well_formed_parts:
  assumes "Validate d \<noteq> Some ErrDigestInvalidFormat"
  obtains a h where "digest_Algorithm d = Ret a" and "digest_Hex d = Ret h"
    and "entry_of d = \<lparr>de_alg = a, de_val = h, de_digest = d\<rparr>" and "a \<noteq> []"
proof -
  from assms obtain i where "index_byte CHR '':'' d = Some i" "take i d \<noteq> []"
    by (auto simp: Validate_def DigestRegexpAnchored_def split: if_splits option.splits)
  then show thesis
    using that by (auto simp: entry_of_def digest_Algorithm_def digest_Hex_def sepIndex_def)
qed

lemma valid_alg_nonempty: "Validate x = None \<Longrightarrow> de_alg (entry_of x) \<noteq> []"
  by (erule entry_of_valid) (auto dest: supported_alg_char)

text \<open>The entries whose value extends a string are a block that starts where the search ends.\<close>

lemma block:
  assumes inv: "set_inv es" and f: "\<And>x. x < length es \<Longrightarrow> f x \<longleftrightarrow> h \<le> de_val (es ! x)"
  defines "idx \<equiv> sort_Search (length es) f"
  shows "idx \<le> length es"
    and "x < length es \<Longrightarrow> prefix h (de_val (es ! x)) \<Longrightarrow> idx \<le> x \<and> (\<forall>y. idx \<le> y \<longrightarrow> y \<le> x \<longrightarrow> prefix h (de_val (es ! y)))"
proof -
  have mono: "f y" if "x \<le> y" "y < length es" "f x" for x y
  proof -
    have "h \<le> de_val (es ! x)" using f [of x] that by simp
    also have "de_val (es ! x) \<le> de_val (es ! y)" using set_invD(4) [OF inv, of x y] that by simp
    finally show ?thesis using f [of y] that by simp
  qed
  note spec = sort_Search_spec [of "length es" f, folded idx_def]
  show "idx \<le> length es" using spec(1) mono by blast
  assume x: "x < length es" and p: "prefix h (de_val (es ! x))"
  then have "f x" using f [of x] prefix_le by simp
  then have ix: "idx \<le> x" using spec(2) [of x] mono by (metis leI)
  moreover have "prefix h (de_val (es ! y))" if y: "idx \<le> y" "y \<le> x" for y
  proof (rule prefix_between [OF p])
    have "f y" using spec(3) [of y] mono y x by (meson le_less_trans)
    then show "h \<le> de_val (es ! y)" using f [of y] y x by simp
    show "de_val (es ! y) \<le> de_val (es ! x)" using set_invD(4) [OF inv, of y x] x y by simp
  qed
  ultimately show "idx \<le> x \<and> (\<forall>y. idx \<le> y \<longrightarrow> y \<le> x \<longrightarrow> prefix h (de_val (es ! y)))" by blast
qed

lemma set_inv_digest_inj: "set_inv es \<Longrightarrow> i < length es \<Longrightarrow> j < length es \<Longrightarrow> de_digest (es ! i) = de_digest (es ! j) \<Longrightarrow> i = j"
  by (metis less_irrefl linorder_neqE_nat set_invD(2) set_invD(3))

text \<open>What the code after the search returns, given that the search ends at the block.\<close>

definition pick :: "digestEntries \<Rightarrow> nat \<Rightarrow> string \<Rightarrow> string \<Rightarrow> digest res" where
  "pick es idx a h =
     (if idx = length es \<or> \<not> checkShortMatch (de_alg (es ! idx)) (de_val (es ! idx)) a h then Inl ErrDigestNotFound
      else if de_alg (es ! idx) = a \<and> de_val (es ! idx) = h then Inr (de_digest (es ! idx))
      else if idx + 1 < length es \<and> checkShortMatch (de_alg (es ! (idx + 1))) (de_val (es ! (idx + 1))) a h
      then Inl ErrDigestAmbiguous else Inr (de_digest (es ! idx)))"

lemma pick_correct:
  assumes inv: "set_inv es" and f: "\<And>x. x < length es \<Longrightarrow> f x \<longleftrightarrow> h \<le> de_val (es ! x)"
    and alg: "\<And>x. x < length es \<Longrightarrow> a = [] \<or> a = de_alg (es ! x)"
    and exact: "\<And>x y. x < length es \<Longrightarrow> y < length es \<Longrightarrow> a = de_alg (es ! x) \<Longrightarrow> de_val (es ! x) = h \<Longrightarrow>
        prefix h (de_val (es ! y)) \<Longrightarrow> y = x"
  defines "M \<equiv> {x \<in> set (set_All es). prefix h (de_val (entry_of x))}" and "idx \<equiv> sort_Search (length es) f"
  shows "pick es idx a h = Inl ErrDigestNotFound \<and> M = {} \<or> pick es idx a h = Inl ErrDigestAmbiguous \<and> (\<exists>x \<in> M. \<exists>y \<in> M. x \<noteq> y)
     \<or> (\<exists>x. pick es idx a h = Inr x \<and> M = {x})"
proof -
  have b1: "idx \<le> length es" using block(1) [OF inv, of f h] f by (simp add: idx_def)
  have b2: "idx \<le> x \<and> (\<forall>y. idx \<le> y \<longrightarrow> y \<le> x \<longrightarrow> prefix h (de_val (es ! y)))"
    if "x < length es" "prefix h (de_val (es ! x))" for x
    using block(2) [OF inv, of f h x] f that by (simp add: idx_def)
  have M: "M = {de_digest (es ! x) | x. x < length es \<and> prefix h (de_val (es ! x))}"
  proof -
    have "de_val (entry_of (de_digest (es ! x))) = de_val (es ! x)" if "x < length es" for x
      using set_invD(2) [OF inv that] by metis
    then show ?thesis unfolding M_def set_All_def by (force simp: in_set_conv_nth)
  qed
  show ?thesis
  proof (cases "idx < length es \<and> prefix h (de_val (es ! idx))")
    case False
    then have "M = {}" using b1 b2 unfolding M by fastforce
    moreover have "pick es idx a h = Inl ErrDigestNotFound"
      using False b1 by (auto simp: pick_def checkShortMatch_eq)
    ultimately show ?thesis by blast
  next
    case True
    let ?x = "de_digest (es ! idx)"
    have xM: "?x \<in> M" using True unfolding M by blast
    have match: "checkShortMatch (de_alg (es ! y)) (de_val (es ! y)) a h \<longleftrightarrow> prefix h (de_val (es ! y))" if "y < length es" for y
      using alg [OF that] by (auto simp: checkShortMatch_eq)
    show ?thesis
    proof (cases "idx + 1 < length es \<and> prefix h (de_val (es ! (idx + 1))) \<and> \<not> (de_alg (es ! idx) = a \<and> de_val (es ! idx) = h)")
      case amb: True
      then have "de_digest (es ! (idx + 1)) \<in> M" "de_digest (es ! (idx + 1)) \<noteq> ?x"
        using set_inv_digest_inj [OF inv, of "idx + 1" idx] unfolding M by auto
      moreover have "pick es idx a h = Inl ErrDigestAmbiguous" using True amb match by (auto simp: pick_def)
      ultimately show ?thesis using xM by blast
    next
      case one: False
      have "y = idx" if y: "y < length es" "prefix h (de_val (es ! y))" for y
      proof (rule ccontr)
        assume "y \<noteq> idx"
        with b2 [OF y] have "idx + 1 \<le> y" "prefix h (de_val (es ! (idx + 1)))" by auto
        with one y(1) have "de_alg (es ! idx) = a \<and> de_val (es ! idx) = h" by simp
        with exact [of idx y] True y \<open>y \<noteq> idx\<close> show False by simp
      qed
      then have "M = {?x}" using xM unfolding M by blast
      moreover have "pick es idx a h = Inr ?x" using True one match by (auto simp: pick_def)
      ultimately show ?thesis by blast
    qed
  qed
qed

lemma set_Lookup_pick:
  assumes "es \<noteq> []"
  shows "Validate d = Some ErrDigestInvalidFormat \<Longrightarrow>
      set_Lookup es d = Ret (pick es (sort_Search (length es) (\<lambda>i. d \<le> de_val (es ! i))) [] d)"
    and "digest_Algorithm d = Ret a \<Longrightarrow> digest_Hex d = Ret h \<Longrightarrow> Validate d \<noteq> Some ErrDigestInvalidFormat \<Longrightarrow>
      set_Lookup es d = Ret (pick es (sort_Search (length es) (at_least es a h)) a h)"
  using assms by (simp_all add: set_Lookup_def ParseDigest_def pick_def Let_def)

lemma hex_lengths_eq:
  assumes inv: "set_inv es" and "x < length es" and "y < length es" and "de_alg (es ! x) = de_alg (es ! y)"
  shows "length (de_val (es ! x)) = length (de_val (es ! y))"
proof -
  note v = set_invD(1,2) [OF inv assms(2)] set_invD(1,2) [OF inv assms(3)]
  from v(1) obtain a h k where x: "entry_of (de_digest (es ! x)) = \<lparr>de_alg = a, de_val = h, de_digest = de_digest (es ! x)\<rparr>"
    "algorithms a = Some k" "length h = 2 * hash_Size k" by (rule entry_of_valid) blast
  from v(3) obtain a' h' k' where y: "entry_of (de_digest (es ! y)) = \<lparr>de_alg = a', de_val = h', de_digest = de_digest (es ! y)\<rparr>"
    "algorithms a' = Some k'" "length h' = 2 * hash_Size k'" by (rule entry_of_valid) blast
  have "de_alg (es ! x) = a" "de_val (es ! x) = h" "de_alg (es ! y) = a'" "de_val (es ! y) = h'"
    using v(2,4) x(1) y(1) by (metis digestEntry.select_convs)+
  with assms(4) x y show ?thesis by simp
qed

lemma set_Lookup_cases:
  assumes inv: "set_inv es"
    and q: "Validate d = Some ErrDigestInvalidFormat \<or> (\<forall>x \<in> set (set_All es). \<forall>y \<in> set (set_All es). de_alg (entry_of x) = de_alg (entry_of y))"
  defines "M \<equiv> {x \<in> set (set_All es). abbreviates d x}"
  shows "set_Lookup es d = Ret (Inl ErrDigestNotFound) \<and> M = {} \<or>
     set_Lookup es d = Ret (Inl ErrDigestAmbiguous) \<and> (\<exists>x \<in> M. \<exists>y \<in> M. x \<noteq> y) \<or>
     (\<exists>x. set_Lookup es d = Ret (Inr x) \<and> M = {x})"
proof (cases "es = []")
  case True
  then show ?thesis by (simp add: set_Lookup_def M_def set_All_def)
next
  case ne: False
  have alg_ne: "de_alg (es ! x) \<noteq> []" if "x < length es" for x
    using valid_alg_nonempty set_invD(1,2) [OF inv that] by metis
  show ?thesis
  proof (cases "Validate d = Some ErrDigestInvalidFormat")
    case True
    have M: "M = {x \<in> set (set_All es). prefix d (de_val (entry_of x))}" by (simp add: M_def abbreviates_def True)
    show ?thesis unfolding M set_Lookup_pick(1) [OF ne True] outcome.inject
      by (rule pick_correct [OF inv]) (use alg_ne in \<open>simp_all, metis\<close>)
  next
    case False
    then obtain a h where p: "digest_Algorithm d = Ret a" "digest_Hex d = Ret h" and e: "de_alg (entry_of d) = a" "de_val (entry_of d) = h"
      and a: "a \<noteq> []" by (rule well_formed_parts) auto
    have entry: "de_alg (entry_of (de_digest (es ! x))) = de_alg (es ! x)" "de_digest (es ! x) \<in> set (set_All es)" if "x < length es" for x
      using set_invD(2) [OF inv that] that by (metis, simp add: set_All_def)
    have one_alg: "de_alg (es ! x) = de_alg (es ! y)" if "x < length es" "y < length es" for x y
      using q False entry that by metis
    note run = set_Lookup_pick(2) [OF ne p False]
    show ?thesis
    proof (cases "a = de_alg (es ! 0)")
      case same: True
      then have alg: "de_alg (es ! x) = a" if "x < length es" for x using one_alg [OF that, of 0] ne by simp
      have M: "M = {x \<in> set (set_All es). prefix h (de_val (entry_of x))}"
        using alg entry False e by (auto simp: M_def abbreviates_def set_All_def in_set_conv_nth)
      have f: "at_least es a h x \<longleftrightarrow> h \<le> de_val (es ! x)" if "x < length es" for x
        using alg [OF that] by (auto simp: at_least_def)
      have ex: "y = x" if "x < length es" "y < length es" "de_val (es ! x) = h" "prefix h (de_val (es ! y))" for x y
      proof -
        have "length (de_val (es ! y)) = length h" using hex_lengths_eq [OF inv that(2,1) one_alg [OF that(2,1)]] that(3) by simp
        with that(4) have "de_val (es ! y) = h" by (auto simp: prefix_def)
        with that set_invD(3) [OF inv] show ?thesis by (metis less_irrefl linorder_neqE_nat)
      qed
      show ?thesis unfolding M run outcome.inject
        by (rule pick_correct [OF inv f]) (use alg ex in auto)
    next
      case other: False
      then have na: "de_alg (es ! x) \<noteq> a" if "x < length es" for x using one_alg [OF that, of 0] ne by auto
      then have "\<And>x. x < length es \<Longrightarrow> \<not> checkShortMatch (de_alg (es ! x)) (de_val (es ! x)) a h"
        using a by (simp add: checkShortMatch_eq) blast
      moreover have "\<not> abbreviates d (de_digest (es ! x))" if "x < length es" for x
        using na [OF that] entry(1) [OF that] e(1) False by (simp add: abbreviates_def)
      then have "M = {}" by (auto simp: M_def set_All_def in_set_conv_nth)
      moreover have "pick es idx a h = Inl ErrDigestNotFound" if "idx \<le> length es" for idx
        using calculation(1) [of idx] that by (auto simp: pick_def)
      ultimately show ?thesis using run search_at_least(1) [where a = a and h = h, OF inv] by simp
    qed
  qed
qed

section \<open>Short codes\<close>

lemma short_scan_spec:
  "fst (short_scan short rest j (r, x)) = (if takeWhile (\<lambda>e. prefix short (de_val e)) rest = [] then r
     else max r (j + length (takeWhile (\<lambda>e. prefix short (de_val e)) rest) - 1)) \<and>
   snd (short_scan short rest j (r, x)) = (x \<or> takeWhile (\<lambda>e. prefix short (de_val e)) rest \<noteq> [])"
proof (induction rest arbitrary: j r x)
  case (Cons e rest)
  show ?case
    using Cons.IH [of "j + 1" "max r j" True]
    by (auto simp: checkShortMatch_eq max_def)
qed simp

text \<open>In a sorted list the entries that extend a prefix of the first one come first.\<close>

lemma takeWhile_block:
  assumes "set_inv (e # rest)" and "k < length rest" and "take l (de_val (rest ! k)) = take l (de_val e)"
    and "l \<le> length (de_val e)"
  shows "k < length (takeWhile (\<lambda>y. prefix (take l (de_val e)) (de_val y)) rest)"
proof -
  let ?P = "\<lambda>y. prefix (take l (de_val e)) (de_val y)"
  have "?P (rest ! j)" if "j \<le> k" for j
  proof (rule prefix_between)
    show "prefix (take l (de_val e)) (de_val (rest ! k))" using assms(3) take_is_prefix by metis
    show "take l (de_val e) \<le> de_val (rest ! j)"
      using prefix_le [OF take_is_prefix, of l "de_val e"] set_invD(4) [OF assms(1), of 0 "Suc j"] assms(2) that by simp
    show "de_val (rest ! j) \<le> de_val (rest ! k)"
      using set_invD(4) [OF assms(1), of "Suc j" "Suc k"] assms(2) that by simp
  qed
  then show ?thesis using length_takeWhile_less_P_nth [of "Suc k" ?P rest] assms(2) by (simp add: less_Suc_eq_le)
qed

lemma take_eq_mono: "take l x = take l y \<Longrightarrow> n \<le> l \<Longrightarrow> take n x = take n y"
  by (metis min.absorb1 take_take)

lemma set_inv_Cons:
  "set_inv (e # rest) \<Longrightarrow> set_inv rest"
  "set_inv (e # rest) \<Longrightarrow> y \<in> set rest \<Longrightarrow> de_val e < de_val y"
  by (simp_all add: set_inv_def)

text \<open>
  The middle loop ends with a code that no later entry extends, and moves the reset index to the end of
  the block of entries that share the code it started with.
\<close>

lemma short_extend_spec:
  assumes "set_inv (e # rest)" and "\<forall>y \<in> set (e # rest). length (de_val y) = N"
    and "short_extend e rest i l r = (short, l', r')"
  shows "l \<le> l' \<and> r \<le> r' \<and> short = (if N \<le> l' then de_digest e else take l' (de_val e)) \<and>
     (\<forall>y \<in> set rest. take l' (de_val y) \<noteq> take l' (de_val e)) \<and>
     (\<forall>k < length rest. take l (de_val (rest ! k)) = take l (de_val e) \<longrightarrow> i + 1 + k \<le> r') \<and>
     (r' = r \<or> (\<exists>k < length rest. r' = i + 1 + k \<and> take l (de_val (rest ! k)) = take l (de_val e)))"
  using assms(3)
proof (induction "N - l" arbitrary: l r rule: less_induct)
  case less
  have len: "length (de_val e) = N" "\<And>k. k < length rest \<Longrightarrow> length (de_val (rest ! k)) = N" using assms(2) by auto
  show ?case
  proof (cases "N \<le> l")
    case True
    then have "short = de_digest e \<and> l' = l \<and> r' = r" using less.prems len by (simp add: short_extend.simps [of e rest i l r])
    moreover have "take l (de_val y) \<noteq> take l (de_val e)" if "y \<in> set rest" for y
      using set_inv_Cons(2) [OF assms(1) that] assms(2) that True by auto
    ultimately show ?thesis using True by auto
  next
    case False
    let ?W = "takeWhile (\<lambda>y. prefix (take l (de_val e)) (de_val y)) rest"
    obtain r1 x where sc: "short_scan (take l (de_val e)) rest (i + 1) (r, False) = (r1, x)" by fastforce
    from short_scan_spec [of "take l (de_val e)" rest "i + 1" r False] sc
    have r1: "r1 = (if ?W = [] then r else max r (i + length ?W))" and x: "x \<longleftrightarrow> ?W \<noteq> []" by simp_all
    have cover: "i + 1 + k \<le> r1" if "k < length rest" "take l (de_val (rest ! k)) = take l (de_val e)" for k
      using takeWhile_block [OF assms(1) that] r1 False len by auto
    have from_W: "r1 = r \<or> (\<exists>k < length rest. r1 = i + 1 + k \<and> take l (de_val (rest ! k)) = take l (de_val e))"
    proof (cases "?W = [] \<or> i + length ?W \<le> r")
      case False
      let ?k = "length ?W - 1"
      have k: "?k < length ?W" using False by (cases ?W) auto
      then have "?k < length rest" using length_takeWhile_le [of _ rest] by (rule less_le_trans)
      moreover have "rest ! ?k \<in> set ?W" using k by (metis nth_mem takeWhile_nth)
      then have "prefix (take l (de_val e)) (de_val (rest ! ?k))" by (auto dest: set_takeWhileD)
      then have "take l (de_val (rest ! ?k)) = take l (de_val e)"
        using len(1) \<open>\<not> N \<le> l\<close> by (auto simp: prefix_def)
      moreover have "r1 = i + 1 + ?k" using r1 False k by auto
      ultimately show ?thesis by blast
    qed (use r1 in auto)
    show ?thesis
    proof (cases x)
      case True
      with less.prems sc False len have rec: "short_extend e rest i (l + 1) r1 = (short, l', r')"
        by (simp add: short_extend.simps [of e rest i l r] Let_def)
      note ih = less.hyps [OF _ rec]
      have "N - (l + 1) < N - l" using False by simp
      note ih = ih [OF this]
      from r1 have "r \<le> r1" by auto
      moreover have "take l (de_val (rest ! k)) = take l (de_val e)" if "take (l + 1) (de_val (rest ! k)) = take (l + 1) (de_val e)" for k
        using take_eq_mono [OF that, of l] by simp
      moreover have "r' = r \<or> (\<exists>k < length rest. r' = i + 1 + k \<and> take l (de_val (rest ! k)) = take l (de_val e))"
        using ih from_W calculation(2) by metis
      moreover have "\<forall>k < length rest. take l (de_val (rest ! k)) = take l (de_val e) \<longrightarrow> i + 1 + k \<le> r'"
        using ih cover by (meson le_trans)
      ultimately show ?thesis using ih by simp
    next
      case nx: False
      with less.prems sc False len have res: "short = take l (de_val e)" "l' = l" "r' = r1"
        by (auto simp: short_extend.simps [of e rest i l r] Let_def)
      have "take l (de_val y) \<noteq> take l (de_val e)" if y: "y \<in> set rest" for y
      proof
        assume eq: "take l (de_val y) = take l (de_val e)"
        from y obtain k where "k < length rest" "rest ! k = y" by (auto simp: in_set_conv_nth)
        with takeWhile_block [OF assms(1), of k l] eq False len have "?W \<noteq> []" by auto
        with x nx show False by simp
      qed
      with res r1 cover from_W False show ?thesis by auto
    qed
  qed
qed

text \<open>
  The state of the outer loop before the entry at index \<open>i\<close>: codes of the current length tell the entries
  that are done from those to come, the reset index covers every entry that shares the minimal code with
  one that is done, and it lies in the block of the next entry.
\<close>

definition table_inv :: "nat \<Rightarrow> digestEntries \<Rightarrow> digestEntries \<Rightarrow> nat \<Rightarrow> nat \<Rightarrow> bool" where
  "table_inv n before rest l r \<longleftrightarrow>
     n \<le> l \<and>
     (\<forall>d \<in> set before. \<forall>e \<in> set rest. take l (de_val e) \<noteq> take l (de_val d)) \<and>
     (\<forall>d \<in> set before. \<forall>k < length rest. take n (de_val (rest ! k)) = take n (de_val d) \<longrightarrow> length before + k \<le> r) \<and>
     (l = n \<or> (\<forall>k < length rest. take n (de_val (rest ! k)) = take n (de_val (rest ! 0)) \<longrightarrow> length before + k \<le> r)) \<and>
     (r \<le> length before \<or> (\<exists>k < length rest. r = length before + k \<and> take n (de_val (rest ! k)) = take n (de_val (rest ! 0))))"

lemma block_next:
  assumes "set_inv (e # e' # rest)" and "k < length (e' # rest)" and "take n (de_val ((e' # rest) ! k)) = take n (de_val e)"
    and "n \<le> length (de_val e)"
  shows "take n (de_val e') = take n (de_val e)"
proof -
  from takeWhile_block [OF assms] have "prefix (take n (de_val e)) (de_val e')" by (auto split: if_splits)
  with assms(4) show ?thesis by (auto simp: prefix_def)
qed

lemma table_inv_step:
  assumes inv: "set_inv (before @ e # rest)" and len: "\<forall>y \<in> set (before @ e # rest). length (de_val y) = N"
    and t: "table_inv n before (e # rest) l r"
    and x: "short_extend e rest (length before) l r = (short, l', r')"
  shows "table_inv n (before @ [e]) rest (if r' \<le> length before then n else l') r'"
proof -
  let ?i = "length before"
  have inv': "set_inv (e # rest)" using inv by (simp add: set_inv_def sorted_wrt_append)
  from short_extend_spec [OF inv' _ x, of N] len have
    le: "l \<le> l'" "r \<le> r'" and ne: "\<forall>y \<in> set rest. take l' (de_val y) \<noteq> take l' (de_val e)" and
    cover: "\<forall>k < length rest. take l (de_val (rest ! k)) = take l (de_val e) \<longrightarrow> ?i + 1 + k \<le> r'" and
    last: "r' = r \<or> (\<exists>k < length rest. r' = ?i + 1 + k \<and> take l (de_val (rest ! k)) = take l (de_val e))" by simp_all
  have nl: "n \<le> l" using t by (simp add: table_inv_def)
  have own: "?i + 1 + k \<le> r'" if k: "k < length rest" "take n (de_val (rest ! k)) = take n (de_val e)" for k
  proof (cases "l = n")
    case True
    with cover k show ?thesis by simp
  next
    case False
    with t have "\<forall>k < length (e # rest). take n (de_val ((e # rest) ! k)) = take n (de_val ((e # rest) ! 0)) \<longrightarrow> ?i + k \<le> r"
      unfolding table_inv_def by blast
    from this [rule_format, of "Suc k"] k le show ?thesis by simp
  qed
  have earlier: "?i + 1 + k \<le> r'" if "d \<in> set before" "k < length rest" "take n (de_val (rest ! k)) = take n (de_val d)" for d k
  proof -
    have "\<forall>k < length (e # rest). take n (de_val ((e # rest) ! k)) = take n (de_val d) \<longrightarrow> ?i + k \<le> r"
      using t that(1) unfolding table_inv_def by blast
    from this [rule_format, of "Suc k"] that le show ?thesis by simp
  qed
  have c: "\<forall>d \<in> set (before @ [e]). \<forall>k < length rest. take n (de_val (rest ! k)) = take n (de_val d) \<longrightarrow> ?i + 1 + k \<le> r'"
    using own earlier by auto
  have sep: "\<forall>d \<in> set (before @ [e]). \<forall>y \<in> set rest. take l' (de_val y) \<noteq> take l' (de_val d)"
  proof -
    have "take l' (de_val y) \<noteq> take l' (de_val d)" if "d \<in> set before" "y \<in> set rest" for d y
    proof -
      have "take l (de_val y) \<noteq> take l (de_val d)" using t that by (simp add: table_inv_def)
      then show ?thesis using take_eq_mono [of l' "de_val y" "de_val d" l] le by blast
    qed
    with ne show ?thesis by auto
  qed
  have in_block: "r' \<le> ?i \<or> (\<exists>k < length rest. r' = ?i + 1 + k \<and> take n (de_val (rest ! k)) = take n (de_val e))"
    using last
  proof
    assume "r' = r"
    moreover have "r \<le> ?i \<or> (\<exists>k < length (e # rest). r = ?i + k \<and> take n (de_val ((e # rest) ! k)) = take n (de_val e))"
      using t by (simp add: table_inv_def)
    ultimately show ?thesis by (auto simp: less_Suc_eq_0_disj)
  qed (use take_eq_mono nl in blast)
  show ?thesis
  proof (cases "r' \<le> ?i")
    case True
    have "take n (de_val y) \<noteq> take n (de_val d)" if "d \<in> set (before @ [e])" "y \<in> set rest" for d y
    proof
      assume "take n (de_val y) = take n (de_val d)"
      moreover from that(2) obtain k where "k < length rest" "rest ! k = y" by (auto simp: in_set_conv_nth)
      ultimately have "?i + 1 + k \<le> r'" using c that(1) by blast
      with True show False by simp
    qed
    with True c show ?thesis by (auto simp: table_inv_def)
  next
    case False
    with in_block obtain k where k: "k < length rest" "r' = ?i + 1 + k" "take n (de_val (rest ! k)) = take n (de_val e)" by auto
    then obtain e' rest' where rest: "rest = e' # rest'" by (cases rest) auto
    have same: "take n (de_val (rest ! 0)) = take n (de_val e)"
    proof (cases "n \<le> N")
      case True
      with block_next [of e e' rest' k n] k(1,3) inv' rest len show ?thesis by simp
    next
      case False
      then have "rest ! k \<in> set rest" "take n (de_val (rest ! k)) = de_val (rest ! k)" "take n (de_val e) = de_val e" using k(1) len by auto
      with set_inv_Cons(2) [OF inv', of "rest ! k"] k(3) show ?thesis by simp
    qed
    have "\<forall>k < length rest. take n (de_val (rest ! k)) = take n (de_val (rest ! 0)) \<longrightarrow> ?i + 1 + k \<le> r'"
      using own same by simp
    with False c sep k same nl le show ?thesis by (auto simp: table_inv_def)
  qed
qed

lemma short_table_other: "d \<notin> set (set_All es) \<Longrightarrow> short_table n es i l r m d = m d"
  by (induction es arbitrary: i l r m) (auto simp: set_All_def split: prod.splits)

lemma short_table_codes:
  assumes "set_inv (before @ rest)" and "\<forall>y \<in> set (before @ rest). length (de_val y) = N"
    and "table_inv n before rest l r" and "e \<in> set rest"
  shows "\<exists>l'. n \<le> l' \<and> short_table n rest (length before) l r m (de_digest e) =
      Some (if N \<le> l' then de_digest e else take l' (de_val e)) \<and>
      (\<forall>y \<in> set (before @ rest). take l' (de_val y) = take l' (de_val e) \<longrightarrow> y = e)"
  using assms
proof (induction rest arbitrary: before l r m)
  case (Cons a rest)
  obtain short l' r' where x: "short_extend a rest (length before) l r = (short, l', r')" by (metis prod_cases3)
  note inv = table_inv_step [OF Cons.prems(1-3) x]
  have inv': "set_inv (a # rest)" using Cons.prems(1) by (simp add: set_inv_def sorted_wrt_append)
  from short_extend_spec [OF inv' _ x, of N] Cons.prems(2) have
    sx: "l \<le> l'" "short = (if N \<le> l' then de_digest a else take l' (de_val a))"
      "\<forall>y \<in> set rest. take l' (de_val y) \<noteq> take l' (de_val a)" by simp_all
  let ?l = "if r' \<le> length before then n else l'" and ?m = "m(de_digest a \<mapsto> short)"
  have step: "short_table n (a # rest) (length before) l r m = short_table n rest (length (before @ [a])) ?l r' ?m"
    using x by simp
  show ?case
  proof (cases "e \<in> set rest")
    case True
    have "set_inv ((before @ [a]) @ rest)" "\<forall>y \<in> set ((before @ [a]) @ rest). length (de_val y) = N"
      using Cons.prems(1,2) by simp_all
    from Cons.IH [OF this inv True, of ?m] show ?thesis unfolding step append.assoc append_Cons append_Nil .
  next
    case False
    with Cons.prems(4) have e: "e = a" by simp
    have "de_digest a \<noteq> de_digest y" if "y \<in> set rest" for y
    proof
      assume eq: "de_digest a = de_digest y"
      have "a = entry_of (de_digest a)" "y = entry_of (de_digest y)" using inv' that unfolding set_inv_def by auto
      with eq set_inv_Cons(2) [OF inv' that] show False by simp
    qed
    then have "de_digest a \<notin> set (set_All rest)" by (auto simp: set_All_def)
    from short_table_other [OF this] step have "short_table n (a # rest) (length before) l r m (de_digest e) = Some short"
      by (simp add: e)
    moreover have "n \<le> l'" using Cons.prems(3) sx(1) by (simp add: table_inv_def)
    moreover have "y = e" if "y \<in> set (before @ a # rest)" "take l' (de_val y) = take l' (de_val e)" for y
    proof -
      have "y \<notin> set before"
      proof
        assume "y \<in> set before"
        then have "take l (de_val a) \<noteq> take l (de_val y)" using Cons.prems(3) by (simp add: table_inv_def)
        with take_eq_mono [OF that(2), of l] sx(1) e show False by simp
      qed
      with that sx(3) e show ?thesis by auto
    qed
    ultimately show ?thesis using sx(2) e by (intro exI [of _ l']) auto
  qed
qed simp

lemma hex_not_digest: "list_all hex_digit h \<Longrightarrow> Validate h = Some ErrDigestInvalidFormat"
proof -
  assume h: "list_all hex_digit h"
  have "\<not> hex_digit CHR '':''" by code_simp
  with h have "CHR '':'' \<notin> set h" by (auto simp: list_all_iff)
  then have "index_byte CHR '':'' h = None" by (simp add: index_byte_None)
  then show ?thesis by (simp add: Validate_def DigestRegexpAnchored_def)
qed

lemma one_algorithm_length:
  assumes inv: "set_inv es" and "\<forall>x \<in> set (set_All es). \<forall>y \<in> set (set_All es). de_alg (entry_of x) = de_alg (entry_of y)"
  obtains N where "\<forall>y \<in> set es. length (de_val y) = N"
proof (cases es)
  case (Cons e0 es0)
  have "length (de_val y) = length (de_val (es ! 0))" if y: "y \<in> set es" for y
  proof -
    from y obtain k where k: "k < length es" "es ! k = y" by (auto simp: in_set_conv_nth)
    have "de_alg (es ! k) = de_alg (es ! 0)"
      using assms(2) set_invD(2) [OF inv] k(1) Cons by (metis image_eqI length_greater_0_conv list.distinct(1) list.set_map nth_mem set_All_def)
    with hex_lengths_eq [OF inv k(1), of 0] k Cons show ?thesis by simp
  qed
  with that show thesis by blast
qed (use that in simp)

lemma the_only_one: "d \<in> A \<Longrightarrow> P d \<Longrightarrow> (\<And>y. y \<in> A \<Longrightarrow> P y \<Longrightarrow> y = d) \<Longrightarrow> {x \<in> A. P x} = {d}"
  by blast

text \<open>The three results exclude each other.\<close>

lemma lookup_exclusive:
  assumes "r = Ret (Inl ErrDigestNotFound) \<and> M = {} \<or> r = Ret (Inl ErrDigestAmbiguous) \<and> (\<exists>x \<in> M. \<exists>y \<in> M. x \<noteq> y) \<or>
     (\<exists>x. r = Ret (Inr x) \<and> M = {x})"
  shows "(r = Ret (Inr x) \<longleftrightarrow> M = {x}) \<and> (r = Ret (Inl ErrDigestNotFound) \<longleftrightarrow> M = {}) \<and>
     (r = Ret (Inl ErrDigestAmbiguous) \<longleftrightarrow> (\<exists>x \<in> M. \<exists>y \<in> M. x \<noteq> y))"
  using assms by (auto simp: ErrDigestNotFound_def ErrDigestAmbiguous_def)

section \<open>Properties\<close>

text \<open>
  C31: Additions and removals on the sorted slice implement a set of digests: every sequence of them
  starting from \<open>NewSet\<close> returns (no index is out of range and no digest without a colon is taken
  apart), leaves the slice sorted and without duplicates, and leaves exactly the digests that the same
  sequence leaves in a mathematical set, where adding an invalid digest changes nothing.
\<close>

theorem digest_set_refines:
  "\<exists>es. run_ops set_Add set_Remove ops NewSet = Ret es \<and> set_inv es \<and> distinct (set_All es) \<and>
        set (set_All es) = spec_ops ops {}"
proof -
  from dset.run_ops_refine [OF dset.new(1), of ops] dset.new(2) obtain es where
    es: "run_ops set_Add set_Remove ops NewSet = Ret es" "set_inv es" "set (set_All es) = spec_ops ops {}" by auto
  have "distinct (set_All es)"
    unfolding set_All_def distinct_conv_nth using set_inv_digest_inj [OF es(2)] by (metis length_map nth_map)
  with es show ?thesis by blast
qed

text \<open>
  C32: \<open>Lookup\<close> of an abbreviation, which either carries no algorithm or is used in a set with a single
  algorithm: it finds a digest if and only if that is the only one abbreviated, reports not found if and
  only if there is none, and ambiguous if and only if there are at least two.
\<close>

theorem set_Lookup_correct:
  assumes "set_inv es"
    and "Validate d = Some ErrDigestInvalidFormat \<or> (\<forall>x \<in> set (set_All es). \<forall>y \<in> set (set_All es). de_alg (entry_of x) = de_alg (entry_of y))"
  shows "(set_Lookup es d = Ret (Inr x) \<longleftrightarrow> {x \<in> set (set_All es). abbreviates d x} = {x}) \<and>
         (set_Lookup es d = Ret (Inl ErrDigestNotFound) \<longleftrightarrow> {x \<in> set (set_All es). abbreviates d x} = {}) \<and>
         (set_Lookup es d = Ret (Inl ErrDigestAmbiguous) \<longleftrightarrow>
            (\<exists>x \<in> set (set_All es). \<exists>y \<in> set (set_All es). abbreviates d x \<and> abbreviates d y \<and> x \<noteq> y))"
proof -
  have two: "(\<exists>x \<in> set (set_All es). \<exists>y \<in> set (set_All es). abbreviates d x \<and> abbreviates d y \<and> x \<noteq> y) \<longleftrightarrow>
      (\<exists>x \<in> {x \<in> set (set_All es). abbreviates d x}. \<exists>y \<in> {x \<in> set (set_All es). abbreviates d x}. x \<noteq> y)" by blast
  show ?thesis unfolding two by (rule lookup_exclusive [OF set_Lookup_cases [OF assms]])
qed

text \<open>
  In a set of digests of one algorithm the table of short codes is total, every code is found again by
  \<open>Lookup\<close> and names the digest it was made for, and no code is shorter than the minimal length.
\<close>

lemma ShortCodeTable_lookup:
  assumes inv: "set_inv es" and one: "\<forall>x \<in> set (set_All es). \<forall>y \<in> set (set_All es). de_alg (entry_of x) = de_alg (entry_of y)"
    and len: "0 \<le> len" and d: "d \<in> set (set_All es)"
  shows "\<exists>m c. ShortCodeTable es len = Ret m \<and> m d = Some c \<and> set_Lookup es c = Ret (Inr d) \<and> (c = d \<or> len \<le> int (length c))"
proof -
  let ?n = "nat len"
  let ?m = "short_table ?n es 0 ?n 0 (\<lambda>_. None)"
  have m: "ShortCodeTable es len = Ret ?m" using len by (simp add: ShortCodeTable_def)
  obtain N where N: "\<forall>y \<in> set es. length (de_val y) = N" using one_algorithm_length [OF inv one] .
  from d obtain e where e: "e \<in> set es" "de_digest e = d" by (auto simp: set_All_def)
  then have ed: "e = entry_of d" "Validate d = None" using inv by (auto simp: set_inv_def)
  have "table_inv ?n [] es ?n 0" by (simp add: table_inv_def)
  from short_table_codes [OF _ _ this e(1), of N "\<lambda>_. None"] inv N obtain l where
    l: "?n \<le> l" "?m d = Some (if N \<le> l then d else take l (de_val e))"
      "\<forall>y \<in> set es. take l (de_val y) = take l (de_val e) \<longrightarrow> y = e" using e(2) by auto
  let ?c = "if N \<le> l then d else take l (de_val e)"
  have uniq: "y = d" if y: "y \<in> set (set_All es)" "take l (de_val (entry_of y)) = take l (de_val e)" for y
  proof -
    from y(1) inv have "entry_of y \<in> set es" by (auto simp: set_All_def set_inv_def)
    with l(3) y(2) have "entry_of y = e" by blast
    then show ?thesis using e(2) by (metis entry_of_simps)
  qed
  have "{x \<in> set (set_All es). abbreviates ?c x} = {d}"
  proof (cases "N \<le> l")
    case True
    have only: "y = d" if y: "y \<in> set (set_All es)" "prefix (de_val (entry_of d)) (de_val (entry_of y))" for y
    proof -
      have "entry_of y \<in> set es" using y(1) inv by (auto simp: set_All_def set_inv_def)
      then have "length (de_val (entry_of y)) = N" "length (de_val e) = N" using N e(1) by auto
      with y(2) ed have "de_val (entry_of y) = de_val e" by (auto simp: prefix_def)
      with uniq y(1) show ?thesis by simp
    qed
    show ?thesis
    proof (rule the_only_one [OF d])
      show "abbreviates ?c d" using True ed by (simp add: abbreviates_def)
      show "y = d" if "y \<in> set (set_All es)" "abbreviates ?c y" for y
        using that(2) True ed(2) by (intro only [OF that(1)]) (simp add: abbreviates_def)
    qed
  next
    case False
    from ed(2) have "list_all hex_digit (de_val (entry_of d))" by (rule entry_of_valid) simp
    then have short: "Validate ?c = Some ErrDigestInvalidFormat"
      using False ed(1) by (intro hex_not_digest) (auto simp: list_all_iff dest: in_set_takeD)
    have only: "y = d" if "y \<in> set (set_All es)" "prefix (take l (de_val e)) (de_val (entry_of y))" for y
    proof (rule uniq [OF that(1)])
      have "length (take l (de_val e)) = l" using False N e(1) by auto
      with that(2) show "take l (de_val (entry_of y)) = take l (de_val e)" by (metis append_eq_conv_conj prefix_def)
    qed
    show ?thesis
    proof (rule the_only_one [OF d])
      show "abbreviates ?c d" using False short ed(1) take_is_prefix by (simp add: abbreviates_def)
      show "y = d" if "y \<in> set (set_All es)" "abbreviates ?c y" for y
        using that(2) False short by (intro only [OF that(1)]) (simp add: abbreviates_def)
    qed
  qed
  with conjunct1 [OF lookup_exclusive [OF set_Lookup_cases [OF inv disjI2 [OF one]]]] have "set_Lookup es ?c = Ret (Inr d)"
    by (rule iffD2)
  moreover have "?c = d \<or> len \<le> int (length ?c)" using l(1) N e(1) by auto
  ultimately show ?thesis using m l(2) by blast
qed

text \<open>A set of two digests of one algorithm.\<close>

definition demo_a :: digest where "demo_a = ''sha256:ab'' @ replicate 62 CHR ''0''"
definition demo_b :: digest where "demo_b = ''sha256:ac'' @ replicate 62 CHR ''0''"
definition demo_c :: digest where "demo_c = ''sha512:abc'' @ replicate 125 CHR ''0''"
definition demo_d :: digest where "demo_d = ''sha512:aa'' @ replicate 126 CHR ''0''"

lemma set_Lookup_correct_witness:
  "set_Lookup [entry_of demo_a, entry_of demo_b] ''ab'' = Ret (Inr demo_a)"
proof -
  have "set_inv [entry_of demo_a, entry_of demo_b]" "Validate ''ab'' = Some ErrDigestInvalidFormat" by code_simp+
  from set_Lookup_correct [OF this(1) disjI1 [OF this(2)], of demo_a]
  have "set_Lookup [entry_of demo_a, entry_of demo_b] ''ab'' = Ret (Inr demo_a) \<longleftrightarrow>
      {x \<in> set (set_All [entry_of demo_a, entry_of demo_b]). abbreviates ''ab'' x} = {demo_a}" by blast
  moreover have "abbreviates ''ab'' demo_a" "\<not> abbreviates ''ab'' demo_b" by code_simp+
  ultimately show ?thesis by (auto simp: set_All_def)
qed

lemma ShortCodeTable_lookup_witness:
  "\<exists>m c. ShortCodeTable [entry_of demo_a, entry_of demo_b] 1 = Ret m \<and> m demo_a = Some c \<and>
     set_Lookup [entry_of demo_a, entry_of demo_b] c = Ret (Inr demo_a) \<and> (c = demo_a \<or> 1 \<le> int (length c))"
proof -
  let ?es = "[entry_of demo_a, entry_of demo_b]"
  have i: "set_inv ?es" by code_simp
  have o: "\<forall>x \<in> set (set_All ?es). \<forall>y \<in> set (set_All ?es). de_alg (entry_of x) = de_alg (entry_of y)" by code_simp
  have d: "demo_a \<in> set (set_All ?es)" by (simp add: set_All_def)
  show ?thesis by (rule ShortCodeTable_lookup [OF i o _ d]) simp
qed

text \<open>
  With digests of two algorithms in one set, \<open>Lookup\<close> of an abbreviation that names the algorithm is
  wrong in both directions: it reports not found although exactly one digest is abbreviated, because the
  first entry in the block has the other algorithm, and it returns a digest although two are abbreviated,
  because the entry next to it has the other algorithm.
\<close>

lemma set_Lookup_mixed_algorithms:
  "(\<exists>es. run_ops set_Add set_Remove [(True, demo_d), (True, demo_a)] NewSet = Ret es \<and>
      set_Lookup es ''sha256:a'' = Ret (Inl ErrDigestNotFound) \<and> {x \<in> set (set_All es). abbreviates ''sha256:a'' x} = {demo_a}) \<and>
   (\<exists>es. run_ops set_Add set_Remove [(True, demo_a), (True, demo_b), (True, demo_c)] NewSet = Ret es \<and>
      set_Lookup es ''sha256:a'' = Ret (Inr demo_a) \<and> {x \<in> set (set_All es). abbreviates ''sha256:a'' x} = {demo_a, demo_b})"
proof -
  let ?e = "[entry_of demo_d, entry_of demo_a]" and ?f = "[entry_of demo_a, entry_of demo_c, entry_of demo_b]"
  have ab: "abbreviates ''sha256:a'' demo_a" "abbreviates ''sha256:a'' demo_b" "\<not> abbreviates ''sha256:a'' demo_c"
    "\<not> abbreviates ''sha256:a'' demo_d" by code_simp+
  have "set_Add demo_d NewSet = Ret (None, [entry_of demo_d])" "set_Add demo_a [entry_of demo_d] = Ret (None, ?e)"
    "set_Lookup ?e ''sha256:a'' = Ret (Inl ErrDigestNotFound)" by code_simp+
  moreover have "set_Add demo_a NewSet = Ret (None, [entry_of demo_a])"
    "set_Add demo_b [entry_of demo_a] = Ret (None, [entry_of demo_a, entry_of demo_b])"
    "set_Add demo_c [entry_of demo_a, entry_of demo_b] = Ret (None, ?f)"
    "set_Lookup ?f ''sha256:a'' = Ret (Inr demo_a)" by code_simp+
  moreover have "{x \<in> set (set_All ?e). abbreviates ''sha256:a'' x} = {demo_a}"
    "{x \<in> set (set_All ?f). abbreviates ''sha256:a'' x} = {demo_a, demo_b}"
    using ab by (auto simp: set_All_def)
  ultimately show ?thesis by simp
qed

end
