(* ===== verification/DeviceSet.thy ===== *)
theory DeviceSet
  imports GoFS
begin

text \<open>
  The part of \<open>daemon/graphdriver/devmapper/deviceset.go\<close> the migrator drives: looking a device
  up, activating it, mounting and unmounting it, and taking it down again.

  The kernel side is a table of mounts, the set of active device nodes and the set of nodes
  whose removal is deferred.  Each call into \<open>libdevmapper\<close> or \<open>mount(2)\<close> first asks \<open>ds_faults\<close>,
  an arbitrary function, whether it fails; the retries of \<open>removeDevice\<close> and
  \<open>cancelDeferredRemoval\<close> ask it with the number of the attempt.  \<open>ds_stored\<close> is what
  \<open>loadMetadata\<close> finds on disk, \<open>ds_content\<close> the files each device holds.
\<close>

definition ErrBusy :: err where "ErrBusy = EOther 16"
definition ErrEnxio :: err where "ErrEnxio = EOther 6"

text \<open>The fields of \<open>devInfo\<close> these operations read and write.\<close>

record devInfo =
  di_Deleted :: bool
  di_mountCount :: int
  di_mountPath :: string

datatype dmop =
    DmGetInfo | DmActivate | DmProbe | DmMount | DmUnmount | DmRemove nat | DmRemoveDeferred
  | DmGetDeferred | DmCancel nat

record device_set =
  ds_Devices :: "(string \<times> devInfo) list"
  ds_stored :: "string \<Rightarrow> devInfo option"
  ds_deferredRemove :: bool
  ds_active :: "string list"
  ds_pending :: "string list"
  ds_kmounts :: "(string \<times> string) list"
  ds_content :: "(string \<times> (string \<times> node) list) list"
  ds_faults :: "dmop \<Rightarrow> string \<Rightarrow> err option"

section \<open>Looking up and activating\<close>

definition lookupDevice :: "string \<Rightarrow> device_set \<Rightarrow> devInfo res \<times> device_set" where
  "lookupDevice hash ds =
     (case map_of (ds_Devices ds) hash of
        Some info \<Rightarrow> (Inr info, ds)
      | None \<Rightarrow>
          (case ds_stored ds hash of
             None \<Rightarrow> (Inl (ErrText (''devmapper: Unknown device '' @ hash)), ds)
           | Some info \<Rightarrow> (Inr info, ds\<lparr>ds_Devices := AList.update hash info (ds_Devices ds)\<rparr>)))"

definition set_info :: "string \<Rightarrow> devInfo \<Rightarrow> device_set \<Rightarrow> device_set" where
  "set_info hash info ds = ds\<lparr>ds_Devices := AList.update hash info (ds_Devices ds)\<rparr>"

text \<open>Up to \<open>n\<close> attempts at a call that may be busy; the last error is returned.\<close>

fun retry_busy :: "nat \<Rightarrow> nat \<Rightarrow> (nat \<Rightarrow> err option) \<Rightarrow> err option" where
  "retry_busy 0 i f = Some ErrBusy"
| "retry_busy (Suc n) i f =
     (case f i of
        None \<Rightarrow> None
      | Some e \<Rightarrow> if e \<noteq> ErrBusy then Some e else retry_busy n (Suc i) f)"

definition cancelDeferredRemoval :: "string \<Rightarrow> device_set \<Rightarrow> err option \<times> device_set" where
  "cancelDeferredRemoval hash ds =
     (if \<not> ds_deferredRemove ds then (None, ds)
      else if ds_faults ds DmGetDeferred hash = None \<and> hash \<notin> set (ds_pending ds) then (None, ds)
      else
        (case retry_busy 100 0 (\<lambda>i. ds_faults ds (DmCancel i) hash) of
           None \<Rightarrow> (None, ds\<lparr>ds_pending := removeAll hash (ds_pending ds)\<rparr>)
         | Some e \<Rightarrow> if e = ErrEnxio then (None, ds) else (Some e, ds)))"

definition activateDeviceIfNeeded ::
  "string \<Rightarrow> devInfo \<Rightarrow> bool \<Rightarrow> device_set \<Rightarrow> err option \<times> device_set" where
  "activateDeviceIfNeeded hash info ignoreDeleted ds =
     (if di_Deleted info \<and> \<not> ignoreDeleted then
        (Some (ErrText ''devmapper: Can't activate device as it is marked for deletion''), ds)
      else
        (case cancelDeferredRemoval hash ds of
           (Some e, ds1) \<Rightarrow> (Some (ErrText ''devmapper: Device Deferred Removal Cancellation Failed''), ds1)
         | (None, ds1) \<Rightarrow>
             if ds_faults ds1 DmGetInfo hash = None \<and> hash \<in> set (ds_active ds1) then (None, ds1)
             else
               (case ds_faults ds1 DmActivate hash of
                  Some e \<Rightarrow> (Some e, ds1)
                | None \<Rightarrow> (None, ds1\<lparr>ds_active := List.insert hash (ds_active ds1)\<rparr>))))"

section \<open>Mounting\<close>

text \<open>\<open>mount(2)\<close> pushes an entry; \<open>umount2\<close> with \<open>MNT_DETACH\<close> removes the topmost one.\<close>

definition kmount :: "string \<Rightarrow> string \<Rightarrow> device_set \<Rightarrow> device_set" where
  "kmount path hash ds = ds\<lparr>ds_kmounts := (path, hash) # ds_kmounts ds\<rparr>"

text \<open>
  \<open>mount.Mount\<close> of \<open>pkg/mount\<close>: a path that is mounted already is left as it is, without an error.  Reading
  the table of mounts and the system call fail as one.
\<close>

definition mount_Mount :: "string \<Rightarrow> string \<Rightarrow> device_set \<Rightarrow> device_set" where
  "mount_Mount path hash ds = (if path \<in> fst ` set (ds_kmounts ds) then ds else kmount path hash ds)"

fun remove_first :: "string \<Rightarrow> (string \<times> string) list \<Rightarrow> (string \<times> string) list" where
  "remove_first p [] = []"
| "remove_first p (m # ms) = (if fst m = p then ms else m # remove_first p ms)"

definition kumount :: "string \<Rightarrow> device_set \<Rightarrow> err option \<times> device_set" where
  "kumount path ds =
     (case ds_faults ds DmUnmount path of
        Some e \<Rightarrow> (Some e, ds)
      | None \<Rightarrow>
          if path \<in> fst ` set (ds_kmounts ds)
          then (None, ds\<lparr>ds_kmounts := remove_first path (ds_kmounts ds)\<rparr>)
          else (Some (EOther 22), ds))"

definition MountDevice :: "string \<Rightarrow> string \<Rightarrow> device_set \<Rightarrow> err option \<times> device_set" where
  "MountDevice hash path ds =
     (case lookupDevice hash ds of
        (Inl e, ds1) \<Rightarrow> (Some e, ds1)
      | (Inr info, ds1) \<Rightarrow>
          if di_Deleted info then
            (Some (ErrText ''devmapper: Can't mount device as it has been marked for deferred deletion''), ds1)
          else if di_mountCount info > 0 then
            (if path \<noteq> di_mountPath info then
               (Some (ErrText ''devmapper: Trying to mount devmapper device in multiple places''), ds1)
             else (None, set_info hash (info\<lparr>di_mountCount := di_mountCount info + 1\<rparr>) ds1))
          else
            (case activateDeviceIfNeeded hash info False ds1 of
               (Some e, ds2) \<Rightarrow> (Some (ErrText ''devmapper: Error activating devmapper device''), ds2)
             | (None, ds2) \<Rightarrow>
                 (case ds_faults ds2 DmProbe hash of
                    Some e \<Rightarrow> (Some e, ds2)
                  | None \<Rightarrow>
                      (case ds_faults ds2 DmMount path of
                         Some e \<Rightarrow> (Some (ErrText ''devmapper: Error mounting''), ds2)
                       | None \<Rightarrow>
                           (None, set_info hash (info\<lparr>di_mountCount := 1, di_mountPath := path\<rparr>)
                                    (mount_Mount path hash ds2))))))"

definition removeDevice :: "string \<Rightarrow> device_set \<Rightarrow> err option \<times> device_set" where
  "removeDevice hash ds =
     (case retry_busy 200 0 (\<lambda>i. ds_faults ds (DmRemove i) hash) of
        Some e \<Rightarrow> (Some e, ds)
      | None \<Rightarrow> (None, ds\<lparr>ds_active := removeAll hash (ds_active ds)\<rparr>))"

definition deactivateDevice :: "string \<Rightarrow> device_set \<Rightarrow> err option \<times> device_set" where
  "deactivateDevice hash ds =
     (case ds_faults ds DmGetInfo hash of
        Some e \<Rightarrow> (Some e, ds)
      | None \<Rightarrow>
          if hash \<notin> set (ds_active ds) then (None, ds)
          else if ds_deferredRemove ds then
            (case ds_faults ds DmRemoveDeferred hash of
               Some e \<Rightarrow> (Some e, ds)
             | None \<Rightarrow> (None, ds\<lparr>ds_pending := List.insert hash (ds_pending ds)\<rparr>))
          else removeDevice hash ds)"

definition UnmountDevice :: "string \<Rightarrow> string \<Rightarrow> device_set \<Rightarrow> err option \<times> device_set" where
  "UnmountDevice hash mountPath ds =
     (case lookupDevice hash ds of
        (Inl e, ds1) \<Rightarrow> (Some e, ds1)
      | (Inr info, ds1) \<Rightarrow>
          (let n = di_mountCount info - 1
           in if n > 0 then (None, set_info hash (info\<lparr>di_mountCount := n\<rparr>) ds1)
              else
                (let info1 = info\<lparr>di_mountCount := (if n < 0 then 0 else n)\<rparr>
                 in case kumount mountPath (set_info hash info1 ds1) of
                      (Some e, ds2) \<Rightarrow> (Some e, ds2)
                    | (None, ds2) \<Rightarrow>
                        (case deactivateDevice hash ds2 of
                           (Some e, ds3) \<Rightarrow> (Some e, ds3)
                         | (None, ds3) \<Rightarrow> (None, set_info hash (info1\<lparr>di_mountPath := []\<rparr>) ds3)))))"

section \<open>What mounting and unmounting do\<close>

lemma lookupDevice_frame:
  "lookupDevice hash ds = (r, ds') \<Longrightarrow>
     ds_kmounts ds' = ds_kmounts ds \<and> ds_content ds' = ds_content ds \<and> ds_faults ds' = ds_faults ds \<and>
     ds_stored ds' = ds_stored ds \<and>
     (\<forall>h. h \<noteq> hash \<longrightarrow> map_of (ds_Devices ds') h = map_of (ds_Devices ds) h)"
  by (auto simp: lookupDevice_def split: option.splits)

lemma lookupDevice_Inr:
  "lookupDevice hash ds = (Inr info, ds') \<Longrightarrow> map_of (ds_Devices ds') hash = Some info"
  by (auto simp: lookupDevice_def split: option.splits)

lemma activate_frame:
  "activateDeviceIfNeeded hash info ig ds = (r, ds') \<Longrightarrow>
     ds_kmounts ds' = ds_kmounts ds \<and> ds_content ds' = ds_content ds \<and> ds_faults ds' = ds_faults ds \<and>
     ds_Devices ds' = ds_Devices ds \<and> ds_stored ds' = ds_stored ds"
  by (auto simp: activateDeviceIfNeeded_def cancelDeferredRemoval_def
      split: if_splits prod.splits option.splits)

lemma deactivate_frame:
  "deactivateDevice hash ds = (r, ds') \<Longrightarrow>
     ds_kmounts ds' = ds_kmounts ds \<and> ds_content ds' = ds_content ds \<and> ds_faults ds' = ds_faults ds \<and>
     ds_Devices ds' = ds_Devices ds \<and> ds_stored ds' = ds_stored ds"
  by (auto simp: deactivateDevice_def removeDevice_def split: if_splits prod.splits option.splits)

text \<open>
  A device's mount count as the driver sees it: unknown devices count 0 unless their stored
  record says otherwise.
\<close>

definition mount_count :: "device_set \<Rightarrow> string \<Rightarrow> int" where
  "mount_count ds h =
     (case map_of (ds_Devices ds) h of
        Some info \<Rightarrow> di_mountCount info
      | None \<Rightarrow> (case ds_stored ds h of Some info \<Rightarrow> di_mountCount info | None \<Rightarrow> 0))"

lemma mount_count_set_info [simp]:
  "mount_count (set_info h i ds) = (mount_count ds)(h := di_mountCount i)"
  by (rule ext) (auto simp: mount_count_def set_info_def split: option.split)

lemma lookup_count:
  "lookupDevice h ds = (Inr info, ds') \<Longrightarrow>
     mount_count ds' = mount_count ds \<and> mount_count ds h = di_mountCount info"
  by (cases "map_of (ds_Devices ds) h"; cases "ds_stored ds h")
    (auto simp: lookupDevice_def mount_count_def intro!: ext split: option.split)

lemma lookup_count_Inl: "lookupDevice h ds = (Inl e, ds') \<Longrightarrow> ds' = ds \<and> mount_count ds h = 0"
  by (auto simp: lookupDevice_def mount_count_def split: option.splits)

lemma kmounts_set_info [simp]:
  "ds_kmounts (set_info h i ds) = ds_kmounts ds" "ds_faults (set_info h i ds) = ds_faults ds"
  "ds_content (set_info h i ds) = ds_content ds"
  by (simp_all add: set_info_def)

lemma kmount_fields [simp]:
  "ds_kmounts (kmount p h ds) = (p, h) # ds_kmounts ds" "ds_faults (kmount p h ds) = ds_faults ds"
  "ds_content (kmount p h ds) = ds_content ds"
  by (simp_all add: kmount_def)

lemma mount_count_kmount [simp]: "mount_count (kmount p h ds) = mount_count ds"
  by (rule ext) (simp add: mount_count_def kmount_def split: option.split)

lemma mount_count_activate:
  "activateDeviceIfNeeded h info ig ds = (r, ds') \<Longrightarrow> mount_count ds' = mount_count ds"
  by (drule activate_frame) (auto simp: mount_count_def intro!: ext split: option.split)

lemma mount_count_deactivate:
  "deactivateDevice h ds = (r, ds') \<Longrightarrow> mount_count ds' = mount_count ds"
  by (drule deactivate_frame) (auto simp: mount_count_def intro!: ext split: option.split)

lemma mount_count_kmounts [simp]: "mount_count (ds\<lparr>ds_kmounts := ms\<rparr>) = mount_count ds"
  by (rule ext) (simp add: mount_count_def split: option.split)

lemma mount_Mount_fields [simp]:
  "ds_faults (mount_Mount p h ds) = ds_faults ds" "ds_content (mount_Mount p h ds) = ds_content ds"
  "mount_count (mount_Mount p h ds) = mount_count ds"
  "ds_kmounts (mount_Mount p h ds) = (if p \<in> fst ` set (ds_kmounts ds) then [] else [(p, h)]) @ ds_kmounts ds"
  by (simp_all add: mount_Mount_def)

text \<open>
  The first mount of a device at a path that is free: one kernel mount more and a count of one, or no
  change of either.
\<close>

lemma MountDevice_first:
  assumes "MountDevice h p ds = (r, ds')" and "mount_count ds h = 0" and "p \<notin> fst ` set (ds_kmounts ds)"
  shows "ds_faults ds' = ds_faults ds" and "ds_content ds' = ds_content ds"
    and "r = None \<Longrightarrow> ds_kmounts ds' = (p, h) # ds_kmounts ds \<and> mount_count ds' = (mount_count ds)(h := 1)"
    and "r \<noteq> None \<Longrightarrow> ds_kmounts ds' = ds_kmounts ds \<and> mount_count ds' = mount_count ds"
proof -
  obtain q ds1 where l: "lookupDevice h ds = (q, ds1)" by fastforce
  note lf = lookupDevice_frame [OF l]
  have "ds_faults ds' = ds_faults ds \<and> ds_content ds' = ds_content ds \<and>
    (r = None \<longrightarrow> ds_kmounts ds' = (p, h) # ds_kmounts ds \<and> mount_count ds' = (mount_count ds)(h := 1)) \<and>
    (r \<noteq> None \<longrightarrow> ds_kmounts ds' = ds_kmounts ds \<and> mount_count ds' = mount_count ds)"
  proof (cases q)
    case (Inl e)
    with assms l lookup_count_Inl [of h ds e ds1] show ?thesis by (auto simp: MountDevice_def)
  next
    case (Inr info)
    with l have c: "mount_count ds1 = mount_count ds" "di_mountCount info = 0"
      using lookup_count [of h ds info ds1] assms(2) by auto
    obtain a ds2 where a: "activateDeviceIfNeeded h info False ds1 = (a, ds2)" by fastforce
    note af = activate_frame [OF a] and ac = mount_count_activate [OF a]
    show ?thesis
    proof (cases "di_Deleted info \<or> a \<noteq> None")
      case True
      with assms(1) l Inr c a have "r \<noteq> None \<and> (ds' = ds1 \<or> ds' = ds2)"
        by (cases "di_Deleted info"; cases a) (auto simp add: MountDevice_def)
      with c(1) af ac lf show ?thesis by auto
    next
      case False
      with assms(1) l Inr c a have "(case ds_faults ds2 DmProbe h of Some e \<Rightarrow> (Some e, ds2)
          | None \<Rightarrow> (case ds_faults ds2 DmMount p of
               Some e \<Rightarrow> (Some (ErrText ''devmapper: Error mounting''), ds2)
             | None \<Rightarrow> (None, set_info h (info\<lparr>di_mountCount := 1, di_mountPath := p\<rparr>) (mount_Mount p h ds2)))) = (r, ds')"
        by (simp add: MountDevice_def)
      then have "(r \<noteq> None \<and> ds' = ds2) \<or>
          (r = None \<and> ds' = set_info h (info\<lparr>di_mountCount := 1, di_mountPath := p\<rparr>) (mount_Mount p h ds2))"
        by (auto split: option.splits)
      then show ?thesis using c(1) af ac lf assms(3) by (elim disjE conjE) simp_all
    qed
  qed
  then show "ds_faults ds' = ds_faults ds" and "ds_content ds' = ds_content ds"
    and "r = None \<Longrightarrow> ds_kmounts ds' = (p, h) # ds_kmounts ds \<and> mount_count ds' = (mount_count ds)(h := 1)"
    and "r \<noteq> None \<Longrightarrow> ds_kmounts ds' = ds_kmounts ds \<and> mount_count ds' = mount_count ds"
    by blast+
qed

text \<open>The last unmount: the count is zero afterwards, whatever fails.\<close>

lemma UnmountDevice_last:
  assumes "UnmountDevice h p ds = (r, ds')" and "mount_count ds h = 1"
  shows "ds_faults ds' = ds_faults ds" and "ds_content ds' = ds_content ds"
    and "mount_count ds' = (mount_count ds)(h := 0)"
    and "ds_faults ds DmUnmount p = None \<Longrightarrow> p \<in> fst ` set (ds_kmounts ds) \<Longrightarrow>
           ds_kmounts ds' = remove_first p (ds_kmounts ds)"
    and "ds_faults ds DmUnmount p \<noteq> None \<Longrightarrow> r \<noteq> None \<and> ds_kmounts ds' = ds_kmounts ds"
proof -
  obtain q ds1 where l: "lookupDevice h ds = (q, ds1)" by fastforce
  note lf = lookupDevice_frame [OF l]
  from l assms(2) lookup_count_Inl [of h ds _ ds1] obtain info where q: "q = Inr info"
    by (cases q) auto
  with l have c: "mount_count ds1 = mount_count ds" "di_mountCount info = 1"
    using lookup_count [of h ds info ds1] assms(2) by auto
  let ?i = "info\<lparr>di_mountCount := 0\<rparr>"
  obtain k ds2 where k: "kumount p (set_info h ?i ds1) = (k, ds2)" by fastforce
  have kf: "ds_faults ds2 = ds_faults ds" "ds_content ds2 = ds_content ds"
    "mount_count ds2 = (mount_count ds)(h := 0)"
    "ds_kmounts ds2 = (if k = None then remove_first p (ds_kmounts ds) else ds_kmounts ds)"
    "k = None \<longleftrightarrow> ds_faults ds DmUnmount p = None \<and> p \<in> fst ` set (ds_kmounts ds)"
    using k lf c by (auto simp: kumount_def mount_count_kmounts split: option.splits if_splits)
  obtain d ds3 where d: "deactivateDevice h ds2 = (d, ds3)" by fastforce
  note df = deactivate_frame [OF d] and dc = mount_count_deactivate [OF d]
  have res: "k \<noteq> None \<Longrightarrow> r = k \<and> ds' = ds2"
    "k = None \<Longrightarrow> d \<noteq> None \<Longrightarrow> r = d \<and> ds' = ds3"
    "k = None \<Longrightarrow> d = None \<Longrightarrow> r = None \<and> ds' = set_info h (?i\<lparr>di_mountPath := []\<rparr>) ds3"
    using assms(1) l q c k d by (auto simp: UnmountDevice_def Let_def)
  have core: "ds_faults ds' = ds_faults ds \<and> ds_content ds' = ds_content ds \<and>
      mount_count ds' = (mount_count ds)(h := 0) \<and> ds_kmounts ds' = ds_kmounts ds2 \<and> (k \<noteq> None \<longrightarrow> r \<noteq> None)"
  proof (cases "k = None")
    case False
    with res(1) kf(1-3) show ?thesis by blast
  next
    case True
    show ?thesis
    proof (cases "d = None")
      case T: True
      from res(3) [OF True T] df dc kf(1-3) True show ?thesis by simp
    next
      case F: False
      from res(2) [OF True F] df dc kf(1-3) True show ?thesis by simp
    qed
  qed
  then show "ds_faults ds' = ds_faults ds" and "ds_content ds' = ds_content ds"
    and "mount_count ds' = (mount_count ds)(h := 0)" by blast+
  from core kf(4,5) show "ds_faults ds DmUnmount p = None \<Longrightarrow> p \<in> fst ` set (ds_kmounts ds) \<Longrightarrow>
           ds_kmounts ds' = remove_first p (ds_kmounts ds)" by simp
  from core kf(4,5) show "ds_faults ds DmUnmount p \<noteq> None \<Longrightarrow> r \<noteq> None \<and> ds_kmounts ds' = ds_kmounts ds"
    by auto
qed

end
