(* ===== verification/Mounters.thy ===== *)
theory Mounters
  imports DeviceSet
begin

text \<open>
  The storage drivers of the migrator (\<open>aufs.go\<close>, \<open>btrfs.go\<close>, \<open>overlay.go\<close>, \<open>vfs.go\<close>,
  \<open>devicemapper.go\<close>) behind the interface \<open>Mounter\<close> of \<open>checksums.go\<close>.

  A driver acts on a \<open>world\<close>: the file system, the driver's own table of mounts (devicemapper
  only) and the device set.  Where a device is mounted, paths below the mount point show the
  files of the device.  The package \<open>docker/pkg/archive\<close>, which makes tar streams and computes
  the changes between two directories, is an argument \<open>ar\<close> of the definitions.
\<close>

section \<open>The world the drivers act on\<close>

record mount =
  activity :: int
  mnt_path :: string

record world =
  wfs :: fs
  w_mounts :: "(string \<times> mount) list"
  w_devs :: device_set

definition EBUSY :: err where "EBUSY = EOther 16"

text \<open>The mount a path lies on: the most recent one at or above it.\<close>

definition mounted_at :: "device_set \<Rightarrow> string \<Rightarrow> (string \<times> string) option" where
  "mounted_at ds p = find (\<lambda>m. below (fst m) p) (ds_kmounts ds)"

definition device_node :: "device_set \<Rightarrow> string \<Rightarrow> string \<Rightarrow> node option" where
  "device_node ds hash rel =
     (if rel = [] then Some Dir
      else case map_of (ds_content ds) hash of None \<Rightarrow> None | Some files \<Rightarrow> map_of files rel)"

definition w_node_at :: "world \<Rightarrow> string \<Rightarrow> node option" where
  "w_node_at w p =
     (case mounted_at (w_devs w) p of
        None \<Rightarrow> node_at (wfs w) p
      | Some (mp, hash) \<Rightarrow> device_node (w_devs w) hash (drop (length mp) p))"

definition w_Lstat :: "world \<Rightarrow> string \<Rightarrow> node res" where
  "w_Lstat w p =
     (case faults (wfs w) OpLstat p of
        Some e \<Rightarrow> Inl e
      | None \<Rightarrow> (case w_node_at w p of None \<Rightarrow> Inl ENOENT | Some n \<Rightarrow> Inr n))"

fun w_resolve :: "nat \<Rightarrow> world \<Rightarrow> string \<Rightarrow> string res" where
  "w_resolve n w p =
     (case w_node_at w p of
        Some (Symlink t) \<Rightarrow>
          (case n of
             0 \<Rightarrow> Inl ELOOP
           | Suc m \<Rightarrow> w_resolve m w (if rooted t then Clean t else Join [path_Dir p, t]))
      | _ \<Rightarrow> Inr p)"

declare w_resolve.simps [simp del]

text \<open>\<open>os.Open\<close> and reading the file to its end.\<close>

definition w_open :: "world \<Rightarrow> string \<Rightarrow> stream res" where
  "w_open w p =
     (case faults (wfs w) OpOpen p of
        Some e \<Rightarrow> Inl e
      | None \<Rightarrow>
          (case w_resolve 40 w p of
             Inl e \<Rightarrow> Inl e
           | Inr q \<Rightarrow>
               (case w_node_at w q of
                  None \<Rightarrow> Inl ENOENT
                | Some n \<Rightarrow>
                    Inr (case faults (wfs w) OpRead p of
                           Some e \<Rightarrow> ([], Some e)
                         | None \<Rightarrow>
                             (case n of
                                Reg b \<Rightarrow> (blob_bytes (wfs w) b, None)
                              | _ \<Rightarrow> ([], Some EISDIR))))))"

text \<open>
  \<open>os.RemoveAll\<close> of a mount point empties the device mounted there and then fails, the
  directory being busy.
\<close>

definition w_RemoveAll :: "string \<Rightarrow> world \<Rightarrow> unit res \<times> world" where
  "w_RemoveAll p w =
     (case mounted_at (w_devs w) p of
        Some (mp, hash) \<Rightarrow>
          (case faults (wfs w) OpRemoveAll p of
             Some e \<Rightarrow> (Inl e, w)
           | None \<Rightarrow>
               (Inl EBUSY,
                w\<lparr>w_devs := (w_devs w)\<lparr>ds_content :=
                     map (\<lambda>(h, files). (h, if h = hash
                            then filter (\<lambda>f. \<not> below (drop (length mp) p) (fst f)) files else files))
                       (ds_content (w_devs w))\<rparr>\<rparr>))
      | None \<Rightarrow> (let (r, s) = os_RemoveAll p (wfs w) in (r, w\<lparr>wfs := s\<rparr>)))"

section \<open>The interface Mounter (checksums.go)\<close>

type_synonym release = "world \<Rightarrow> world outcome"

record mounter =
  Mount :: "string \<Rightarrow> world \<Rightarrow> (string \<times> release option) res \<times> world"
  TarStream :: "string \<Rightarrow> string \<Rightarrow> world \<Rightarrow> ((stream \<times> release) res \<times> world) outcome"

text \<open>The functions of \<open>docker/pkg/archive\<close> the drivers call.\<close>

record 'c archiver =
  TarWithOptions :: "world \<Rightarrow> string \<Rightarrow> string list \<Rightarrow> stream res"
  ChangesDirs :: "world \<Rightarrow> string \<Rightarrow> string \<Rightarrow> 'c res"
  ExportChanges :: "world \<Rightarrow> string \<Rightarrow> 'c \<Rightarrow> stream res"

definition archive_Tar :: "'c archiver \<Rightarrow> world \<Rightarrow> string \<Rightarrow> stream res" where
  "archive_Tar ar w path = TarWithOptions ar w path []"

text \<open>\<open>Diff\<close> of \<open>overlay.go\<close>.\<close>

definition Diff :: "'c archiver \<Rightarrow> world \<Rightarrow> string \<Rightarrow> string \<Rightarrow> stream res" where
  "Diff ar w mainPath parentPath =
     (case ChangesDirs ar w mainPath parentPath of
        Inl e \<Rightarrow> Inl e
      | Inr changes \<Rightarrow> ExportChanges ar w mainPath changes)"

text \<open>A stream whose \<open>Close\<close> only closes the archive.\<close>

definition plain_stream :: "stream res \<Rightarrow> (stream \<times> release) res" where
  "plain_stream r = map_sum id (\<lambda>st. (st, Ret)) r"

section \<open>aufs.go\<close>

definition aufs_Mount :: "string \<Rightarrow> string \<Rightarrow> world \<Rightarrow> (string \<times> release option) res \<times> world" where
  "aufs_Mount root gid w =
     (let path = Join [root, ''diff'', gid]
      in case w_Lstat w path of
           Inl e \<Rightarrow> (Inl e, w)
         | Inr _ \<Rightarrow> (Inr (path, None), w))"

definition WhiteoutMetaPrefix :: string where "WhiteoutMetaPrefix = ''.wh..wh.''"
definition WhiteoutOpaqueDir :: string where "WhiteoutOpaqueDir = ''.wh..wh..opq''"

definition aufs_TarStream ::
  "'c archiver \<Rightarrow> string \<Rightarrow> string \<Rightarrow> string \<Rightarrow> world \<Rightarrow> ((stream \<times> release) res \<times> world) outcome" where
  "aufs_TarStream ar root gid parent w =
     (case aufs_Mount root gid w of
        (Inl e, w1) \<Rightarrow> Ret (Inl e, w1)
      | (Inr (path, _), w1) \<Rightarrow>
          Ret (plain_stream (TarWithOptions ar w1 path [WhiteoutMetaPrefix @ ''*'', ''!'' @ WhiteoutOpaqueDir]), w1))"

definition NewAufsChecksums :: "'c archiver \<Rightarrow> string \<Rightarrow> mounter" where
  "NewAufsChecksums ar root = \<lparr>Mount = aufs_Mount root, TarStream = aufs_TarStream ar root\<rparr>"

section \<open>btrfs.go\<close>

definition btrfs_Mount :: "string \<Rightarrow> string \<Rightarrow> world \<Rightarrow> (string \<times> release option) res \<times> world" where
  "btrfs_Mount root gid w =
     (let path = Join [root, ''subvolumes'', gid]
      in case w_Lstat w path of
           Inl e \<Rightarrow> (Inl e, w)
         | Inr _ \<Rightarrow> (Inr (path, None), w))"

definition btrfs_TarStream ::
  "'c archiver \<Rightarrow> string \<Rightarrow> string \<Rightarrow> string \<Rightarrow> world \<Rightarrow> ((stream \<times> release) res \<times> world) outcome" where
  "btrfs_TarStream ar root gid parent w =
     (case btrfs_Mount root gid w of
        (Inl e, w1) \<Rightarrow> Ret (Inl e, w1)
      | (Inr (mainPath, _), w1) \<Rightarrow>
          if parent = [] then Ret (plain_stream (archive_Tar ar w1 mainPath), w1)
          else
            (case btrfs_Mount root parent w1 of
               (Inl e, w2) \<Rightarrow> Ret (Inl e, w2)
             | (Inr (parentPath, _), w2) \<Rightarrow> Ret (plain_stream (Diff ar w2 mainPath parentPath), w2)))"

definition NewBtrfsChecksums :: "'c archiver \<Rightarrow> string \<Rightarrow> mounter" where
  "NewBtrfsChecksums ar root = \<lparr>Mount = btrfs_Mount root, TarStream = btrfs_TarStream ar root\<rparr>"

section \<open>overlay.go\<close>

definition overlay_Mount :: "string \<Rightarrow> string \<Rightarrow> world \<Rightarrow> (string \<times> release option) res \<times> world" where
  "overlay_Mount root gid w =
     (let path = Join [root, gid, ''root'']
      in case w_Lstat w path of
           Inl e \<Rightarrow> (Inl e, w)
         | Inr _ \<Rightarrow> (Inr (path, None), w))"

definition overlay_TarStream ::
  "'c archiver \<Rightarrow> string \<Rightarrow> string \<Rightarrow> string \<Rightarrow> world \<Rightarrow> ((stream \<times> release) res \<times> world) outcome" where
  "overlay_TarStream ar root gid parent w =
     (case overlay_Mount root gid w of
        (Inl e, w1) \<Rightarrow> Ret (Inl e, w1)
      | (Inr (mainPath, _), w1) \<Rightarrow>
          if parent = [] then Ret (plain_stream (archive_Tar ar w1 mainPath), w1)
          else
            (case overlay_Mount root parent w1 of
               (Inl e, w2) \<Rightarrow> Ret (Inl e, w2)
             | (Inr (parentPath, _), w2) \<Rightarrow> Ret (plain_stream (Diff ar w2 mainPath parentPath), w2)))"

definition NewOverlayChecksums :: "'c archiver \<Rightarrow> string \<Rightarrow> mounter" where
  "NewOverlayChecksums ar root = \<lparr>Mount = overlay_Mount root, TarStream = overlay_TarStream ar root\<rparr>"

section \<open>vfs.go\<close>

definition vfs_Mount :: "string \<Rightarrow> string \<Rightarrow> world \<Rightarrow> (string \<times> release option) res \<times> world" where
  "vfs_Mount root gid w =
     (let path = Join [root, ''dir'', gid]
      in case w_Lstat w path of
           Inl e \<Rightarrow> (Inl e, w)
         | Inr _ \<Rightarrow> (Inr (path, None), w))"

definition vfs_TarStream ::
  "'c archiver \<Rightarrow> string \<Rightarrow> string \<Rightarrow> string \<Rightarrow> world \<Rightarrow> ((stream \<times> release) res \<times> world) outcome" where
  "vfs_TarStream ar root gid parent w =
     (case vfs_Mount root gid w of
        (Inl e, w1) \<Rightarrow> Ret (Inl e, w1)
      | (Inr (mainPath, _), w1) \<Rightarrow>
          if parent = [] then Ret (plain_stream (archive_Tar ar w1 mainPath), w1)
          else
            (case vfs_Mount root parent w1 of
               (Inl e, w2) \<Rightarrow> Ret (Inl e, w2)
             | (Inr (parentPath, _), w2) \<Rightarrow> Ret (plain_stream (Diff ar w2 mainPath parentPath), w2)))"

definition NewVfsChecksums :: "'c archiver \<Rightarrow> string \<Rightarrow> mounter" where
  "NewVfsChecksums ar root = \<lparr>Mount = vfs_Mount root, TarStream = vfs_TarStream ar root\<rparr>"

section \<open>devicemapper.go\<close>

definition w_TempDir :: "world \<Rightarrow> string res \<times> world" where
  "w_TempDir w = (let (r, s) = TempDir ''migrate-devicemapper'' (wfs w) in (r, w\<lparr>wfs := s\<rparr>))"

definition set_mount :: "string \<Rightarrow> mount \<Rightarrow> world \<Rightarrow> world" where
  "set_mount gid m w = w\<lparr>w_mounts := AList.update gid m (w_mounts w)\<rparr>"

text \<open>\<open>umount\<close>: an id with no entry is a nil pointer.\<close>

definition dm_umount :: "string \<Rightarrow> release" where
  "dm_umount gid w =
     (case map_of (w_mounts w) gid of
        None \<Rightarrow> Panic ''nil pointer dereference''
      | Some m \<Rightarrow>
          (let m1 = m\<lparr>activity := activity m - 1\<rparr>; w1 = set_mount gid m1 w
           in if activity m1 = 0 then
                (let (_, ds) = UnmountDevice gid (mnt_path m1) (w_devs w1);
                     (_, w2) = w_RemoveAll (mnt_path m1) (w1\<lparr>w_devs := ds\<rparr>)
                 in Ret (w2\<lparr>w_mounts := AList.delete gid (w_mounts w2)\<rparr>))
              else Ret w1))"

text \<open>The entry of \<open>c.mounts\<close>, made with a new temporary directory when it is missing.\<close>

definition dm_entry :: "string \<Rightarrow> world \<Rightarrow> mount res \<times> world" where
  "dm_entry gid w =
     (case map_of (w_mounts w) gid of
        Some m \<Rightarrow> (Inr m, w)
      | None \<Rightarrow>
          (case w_TempDir w of
             (Inl e, w1) \<Rightarrow> (Inl e, w1)
           | (Inr tmpdir, w1) \<Rightarrow>
               (let m = \<lparr>activity = 0, mnt_path = tmpdir\<rparr> in (Inr m, set_mount gid m w1))))"

definition dm_attach :: "string \<Rightarrow> mount \<Rightarrow> world \<Rightarrow> err option \<times> world" where
  "dm_attach gid m w =
     (if activity m = 0 then
        (let (r, ds) = MountDevice gid (mnt_path m) (w_devs w)
         in (map_option (\<lambda>_. ErrText ''Can't create snap device'') r, w\<lparr>w_devs := ds\<rparr>))
      else (None, w))"

definition dm_Mount :: "string \<Rightarrow> world \<Rightarrow> (string \<times> release option) res \<times> world" where
  "dm_Mount gid w =
     (case dm_entry gid w of
        (Inl e, w1) \<Rightarrow> (Inl e, w1)
      | (Inr m, w1) \<Rightarrow>
          (case dm_attach gid m w1 of
             (Some e, w2) \<Rightarrow> (Inl e, w2)
           | (None, w2) \<Rightarrow>
               (let m1 = m\<lparr>activity := activity m + 1\<rparr>; w3 = set_mount gid m1 w2;
                    path = Join [mnt_path m1, ''rootfs'']
                in case w_Lstat w3 path of
                     Inr _ \<Rightarrow> (Inr (path, Some (dm_umount gid)), w3)
                   | Inl _ \<Rightarrow>
                       (case w_TempDir w3 of
                          (Inl e, w4) \<Rightarrow> (Inl e, w4)
                        | (Inr tmpdir, w4) \<Rightarrow> (Inr (tmpdir, Some (dm_umount gid)), w4)))))"

definition dm_TarStream ::
  "'c archiver \<Rightarrow> string \<Rightarrow> string \<Rightarrow> world \<Rightarrow> ((stream \<times> release) res \<times> world) outcome" where
  "dm_TarStream ar gid parent w =
     (case dm_Mount gid w of
        (Inl e, w1) \<Rightarrow> Ret (Inl e, w1)
      | (Inr (mainPath, _), w1) \<Rightarrow>
          if parent = [] then
            (case archive_Tar ar w1 mainPath of
               Inl e \<Rightarrow> Ret (Inl e, w1)
             | Inr tar \<Rightarrow> Ret (Inr (tar, dm_umount gid), w1))
          else
            (case dm_Mount parent w1 of
               (Inl e, w2) \<Rightarrow> bind_outcome (dm_umount gid w2) (\<lambda>w3. Ret (Inl e, w3))
             | (Inr (parentPath, _), w2) \<Rightarrow>
                 (case Diff ar w2 mainPath parentPath of
                    Inl e \<Rightarrow>
                      bind_outcome (dm_umount parent w2) (\<lambda>w3.
                      bind_outcome (dm_umount gid w3) (\<lambda>w4. Ret (Inl e, w4)))
                  | Inr tar \<Rightarrow>
                      Ret (Inr (tar, \<lambda>w3. bind_outcome (dm_umount parent w3) (dm_umount gid)), w2))))"


text \<open>
  \<open>NewDeviceSet\<close> opens the pool; it is an argument here, and its failure ends the program.  The new
  driver has an empty table of mounts.
\<close>

definition NewDevicemapperChecksums ::
  "(string \<Rightarrow> string list \<Rightarrow> device_set res) \<Rightarrow> 'c archiver \<Rightarrow> string \<Rightarrow> string list \<Rightarrow> world \<Rightarrow> (mounter \<times> world) res" where
  "NewDevicemapperChecksums newDeviceSet ar root opts w =
     (case newDeviceSet root opts of
        Inl e \<Rightarrow> Inl e
      | Inr devices \<Rightarrow>
          Inr (\<lparr>Mount = dm_Mount, TarStream = dm_TarStream ar\<rparr>, w\<lparr>w_devs := devices, w_mounts := []\<rparr>))"

section \<open>Drivers that leave the world alone\<close>

text \<open>
  What the four drivers without mount state promise: a layer is its directory below the driver's
  root, a mount holds no resource, and neither making nor closing a stream changes the world.
\<close>

locale readonly_driver =
  fixes layer_dir :: "string \<Rightarrow> string"
    and mnt :: "string \<Rightarrow> world \<Rightarrow> (string \<times> release option) res \<times> world"
    and ts :: "string \<Rightarrow> string \<Rightarrow> world \<Rightarrow> ((stream \<times> release) res \<times> world) outcome"
  assumes mnt_spec: "mnt gid w = (map_sum id (\<lambda>_. (layer_dir gid, None)) (w_Lstat w (layer_dir gid)), w)"
    and ts_spec: "\<exists>r. ts gid parent w = Ret (plain_stream r, w)"
begin

lemma mnt_Inr: "mnt gid w = (Inr (path, release), w1) \<Longrightarrow> w1 = w \<and> release = None \<and> path = layer_dir gid"
  by (cases "w_Lstat w (layer_dir gid)") (auto simp: mnt_spec)

lemma mnt_Inl: "mnt gid w = (Inl e, w1) \<longleftrightarrow> w1 = w \<and> w_Lstat w (layer_dir gid) = Inl e"
  by (cases "w_Lstat w (layer_dir gid)") (auto simp: mnt_spec)

lemma ts_Ret: "ts gid parent w = Ret (Inr (st, close), w1) \<Longrightarrow> w1 = w \<and> close = Ret"
proof -
  assume a: "ts gid parent w = Ret (Inr (st, close), w1)"
  obtain r where "ts gid parent w = Ret (plain_stream r, w)" using ts_spec by blast
  with a show ?thesis by (cases r) (auto simp: plain_stream_def)
qed

lemma ts_world: "ts gid parent w = Ret (r, w1) \<Longrightarrow> w1 = w"
  using ts_spec [of gid parent w] by auto

end

lemma plain_stream_Inl: "Inl e = plain_stream (Inl e)"
  by (simp add: plain_stream_def)

interpretation aufs: readonly_driver "\<lambda>gid. Join [root, ''diff'', gid]" "aufs_Mount root" "aufs_TarStream ar root"
proof
  show "aufs_Mount root gid w =
      (map_sum id (\<lambda>_. (Join [root, ''diff'', gid], None)) (w_Lstat w (Join [root, ''diff'', gid])), w)" for gid w
    by (simp add: aufs_Mount_def Let_def split: sum.split)
  show "\<exists>r. aufs_TarStream ar root gid parent w = Ret (plain_stream r, w)" for gid parent w
    by (auto simp: aufs_TarStream_def aufs_Mount_def Let_def intro: plain_stream_Inl split: sum.split)
qed

interpretation btrfs: readonly_driver "\<lambda>gid. Join [root, ''subvolumes'', gid]" "btrfs_Mount root" "btrfs_TarStream ar root"
proof
  show "btrfs_Mount root gid w =
      (map_sum id (\<lambda>_. (Join [root, ''subvolumes'', gid], None)) (w_Lstat w (Join [root, ''subvolumes'', gid])), w)"
    for gid w by (simp add: btrfs_Mount_def Let_def split: sum.split)
  show "\<exists>r. btrfs_TarStream ar root gid parent w = Ret (plain_stream r, w)" for gid parent w
  proof (cases "w_Lstat w (Join [root, ''subvolumes'', gid])")
    case (Inl e)
    then show ?thesis by (auto simp: btrfs_TarStream_def btrfs_Mount_def simp del: Join.simps intro: plain_stream_Inl)
  next
    case Inr
    then show ?thesis
      by (cases "w_Lstat w (Join [root, ''subvolumes'', parent])")
        (auto simp: btrfs_TarStream_def btrfs_Mount_def simp del: Join.simps intro: plain_stream_Inl)
  qed
qed

interpretation overlay: readonly_driver "\<lambda>gid. Join [root, gid, ''root'']" "overlay_Mount root" "overlay_TarStream ar root"
proof
  show "overlay_Mount root gid w =
      (map_sum id (\<lambda>_. (Join [root, gid, ''root''], None)) (w_Lstat w (Join [root, gid, ''root''])), w)" for gid w
    by (simp add: overlay_Mount_def Let_def split: sum.split)
  show "\<exists>r. overlay_TarStream ar root gid parent w = Ret (plain_stream r, w)" for gid parent w
  proof (cases "w_Lstat w (Join [root, gid, ''root''])")
    case (Inl e)
    then show ?thesis by (auto simp: overlay_TarStream_def overlay_Mount_def simp del: Join.simps intro: plain_stream_Inl)
  next
    case Inr
    then show ?thesis
      by (cases "w_Lstat w (Join [root, parent, ''root''])")
        (auto simp: overlay_TarStream_def overlay_Mount_def simp del: Join.simps intro: plain_stream_Inl)
  qed
qed

interpretation vfs: readonly_driver "\<lambda>gid. Join [root, ''dir'', gid]" "vfs_Mount root" "vfs_TarStream ar root"
proof
  show "vfs_Mount root gid w =
      (map_sum id (\<lambda>_. (Join [root, ''dir'', gid], None)) (w_Lstat w (Join [root, ''dir'', gid])), w)" for gid w
    by (simp add: vfs_Mount_def Let_def split: sum.split)
  show "\<exists>r. vfs_TarStream ar root gid parent w = Ret (plain_stream r, w)" for gid parent w
  proof (cases "w_Lstat w (Join [root, ''dir'', gid])")
    case (Inl e)
    then show ?thesis by (auto simp: vfs_TarStream_def vfs_Mount_def simp del: Join.simps intro: plain_stream_Inl)
  next
    case Inr
    then show ?thesis
      by (cases "w_Lstat w (Join [root, ''dir'', parent])")
        (auto simp: vfs_TarStream_def vfs_Mount_def simp del: Join.simps intro: plain_stream_Inl)
  qed
qed

end
