(* ===== verification/Devicemapper.thy ===== *)
theory Devicemapper
  imports Mounters
begin

text \<open>
  The reference counts of \<open>devicemapper.go\<close>.  \<open>Mount\<close> and \<open>umount\<close> hold the driver's lock from
  start to end, so the concurrent workers of the migration interleave whole calls: a run is a
  sequence of \<open>dm_step\<close>s on the world, the handles that are still to be released, and the
  references \<open>Mount\<close> took although it returned an error (its second temporary directory failed),
  which nobody can release.

  Two invariants are kept by every step.  \<open>counts_ok\<close> needs no assumption on failures: the
  activity of an entry is the number of its handles.  \<open>mounts_ok\<close> holds as long as unmounting
  does not fail: a device is mounted exactly while its entry is active.
\<close>

section \<open>Runs\<close>

definition act :: "world \<Rightarrow> string \<Rightarrow> int" where
  "act w gid = (case map_of (w_mounts w) gid of None \<Rightarrow> 0 | Some m \<Rightarrow> activity m)"

type_synonym dm_state = "world \<times> string list \<times> string list"

inductive dm_step :: "dm_state \<Rightarrow> dm_state \<Rightarrow> bool" where
  mount_ok: "dm_Mount gid w = (Inr (p, r), w') \<Longrightarrow> dm_step (w, hs, lost) (w', gid # hs, lost)"
| mount_err: "dm_Mount gid w = (Inl e, w') \<Longrightarrow> act w' gid = act w gid \<Longrightarrow>
    dm_step (w, hs, lost) (w', hs, lost)"
| mount_lost: "dm_Mount gid w = (Inl e, w') \<Longrightarrow> act w' gid \<noteq> act w gid \<Longrightarrow>
    dm_step (w, hs, lost) (w', hs, gid # lost)"
| release_ok: "gid \<in> set hs \<Longrightarrow> dm_umount gid w = Ret w' \<Longrightarrow>
    dm_step (w, hs, lost) (w', remove1 gid hs, lost)"

inductive dm_reach :: "world \<Rightarrow> dm_state \<Rightarrow> bool" for w0 where
  start: "dm_reach w0 (w0, [], [])"
| more: "dm_reach w0 s \<Longrightarrow> dm_step s s' \<Longrightarrow> dm_reach w0 s'"

text \<open>A driver that has mounted nothing yet.\<close>

definition dm_fresh :: "world \<Rightarrow> bool" where
  "dm_fresh w \<longleftrightarrow>
     w_mounts w = [] \<and> ds_kmounts (w_devs w) = [] \<and> (\<forall>h. mount_count (w_devs w) h = 0)"

section \<open>Activity and handles\<close>

lemma act_frame [simp]: "act (w\<lparr>wfs := s\<rparr>) = act w" "act (w\<lparr>w_devs := d\<rparr>) = act w"
  by (simp_all add: act_def fun_eq_iff)

lemma act_set_mount [simp]: "act (set_mount gid m w) = (act w)(gid := activity m)"
  by (auto simp: act_def set_mount_def fun_eq_iff)

lemma act_None: "map_of (w_mounts w) gid = None \<Longrightarrow> act w gid = 0"
  and act_Some: "map_of (w_mounts w) gid = Some m \<Longrightarrow> act w gid = activity m"
  by (simp_all add: act_def)

lemma act_cong: "w_mounts w = w_mounts w' \<Longrightarrow> act w = act w'"
  by (simp add: act_def fun_eq_iff)

lemma map_of_set_mount [simp]:
  "map_of (w_mounts (set_mount gid m w)) = (map_of (w_mounts w))(gid \<mapsto> m)"
  by (simp add: set_mount_def)

lemma act_delete: "act (w\<lparr>w_mounts := AList.delete gid (w_mounts w)\<rparr>) = (act w)(gid := 0)"
  by (auto simp: act_def fun_eq_iff)

lemma w_TempDir_frame:
  "w_TempDir w = (r, w') \<Longrightarrow> act w' = act w \<and> w_mounts w' = w_mounts w \<and> w_devs w' = w_devs w"
  by (auto simp: w_TempDir_def split: prod.splits)

lemma w_RemoveAll_frame: "w_RemoveAll p w = (r, w') \<Longrightarrow> w_mounts w' = w_mounts w"
  by (auto simp: w_RemoveAll_def split: option.splits prod.splits)

lemma dm_entry_act:
  "dm_entry gid w = (Inr m, w') \<Longrightarrow>
     act w' = act w \<and> act w gid = activity m \<and> map_of (w_mounts w') gid = Some m"
  "dm_entry gid w = (Inl e, w') \<Longrightarrow> act w' = act w"
  by (auto simp: dm_entry_def Let_def act_None act_Some fun_upd_idem
      split: option.splits prod.splits sum.splits dest!: w_TempDir_frame)

lemma dm_attach_act: "dm_attach gid m w = (r, w') \<Longrightarrow> act w' = act w \<and> w_mounts w' = w_mounts w"
  by (auto simp: dm_attach_def split: if_splits prod.splits)

lemma dm_Mount_act:
  assumes "dm_Mount gid w = (r, w')"
  shows "act w' = (act w)(gid := act w gid + 1) \<or> (\<exists>e. r = Inl e) \<and> act w' = act w"
proof -
  obtain q w1 where e: "dm_entry gid w = (q, w1)" by fastforce
  show ?thesis
  proof (cases q)
    case (Inl x)
    with assms e dm_entry_act(2) [of gid w x w1] show ?thesis by (auto simp: dm_Mount_def)
  next
    case (Inr m)
    note ea = dm_entry_act(1) [OF e [unfolded Inr]]
    obtain a w2 where a: "dm_attach gid m w1 = (a, w2)" by fastforce
    note aa = dm_attach_act [OF a]
    show ?thesis
    proof (cases a)
      case (Some x)
      with assms e Inr a aa ea show ?thesis by (auto simp: dm_Mount_def)
    next
      case None
      let ?w3 = "set_mount gid (m\<lparr>activity := activity m + 1\<rparr>) w2"
      obtain t w4 where t: "w_TempDir ?w3 = (t, w4)" by fastforce
      have "w' = ?w3 \<or> w' = w4"
        using assms e Inr a None t by (auto simp: dm_Mount_def Let_def split: sum.splits)
      then have "act w' = act ?w3" using w_TempDir_frame [OF t] by auto
      with ea aa show ?thesis by simp
    qed
  qed
qed

definition counts_ok :: "dm_state \<Rightarrow> bool" where
  "counts_ok s \<longleftrightarrow>
     (case s of (w, hs, lost) \<Rightarrow> \<forall>gid. act w gid = int (count_list hs gid + count_list lost gid))"

lemma act_pos_entry: "0 < act w gid \<Longrightarrow> \<exists>m. map_of (w_mounts w) gid = Some m \<and> activity m = act w gid"
  by (auto simp: act_def split: option.splits)

lemma dm_umount_act:
  assumes "map_of (w_mounts w) gid = Some m"
  obtains w' where "dm_umount gid w = Ret w'" and "act w' = (act w)(gid := act w gid - 1)"
proof -
  let ?m1 = "m\<lparr>activity := activity m - 1\<rparr>" and ?w1 = "set_mount gid (m\<lparr>activity := activity m - 1\<rparr>) w"
  have a: "act w gid = activity m" using assms by (rule act_Some)
  show thesis
  proof (cases "activity m = 1")
    case False
    with assms a show thesis by (intro that [of ?w1]) (auto simp: dm_umount_def Let_def)
  next
    case True
    obtain x ds where u: "UnmountDevice gid (mnt_path m) (w_devs ?w1) = (x, ds)" by fastforce
    obtain y w2 where rm: "w_RemoveAll (mnt_path m) (?w1\<lparr>w_devs := ds\<rparr>) = (y, w2)" by fastforce
    have "w_mounts w2 = w_mounts ?w1" using w_RemoveAll_frame [OF rm] by simp
    then have "act w2 = act ?w1" by (rule act_cong)
    with True assms a u rm show thesis
      by (intro that [of "w2\<lparr>w_mounts := AList.delete gid (w_mounts w2)\<rparr>"])
        (auto simp: dm_umount_def Let_def act_delete)
  qed
qed

lemma counts_ok_step:
  assumes "dm_step s s'" and "counts_ok s"
  shows "counts_ok s'"
  using assms
proof (cases rule: dm_step.cases)
  case (mount_ok gid w p r w' hs lost)
  with assms(2) dm_Mount_act [OF mount_ok(3)] show ?thesis by (auto simp: counts_ok_def)
next
  case (mount_err gid w e w' hs lost)
  with dm_Mount_act [OF mount_err(3)] have "act w' = act w" by (auto split: if_splits)
  with assms(2) mount_err show ?thesis by (simp add: counts_ok_def)
next
  case (mount_lost gid w e w' hs lost)
  with dm_Mount_act [OF mount_lost(3)] have "act w' = (act w)(gid := act w gid + 1)" by auto
  with assms(2) mount_lost show ?thesis by (simp add: counts_ok_def)
next
  case (release_ok gid hs w w' lost)
  from release_ok(3) have c: "0 < count_list hs gid" by (simp add: count_list_0_iff order_less_le)
  with assms(2) release_ok(1) have "0 < act w gid" by (simp add: counts_ok_def)
  then obtain m where "map_of (w_mounts w) gid = Some m" using act_pos_entry by blast
  then obtain w'' where "dm_umount gid w = Ret w''" "act w'' = (act w)(gid := act w gid - 1)"
    by (rule dm_umount_act)
  with release_ok assms(2) c show ?thesis by (auto simp: counts_ok_def count_list_remove1)
qed

lemma counts_ok_start: "dm_fresh w0 \<Longrightarrow> counts_ok (w0, [], [])"
  by (simp add: dm_fresh_def counts_ok_def act_def)

lemma counts_ok_reach: "dm_reach w0 s \<Longrightarrow> dm_fresh w0 \<Longrightarrow> counts_ok s"
  by (induction rule: dm_reach.induct) (blast intro: counts_ok_start counts_ok_step)+

lemma handle_entry:
  assumes "counts_ok (w, hs, lost)" and "gid \<in> set hs"
  obtains m where "map_of (w_mounts w) gid = Some m" and "0 < activity m"
proof -
  from assms(2) have "0 < count_list hs gid" by (simp add: count_list_0_iff order_less_le)
  with assms(1) have "0 < act w gid" by (simp add: counts_ok_def)
  with act_pos_entry [OF this] that show thesis by auto
qed

text \<open>
  C9: Whatever fails on the way, in every interleaving of \<open>Mount\<close> calls and releases of the
  devicemapper driver that starts from a fresh driver, releasing a handle that is out returns:
  its entry is still in the table, \<open>umount\<close> never meets a nil pointer.
\<close>

theorem dm_release_never_panics:
  assumes "dm_reach w0 (w, hs, lost)" and "dm_fresh w0" and "gid \<in> set hs"
  shows "\<exists>w'. dm_umount gid w = Ret w' \<and> dm_reach w0 (w', remove1 gid hs, lost)"
proof -
  from counts_ok_reach [OF assms(1,2)] assms(3) obtain m where "map_of (w_mounts w) gid = Some m"
    by (rule handle_entry)
  then obtain w' where "dm_umount gid w = Ret w'" by (rule dm_umount_act)
  with assms(1,3) show ?thesis by (blast intro: dm_reach.more dm_step.release_ok)
qed


section \<open>Mounts and active entries\<close>

abbreviation tmp_name :: "nat \<Rightarrow> string" where
  "tmp_name \<equiv> temp_name ''migrate-devicemapper''"

lemma clean_tmp: "clean_abs ''/tmp''"
  by code_simp

lemma tmp_name_eq: "tmp_name k = ''/tmp'' @ slash # (''migrate-devicemapper'' @ show_nat k)"
  and tmp_no_slash: "slash \<notin> set (''migrate-devicemapper'' @ show_nat k)"
proof -
  show s: "slash \<notin> set (''migrate-devicemapper'' @ show_nat k)"
    using show_nat_digits [of slash k] by (auto simp: is_digit_def)
  then have "plain (''migrate-devicemapper'' @ show_nat k)" by (simp add: plain_def)
  then show "tmp_name k = ''/tmp'' @ slash # (''migrate-devicemapper'' @ show_nat k)"
    unfolding temp_name_def by (rule Join2 [OF clean_tmp])
qed

text \<open>Two temporary directories are never one below the other.\<close>

lemma below_tmp:
  assumes "below (tmp_name i) (tmp_name j)"
  shows "tmp_name i = tmp_name j"
proof (rule ccontr)
  assume ne: "tmp_name i \<noteq> tmp_name j"
  with assms obtain r where "tmp_name j = tmp_name i @ slash # r"
    by (auto simp: below_def prefix_def)
  then have "''migrate-devicemapper'' @ show_nat j = ''migrate-devicemapper'' @ show_nat i @ slash # r"
    by (simp add: tmp_name_eq)
  then have "slash \<in> set (''migrate-devicemapper'' @ show_nat j)" by simp
  with tmp_no_slash show False by blast
qed

definition has_tmp :: "fs \<Rightarrow> string \<Rightarrow> bool" where
  "has_tmp s p \<longleftrightarrow> (\<exists>k. p = tmp_name k) \<and> map_of (names s) p \<noteq> None"

text \<open>The entries of the driver's table have temporary directories of their own.\<close>

definition paths_ok :: "world \<Rightarrow> bool" where
  "paths_ok w \<longleftrightarrow>
     (\<forall>gid m. map_of (w_mounts w) gid = Some m \<longrightarrow> has_tmp (wfs w) (mnt_path m)) \<and>
     (\<forall>g1 m1 g2 m2. map_of (w_mounts w) g1 = Some m1 \<longrightarrow> map_of (w_mounts w) g2 = Some m2 \<longrightarrow>
        mnt_path m1 = mnt_path m2 \<longrightarrow> g1 = g2)"

text \<open>
  \<open>mounts_ok w C\<close>: the kernel's mounts are the active entries, each device counts one mount
  while its entry is active and none otherwise, unmounting does not fail, and the devices'
  contents are \<open>C\<close>.
\<close>

definition mounts_ok :: "world \<Rightarrow> (string \<times> (string \<times> node) list) list \<Rightarrow> bool" where
  "mounts_ok w C \<longleftrightarrow>
     paths_ok w \<and> ds_content (w_devs w) = C \<and>
     (\<forall>p. ds_faults (w_devs w) DmUnmount p = None) \<and> (\<forall>gid. 0 \<le> act w gid) \<and>
     (\<forall>gid. mount_count (w_devs w) gid = (if 0 < act w gid then 1 else 0)) \<and>
     distinct (map fst (ds_kmounts (w_devs w))) \<and>
     (\<forall>p gid. (p, gid) \<in> set (ds_kmounts (w_devs w)) \<longleftrightarrow>
        (\<exists>m. map_of (w_mounts w) gid = Some m \<and> mnt_path m = p \<and> 0 < activity m))"

lemma entry_tmp: "mounts_ok w C \<Longrightarrow> map_of (w_mounts w) gid = Some m \<Longrightarrow> has_tmp (wfs w) (mnt_path m)"
  by (simp add: mounts_ok_def paths_ok_def)

lemma entry_path_inj:
  "mounts_ok w C \<Longrightarrow> map_of (w_mounts w) g1 = Some m1 \<Longrightarrow> map_of (w_mounts w) g2 = Some m2 \<Longrightarrow>
     mnt_path m1 = mnt_path m2 \<Longrightarrow> g1 = g2"
  by (simp add: mounts_ok_def paths_ok_def)

lemma kmount_entry:
  "mounts_ok w C \<Longrightarrow> (p, gid) \<in> set (ds_kmounts (w_devs w)) \<longleftrightarrow>
     (\<exists>m. map_of (w_mounts w) gid = Some m \<and> mnt_path m = p \<and> 0 < activity m)"
  by (simp add: mounts_ok_def)

lemma TempDir_tmp:
  assumes "w_TempDir w = (Inr p, w')"
  shows "has_tmp (wfs w') p" and "map_of (names (wfs w)) p = None"
    and "has_tmp (wfs w) q \<Longrightarrow> has_tmp (wfs w') q"
proof -
  obtain s where t: "TempDir ''migrate-devicemapper'' (wfs w) = (Inr p, s)" "wfs w' = s"
    using assms by (auto simp: w_TempDir_def split: prod.splits)
  have "free_temp n k pre s = Some p \<Longrightarrow> \<exists>k. p = temp_name pre k" for n k pre s
    by (induction n k pre s rule: free_temp.induct) (auto split: if_splits)
  with t(1) have "\<exists>k. p = tmp_name k" by (auto simp: TempDir_def split: option.splits)
  with t TempDir_Inr [OF t(1)] show "has_tmp (wfs w') p" and "map_of (names (wfs w)) p = None"
    and "has_tmp (wfs w) q \<Longrightarrow> has_tmp (wfs w') q"
    by (auto simp: has_tmp_def)
qed

lemma w_TempDir_err: "w_TempDir w = (Inl e, w') \<Longrightarrow> w' = w"
  by (auto simp: w_TempDir_def TempDir_def split: prod.splits option.splits)

lemma paths_ok_cong:
  assumes "paths_ok w" and "w_mounts w' = w_mounts w" and "\<And>q. has_tmp (wfs w) q \<Longrightarrow> has_tmp (wfs w') q"
  shows "paths_ok w'"
  using assms by (auto simp: paths_ok_def)

lemma mounts_ok_TempDir:
  assumes "mounts_ok w C" and "w_TempDir w = (r, w')"
  shows "mounts_ok w' C"
proof (cases r)
  case (Inl e)
  with assms w_TempDir_err show ?thesis by blast
next
  case (Inr p)
  note f = w_TempDir_frame [OF assms(2)]
  have "paths_ok w'"
    using assms(1) f TempDir_tmp(3) [OF assms(2) [unfolded Inr]]
    by (intro paths_ok_cong [of w w']) (auto simp: mounts_ok_def)
  with assms(1) f show ?thesis by (simp add: mounts_ok_def)
qed

lemma dm_entry_ok:
  assumes "mounts_ok w C" and "dm_entry gid w = (r, w')"
  shows "mounts_ok w' C"
proof (cases "map_of (w_mounts w) gid")
  case (Some m)
  with assms show ?thesis by (simp add: dm_entry_def)
next
  case None
  obtain t w1 where t: "w_TempDir w = (t, w1)" by fastforce
  have ok1: "mounts_ok w1 C" using mounts_ok_TempDir [OF assms(1) t] .
  show ?thesis
  proof (cases t)
    case (Inl e)
    with assms(2) None t ok1 show ?thesis by (simp add: dm_entry_def)
  next
    case (Inr p)
    let ?m = "\<lparr>activity = 0, mnt_path = p\<rparr>"
    note f = w_TempDir_frame [OF t] and tt = TempDir_tmp [OF t [unfolded Inr]]
    have w': "w' = set_mount gid ?m w1" using assms(2) None t Inr by (simp add: dm_entry_def Let_def)
    have new: "map_of (w_mounts w) g = Some m1 \<Longrightarrow> mnt_path m1 \<noteq> p" for g m1
      using entry_tmp [OF assms(1), of g m1] tt(2) by (auto simp: has_tmp_def)
    have "act w1 gid = 0" using None f by (simp add: act_None)
    then have a: "act w' = act w1" using w' by (simp add: fun_upd_idem)
    have mo: "map_of (w_mounts w') = (map_of (w_mounts w))(gid \<mapsto> ?m)" using w' f by simp
    have ds: "w_devs w' = w_devs w1" "wfs w' = wfs w1" using w' by (simp_all add: set_mount_def)
    have "paths_ok w'"
      using ok1 new tt(1) by (auto simp: mounts_ok_def paths_ok_def mo ds f split: if_splits)
    moreover have "(\<exists>m. map_of (w_mounts w') g = Some m \<and> mnt_path m = q \<and> 0 < activity m) \<longleftrightarrow>
        (\<exists>m. map_of (w_mounts w1) g = Some m \<and> mnt_path m = q \<and> 0 < activity m)" for g q
      using None f by (auto simp: mo split: if_splits)
    ultimately show ?thesis using ok1 by (simp add: mounts_ok_def a ds)
  qed
qed


text \<open>Mounting a device and counting the reference.\<close>

lemma dm_attach_ok:
  assumes ok: "mounts_ok w C" and m: "map_of (w_mounts w) gid = Some m"
    and at: "dm_attach gid m w = (r, w1)"
  shows "r \<noteq> None \<Longrightarrow> mounts_ok w1 C"
    and "r = None \<Longrightarrow> mounts_ok (set_mount gid (m\<lparr>activity := activity m + 1\<rparr>) w1) C"
proof -
  have am: "act w gid = activity m" using m by (rule act_Some)
  have nn: "0 \<le> activity m" using ok am by (simp add: mounts_ok_def) metis
  have "(r \<noteq> None \<longrightarrow> mounts_ok w1 C) \<and>
        (r = None \<longrightarrow> mounts_ok (set_mount gid (m\<lparr>activity := activity m + 1\<rparr>) w1) C)"
  proof (cases "activity m = 0")
    case False
    let ?m = "m\<lparr>activity := activity m + 1\<rparr>"
    from False at have w1: "w1 = w" "r = None" by (simp_all add: dm_attach_def)
    have mo: "map_of (w_mounts (set_mount gid ?m w)) = (map_of (w_mounts w))(gid \<mapsto> ?m)" by simp
    have "paths_ok (set_mount gid ?m w)"
      using entry_tmp [OF ok] entry_path_inj [OF ok] m
      by (auto simp: paths_ok_def set_mount_def split: if_splits)
    moreover have "(\<exists>m'. map_of (w_mounts (set_mount gid ?m w)) g = Some m' \<and> mnt_path m' = q \<and> 0 < activity m') \<longleftrightarrow>
        (\<exists>m'. map_of (w_mounts w) g = Some m' \<and> mnt_path m' = q \<and> 0 < activity m')" for g q
      using m nn False by (auto split: if_splits)
    ultimately show ?thesis
      using ok w1 nn False am by (auto simp: mounts_ok_def) (auto simp: set_mount_def)
  next
    case True
    obtain x ds where md: "MountDevice gid (mnt_path m) (w_devs w) = (x, ds)" by fastforce
    have w1: "w1 = w\<lparr>w_devs := ds\<rparr>" "r = None \<longleftrightarrow> x = None"
      using at True md by (auto simp: dm_attach_def)
    have c0: "mount_count (w_devs w) gid = 0" using ok am True by (simp add: mounts_ok_def)
    have notin: "mnt_path m \<notin> fst ` set (ds_kmounts (w_devs w))"
    proof
      assume "mnt_path m \<in> fst ` set (ds_kmounts (w_devs w))"
      then obtain g where "(mnt_path m, g) \<in> set (ds_kmounts (w_devs w))" by auto
      then obtain m' where m': "map_of (w_mounts w) g = Some m'" "mnt_path m' = mnt_path m" "0 < activity m'"
        using kmount_entry [OF ok] by auto
      with entry_path_inj [OF ok m'(1) m] m True show False by simp
    qed
    note M = MountDevice_first [OF md c0 notin]
    show ?thesis
    proof (cases x)
      case (Some e)
      with w1 have "r \<noteq> None" by simp
      moreover have "mounts_ok w1 C"
        using Some M(1,2,4) w1(1) ok by (simp add: mounts_ok_def paths_ok_def)
      ultimately show ?thesis by blast
    next
      case None
      let ?m = "m\<lparr>activity := activity m + 1\<rparr>" and ?w = "set_mount gid (m\<lparr>activity := activity m + 1\<rparr>) w1"
      have wm: "w_mounts w1 = w_mounts w" using w1 by simp
      have ds: "w_devs ?w = ds" "wfs ?w = wfs w" using w1 by (simp_all add: set_mount_def)
      have km: "ds_kmounts ds = (mnt_path m, gid) # ds_kmounts (w_devs w)" "mount_count ds = (mount_count (w_devs w))(gid := 1)"
        using M(3) [OF None] by simp_all
      have ac: "act ?w = (act w)(gid := 1)" using w1 True by simp
      have p: "paths_ok ?w"
        using entry_tmp [OF ok] entry_path_inj [OF ok] m
        by (auto simp: paths_ok_def wm ds split: if_splits)
      have k: "(q, g) \<in> set (ds_kmounts ds) \<longleftrightarrow>
          (\<exists>m'. map_of (w_mounts ?w) g = Some m' \<and> mnt_path m' = q \<and> 0 < activity m')" for q g
        using kmount_entry [OF ok, of q g] m True by (cases "g = gid") (auto simp: km(1) wm)
      have c: "mount_count (w_devs w) g = (if 0 < act w g then 1 else 0)" "0 \<le> act w g" for g
        using ok by (simp_all add: mounts_ok_def)
      have "mounts_ok ?w C"
        unfolding mounts_ok_def ds
      proof (intro conjI)
        show "ds_content ds = C" using M(2) ok by (simp add: mounts_ok_def)
        show "\<forall>p. ds_faults ds DmUnmount p = None" using M(1) ok by (simp add: mounts_ok_def)
        show "\<forall>gid'. 0 \<le> act ?w gid'" using c(2) unfolding ac by simp
        show "\<forall>gid'. mount_count ds gid' = (if 0 < act ?w gid' then 1 else 0)"
          using c(1) unfolding ac km(2) by simp
        show "distinct (map fst (ds_kmounts ds))" using ok notin by (simp add: km(1) mounts_ok_def)
      qed (use p k in blast)+
      with w1(2) None show ?thesis by simp
    qed
  qed
  then show "r \<noteq> None \<Longrightarrow> mounts_ok w1 C"
    and "r = None \<Longrightarrow> mounts_ok (set_mount gid (m\<lparr>activity := activity m + 1\<rparr>) w1) C" by blast+
qed

lemma dm_Mount_ok:
  assumes "mounts_ok w C" and "dm_Mount gid w = (r, w')"
  shows "mounts_ok w' C"
proof -
  obtain q w1 where e: "dm_entry gid w = (q, w1)" by fastforce
  have ok1: "mounts_ok w1 C" by (rule dm_entry_ok [OF assms(1) e])
  show ?thesis
  proof (cases q)
    case (Inl x)
    with assms e ok1 show ?thesis by (auto simp: dm_Mount_def)
  next
    case (Inr m)
    have m: "map_of (w_mounts w1) gid = Some m" using dm_entry_act(1) [OF e [unfolded Inr]] by simp
    obtain a w2 where a: "dm_attach gid m w1 = (a, w2)" by fastforce
    note ok2 = dm_attach_ok [OF ok1 m a]
    show ?thesis
    proof (cases a)
      case (Some x)
      with assms e Inr a ok2 show ?thesis by (auto simp: dm_Mount_def)
    next
      case None
      let ?w3 = "set_mount gid (m\<lparr>activity := activity m + 1\<rparr>) w2"
      obtain t w4 where t: "w_TempDir ?w3 = (t, w4)" by fastforce
      have "w' = ?w3 \<or> w' = w4"
        using assms e Inr a None t by (auto simp: dm_Mount_def Let_def split: sum.splits)
      with ok2(2) [OF None] mounts_ok_TempDir [OF _ t] show ?thesis by blast
    qed
  qed
qed


text \<open>Releasing a reference; the last one takes the device down.\<close>

lemma remove_first_distinct:
  "distinct (map fst ms) \<Longrightarrow> set (remove_first p ms) = {m \<in> set ms. fst m \<noteq> p}"
  "distinct (map fst ms) \<Longrightarrow> distinct (map fst (remove_first p ms))"
proof (induction ms)
  case (Cons m ms)
  {
    case 1
    then show ?case using Cons.IH(1) by (cases "fst m = p") (auto simp: image_iff)
  next
    case 2
    then show ?case using Cons.IH by (auto simp: image_iff)
  }
qed auto

lemma w_RemoveAll_unmounted:
  assumes "w_RemoveAll p w = (r, w')" and "mounted_at (w_devs w) p = None"
  shows "w_devs w' = w_devs w"
    and "map_of (names (wfs w)) q \<noteq> None \<Longrightarrow> \<not> below p q \<Longrightarrow> map_of (names (wfs w')) q \<noteq> None"
  using assms
  using map_of_filter_key [of "\<lambda>k. \<not> below p k" "names (wfs w)"]
  by (auto simp: w_RemoveAll_def os_RemoveAll_def split: option.splits prod.splits)

lemma dm_umount_ok:
  assumes ok: "mounts_ok w C" and m: "map_of (w_mounts w) gid = Some m" and pos: "0 < activity m"
    and u: "dm_umount gid w = Ret w'"
  shows "mounts_ok w' C"
proof (cases "activity m = 1")
  case False
  let ?m = "m\<lparr>activity := activity m - 1\<rparr>"
  from False u m have w': "w' = set_mount gid ?m w" by (simp add: dm_umount_def Let_def)
  have "paths_ok w'"
    using entry_tmp [OF ok] entry_path_inj [OF ok] m
    by (auto simp: w' paths_ok_def set_mount_def split: if_splits)
  moreover have "(\<exists>m'. map_of (w_mounts w') g = Some m' \<and> mnt_path m' = q \<and> 0 < activity m') \<longleftrightarrow>
      (\<exists>m'. map_of (w_mounts w) g = Some m' \<and> mnt_path m' = q \<and> 0 < activity m')" for g q
    using m pos False by (auto simp: w' split: if_splits)
  moreover have "act w gid = activity m" using m by (rule act_Some)
  moreover have "w_devs w' = w_devs w" by (simp add: w' set_mount_def)
  ultimately show ?thesis using ok pos False by (auto simp: mounts_ok_def w' simp del: map_of_set_mount)
next
  case True
  let ?w1 = "set_mount gid (m\<lparr>activity := activity m - 1\<rparr>) w" and ?p = "mnt_path m"
  obtain x ds where ud: "UnmountDevice gid ?p (w_devs ?w1) = (x, ds)" by fastforce
  obtain y w2 where rm: "w_RemoveAll ?p (?w1\<lparr>w_devs := ds\<rparr>) = (y, w2)" by fastforce
  have w': "w' = w2\<lparr>w_mounts := AList.delete gid (w_mounts w2)\<rparr>"
    using u m True ud rm by (simp add: dm_umount_def Let_def)
  have dev1: "w_devs ?w1 = w_devs w" "wfs ?w1 = wfs w" by (simp_all add: set_mount_def)
  have am: "act w gid = 1" using m True by (simp add: act_Some)
  have c1: "mount_count (w_devs ?w1) gid = 1" using ok am dev1 by (simp add: mounts_ok_def)
  note U = UnmountDevice_last [OF ud c1, unfolded dev1]
  have nf: "ds_faults (w_devs w) DmUnmount ?p = None" using ok by (simp add: mounts_ok_def)
  have "(?p, gid) \<in> set (ds_kmounts (w_devs w))" using kmount_entry [OF ok] m True by auto
  then have km: "ds_kmounts ds = remove_first ?p (ds_kmounts (w_devs w))"
    using U(4) [OF nf] by (force simp: image_iff)
  have dist: "distinct (map fst (ds_kmounts (w_devs w)))" using ok by (simp add: mounts_ok_def)
  note rf = remove_first_distinct [OF dist, of ?p]
  from entry_tmp [OF ok m] obtain k where k: "?p = tmp_name k" by (auto simp: has_tmp_def)
  have other: "map_of (w_mounts w) g = Some mg \<Longrightarrow> g \<noteq> gid \<Longrightarrow> \<not> below (mnt_path mg) ?p \<and> \<not> below ?p (mnt_path mg)" for g mg
    using entry_tmp [OF ok, of g mg] entry_path_inj [OF ok, of g mg gid m] m k below_tmp
    unfolding has_tmp_def by metis
  have "mounted_at ds ?p = None"
    unfolding mounted_at_def find_None_iff
  proof
    assume "\<exists>e. e \<in> set (ds_kmounts ds) \<and> below (fst e) ?p"
    then obtain q g where "(q, g) \<in> set (ds_kmounts (w_devs w))" "q \<noteq> ?p" "below q ?p"
      using rf(1) km by auto
    then show False using kmount_entry [OF ok, of q g] other m by (cases "g = gid") auto
  qed
  then have rmf: "w_devs w2 = ds"
    "\<And>q. map_of (names (wfs w)) q \<noteq> None \<Longrightarrow> \<not> below ?p q \<Longrightarrow> map_of (names (wfs w2)) q \<noteq> None"
    using w_RemoveAll_unmounted [OF rm] dev1 by simp_all
  have mo: "map_of (w_mounts w') = (map_of (w_mounts w))(gid := None)"
    using w_RemoveAll_frame [OF rm] by (simp add: w')
  have ac: "act w' = (act w)(gid := 0)"
    by (rule ext) (auto simp: act_def mo)
  have dw: "w_devs w' = ds" "wfs w' = wfs w2" using rmf by (simp_all add: w')
  have p: "paths_ok w'"
    using entry_tmp [OF ok] entry_path_inj [OF ok] other rmf(2)
    by (auto simp: paths_ok_def mo dw has_tmp_def split: if_splits)
  have kk: "(q, g) \<in> set (ds_kmounts ds) \<longleftrightarrow>
      (\<exists>m'. map_of (w_mounts w') g = Some m' \<and> mnt_path m' = q \<and> 0 < activity m')" for q g
  proof (cases "g = gid")
    case True
    then show ?thesis using kmount_entry [OF ok, of q g] m by (auto simp: km rf(1) mo)
  next
    case False
    have "(q, g) \<in> set (ds_kmounts (w_devs w)) \<Longrightarrow> q \<noteq> ?p"
      using kmount_entry [OF ok, of q g] entry_path_inj [OF ok _ m] False by blast
    with False kmount_entry [OF ok, of q g] show ?thesis by (auto simp: km rf(1) mo)
  qed
  have c: "mount_count (w_devs w) g = (if 0 < act w g then 1 else 0)" "0 \<le> act w g" for g
    using ok by (simp_all add: mounts_ok_def)
  show ?thesis
    unfolding mounts_ok_def dw
  proof (intro conjI)
    show "ds_content ds = C" using U(2) ok by (simp add: mounts_ok_def)
    show "\<forall>p. ds_faults ds DmUnmount p = None" using U(1) ok by (simp add: mounts_ok_def)
    show "\<forall>gid'. 0 \<le> act w' gid'" using c(2) unfolding ac by simp
    show "\<forall>gid'. mount_count ds gid' = (if 0 < act w' gid' then 1 else 0)"
      using c(1) U(3) unfolding ac by simp
    show "distinct (map fst (ds_kmounts ds))" using rf(2) by (simp add: km)
  qed (use p kk in blast)+
qed

section \<open>Exactness\<close>

lemma mounts_ok_start:
  assumes "dm_fresh w0" and "\<forall>p. ds_faults (w_devs w0) DmUnmount p = None"
  shows "mounts_ok w0 (ds_content (w_devs w0))"
  using assms by (simp add: dm_fresh_def mounts_ok_def paths_ok_def act_def)

lemma mounts_ok_step:
  assumes "dm_step s s'" and "counts_ok s" and "mounts_ok (fst s) C"
  shows "mounts_ok (fst s') C"
  using assms(1)
proof (cases rule: dm_step.cases)
  case (mount_ok gid w p r w' hs lost)
  with assms(3) show ?thesis by (auto intro: dm_Mount_ok)
next
  case (mount_err gid w e w' hs lost)
  with assms(3) show ?thesis by (auto intro: dm_Mount_ok)
next
  case (mount_lost gid w e w' hs lost)
  with assms(3) show ?thesis by (auto intro: dm_Mount_ok)
next
  case (release_ok gid hs w w' lost)
  with assms(2) obtain m where "map_of (w_mounts w) gid = Some m" "0 < activity m"
    by (auto elim: handle_entry)
  with release_ok assms(3) show ?thesis by (auto intro: dm_umount_ok)
qed

lemma mounts_ok_reach:
  assumes "dm_reach w0 s" and "dm_fresh w0" and "\<forall>p. ds_faults (w_devs w0) DmUnmount p = None"
  shows "mounts_ok (fst s) (ds_content (w_devs w0))"
  using assms
proof (induction rule: dm_reach.induct)
  case start
  then show ?case using mounts_ok_start by simp
next
  case (more s s')
  then show ?case using mounts_ok_step counts_ok_reach by blast
qed

text \<open>
  C8: As long as no unmount fails, in every interleaving of \<open>Mount\<close> calls and releases the
  devicemapper driver keeps a device mounted exactly while a reference to it is counted, which is one that a caller holds or
  one that a failed \<open>Mount\<close> counted and lost: the kernel's
  mount table has one mount for each such device and nothing else, \<open>mountCount\<close> is 1 for these
  devices and 0 for all others, and the files on the devices are never touched, although every
  last release deletes the mount point's directory tree.
\<close>

theorem dm_mounted_iff_referenced:
  assumes "dm_reach w0 (w, hs, lost)" and "dm_fresh w0"
    and "\<forall>p. ds_faults (w_devs w0) DmUnmount p = None"
  shows "((\<exists>p. (p, gid) \<in> set (ds_kmounts (w_devs w))) \<longleftrightarrow> gid \<in> set hs \<or> gid \<in> set lost) \<and>
         mount_count (w_devs w) gid = (if gid \<in> set hs \<or> gid \<in> set lost then 1 else 0) \<and>
         distinct (map fst (ds_kmounts (w_devs w))) \<and>
         ds_content (w_devs w) = ds_content (w_devs w0)"
proof (intro conjI)
  have ok: "mounts_ok w (ds_content (w_devs w0))" using mounts_ok_reach [OF assms] by simp
  have "act w gid = int (count_list hs gid + count_list lost gid)"
    using counts_ok_reach [OF assms(1,2)] by (simp add: counts_ok_def)
  then have a: "0 < act w gid \<longleftrightarrow> gid \<in> set hs \<or> gid \<in> set lost"
    using count_list_0_iff [of hs gid] count_list_0_iff [of lost gid] by auto
  have "(\<exists>p. (p, gid) \<in> set (ds_kmounts (w_devs w))) \<longleftrightarrow> 0 < act w gid"
    using kmount_entry [OF ok] by (auto simp: act_def split: option.splits)
  with a show "(\<exists>p. (p, gid) \<in> set (ds_kmounts (w_devs w))) \<longleftrightarrow> gid \<in> set hs \<or> gid \<in> set lost" by simp
  show "mount_count (w_devs w) gid = (if gid \<in> set hs \<or> gid \<in> set lost then 1 else 0)"
    using ok a by (simp add: mounts_ok_def)
  show "distinct (map fst (ds_kmounts (w_devs w)))" and "ds_content (w_devs w) = ds_content (w_devs w0)"
    using ok by (simp_all add: mounts_ok_def)
qed

text \<open>
  C38: When unmounting the last reference fails, \<open>umount\<close> logs the error and goes on: its
  \<open>os.RemoveAll\<close> then runs on the directory where the device is still mounted and removes every
  file of the layer's device.
\<close>

theorem dm_failed_unmount_wipes_device:
  assumes "map_of (w_mounts w) gid = Some m" and "activity m = 1"
    and "mount_count (w_devs w) gid = 1"
    and "ds_kmounts (w_devs w) = (mnt_path m, gid) # ks"
    and "ds_faults (w_devs w) DmUnmount (mnt_path m) \<noteq> None"
    and "faults (wfs w) OpRemoveAll (mnt_path m) = None"
    and "map_of (ds_content (w_devs w)) gid = Some files" and "\<forall>f \<in> set files. rooted (fst f)"
  shows "\<exists>w'. dm_umount gid w = Ret w' \<and> map_of (ds_content (w_devs w')) gid = Some []"
proof -
  let ?w1 = "set_mount gid (m\<lparr>activity := activity m - 1\<rparr>) w" and ?p = "mnt_path m"
  obtain x ds where ud: "UnmountDevice gid ?p (w_devs w) = (x, ds)" by fastforce
  note U = UnmountDevice_last [OF ud assms(3)]
  have km: "ds_kmounts ds = (?p, gid) # ks" using U(5) assms(4,5) by simp
  then have at: "mounted_at ds ?p = Some (?p, gid)" by (simp add: mounted_at_def below_def)
  have dev1: "w_devs ?w1 = w_devs w" "wfs ?w1 = wfs w" by (simp_all add: set_mount_def)
  have "filter (\<lambda>f. \<not> below [] (fst f)) files = []"
  proof -
    have "rooted q \<Longrightarrow> below [] q" for q by (cases q) (auto simp: below_def rooted_def)
    with assms(8) show ?thesis by (auto simp: filter_empty_conv)
  qed
  moreover have "map_of (map (\<lambda>(h, fl). (h, if h = gid
         then filter (\<lambda>f. \<not> below (drop (length ?p) ?p) (fst f)) fl else fl)) c) gid =
      map_option (filter (\<lambda>f. \<not> below [] (fst f))) (map_of c gid)"
    for c :: "(string \<times> (string \<times> node) list) list" by (induction c) auto
  ultimately show ?thesis
    using assms(1,2,6,7) ud at dev1 U(2) by (auto simp: dm_umount_def w_RemoveAll_def Let_def)
qed

section \<open>A small device set\<close>

definition demo_fs :: fs where
  "demo_fs =
     \<lparr>names = [(''/tmp'', 1)], nodes = [(1, Dir)], next_ino = 2, faults = (\<lambda>_ _. None),
      render = (\<lambda>_. []), log = []\<rparr>"

definition demo_devices :: "(dmop \<Rightarrow> string \<Rightarrow> err option) \<Rightarrow> device_set" where
  "demo_devices flt =
     \<lparr>ds_Devices = [(''d1'', \<lparr>di_Deleted = False, di_mountCount = 0, di_mountPath = []\<rparr>)],
      ds_stored = (\<lambda>_. None), ds_deferredRemove = False, ds_active = [], ds_pending = [],
      ds_kmounts = [], ds_content = [(''d1'', [(''/rootfs'', Dir), (''/rootfs/etc'', Dir)])],
      ds_faults = flt\<rparr>"

definition demo_world :: "(dmop \<Rightarrow> string \<Rightarrow> err option) \<Rightarrow> world" where
  "demo_world flt = \<lparr>wfs = demo_fs, w_mounts = [], w_devs = demo_devices flt\<rparr>"

lemma demo_fresh: "dm_fresh (demo_world flt)"
  by (auto simp: dm_fresh_def demo_world_def demo_devices_def mount_count_def)

lemma demo_mounted:
  "\<exists>w. dm_reach (demo_world (\<lambda>_ _. None)) (w, [''d1''], [])"
proof -
  let ?w0 = "demo_world (\<lambda>_ _. None)"
  have "res_ok (fst (dm_Mount ''d1'' ?w0))" by code_simp
  then obtain p r w where "dm_Mount ''d1'' ?w0 = (Inr (p, r), w)"
    by (cases "dm_Mount ''d1'' ?w0") (auto simp: res_ok_iff)
  then show ?thesis by (blast intro: dm_reach.start dm_reach.more dm_step.mount_ok)
qed

lemma dm_release_never_panics_witness:
  "\<exists>w w'. dm_umount ''d1'' w = Ret w' \<and> dm_reach (demo_world (\<lambda>_ _. None)) (w', [], [])"
proof -
  from demo_mounted obtain w where "dm_reach (demo_world (\<lambda>_ _. None)) (w, [''d1''], [])" by blast
  from dm_release_never_panics [OF this demo_fresh, of "''d1''"] show ?thesis by auto
qed

lemma dm_mounted_iff_referenced_witness:
  "\<exists>w p. (p, ''d1'') \<in> set (ds_kmounts (w_devs w)) \<and> mount_count (w_devs w) ''d1'' = 1 \<and>
     dm_reach (demo_world (\<lambda>_ _. None)) (w, [''d1''], [])"
proof -
  from demo_mounted obtain w where w: "dm_reach (demo_world (\<lambda>_ _. None)) (w, [''d1''], [])" by blast
  from dm_mounted_iff_referenced [OF this demo_fresh, of "''d1''"] w show ?thesis
    by (auto simp: demo_world_def demo_devices_def)
qed

text \<open>The device after a mount, with a kernel that refuses to unmount it.\<close>

definition stuck_world :: world where
  "stuck_world =
     \<lparr>wfs = demo_fs, w_mounts = [(''d1'', \<lparr>activity = 1, mnt_path = ''/tmp/m''\<rparr>)],
      w_devs = (demo_devices (\<lambda>op _. if op = DmUnmount then Some EBUSY else None))
        \<lparr>ds_Devices := [(''d1'', \<lparr>di_Deleted = False, di_mountCount = 1, di_mountPath = ''/tmp/m''\<rparr>)],
         ds_kmounts := [(''/tmp/m'', ''d1'')]\<rparr>\<rparr>"

lemma dm_failed_unmount_wipes_device_witness:
  "\<exists>w'. dm_umount ''d1'' stuck_world = Ret w' \<and> map_of (ds_content (w_devs w')) ''d1'' = Some []"
  by (rule dm_failed_unmount_wipes_device [where m = "\<lparr>activity = 1, mnt_path = ''/tmp/m''\<rparr>" and ks = "[]"
        and files = "[(''/rootfs'', Dir), (''/rootfs/etc'', Dir)]"])
    (simp_all add: stuck_world_def demo_devices_def demo_fs_def mount_count_def rooted_def)

end
