(* ===== verification/DeviceIDs.thy ===== *)
theory DeviceIDs
  imports Prelude
begin

unbundle bit_operations_syntax

text \<open>
  Allocation of thin device ids in \<open>daemon/graphdriver/devmapper/deviceset.go\<close>: ids are 24 bit, the
  bitmap \<open>deviceIDMap\<close> has a bit for each of them, and \<open>NextDeviceID\<close> runs through them and wraps around.
  An id is a Go \<open>int\<close>; one that comes from a metadata file may be negative, and then indexing the bitmap
  panics or, next to zero, hits the first byte with an empty mask.
\<close>

section \<open>The bitmap\<close>

definition maxDeviceID :: int where "maxDeviceID = 0xffffff"
definition deviceIDMapSz :: nat where "deviceIDMapSz = 2097152"

text \<open>Go's quotient and remainder by 8, which truncate towards zero, and \<open>1 << uint(i)\<close> in a byte.\<close>

definition quot8 :: "int \<Rightarrow> int" where
  "quot8 k = (if k < 0 then - ((- k) div 8) else k div 8)"

definition rem8 :: "int \<Rightarrow> int" where
  "rem8 k = k - 8 * quot8 k"

definition bit_mask :: "int \<Rightarrow> 8 word" where
  "bit_mask i = (if i < 0 then 0 else push_bit (nat i) 1)"

definition at_byte :: "int \<Rightarrow> 8 word list \<Rightarrow> 8 word outcome" where
  "at_byte i m = (if 0 \<le> i \<and> i < int (length m) then Ret (m ! nat i) else Panic ''index out of range'')"

definition markDeviceIDUsed :: "int \<Rightarrow> 8 word list \<Rightarrow> 8 word list outcome" where
  "markDeviceIDUsed deviceID m =
     (let mask = bit_mask (rem8 deviceID)
      in bind_outcome (at_byte (quot8 deviceID) m) (\<lambda>b. Ret (m[nat (quot8 deviceID) := b OR mask])))"

definition markDeviceIDFree :: "int \<Rightarrow> 8 word list \<Rightarrow> 8 word list outcome" where
  "markDeviceIDFree deviceID m =
     (let mask = NOT (bit_mask (rem8 deviceID))
      in bind_outcome (at_byte (quot8 deviceID) m) (\<lambda>b. Ret (m[nat (quot8 deviceID) := b AND mask])))"

definition isDeviceIDFree :: "int \<Rightarrow> 8 word list \<Rightarrow> bool outcome" where
  "isDeviceIDFree deviceID m =
     (let mask = bit_mask (rem8 deviceID)
      in bind_outcome (at_byte (quot8 deviceID) m) (\<lambda>b. Ret (\<not> (b AND mask) \<noteq> 0)))"

text \<open>\<open>constructDeviceIDMap\<close> marks the ids of the loaded devices.\<close>

fun constructDeviceIDMap :: "int list \<Rightarrow> 8 word list \<Rightarrow> 8 word list outcome" where
  "constructDeviceIDMap [] m = Ret m"
| "constructDeviceIDMap (k # ks) m = bind_outcome (markDeviceIDUsed k m) (\<lambda>m'. constructDeviceIDMap ks m')"

section \<open>Allocation\<close>

definition incNextDeviceID :: "int \<Rightarrow> int" where
  "incNextDeviceID n = (n + 1) AND maxDeviceID"

definition ErrNoFreeDeviceID :: err where
  "ErrNoFreeDeviceID = ErrText ''devmapper: Unable to find a free device ID''"

text \<open>The result, \<open>NextDeviceID\<close> and the bitmap after the call.\<close>

fun free_id_loop :: "nat \<Rightarrow> int \<Rightarrow> 8 word list \<Rightarrow> (int res \<times> int \<times> 8 word list) outcome" where
  "free_id_loop 0 n m = Ret (Inl ErrNoFreeDeviceID, n, m)"
| "free_id_loop (Suc c) n m =
     bind_outcome (isDeviceIDFree n m) (\<lambda>free.
       if free then bind_outcome (markDeviceIDUsed n m) (\<lambda>m'. Ret (Inr n, n, m'))
       else free_id_loop c (incNextDeviceID n) m)"

definition getNextFreeDeviceID :: "int \<Rightarrow> 8 word list \<Rightarrow> (int res \<times> int \<times> 8 word list) outcome" where
  "getNextFreeDeviceID n m = free_id_loop (nat maxDeviceID + 1) (incNextDeviceID n) m"

section \<open>The bitmap as a set of ids\<close>

definition bitmap_ok :: "8 word list \<Rightarrow> bool" where
  "bitmap_ok m \<longleftrightarrow> length m = deviceIDMapSz"

definition valid_id :: "int \<Rightarrow> bool" where
  "valid_id k \<longleftrightarrow> 0 \<le> k \<and> k \<le> maxDeviceID"

definition used :: "8 word list \<Rightarrow> int \<Rightarrow> bool" where
  "used m k \<longleftrightarrow> bit (m ! nat (k div 8)) (nat (k mod 8))"

lemma valid_id_parts:
  assumes "valid_id k"
  shows "quot8 k = k div 8" "rem8 k = k mod 8" "0 \<le> k div 8" "0 \<le> k mod 8" "nat (k mod 8) < 8"
    "bitmap_ok m \<Longrightarrow> nat (k div 8) < length m"
  using assms by (auto simp: valid_id_def quot8_def rem8_def bitmap_ok_def deviceIDMapSz_def maxDeviceID_def
      minus_mult_div_eq_mod nat_less_iff)

lemma at_byte_valid: "valid_id k \<Longrightarrow> bitmap_ok m \<Longrightarrow> at_byte (k div 8) m = Ret (m ! nat (k div 8))"
  using valid_id_parts(3) [of k] valid_id_parts(6) [of k m] by (simp add: at_byte_def nat_less_iff)

lemma bit_mask_valid: "valid_id k \<Longrightarrow> bit (bit_mask (k mod 8)) i \<longleftrightarrow> i = nat (k mod 8)"
  using valid_id_parts(4,5) [of k] by (auto simp: bit_mask_def bit_exp_iff)

lemma same_bit:
  assumes "valid_id j" and "valid_id k"
  shows "nat (j div 8) = nat (k div 8) \<and> nat (j mod 8) = nat (k mod 8) \<longleftrightarrow> j = k"
proof
  assume "nat (j div 8) = nat (k div 8) \<and> nat (j mod 8) = nat (k mod 8)"
  then have "j div 8 = k div 8" "j mod 8 = k mod 8"
    using valid_id_parts(3,4) [OF assms(1)] valid_id_parts(3,4) [OF assms(2)] by (metis eq_nat_nat_iff)+
  then show "j = k" by (metis div_mult_mod_eq)
qed simp

lemma markDeviceIDUsed_valid:
  assumes "valid_id k" and "bitmap_ok m"
  shows "\<exists>m'. markDeviceIDUsed k m = Ret m' \<and> bitmap_ok m' \<and> (\<forall>j. valid_id j \<longrightarrow> used m' j \<longleftrightarrow> used m j \<or> j = k)"
proof -
  let ?m = "m[nat (k div 8) := m ! nat (k div 8) OR bit_mask (k mod 8)]"
  have "markDeviceIDUsed k m = Ret ?m"
    using valid_id_parts [OF assms(1)] at_byte_valid [OF assms] by (simp add: markDeviceIDUsed_def)
  moreover have "used ?m j \<longleftrightarrow> used m j \<or> j = k" if j: "valid_id j" for j
    using same_bit [OF j assms(1)] valid_id_parts(6) [OF assms] bit_mask_valid [OF assms(1)]
    by (auto simp: used_def nth_list_update bit_or_iff)
  ultimately show ?thesis using assms by (auto simp: bitmap_ok_def)
qed

lemma markDeviceIDFree_valid:
  assumes "valid_id k" and "bitmap_ok m"
  shows "\<exists>m'. markDeviceIDFree k m = Ret m' \<and> bitmap_ok m' \<and> (\<forall>j. valid_id j \<longrightarrow> used m' j \<longleftrightarrow> used m j \<and> j \<noteq> k)"
proof -
  let ?m = "m[nat (k div 8) := m ! nat (k div 8) AND NOT (bit_mask (k mod 8))]"
  have "markDeviceIDFree k m = Ret ?m"
    using valid_id_parts [OF assms(1)] at_byte_valid [OF assms] by (simp add: markDeviceIDFree_def)
  moreover have "used ?m j \<longleftrightarrow> used m j \<and> j \<noteq> k" if j: "valid_id j" for j
    using same_bit [OF j assms(1)] valid_id_parts(6) [OF assms] valid_id_parts(5) [OF j] bit_mask_valid [OF assms(1)]
    by (auto simp: used_def nth_list_update bit_and_iff bit_not_iff)
  ultimately show ?thesis using assms by (auto simp: bitmap_ok_def)
qed

lemma isDeviceIDFree_valid:
  assumes "valid_id k" and "bitmap_ok m"
  shows "isDeviceIDFree k m = Ret (\<not> used m k)"
proof -
  have "(m ! nat (k div 8) AND bit_mask (k mod 8) \<noteq> 0) \<longleftrightarrow> used m k"
  proof
    assume u: "used m k"
    then have "bit (m ! nat (k div 8) AND bit_mask (k mod 8)) (nat (k mod 8))"
      using bit_mask_valid [OF assms(1)] by (simp add: used_def bit_and_iff)
    then show "m ! nat (k div 8) AND bit_mask (k mod 8) \<noteq> 0" by (metis bit_0_eq bot_apply bot_bool_def)
  next
    assume "m ! nat (k div 8) AND bit_mask (k mod 8) \<noteq> 0"
    then obtain i where "bit (m ! nat (k div 8) AND bit_mask (k mod 8)) i" by (metis bit_word_eqI bit_0_eq bot_apply bot_bool_def)
    then show "used m k" using bit_mask_valid [OF assms(1)] by (auto simp: used_def bit_and_iff)
  qed
  then show ?thesis using valid_id_parts(1,2) [OF assms(1)] at_byte_valid [OF assms] by (simp add: isDeviceIDFree_def) blast
qed

lemma constructDeviceIDMap_valid:
  assumes "list_all valid_id ks" and "bitmap_ok m"
  shows "\<exists>m'. constructDeviceIDMap ks m = Ret m' \<and> bitmap_ok m' \<and> (\<forall>j. valid_id j \<longrightarrow> used m' j \<longleftrightarrow> used m j \<or> j \<in> set ks)"
  using assms
proof (induction ks arbitrary: m)
  case (Cons k ks)
  from markDeviceIDUsed_valid [of k m] Cons.prems obtain m1 where m1: "markDeviceIDUsed k m = Ret m1" "bitmap_ok m1"
    "\<forall>j. valid_id j \<longrightarrow> used m1 j \<longleftrightarrow> used m j \<or> j = k" by auto
  with Cons.IH [of m1] Cons.prems show ?case by auto
qed simp

lemma used_empty: "valid_id k \<Longrightarrow> \<not> used (replicate deviceIDMapSz 0) k"
  using valid_id_parts(6) [of k "replicate deviceIDMapSz 0"] by (simp add: used_def bitmap_ok_def)

section \<open>The search\<close>

lemma incNextDeviceID_eq: "incNextDeviceID n = (n + 1) mod (maxDeviceID + 1)"
proof -
  have "maxDeviceID = mask 24" by (simp add: maxDeviceID_def mask_eq_exp_minus_1)
  then have "incNextDeviceID n = take_bit 24 (n + 1)" by (simp add: incNextDeviceID_def take_bit_eq_mask)
  then show ?thesis by (simp add: take_bit_eq_mod maxDeviceID_def)
qed

lemma valid_inc [simp]: "valid_id (incNextDeviceID n)"
  by (simp add: incNextDeviceID_eq valid_id_def maxDeviceID_def)

lemma inc_after: "incNextDeviceID ((n + i) mod (maxDeviceID + 1)) = (n + (i + 1)) mod (maxDeviceID + 1)"
  by (simp add: incNextDeviceID_eq mod_simps add.assoc)

text \<open>The loop looks at the ids \<open>n, n + 1, \<dots>\<close> modulo the number of ids and takes the first free one.\<close>

lemma free_id_loop_spec:
  assumes "bitmap_ok m"
  shows "(\<exists>i < c. (\<forall>j < i. used m ((n + int j) mod (maxDeviceID + 1))) \<and> \<not> used m ((n + int i) mod (maxDeviceID + 1)) \<and>
            (let k = (n + int i) mod (maxDeviceID + 1)
             in \<exists>m'. markDeviceIDUsed k m = Ret m' \<and> free_id_loop c (n mod (maxDeviceID + 1)) m = Ret (Inr k, k, m'))) \<or>
         ((\<forall>j < c. used m ((n + int j) mod (maxDeviceID + 1))) \<and>
            (\<exists>n'. free_id_loop c (n mod (maxDeviceID + 1)) m = Ret (Inl ErrNoFreeDeviceID, n', m)))"
proof (induction c arbitrary: n)
  case (Suc c)
  let ?k = "n mod (maxDeviceID + 1)"
  have v: "valid_id ?k" by (simp add: valid_id_def maxDeviceID_def)
  note free = isDeviceIDFree_valid [OF v assms]
  show ?case
  proof (cases "used m ?k")
    case False
    from markDeviceIDUsed_valid [OF v assms] False free show ?thesis
      by (intro disjI1 exI [of _ 0]) (auto simp: Let_def)
  next
    case True
    then have step: "free_id_loop (Suc c) ?k m = free_id_loop c ((n + 1) mod (maxDeviceID + 1)) m"
      using free inc_after [of n 0] by simp
    from Suc.IH [of "n + 1"] show ?thesis
    proof (elim disjE exE conjE)
      fix i assume i: "i < c" "\<forall>j < i. used m ((n + 1 + int j) mod (maxDeviceID + 1))"
        "\<not> used m ((n + 1 + int i) mod (maxDeviceID + 1))"
        "let k = (n + 1 + int i) mod (maxDeviceID + 1)
         in \<exists>m'. markDeviceIDUsed k m = Ret m' \<and> free_id_loop c ((n + 1) mod (maxDeviceID + 1)) m = Ret (Inr k, k, m')"
      have "used m ((n + int j) mod (maxDeviceID + 1))" if "j < Suc i" for j
        using i(2) True that by (cases j) (auto simp: algebra_simps)
      with i show ?thesis unfolding step
        by (intro disjI1 exI [of _ "Suc i"]) (auto simp: algebra_simps)
    next
      fix n' assume u: "\<forall>j < c. used m ((n + 1 + int j) mod (maxDeviceID + 1))"
        and r: "free_id_loop c ((n + 1) mod (maxDeviceID + 1)) m = Ret (Inl ErrNoFreeDeviceID, n', m)"
      have "used m ((n + int j) mod (maxDeviceID + 1))" if "j < Suc c" for j
        using u True that by (cases j) (auto simp: algebra_simps)
      with r show ?thesis unfolding step by blast
    qed
  qed
qed simp

lemma every_id_visited:
  assumes "valid_id k"
  obtains i where "i < nat maxDeviceID + 1" and "(n + int i) mod (maxDeviceID + 1) = k"
proof
  let ?i = "nat ((k - n) mod (maxDeviceID + 1))"
  show "?i < nat maxDeviceID + 1" by (simp add: maxDeviceID_def nat_less_iff)
  have "int ?i = (k - n) mod (maxDeviceID + 1)" by (simp add: maxDeviceID_def)
  then have "(n + int ?i) mod (maxDeviceID + 1) = k mod (maxDeviceID + 1)" by (simp add: mod_simps)
  also have "\<dots> = k" using assms by (simp add: valid_id_def)
  finally show "(n + int ?i) mod (maxDeviceID + 1) = k" .
qed

lemma getNextFree_first:
  assumes ok: "bitmap_ok m"
  shows "(\<exists>n'. getNextFreeDeviceID n m = Ret (Inl ErrNoFreeDeviceID, n', m) \<and> (\<forall>k. valid_id k \<longrightarrow> used m k)) \<or>
         (\<exists>i k m'. getNextFreeDeviceID n m = Ret (Inr k, k, m') \<and> k = (n + 1 + int i) mod (maxDeviceID + 1) \<and>
            (\<forall>j < i. used m ((n + 1 + int j) mod (maxDeviceID + 1))) \<and> valid_id k \<and> \<not> used m k \<and> bitmap_ok m' \<and>
            (\<forall>j. valid_id j \<longrightarrow> used m' j \<longleftrightarrow> used m j \<or> j = k))"
proof -
  let ?c = "nat maxDeviceID + 1" and ?n = "n + 1"
  have run: "getNextFreeDeviceID n m = free_id_loop ?c (?n mod (maxDeviceID + 1)) m"
    by (simp add: getNextFreeDeviceID_def incNextDeviceID_eq)
  from free_id_loop_spec [OF ok, of ?c ?n] show ?thesis
  proof (elim disjE exE conjE)
    fix i assume b: "\<forall>j < i. used m ((?n + int j) mod (maxDeviceID + 1))" and f: "\<not> used m ((?n + int i) mod (maxDeviceID + 1))" and
      r: "let k = (?n + int i) mod (maxDeviceID + 1)
         in \<exists>m'. markDeviceIDUsed k m = Ret m' \<and> free_id_loop ?c (?n mod (maxDeviceID + 1)) m = Ret (Inr k, k, m')"
    let ?k = "(?n + int i) mod (maxDeviceID + 1)"
    have v: "valid_id ?k" by (simp add: valid_id_def maxDeviceID_def)
    from markDeviceIDUsed_valid [OF v ok] obtain m' where
      m': "markDeviceIDUsed ?k m = Ret m'" "bitmap_ok m'" "\<forall>j. valid_id j \<longrightarrow> used m' j \<longleftrightarrow> used m j \<or> j = ?k" by blast
    with r have "free_id_loop ?c (?n mod (maxDeviceID + 1)) m = Ret (Inr ?k, ?k, m')" by (auto simp: Let_def)
    with run v b f m' show ?thesis by metis
  next
    fix n' assume u: "\<forall>j < ?c. used m ((?n + int j) mod (maxDeviceID + 1))" and
      r: "free_id_loop ?c (?n mod (maxDeviceID + 1)) m = Ret (Inl ErrNoFreeDeviceID, n', m)"
    have "used m k" if "valid_id k" for k using every_id_visited [OF that, of ?n] u by metis
    with run r show ?thesis by metis
  qed
qed

lemma getNextFree_cases:
  assumes ok: "bitmap_ok m"
  shows "(\<exists>n'. getNextFreeDeviceID n m = Ret (Inl ErrNoFreeDeviceID, n', m) \<and> (\<forall>k. valid_id k \<longrightarrow> used m k)) \<or>
         (\<exists>k m'. getNextFreeDeviceID n m = Ret (Inr k, k, m') \<and> valid_id k \<and> \<not> used m k \<and> bitmap_ok m' \<and>
            (\<forall>j. valid_id j \<longrightarrow> used m' j \<longleftrightarrow> used m j \<or> j = k))"
  using getNextFree_first [OF ok] by blast

text \<open>
  C33: \<open>getNextFreeDeviceID\<close> always returns, within as many rounds as there are ids: it fails, changing
  no bit, exactly when every id is used; otherwise it returns a valid id that was free, the first one after
  \<open>NextDeviceID\<close> in cyclic order, marks that id and no other as used, and moves \<open>NextDeviceID\<close> onto it.
\<close>

theorem getNextFreeDeviceID_correct:
  assumes ok: "bitmap_ok m"
  shows "(\<exists>n'. getNextFreeDeviceID n m = Ret (Inl ErrNoFreeDeviceID, n', m) \<and> (\<forall>k. valid_id k \<longrightarrow> used m k)) \<or>
         (\<exists>i k m'. getNextFreeDeviceID n m = Ret (Inr k, k, m') \<and> k = (n + 1 + int i) mod (maxDeviceID + 1) \<and>
            (\<forall>j < i. used m ((n + 1 + int j) mod (maxDeviceID + 1))) \<and> valid_id k \<and> \<not> used m k \<and> bitmap_ok m' \<and>
            (\<forall>j. valid_id j \<longrightarrow> used m' j \<longleftrightarrow> used m j \<or> j = k))"
  using getNextFree_first [OF ok] by blast

text \<open>
  A metadata file with a device id of \<open>-8\<close> or less makes \<open>constructDeviceIDMap\<close> panic at start-up;
  \<open>loadMetadata\<close> only refuses ids above the maximum.
\<close>

lemma negative_id_panics:
  "k \<le> - 8 \<Longrightarrow> constructDeviceIDMap (ks @ [k]) m \<noteq> Ret m'"
proof (induction ks arbitrary: m)
  case Nil
  then have "quot8 k < 0" by (auto simp: quot8_def)
  then show ?case by (auto simp: markDeviceIDUsed_def at_byte_def Let_def)
qed auto

lemma negative_id_panics_witness: "constructDeviceIDMap ([] @ [- 9]) (replicate deviceIDMapSz 0) \<noteq> Ret []"
  by (rule negative_id_panics) simp

lemma getNextFreeDeviceID_correct_witness:
  "bitmap_ok (replicate deviceIDMapSz 0) \<and> (\<exists>k m'. getNextFreeDeviceID 0 (replicate deviceIDMapSz 0) = Ret (Inr k, k, m') \<and> valid_id k)"
proof -
  have ok: "bitmap_ok (replicate deviceIDMapSz 0)" by (simp add: bitmap_ok_def)
  have "valid_id 0" by (simp add: valid_id_def maxDeviceID_def)
  with used_empty have "\<not> (\<forall>k. valid_id k \<longrightarrow> used (replicate deviceIDMapSz 0) k)" by blast
  with getNextFreeDeviceID_correct [OF ok, of 0] ok show ?thesis by blast
qed

end
