(* ===== verification/ThinPool.thy ===== *)
theory ThinPool
  imports DeviceSet DeviceIDs TarStorage
begin

text \<open>
  The life of thin devices in \<open>daemon/graphdriver/devmapper/deviceset.go\<close>: a metadata file for each
  device, the transaction file, the transaction id of the pool, registering, snapshotting and deleting
  devices, and the start-up that loads the metadata and rolls an interrupted transaction back.

  Where the theory \<open>DeviceSet\<close> has the mount side of the Go struct \<open>DeviceSet\<close>, the record \<open>thin_pool\<close> has its
  metadata side; it holds the mount side in \<open>tp_ds\<close>.  What survives a crash is the record \<open>disk\<close>: the
  metadata directory, by file name, and the thin pool the kernel keeps.  Every change of it is one atomic
  commit, recorded in \<open>tp_trace\<close>, so the states a crash can leave behind are the elements of the trace.
  Every system call first asks \<open>tp_faults\<close>, an arbitrary function, whether it fails.
\<close>

section \<open>Data\<close>

text \<open>The fields of \<open>devInfo\<close> that are stored in its metadata file, and the hash it is stored under.\<close>

record thin_info =
  ti_Hash :: string
  ti_DeviceID :: int
  ti_Size :: "64 word"
  ti_TransactionID :: "64 word"
  ti_Initialized :: bool
  ti_Deleted :: bool

record transaction =
  tx_OpenTransactionID :: "64 word"
  tx_DeviceIDHash :: string
  tx_DeviceID :: int

record disk =
  dk_files :: "(string \<times> blob) list"
  dk_old :: "blob option"
  dk_ids :: "int list"
  dk_tid :: "64 word"

datatype thin_op =
    MetaTemp string | MetaWrite string | MetaSync string | MetaClose string | MetaRename string
  | MetaRemove string | MetaRead string | MetaLstat string | OldRead | OldRename
  | PoolStatus | PoolCreate int | PoolSuspend string | PoolResume string | PoolDelete int | PoolSetTid
  | PoolInfo string

record thin_pool =
  tp_Devices :: "(string \<times> thin_info) list"
  tp_TransactionID :: "64 word"
  tp_NextDeviceID :: int
  tp_deviceIDMap :: "8 word list"
  tp_transaction :: transaction
  tp_baseFsSize :: "64 word"
  tp_doBlkDiscard :: bool
  tp_deferredDelete :: bool
  tp_nrDeletedDevices :: "64 word"
  tp_ds :: device_set
  tp_disk :: disk
  tp_trace :: "disk list"
  tp_faults :: "thin_op \<Rightarrow> err option"

definition commit :: "(disk \<Rightarrow> disk) \<Rightarrow> thin_pool \<Rightarrow> thin_pool" where
  "commit f s = s\<lparr>tp_disk := f (tp_disk s), tp_trace := f (tp_disk s) # tp_trace s\<rparr>"

definition put_file :: "string \<Rightarrow> blob \<Rightarrow> disk \<Rightarrow> disk" where
  "put_file name b d = d\<lparr>dk_files := AList.update name b (dk_files d)\<rparr>"

definition remove_file :: "string \<Rightarrow> disk \<Rightarrow> disk" where
  "remove_file name d = d\<lparr>dk_files := AList.delete name (dk_files d)\<rparr>"

definition deviceSetMetaFile :: string where "deviceSetMetaFile = ''deviceset-metadata''"
definition transactionMetaFile :: string where "transactionMetaFile = ''transaction-metadata''"

text \<open>The name of a device's file in \<open>metadataDir()\<close>; the base device has the empty hash.\<close>

definition metadataFile :: "string \<Rightarrow> string" where
  "metadataFile hash = (if hash = [] then ''base'' else hash)"

section \<open>Encoding\<close>

definition encode_info :: "thin_info \<Rightarrow> json" where
  "encode_info i =
     JObj [(''device_id'', JInt (ti_DeviceID i)), (''size'', JInt (uint (ti_Size i))),
           (''transaction_id'', JInt (uint (ti_TransactionID i))),
           (''initialized'', JBool (ti_Initialized i)), (''deleted'', JBool (ti_Deleted i))]"

definition encode_transaction :: "transaction \<Rightarrow> json" where
  "encode_transaction t =
     JObj [(''open_transaction_id'', JInt (uint (tx_OpenTransactionID t))),
           (''device_hash'', JStr (coerce_utf8 (tx_DeviceIDHash t))), (''device_id'', JInt (tx_DeviceID t))]"

definition decode_uint :: "json \<Rightarrow> 64 word \<Rightarrow> 64 word res" where
  "decode_uint j old =
     (case j of
        JInt i \<Rightarrow> if 0 \<le> i \<and> i < 2 ^ 64 then Inr (word_of_int i) else Inl ErrUnmarshalType
      | JNull \<Rightarrow> Inr old
      | _ \<Rightarrow> Inl ErrUnmarshalType)"

definition decode_goint :: "json \<Rightarrow> int \<Rightarrow> int res" where
  "decode_goint j old =
     (case j of
        JInt i \<Rightarrow> if - (2 ^ 63) \<le> i \<and> i < 2 ^ 63 then Inr i else Inl ErrUnmarshalType
      | JNull \<Rightarrow> Inr old
      | _ \<Rightarrow> Inl ErrUnmarshalType)"

definition decode_bool :: "json \<Rightarrow> bool \<Rightarrow> bool res" where
  "decode_bool j old = (case j of JBool b \<Rightarrow> Inr b | JNull \<Rightarrow> Inr old | _ \<Rightarrow> Inl ErrUnmarshalType)"

text \<open>Setting a field, or remembering the first mismatch.\<close>

definition keep_first :: "'a \<times> err option \<Rightarrow> 'a res \<Rightarrow> 'a \<times> err option" where
  "keep_first st r =
     (case r of
        Inl x \<Rightarrow> (fst st, case snd st of None \<Rightarrow> Some x | Some y \<Rightarrow> Some y)
      | Inr v \<Rightarrow> (v, snd st))"

definition decode_info_field :: "string \<times> json \<Rightarrow> thin_info \<times> err option \<Rightarrow> thin_info \<times> err option" where
  "decode_info_field kv st =
     (let i = fst st; k = fold_key (fst kv); j = snd kv
      in if k = ''device_id'' then keep_first st (map_sum id (\<lambda>v. i\<lparr>ti_DeviceID := v\<rparr>) (decode_goint j (ti_DeviceID i)))
         else if k = ''size'' then keep_first st (map_sum id (\<lambda>v. i\<lparr>ti_Size := v\<rparr>) (decode_uint j (ti_Size i)))
         else if k = ''transaction_id'' then
           keep_first st (map_sum id (\<lambda>v. i\<lparr>ti_TransactionID := v\<rparr>) (decode_uint j (ti_TransactionID i)))
         else if k = ''initialized'' then keep_first st (map_sum id (\<lambda>v. i\<lparr>ti_Initialized := v\<rparr>) (decode_bool j (ti_Initialized i)))
         else if k = ''deleted'' then keep_first st (map_sum id (\<lambda>v. i\<lparr>ti_Deleted := v\<rparr>) (decode_bool j (ti_Deleted i)))
         else st)"

definition decode_transaction_field ::
  "string \<times> json \<Rightarrow> transaction \<times> err option \<Rightarrow> transaction \<times> err option" where
  "decode_transaction_field kv st =
     (let t = fst st; k = fold_key (fst kv); j = snd kv
      in if k = ''open_transaction_id'' then
           keep_first st (map_sum id (\<lambda>v. t\<lparr>tx_OpenTransactionID := v\<rparr>) (decode_uint j (tx_OpenTransactionID t)))
         else if k = ''device_hash'' then
           keep_first st (map_sum id (\<lambda>v. t\<lparr>tx_DeviceIDHash := v\<rparr>) (decode_string j (tx_DeviceIDHash t)))
         else if k = ''device_id'' then
           keep_first st (map_sum id (\<lambda>v. t\<lparr>tx_DeviceID := v\<rparr>) (decode_goint j (tx_DeviceID t)))
         else st)"

section \<open>Metadata files\<close>

definition temp_file :: "(string \<times> blob) list \<Rightarrow> string option" where
  "temp_file files =
     find (\<lambda>name. map_of files name = None) (map (\<lambda>n. ''.tmp'' @ show_nat n) [0..<length files + 1])"

definition writeMetaFile :: "json \<Rightarrow> string \<Rightarrow> thin_pool \<Rightarrow> err option \<times> thin_pool" where
  "writeMetaFile jsonData file s =
     (case tp_faults s (MetaTemp file) of
        Some e \<Rightarrow> (Some (ErrText ''devmapper: Error creating metadata file''), s)
      | None \<Rightarrow>
          (case temp_file (dk_files (tp_disk s)) of
             None \<Rightarrow> (Some (ErrText ''devmapper: Error creating metadata file''), s)
           | Some tmp \<Rightarrow>
               (let s1 = commit (put_file tmp (Raw [])) s
                in case tp_faults s (MetaWrite file) of
                     Some e \<Rightarrow> (Some (ErrText ''devmapper: Error writing metadata''), s1)
                   | None \<Rightarrow>
                       (let s2 = commit (put_file tmp (JsonDoc jsonData)) s1
                        in case tp_faults s (MetaSync file) of
                             Some e \<Rightarrow> (Some (ErrText ''devmapper: Error syncing metadata file''), s2)
                           | None \<Rightarrow>
                               (case tp_faults s (MetaClose file) of
                                  Some e \<Rightarrow> (Some (ErrText ''devmapper: Error closing metadata file''), s2)
                                | None \<Rightarrow>
                                    (case tp_faults s (MetaRename file) of
                                       Some e \<Rightarrow> (Some (ErrText ''devmapper: Error committing metadata file''), s2)
                                     | None \<Rightarrow> (None, commit (\<lambda>d. put_file file (JsonDoc jsonData) (remove_file tmp d)) s2)))))))"

definition saveMetadata :: "thin_info \<Rightarrow> thin_pool \<Rightarrow> err option \<times> thin_pool" where
  "saveMetadata info s = writeMetaFile (encode_info info) (metadataFile (ti_Hash info)) s"

definition remove_meta :: "string \<Rightarrow> thin_pool \<Rightarrow> err option \<times> thin_pool" where
  "remove_meta file s =
     (case tp_faults s (MetaRemove file) of
        Some e \<Rightarrow> (Some e, s)
      | None \<Rightarrow> (None, commit (remove_file file) s))"

definition removeMetadata :: "string \<Rightarrow> thin_pool \<Rightarrow> err option \<times> thin_pool" where
  "removeMetadata hash s =
     (case remove_meta (metadataFile hash) s of
        (Some e, s1) \<Rightarrow> (Some (ErrText ''devmapper: Error removing metadata file''), s1)
      | (None, s1) \<Rightarrow> (None, s1))"

definition read_meta :: "string \<Rightarrow> thin_pool \<Rightarrow> blob res" where
  "read_meta file s =
     (case tp_faults s (MetaRead file) of
        Some e \<Rightarrow> Inl e
      | None \<Rightarrow> (case map_of (dk_files (tp_disk s)) file of None \<Rightarrow> Inl ENOENT | Some b \<Rightarrow> Inr b))"

text \<open>
  \<open>loadMetadata\<close>: \<open>None\<close> is nil.  Unmarshalling \<open>null\<close> into the pointer sets it to nil, and the test of
  the id that follows dereferences it.
\<close>

definition decode_info :: "string \<Rightarrow> blob \<Rightarrow> thin_info option outcome" where
  "decode_info hash b =
     (let zero = \<lparr>ti_Hash = hash, ti_DeviceID = 0, ti_Size = 0, ti_TransactionID = 0, ti_Initialized = False, ti_Deleted = False\<rparr>
      in case b of
           JsonDoc JNull \<Rightarrow> Panic ''invalid memory address or nil pointer dereference''
         | JsonDoc (JObj kvs) \<Rightarrow>
             (case fold decode_info_field kvs (zero, None) of
                (info, Some e) \<Rightarrow> Ret None
              | (info, None) \<Rightarrow> if ti_DeviceID info > maxDeviceID then Ret None else Ret (Some info))
         | _ \<Rightarrow> Ret None)"

definition loadMetadata :: "string \<Rightarrow> thin_pool \<Rightarrow> thin_info option outcome" where
  "loadMetadata hash s =
     (case read_meta (metadataFile hash) s of Inl e \<Rightarrow> Ret None | Inr b \<Rightarrow> decode_info hash b)"

definition thin_lookupDevice :: "string \<Rightarrow> thin_pool \<Rightarrow> (thin_info res \<times> thin_pool) outcome" where
  "thin_lookupDevice hash s =
     (case map_of (tp_Devices s) hash of
        Some info \<Rightarrow> Ret (Inr info, s)
      | None \<Rightarrow>
          bind_outcome (loadMetadata hash s) (\<lambda>r.
            case r of
              None \<Rightarrow> Ret (Inl (ErrText (''devmapper: Unknown device '' @ hash)), s)
            | Some info \<Rightarrow> Ret (Inr info, s\<lparr>tp_Devices := AList.update hash info (tp_Devices s)\<rparr>)))"

definition HasDevice :: "string \<Rightarrow> thin_pool \<Rightarrow> (bool \<times> thin_pool) outcome" where
  "HasDevice hash s = bind_outcome (thin_lookupDevice hash s) (\<lambda>(r, s1). Ret (res_ok r, s1))"

definition List_devices :: "thin_pool \<Rightarrow> string list" where
  "List_devices s = map fst (tp_Devices s)"

definition getBaseDeviceSize :: "thin_pool \<Rightarrow> (64 word \<times> thin_pool) outcome" where
  "getBaseDeviceSize s =
     bind_outcome (thin_lookupDevice [] s) (\<lambda>(r, s1). Ret (case r of Inl _ \<Rightarrow> 0 | Inr info \<Rightarrow> ti_Size info, s1))"

section \<open>The thin pool\<close>

text \<open>
  Messages to the kernel's pool.  It refuses to create an id that exists, to snapshot or delete one that
  does not, and to set the transaction id when the old one given is not the current one.
\<close>

definition ErrDeviceIDExists :: err where "ErrDeviceIDExists = ErrText ''Device Id Exists''"
definition ENODATA :: err where "ENODATA = EOther 61"
definition EINVAL :: err where "EINVAL = EOther 22"

definition dm_CreateDevice :: "int \<Rightarrow> thin_pool \<Rightarrow> err option \<times> thin_pool" where
  "dm_CreateDevice k s =
     (case tp_faults s (PoolCreate k) of
        Some e \<Rightarrow> (Some e, s)
      | None \<Rightarrow>
          if k \<in> set (dk_ids (tp_disk s)) then (Some ErrDeviceIDExists, s)
          else (None, commit (\<lambda>d. d\<lparr>dk_ids := k # dk_ids d\<rparr>) s))"

text \<open>\<open>CreateSnapDevice\<close> suspends the base device while it is active and resumes it afterwards.\<close>

definition dm_CreateSnapDevice :: "thin_info \<Rightarrow> int \<Rightarrow> thin_pool \<Rightarrow> err option \<times> thin_pool" where
  "dm_CreateSnapDevice base k s =
     (let doSuspend = (tp_faults s (PoolInfo (ti_Hash base)) = None \<and> ti_Hash base \<in> set (ds_active (tp_ds s)));
          suspend = (if doSuspend then tp_faults s (PoolSuspend (ti_Hash base)) else None);
          resume = (if doSuspend then tp_faults s (PoolResume (ti_Hash base)) else None)
      in case suspend of
           Some e \<Rightarrow> (Some e, s)
         | None \<Rightarrow>
             (case tp_faults s (PoolCreate k) of
                Some e \<Rightarrow> (Some e, s)
              | None \<Rightarrow>
                  if k \<in> set (dk_ids (tp_disk s)) then (Some ErrDeviceIDExists, s)
                  else if ti_DeviceID base \<notin> set (dk_ids (tp_disk s)) then (Some ENODATA, s)
                  else (resume, commit (\<lambda>d. d\<lparr>dk_ids := k # dk_ids d\<rparr>) s)))"

definition dm_DeleteDevice :: "int \<Rightarrow> thin_pool \<Rightarrow> err option \<times> thin_pool" where
  "dm_DeleteDevice k s =
     (case tp_faults s (PoolDelete k) of
        Some e \<Rightarrow> (Some e, s)
      | None \<Rightarrow>
          if k \<notin> set (dk_ids (tp_disk s)) then (Some ENODATA, s)
          else (None, commit (\<lambda>d. d\<lparr>dk_ids := removeAll k (dk_ids d)\<rparr>) s))"

definition SetTransactionID :: "64 word \<Rightarrow> 64 word \<Rightarrow> thin_pool \<Rightarrow> err option \<times> thin_pool" where
  "SetTransactionID oldID newID s =
     (case tp_faults s PoolSetTid of
        Some e \<Rightarrow> (Some e, s)
      | None \<Rightarrow>
          if dk_tid (tp_disk s) \<noteq> oldID then (Some EINVAL, s)
          else (None, commit (\<lambda>d. d\<lparr>dk_tid := newID\<rparr>) s))"

section \<open>Transactions\<close>

definition allocateTransactionID :: "thin_pool \<Rightarrow> thin_pool" where
  "allocateTransactionID s =
     s\<lparr>tp_transaction := (tp_transaction s)\<lparr>tx_OpenTransactionID := tp_TransactionID s + 1\<rparr>\<rparr>"

definition updatePoolTransactionID :: "thin_pool \<Rightarrow> err option \<times> thin_pool" where
  "updatePoolTransactionID s =
     (case SetTransactionID (tp_TransactionID s) (tx_OpenTransactionID (tp_transaction s)) s of
        (Some e, s1) \<Rightarrow> (Some (ErrText ''devmapper: Error setting devmapper transaction ID''), s1)
      | (None, s1) \<Rightarrow> (None, s1\<lparr>tp_TransactionID := tx_OpenTransactionID (tp_transaction s1)\<rparr>))"

definition saveTransactionMetaData :: "thin_pool \<Rightarrow> err option \<times> thin_pool" where
  "saveTransactionMetaData s = writeMetaFile (encode_transaction (tp_transaction s)) transactionMetaFile s"

definition removeTransactionMetaData :: "thin_pool \<Rightarrow> err option \<times> thin_pool" where
  "removeTransactionMetaData s = remove_meta transactionMetaFile s"

definition openTransaction :: "string \<Rightarrow> int \<Rightarrow> thin_pool \<Rightarrow> err option \<times> thin_pool" where
  "openTransaction hash deviceID s =
     (let s1 = allocateTransactionID s;
          s2 = s1\<lparr>tp_transaction := (tp_transaction s1)\<lparr>tx_DeviceIDHash := hash, tx_DeviceID := deviceID\<rparr>\<rparr>
      in case saveTransactionMetaData s2 of
           (Some e, s3) \<Rightarrow> (Some (ErrText ''devmapper: Error saving transaction metadata''), s3)
         | (None, s3) \<Rightarrow> (None, s3))"

definition refreshTransaction :: "int \<Rightarrow> thin_pool \<Rightarrow> err option \<times> thin_pool" where
  "refreshTransaction deviceID s =
     (case saveTransactionMetaData (s\<lparr>tp_transaction := (tp_transaction s)\<lparr>tx_DeviceID := deviceID\<rparr>\<rparr>) of
        (Some e, s1) \<Rightarrow> (Some (ErrText ''devmapper: Error saving transaction metadata''), s1)
      | (None, s1) \<Rightarrow> (None, s1))"

definition closeTransaction :: "thin_pool \<Rightarrow> err option \<times> thin_pool" where
  "closeTransaction s = updatePoolTransactionID s"

section \<open>Creating devices\<close>

definition thin_markFree :: "int \<Rightarrow> thin_pool \<Rightarrow> thin_pool outcome" where
  "thin_markFree k s = bind_outcome (markDeviceIDFree k (tp_deviceIDMap s)) (\<lambda>m. Ret (s\<lparr>tp_deviceIDMap := m\<rparr>))"

definition thin_nextID :: "thin_pool \<Rightarrow> (int res \<times> thin_pool) outcome" where
  "thin_nextID s =
     bind_outcome (getNextFreeDeviceID (tp_NextDeviceID s) (tp_deviceIDMap s)) (\<lambda>(r, n, m).
       Ret (r, s\<lparr>tp_NextDeviceID := n, tp_deviceIDMap := m\<rparr>))"

definition unregisterDevice :: "string \<Rightarrow> thin_pool \<Rightarrow> err option \<times> thin_pool" where
  "unregisterDevice hash s = removeMetadata hash (s\<lparr>tp_Devices := AList.delete hash (tp_Devices s)\<rparr>)"

definition registerDevice ::
  "int \<Rightarrow> string \<Rightarrow> 64 word \<Rightarrow> 64 word \<Rightarrow> thin_pool \<Rightarrow> thin_info res \<times> thin_pool" where
  "registerDevice k hash sz transactionID s =
     (let info = \<lparr>ti_Hash = hash, ti_DeviceID = k, ti_Size = sz, ti_TransactionID = transactionID,
                  ti_Initialized = False, ti_Deleted = False\<rparr>;
          s1 = s\<lparr>tp_Devices := AList.update hash info (tp_Devices s)\<rparr>
      in case saveMetadata info s1 of
           (Some e, s2) \<Rightarrow> (Inl e, s2\<lparr>tp_Devices := AList.delete hash (tp_Devices s2)\<rparr>)
         | (None, s2) \<Rightarrow> (Inr info, s2))"

text \<open>
  The loop both functions below contain: as long as the pool already has the id, take the next free one
  and write it into the transaction file (an error of that is ignored).  Every round marks another id
  as used, so the fuel never runs out.
\<close>

fun create_loop ::
  "nat \<Rightarrow> (int \<Rightarrow> thin_pool \<Rightarrow> err option \<times> thin_pool) \<Rightarrow> int \<Rightarrow> thin_pool \<Rightarrow> (int res \<times> thin_pool) outcome" where
  "create_loop 0 create k s = Diverge"
| "create_loop (Suc n) create k s =
     (case create k s of
        (None, s1) \<Rightarrow> Ret (Inr k, s1)
      | (Some e, s1) \<Rightarrow>
          if e = ErrDeviceIDExists then
            bind_outcome (thin_nextID s1) (\<lambda>(r, s2).
              case r of
                Inl e \<Rightarrow> Ret (Inl e, s2)
              | Inr k' \<Rightarrow> (case refreshTransaction k' s2 of (_, s3) \<Rightarrow> create_loop n create k' s3))
          else bind_outcome (thin_markFree k s1) (\<lambda>s2. Ret (Inl e, s2)))"

definition create_fuel :: nat where "create_fuel = nat maxDeviceID + 2"

text \<open>The common body: the message that creates the device and the size to register are arguments.\<close>

definition create_register ::
  "(int \<Rightarrow> thin_pool \<Rightarrow> err option \<times> thin_pool) \<Rightarrow> string \<Rightarrow> 64 word \<Rightarrow> thin_pool \<Rightarrow> (thin_info res \<times> thin_pool) outcome" where
  "create_register create hash sz s =
     bind_outcome (thin_nextID s) (\<lambda>(r, s1).
       case r of
         Inl e \<Rightarrow> Ret (Inl e, s1)
       | Inr k0 \<Rightarrow>
           (case openTransaction hash k0 s1 of
              (Some e, s2) \<Rightarrow> bind_outcome (thin_markFree k0 s2) (\<lambda>s3. Ret (Inl e, s3))
            | (None, s2) \<Rightarrow>
                bind_outcome (create_loop create_fuel create k0 s2) (\<lambda>(r, s3).
                  case r of
                    Inl e \<Rightarrow> Ret (Inl e, s3)
                  | Inr k \<Rightarrow>
                      (case registerDevice k hash sz (tx_OpenTransactionID (tp_transaction s3)) s3 of
                         (Inl e, s4) \<Rightarrow>
                           (case dm_DeleteDevice k s4 of
                              (_, s5) \<Rightarrow> bind_outcome (thin_markFree k s5) (\<lambda>s6. Ret (Inl e, s6)))
                       | (Inr info, s4) \<Rightarrow>
                           (case closeTransaction s4 of
                              (None, s5) \<Rightarrow> Ret (Inr info, s5)
                            | (Some e, s5) \<Rightarrow>
                                (case unregisterDevice hash s5 of
                                   (_, s6) \<Rightarrow>
                                     (case dm_DeleteDevice k s6 of
                                        (_, s7) \<Rightarrow> bind_outcome (thin_markFree k s7) (\<lambda>s8. Ret (Inl e, s8)))))))))"

definition createRegisterDevice :: "string \<Rightarrow> thin_pool \<Rightarrow> (thin_info res \<times> thin_pool) outcome" where
  "createRegisterDevice hash s = create_register dm_CreateDevice hash (tp_baseFsSize s) s"

definition createRegisterSnapDevice :: "string \<Rightarrow> thin_info \<Rightarrow> thin_pool \<Rightarrow> (err option \<times> thin_pool) outcome" where
  "createRegisterSnapDevice hash base s =
     bind_outcome (create_register (dm_CreateSnapDevice base) hash (ti_Size base) s) (\<lambda>(r, s1).
       Ret (case r of Inl e \<Rightarrow> Some e | Inr _ \<Rightarrow> None, s1))"

definition AddDevice :: "string \<Rightarrow> string \<Rightarrow> thin_pool \<Rightarrow> (err option \<times> thin_pool) outcome" where
  "AddDevice hash baseHash s =
     bind_outcome (thin_lookupDevice baseHash s) (\<lambda>(r, s1).
       case r of
         Inl e \<Rightarrow> Ret (Some e, s1)
       | Inr base \<Rightarrow>
           if ti_Deleted base then
             Ret (Some (ErrText (''devmapper: Base device '' @ ti_Hash base @ '' has been marked for deferred deletion'')), s1)
           else
             bind_outcome (thin_lookupDevice hash s1) (\<lambda>(r, s2).
               case r of
                 Inr info \<Rightarrow> Ret (Some (ErrText (''devmapper: device '' @ hash @ '' already exists.'')), s2)
               | Inl _ \<Rightarrow> createRegisterSnapDevice hash base s2))"

section \<open>Deleting devices\<close>

definition set_thin :: "thin_info \<Rightarrow> thin_pool \<Rightarrow> thin_pool" where
  "set_thin info s = s\<lparr>tp_Devices := AList.update (ti_Hash info) info (tp_Devices s)\<rparr>"

definition markForDeferredDeletion :: "thin_info \<Rightarrow> thin_pool \<Rightarrow> err option \<times> thin_pool" where
  "markForDeferredDeletion info s =
     (if ti_Deleted info then (None, s)
      else
        (let info1 = info\<lparr>ti_Deleted := True\<rparr>
         in case saveMetadata info1 (set_thin info1 s) of
              (Some e, s1) \<Rightarrow> (Some e, set_thin info s1)
            | (None, s1) \<Rightarrow> (None, s1\<lparr>tp_nrDeletedDevices := tp_nrDeletedDevices s1 + 1\<rparr>)))"

text \<open>The deferred \<open>closeTransaction\<close> runs last on every path once the transaction is open.\<close>

definition deleteTransaction :: "thin_info \<Rightarrow> bool \<Rightarrow> thin_pool \<Rightarrow> (err option \<times> thin_pool) outcome" where
  "deleteTransaction info syncDelete s =
     (case openTransaction (ti_Hash info) (ti_DeviceID info) s of
        (Some e, s1) \<Rightarrow> Ret (Some e, s1)
      | (None, s1) \<Rightarrow>
          bind_outcome
            (case dm_DeleteDevice (ti_DeviceID info) s1 of
               (Some e, s2) \<Rightarrow>
                 if syncDelete \<or> \<not> tp_deferredDelete s2 \<or> e \<noteq> ErrBusy then Ret (Some e, s2)
                 else Ret (markForDeferredDeletion info s2)
             | (None, s2) \<Rightarrow>
                 (case unregisterDevice (ti_Hash info) s2 of
                    (Some e, s3) \<Rightarrow> Ret (Some e, s3)
                  | (None, s3) \<Rightarrow>
                      (let s4 = (if ti_Deleted info then s3\<lparr>tp_nrDeletedDevices := tp_nrDeletedDevices s3 - 1\<rparr> else s3)
                       in bind_outcome (thin_markFree (ti_DeviceID info) s4) (\<lambda>s5. Ret (None, s5)))))
            (\<lambda>(er, s'). case closeTransaction s' of (_, s'') \<Rightarrow> Ret (er, s'')))"

text \<open>\<open>issueDiscard\<close>: its error is ignored, and the discard itself changes no state of the model.\<close>

definition issueDiscard :: "thin_info \<Rightarrow> thin_pool \<Rightarrow> err option \<times> thin_pool" where
  "issueDiscard info s =
     (case activateDeviceIfNeeded (ti_Hash info) \<lparr>di_Deleted = ti_Deleted info, di_mountCount = 0, di_mountPath = []\<rparr> True (tp_ds s) of
        (r, ds1) \<Rightarrow> (case r of Some e \<Rightarrow> Some e | None \<Rightarrow> ds_faults ds1 DmGetInfo (ti_Hash info), s\<lparr>tp_ds := ds1\<rparr>))"

definition deleteDevice :: "thin_info \<Rightarrow> bool \<Rightarrow> thin_pool \<Rightarrow> (err option \<times> thin_pool) outcome" where
  "deleteDevice info syncDelete s =
     (let s1 = (if tp_doBlkDiscard s then snd (issueDiscard info s) else s)
      in case deactivateDevice (ti_Hash info) (tp_ds s1) of
           (Some e, ds1) \<Rightarrow> Ret (Some e, s1\<lparr>tp_ds := ds1\<rparr>)
         | (None, ds1) \<Rightarrow> deleteTransaction info syncDelete (s1\<lparr>tp_ds := ds1\<rparr>))"

text \<open>The mount count of a device is kept on the mount side.\<close>

definition thin_DeleteDevice :: "string \<Rightarrow> bool \<Rightarrow> thin_pool \<Rightarrow> (err option \<times> thin_pool) outcome" where
  "thin_DeleteDevice hash syncDelete s =
     bind_outcome (thin_lookupDevice hash s) (\<lambda>(r, s1).
       case r of
         Inl e \<Rightarrow> Ret (Some e, s1)
       | Inr info \<Rightarrow>
           if (case map_of (ds_Devices (tp_ds s1)) hash of Some i \<Rightarrow> di_mountCount i | None \<Rightarrow> 0) \<noteq> 0 then
             Ret (Some (ErrText (''devmapper: Can't delete device '' @ hash @ '' as it is still mounted.'')), s1)
           else deleteDevice info syncDelete s1)"

fun delete_all :: "thin_info list \<Rightarrow> thin_pool \<Rightarrow> thin_pool outcome" where
  "delete_all [] s = Ret s"
| "delete_all (info # is) s =
     bind_outcome (thin_DeleteDevice (ti_Hash info) False s) (\<lambda>(_, s1). delete_all is s1)"

definition cleanupDeletedDevices :: "thin_pool \<Rightarrow> thin_pool outcome" where
  "cleanupDeletedDevices s =
     (if tp_nrDeletedDevices s = 0 then Ret s
      else delete_all (filter ti_Deleted (map snd (tp_Devices s))) s)"

definition countDeletedDevices :: "thin_pool \<Rightarrow> thin_pool" where
  "countDeletedDevices s =
     fold (\<lambda>info s. if \<not> ti_Deleted info then s else s\<lparr>tp_nrDeletedDevices := tp_nrDeletedDevices s + 1\<rparr>)
       (map snd (tp_Devices s)) s"

section \<open>Start-up\<close>

definition loadTransactionMetaData :: "thin_pool \<Rightarrow> err option \<times> thin_pool" where
  "loadTransactionMetaData s =
     (case read_meta transactionMetaFile s of
        Inl e \<Rightarrow>
          if os_IsNotExist e
          then (None, s\<lparr>tp_transaction := (tp_transaction s)\<lparr>tx_OpenTransactionID := tp_TransactionID s\<rparr>\<rparr>)
          else (Some e, s)
      | Inr b \<Rightarrow>
          (None,
           case b of
             JsonDoc (JObj kvs) \<Rightarrow> s\<lparr>tp_transaction := fst (fold decode_transaction_field kvs (tp_transaction s, None))\<rparr>
           | _ \<Rightarrow> s))"

definition rollbackTransaction :: "thin_pool \<Rightarrow> thin_pool outcome" where
  "rollbackTransaction s =
     (case dm_DeleteDevice (tx_DeviceID (tp_transaction s)) s of
        (_, s1) \<Rightarrow>
          bind_outcome
            (case removeMetadata (tx_DeviceIDHash (tp_transaction s1)) s1 of
               (Some e, s2) \<Rightarrow> Ret s2
             | (None, s2) \<Rightarrow> thin_markFree (tx_DeviceID (tp_transaction s2)) s2)
            (\<lambda>s3. case removeTransactionMetaData s3 of (_, s4) \<Rightarrow> Ret s4))"

definition processPendingTransaction :: "thin_pool \<Rightarrow> (err option \<times> thin_pool) outcome" where
  "processPendingTransaction s =
     (case loadTransactionMetaData s of
        (Some e, s1) \<Rightarrow> Ret (Some e, s1)
      | (None, s1) \<Rightarrow>
          if tp_TransactionID s1 = tx_OpenTransactionID (tp_transaction s1) then Ret (None, s1)
          else if tx_OpenTransactionID (tp_transaction s1) < tp_TransactionID s1 then Ret (None, s1)
          else
            bind_outcome (rollbackTransaction s1) (\<lambda>s2.
              Ret (None, s2\<lparr>tp_transaction := (tp_transaction s2)\<lparr>tx_OpenTransactionID := tp_TransactionID s2\<rparr>\<rparr>)))"

text \<open>Files in the metadata directory that are no device files.\<close>

definition skipped_file :: "string \<Rightarrow> bool" where
  "skipped_file name \<longleftrightarrow>
     suffix ''.migrated'' name \<or> prefix ''.'' name \<or> name = deviceSetMetaFile \<or> name = transactionMetaFile"

definition deviceFileWalkFunction :: "string \<Rightarrow> thin_pool \<Rightarrow> (err option \<times> thin_pool) outcome" where
  "deviceFileWalkFunction name s =
     (if skipped_file name then Ret (None, s)
      else
        bind_outcome (thin_lookupDevice (if name = ''base'' then [] else name) s) (\<lambda>(r, s1).
          case r of
            Inl e \<Rightarrow> Ret (Some (ErrText ''devmapper: Error looking up device''), s1)
          | Inr _ \<Rightarrow> Ret (None, s1)))"

text \<open>\<open>filepath.Walk\<close> goes through the directory in lexical order and stops at the first error.\<close>

fun walk_files :: "string list \<Rightarrow> thin_pool \<Rightarrow> (err option \<times> thin_pool) outcome" where
  "walk_files [] s = Ret (None, s)"
| "walk_files (name # ns) s =
     (if tp_faults s (MetaLstat name) \<noteq> None then walk_files ns s
      else
        bind_outcome (deviceFileWalkFunction name s) (\<lambda>(er, s1).
          case er of Some e \<Rightarrow> Ret (Some e, s1) | None \<Rightarrow> walk_files ns s1))"

definition loadDeviceFilesOnStart :: "thin_pool \<Rightarrow> (err option \<times> thin_pool) outcome" where
  "loadDeviceFilesOnStart s = walk_files (sort (map fst (dk_files (tp_disk s)))) s"

text \<open>
  The metadata file of old versions: an object whose key \<open>Devices\<close> maps hashes to device records.  A
  null record is a nil pointer, which the assignment of its hash dereferences.
\<close>

definition decode_device :: "json \<Rightarrow> thin_info option res" where
  "decode_device j =
     (case j of
        JNull \<Rightarrow> Inr None
      | JObj kvs \<Rightarrow>
          (case fold decode_info_field kvs
                  (\<lparr>ti_Hash = [], ti_DeviceID = 0, ti_Size = 0, ti_TransactionID = 0, ti_Initialized = False, ti_Deleted = False\<rparr>, None) of
             (info, Some e) \<Rightarrow> Inl e | (info, None) \<Rightarrow> Inr (Some info))
      | _ \<Rightarrow> Inl ErrUnmarshalType)"

fun decode_devices :: "(string \<times> json) list \<Rightarrow> (string \<times> thin_info option) list \<Rightarrow> (string \<times> thin_info option) list res" where
  "decode_devices [] ds = Inr ds"
| "decode_devices ((h, j) # kvs) ds =
     (case decode_device j of
        Inl e \<Rightarrow> Inl e
      | Inr i \<Rightarrow> decode_devices kvs (AList.update h i ds))"

fun decode_meta :: "(string \<times> json) list \<Rightarrow> (string \<times> thin_info option) list \<Rightarrow> (string \<times> thin_info option) list res" where
  "decode_meta [] ds = Inr ds"
| "decode_meta ((k, j) # kvs) ds =
     (if fold_key k \<noteq> ''devices'' then decode_meta kvs ds
      else
        (case j of
           JNull \<Rightarrow> decode_meta kvs []
         | JObj devs \<Rightarrow> (case decode_devices devs ds of Inl e \<Rightarrow> Inl e | Inr ds' \<Rightarrow> decode_meta kvs ds')
         | _ \<Rightarrow> Inl ErrUnmarshalType))"

definition decode_old :: "blob \<Rightarrow> (string \<times> thin_info option) list res" where
  "decode_old b =
     (case b of
        JsonDoc JNull \<Rightarrow> Inr []
      | JsonDoc (JObj kvs) \<Rightarrow> decode_meta kvs []
      | _ \<Rightarrow> Inl ErrUnmarshalType)"

fun save_all :: "(string \<times> thin_info option) list \<Rightarrow> thin_pool \<Rightarrow> thin_pool outcome" where
  "save_all [] s = Ret s"
| "save_all ((h, None) # ds) s = Panic ''invalid memory address or nil pointer dereference''"
| "save_all ((h, Some info) # ds) s = save_all ds (snd (saveMetadata (info\<lparr>ti_Hash := h\<rparr>) s))"

definition migrateOldMetaData :: "thin_pool \<Rightarrow> (err option \<times> thin_pool) outcome" where
  "migrateOldMetaData s =
     (case (case tp_faults s OldRead of Some e \<Rightarrow> Inl e | None \<Rightarrow> (case dk_old (tp_disk s) of None \<Rightarrow> Inl ENOENT | Some b \<Rightarrow> Inr b)) of
        Inl e \<Rightarrow> Ret (if os_IsNotExist e then None else Some e, s)
      | Inr b \<Rightarrow>
          (case decode_old b of
             Inl e \<Rightarrow> Ret (Some e, s)
           | Inr ds \<Rightarrow>
               bind_outcome (save_all ds s) (\<lambda>s1.
                 case tp_faults s1 OldRename of
                   Some e \<Rightarrow> Ret (Some e, s1)
                 | None \<Rightarrow> Ret (None, commit (\<lambda>d. d\<lparr>dk_old := None\<rparr>) s1))))"

definition initMetaData :: "thin_pool \<Rightarrow> (err option \<times> thin_pool) outcome" where
  "initMetaData s =
     bind_outcome (migrateOldMetaData s) (\<lambda>(er, s1).
       case er of
         Some e \<Rightarrow> Ret (Some e, s1)
       | None \<Rightarrow>
           (case tp_faults s1 PoolStatus of
              Some e \<Rightarrow> Ret (Some e, s1)
            | None \<Rightarrow>
                bind_outcome (loadDeviceFilesOnStart (s1\<lparr>tp_TransactionID := dk_tid (tp_disk s1)\<rparr>)) (\<lambda>(er, s2).
                  case er of
                    Some e \<Rightarrow> Ret (Some (ErrText ''devmapper: Failed to load device files''), s2)
                  | None \<Rightarrow>
                      bind_outcome (constructDeviceIDMap (map (ti_DeviceID \<circ> snd) (tp_Devices s2)) (tp_deviceIDMap s2)) (\<lambda>m.
                        processPendingTransaction (countDeletedDevices (s2\<lparr>tp_deviceIDMap := m\<rparr>))))))"

text \<open>A device set as \<open>NewDeviceSet\<close> makes it, over a given disk.\<close>

definition fresh_set :: "disk \<Rightarrow> device_set \<Rightarrow> thin_pool" where
  "fresh_set d ds =
     \<lparr>tp_Devices = [], tp_TransactionID = 0, tp_NextDeviceID = 0, tp_deviceIDMap = replicate deviceIDMapSz 0,
      tp_transaction = \<lparr>tx_OpenTransactionID = 0, tx_DeviceIDHash = [], tx_DeviceID = 0\<rparr>,
      tp_baseFsSize = 10 * 1024 * 1024 * 1024, tp_doBlkDiscard = True, tp_deferredDelete = False, tp_nrDeletedDevices = 0,
      tp_ds = ds, tp_disk = d, tp_trace = [], tp_faults = (\<lambda>_. None)\<rparr>"

end
