(* ===== verification/ThinPoolSafety.thy ===== *)
theory ThinPoolSafety
  imports ThinPool
begin

text \<open>
  Towards the crash safety of the thin device metadata: round trips of the metadata files, what each
  operation writes, and the states on disk while a device is added, whatever system calls fail.
\<close>

section \<open>Round trips of the metadata files\<close>

lemma decode_encode_info:
  assumes "- (2 ^ 63) \<le> ti_DeviceID i" and "ti_DeviceID i \<le> maxDeviceID"
  shows "decode_info (ti_Hash i) (JsonDoc (encode_info i)) = Ret (Some i)"
proof -
  have k: "fold_key ''device_id'' = ''device_id''" "fold_key ''size'' = ''size''" "fold_key ''transaction_id'' = ''transaction_id''"
    "fold_key ''initialized'' = ''initialized''" "fold_key ''deleted'' = ''deleted''"
    by (rule fold_key_ascii, simp add: ascii_key_def)+
  have u: "uint w < 2 ^ 64" for w :: "64 word" using uint_lt2p [of w] by simp
  have "ti_DeviceID i < 2 ^ 63" using assms(2) by (simp add: maxDeviceID_def)
  with assms u show ?thesis
    by (simp add: decode_info_def encode_info_def decode_info_field_def k keep_first_def decode_goint_def decode_uint_def decode_bool_def)
qed

lemma decode_encode_transaction:
  assumes "- (2 ^ 63) \<le> tx_DeviceID t" and "tx_DeviceID t < 2 ^ 63" and "coerce_utf8 (tx_DeviceIDHash t) = tx_DeviceIDHash t"
    and "encode_transaction t = JObj kvs"
  shows "fst (fold decode_transaction_field kvs (t0, None)) = t"
proof -
  have k: "fold_key ''device_id'' = ''device_id''" "fold_key ''device_hash'' = ''device_hash''"
    "fold_key ''open_transaction_id'' = ''open_transaction_id''"
    by (rule fold_key_ascii, simp add: ascii_key_def)+
  have u: "uint w < 2 ^ 64" for w :: "64 word" using uint_lt2p [of w] by simp
  from assms(4) have "kvs = [(''open_transaction_id'', JInt (uint (tx_OpenTransactionID t))),
      (''device_hash'', JStr (coerce_utf8 (tx_DeviceIDHash t))), (''device_id'', JInt (tx_DeviceID t))]"
    by (simp add: encode_transaction_def)
  with assms u show ?thesis
    by (simp add: decode_transaction_field_def k keep_first_def decode_goint_def decode_uint_def decode_string_def)
qed

section \<open>What a reader of the directory sees\<close>

definition vfile :: "disk \<Rightarrow> string \<Rightarrow> blob option" where
  "vfile d name = (if prefix ''.'' name then None else map_of (dk_files d) name)"

definition same_pool :: "disk \<Rightarrow> disk \<Rightarrow> bool" where
  "same_pool d d' \<longleftrightarrow> dk_ids d' = dk_ids d \<and> dk_tid d' = dk_tid d \<and> dk_old d' = dk_old d"

text \<open>Only the disk and the trace differ.\<close>

definition only_disk :: "thin_pool \<Rightarrow> thin_pool \<Rightarrow> bool" where
  "only_disk s s' \<longleftrightarrow> (\<exists>d t. s' = s\<lparr>tp_disk := d, tp_trace := t\<rparr>)"

lemma only_disk_simps:
  assumes "only_disk s s'"
  shows "tp_Devices s' = tp_Devices s" "tp_TransactionID s' = tp_TransactionID s" "tp_NextDeviceID s' = tp_NextDeviceID s"
    "tp_deviceIDMap s' = tp_deviceIDMap s" "tp_transaction s' = tp_transaction s" "tp_faults s' = tp_faults s"
    "tp_deferredDelete s' = tp_deferredDelete s" "tp_ds s' = tp_ds s" "tp_nrDeletedDevices s' = tp_nrDeletedDevices s"
  using assms by (auto simp: only_disk_def)

lemma only_disk_refl [simp]: "only_disk s s"
proof -
  have "s = s\<lparr>tp_disk := tp_disk s, tp_trace := tp_trace s\<rparr>" by simp
  then show ?thesis unfolding only_disk_def by blast
qed

lemma only_disk_trans: "only_disk s s1 \<Longrightarrow> only_disk s1 s2 \<Longrightarrow> only_disk s s2"
  by (clarsimp simp: only_disk_def) blast

lemma only_disk_commit [simp]: "only_disk s s' \<Longrightarrow> only_disk s (commit f s')"
  by (clarsimp simp: only_disk_def commit_def) blast

lemma commit_simps [simp]:
  "tp_disk (commit f s) = f (tp_disk s)" "tp_trace (commit f s) = f (tp_disk s) # tp_trace s" "tp_faults (commit f s) = tp_faults s"
  by (simp_all add: commit_def)

lemma find_in_set: "find P xs = Some x \<Longrightarrow> x \<in> set xs"
  by (induction xs) (auto split: if_splits)

lemma temp_file_hidden: "temp_file files = Some tmp \<Longrightarrow> prefix ''.'' tmp"
  unfolding temp_file_def by (drule find_in_set) auto

lemma vfile_put:
  "vfile (put_file name b d) = (if prefix ''.'' name then vfile d else (vfile d)(name \<mapsto> b))"
  by (auto simp: vfile_def put_file_def fun_eq_iff)

lemma vfile_remove:
  "vfile (remove_file name d) = (vfile d)(name := None)"
  by (auto simp: vfile_def remove_file_def fun_eq_iff)

lemma vfile_remove_hidden: "prefix ''.'' name \<Longrightarrow> vfile (remove_file name d) = vfile d"
  by (auto simp: vfile_def remove_file_def fun_eq_iff)

lemma same_pool_simps [simp]:
  "same_pool d d" "same_pool d (put_file n b d') = same_pool d d'" "same_pool d (remove_file n d') = same_pool d d'"
  by (simp_all add: same_pool_def put_file_def remove_file_def)

text \<open>The states a crash can leave while a predicate holds of every commit.\<close>

definition grows :: "(disk \<Rightarrow> bool) \<Rightarrow> thin_pool \<Rightarrow> thin_pool \<Rightarrow> bool" where
  "grows P s s' \<longleftrightarrow> set (tp_trace s') \<subseteq> set (tp_trace s) \<union> Collect P"

lemma grows_refl [simp]: "grows P s s"
  by (simp add: grows_def)

lemma grows_trans: "grows P s s1 \<Longrightarrow> grows P s1 s2 \<Longrightarrow> grows P s s2"
  by (auto simp: grows_def)

lemma writeMetaFile_steps:
  assumes "writeMetaFile j file s = (er, s')" and "\<not> prefix ''.'' file"
  shows "only_disk s s'" and "same_pool (tp_disk s) (tp_disk s')"
    and "vfile (tp_disk s') = (if er = None then (vfile (tp_disk s))(file \<mapsto> JsonDoc j) else vfile (tp_disk s))"
    and "\<And>P. (\<And>d. same_pool (tp_disk s) d \<Longrightarrow> vfile d = vfile (tp_disk s) \<or> vfile d = (vfile (tp_disk s))(file \<mapsto> JsonDoc j) \<Longrightarrow> P d) \<Longrightarrow> grows P s s'"
proof -
  have "only_disk s s' \<and> same_pool (tp_disk s) (tp_disk s') \<and>
      vfile (tp_disk s') = (if er = None then (vfile (tp_disk s))(file \<mapsto> JsonDoc j) else vfile (tp_disk s)) \<and>
      (\<forall>d \<in> set (tp_trace s') - set (tp_trace s). same_pool (tp_disk s) d \<and>
         (vfile d = vfile (tp_disk s) \<or> vfile d = (vfile (tp_disk s))(file \<mapsto> JsonDoc j)))"
    using assms temp_file_hidden
    by (auto simp: writeMetaFile_def Let_def vfile_put vfile_remove_hidden split: option.splits)
  then show "only_disk s s'" "same_pool (tp_disk s) (tp_disk s')"
    "vfile (tp_disk s') = (if er = None then (vfile (tp_disk s))(file \<mapsto> JsonDoc j) else vfile (tp_disk s))"
    "\<And>P. (\<And>d. same_pool (tp_disk s) d \<Longrightarrow> vfile d = vfile (tp_disk s) \<or> vfile d = (vfile (tp_disk s))(file \<mapsto> JsonDoc j) \<Longrightarrow> P d) \<Longrightarrow> grows P s s'"
    by (auto simp: grows_def)
qed

lemma remove_meta_steps:
  assumes "remove_meta file s = (er, s')" and "\<And>d. same_pool (tp_disk s) d \<Longrightarrow> vfile d = (vfile (tp_disk s))(file := None) \<Longrightarrow> P d"
  shows "only_disk s s'" and "same_pool (tp_disk s) (tp_disk s')" and "grows P s s'"
    and "vfile (tp_disk s') = (if er = None then (vfile (tp_disk s))(file := None) else vfile (tp_disk s))"
  using assms by (auto simp: remove_meta_def grows_def vfile_remove split: option.splits)

lemma removeMetadata_steps:
  assumes "removeMetadata hash s = (er, s')"
    and "\<And>d. same_pool (tp_disk s) d \<Longrightarrow> vfile d = (vfile (tp_disk s))(metadataFile hash := None) \<Longrightarrow> P d"
  shows "only_disk s s'" and "same_pool (tp_disk s) (tp_disk s')" and "grows P s s'"
    and "vfile (tp_disk s') = (if er = None then (vfile (tp_disk s))(metadataFile hash := None) else vfile (tp_disk s))"
proof -
  from assms(1) obtain er1 where r: "remove_meta (metadataFile hash) s = (er1, s')" "er = None \<longleftrightarrow> er1 = None"
    by (auto simp: removeMetadata_def split: prod.splits option.splits)
  from remove_meta_steps [OF r(1) assms(2)] r(2) show "only_disk s s'" "same_pool (tp_disk s) (tp_disk s')" "grows P s s'"
    "vfile (tp_disk s') = (if er = None then (vfile (tp_disk s))(metadataFile hash := None) else vfile (tp_disk s))" by auto
qed

lemma vfile_pool [simp]: "vfile (d\<lparr>dk_ids := ids\<rparr>) = vfile d" "vfile (d\<lparr>dk_tid := t\<rparr>) = vfile d"
  by (simp_all add: vfile_def fun_eq_iff)

lemma dm_DeleteDevice_cases:
  "dm_DeleteDevice k s = (er, s') \<Longrightarrow> s' = s \<or> s' = commit (\<lambda>d. d\<lparr>dk_ids := removeAll k (dk_ids d)\<rparr>) s"
  by (auto simp: dm_DeleteDevice_def split: option.splits if_splits)

section \<open>Creating a device, step by step\<close>

text \<open>What the two messages that create a device have in common.\<close>

locale device_creator =
  fixes create :: "int \<Rightarrow> thin_pool \<Rightarrow> err option \<times> thin_pool"
  assumes create_cases: "create k s = (er, s') \<Longrightarrow> er \<noteq> None \<and> s' = s \<or> s' = commit (\<lambda>d. d\<lparr>dk_ids := k # dk_ids d\<rparr>) s"

definition hash_of :: "string \<Rightarrow> string" where
  "hash_of name = (if name = ''base'' then [] else name)"

definition devids :: "(string \<Rightarrow> blob option) \<Rightarrow> int set" where
  "devids F = {ti_DeviceID i | name b i. \<not> skipped_file name \<and> F name = Some b \<and> decode_info (hash_of name) b = Ret (Some i)}"

definition tx_doc :: "64 word \<Rightarrow> string \<Rightarrow> int \<Rightarrow> blob" where
  "tx_doc t h k = JsonDoc (encode_transaction \<lparr>tx_OpenTransactionID = t, tx_DeviceIDHash = h, tx_DeviceID = k\<rparr>)"

definition new_info :: "string \<Rightarrow> thin_info \<Rightarrow> bool" where
  "new_info h i \<longleftrightarrow> ti_Hash i = h \<and> valid_id (ti_DeviceID i)"

text \<open>The three kinds of states: before the transaction, while it is open, and after it was closed.\<close>

definition pre_state :: "(string \<Rightarrow> blob option) \<Rightarrow> 64 word \<Rightarrow> disk \<Rightarrow> bool" where
  "pre_state F t d \<longleftrightarrow> vfile d = F \<and> dk_tid d = t \<and> dk_old d = None \<and> devids F \<subseteq> set (dk_ids d)"

definition open_state :: "(string \<Rightarrow> blob option) \<Rightarrow> 64 word \<Rightarrow> string \<Rightarrow> blob option \<Rightarrow> disk \<Rightarrow> bool" where
  "open_state F t h fo d \<longleftrightarrow>
     (\<exists>k. vfile d = F(transactionMetaFile \<mapsto> tx_doc (t + 1) h k, metadataFile h := fo) \<and> valid_id k \<and> k \<notin> devids F) \<and>
     dk_tid d = t \<and> dk_old d = None \<and> devids F \<subseteq> set (dk_ids d)"

definition closed_state :: "(string \<Rightarrow> blob option) \<Rightarrow> 64 word \<Rightarrow> string \<Rightarrow> disk \<Rightarrow> bool" where
  "closed_state F t h d \<longleftrightarrow>
     (\<exists>k i. vfile d = F(transactionMetaFile \<mapsto> tx_doc (t + 1) h k, metadataFile h \<mapsto> JsonDoc (encode_info i)) \<and>
        new_info h i \<and> ti_DeviceID i \<notin> devids F \<and> insert (ti_DeviceID i) (devids F) \<subseteq> set (dk_ids d) \<and> valid_id k) \<and>
     dk_tid d = t + 1 \<and> dk_old d = None"

definition crash_state :: "(string \<Rightarrow> blob option) \<Rightarrow> 64 word \<Rightarrow> string \<Rightarrow> disk \<Rightarrow> bool" where
  "crash_state F t h d \<longleftrightarrow>
     pre_state F t d \<or> open_state F t h None d \<or>
     (\<exists>i. new_info h i \<and> open_state F t h (Some (JsonDoc (encode_info i))) d) \<or> closed_state F t h d"

lemma crash_state_intros:
  "pre_state F t d \<Longrightarrow> crash_state F t h d" "open_state F t h None d \<Longrightarrow> crash_state F t h d"
  "new_info h i \<Longrightarrow> open_state F t h (Some (JsonDoc (encode_info i))) d \<Longrightarrow> crash_state F t h d"
  "closed_state F t h d \<Longrightarrow> crash_state F t h d"
  by (auto simp: crash_state_def)

text \<open>The memory while the device is added: the bitmap covers the ids of the devices on disk.\<close>

definition covers :: "(string \<Rightarrow> blob option) \<Rightarrow> thin_pool \<Rightarrow> bool" where
  "covers F s \<longleftrightarrow> bitmap_ok (tp_deviceIDMap s) \<and> (\<forall>k \<in> devids F. valid_id k \<and> used (tp_deviceIDMap s) k)"

text \<open>A device name that is free: its file is visible, not the transaction file and not there.\<close>

definition free_name :: "(string \<Rightarrow> blob option) \<Rightarrow> string \<Rightarrow> bool" where
  "free_name F h \<longleftrightarrow> F (metadataFile h) = None \<and> \<not> skipped_file (metadataFile h) \<and> hash_of (metadataFile h) = h"

lemma free_nameD:
  assumes "free_name F h"
  shows "F (metadataFile h) = None" "\<not> prefix ''.'' (metadataFile h)" "metadataFile h \<noteq> transactionMetaFile"
    "transactionMetaFile \<noteq> metadataFile h"
  using assms by (auto simp: free_name_def skipped_file_def)

lemma transaction_visible: "\<not> prefix ''.'' transactionMetaFile"
  by code_simp

lemma covers_simps [simp]:
  "covers F (s\<lparr>tp_NextDeviceID := n\<rparr>) = covers F s" "covers F (s\<lparr>tp_transaction := t\<rparr>) = covers F s"
  "covers F (s\<lparr>tp_Devices := ds\<rparr>) = covers F s" "covers F (commit f s) = covers F s"
  by (simp_all add: covers_def commit_def)

lemma covers_only_disk: "only_disk s s' \<Longrightarrow> covers F s' = covers F s"
  by (simp add: covers_def only_disk_simps)

text \<open>Taking an id: it is valid, belongs to no device, and is marked.\<close>

lemma thin_nextID_cases:
  assumes "covers F s"
  shows "\<exists>r s'. thin_nextID s = Ret (r, s') \<and> covers F s' \<and> tp_disk s' = tp_disk s \<and> tp_trace s' = tp_trace s \<and>
     tp_transaction s' = tp_transaction s \<and> tp_TransactionID s' = tp_TransactionID s \<and> tp_faults s' = tp_faults s \<and>
     tp_Devices s' = tp_Devices s \<and>
     (\<forall>k. r = Inr k \<longrightarrow> valid_id k \<and> k \<notin> devids F \<and> \<not> used (tp_deviceIDMap s) k \<and>
        (\<forall>j. valid_id j \<longrightarrow> used (tp_deviceIDMap s') j \<longleftrightarrow> used (tp_deviceIDMap s) j \<or> j = k))"
proof -
  from assms have ok: "bitmap_ok (tp_deviceIDMap s)" by (simp add: covers_def)
  from getNextFree_cases [OF ok, of "tp_NextDeviceID s"] show ?thesis
  proof (elim disjE exE conjE)
    fix n' assume "getNextFreeDeviceID (tp_NextDeviceID s) (tp_deviceIDMap s) = Ret (Inl ErrNoFreeDeviceID, n', tp_deviceIDMap s)"
    then show ?thesis using assms by (simp add: thin_nextID_def covers_def)
  next
    fix k m' assume "getNextFreeDeviceID (tp_NextDeviceID s) (tp_deviceIDMap s) = Ret (Inr k, k, m')" "valid_id k"
      "\<not> used (tp_deviceIDMap s) k" "bitmap_ok m'" "\<forall>j. valid_id j \<longrightarrow> used m' j \<longleftrightarrow> used (tp_deviceIDMap s) j \<or> j = k"
    then show ?thesis using assms by (auto simp: thin_nextID_def covers_def)
  qed
qed

lemma thin_markFree_cases:
  assumes "covers F s" and "valid_id k" and "k \<notin> devids F"
  shows "\<exists>s'. thin_markFree k s = Ret s' \<and> covers F s' \<and> tp_disk s' = tp_disk s \<and> tp_trace s' = tp_trace s"
proof -
  from assms have ok: "bitmap_ok (tp_deviceIDMap s)" by (simp add: covers_def)
  from markDeviceIDFree_valid [OF assms(2) ok] obtain m' where m': "markDeviceIDFree k (tp_deviceIDMap s) = Ret m'" "bitmap_ok m'"
    "\<forall>j. valid_id j \<longrightarrow> used m' j \<longleftrightarrow> used (tp_deviceIDMap s) j \<and> j \<noteq> k" by blast
  with assms show ?thesis by (auto simp: thin_markFree_def covers_def)
qed

text \<open>The memory while the transaction is open.\<close>

definition opened :: "(string \<Rightarrow> blob option) \<Rightarrow> 64 word \<Rightarrow> string \<Rightarrow> thin_pool \<Rightarrow> bool" where
  "opened F t h s \<longleftrightarrow> covers F s \<and> tp_TransactionID s = t \<and> tx_OpenTransactionID (tp_transaction s) = t + 1 \<and>
     tx_DeviceIDHash (tp_transaction s) = h"

lemma opened_only_disk: "only_disk s s' \<Longrightarrow> opened F t h s' = opened F t h s"
  by (simp add: opened_def covers_only_disk only_disk_simps)

lemma opened_Devices [simp]: "opened F t h (s\<lparr>tp_Devices := x\<rparr>) = opened F t h s"
  by (simp add: opened_def)

lemma open_state_more_ids:
  "open_state F t h fo d \<Longrightarrow> open_state F t h fo (d\<lparr>dk_ids := k # dk_ids d\<rparr>)"
  "open_state F t h fo d \<Longrightarrow> k \<notin> devids F \<Longrightarrow> open_state F t h fo (d\<lparr>dk_ids := removeAll k (dk_ids d)\<rparr>)"
  by (auto simp: open_state_def)

lemma dm_DeleteDevice_open:
  assumes "dm_DeleteDevice k s = (er, s')" and "open_state F t h fo (tp_disk s)" and "k \<notin> devids F" and "opened F t h s"
    and P: "\<And>d. open_state F t h fo d \<Longrightarrow> P d"
  shows "open_state F t h fo (tp_disk s')" and "opened F t h s'" and "grows P s s'" and "tp_Devices s' = tp_Devices s"
proof -
  from dm_DeleteDevice_cases [OF assms(1)] have o: "only_disk s s'"
    and c: "s' = s \<or> s' = commit (\<lambda>d. d\<lparr>dk_ids := removeAll k (dk_ids d)\<rparr>) s" by auto
  from o assms(4) show "opened F t h s'" "tp_Devices s' = tp_Devices s" by (simp_all add: opened_only_disk only_disk_simps)
  from c assms(2,3) show st: "open_state F t h fo (tp_disk s')" by (auto intro: open_state_more_ids(2))
  from c st P show "grows P s s'" by (auto simp: grows_def)
qed

lemma saveTransactionMetaData_open:
  assumes "saveTransactionMetaData s = (er, s')" and op: "opened F t h s" and fn: "free_name F h"
    and k: "valid_id (tx_DeviceID (tp_transaction s))" "tx_DeviceID (tp_transaction s) \<notin> devids F"
    and st: "pre_state F t (tp_disk s) \<or> open_state F t h None (tp_disk s)"
  shows "opened F t h s'" and "only_disk s s'" and "grows (crash_state F t h) s s'"
    and "er = None \<Longrightarrow> open_state F t h None (tp_disk s')"
    and "er \<noteq> None \<Longrightarrow> pre_state F t (tp_disk s) \<Longrightarrow> pre_state F t (tp_disk s')"
    and "open_state F t h None (tp_disk s) \<Longrightarrow> open_state F t h None (tp_disk s')"
proof -
  let ?k = "tx_DeviceID (tp_transaction s)"
  have doc: "JsonDoc (encode_transaction (tp_transaction s)) = tx_doc (t + 1) h ?k"
    using op by (simp add: opened_def tx_doc_def encode_transaction_def)
  note w = writeMetaFile_steps [OF assms(1) [unfolded saveTransactionMetaData_def] transaction_visible, unfolded doc]
  from fn have none: "F(metadataFile h := None) = F" "transactionMetaFile \<noteq> metadataFile h" by (auto simp: free_nameD)
  have new: "open_state F t h None d" if "same_pool (tp_disk s) d" "vfile d = (vfile (tp_disk s))(transactionMetaFile \<mapsto> tx_doc (t + 1) h ?k)" for d
    using st that k none by (auto simp: pre_state_def open_state_def same_pool_def fun_upd_twist fun_upd_idem)
  have old: "(pre_state F t (tp_disk s) \<longrightarrow> pre_state F t d) \<and> (open_state F t h None (tp_disk s) \<longrightarrow> open_state F t h None d)"
    if "same_pool (tp_disk s) d" "vfile d = vfile (tp_disk s)" for d
    using that by (auto simp: pre_state_def open_state_def same_pool_def)
  show "opened F t h s'" "only_disk s s'" using op w(1) by (simp_all add: opened_only_disk)
  show "er = None \<Longrightarrow> open_state F t h None (tp_disk s')" using w(2,3) new by simp
  show "er \<noteq> None \<Longrightarrow> pre_state F t (tp_disk s) \<Longrightarrow> pre_state F t (tp_disk s')"
    using w(3) conjunct1 [OF old [OF w(2)]] by (cases er) simp_all
  show "open_state F t h None (tp_disk s) \<Longrightarrow> open_state F t h None (tp_disk s')" using w(2,3) old new by (cases er) auto
  show "grows (crash_state F t h) s s'"
  proof (rule w(4))
    fix d assume d: "same_pool (tp_disk s) d" "vfile d = vfile (tp_disk s) \<or> vfile d = (vfile (tp_disk s))(transactionMetaFile \<mapsto> tx_doc (t + 1) h ?k)"
    then show "crash_state F t h d" using new [OF d(1)] old [OF d(1)] st crash_state_intros(1,2) by blast
  qed
qed

lemma openTransaction_open:
  assumes "openTransaction h k s = (er, s')" and "covers F s" and "tp_TransactionID s = t" and fn: "free_name F h"
    and k: "valid_id k" "k \<notin> devids F" and st: "pre_state F t (tp_disk s)"
  shows "covers F s'" and "grows (crash_state F t h) s s'" and "tp_faults s' = tp_faults s" and "tp_deviceIDMap s' = tp_deviceIDMap s"
    and "er = None \<Longrightarrow> opened F t h s' \<and> open_state F t h None (tp_disk s')"
    and "er \<noteq> None \<Longrightarrow> pre_state F t (tp_disk s')"
proof -
  define s2 where "s2 = s\<lparr>tp_transaction := (tp_transaction s)\<lparr>tx_OpenTransactionID := t + 1, tx_DeviceIDHash := h, tx_DeviceID := k\<rparr>\<rparr>"
  have s2: "openTransaction h k s = (case saveTransactionMetaData s2 of
       (Some e, s3) \<Rightarrow> (Some (ErrText ''devmapper: Error saving transaction metadata''), s3) | (None, s3) \<Rightarrow> (None, s3))"
    using assms(3) by (simp add: openTransaction_def allocateTransactionID_def s2_def Let_def)
  obtain er1 where r: "saveTransactionMetaData s2 = (er1, s')" "er = None \<longleftrightarrow> er1 = None"
    using assms(1) s2 by (auto split: prod.splits option.splits)
  have op: "opened F t h s2" using assms(2,3) by (simp add: opened_def s2_def)
  have st2: "pre_state F t (tp_disk s2)" using st by (simp add: s2_def)
  have "grows P s s' = grows P s2 s'" for P by (simp add: grows_def s2_def)
  note a = saveTransactionMetaData_open [OF r(1) op fn _ _ disjI1 [OF st2], unfolded this [symmetric]]
  have k2: "valid_id (tx_DeviceID (tp_transaction s2))" "tx_DeviceID (tp_transaction s2) \<notin> devids F" using k by (simp_all add: s2_def)
  note a = a [OF k2]
  show "covers F s'" using a(1) by (simp add: opened_def)
  show "grows (crash_state F t h) s s'" by (rule a(3))
  show "tp_faults s' = tp_faults s" "tp_deviceIDMap s' = tp_deviceIDMap s" using a(2) by (simp_all add: only_disk_simps s2_def)
  show "er = None \<Longrightarrow> opened F t h s' \<and> open_state F t h None (tp_disk s')" using a(1,4) r(2) by simp
  show "er \<noteq> None \<Longrightarrow> pre_state F t (tp_disk s')" using a(5) r(2) st2 by simp
qed

lemma refreshTransaction_open:
  assumes "refreshTransaction k s = (er, s')" and op: "opened F t h s" and fn: "free_name F h"
    and k: "valid_id k" "k \<notin> devids F" and st: "open_state F t h None (tp_disk s)"
  shows "opened F t h s'" and "grows (crash_state F t h) s s'" and "open_state F t h None (tp_disk s')"
    and "tp_deviceIDMap s' = tp_deviceIDMap s"
proof -
  let ?s = "s\<lparr>tp_transaction := (tp_transaction s)\<lparr>tx_DeviceID := k\<rparr>\<rparr>"
  obtain er1 where r: "saveTransactionMetaData ?s = (er1, s')"
    using assms(1) by (auto simp: refreshTransaction_def split: prod.splits option.splits)
  have "opened F t h ?s" "valid_id (tx_DeviceID (tp_transaction ?s))" "tx_DeviceID (tp_transaction ?s) \<notin> devids F"
    "open_state F t h None (tp_disk ?s)" using op k st by (simp_all add: opened_def)
  note a = saveTransactionMetaData_open [OF r this(1) fn this(2,3) disjI2 [OF this(4)]]
  from a(1) show "opened F t h s'" .
  from a(3) show "grows (crash_state F t h) s s'" by (simp add: grows_def)
  from a(6) st show "open_state F t h None (tp_disk s')" by simp
  from a(2) show "tp_deviceIDMap s' = tp_deviceIDMap s" by (simp add: only_disk_simps)
qed

text \<open>The loop: it ends, and with an id when the message succeeded.\<close>

definition free_ids :: "thin_pool \<Rightarrow> int set" where
  "free_ids s = {k. valid_id k \<and> \<not> used (tp_deviceIDMap s) k}"

lemma finite_free_ids [simp]: "finite (free_ids s)"
  by (rule finite_subset [of _ "{0..maxDeviceID}"]) (auto simp: free_ids_def valid_id_def)

lemma card_free_ids: "card (free_ids s) < create_fuel"
proof -
  have "card (free_ids s) \<le> card {0..maxDeviceID}"
    by (rule card_mono) (auto simp: free_ids_def valid_id_def)
  then show ?thesis by (simp add: create_fuel_def maxDeviceID_def)
qed

lemma register_open:
  assumes "registerDevice k h sz (tx_OpenTransactionID (tp_transaction s)) s = (r, s')" and op: "opened F t h s" and fn: "free_name F h"
    and k: "valid_id k" and st: "open_state F t h None (tp_disk s)"
  shows "opened F t h s'" and "grows (crash_state F t h) s s'" and "dk_ids (tp_disk s') = dk_ids (tp_disk s)"
    and "r = Inl e \<Longrightarrow> open_state F t h None (tp_disk s')"
    and "r = Inr i \<Longrightarrow> new_info h i \<and> ti_DeviceID i = k \<and> open_state F t h (Some (JsonDoc (encode_info i))) (tp_disk s')"
proof -
  let ?i = "\<lparr>ti_Hash = h, ti_DeviceID = k, ti_Size = sz, ti_TransactionID = tx_OpenTransactionID (tp_transaction s),
     ti_Initialized = False, ti_Deleted = False\<rparr>"
  let ?s = "s\<lparr>tp_Devices := AList.update h ?i (tp_Devices s)\<rparr>"
  obtain er s2 where r: "saveMetadata ?i ?s = (er, s2)" by fastforce
  with assms(1) have s': "tp_disk s' = tp_disk s2" "tp_trace s' = tp_trace s2" "opened F t h s' = opened F t h s2"
    "r = (case er of None \<Rightarrow> Inr ?i | Some e \<Rightarrow> Inl e)"
    by (auto simp: registerDevice_def Let_def split: option.splits)
  note w = writeMetaFile_steps [OF r [unfolded saveMetadata_def] , unfolded thin_info.select_convs, OF free_nameD(2) [OF fn]]
  have i: "new_info h ?i" using k by (simp add: new_info_def)
  have new: "open_state F t h (Some (JsonDoc (encode_info ?i))) d"
    if "same_pool (tp_disk s) d" "vfile d = (vfile (tp_disk s))(metadataFile h \<mapsto> JsonDoc (encode_info ?i))" for d
    using st that by (auto simp: open_state_def same_pool_def)
  have old: "open_state F t h None d" if "same_pool (tp_disk s) d" "vfile d = vfile (tp_disk s)" for d
    using st that by (auto simp: open_state_def same_pool_def)
  have sp: "same_pool (tp_disk s) (tp_disk s2)" using w(2) by simp
  show "opened F t h s'" using op w(1) s'(3) by (simp add: opened_only_disk)
  show "dk_ids (tp_disk s') = dk_ids (tp_disk s)" using sp s'(1) by (simp add: same_pool_def)
  show "r = Inl e \<Longrightarrow> open_state F t h None (tp_disk s')" using s'(1,4) old [OF sp] w(3) by (cases er) simp_all
  show "r = Inr i \<Longrightarrow> new_info h i \<and> ti_DeviceID i = k \<and> open_state F t h (Some (JsonDoc (encode_info i))) (tp_disk s')"
    using s'(1,4) new [OF sp] i w(3) by (cases er) auto
  have "grows (crash_state F t h) ?s s2"
  proof (rule w(4))
    fix d assume d: "same_pool (tp_disk ?s) d" "vfile d = vfile (tp_disk ?s) \<or> vfile d = (vfile (tp_disk ?s))(metadataFile h \<mapsto> JsonDoc (encode_info ?i))"
    then have "same_pool (tp_disk s) d" by simp
    from d(2) old [OF this] new [OF this] show "crash_state F t h d"
      using crash_state_intros(2) crash_state_intros(3) [OF i] by (metis thin_pool.select_convs(11) thin_pool.surjective thin_pool.update_convs(1))
  qed
  then show "grows (crash_state F t h) s s'" using s'(2) by (simp add: grows_def)
qed

lemma close_open:
  assumes "closeTransaction s = (er, s')" and op: "opened F t h s" and i: "new_info h i" "ti_DeviceID i \<notin> devids F"
    and st: "open_state F t h (Some (JsonDoc (encode_info i))) (tp_disk s)" and k: "ti_DeviceID i \<in> set (dk_ids (tp_disk s))"
  shows "er = None \<Longrightarrow> closed_state F t h (tp_disk s') \<and> grows (crash_state F t h) s s'"
    and "er \<noteq> None \<Longrightarrow> s' = s"
proof -
  from st have tid: "dk_tid (tp_disk s) = t" by (simp add: open_state_def)
  have "closed_state F t h ((tp_disk s)\<lparr>dk_tid := t + 1\<rparr>)"
    using st i k by (auto simp: open_state_def closed_state_def)
  then show "er = None \<Longrightarrow> closed_state F t h (tp_disk s') \<and> grows (crash_state F t h) s s'" "er \<noteq> None \<Longrightarrow> s' = s"
    using assms(1) op tid crash_state_intros(4)
    by (auto simp: closeTransaction_def updatePoolTransactionID_def SetTransactionID_def opened_def grows_def commit_def
        split: option.splits if_splits)
qed

lemma unregister_open:
  assumes "unregisterDevice h s = (er, s')" and op: "opened F t h s" and i: "new_info h i"
    and st: "open_state F t h (Some (JsonDoc (encode_info i))) (tp_disk s)"
  shows "opened F t h s' \<and> grows (crash_state F t h) s s' \<and>
    (open_state F t h (Some (JsonDoc (encode_info i))) (tp_disk s') \<or> open_state F t h None (tp_disk s'))"
proof -
  let ?s = "s\<lparr>tp_Devices := AList.delete h (tp_Devices s)\<rparr>"
  have n: "open_state F t h None d" if "same_pool (tp_disk ?s) d" "vfile d = (vfile (tp_disk ?s))(metadataFile h := None)" for d
    using st that by (auto simp: open_state_def same_pool_def)
  note r = removeMetadata_steps [OF assms(1) [unfolded unregisterDevice_def], of "crash_state F t h", OF crash_state_intros(2) [OF n]]
  from r(1) op have "opened F t h s'" by (simp add: opened_only_disk)
  moreover from r(3) have "grows (crash_state F t h) s s'" by (simp add: grows_def)
  moreover have "open_state F t h (Some (JsonDoc (encode_info i))) (tp_disk s') \<or> open_state F t h None (tp_disk s')"
  proof (cases er)
    case None
    with r(4) n [OF r(2)] show ?thesis by simp
  next
    case (Some e)
    with r(2,4) st show ?thesis by (auto simp: open_state_def same_pool_def)
  qed
  ultimately show ?thesis by blast
qed

text \<open>After the loop: registering the device, closing the transaction, and cleaning up when that fails.\<close>

lemma delete_phase:
  assumes "open_state F t h fo (tp_disk s)" and "opened F t h s" and "valid_id k" and "k \<notin> devids F" and g: "grows (crash_state F t h) s0 s"
    and P: "\<And>d. open_state F t h fo d \<Longrightarrow> crash_state F t h d"
  shows "\<exists>r s'. (case dm_DeleteDevice k s of (_, s5) \<Rightarrow> bind_outcome (thin_markFree k s5) (\<lambda>s6. Ret (Inl e, s6))) = Ret (r, s') \<and>
     grows (crash_state F t h) s0 s' \<and> (\<forall>i :: thin_info. r = Inr i \<longrightarrow> closed_state F t h (tp_disk s'))"
proof -
  obtain er s5 where d: "dm_DeleteDevice k s = (er, s5)" by fastforce
  note a = dm_DeleteDevice_open [OF d assms(1,4,2) P]
  from a(2) have "covers F s5" by (simp add: opened_def)
  from thin_markFree_cases [OF this assms(3,4)] obtain s6 where "thin_markFree k s5 = Ret s6" "tp_trace s6 = tp_trace s5" by blast
  with d grows_trans [OF g a(3)] show ?thesis by (simp add: grows_def)
qed

lemma register_phase:
  assumes op: "opened F t h s" and fn: "free_name F h" and k: "valid_id k" "k \<notin> devids F" "k \<in> set (dk_ids (tp_disk s))"
    and st: "open_state F t h None (tp_disk s)" and g: "grows (crash_state F t h) s0 s"
  shows "\<exists>r s'. (case registerDevice k h sz (tx_OpenTransactionID (tp_transaction s)) s of
               (Inl e, s4) \<Rightarrow> (case dm_DeleteDevice k s4 of (_, s5) \<Rightarrow> bind_outcome (thin_markFree k s5) (\<lambda>s6. Ret (Inl e, s6)))
             | (Inr info, s4) \<Rightarrow> (case closeTransaction s4 of
                  (None, s5) \<Rightarrow> Ret (Inr info, s5)
                | (Some e, s5) \<Rightarrow> (case unregisterDevice h s5 of (_, s6) \<Rightarrow>
                     (case dm_DeleteDevice k s6 of (_, s7) \<Rightarrow> bind_outcome (thin_markFree k s7) (\<lambda>s8. Ret (Inl e, s8)))))) = Ret (r, s') \<and>
     grows (crash_state F t h) s0 s' \<and> (\<forall>i. r = Inr i \<longrightarrow> closed_state F t h (tp_disk s'))"
proof -
  obtain r s4 where r: "registerDevice k h sz (tx_OpenTransactionID (tp_transaction s)) s = (r, s4)" by fastforce
  note a = register_open [OF r op fn k(1) st]
  have g4: "grows (crash_state F t h) s0 s4" using grows_trans [OF g a(2)] .
  show ?thesis
  proof (cases r)
    case (Inl e)
    from delete_phase [OF a(4) [OF Inl] a(1) k(1,2) g4 crash_state_intros(2)] show ?thesis by (simp add: r Inl)
  next
    case (Inr i)
    from a(5) [OF Inr] have i: "new_info h i" "ti_DeviceID i = k" "open_state F t h (Some (JsonDoc (encode_info i))) (tp_disk s4)" by auto
    obtain er s5 where c: "closeTransaction s4 = (er, s5)" by fastforce
    from i k a(3) have k4: "ti_DeviceID i \<notin> devids F" "ti_DeviceID i \<in> set (dk_ids (tp_disk s4))" by simp_all
    note b = close_open [OF c a(1) i(1) k4(1) i(3) k4(2)]
    show ?thesis
    proof (cases er)
      case None
      with b(1) grows_trans [OF g4] r Inr c show ?thesis by simp
    next
      case (Some e)
      with b(2) have s5: "s5 = s4" by simp
      obtain er6 s6 where u: "unregisterDevice h s4 = (er6, s6)" by fastforce
      from unregister_open [OF u a(1) i(1,3)] have op6: "opened F t h s6" and g6: "grows (crash_state F t h) s4 s6"
        and st6: "open_state F t h (Some (JsonDoc (encode_info i))) (tp_disk s6) \<or> open_state F t h None (tp_disk s6)" by auto
      have g06: "grows (crash_state F t h) s0 s6" using grows_trans [OF g4 g6] .
      from st6 delete_phase [OF _ op6 k(1,2) g06 crash_state_intros(3) [OF i(1)], where e = e]
        delete_phase [OF _ op6 k(1,2) g06 crash_state_intros(2), where e = e]
      show ?thesis by (auto simp: r Inr c Some s5 u simp del: bind_outcome_eq_Ret)
    qed
  qed
qed

context device_creator
begin

lemma create_open:
  assumes "create k s = (er, s')" and "open_state F t h None (tp_disk s)" and "opened F t h s"
  shows "open_state F t h None (tp_disk s')" and "opened F t h s'" and "grows (crash_state F t h) s s'"
    and "tp_deviceIDMap s' = tp_deviceIDMap s" and "er = None \<Longrightarrow> k \<in> set (dk_ids (tp_disk s'))"
proof -
  from create_cases [OF assms(1)] have o: "only_disk s s'" by auto
  then show "opened F t h s'" "tp_deviceIDMap s' = tp_deviceIDMap s" using assms(3) by (simp_all add: opened_only_disk only_disk_simps)
  from create_cases [OF assms(1)] assms(2) show st: "open_state F t h None (tp_disk s')" by (auto intro: open_state_more_ids(1))
  from create_cases [OF assms(1)] st crash_state_intros(2) show "grows (crash_state F t h) s s'" by (auto simp: grows_def)
  from create_cases [OF assms(1)] show "er = None \<Longrightarrow> k \<in> set (dk_ids (tp_disk s'))" by auto
qed

lemma create_loop_spec:
  assumes "card (free_ids s) < n" and "open_state F t h None (tp_disk s)" and "opened F t h s" and "free_name F h"
    and "valid_id k" and "k \<notin> devids F"
  shows "\<exists>r s'. create_loop n create k s = Ret (r, s') \<and> grows (crash_state F t h) s s' \<and>
     open_state F t h None (tp_disk s') \<and> covers F s' \<and>
     (\<forall>k'. r = Inr k' \<longrightarrow> opened F t h s' \<and> valid_id k' \<and> k' \<notin> devids F \<and> k' \<in> set (dk_ids (tp_disk s')))"
  using assms
proof (induction n arbitrary: k s)
  case (Suc n)
  obtain er s1 where c: "create k s = (er, s1)" by fastforce
  note a = create_open [OF c Suc.prems(2,3)]
  have cov: "covers F s1" using a(2) by (simp add: opened_def)
  show ?case
  proof (cases er)
    case None
    with c a Suc.prems(5,6) cov show ?thesis by simp
  next
    case (Some e)
    show ?thesis
    proof (cases "e = ErrDeviceIDExists")
      case True
      from thin_nextID_cases [OF cov] obtain r s2 where r: "thin_nextID s1 = Ret (r, s2)" "covers F s2" "tp_disk s2 = tp_disk s1"
        "tp_trace s2 = tp_trace s1" "tp_transaction s2 = tp_transaction s1" "tp_TransactionID s2 = tp_TransactionID s1"
        and k: "\<forall>k. r = Inr k \<longrightarrow> valid_id k \<and> k \<notin> devids F \<and> \<not> used (tp_deviceIDMap s1) k \<and>
          (\<forall>j. valid_id j \<longrightarrow> used (tp_deviceIDMap s2) j \<longleftrightarrow> used (tp_deviceIDMap s1) j \<or> j = k)" by blast
      have op: "opened F t h s2" "open_state F t h None (tp_disk s2)" "grows (crash_state F t h) s s2"
        using a r by (simp_all add: opened_def grows_def)
      show ?thesis
      proof (cases r)
        case (Inl x)
        with c Some True r op show ?thesis by simp
      next
        case (Inr k')
        obtain er3 s3 where f: "refreshTransaction k' s2 = (er3, s3)" by fastforce
        note b = refreshTransaction_open [OF f op(1) Suc.prems(4) _ _ op(2)]
        from k Inr have k': "valid_id k'" "k' \<notin> devids F" by auto
        note b = b [OF k']
        have "free_ids s3 = free_ids s - {k'}" using k Inr a(4) b(4) by (auto simp: free_ids_def)
        moreover have "k' \<in> free_ids s" using k Inr a(4) by (simp add: free_ids_def)
        ultimately have "card (free_ids s3) < card (free_ids s)" by (metis card_Diff1_less finite_free_ids)
        with Suc.prems(1) have "card (free_ids s3) < n" by simp
        from Suc.IH [OF this b(3,1) Suc.prems(4) k'] obtain r' s' where
          "create_loop n create k' s3 = Ret (r', s')" "grows (crash_state F t h) s3 s'" "open_state F t h None (tp_disk s')" "covers F s'"
          "\<forall>k'. r' = Inr k' \<longrightarrow> opened F t h s' \<and> valid_id k' \<and> k' \<notin> devids F \<and> k' \<in> set (dk_ids (tp_disk s'))" by blast
        moreover from this(2) have "grows (crash_state F t h) s s'" using grows_trans [OF grows_trans [OF op(3) b(2)]] by blast
        ultimately show ?thesis using c Some True r f Inr by simp
      qed
    next
      case False
      from thin_markFree_cases [OF cov Suc.prems(5,6)] obtain s2 where m: "thin_markFree k s1 = Ret s2" "covers F s2" "tp_disk s2 = tp_disk s1"
        "tp_trace s2 = tp_trace s1" by blast
      with c Some False a show ?thesis by (simp add: grows_def)
    qed
  qed
qed simp

lemma create_register_spec:
  assumes cov: "covers F s" and t: "tp_TransactionID s = t" and st: "pre_state F t (tp_disk s)" and fn: "free_name F h"
  shows "\<exists>r s'. create_register create h sz s = Ret (r, s') \<and> grows (crash_state F t h) s s' \<and>
     (\<forall>i. r = Inr i \<longrightarrow> closed_state F t h (tp_disk s'))"
proof -
  from thin_nextID_cases [OF cov] obtain r s1 where r: "thin_nextID s = Ret (r, s1)" "covers F s1" "tp_disk s1 = tp_disk s"
    "tp_trace s1 = tp_trace s" "tp_TransactionID s1 = tp_TransactionID s" and k: "\<forall>k. r = Inr k \<longrightarrow> valid_id k \<and> k \<notin> devids F" by blast
  have g1: "grows P s s1" for P using r(4) by (simp add: grows_def)
  show ?thesis
  proof (cases r)
    case (Inl e)
    with r g1 show ?thesis by (simp add: create_register_def)
  next
    case (Inr k0)
    with k have k0: "valid_id k0" "k0 \<notin> devids F" by auto
    obtain er s2 where o: "openTransaction h k0 s1 = (er, s2)" by fastforce
    have "pre_state F t (tp_disk s1)" "tp_TransactionID s1 = t" using st r t by simp_all
    note a = openTransaction_open [OF o r(2) this(2) fn k0 this(1)]
    have g2: "grows (crash_state F t h) s s2" using grows_trans [OF g1 a(2)] .
    show ?thesis
    proof (cases er)
      case (Some e)
      from thin_markFree_cases [OF a(1) k0] obtain s3 where "thin_markFree k0 s2 = Ret s3" "tp_trace s3 = tp_trace s2" by blast
      with Some r o Inr g2 show ?thesis by (simp add: create_register_def grows_def)
    next
      case None
      from create_loop_spec [where s = s2 and t = t, OF card_free_ids _ _ fn k0] a(5) None obtain r3 s3 where
        l: "create_loop create_fuel create k0 s2 = Ret (r3, s3)" "grows (crash_state F t h) s2 s3" "open_state F t h None (tp_disk s3)"
        and l': "\<forall>k. r3 = Inr k \<longrightarrow> opened F t h s3 \<and> valid_id k \<and> k \<notin> devids F \<and> k \<in> set (dk_ids (tp_disk s3))" by blast
      have g3: "grows (crash_state F t h) s s3" using grows_trans [OF g2 l(2)] .
      show ?thesis
      proof (cases r3)
        case Inl
        with None r o Inr l g3 show ?thesis by (simp add: create_register_def)
      next
        case r3: (Inr k)
        with l' have k: "opened F t h s3" "valid_id k" "k \<notin> devids F" "k \<in> set (dk_ids (tp_disk s3))" by auto
        have run: "create_register create h sz s =
            (case registerDevice k h sz (tx_OpenTransactionID (tp_transaction s3)) s3 of
               (Inl e, s4) \<Rightarrow> (case dm_DeleteDevice k s4 of (_, s5) \<Rightarrow> bind_outcome (thin_markFree k s5) (\<lambda>s6. Ret (Inl e, s6)))
             | (Inr info, s4) \<Rightarrow> (case closeTransaction s4 of
                  (None, s5) \<Rightarrow> Ret (Inr info, s5)
                | (Some e, s5) \<Rightarrow> (case unregisterDevice h s5 of (_, s6) \<Rightarrow>
                     (case dm_DeleteDevice k s6 of (_, s7) \<Rightarrow> bind_outcome (thin_markFree k s7) (\<lambda>s8. Ret (Inl e, s8))))))"
          using None r o Inr l r3 by (simp add: create_register_def)
        show ?thesis unfolding run by (rule register_phase [OF k(1) fn k(2-4) l(3) g3])
      qed
    qed
  qed
qed

end

interpretation thin: device_creator dm_CreateDevice
  by unfold_locales (auto simp: dm_CreateDevice_def dest: sym split: option.splits if_splits)

interpretation snap: device_creator "dm_CreateSnapDevice base" for base
  by unfold_locales (auto simp: dm_CreateSnapDevice_def Let_def dest: sym split: option.splits if_splits)

end
