(* ===== verification/ThinPoolCrash.thy ===== *)
theory ThinPoolCrash
  imports ThinPoolSafety
begin

text \<open>
  The second half of the crash safety of the thin device metadata: what the start-up makes of every state
  a crash can leave behind, and the theorems on adding a device.
\<close>

section \<open>The start-up after a crash\<close>

text \<open>Every visible file is a device record with a valid id, apart from those the start-up skips.\<close>

definition wf_files :: "(string \<Rightarrow> blob option) \<Rightarrow> bool" where
  "wf_files F \<longleftrightarrow> F [] = None \<and>
     (\<forall>name b. F name = Some b \<longrightarrow> \<not> skipped_file name \<longrightarrow>
        (\<exists>i. decode_info (hash_of name) b = Ret (Some i) \<and> valid_id (ti_DeviceID i)))"

definition good_tx :: "transaction \<Rightarrow> bool" where
  "good_tx x \<longleftrightarrow> valid_id (tx_DeviceID x) \<and> coerce_utf8 (tx_DeviceIDHash x) = tx_DeviceIDHash x"

text \<open>No transaction waits to be rolled back: its id is not above that of the pool.\<close>

definition no_pending :: "(string \<Rightarrow> blob option) \<Rightarrow> 64 word \<Rightarrow> bool" where
  "no_pending F t \<longleftrightarrow>
     F transactionMetaFile = None \<or>
     (\<exists>x. F transactionMetaFile = Some (JsonDoc (encode_transaction x)) \<and> good_tx x \<and> tx_OpenTransactionID x \<le> t)"

lemma transaction_skipped [simp]: "skipped_file transactionMetaFile"
  by (simp add: skipped_file_def)

lemma metadataFile_hash_of: "name \<noteq> [] \<Longrightarrow> metadataFile (hash_of name) = name"
  by (simp add: metadataFile_def hash_of_def)

lemma hash_of_inj: "hash_of n = hash_of n' \<Longrightarrow> n \<noteq> [] \<Longrightarrow> n' \<noteq> [] \<Longrightarrow> n = n'"
  by (auto simp: hash_of_def split: if_splits)

lemma visible_not_hidden: "\<not> skipped_file name \<Longrightarrow> \<not> prefix ''.'' name"
  by (simp add: skipped_file_def)

lemma set_update_subset: "set (AList.update k v xs) \<subseteq> insert (k, v) (set xs)"
  by (induction xs) auto

text \<open>The devices that are in memory are those of their files.\<close>

definition loaded :: "(string \<Rightarrow> blob option) \<Rightarrow> (string \<times> thin_info) list \<Rightarrow> bool" where
  "loaded F devs \<longleftrightarrow>
     (\<forall>(h, i) \<in> set devs. valid_id (ti_DeviceID i) \<and>
        (\<exists>name b. name \<noteq> [] \<and> \<not> skipped_file name \<and> hash_of name = h \<and> F name = Some b \<and> decode_info h b = Ret (Some i)))"

lemma loaded_update:
  assumes "loaded F devs" and "valid_id (ti_DeviceID i)" and "name \<noteq> []" and "\<not> skipped_file name" and "F name = Some b"
    and "decode_info (hash_of name) b = Ret (Some i)"
  shows "loaded F (AList.update (hash_of name) i devs)"
proof -
  have "e \<in> set devs \<or> e = (hash_of name, i)" if "e \<in> set (AList.update (hash_of name) i devs)" for e
    using that set_update_subset by fast
  with assms show ?thesis unfolding loaded_def by blast
qed

lemma walk_files_loads:
  assumes "wf_files F" and "vfile (tp_disk s) = F" and "tp_faults s = (\<lambda>_. None)" and "loaded F (tp_Devices s)"
    and "\<forall>n \<in> set ns. skipped_file n \<or> F n \<noteq> None"
  shows "\<exists>devs. walk_files ns s = Ret (None, s\<lparr>tp_Devices := devs\<rparr>) \<and> loaded F devs \<and>
     (\<forall>h i. map_of (tp_Devices s) h = Some i \<longrightarrow> map_of devs h = Some i) \<and>
     (\<forall>n \<in> set ns. \<not> skipped_file n \<longrightarrow> map_of devs (hash_of n) \<noteq> None)"
  using assms
proof (induction ns arbitrary: s)
  case Nil
  then show ?case by (intro exI [of _ "tp_Devices s"]) simp
next
  case (Cons n ns)
  show ?case
  proof (cases "skipped_file n")
    case True
    with Cons.IH [OF Cons.prems(1-4)] Cons.prems(3,5) show ?thesis by (simp add: deviceFileWalkFunction_def)
  next
    case False
    with Cons.prems(5) obtain b where b: "F n = Some b" by auto
    with Cons.prems(1) have n: "n \<noteq> []" by (auto simp: wf_files_def)
    from Cons.prems(1) b False obtain i where i: "decode_info (hash_of n) b = Ret (Some i)" "valid_id (ti_DeviceID i)"
      unfolding wf_files_def by blast
    have df: "map_of (dk_files (tp_disk s)) n = Some b"
      using b Cons.prems(2) visible_not_hidden [OF False] by (auto simp: vfile_def split: if_splits)
    define s1 where "s1 = (if map_of (tp_Devices s) (hash_of n) = None then s\<lparr>tp_Devices := AList.update (hash_of n) i (tp_Devices s)\<rparr> else s)"
    have "loadMetadata (hash_of n) s = Ret (Some i)"
      using i df Cons.prems(3) by (simp add: loadMetadata_def read_meta_def metadataFile_hash_of [OF n])
    then have w: "deviceFileWalkFunction n s = Ret (None, s1)"
      using False by (auto simp: deviceFileWalkFunction_def thin_lookupDevice_def s1_def hash_of_def split: option.splits)
    have l1: "loaded F (tp_Devices s1)"
      using Cons.prems(4) loaded_update [OF Cons.prems(4) i(2) n False b i(1)] by (simp add: s1_def)
    have s1: "vfile (tp_disk s1) = F" "tp_faults s1 = (\<lambda>_. None)" "s1 = s\<lparr>tp_Devices := tp_Devices s1\<rparr>"
      using Cons.prems(2,3) by (simp_all add: s1_def)
    from Cons.IH [OF Cons.prems(1) s1(1,2) l1] Cons.prems(5) obtain devs where
      d: "walk_files ns s1 = Ret (None, s1\<lparr>tp_Devices := devs\<rparr>)" "loaded F devs"
        "\<forall>h i. map_of (tp_Devices s1) h = Some i \<longrightarrow> map_of devs h = Some i"
        "\<forall>n \<in> set ns. \<not> skipped_file n \<longrightarrow> map_of devs (hash_of n) \<noteq> None" by auto
    have "s1\<lparr>tp_Devices := devs\<rparr> = s\<lparr>tp_Devices := devs\<rparr>" by (simp add: s1_def)
    then have "walk_files (n # ns) s = Ret (None, s\<lparr>tp_Devices := devs\<rparr>)" using w d(1) Cons.prems(3) by simp
    moreover have "\<exists>i. map_of (tp_Devices s1) (hash_of n) = Some i" by (auto simp: s1_def)
    then have "map_of devs (hash_of n) \<noteq> None" using d(3) by auto
    moreover have "map_of (tp_Devices s) h = Some j \<longrightarrow> map_of (tp_Devices s1) h = Some j" for h j by (auto simp: s1_def)
    ultimately show ?thesis using d(2-4) by auto
  qed
qed

lemma countDeletedDevices_frame: "\<exists>x. countDeletedDevices s = s\<lparr>tp_nrDeletedDevices := x\<rparr>"
proof -
  have "\<exists>x. fold (\<lambda>info s. if \<not> ti_Deleted info then s else s\<lparr>tp_nrDeletedDevices := tp_nrDeletedDevices s + 1\<rparr>) is s =
      s\<lparr>tp_nrDeletedDevices := x\<rparr>" for "is" and s :: thin_pool
  proof (induction "is" arbitrary: s)
    case Nil
    show ?case by (rule exI [of _ "tp_nrDeletedDevices s"]) simp
  next
    case (Cons i "is")
    from Cons.IH [of "s\<lparr>tp_nrDeletedDevices := tp_nrDeletedDevices s + 1\<rparr>"] Cons.IH [of s] show ?case by auto
  qed
  then show ?thesis unfolding countDeletedDevices_def .
qed

text \<open>Up to the pending transaction the start-up changes nothing on disk.\<close>

lemma startup_loads:
  assumes wf: "wf_files (vfile d)" and old: "dk_old d = None"
  shows "\<exists>s. initMetaData (fresh_set d ds) = processPendingTransaction s \<and> tp_disk s = d \<and> tp_TransactionID s = dk_tid d \<and>
     bitmap_ok (tp_deviceIDMap s) \<and> tp_faults s = (\<lambda>_. None) \<and> loaded (vfile d) (tp_Devices s) \<and>
     (\<forall>n. \<not> skipped_file n \<longrightarrow> vfile d n \<noteq> None \<longrightarrow> map_of (tp_Devices s) (hash_of n) \<noteq> None)"
proof -
  let ?s = "(fresh_set d ds)\<lparr>tp_TransactionID := dk_tid d\<rparr>"
  let ?ns = "sort (map fst (dk_files d))"
  have m: "migrateOldMetaData (fresh_set d ds) = Ret (None, fresh_set d ds)"
    using old by (simp add: migrateOldMetaData_def fresh_set_def os_IsNotExist_def)
  have a: "vfile (tp_disk ?s) = vfile d" "tp_faults ?s = (\<lambda>_. None)" "loaded (vfile d) (tp_Devices ?s)"
    by (simp_all add: fresh_set_def loaded_def)
  have b: "\<forall>n \<in> set ?ns. skipped_file n \<or> vfile d n \<noteq> None"
  proof
    fix n assume "n \<in> set ?ns"
    then have "map_of (dk_files d) n \<noteq> None" by (simp add: map_of_eq_None_iff)
    then show "skipped_file n \<or> vfile d n \<noteq> None" by (cases "skipped_file n") (simp_all add: vfile_def visible_not_hidden)
  qed
  from walk_files_loads [OF wf a b] obtain devs where w: "walk_files ?ns ?s = Ret (None, ?s\<lparr>tp_Devices := devs\<rparr>)" "loaded (vfile d) devs"
    "\<forall>n \<in> set ?ns. \<not> skipped_file n \<longrightarrow> map_of devs (hash_of n) \<noteq> None"
    by blast
  let ?ids = "map (ti_DeviceID \<circ> snd) devs"
  let ?s1 = "?s\<lparr>tp_Devices := devs\<rparr>"
  have load: "loadDeviceFilesOnStart ?s = Ret (None, ?s1)" using w(1) by (simp add: loadDeviceFilesOnStart_def fresh_set_def)
  have "list_all valid_id ?ids" using w(2) by (auto simp: loaded_def list_all_iff)
  moreover have "bitmap_ok (replicate deviceIDMapSz 0)" by (simp add: bitmap_ok_def)
  ultimately obtain m where mp: "constructDeviceIDMap ?ids (replicate deviceIDMapSz 0) = Ret m" "bitmap_ok m"
    using constructDeviceIDMap_valid by metis
  obtain x where c: "countDeletedDevices (?s1\<lparr>tp_deviceIDMap := m\<rparr>) = ?s1\<lparr>tp_deviceIDMap := m, tp_nrDeletedDevices := x\<rparr>"
    using countDeletedDevices_frame by blast
  let ?s2 = "?s1\<lparr>tp_deviceIDMap := m, tp_nrDeletedDevices := x\<rparr>"
  have "initMetaData (fresh_set d ds) = processPendingTransaction ?s2"
    unfolding initMetaData_def using m load mp c by (simp add: fresh_set_def)
  moreover have "map_of devs (hash_of n) \<noteq> None" if "\<not> skipped_file n" "vfile d n \<noteq> None" for n
  proof -
    have "n \<in> set ?ns" using that(2) by (auto simp: vfile_def dest!: map_of_SomeD split: if_splits intro: rev_image_eqI)
    with w(3) that(1) show ?thesis by blast
  qed
  ultimately show ?thesis using mp(2) w(2) by (intro exI [of _ ?s2]) (simp add: fresh_set_def)
qed

lemma read_transaction:
  "tp_faults s = (\<lambda>_. None) \<Longrightarrow>
     read_meta transactionMetaFile s = (case vfile (tp_disk s) transactionMetaFile of None \<Rightarrow> Inl ENOENT | Some b \<Rightarrow> Inr b)"
  using transaction_visible by (simp add: read_meta_def vfile_def)

lemma load_transaction:
  assumes "tp_faults s = (\<lambda>_. None)" and "vfile (tp_disk s) transactionMetaFile = Some (JsonDoc (encode_transaction x))" and "good_tx x"
  shows "loadTransactionMetaData s = (None, s\<lparr>tp_transaction := x\<rparr>)"
proof -
  obtain kvs where kvs: "encode_transaction x = JObj kvs" by (simp add: encode_transaction_def)
  have "- (2 ^ 63) \<le> tx_DeviceID x" "tx_DeviceID x < 2 ^ 63" using assms(3) by (auto simp: good_tx_def valid_id_def maxDeviceID_def)
  from decode_encode_transaction [OF this _ kvs] assms(3) have "fst (fold decode_transaction_field kvs (tp_transaction s, None)) = x"
    by (simp add: good_tx_def)
  with assms(1,2) kvs show ?thesis by (simp add: loadTransactionMetaData_def read_transaction)
qed

lemma process_nothing:
  assumes f: "tp_faults s = (\<lambda>_. None)" and n: "no_pending (vfile (tp_disk s)) (tp_TransactionID s)"
  shows "\<exists>s'. processPendingTransaction s = Ret (None, s') \<and> tp_disk s' = tp_disk s \<and> tp_Devices s' = tp_Devices s"
proof (cases "vfile (tp_disk s) transactionMetaFile")
  case None
  with f have "loadTransactionMetaData s = (None, s\<lparr>tp_transaction := (tp_transaction s)\<lparr>tx_OpenTransactionID := tp_TransactionID s\<rparr>\<rparr>)"
    by (simp add: loadTransactionMetaData_def read_transaction os_IsNotExist_def)
  then show ?thesis by (simp add: processPendingTransaction_def)
next
  case (Some b)
  with n obtain x where x: "b = JsonDoc (encode_transaction x)" "good_tx x" "tx_OpenTransactionID x \<le> tp_TransactionID s"
    by (auto simp: no_pending_def)
  from load_transaction [OF f _ x(2)] Some x(1) have "loadTransactionMetaData s = (None, s\<lparr>tp_transaction := x\<rparr>)" by simp
  with x(3) show ?thesis by (auto simp: processPendingTransaction_def)
qed

lemma process_rollback:
  assumes f: "tp_faults s = (\<lambda>_. None)" and x: "vfile (tp_disk s) transactionMetaFile = Some (JsonDoc (encode_transaction x))" "good_tx x"
    and gt: "tp_TransactionID s < tx_OpenTransactionID x" and ok: "bitmap_ok (tp_deviceIDMap s)"
  shows "\<exists>s'. processPendingTransaction s = Ret (None, s') \<and>
     vfile (tp_disk s') = (vfile (tp_disk s))(metadataFile (tx_DeviceIDHash x) := None, transactionMetaFile := None) \<and>
     set (dk_ids (tp_disk s')) = set (dk_ids (tp_disk s)) - {tx_DeviceID x} \<and> tp_Devices s' = tp_Devices s"
proof -
  let ?k = "tx_DeviceID x" and ?h = "tx_DeviceIDHash x"
  let ?s = "s\<lparr>tp_transaction := x\<rparr>"
  obtain er s1 where d: "dm_DeleteDevice ?k ?s = (er, s1)" by fastforce
  from dm_DeleteDevice_cases [OF d] d f have s1: "only_disk ?s s1" "vfile (tp_disk s1) = vfile (tp_disk s)"
    "set (dk_ids (tp_disk s1)) = set (dk_ids (tp_disk s)) - {?k}"
    by (auto simp: dm_DeleteDevice_def split: if_splits)
  note s1' = only_disk_simps [OF s1(1)]
  have f1: "tp_faults s1 = (\<lambda>_. None)" using s1' f by simp
  define s2 where "s2 = commit (remove_file (metadataFile ?h)) s1"
  have r: "removeMetadata ?h s1 = (None, s2)" using f1 by (simp add: removeMetadata_def remove_meta_def s2_def)
  have s2: "only_disk ?s s2" using s1(1) by (simp add: s2_def)
  have "valid_id ?k" using x(2) by (simp add: good_tx_def)
  from markDeviceIDFree_valid [OF this ok] obtain m where m: "markDeviceIDFree ?k (tp_deviceIDMap s) = Ret m" by blast
  have mf: "thin_markFree ?k s2 = Ret (s2\<lparr>tp_deviceIDMap := m\<rparr>)"
    using m only_disk_simps [OF s2] by (simp add: thin_markFree_def)
  have "removeTransactionMetaData (s2\<lparr>tp_deviceIDMap := m\<rparr>) = (None, commit (remove_file transactionMetaFile) (s2\<lparr>tp_deviceIDMap := m\<rparr>))"
    using only_disk_simps [OF s2] f by (simp add: removeTransactionMetaData_def remove_meta_def)
  then have rb: "rollbackTransaction ?s = Ret (commit (remove_file transactionMetaFile) (s2\<lparr>tp_deviceIDMap := m\<rparr>))"
    using d r mf s1' only_disk_simps [OF s2] by (simp add: rollbackTransaction_def)
  moreover have "processPendingTransaction s = bind_outcome (rollbackTransaction ?s) (\<lambda>s2.
      Ret (None, s2\<lparr>tp_transaction := (tp_transaction s2)\<lparr>tx_OpenTransactionID := tp_TransactionID s2\<rparr>\<rparr>))"
    using load_transaction [OF f x] gt by (auto simp: processPendingTransaction_def)
  ultimately show ?thesis
    using s1(2,3) only_disk_simps [OF s2] by (simp add: vfile_remove s2_def commit_def) (simp add: remove_file_def)
qed

section \<open>Recovery of the three kinds of states\<close>

text \<open>What the start-up finds of the devices, apart from the files it skips.\<close>

definition device_files :: "disk \<Rightarrow> string \<Rightarrow> blob option" where
  "device_files d name = (if skipped_file name then None else vfile d name)"

text \<open>The hashes of the devices that files describe.\<close>

definition hashes :: "(string \<Rightarrow> blob option) \<Rightarrow> string set" where
  "hashes F = hash_of ` dom F"

text \<open>
  The start-up from \<open>d\<close> succeeds, the device files it leaves are \<open>F\<close>, all their devices exist in the pool, and the table in
  memory has the devices \<open>M\<close>.
\<close>

definition recovers_to :: "disk \<Rightarrow> device_set \<Rightarrow> (string \<Rightarrow> blob option) \<Rightarrow> string set \<Rightarrow> bool" where
  "recovers_to d ds F M \<longleftrightarrow>
     (\<exists>s. initMetaData (fresh_set d ds) = Ret (None, s) \<and> device_files (tp_disk s) = F \<and>
        devids (vfile (tp_disk s)) \<subseteq> set (dk_ids (tp_disk s)) \<and> dom (map_of (tp_Devices s)) = M)"

lemma loaded_dom:
  assumes "loaded (vfile d) devs" and "\<forall>n. \<not> skipped_file n \<longrightarrow> vfile d n \<noteq> None \<longrightarrow> map_of devs (hash_of n) \<noteq> None"
  shows "dom (map_of devs) = hashes (device_files d)"
proof
  show "dom (map_of devs) \<subseteq> hashes (device_files d)"
    using assms(1) by (fastforce simp: loaded_def hashes_def device_files_def dom_def image_def dest!: map_of_SomeD)
  show "hashes (device_files d) \<subseteq> dom (map_of devs)"
    using assms(2) by (auto simp: hashes_def device_files_def split: if_splits)
qed

lemma devids_eq:
  assumes "\<And>name. \<not> skipped_file name \<Longrightarrow> F name = G name"
  shows "devids F = devids G"
proof -
  have "(\<not> skipped_file n \<and> F n = Some b \<and> P) = (\<not> skipped_file n \<and> G n = Some b \<and> P)" for n b P
    using assms by auto
  then show ?thesis unfolding devids_def by (simp only:)
qed

lemma recover_unchanged:
  assumes "wf_files (vfile d)" and "dk_old d = None" and "no_pending (vfile d) (dk_tid d)" and "devids (vfile d) \<subseteq> set (dk_ids d)"
  shows "recovers_to d ds (device_files d) (hashes (device_files d))"
proof -
  from startup_loads [OF assms(1,2)] obtain s where s: "initMetaData (fresh_set d ds) = processPendingTransaction s" "tp_disk s = d"
    "tp_TransactionID s = dk_tid d" "tp_faults s = (\<lambda>_. None)" "loaded (vfile d) (tp_Devices s)"
    "\<forall>n. \<not> skipped_file n \<longrightarrow> vfile d n \<noteq> None \<longrightarrow> map_of (tp_Devices s) (hash_of n) \<noteq> None" by blast
  from process_nothing [OF s(4)] s(2,3) assms(3) obtain s' where "processPendingTransaction s = Ret (None, s')" "tp_disk s' = d"
    "tp_Devices s' = tp_Devices s" by auto
  with s(1) assms(4) loaded_dom [OF s(5,6)] show ?thesis by (auto simp: recovers_to_def)
qed

lemma transactionMetaFile_nonempty: "[] \<noteq> transactionMetaFile"
  by (simp add: transactionMetaFile_def)

lemma wf_files_upd:
  assumes "wf_files F" and "free_name F h"
  shows "wf_files (F(transactionMetaFile \<mapsto> x))" and "wf_files (F(metadataFile h := None))"
    and "new_info h i \<Longrightarrow> wf_files (F(metadataFile h \<mapsto> JsonDoc (encode_info i)))"
proof -
  show "wf_files (F(transactionMetaFile \<mapsto> x))" "wf_files (F(metadataFile h := None))"
    using assms(1) transactionMetaFile_nonempty by (auto simp: wf_files_def)
  assume i: "new_info h i"
  then have "decode_info (ti_Hash i) (JsonDoc (encode_info i)) = Ret (Some i)"
    by (intro decode_encode_info) (auto simp: new_info_def valid_id_def)
  with i assms show "wf_files (F(metadataFile h \<mapsto> JsonDoc (encode_info i)))"
    by (auto simp: wf_files_def new_info_def free_name_def metadataFile_def)
qed

lemma tx_doc_encode:
  "tx_doc t h k = JsonDoc (encode_transaction \<lparr>tx_OpenTransactionID = t, tx_DeviceIDHash = h, tx_DeviceID = k\<rparr>)"
  by (simp add: tx_doc_def)

text \<open>A disk on which a device can be added: well formed, nothing pending, the name is free.\<close>

definition addable :: "(string \<Rightarrow> blob option) \<Rightarrow> 64 word \<Rightarrow> string \<Rightarrow> bool" where
  "addable F t h \<longleftrightarrow> wf_files F \<and> no_pending F t \<and> t < t + 1 \<and> free_name F h \<and> coerce_utf8 h = h"

lemma addable_tx: "addable F t h \<Longrightarrow> valid_id k \<Longrightarrow> good_tx \<lparr>tx_OpenTransactionID = t + 1, tx_DeviceIDHash = h, tx_DeviceID = k\<rparr>"
  by (simp add: addable_def good_tx_def)

lemma recover_pre:
  assumes "pre_state (vfile d0) t d" and "addable (vfile d0) t h"
  shows "recovers_to d ds (device_files d0) (hashes (device_files d0))"
proof -
  have d: "vfile d = vfile d0" "dk_tid d = t" "dk_old d = None" "devids (vfile d) \<subseteq> set (dk_ids d)"
    using assms(1) by (auto simp: pre_state_def)
  have "device_files d = device_files d0" using d(1) by (simp add: device_files_def fun_eq_iff)
  with recover_unchanged [OF _ d(3) _ d(4), of ds] assms(2) d(1,2) show ?thesis by (simp add: addable_def)
qed

lemma recover_open:
  assumes op: "open_state (vfile d0) t h fo d" and ad: "addable (vfile d0) t h"
    and fo: "fo = None \<or> (\<exists>i. new_info h i \<and> fo = Some (JsonDoc (encode_info i)))"
  shows "\<exists>s. initMetaData (fresh_set d ds) = Ret (None, s) \<and> device_files (tp_disk s) = device_files d0 \<and>
     devids (vfile (tp_disk s)) \<subseteq> set (dk_ids (tp_disk s)) \<and>
     dom (map_of (tp_Devices s)) = (if fo = None then {} else {h}) \<union> hashes (device_files d0)"
proof -
  let ?F = "vfile d0"
  from ad have fn: "free_name ?F h" and wf0: "wf_files ?F" by (auto simp: addable_def)
  note fn' = free_nameD [OF fn]
  from op obtain k where k: "vfile d = ?F(transactionMetaFile \<mapsto> tx_doc (t + 1) h k, metadataFile h := fo)" "valid_id k"
    "k \<notin> devids ?F" "dk_tid d = t" "dk_old d = None" "devids ?F \<subseteq> set (dk_ids d)" by (auto simp: open_state_def)
  have fn1: "free_name (?F(transactionMetaFile \<mapsto> x)) h" for x
    using fn fn'(3) by (simp add: free_name_def)
  have wf: "wf_files (vfile d)"
    using fo wf_files_upd(2,3) [OF wf_files_upd(1) [OF wf0 fn] fn1] unfolding k(1) by blast
  let ?x = "\<lparr>tx_OpenTransactionID = t + 1, tx_DeviceIDHash = h, tx_DeviceID = k\<rparr>"
  from startup_loads [OF wf k(5), of ds] obtain s where s: "initMetaData (fresh_set d ds) = processPendingTransaction s" "tp_disk s = d"
    "tp_TransactionID s = t" "bitmap_ok (tp_deviceIDMap s)" "tp_faults s = (\<lambda>_. None)" and
    ld: "loaded (vfile d) (tp_Devices s)" and dev: "\<forall>n. \<not> skipped_file n \<longrightarrow> vfile d n \<noteq> None \<longrightarrow> map_of (tp_Devices s) (hash_of n) \<noteq> None" using k(4) by metis
  have "vfile (tp_disk s) transactionMetaFile = Some (JsonDoc (encode_transaction ?x))"
    using k(1) s(2) fn'(4) by (simp add: tx_doc_encode)
  from process_rollback [OF s(5) this addable_tx [OF ad k(2)] _ s(4)] s(2,3) ad obtain s' where
    s': "processPendingTransaction s = Ret (None, s')" "vfile (tp_disk s') = (vfile d)(metadataFile h := None, transactionMetaFile := None)"
      "set (dk_ids (tp_disk s')) = set (dk_ids d) - {k}" "tp_Devices s' = tp_Devices s" by (auto simp: addable_def)
  have same: "vfile (tp_disk s') name = ?F name" if "\<not> skipped_file name" for name
    using that s'(2) k(1) fn'(1) by auto
  have "device_files (tp_disk s') = device_files d0" using same by (auto simp: device_files_def fun_eq_iff)
  moreover have "devids (vfile (tp_disk s')) \<subseteq> set (dk_ids (tp_disk s'))" using devids_eq [OF same] k(3,6) s'(3) by auto
  moreover have "dom (map_of (tp_Devices s')) = (if fo = None then {} else {h}) \<union> hashes (device_files d0)"
  proof -
    have f0: "device_files d0 (metadataFile h) = None" using fn by (simp add: device_files_def free_name_def)
    have "device_files d = (device_files d0)(metadataFile h := fo)"
      using k(1) fn by (auto simp: device_files_def fun_eq_iff free_name_def)
    moreover have "hash_of (metadataFile h) = h" using fn by (simp add: free_name_def)
    moreover have "hashes ((device_files d0)(metadataFile h := fo)) =
        (if fo = None then {} else {hash_of (metadataFile h)}) \<union> hashes (device_files d0)"
    proof -
      have "dom ((device_files d0)(metadataFile h := fo)) =
          (if fo = None then {} else {metadataFile h}) \<union> dom (device_files d0)"
        using f0 by (auto split: if_splits)
      then show ?thesis by (simp add: hashes_def image_Un)
    qed
    ultimately show ?thesis using loaded_dom [OF ld dev] s'(4) by simp
  qed
  ultimately show ?thesis using s(1) s'(1) by (intro exI [of _ s']) simp
qed

lemma recover_closed:
  assumes cl: "closed_state (vfile d0) t h d" and ad: "addable (vfile d0) t h"
  shows "\<exists>i. new_info h i \<and> ti_DeviceID i \<notin> devids (vfile d0) \<and> 
     (let F = (device_files d0)(metadataFile h \<mapsto> JsonDoc (encode_info i)) in recovers_to d ds F (hashes F))"
proof -
  let ?F = "vfile d0"
  from ad have fn: "free_name ?F h" and wf0: "wf_files ?F" by (auto simp: addable_def)
  note fn' = free_nameD [OF fn]
  from cl obtain k i where k: "vfile d = ?F(transactionMetaFile \<mapsto> tx_doc (t + 1) h k, metadataFile h \<mapsto> JsonDoc (encode_info i))"
    "new_info h i" "ti_DeviceID i \<notin> devids ?F" "insert (ti_DeviceID i) (devids ?F) \<subseteq> set (dk_ids d)" "valid_id k" "dk_tid d = t + 1" "dk_old d = None"
    by (auto simp: closed_state_def)
  have fn1: "free_name (?F(transactionMetaFile \<mapsto> x)) h" for x
    using fn fn'(3) by (simp add: free_name_def)
  have wf: "wf_files (vfile d)"
    using wf_files_upd(3) [OF wf_files_upd(1) [OF wf0 fn] fn1 k(2)] unfolding k(1) .
  have np: "no_pending (vfile d) (dk_tid d)"
    unfolding no_pending_def using addable_tx [OF ad k(5)] k(1,6) fn'(4) by (auto simp: tx_doc_encode)
  have "decode_info (hash_of (metadataFile h)) (JsonDoc (encode_info i)) = Ret (Some i)"
    using decode_encode_info [of i] k(2) fn by (simp add: new_info_def valid_id_def free_name_def)
  then have "devids (vfile d) \<subseteq> insert (ti_DeviceID i) (devids ?F)"
    unfolding k(1) devids_def by (auto split: if_splits)
  with k(4) have "devids (vfile d) \<subseteq> set (dk_ids d)" by blast
  from recover_unchanged [OF wf k(7) np this, of ds] have "recovers_to d ds (device_files d) (hashes (device_files d))" .
  moreover have "device_files d = (device_files d0)(metadataFile h \<mapsto> JsonDoc (encode_info i))"
    using k(1) fn by (auto simp: device_files_def fun_eq_iff free_name_def)
  ultimately show ?thesis using k(2,3) by (auto simp: Let_def)
qed

lemma recover_crash_state:
  assumes "crash_state (vfile d0) t h d" and ad: "addable (vfile d0) t h"
  shows "recovers_to d ds (device_files d0) (hashes (device_files d0)) \<or>
     recovers_to d ds (device_files d0) (insert h (hashes (device_files d0))) \<or>
     (\<exists>i. new_info h i \<and> ti_DeviceID i \<notin> devids (vfile d0) \<and>
        (let F = (device_files d0)(metadataFile h \<mapsto> JsonDoc (encode_info i)) in recovers_to d ds F (hashes F)))"
proof -
  have "recovers_to d ds (device_files d0) (hashes (device_files d0)) \<or>
      recovers_to d ds (device_files d0) (insert h (hashes (device_files d0)))"
    if "open_state (vfile d0) t h fo d" "fo = None \<or> (\<exists>i. new_info h i \<and> fo = Some (JsonDoc (encode_info i)))" for fo
    using recover_open [OF that(1) ad that(2), of ds] by (cases fo) (auto simp: recovers_to_def)
  with assms(1) recover_pre [OF _ ad] recover_closed [OF _ ad] show ?thesis
    unfolding crash_state_def by blast
qed

section \<open>Adding a device\<close>

lemma lookup_frame:
  "thin_lookupDevice h s = Ret (r, s1) \<Longrightarrow> \<exists>devs. s1 = s\<lparr>tp_Devices := devs\<rparr> \<and> (\<forall>i. r = Inr i \<longrightarrow> map_of devs h = Some i)"
  by (auto simp: thin_lookupDevice_def split: option.splits intro: exI [of _ "tp_Devices s"])

text \<open>\<open>AddDevice\<close> either returns early without touching the disk or runs the transaction.\<close>

lemma AddDevice_cases:
  assumes "AddDevice h base s = Ret (er, s')"
  obtains (early) devs where "er \<noteq> None" and "s' = s\<lparr>tp_Devices := devs\<rparr>"
  | (create) devs b r where "create_register (dm_CreateSnapDevice b) h (ti_Size b) (s\<lparr>tp_Devices := devs\<rparr>) = Ret (r, s')"
      and "er = (case r of Inl e \<Rightarrow> Some e | Inr _ \<Rightarrow> None)" and "map_of devs base = Some b \<or> h = base" and "\<not> ti_Deleted b"
proof -
  from assms obtain r s1 where l: "thin_lookupDevice base s = Ret (r, s1)" and rest: "(case r of
         Inl e \<Rightarrow> Ret (Some e, s1)
       | Inr base \<Rightarrow>
           if ti_Deleted base then
             Ret (Some (ErrText (''devmapper: Base device '' @ ti_Hash base @ '' has been marked for deferred deletion'')), s1)
           else
             bind_outcome (thin_lookupDevice h s1) (\<lambda>(r, s2).
               case r of
                 Inr info \<Rightarrow> Ret (Some (ErrText (''devmapper: device '' @ h @ '' already exists.'')), s2)
               | Inl _ \<Rightarrow> createRegisterSnapDevice h base s2)) = Ret (er, s')"
    by (auto simp: AddDevice_def simp del: bind_outcome_eq_Ret elim!: bind_outcomeE)
  from lookup_frame [OF l] obtain devs where s1: "s1 = s\<lparr>tp_Devices := devs\<rparr>" "\<forall>i. r = Inr i \<longrightarrow> map_of devs base = Some i" by blast
  show thesis
  proof (cases r)
    case (Inl e)
    with rest s1(1) show thesis by (intro early [of devs]) auto
  next
    case (Inr b)
    show thesis
    proof (cases "ti_Deleted b")
      case True
      with rest s1(1) Inr show thesis by (intro early [of devs]) auto
    next
      case False
      with rest Inr obtain r2 s2 where l2: "thin_lookupDevice h s1 = Ret (r2, s2)" and
        rest2: "(case r2 of Inr info \<Rightarrow> Ret (Some (ErrText (''devmapper: device '' @ h @ '' already exists.'')), s2)
               | Inl _ \<Rightarrow> createRegisterSnapDevice h b s2) = Ret (er, s')" by auto
      from lookup_frame [OF l2] s1(1) obtain devs2 where s2: "s2 = s\<lparr>tp_Devices := devs2\<rparr>" by auto
      show thesis
      proof (cases r2)
        case Inr
        with rest2 s2 show thesis by (intro early [of devs2]) auto
      next
        case (Inl e)
        then have s21: "s2 = s1" using l2 by (auto simp: thin_lookupDevice_def split: option.splits)
        from rest2 Inl obtain r3 where "create_register (dm_CreateSnapDevice b) h (ti_Size b) s2 = Ret (r3, s')"
          "er = (case r3 of Inl e \<Rightarrow> Some e | Inr _ \<Rightarrow> None)" by (auto simp: createRegisterSnapDevice_def)
        with s2 s21 s1 \<open>r = Inr b\<close> False show thesis by (intro create [of b devs r3]) auto
      qed
    qed
  qed
qed

text \<open>
  C4: Adding a device is atomic across crashes.  Whatever system calls fail while \<open>AddDevice\<close> runs, and
  whatever state it is killed in, the start-up after that succeeds; it finds the metadata files of exactly the
  devices from before, or of those and the new one, whose id no other device has; and every device it finds
  exists in the pool.  The table in memory has exactly the devices of these files, with one exception: when the
  addition was rolled back, it may still have the device that was not added.
\<close>

theorem AddDevice_crash_safe:
  assumes "AddDevice h base s = Ret (er, s')" and "covers (vfile (tp_disk s)) s"
    and "pre_state (vfile (tp_disk s)) (tp_TransactionID s) (tp_disk s)" and "addable (vfile (tp_disk s)) (tp_TransactionID s) h"
    and "d \<in> set (tp_trace s') - set (tp_trace s)"
  shows "recovers_to d ds (device_files (tp_disk s)) (hashes (device_files (tp_disk s))) \<or>
     recovers_to d ds (device_files (tp_disk s)) (insert h (hashes (device_files (tp_disk s)))) \<or>
     (\<exists>i. new_info h i \<and> ti_DeviceID i \<notin> devids (vfile (tp_disk s)) \<and>
        (let F = (device_files (tp_disk s))(metadataFile h \<mapsto> JsonDoc (encode_info i)) in recovers_to d ds F (hashes F)))"
  using assms(1)
proof (cases rule: AddDevice_cases)
  case early
  with assms(5) show ?thesis by auto
next
  case (create devs b r)
  let ?F = "vfile (tp_disk s)" and ?t = "tp_TransactionID s"
  have fn: "free_name ?F h" using assms(4) by (simp add: addable_def)
  from snap.create_register_spec [where s = "s\<lparr>tp_Devices := devs\<rparr>" and t = ?t and F = ?F, OF _ _ _ fn, of b "ti_Size b"]
    assms(2,3) create(1) have "grows (crash_state ?F ?t h) (s\<lparr>tp_Devices := devs\<rparr>) s'" by auto
  with assms(5) have "crash_state ?F ?t h d" by (auto simp: grows_def)
  from recover_crash_state [OF this assms(4)] show ?thesis .
qed


text \<open>
  The rollback of an interrupted addition removes the metadata file and the thin device, but not the
  entry of the table the start-up has already loaded: \<open>HasDevice\<close> still reports the device, and adding it
  again fails because it already exists.
\<close>

lemma rollback_leaves_stale_device:
  assumes "open_state (vfile d0) t h (Some (JsonDoc (encode_info i))) d" and "new_info h i" and "addable (vfile d0) t h"
  shows "\<exists>s. initMetaData (fresh_set d ds) = Ret (None, s) \<and> vfile (tp_disk s) (metadataFile h) = None \<and>
     HasDevice h s = Ret (True, s) \<and> (\<forall>base s'. AddDevice h base s \<noteq> Ret (None, s'))"
proof -
  from recover_open [OF assms(1,3), of ds] assms(2) obtain s where s: "initMetaData (fresh_set d ds) = Ret (None, s)"
    "device_files (tp_disk s) = device_files d0" "map_of (tp_Devices s) h \<noteq> None" by (auto simp: dom_def set_eq_iff)
  have fn: "\<not> skipped_file (metadataFile h)" "vfile d0 (metadataFile h) = None" using assms(3) by (auto simp: addable_def free_name_def)
  then have "device_files d0 (metadataFile h) = None" by (simp add: device_files_def)
  with s(2) fn(1) have v: "vfile (tp_disk s) (metadataFile h) = None" by (metis device_files_def)
  from s(3) obtain j where j: "map_of (tp_Devices s) h = Some j" by auto
  then have has: "HasDevice h s = Ret (True, s)" by (simp add: HasDevice_def thin_lookupDevice_def)
  have "AddDevice h base s \<noteq> Ret (None, s')" for base s'
  proof
    assume "AddDevice h base s = Ret (None, s')"
    then obtain b s1 where l: "thin_lookupDevice base s = Ret (Inr b, s1)" and rest: "bind_outcome (thin_lookupDevice h s1) (\<lambda>(r, s2).
               case r of
                 Inr info \<Rightarrow> Ret (Some (ErrText (''devmapper: device '' @ h @ '' already exists.'')), s2)
               | Inl _ \<Rightarrow> createRegisterSnapDevice h b s2) = Ret (None, s')"
      by (auto simp: AddDevice_def simp del: bind_outcome_eq_Ret elim!: bind_outcomeE split: sum.splits if_splits)
    have "map_of (tp_Devices s1) h \<noteq> None"
      using l j by (auto simp: thin_lookupDevice_def split: option.splits)
    then have "\<exists>k. thin_lookupDevice h s1 = Ret (Inr k, s1)" by (auto simp: thin_lookupDevice_def)
    with rest show False by auto
  qed
  with s(1) v has show ?thesis by blast
qed

section \<open>Witnesses\<close>

text \<open>A pool with the base device, id 0, and a device set that has loaded it.\<close>

definition demo_base :: thin_info where
  "demo_base = \<lparr>ti_Hash = [], ti_DeviceID = 0, ti_Size = 4096, ti_TransactionID = 1, ti_Initialized = True, ti_Deleted = False\<rparr>"

definition demo_disk :: disk where
  "demo_disk = \<lparr>dk_files = [(''base'', JsonDoc (encode_info demo_base))], dk_old = None, dk_ids = [0], dk_tid = 5\<rparr>"

definition demo_ds :: device_set where
  "demo_ds = \<lparr>ds_Devices = [], ds_stored = (\<lambda>_. None), ds_deferredRemove = False, ds_active = [], ds_pending = [], ds_kmounts = [],
     ds_content = [], ds_faults = (\<lambda>_ _. None)\<rparr>"

definition demo_pool :: "(thin_op \<Rightarrow> err option) \<Rightarrow> thin_pool" where
  "demo_pool flt = (fresh_set demo_disk demo_ds)\<lparr>tp_Devices := [([], demo_base)], tp_TransactionID := 5,
     tp_deviceIDMap := (replicate deviceIDMapSz 0)[0 := 1], tp_faults := flt\<rparr>"

lemma demo_files: "vfile demo_disk = [''base'' \<mapsto> JsonDoc (encode_info demo_base)]"
proof -
  have "\<not> prefix ''.'' ''base''" by code_simp
  then show ?thesis by (auto simp: vfile_def demo_disk_def fun_eq_iff)
qed

lemma demo_decode: "decode_info [] (JsonDoc (encode_info demo_base)) = Ret (Some demo_base)"
  using decode_encode_info [of demo_base] by (simp add: demo_base_def maxDeviceID_def)

lemma demo_devids: "devids (vfile demo_disk) \<subseteq> {0}"
  unfolding devids_def demo_files
  by (auto simp: hash_of_def demo_decode split: if_splits) (simp add: demo_base_def)

lemma demo_addable: "addable (vfile demo_disk) 5 ''c1''"
proof -
  have c: "coerce_utf8 ''c1'' = ''c1''" "\<not> skipped_file ''c1''" "transactionMetaFile \<noteq> ''base''" by code_simp+
  have wf: "wf_files (vfile demo_disk)"
    unfolding demo_files wf_files_def by (auto simp: hash_of_def demo_decode valid_id_def maxDeviceID_def) (simp_all add: demo_base_def)
  have "no_pending (vfile demo_disk) 5" unfolding no_pending_def demo_files using c(3) by simp
  moreover have "free_name (vfile demo_disk) ''c1''"
    unfolding free_name_def demo_files using c(2) by (simp add: metadataFile_def hash_of_def)
  ultimately show ?thesis using wf c(1) by (simp add: addable_def)
qed

lemma demo_pool_ok:
  shows "covers (vfile (tp_disk (demo_pool flt))) (demo_pool flt)"
    and "pre_state (vfile (tp_disk (demo_pool flt))) (tp_TransactionID (demo_pool flt)) (tp_disk (demo_pool flt))"
    and "addable (vfile (tp_disk (demo_pool flt))) (tp_TransactionID (demo_pool flt)) ''c1''"
proof -
  have d: "tp_disk (demo_pool flt) = demo_disk" "tp_TransactionID (demo_pool flt) = 5" by (simp_all add: demo_pool_def fresh_set_def)
  show "addable (vfile (tp_disk (demo_pool flt))) (tp_TransactionID (demo_pool flt)) ''c1''" using demo_addable by (simp add: d)
  show "pre_state (vfile (tp_disk (demo_pool flt))) (tp_TransactionID (demo_pool flt)) (tp_disk (demo_pool flt))"
    using demo_devids by (simp add: d pre_state_def) (auto simp: demo_disk_def)
  have "bitmap_ok (tp_deviceIDMap (demo_pool flt))" by (simp add: demo_pool_def bitmap_ok_def)
  moreover have "used (tp_deviceIDMap (demo_pool flt)) 0" by (simp add: demo_pool_def used_def deviceIDMapSz_def)
  ultimately show "covers (vfile (tp_disk (demo_pool flt))) (demo_pool flt)"
    using demo_devids by (auto simp: covers_def d valid_id_def maxDeviceID_def)
qed

text \<open>The program is killed after the transaction file could not be written.\<close>

definition demo_fault :: "thin_op \<Rightarrow> err option" where
  "demo_fault op = (if op = MetaWrite transactionMetaFile then Some (EOther 28) else None)"

lemma demo_AddDevice:
  "\<exists>er s'. AddDevice ''c1'' [] (demo_pool demo_fault) = Ret (er, s') \<and> tp_trace s' = [put_file ''.tmp0'' (Raw []) demo_disk]"
proof -
  let ?s = "demo_pool demo_fault"
  have t: "temp_file (dk_files demo_disk) = Some ''.tmp0''" by code_simp
  have l: "thin_lookupDevice [] ?s = Ret (Inr demo_base, ?s)" by (simp add: thin_lookupDevice_def demo_pool_def)
  have l2: "thin_lookupDevice ''c1'' ?s = Ret (Inl (ErrText (''devmapper: Unknown device '' @ ''c1'')), ?s)"
    by (simp add: thin_lookupDevice_def loadMetadata_def read_meta_def demo_pool_def fresh_set_def demo_disk_def metadataFile_def demo_fault_def)
  from thin_nextID_cases [OF demo_pool_ok(1), of demo_fault] obtain r s1 where n: "thin_nextID ?s = Ret (r, s1)"
    "covers (vfile (tp_disk ?s)) s1" "tp_disk s1 = demo_disk" "tp_trace s1 = []" "tp_faults s1 = demo_fault"
    and k: "\<forall>k. r = Inr k \<longrightarrow> valid_id k \<and> k \<notin> devids (vfile (tp_disk ?s))"
    by (auto simp: demo_pool_def fresh_set_def)
  have "\<not> used (tp_deviceIDMap ?s) 1" "valid_id 1" by (simp_all add: demo_pool_def used_def deviceIDMapSz_def bit_1_iff valid_id_def maxDeviceID_def)
  with getNextFree_cases [of "tp_deviceIDMap ?s" "tp_NextDeviceID ?s"] demo_pool_ok(1) [of demo_fault] n(1) obtain k0 where
    r: "r = Inr k0" by (auto simp: thin_nextID_def covers_def)
  with k have k0: "valid_id k0" "k0 \<notin> devids (vfile (tp_disk ?s))" by auto
  obtain s2 where o: "openTransaction ''c1'' k0 s1 = (Some (ErrText ''devmapper: Error saving transaction metadata''), s2)"
    "tp_trace s2 = [put_file ''.tmp0'' (Raw []) demo_disk]" "tp_deviceIDMap s2 = tp_deviceIDMap s1"
    using n(3-5) t by (auto simp: openTransaction_def saveTransactionMetaData_def allocateTransactionID_def writeMetaFile_def Let_def
        demo_fault_def commit_def)
  have "covers (vfile (tp_disk ?s)) s2" using n(2) o(3) by (simp add: covers_def)
  from thin_markFree_cases [OF this k0] obtain s3 where "thin_markFree k0 s2 = Ret s3" "tp_trace s3 = tp_trace s2" by blast
  with l l2 n(1) r o show ?thesis
    by (simp add: AddDevice_def demo_base_def createRegisterSnapDevice_def create_register_def)
qed

lemma AddDevice_crash_safe_witness:
  "let s = demo_pool demo_fault; d = put_file ''.tmp0'' (Raw []) demo_disk
   in \<exists>F. recovers_to d demo_ds F (hashes F) \<or>
     F = device_files (tp_disk s) \<and> recovers_to d demo_ds F (insert ''c1'' (hashes F))"
proof -
  from demo_AddDevice obtain er s' where r: "AddDevice ''c1'' [] (demo_pool demo_fault) = Ret (er, s')"
    "tp_trace s' = [put_file ''.tmp0'' (Raw []) demo_disk]" by blast
  have "put_file ''.tmp0'' (Raw []) demo_disk \<in> set (tp_trace s') - set (tp_trace (demo_pool demo_fault))"
    using r(2) by (simp add: demo_pool_def fresh_set_def)
  from AddDevice_crash_safe [OF r(1) demo_pool_ok this, of demo_ds] show ?thesis unfolding Let_def by blast
qed


definition demo_info :: thin_info where
  "demo_info = \<lparr>ti_Hash = ''c1'', ti_DeviceID = 1, ti_Size = 4096, ti_TransactionID = 6, ti_Initialized = False, ti_Deleted = False\<rparr>"

definition demo_open :: disk where
  "demo_open = \<lparr>dk_files = [(''c1'', JsonDoc (encode_info demo_info)), (''transaction-metadata'', tx_doc 6 ''c1'' 1),
     (''base'', JsonDoc (encode_info demo_base))], dk_old = None, dk_ids = [1, 0], dk_tid = 5\<rparr>"

lemma rollback_leaves_stale_device_witness:
  "\<exists>s. initMetaData (fresh_set demo_open demo_ds) = Ret (None, s) \<and> HasDevice ''c1'' s = Ret (True, s)"
proof -
  have h: "\<not> prefix ''.'' ''c1''" "\<not> prefix ''.'' ''transaction-metadata''" "\<not> prefix ''.'' ''base''" by code_simp+
  have "vfile demo_open = (vfile demo_disk)(transactionMetaFile \<mapsto> tx_doc (5 + 1) ''c1'' 1, metadataFile ''c1'' := Some (JsonDoc (encode_info demo_info)))"
    unfolding demo_files using h by (auto simp: vfile_def demo_open_def fun_eq_iff metadataFile_def transactionMetaFile_def)
  moreover have "1 \<notin> devids (vfile demo_disk)" "devids (vfile demo_disk) \<subseteq> set (dk_ids demo_open)"
    using demo_devids by (auto simp: demo_open_def)
  ultimately have "open_state (vfile demo_disk) 5 ''c1'' (Some (JsonDoc (encode_info demo_info))) demo_open"
    unfolding open_state_def by (intro conjI exI [of _ 1]) (simp_all add: demo_open_def valid_id_def maxDeviceID_def)
  moreover have "new_info ''c1'' demo_info" by (simp add: new_info_def demo_info_def valid_id_def maxDeviceID_def)
  ultimately show ?thesis using rollback_leaves_stale_device [OF _ _ demo_addable] by blast
qed

end
