(* ===== verification/Checksums.thy ===== *)
theory Checksums
  imports TarRoundtrip Mounters Digest
begin

text \<open>
  \<open>checksums.go\<close>: the checksum of a layer.  It is computed from the layer's tar-split record and
  the files of the mounted layer when there is such a record; when anything fails on that path, the
  layer is archived again and the stream is split, which also writes a new record.

  Files of the graph directory are reached through \<open>wfs\<close>: no device is mounted there.  A reader of
  the record sees the documents of the gzip stream; the error it ends in is \<open>io.EOF\<close> for a complete
  stream.  \<open>wfail\<close> says which write of the new record fails, \<open>ord\<close> in which order Go visits the map
  of PAX records.
\<close>

lemma map_sum_Inr [simp]: "map_sum f g r = Inr y \<longleftrightarrow> (\<exists>x. r = Inr x \<and> g x = y)"
  by (cases r) auto

section \<open>The counters\<close>

definition unpackSizeCounter_Next :: "unpacker \<times> int64 \<Rightarrow> entry res \<times> unpacker \<times> int64" where
  "unpackSizeCounter_Next us =
     (case unpacker_Next (fst us) of
        (Inl x, u') \<Rightarrow> (Inl x, u', snd us)
      | (Inr e, u') \<Rightarrow> (Inr e, u', snd us + esize e))"

definition packSizeCounter_AddEntry :: "entry \<Rightarrow> packer \<times> int64 \<Rightarrow> int64 res \<times> packer \<times> int64" where
  "packSizeCounter_AddEntry e ps =
     (case AddEntry e (fst ps) of
        (Inl x, p') \<Rightarrow> (Inl x, p', snd ps)
      | (Inr n, p') \<Rightarrow> (Inr n, p', snd ps + esize e))"

section \<open>From the tar-split record\<close>

text \<open>\<open>gzip.NewReader\<close> and what decoding the stream gives.\<close>

definition gzip_NewReader :: "blob \<Rightarrow> (json list \<times> err) res" where
  "gzip_NewReader b =
     (case b of
        GzipJson docs ok \<Rightarrow> Inr (docs, if ok then EOF else ErrText ''gzip: invalid checksum'')
      | Raw [] \<Rightarrow> Inl EOF
      | _ \<Rightarrow> Inl (ErrText ''gzip: invalid header''))"

text \<open>\<open>storage.NewPathFileGetter\<close> on the mounted layer.\<close>

definition NewPathFileGetter :: "world \<Rightarrow> string \<Rightarrow> string \<Rightarrow> stream res" where
  "NewPathFileGetter w relpath filename = w_open w (Join [relpath, filename])"

definition hash_Write :: "bytes \<Rightarrow> digester \<Rightarrow> err option \<times> digester" where
  "hash_Write b d = (None, dg_write b d)"

definition assembleTarTo ::
  "mounter \<Rightarrow> string \<Rightarrow> unpacker \<Rightarrow> int64 \<Rightarrow> digester \<Rightarrow> world \<Rightarrow>
   ((err option \<times> int64 \<times> digester) \<times> world) outcome" where
  "assembleTarTo drv graphID metadata sz d w =
     (case Mount drv graphID w of
        (Inl e, w1) \<Rightarrow> Ret ((Some e, sz, d), w1)
      | (Inr (fsPath, release), w1) \<Rightarrow>
          (case WriteOutputTarStream unpackSizeCounter_Next (NewPathFileGetter w1 fsPath) hash_Write
                  (metadata, sz) d of
             None \<Rightarrow> Diverge
           | Some (er, (_, sz'), d') \<Rightarrow>
               (case release of
                  None \<Rightarrow> Ret ((er, sz', d'), w1)
                | Some rel \<Rightarrow> bind_outcome (rel w1) (\<lambda>w2. Ret ((er, sz', d'), w2)))))"

text \<open>The body of \<open>ChecksumForGraphID\<close>, before its deferred function runs.\<close>

definition checksum_tarsplit ::
  "mounter \<Rightarrow> string \<Rightarrow> string \<Rightarrow> string \<Rightarrow> world \<Rightarrow> ((digest \<times> int64) res \<times> world) outcome" where
  "checksum_tarsplit drv gid oldTarDataPath newTarDataPath w =
     (if oldTarDataPath = [] then Ret (Inl (ErrText ''no tar-split file''), w)
      else
        (case ReadFile (wfs w) oldTarDataPath of
           Inl e \<Rightarrow> Ret (Inl e, w)
         | Inr b \<Rightarrow>
             (case gzip_NewReader b of
                Inl e \<Rightarrow> Ret (Inl e, w)
              | Inr (docs, en) \<Rightarrow>
                  bind_outcome (alg_New Canonical) (\<lambda>dgst.
                  bind_outcome (assembleTarTo drv gid (NewJSONUnpacker docs en) 0 dgst w)
                    (\<lambda>((er, sz, dgst'), w1).
                       case er of
                         Some e \<Rightarrow> Ret (Inl e, w1)
                       | None \<Rightarrow>
                           (let (_, s1) = os_RemoveAll newTarDataPath (wfs w1);
                                (r, s2) = os_Link oldTarDataPath newTarDataPath s1
                            in Ret (map_sum id (\<lambda>_. (digester_Digest dgst', sz)) r, w1\<lparr>wfs := s2\<rparr>)))))))"

section \<open>From a new archive\<close>

text \<open>
  The deferred \<open>mfz.Close\<close> flushes the gzip stream: it is one more write after the last entry, and
  like the error of \<open>f.Close\<close> its error is dropped.
\<close>

definition gzip_Close :: "packer \<Rightarrow> blob" where
  "gzip_Close p = GzipJson (pk_docs p) (pk_fail p (pk_pos p) = None)"

definition checksumForGraphIDNoTarsplit ::
  "((string \<times> string) list \<Rightarrow> (string \<times> string) list) \<Rightarrow> (int64 \<Rightarrow> err option) \<Rightarrow> mounter \<Rightarrow>
   string \<Rightarrow> string \<Rightarrow> string \<Rightarrow> world \<Rightarrow> ((digest \<times> int64) res \<times> world) outcome" where
  "checksumForGraphIDNoTarsplit ord wfail drv gid parent newTarDataPath w =
     bind_outcome (TarStream drv gid parent w) (\<lambda>(r, w1).
       case r of
         Inl e \<Rightarrow> Ret (Inl e, w1)
       | Inr (rawarchive, close) \<Rightarrow>
           (case os_Create newTarDataPath (wfs w1) of
              (Inl e, s) \<Rightarrow> bind_outcome (close (w1\<lparr>wfs := s\<rparr>)) (\<lambda>w2. Ret (Inl e, w2))
            | (Inr f, s) \<Rightarrow>
                bind_outcome (NewInputTarStream ord packSizeCounter_AddEntry discard_putter rawarchive
                                (NewJSONPacker wfail, 0) ()) (\<lambda>(archive, (p, sz), _).
                  let (_, s1) = write_ino newTarDataPath f (gzip_Close p) s
                  in bind_outcome (close (w1\<lparr>wfs := s1\<rparr>)) (\<lambda>w2.
                       Ret (map_sum id (\<lambda>dgst. (dgst, sz)) (FromReader archive), w2)))))"

definition ChecksumForGraphID ::
  "((string \<times> string) list \<Rightarrow> (string \<times> string) list) \<Rightarrow> (int64 \<Rightarrow> err option) \<Rightarrow> mounter \<Rightarrow>
   string \<Rightarrow> string \<Rightarrow> string \<Rightarrow> string \<Rightarrow> world \<Rightarrow> ((digest \<times> int64) res \<times> world) outcome" where
  "ChecksumForGraphID ord wfail drv gid parent oldTarDataPath newTarDataPath w =
     bind_outcome (checksum_tarsplit drv gid oldTarDataPath newTarDataPath w) (\<lambda>(r, w1).
       case r of
         Inr x \<Rightarrow> Ret (Inr x, w1)
       | Inl _ \<Rightarrow> checksumForGraphIDNoTarsplit ord wfail drv gid parent newTarDataPath w1)"

section \<open>The counters keep the contracts\<close>

definition total_size :: "entry list \<Rightarrow> int64" where
  "total_size es = sum_list (map esize es)"

lemma total_size_simps [simp]:
  "total_size [] = 0" "total_size (e # es) = esize e + total_size es" "total_size (es @ fs) = total_size es + total_size fs"
  by (simp_all add: total_size_def)

interpretation counted_source: entry_source unpackSizeCounter_Next "\<lambda>us. unpack_all (fst us)"
proof unfold_locales
  fix us :: "unpacker \<times> int64" and x assume "unpack_all (fst us) = ([], x)"
  then show "fst (unpackSizeCounter_Next us) = Inl x"
    using json_source.nxt_end [of "fst us" x]
    by (auto simp: unpackSizeCounter_Next_def split: prod.splits sum.splits)
next
  fix us :: "unpacker \<times> int64" and e es x assume "unpack_all (fst us) = (e # es, x)"
  then show "fst (unpackSizeCounter_Next us) = Inr e \<and> unpack_all (fst (snd (unpackSizeCounter_Next us))) = (es, x)"
    using json_source.nxt_more [of "fst us" e es x]
    by (auto simp: unpackSizeCounter_Next_def split: prod.splits sum.splits)
qed

definition counted_inv :: "(int64 \<Rightarrow> err option) \<Rightarrow> packer \<times> int64 \<Rightarrow> bool" where
  "counted_inv wfail ps \<longleftrightarrow>
     json_inv (fst ps) \<and> snd ps = total_size (json_logged (fst ps)) \<and> pk_fail (fst ps) = wfail"

lemma packSizeCounter_Inr:
  "packSizeCounter_AddEntry e ps = (Inr n, ps') \<longleftrightarrow>
     (\<exists>p'. AddEntry e (fst ps) = (Inr n, p') \<and> ps' = (p', snd ps + esize e))"
  by (auto simp: packSizeCounter_AddEntry_def split: prod.splits sum.splits)

lemma AddEntry_fail: "AddEntry e p = (r, p') \<Longrightarrow> pk_fail p' = pk_fail p"
  by (auto simp: AddEntry_def encode_at_def Let_def split: if_splits option.splits)

interpretation counted_log: entry_log packSizeCounter_AddEntry "counted_inv wfail" "\<lambda>ps. json_logged (fst ps)"
  by unfold_locales
    (auto simp: packSizeCounter_Inr counted_inv_def AddEntry_log json_log.add_fresh AddEntry_fail)

lemma counted_init: "counted_inv wfail (NewJSONPacker wfail, 0)"
  using json_inv_init [of wfail]
  by (simp add: counted_inv_def json_logged_def NewJSONPacker_def NewJSONUnpacker_def)

section \<open>Assembling into the digest\<close>

lemma dg_write_simps [simp]:
  "dg_buf (dg_write b d) = dg_buf d @ b" "dg_write c (dg_write b d) = dg_write (b @ c) d"
  "dg_write [] d = d"
  by (simp_all add: dg_write_def)

lemma copy_chunks_hash: "copy_chunks hash_Write bs crc d = (None, crc @ concat bs, dg_write (concat bs) d)"
  by (induction bs arbitrary: crc d) (auto simp: hash_Write_def)

lemma copyWithBuffer_hash: "copyWithBuffer hash_Write (b, er) d = (er, b, dg_write b d)"
  by (cases er) (simp_all add: copyWithBuffer_def copy_chunks_hash concat_chunks)

lemma write_entry_hash:
  "fst (write_entry fg hash_Write e d) = None \<longleftrightarrow> good_entry fg e"
  "good_entry fg e \<Longrightarrow> snd (write_entry fg hash_Write e d) = dg_write (piece fg e) d"
  by (auto simp: write_entry_def good_entry_def piece_def copyWithBuffer_hash hash_Write_def
      split: sum.splits option.splits prod.splits)

text \<open>
  The assembly returns on every record; it succeeds iff the record is read to its end and every
  entry is good, and then it has hashed the pieces and added up the sizes of the entries.
\<close>

lemma assemble_counted:
  assumes "unpack_all u = (es, x)"
  shows "\<exists>er u' sz' d'. WriteOutputTarStream unpackSizeCounter_Next fg hash_Write (u, sz) d = Some (er, (u', sz'), d') \<and>
           (er = None \<longleftrightarrow> (\<forall>e \<in> set es. good_entry fg e) \<and> x = EOF) \<and>
           (er = None \<longrightarrow> sz' = sz + total_size es \<and> d' = dg_write (concat (map (piece fg) es)) d)"
  using assms
proof (induction es arbitrary: u sz d)
  case Nil
  then have "fst (unpacker_Next u) = Inl x" by (rule json_source.nxt_end)
  then show ?case
    by (subst WriteOutputTarStream.simps) (cases "unpacker_Next u", auto simp: unpackSizeCounter_Next_def)
next
  case (Cons e es)
  from json_source.nxt_more [OF Cons.prems] obtain u1 where
    u1: "unpacker_Next u = (Inr e, u1)" "unpack_all u1 = (es, x)" by (cases "unpacker_Next u") auto
  then have nx: "unpackSizeCounter_Next (u, sz) = (Inr e, u1, sz + esize e)"
    by (simp add: unpackSizeCounter_Next_def)
  obtain r d1 where w: "write_entry fg hash_Write e d = (r, d1)" by fastforce
  show ?case
  proof (cases r)
    case None
    with w write_entry_hash [of fg e d] have g: "good_entry fg e" "d1 = dg_write (piece fg e) d" by auto
    show ?thesis
      using Cons.IH [OF u1(2), of "sz + esize e" d1] g nx w None
      by (subst WriteOutputTarStream.simps) (auto simp: algebra_simps)
  next
    case (Some y)
    with w write_entry_hash(1) [of fg e d] have "\<not> good_entry fg e" by simp
    with Some nx w show ?thesis
      by (subst WriteOutputTarStream.simps) auto
  qed
qed

section \<open>Splitting with the counter and without the files\<close>

text \<open>What a successful run of the splitting loop goes through.\<close>

lemma disassemble_success_cases:
  assumes d: "disassemble add put tr p f = Ret (None, tr', p', f')"
  obtains (End) hdr tr1 b tr2 p1 where "Next tr = Ret (hdr, Some EOF, tr1)" "RawBytes tr1 = (b, tr2)"
      "add_raw add b p = (None, p1)" "finish_stream add tr2 p1 f = (None, tr', p', f')"
  | (NoMark) tr1 where "Next tr = Ret (None, None, tr1)" "finish_stream add tr1 p f = (None, tr', p', f')"
  | (Entry) h tr1 tr2 p2 f2 where "Next tr = Ret (Some h, None, tr1)"
      "disasm_entry add put h tr1 p f = Ret (None, tr2, p2, f2)"
      "disassemble add put tr2 p2 f2 = Ret (None, tr', p', f')"
proof -
  note eq = d [unfolded disassemble.simps [of add put tr p f]]
  from eq obtain hdr er tr1 where nx: "Next tr = Ret (hdr, er, tr1)" by auto
  consider (a) x where "er = Some x" | (b) "er = None" "hdr = None" | (c) h where "er = None" "hdr = Some h"
    by (cases er; cases hdr) auto
  then show thesis
  proof cases
    case a
    with eq nx have x: "x = EOF" by (auto split: if_splits)
    obtain b tr2 where b: "RawBytes tr1 = (b, tr2)" by fastforce
    obtain y p1 where y: "add_raw add b p = (y, p1)" by fastforce
    from eq nx a x b y have "y = None" "finish_stream add tr2 p1 f = (None, tr', p', f')"
      by (auto split: option.splits)
    with nx a x b y show thesis by (intro End) simp_all
  next
    case b
    with eq nx show thesis by (intro NoMark) simp_all
  next
    case c
    with eq nx obtain x tr2 p2 f2 where de: "disasm_entry add put h tr1 p f = Ret (x, tr2, p2, f2)" by auto
    with eq nx c have "x = None" "disassemble add put tr2 p2 f2 = Ret (None, tr', p', f')"
      by (auto split: option.splits)
    with nx c de show thesis by (intro Entry) simp_all
  qed
qed

lemma finish_success:
  "finish_stream add tr p f = (None, tr', p', f') \<Longrightarrow>
     tr_rest tr' = [] \<and> tr_end tr = EOF \<and> (\<exists>n. add (segment (tr_rest tr)) p = (Inr n, p'))"
  by (auto simp: finish_stream_def Let_def split: if_splits prod.splits sum.splits)

lemma disasm_entry_end: "disasm_entry add put h tr p f = Ret (x, tr', p', f') \<Longrightarrow> tr_end tr' = tr_end tr"
  by (auto simp: disasm_entry_def put_payload_def simp del: bind_outcome_eq_Ret elim!: bind_outcomeE
      dest!: end_RawBytes end_read_all split: prod.splits option.splits sum.splits if_splits)

text \<open>A stream that is split without an error ended without one.\<close>

lemma disassemble_end:
  assumes "disassemble add put tr p f = Ret (None, tr', p', f')"
  shows "tr_end tr = EOF"
  using assms
proof (induction "length (tr_rest tr)" arbitrary: tr p f rule: less_induct)
  case less
  from less.prems show ?case
  proof (cases rule: disassemble_success_cases)
    case (End hdr tr1 b tr2 p1)
    with finish_success [OF End(4)] end_Next [OF End(1)] end_RawBytes [OF End(2)] show ?thesis by simp
  next
    case (NoMark tr1)
    with finish_success [OF NoMark(2)] end_Next [OF NoMark(1)] show ?thesis by simp
  next
    case (Entry h tr1 tr2 p2 f2)
    have "length (tr_rest tr2) < length (tr_rest tr)"
      using Next_shrinks [OF Entry(1)] disasm_entry_rest [OF Entry(2)] by simp
    with less.hyps Entry(3) end_Next [OF Entry(1)] disasm_entry_end [OF Entry(2)] show ?thesis by fastforce
  qed
qed

context entry_log
begin

lemma add_raw_inv: "add_raw add b p = (None, p') \<Longrightarrow> inv p \<Longrightarrow> inv p'"
  by (auto simp: add_raw_def dest: add_inv split: if_splits prod.splits sum.splits)

lemma disasm_entry_inv:
  "disasm_entry add put h tr p f = Ret (None, tr', p', f') \<Longrightarrow> inv p \<Longrightarrow> inv p'"
  by (auto simp: disasm_entry_def simp del: bind_outcome_eq_Ret elim!: bind_outcomeE
      split: prod.splits option.splits sum.splits) (metis add_raw_inv add_inv)+

lemma disassemble_inv:
  assumes "disassemble add put tr p f = Ret (None, tr', p', f')" and "inv p"
  shows "inv p' \<and> tr_rest tr' = []"
  using assms
proof (induction "length (tr_rest tr)" arbitrary: tr p f rule: less_induct)
  case less
  from less.prems(1) show ?case
  proof (cases rule: disassemble_success_cases)
    case (End hdr tr1 b tr2 p1)
    with finish_success [OF End(4)] less.prems(2) show ?thesis by (auto dest: add_raw_inv add_inv)
  next
    case (NoMark tr1)
    with finish_success [OF NoMark(2)] less.prems(2) show ?thesis by (auto dest: add_inv)
  next
    case (Entry h tr1 tr2 p2 f2)
    have "length (tr_rest tr2) < length (tr_rest tr)"
      using Next_shrinks [OF Entry(1)] disasm_entry_rest [OF Entry(2)] by simp
    with less.hyps Entry(3) disasm_entry_inv [OF Entry(2) less.prems(2)] show ?thesis by blast
  qed
qed

end

text \<open>
  Two ways to split a stream that log and store the same things go through the same states of the
  tar reader: the run that counts sizes and only sums up the files (\<open>NewDiscardFilePutter\<close>) and
  the run that stores the files.
\<close>

locale split_simulation =
  fixes add1 :: "entry \<Rightarrow> 'p \<Rightarrow> int64 res \<times> 'p" and put1 :: "'f putter"
    and add2 :: "entry \<Rightarrow> 'q \<Rightarrow> int64 res \<times> 'q" and put2 :: "'g putter"
    and rel :: "'p \<Rightarrow> 'q \<Rightarrow> bool"
  assumes add_sim: "rel p q \<Longrightarrow> add1 e p = (r, p') \<Longrightarrow> \<exists>q'. add2 e q = (r, q') \<and> rel p' q'"
    and put_sim: "put1 n b f = ((c, er), f') \<Longrightarrow> \<exists>c' g'. put2 n b g = ((c', er), g') \<and> (er = None \<longrightarrow> c' = c)"
begin

lemma add_raw_sim: "add_raw add1 b p = (x, p') \<Longrightarrow> rel p q \<Longrightarrow> \<exists>q'. add_raw add2 b q = (x, q') \<and> rel p' q'"
  using add_sim [of p q "segment b"]
  by (cases "add1 (segment b) p"; cases "fst (add1 (segment b) p)") (force simp: add_raw_def)+

lemma finish_sim:
  "finish_stream add1 tr p f = (x, tr', p', f') \<Longrightarrow> rel p q \<Longrightarrow>
     \<exists>q' g'. finish_stream add2 tr q g = (x, tr', q', g') \<and> rel p' q'"
  using add_sim [of p q "segment (tr_rest tr)"]
  by (cases "add1 (segment (tr_rest tr)) p"; cases "fst (add1 (segment (tr_rest tr)) p)")
    (force simp: finish_stream_def Let_def split: if_splits)+

lemma put_payload_sim:
  assumes "put_payload put1 h tr f = Ret ((c, er), tr', f')"
  shows "\<exists>c' g'. put_payload put2 h tr g = Ret ((c', er), tr', g') \<and> (er = None \<longrightarrow> c' = c)"
proof (cases "0 < sint (Size h)")
  case True
  with assms obtain b x where ra: "read_all tr = Ret (b, x, tr')" and p1: "put1 (Name h) (b, x) f = ((c, er), f')"
    by (auto simp: put_payload_def simp del: bind_outcome_eq_Ret elim!: bind_outcomeE split: prod.splits)
  from put_sim [OF p1, of g] True ra show ?thesis by (auto simp: put_payload_def)
qed (use assms in \<open>auto simp: put_payload_def\<close>)

lemma disasm_entry_sim:
  assumes "disasm_entry add1 put1 h tr p f = Ret (x, tr', p', f')" and "rel p q"
  shows "\<exists>q' g'. disasm_entry add2 put2 h tr q g = Ret (x, tr', q', g') \<and> rel p' q'"
proof -
  obtain b tr1 where b: "RawBytes tr = (b, tr1)" by fastforce
  obtain x1 p1 where r1: "add_raw add1 b p = (x1, p1)" by fastforce
  from add_raw_sim [OF r1 assms(2)] obtain q1 where q1: "add_raw add2 b q = (x1, q1)" "rel p1 q1" by blast
  show ?thesis
  proof (cases x1)
    case (Some e)
    with assms b r1 q1 show ?thesis by (auto simp: disasm_entry_def)
  next
    case None
    with assms b r1 obtain c er tr2 f2 where pp: "put_payload put1 h tr1 f = Ret ((c, er), tr2, f2)"
      by (auto simp: disasm_entry_def)
    from put_payload_sim [OF pp, of g] obtain c' g' where
      pp': "put_payload put2 h tr1 g = Ret ((c', er), tr2, g')" "er = None \<longrightarrow> c' = c" by blast
    show ?thesis
    proof (cases er)
      case (Some e)
      with assms b r1 q1 pp pp' None show ?thesis by (auto simp: disasm_entry_def)
    next
      case er: None
      with pp' have c: "c' = c" by simp
      obtain r2 p2 where a: "add1 (file_entry h c) p1 = (r2, p2)" by fastforce
      from add_sim [OF q1(2) a] obtain q2 where q2: "add2 (file_entry h c) q1 = (r2, q2)" "rel p2 q2" by blast
      obtain b3 tr3 where b3: "RawBytes tr2 = (b3, tr3)" by fastforce
      obtain x3 p3 where r3: "add_raw add1 b3 p2 = (x3, p3)" by fastforce
      from add_raw_sim [OF r3 q2(2)] obtain q3 where "add_raw add2 b3 q2 = (x3, q3)" "rel p3 q3" by blast
      with assms b r1 q1 pp pp' None er c a q2 b3 r3 show ?thesis
        by (cases r2) (auto simp: disasm_entry_def)
    qed
  qed
qed

lemma disassemble_sim:
  assumes "disassemble add1 put1 tr p f = Ret (None, tr', p', f')" and "rel p q"
  shows "\<exists>q' g'. disassemble add2 put2 tr q g = Ret (None, tr', q', g') \<and> rel p' q'"
  using assms
proof (induction "length (tr_rest tr)" arbitrary: tr p f q g rule: less_induct)
  case less
  from less.prems(1) show ?case
  proof (cases rule: disassemble_success_cases)
    case (End hdr tr1 b tr2 p1)
    from add_raw_sim [OF End(3) less.prems(2)] obtain q1 where "add_raw add2 b q = (None, q1)" "rel p1 q1" by blast
    with End finish_sim [OF End(4), of q1 g] show ?thesis
      by (subst disassemble.simps) auto
  next
    case (NoMark tr1)
    with finish_sim [OF NoMark(2) less.prems(2), of g] show ?thesis
      by (subst disassemble.simps) auto
  next
    case (Entry h tr1 tr2 p2 f2)
    have l: "length (tr_rest tr2) < length (tr_rest tr)"
      using Next_shrinks [OF Entry(1)] disasm_entry_rest [OF Entry(2)] by simp
    from disasm_entry_sim [OF Entry(2) less.prems(2), of g] obtain q2 g2 where
      q2: "disasm_entry add2 put2 h tr1 q g = Ret (None, tr2, q2, g2)" "rel p2 q2" by blast
    from less.hyps [OF l Entry(3) q2(2), of g2] Entry(1) q2(1) show ?thesis
      by (subst disassemble.simps) auto
  qed
qed

end

lemma put_discard_buffer:
  "buffer_putter n b f = ((c, er), f') \<Longrightarrow> discard_putter n b g = ((Some (crc64 (fst b)), er), g) \<and> (er = None \<longrightarrow> c = Some (crc64 (fst b)))"
  by (auto simp: buffer_putter_def bufferFileGetPutter_Put_def discard_putter_def bitBucketFilePutter_Put_def
      split: option.splits) (metis option.distinct(1))+

interpretation count_discard: split_simulation AddEntry buffer_putter packSizeCounter_AddEntry discard_putter
  "\<lambda>p ps. fst ps = p"
proof
  fix p e r p' and ps :: "packer \<times> int64"
  assume "fst ps = p" and "AddEntry e p = (r, p')"
  then show "\<exists>ps'. packSizeCounter_AddEntry e ps = (r, ps') \<and> fst ps' = p'"
    by (cases r) (auto simp: packSizeCounter_AddEntry_def)
next
  fix n b f c er f' g
  assume "buffer_putter n b f = ((c, er), f')"
  from put_discard_buffer [OF this] show "\<exists>c' g'. discard_putter n b g = ((c', er), g') \<and> (er = None \<longrightarrow> c' = c)"
    by auto
qed

section \<open>Properties\<close>

lemma Canonical_digester:
  "\<exists>d. alg_New Canonical = Ret d \<and> dg_buf d = [] \<and> (\<forall>b. digester_Digest (dg_write b d) = FromBytes b)"
  by (auto simp: alg_New_def alg_Hash_def Available_def Canonical_def algorithms_supported FromBytes_def
      alg_FromBytes_def)

lemma os_Link_names:
  "os_Link a b s = (Inr u, s') \<Longrightarrow> \<exists>i. map_of (names s) a = Some i \<and> map_of (names s') a = Some i \<and> map_of (names s') b = Some i"
  by (auto simp: os_Link_def split: option.splits if_splits)

text \<open>A layer \<open>l1\<close> of the vfs driver with one file and a record of it.\<close>

definition demo_record :: "entry list" where
  "demo_record =
     [stored 0 (segment ''hdr''),
      stored 1 (file_entry demo_hdr (Some (crc64 ''hi'')))]"

definition demo_layer_fs :: "blob \<Rightarrow> (fsop \<Rightarrow> string \<Rightarrow> err option) \<Rightarrow> fs" where
  "demo_layer_fs b flt =
     \<lparr>names = [(''/v'', 1), (''/v/dir'', 1), (''/v/dir/l1'', 1), (''/v/dir/l1/a'', 2), (''/g'', 1), (''/g/l1'', 1),
               (''/g/l1/old'', 3)],
      nodes = [(1, Dir), (2, Reg (Raw ''hi'')), (3, Reg b)], next_ino = 4,
      faults = flt, render = (\<lambda>_. []), log = []\<rparr>"

definition demo_layer :: "blob \<Rightarrow> (fsop \<Rightarrow> string \<Rightarrow> err option) \<Rightarrow> world" where
  "demo_layer b flt =
     \<lparr>wfs = demo_layer_fs b flt, w_mounts = [],
      w_devs = \<lparr>ds_Devices = [], ds_stored = (\<lambda>_. None), ds_deferredRemove = False, ds_active = [],
        ds_pending = [], ds_kmounts = [], ds_content = [], ds_faults = (\<lambda>_ _. None)\<rparr>\<rparr>"

definition demo_archiver :: "stream res \<Rightarrow> unit archiver" where
  "demo_archiver r =
     \<lparr>TarWithOptions = (\<lambda>_ _ _. r), ChangesDirs = (\<lambda>_ _ _. Inr ()), ExportChanges = (\<lambda>_ _ _. r)\<rparr>"

lemma demo_unpack:
  "unpack_all (NewJSONUnpacker (map encode_entry demo_record) EOF) = (demo_record, EOF)"
proof -
  note dec = decode_encode_entry [OF ValidString_stored]
  show ?thesis
    unfolding demo_record_def NewJSONUnpacker_def list.map
    by (subst unpack_all.simps, simp add: unpacker_Next_def dec)
      (subst unpack_all.simps, simp add: unpacker_Next_def dec)
qed

lemma demo_mount: "Mount (NewVfsChecksums ar ''/v'') ''l1'' (demo_layer b (\<lambda>_ _. None)) = (Inr (''/v/dir/l1'', None), demo_layer b (\<lambda>_ _. None))"
proof -
  have j: "Join [''/v'', ''dir'', ''l1''] = ''/v/dir/l1''" by code_simp
  have "w_Lstat (demo_layer b (\<lambda>_ _. None)) ''/v/dir/l1'' = Inr Dir"
    by (simp add: w_Lstat_def w_node_at_def mounted_at_def node_at_def demo_layer_def demo_layer_fs_def)
  with j show ?thesis by (simp add: NewVfsChecksums_def vfs_Mount_def)
qed

lemma demo_getter: "NewPathFileGetter (demo_layer b (\<lambda>_ _. None)) ''/v/dir/l1'' ''a'' = Inr (''hi'', None)"
proof -
  have j: "Join [''/v/dir/l1'', ''a''] = ''/v/dir/l1/a''" by code_simp
  show ?thesis unfolding NewPathFileGetter_def j
    by (simp add: w_open_def w_resolve.simps w_node_at_def mounted_at_def node_at_def
        demo_layer_def demo_layer_fs_def)
qed

lemma demo_good: "\<forall>e \<in> set demo_record. good_entry (NewPathFileGetter (demo_layer b (\<lambda>_ _. None)) ''/v/dir/l1'') e"
  by (simp add: demo_record_def good_entry_def demo_getter GetName_file_entry demo_hdr_def payload_def)

lemma demo_pieces: "concat (map (piece (NewPathFileGetter (demo_layer b (\<lambda>_ _. None)) ''/v/dir/l1'')) demo_record) = ''hdrhi''"
  by (simp add: demo_record_def piece_def demo_getter GetName_file_entry demo_hdr_def payload_def)

lemma empty_Next:
  "Next (input_reader ord ([], er)) =
     (if er \<in> {None, Some EOF} then Ret (None, None, (write_raw zeroBlock (input_reader ord ([], er)))\<lparr>tr_err := None\<rparr>)
      else Ret (None, er, (input_reader ord ([], er))\<lparr>tr_err := er\<rparr>))"
  by (subst Next.simps)
    (cases er; simp add: next_header_def reset_raw_def input_reader_def NewReader_def skipUnread_def numBytes_def
        readHeader_def read_block_def read_full_def blockSize_def Let_def write_raw_def)

text \<open>A stream that ends or fails before its first byte.\<close>

lemma empty_split:
  assumes "wfail 0 = None"
  shows "NewInputTarStream ord packSizeCounter_AddEntry discard_putter ([], None) (NewJSONPacker wfail, 0) () =
           Ret (([], None), ((NewJSONPacker wfail)\<lparr>pk_docs := [encode_entry (stored 0 (segment []))], pk_pos := 1\<rparr>, 0), ())"
proof -
  have a: "packSizeCounter_AddEntry (segment []) (NewJSONPacker wfail, 0) =
      (Inr 0, (NewJSONPacker wfail)\<lparr>pk_docs := [encode_entry (stored 0 (segment []))], pk_pos := 1\<rparr>, 0)"
    using assms by (simp add: packSizeCounter_AddEntry_def AddEntry_def encode_at_def NewJSONPacker_def stored_def
        Let_def) (simp add: segment_def zero_entry_def)
  let ?tr = "(write_raw zeroBlock (input_reader ord ([], None)))\<lparr>tr_err := None\<rparr>"
  have "tr_rest ?tr = []" "tr_end ?tr = EOF" by (simp_all add: input_reader_def NewReader_def)
  then have "disassemble packSizeCounter_AddEntry discard_putter (input_reader ord ([], None)) (NewJSONPacker wfail, 0) () =
      Ret (None, ?tr, ((NewJSONPacker wfail)\<lparr>pk_docs := [encode_entry (stored 0 (segment []))], pk_pos := 1\<rparr>, 0), ())"
    by (subst disassemble.simps) (simp add: empty_Next finish_stream_def a Let_def)
  then show ?thesis by (simp add: NewInputTarStream_def)
qed

lemma failed_split:
  assumes "e \<noteq> EOF"
  shows "NewInputTarStream ord packSizeCounter_AddEntry discard_putter ([], Some e) (NewJSONPacker wfail, 0) () =
           Ret (([], Some e), (NewJSONPacker wfail, 0), ())"
  using assms
  by (subst NewInputTarStream_def, subst disassemble.simps) (simp add: empty_Next)

lemma tarsplit_success:
  assumes "checksum_tarsplit drv gid old new w = Ret (Inr (dgst, sz), w')"
  shows "\<exists>b docs en es fsPath release w1.
     ReadFile (wfs w) old = Inr b \<and> gzip_NewReader b = Inr (docs, en) \<and>
     unpack_all (NewJSONUnpacker docs en) = (es, EOF) \<and> Mount drv gid w = (Inr (fsPath, release), w1) \<and>
     (\<forall>e \<in> set es. good_entry (NewPathFileGetter w1 fsPath) e) \<and>
     dgst = FromBytes (concat (map (piece (NewPathFileGetter w1 fsPath)) es)) \<and> sz = total_size es \<and>
     (\<exists>i. map_of (names (wfs w')) old = Some i \<and> map_of (names (wfs w')) new = Some i)"
proof -
  obtain d where d: "alg_New Canonical = Ret d" "\<And>b. digester_Digest (dg_write b d) = FromBytes b"
    using Canonical_digester by blast
  from assms obtain b docs en where b: "ReadFile (wfs w) old = Inr b" "gzip_NewReader b = Inr (docs, en)"
    by (auto simp: checksum_tarsplit_def split: if_splits sum.splits)
  with assms d obtain er sz1 d1 w2 where a: "assembleTarTo drv gid (NewJSONUnpacker docs en) 0 d w = Ret ((er, sz1, d1), w2)"
    by (auto simp: checksum_tarsplit_def split: if_splits)
  with assms d b have er: "er = None" and r: "dgst = digester_Digest d1" "sz = sz1"
    "\<exists>s1 u s2. os_Link old new s1 = (Inr u, s2) \<and> wfs w' = s2"
    by (auto simp: checksum_tarsplit_def split: if_splits option.splits sum.splits prod.splits)
  obtain es x where u: "unpack_all (NewJSONUnpacker docs en) = (es, x)" by fastforce
  from a er obtain fsPath release w1 where m: "Mount drv gid w = (Inr (fsPath, release), w1)"
    by (auto simp: assembleTarTo_def split: prod.splits sum.splits)
  from assemble_counted [OF u, of "NewPathFileGetter w1 fsPath" 0 d] a er m
  have "(\<forall>e \<in> set es. good_entry (NewPathFileGetter w1 fsPath) e) \<and> x = EOF"
    and "sz1 = total_size es" and "d1 = dg_write (concat (map (piece (NewPathFileGetter w1 fsPath)) es)) d"
    by (auto simp: assembleTarTo_def split: option.splits)
  with r(3) os_Link_names [of old new] show ?thesis using b u m r(1,2) d(2) by auto blast
qed

text \<open>
  C5: The checksum from the tar-split record: when it succeeds, the record was read to its end, the
  layer was mounted, every file the record names has the recorded checksum, the digest is the SHA-256
  digest of the bytes the record and the files stand for, the size is the sum (modulo 2^64) of the recorded
  sizes, and the new record is a hard link to the old one.
\<close>

theorem checksum_tarsplit_correct:
  assumes "checksum_tarsplit drv gid old new w = Ret (Inr (dgst, sz), w')"
  shows "\<exists>b docs en es fsPath release w1.
     ReadFile (wfs w) old = Inr b \<and> gzip_NewReader b = Inr (docs, en) \<and>
     unpack_all (NewJSONUnpacker docs en) = (es, EOF) \<and> Mount drv gid w = (Inr (fsPath, release), w1) \<and>
     (\<forall>e \<in> set es. good_entry (NewPathFileGetter w1 fsPath) e) \<and>
     dgst = FromBytes (concat (map (piece (NewPathFileGetter w1 fsPath)) es)) \<and> sz = total_size es \<and>
     (\<exists>i. map_of (names (wfs w')) old = Some i \<and> map_of (names (wfs w')) new = Some i)"
  using assms by (rule tarsplit_success)

lemma demo_dir: "path_Dir ''/g/l1/new'' = ''/g/l1''"
  by code_simp

lemma demo_tarsplit:
  "\<exists>w'. checksum_tarsplit (NewVfsChecksums ar ''/v'') ''l1'' ''/g/l1/old'' ''/g/l1/new''
          (demo_layer (GzipJson (map encode_entry demo_record) True) (\<lambda>_ _. None)) = Ret (Inr (FromBytes ''hdrhi'', 2), w')"
proof -
  let ?b = "GzipJson (map encode_entry demo_record) True"
  let ?w = "demo_layer ?b (\<lambda>_ _. None)"
  obtain d where d: "alg_New Canonical = Ret d" "\<And>b. digester_Digest (dg_write b d) = FromBytes b"
    using Canonical_digester by blast
  have r: "ReadFile (wfs ?w) ''/g/l1/old'' = Inr ?b"
    by (simp add: ReadFile_def os_Open_def resolve_def resolve_fuel.simps node_at_def read_ino_def demo_layer_def
        demo_layer_fs_def)
  have "total_size demo_record = 2" by (simp add: demo_record_def demo_hdr_def segment_def zero_entry_def)
  then have a: "assembleTarTo (NewVfsChecksums ar ''/v'') ''l1'' (NewJSONUnpacker (map encode_entry demo_record) EOF) 0 d ?w =
      Ret ((None, 2, dg_write ''hdrhi'' d), ?w)"
    using assemble_counted [OF demo_unpack, of "NewPathFileGetter ?w ''/v/dir/l1''" 0 d] demo_good [of ?b] demo_pieces [of ?b]
    by (auto simp: assembleTarTo_def demo_mount)
  have "\<exists>s. os_Link ''/g/l1/old'' ''/g/l1/new'' (snd (os_RemoveAll ''/g/l1/new'' (wfs ?w))) = (Inr (), s)"
    by (simp add: os_Link_def os_RemoveAll_def is_dir_at_def node_at_def demo_layer_def demo_layer_fs_def below_def
        emit_def Let_def demo_dir)
  with r d a show ?thesis
    by (auto simp: checksum_tarsplit_def gzip_NewReader_def split: prod.splits)
qed

lemma checksum_tarsplit_correct_witness:
  "\<exists>w' i. checksum_tarsplit (NewVfsChecksums (demo_archiver (Inr ([], None))) ''/v'') ''l1'' ''/g/l1/old'' ''/g/l1/new''
          (demo_layer (GzipJson (map encode_entry demo_record) True) (\<lambda>_ _. None)) = Ret (Inr (FromBytes ''hdrhi'', 2), w') \<and>
     map_of (names (wfs w')) ''/g/l1/old'' = Some i \<and> map_of (names (wfs w')) ''/g/l1/new'' = Some i"
proof -
  from demo_tarsplit obtain w' where
    "checksum_tarsplit (NewVfsChecksums (demo_archiver (Inr ([], None))) ''/v'') ''l1'' ''/g/l1/old'' ''/g/l1/new''
          (demo_layer (GzipJson (map encode_entry demo_record) True) (\<lambda>_ _. None)) = Ret (Inr (FromBytes ''hdrhi'', 2), w')"
    by blast
  from checksum_tarsplit_correct [OF this] this show ?thesis by blast
qed

text \<open>The deferred release of a mounted layer, when there is one, leads from \<open>w1\<close> to \<open>w2\<close>.\<close>

definition released :: "release option \<Rightarrow> world \<Rightarrow> world \<Rightarrow> bool" where
  "released release w1 w2 \<longleftrightarrow> (case release of None \<Rightarrow> w2 = w1 | Some rel \<Rightarrow> rel w1 = Ret w2)"

lemma released_unique: "released release w1 w2 \<Longrightarrow> released release w1 w3 \<Longrightarrow> w3 = w2"
  by (auto simp: released_def split: option.splits)

lemma assembleTarTo_total:
  assumes "Mount drv gid w = (Inr (fsPath, release), w1)" and "released release w1 w2" and "unpack_all u = (es, x)"
  shows "\<exists>er sz' d'. assembleTarTo drv gid u sz d w = Ret ((er, sz', d'), w2) \<and>
           (er = None \<longleftrightarrow> (\<forall>e \<in> set es. good_entry (NewPathFileGetter w1 fsPath) e) \<and> x = EOF)"
  using assemble_counted [OF assms(3), of "NewPathFileGetter w1 fsPath" sz d] assms(1,2)
  by (cases release) (auto simp: assembleTarTo_def released_def)

text \<open>What the tar-split path needs to succeed, from the files up to the link.\<close>

definition assembles :: "mounter \<Rightarrow> string \<Rightarrow> string \<Rightarrow> string \<Rightarrow> world \<Rightarrow> bool" where
  "assembles drv gid old new w \<longleftrightarrow> old \<noteq> [] \<and>
     (\<exists>b docs en es fsPath release w1 w2.
        ReadFile (wfs w) old = Inr b \<and> gzip_NewReader b = Inr (docs, en) \<and> unpack_all (NewJSONUnpacker docs en) = (es, EOF) \<and>
        Mount drv gid w = (Inr (fsPath, release), w1) \<and> (\<forall>e \<in> set es. good_entry (NewPathFileGetter w1 fsPath) e) \<and>
        released release w1 w2 \<and> fst (os_Link old new (snd (os_RemoveAll new (wfs w2)))) = Inr ())"

lemma assembles_cases:
  assumes "old \<noteq> []" "ReadFile (wfs w) old = Inr b" "gzip_NewReader b = Inr (docs, en)"
    and "unpack_all (NewJSONUnpacker docs en) = (es, x)" "Mount drv gid w = (Inr (fsPath, release), w1)" "released release w1 w2"
  shows "assembles drv gid old new w \<longleftrightarrow>
     (\<forall>e \<in> set es. good_entry (NewPathFileGetter w1 fsPath) e) \<and> x = EOF \<and>
     fst (os_Link old new (snd (os_RemoveAll new (wfs w2)))) = Inr ()"
proof
  assume "assembles drv gid old new w"
  then obtain w3 where "\<forall>e \<in> set es. good_entry (NewPathFileGetter w1 fsPath) e" "x = EOF" "released release w1 w3"
    "fst (os_Link old new (snd (os_RemoveAll new (wfs w3)))) = Inr ()"
    using assms(2-5) unfolding assembles_def by auto
  with released_unique [OF assms(6)] show "(\<forall>e \<in> set es. good_entry (NewPathFileGetter w1 fsPath) e) \<and> x = EOF \<and>
      fst (os_Link old new (snd (os_RemoveAll new (wfs w2)))) = Inr ()" by blast
next
  assume "(\<forall>e \<in> set es. good_entry (NewPathFileGetter w1 fsPath) e) \<and> x = EOF \<and>
      fst (os_Link old new (snd (os_RemoveAll new (wfs w2)))) = Inr ()"
  with assms show "assembles drv gid old new w" unfolding assembles_def by blast
qed

lemma tarsplit_after_assembly:
  assumes "old \<noteq> []" "ReadFile (wfs w) old = Inr b" "gzip_NewReader b = Inr (docs, en)" "alg_New Canonical = Ret dg"
    and "assembleTarTo drv gid (NewJSONUnpacker docs en) 0 dg w = Ret ((er, sz, d), w2)"
  shows "\<exists>r w'. checksum_tarsplit drv gid old new w = Ret (r, w') \<and>
     (res_ok r \<longleftrightarrow> er = None \<and> fst (os_Link old new (snd (os_RemoveAll new (wfs w2)))) = Inr ())"
proof -
  obtain y s1 where rm: "os_RemoveAll new (wfs w2) = (y, s1)" by fastforce
  obtain r s2 where ln: "os_Link old new s1 = (r, s2)" by fastforce
  show ?thesis using assms rm ln by (cases er; cases r) (auto simp: checksum_tarsplit_def)
qed

text \<open>
  C30: The tar-split path always ends: whatever the record and the layer hold, \<open>checksum_tarsplit\<close> returns provided that
  the release of the mounted layer does.  It succeeds exactly when there is a name for the record, the record can be read
  and decoded to its end, the layer can be mounted, each file of the record is there with its recorded checksum, and the
  old record can be linked to the new name; in all other cases it reports an error.
\<close>

theorem checksum_tarsplit_total:
  assumes "\<And>fsPath rel w1. Mount drv gid w = (Inr (fsPath, Some rel), w1) \<Longrightarrow> returns (rel w1)"
  shows "\<exists>r w'. checksum_tarsplit drv gid old new w = Ret (r, w') \<and> (res_ok r \<longleftrightarrow> assembles drv gid old new w)"
proof (cases "old = [] \<or> \<not> res_ok (ReadFile (wfs w) old)")
  case True
  then show ?thesis by (cases "ReadFile (wfs w) old") (auto simp: checksum_tarsplit_def assembles_def)
next
  case False
  then obtain b where b: "old \<noteq> []" "ReadFile (wfs w) old = Inr b" by (cases "ReadFile (wfs w) old") auto
  obtain dg where dg: "alg_New Canonical = Ret dg" using Canonical_digester by blast
  consider (gzip) e where "gzip_NewReader b = Inl e"
    | (mount) docs en e w1 where "gzip_NewReader b = Inr (docs, en)" "Mount drv gid w = (Inl e, w1)"
    | (split) docs en fsPath release w1 where "gzip_NewReader b = Inr (docs, en)" "Mount drv gid w = (Inr (fsPath, release), w1)"
    by (metis old.sum.exhaust prod.exhaust)
  then show ?thesis
  proof cases
    case gzip
    with b show ?thesis by (simp add: checksum_tarsplit_def assembles_def)
  next
    case mount
    with b dg show ?thesis by (simp add: checksum_tarsplit_def assembleTarTo_def assembles_def)
  next
    case split
    obtain es x where u: "unpack_all (NewJSONUnpacker docs en) = (es, x)" by fastforce
    obtain w2 where w2: "released release w1 w2"
      using assms split(2) by (cases release) (auto simp: released_def returns_def split: outcome.splits)
    from assembleTarTo_total [OF split(2) w2 u, of 0 dg] obtain er sz d where
      a: "assembleTarTo drv gid (NewJSONUnpacker docs en) 0 dg w = Ret ((er, sz, d), w2)"
        "er = None \<longleftrightarrow> (\<forall>e \<in> set es. good_entry (NewPathFileGetter w1 fsPath) e) \<and> x = EOF" by blast
    from tarsplit_after_assembly [OF b split(1) dg a(1), of new] assembles_cases [OF b split(1) u split(2) w2, of new] a(2)
    show ?thesis by auto
  qed
qed

lemma demo_link: "fst (os_Link ''/g/l1/old'' ''/g/l1/new'' (snd (os_RemoveAll ''/g/l1/new'' (wfs (demo_layer b (\<lambda>_ _. None)))))) = Inr ()"
  by (simp add: os_Link_def os_RemoveAll_def is_dir_at_def node_at_def demo_layer_def demo_layer_fs_def below_def
      emit_def Let_def demo_dir)

lemma demo_ReadFile: "ReadFile (wfs (demo_layer b (\<lambda>_ _. None))) ''/g/l1/old'' = Inr b"
  by (simp add: ReadFile_def os_Open_def resolve_def resolve_fuel.simps node_at_def read_ino_def demo_layer_def demo_layer_fs_def)

text \<open>It succeeds with a record that fits the layer, and fails without divergence where the record is no gzip stream.\<close>

lemma checksum_tarsplit_total_witness:
  "\<exists>x w' e w''. checksum_tarsplit (NewVfsChecksums (demo_archiver (Inr ([], None))) ''/v'') ''l1'' ''/g/l1/old'' ''/g/l1/new''
       (demo_layer (GzipJson (map encode_entry demo_record) True) (\<lambda>_ _. None)) = Ret (Inr x, w') \<and>
     checksum_tarsplit (NewVfsChecksums (demo_archiver (Inr ([], None))) ''/v'') ''l1'' ''/g/l1/old'' ''/g/l1/new''
       (demo_layer (Raw []) (\<lambda>_ _. None)) = Ret (Inl e, w'')"
proof -
  let ?v = "NewVfsChecksums (demo_archiver (Inr ([], None))) ''/v''"
  let ?b = "GzipJson (map encode_entry demo_record) True"
  have t: "\<exists>r w'. checksum_tarsplit ?v ''l1'' ''/g/l1/old'' ''/g/l1/new'' (demo_layer b (\<lambda>_ _. None)) = Ret (r, w') \<and>
      (res_ok r \<longleftrightarrow> assembles ?v ''l1'' ''/g/l1/old'' ''/g/l1/new'' (demo_layer b (\<lambda>_ _. None)))" for b
    by (rule checksum_tarsplit_total) (simp add: demo_mount)
  have "gzip_NewReader ?b = Inr (map encode_entry demo_record, EOF)" by (simp add: gzip_NewReader_def)
  then have "assembles ?v ''l1'' ''/g/l1/old'' ''/g/l1/new'' (demo_layer ?b (\<lambda>_ _. None))"
    by (subst assembles_cases [OF _ demo_ReadFile _ demo_unpack demo_mount, where ?w2.0 = "demo_layer ?b (\<lambda>_ _. None)"])
      (simp_all add: released_def demo_good demo_link)
  moreover have "\<not> assembles ?v ''l1'' ''/g/l1/old'' ''/g/l1/new'' (demo_layer (Raw []) (\<lambda>_ _. None))"
    by (auto simp: assembles_def demo_ReadFile gzip_NewReader_def)
  ultimately show ?thesis using t [of ?b] t [of "Raw []"] by (metis old.sum.exhaust res_ok_simps)
qed

text \<open>What a file that was written holds, read as a record.\<close>

definition holds_record :: "fs \<Rightarrow> nat \<Rightarrow> entry list \<Rightarrow> bool" where
  "holds_record s f es \<longleftrightarrow>
     (\<exists>b docs en. map_of (nodes s) f = Some (Reg b) \<and> gzip_NewReader b = Inr (docs, en) \<and>
        unpack_all (NewJSONUnpacker docs en) = (es, EOF))"

lemma holds_written:
  assumes "write_ino new f (gzip_Close p) s = (Inr u, s1)" and "pk_fail p (pk_pos p) = None"
    and "unpack_all (NewJSONUnpacker (pk_docs p) EOF) = (es, EOF)"
  shows "holds_record s1 f es"
  using assms by (auto simp: holds_record_def write_ino_def gzip_Close_def gzip_NewReader_def emit_def Let_def split: option.splits)

lemma fallback_success:
  assumes "checksumForGraphIDNoTarsplit ord wfail drv gid parent new w = Ret (Inr (dgst, sz), w')"
  shows "\<exists>bs er close w1 f s p es r s1.
     TarStream drv gid parent w = Ret (Inr ((bs, er), close), w1) \<and> er \<in> {None, Some EOF} \<and>
     dgst = FromBytes bs \<and> os_Create new (wfs w1) = (Inr f, s) \<and>
     NewInputTarStream ord packSizeCounter_AddEntry discard_putter (bs, er) (NewJSONPacker wfail, 0) () = Ret ((bs, None), (p, sz), ()) \<and>
     unpack_all (NewJSONUnpacker (pk_docs p) EOF) = (es, EOF) \<and> sz = total_size es \<and> pk_fail p = wfail \<and>
     write_ino new f (gzip_Close p) s = (r, s1) \<and> close (w1\<lparr>wfs := s1\<rparr>) = Ret w'"
proof -
  from assms obtain bs er close w1 where t: "TarStream drv gid parent w = Ret (Inr ((bs, er), close), w1)"
    by (auto simp: checksumForGraphIDNoTarsplit_def simp del: bind_outcome_eq_Ret elim!: bind_outcomeE
        split: prod.splits sum.splits)
  with assms obtain f s where c: "os_Create new (wfs w1) = (Inr f, s)"
    by (auto simp: checksumForGraphIDNoTarsplit_def split: prod.splits sum.splits)
  from assms t c obtain x tr' p' sz' where
    d: "disassemble packSizeCounter_AddEntry discard_putter (input_reader ord (bs, er)) (NewJSONPacker wfail, 0) () =
          Ret (x, tr', (p', sz'), ())"
    by (auto simp: checksumForGraphIDNoTarsplit_def NewInputTarStream_def simp del: bind_outcome_eq_Ret
        elim!: bind_outcomeE)
  with assms t c have x: "x = None" and sz: "sz = sz'"
    and dg: "dgst = FromBytes (take (length bs - length (tr_rest tr')) bs)"
    and cl: "close (w1\<lparr>wfs := snd (write_ino new f (gzip_Close p') s)\<rparr>) = Ret w'"
    by (auto simp: checksumForGraphIDNoTarsplit_def NewInputTarStream_def FromReader_eq
        split: prod.splits option.splits)
  note i = counted_log.disassemble_inv [OF d [unfolded x] counted_init]
  then have e: "unpack_all (NewJSONUnpacker (pk_docs p') EOF) = (json_logged p', EOF)" "sz' = total_size (json_logged p')"
    "pk_fail p' = wfail"
    by (auto simp: counted_inv_def json_inv_docs)
  have n: "NewInputTarStream ord packSizeCounter_AddEntry discard_putter (bs, er) (NewJSONPacker wfail, 0) () =
      Ret ((bs, None), (p', sz'), ())" using d x i by (simp add: NewInputTarStream_def)
  obtain r s1 where w: "write_ino new f (gzip_Close p') s = (r, s1)" by fastforce
  have "er \<in> {None, Some EOF}"
    using disassemble_end [OF d [unfolded x]] by (auto simp: input_reader_def NewReader_def split: option.splits)
  moreover have "dgst = FromBytes bs" using dg i by simp
  moreover have "close (w1\<lparr>wfs := s1\<rparr>) = Ret w'" using cl w by simp
  ultimately show ?thesis using t c e sz n w by blast
qed

text \<open>
  C6: The checksum from a new archive: when it succeeds, the digest is the SHA-256 digest of all
  bytes of the archive, which ended cleanly, and the size is the sum (modulo 2^64) of the sizes of the entries \<open>es\<close> that
  splitting it made.  The file of the new record then holds a record that reads back as exactly these entries, unless
  writing the file or flushing the gzip stream at its end failed, errors that the code drops.
\<close>

theorem checksum_fallback_correct:
  assumes "checksumForGraphIDNoTarsplit ord wfail drv gid parent new w = Ret (Inr (dgst, sz), w')"
  shows "\<exists>bs er close w1 f s p es r s1.
     TarStream drv gid parent w = Ret (Inr ((bs, er), close), w1) \<and> er \<in> {None, Some EOF} \<and> dgst = FromBytes bs \<and>
     NewInputTarStream ord packSizeCounter_AddEntry discard_putter (bs, er) (NewJSONPacker wfail, 0) () = Ret ((bs, None), (p, sz), ()) \<and>
     unpack_all (NewJSONUnpacker (pk_docs p) EOF) = (es, EOF) \<and> sz = total_size es \<and>
     os_Create new (wfs w1) = (Inr f, s) \<and> write_ino new f (gzip_Close p) s = (r, s1) \<and>
     (r = Inr () \<and> wfail (pk_pos p) = None \<longrightarrow> holds_record s1 f es) \<and> close (w1\<lparr>wfs := s1\<rparr>) = Ret w'"
proof -
  from fallback_success [OF assms] obtain bs er close w1 f s p es r s1 where
    "TarStream drv gid parent w = Ret (Inr ((bs, er), close), w1)" "er \<in> {None, Some EOF}" "dgst = FromBytes bs"
    "NewInputTarStream ord packSizeCounter_AddEntry discard_putter (bs, er) (NewJSONPacker wfail, 0) () = Ret ((bs, None), (p, sz), ())"
    "sz = total_size es" "os_Create new (wfs w1) = (Inr f, s)" "close (w1\<lparr>wfs := s1\<rparr>) = Ret w'"
    and u: "unpack_all (NewJSONUnpacker (pk_docs p) EOF) = (es, EOF)" and p: "pk_fail p = wfail"
    and w: "write_ino new f (gzip_Close p) s = (r, s1)" by blast
  moreover have "r = Inr () \<and> wfail (pk_pos p) = None \<longrightarrow> holds_record s1 f es" using holds_written [OF _ _ u] p w by auto
  ultimately show ?thesis by blast
qed

lemma demo_count:
  "\<exists>p sz. NewInputTarStream id packSizeCounter_AddEntry discard_putter (demo_tar, None) (NewJSONPacker (\<lambda>_. None), 0) () =
     Ret ((demo_tar, None), (p, sz), ())"
proof -
  from demo_run obtain tr' p' where
    d: "disassemble AddEntry buffer_putter (input_reader id (demo_tar, None)) (NewJSONPacker (\<lambda>_. None)) [] =
       Ret (None, tr', p', [(''a'', ''hi'')])" by (auto simp: demo_packer_def)
  from count_discard.disassemble_sim [OF d, of "(NewJSONPacker (\<lambda>_. None), 0)" "()"] obtain ps u where
    c: "disassemble packSizeCounter_AddEntry discard_putter (input_reader id (demo_tar, None)) (NewJSONPacker (\<lambda>_. None), 0) () =
       Ret (None, tr', ps, u)" by auto
  with counted_log.disassemble_inv [OF c counted_init] show ?thesis
    by (cases ps) (auto simp: NewInputTarStream_def)
qed

lemma demo_create:
  "\<exists>s. os_Create ''/g/l1/new'' (wfs (demo_layer b (\<lambda>_ _. None))) = (Inr 4, s) \<and> faults s = (\<lambda>_ _. None)"
  by (simp add: os_Create_def resolve_def resolve_fuel.simps node_at_def is_dir_at_def demo_dir demo_layer_def
      demo_layer_fs_def)

lemma demo_TarStream:
  "TarStream (NewVfsChecksums (demo_archiver (Inr st)) ''/v'') ''l1'' [] (demo_layer b (\<lambda>_ _. None)) =
     Ret (Inr (st, Ret), demo_layer b (\<lambda>_ _. None))"
  using demo_mount [of "demo_archiver (Inr st)" b]
  by (simp add: NewVfsChecksums_def vfs_TarStream_def archive_Tar_def demo_archiver_def plain_stream_def)

lemma demo_fallback:
  "\<exists>sz w'. checksumForGraphIDNoTarsplit id (\<lambda>_. None) (NewVfsChecksums (demo_archiver (Inr (demo_tar, None))) ''/v'')
      ''l1'' [] ''/g/l1/new'' (demo_layer (Raw []) (\<lambda>_ _. None)) = Ret (Inr (FromBytes demo_tar, sz), w')"
proof -
  obtain s where "os_Create ''/g/l1/new'' (wfs (demo_layer (Raw []) (\<lambda>_ _. None))) = (Inr 4, s)"
    using demo_create by blast
  with demo_count demo_TarStream [of "(demo_tar, None)" "Raw []"] show ?thesis
    by (fastforce simp: checksumForGraphIDNoTarsplit_def FromReader_eq split: prod.splits)
qed

lemma checksum_fallback_correct_witness:
  "\<exists>sz w' s1 es p. checksumForGraphIDNoTarsplit id (\<lambda>_. None) (NewVfsChecksums (demo_archiver (Inr (demo_tar, None))) ''/v'')
      ''l1'' [] ''/g/l1/new'' (demo_layer (Raw []) (\<lambda>_ _. None)) = Ret (Inr (FromBytes demo_tar, sz), w') \<and>
     NewInputTarStream id packSizeCounter_AddEntry discard_putter (demo_tar, None) (NewJSONPacker (\<lambda>_. None), 0) () =
       Ret ((demo_tar, None), (p, sz), ()) \<and> w' = (demo_layer (Raw []) (\<lambda>_ _. None))\<lparr>wfs := s1\<rparr> \<and>
     unpack_all (NewJSONUnpacker (pk_docs p) EOF) = (es, EOF) \<and> sz = total_size es \<and> holds_record s1 4 es"
proof -
  from demo_fallback obtain sz w' where r: "checksumForGraphIDNoTarsplit id (\<lambda>_. None)
      (NewVfsChecksums (demo_archiver (Inr (demo_tar, None))) ''/v'') ''l1'' [] ''/g/l1/new'' (demo_layer (Raw []) (\<lambda>_ _. None)) =
      Ret (Inr (FromBytes demo_tar, sz), w')" by blast
  obtain s where s: "os_Create ''/g/l1/new'' (wfs (demo_layer (Raw []) (\<lambda>_ _. None))) = (Inr 4, s)" "faults s OpWrite ''/g/l1/new'' = None"
    using demo_create [of "Raw []"] by auto
  from checksum_fallback_correct [OF r] demo_TarStream [of "(demo_tar, None)" "Raw []"] s obtain p es res s1 where
    p: "NewInputTarStream id packSizeCounter_AddEntry discard_putter (demo_tar, None) (NewJSONPacker (\<lambda>_. None), 0) () =
       Ret ((demo_tar, None), (p, sz), ())" "unpack_all (NewJSONUnpacker (pk_docs p) EOF) = (es, EOF)" "sz = total_size es"
    "write_ino ''/g/l1/new'' 4 (gzip_Close p) s = (res, s1)" "res = Inr () \<longrightarrow> holds_record s1 4 es"
    "w' = (demo_layer (Raw []) (\<lambda>_ _. None))\<lparr>wfs := s1\<rparr>" by auto
  moreover have "res = Inr ()" using p(4) s(2) by (auto simp: write_ino_def)
  ultimately show ?thesis using r by blast
qed

text \<open>
  A record that was written, assembled from a mount that has the files of the archive, gives the digester exactly the
  bytes of the archive and the counter the same size.
\<close>

lemma record_assembles:
  assumes d: "disassemble AddEntry buffer_putter (input_reader ord (bs, None)) (NewJSONPacker wfail) [] =
             Ret (None, tr', p', files)"
    and e: "tr_err tr' = Some EOF" and sp: "\<not> tr_sparse tr'"
    and nn: "\<forall>e \<in> set (fst (unpack_all (NewJSONUnpacker (pk_docs p') EOF))). 0 \<le> sint (esize e)"
    and m: "Mount drv gid w = (Inr (fsPath, release), w1)"
    and rel: "released release w1 w2"
    and fl: "\<forall>name b. map_of files name = Some b \<longrightarrow> NewPathFileGetter w1 fsPath name = Inr (b, None)"
  shows "\<exists>sz. NewInputTarStream ord packSizeCounter_AddEntry discard_putter (bs, None) (NewJSONPacker wfail, 0) () =
                Ret ((bs, None), (p', sz), ()) \<and>
              assembleTarTo drv gid (NewJSONUnpacker (pk_docs p') EOF) 0 dgst w =
                Ret ((None, sz, dg_write bs dgst), w2)"
proof -
  let ?files = "bufferFileGetPutter_Get files" and ?mnt = "NewPathFileGetter w1 fsPath"
  have g: "json_split.grew (NewJSONPacker wfail) [] p' files bs" and r: "tr_rest tr' = []"
    using json_split.disassemble_grew [OF d e json_inv_init] sp nn
    by (simp_all add: input_reader_def NewReader_def json_logged_def)
  have "json_logged (NewJSONPacker wfail) = []"
    by (simp add: json_logged_def NewJSONPacker_def NewJSONUnpacker_def)
  with g have i: "json_inv p'" and good: "\<forall>e \<in> set (json_logged p'). good_entry ?files e"
    and bs: "concat (map (piece ?files) (json_logged p')) = bs"
    by (auto simp: json_split.grew_def)
  have "good_entry ?mnt e \<and> piece ?mnt e = piece ?files e" if "good_entry ?files e" for e
    using that fl by (auto simp: good_entry_def piece_def bufferFileGetPutter_Get_def split: option.splits)
  with good have good': "\<forall>e \<in> set (json_logged p'). good_entry ?mnt e"
    and bs': "concat (map (piece ?mnt) (json_logged p')) = bs"
    using bs by (auto cong: map_cong)
  obtain ps u where c: "disassemble packSizeCounter_AddEntry discard_putter (input_reader ord (bs, None))
      (NewJSONPacker wfail, 0) () = Ret (None, tr', ps, u)" "fst ps = p'"
    using count_discard.disassemble_sim [OF d, of "(NewJSONPacker wfail, 0)" "()"] by auto
  with counted_log.disassemble_inv [OF c(1) counted_init] have "ps = (p', total_size (json_logged p'))"
    by (cases ps) (auto simp: counted_inv_def)
  with c r have "NewInputTarStream ord packSizeCounter_AddEntry discard_putter (bs, None) (NewJSONPacker wfail, 0) () =
      Ret ((bs, None), (p', total_size (json_logged p')), ())"
    by (simp add: NewInputTarStream_def)
  moreover have "assembleTarTo drv gid (NewJSONUnpacker (pk_docs p') EOF) 0 dgst w =
      Ret ((None, total_size (json_logged p'), dg_write bs dgst), w2)"
    using assemble_counted [OF json_inv_docs [OF i, of EOF], of ?mnt 0 dgst] m rel good' bs'
    by (cases release) (auto simp: assembleTarTo_def released_def)
  ultimately show ?thesis by blast
qed

text \<open>
  C7: The two ways agree.  Let \<open>checksumForGraphIDNoTarsplit\<close> succeed on an archive that is split up to its end-of-archive
  mark and has no sparse file and no negative size, and let the flush of the record not fail.  Then a later run of
  \<open>checksum_tarsplit\<close> that reads the record written, on a mount that has the files of the archive, computes the same digest
  and the same size; it needs that the release of the mount returns and that the record can be linked.
\<close>

theorem tarsplit_agrees_with_fallback:
  assumes run: "checksumForGraphIDNoTarsplit ord wfail drv gid parent new w = Ret (Inr (dgst, sz), w')"
    and ts: "TarStream drv gid parent w = Ret (Inr ((bs, None), close), w1)"
    and d: "disassemble AddEntry buffer_putter (input_reader ord (bs, None)) (NewJSONPacker wfail) [] =
             Ret (None, tr', p', files)"
    and e: "tr_err tr' = Some EOF" and sp: "\<not> tr_sparse tr'"
    and nn: "\<forall>e \<in> set (fst (unpack_all (NewJSONUnpacker (pk_docs p') EOF))). 0 \<le> sint (esize e)"
    and flush: "wfail (pk_pos p') = None"
  shows "\<exists>f s. os_Create new (wfs w1) = (Inr f, s) \<and>
     close (w1\<lparr>wfs := snd (write_ino new f (GzipJson (pk_docs p') True) s)\<rparr>) = Ret w' \<and>
     (\<forall>later v old new2 fsPath release v1 v2. old \<noteq> [] \<longrightarrow> ReadFile (wfs v) old = Inr (GzipJson (pk_docs p') True) \<longrightarrow>
        Mount later gid v = (Inr (fsPath, release), v1) \<longrightarrow> released release v1 v2 \<longrightarrow>
        (\<forall>name b. map_of files name = Some b \<longrightarrow> NewPathFileGetter v1 fsPath name = Inr (b, None)) \<longrightarrow>
        fst (os_Link old new2 (snd (os_RemoveAll new2 (wfs v2)))) = Inr () \<longrightarrow>
        (\<exists>v3. checksum_tarsplit later gid old new2 v = Ret (Inr (dgst, sz), v3)))"
proof -
  from fallback_success [OF run] ts obtain f s p s1 r where c: "os_Create new (wfs w1) = (Inr f, s)" "dgst = FromBytes bs"
    "NewInputTarStream ord packSizeCounter_AddEntry discard_putter (bs, None) (NewJSONPacker wfail, 0) () = Ret ((bs, None), (p, sz), ())"
    "pk_fail p = wfail" "write_ino new f (gzip_Close p) s = (r, s1)" "close (w1\<lparr>wfs := s1\<rparr>) = Ret w'" by auto
  from count_discard.disassemble_sim [OF d, of "(NewJSONPacker wfail, 0)" "()"] obtain ps where
    "disassemble packSizeCounter_AddEntry discard_putter (input_reader ord (bs, None)) (NewJSONPacker wfail, 0) () = Ret (None, tr', ps, ())"
    "fst ps = p'" by auto
  with c(3) have p: "p = p'" by (auto simp: NewInputTarStream_def)
  obtain dg where dg: "alg_New Canonical = Ret dg" "\<And>b. digester_Digest (dg_write b dg) = FromBytes b"
    using Canonical_digester by blast
  have again: "\<exists>v3. checksum_tarsplit later gid old new2 v = Ret (Inr (dgst, sz), v3)"
    if "old \<noteq> []" "ReadFile (wfs v) old = Inr (GzipJson (pk_docs p') True)" and m: "Mount later gid v = (Inr (fsPath, release), v1)"
      and rel: "released release v1 v2"
      and fl: "\<forall>name b. map_of files name = Some b \<longrightarrow> NewPathFileGetter v1 fsPath name = Inr (b, None)"
      and ln: "fst (os_Link old new2 (snd (os_RemoveAll new2 (wfs v2)))) = Inr ()" for later v old new2 fsPath release v1 v2
  proof -
    from record_assembles [OF d e sp nn m rel fl, of dg] c(3) p have
      "assembleTarTo later gid (NewJSONUnpacker (pk_docs p') EOF) 0 dg v = Ret ((None, sz, dg_write bs dg), v2)" by auto
    with that(1,2) dg c(2) ln show ?thesis
      by (auto simp: checksum_tarsplit_def gzip_NewReader_def Let_def split: prod.splits)
  qed
  have "gzip_Close p' = GzipJson (pk_docs p') True" using c(4) p flush by (simp add: gzip_Close_def)
  with c p again show ?thesis by auto
qed

lemma tarsplit_agrees_with_fallback_witness:
  "\<exists>sz w' docs v. checksumForGraphIDNoTarsplit id (\<lambda>_. None) (NewVfsChecksums (demo_archiver (Inr (demo_tar, None))) ''/v'')
       ''l1'' [] ''/g/l1/new'' (demo_layer (Raw []) (\<lambda>_ _. None)) = Ret (Inr (FromBytes demo_tar, sz), w') \<and>
     checksum_tarsplit (NewVfsChecksums (demo_archiver (Inr ([], None))) ''/v'') ''l1'' ''/g/l1/old'' ''/g/l1/new''
       (demo_layer (GzipJson docs True) (\<lambda>_ _. None)) = Ret (Inr (FromBytes demo_tar, sz), v)"
proof -
  from demo_run obtain tr' p' where
    d: "disassemble AddEntry buffer_putter (input_reader id (demo_tar, None)) (NewJSONPacker (\<lambda>_. None)) [] =
       Ret (None, tr', p', [(''a'', ''hi'')])" "tr_err tr' = Some EOF" "\<not> tr_sparse tr'" "fine p'"
    by (auto simp: demo_packer_def)
  then have nn: "\<forall>e \<in> set (fst (unpack_all (NewJSONUnpacker (pk_docs p') EOF))). 0 \<le> sint (esize e)"
    by (simp add: fine_def json_logged_def)
  from demo_fallback obtain sz w' where r: "checksumForGraphIDNoTarsplit id (\<lambda>_. None)
      (NewVfsChecksums (demo_archiver (Inr (demo_tar, None))) ''/v'') ''l1'' [] ''/g/l1/new'' (demo_layer (Raw []) (\<lambda>_ _. None)) =
      Ret (Inr (FromBytes demo_tar, sz), w')" by blast
  from tarsplit_agrees_with_fallback [OF r demo_TarStream d(1-3) nn refl]
  have later: "old \<noteq> [] \<longrightarrow> ReadFile (wfs v) old = Inr (GzipJson (pk_docs p') True) \<longrightarrow>
      Mount later ''l1'' v = (Inr (fsPath, release), v1) \<longrightarrow> released release v1 v2 \<longrightarrow>
      (\<forall>name b. map_of [(''a'', ''hi'')] name = Some b \<longrightarrow> NewPathFileGetter v1 fsPath name = Inr (b, None)) \<longrightarrow>
      fst (os_Link old new2 (snd (os_RemoveAll new2 (wfs v2)))) = Inr () \<longrightarrow>
      (\<exists>v3. checksum_tarsplit later ''l1'' old new2 v = Ret (Inr (FromBytes demo_tar, sz), v3))"
    for later v old new2 fsPath release v1 v2 by blast
  let ?v = "demo_layer (GzipJson (pk_docs p') True) (\<lambda>_ _. None)"
  have "\<forall>name b. map_of [(''a'', ''hi'')] name = Some b \<longrightarrow> NewPathFileGetter ?v ''/v/dir/l1'' name = Inr (b, None)"
    using demo_getter by simp
  with later [of "''/g/l1/old''" ?v "NewVfsChecksums (demo_archiver (Inr ([], None))) ''/v''" "''/v/dir/l1''" None ?v ?v "''/g/l1/new''"]
  have "\<exists>v. checksum_tarsplit (NewVfsChecksums (demo_archiver (Inr ([], None))) ''/v'') ''l1'' ''/g/l1/old'' ''/g/l1/new'' ?v =
      Ret (Inr (FromBytes demo_tar, sz), v)"
    using demo_mount [of "demo_archiver (Inr ([], None))"] demo_link demo_ReadFile by (simp add: released_def)
  with r show ?thesis by blast
qed

text \<open>
  The deferred \<open>mfz.Close\<close> of the new record may fail without being noticed: when only that last
  write fails, the checksum is reported as a success and the record it leaves cannot be read to its end.
\<close>

lemma flush_failure_unnoticed:
  assumes "TarStream drv gid parent w = Ret (Inr ((bs, None), Ret), w1)"
    and "os_Create new (wfs w1) = (Inr f, s)" and "faults s OpWrite new = None"
    and "NewInputTarStream ord packSizeCounter_AddEntry discard_putter (bs, None) (NewJSONPacker wfail, 0) () =
           Ret ((bs, None), (p, sz), ())"
    and "pk_fail p (pk_pos p) = Some e"
  shows "\<exists>w'. checksumForGraphIDNoTarsplit ord wfail drv gid parent new w = Ret (Inr (FromBytes bs, sz), w') \<and>
           read_ino (wfs w') f = Inr (GzipJson (pk_docs p) False) \<and>
           (\<exists>x. x \<noteq> EOF \<and> gzip_NewReader (GzipJson (pk_docs p) False) = Inr (pk_docs p, x))"
  using assms
  by (simp add: checksumForGraphIDNoTarsplit_def FromReader_eq write_ino_def gzip_Close_def read_ino_def
      gzip_NewReader_def)

lemma flush_failure_unnoticed_witness:
  "\<exists>sz w' docs. checksumForGraphIDNoTarsplit id (\<lambda>k. if k = 1 then Some (EOther 28) else None)
       (NewVfsChecksums (demo_archiver (Inr ([], None))) ''/v'') ''l1'' [] ''/g/l1/new'' (demo_layer (Raw []) (\<lambda>_ _. None)) =
       Ret (Inr (FromBytes [], sz), w') \<and> read_ino (wfs w') 4 = Inr (GzipJson docs False)"
proof -
  obtain s where s: "os_Create ''/g/l1/new'' (wfs (demo_layer (Raw []) (\<lambda>_ _. None))) = (Inr 4, s)" "faults s OpWrite ''/g/l1/new'' = None"
    using demo_create [of "Raw []"] by auto
  show ?thesis
    using flush_failure_unnoticed [OF demo_TarStream s
        empty_split [where wfail = "\<lambda>k. if k = 1 then Some (EOther 28) else None" and ord = id], where e = "EOther 28"]
    by (fastforce simp: NewJSONPacker_def)
qed

text \<open>
  \<open>os.Create\<close> truncates in place.  When an earlier run has linked the new record to the old one
  and this run falls back, the old record is overwritten as well, also when the fallback then fails.
\<close>

lemma fallback_overwrites_linked_record:
  assumes "TarStream drv gid parent w = Ret (Inr (raw, Ret), w1)"
    and "map_of (names (wfs w1)) old = Some i" and "map_of (names (wfs w1)) new = Some i"
    and "map_of (nodes (wfs w1)) i = Some (Reg b)" and "faults (wfs w1) OpCreate new = None"
    and "checksumForGraphIDNoTarsplit ord wfail drv gid parent new w = Ret (r, w')"
  shows "\<exists>archive p sz. NewInputTarStream ord packSizeCounter_AddEntry discard_putter raw (NewJSONPacker wfail, 0) () =
             Ret (archive, (p, sz), ()) \<and> r = map_sum id (\<lambda>dgst. (dgst, sz)) (FromReader archive) \<and>
           node_at (wfs w') old \<in> {Some (Reg (Raw [])), Some (Reg (gzip_Close p))}"
proof -
  have "resolve (wfs w1) new = Inr new"
    using assms(3,4) by (simp add: resolve_def resolve_fuel.simps node_at_def)
  then have "os_Create new (wfs w1) = (Inr i, emit (EvTrunc i) (wfs w1))"
    using assms(3-5) by (simp add: os_Create_def)
  with assms(1,2,6) show ?thesis
    by (auto simp: checksumForGraphIDNoTarsplit_def write_ino_def node_at_def simp del: bind_outcome_eq_Ret
        elim!: bind_outcomeE split: option.splits)
qed

definition demo_linked :: world where
  "demo_linked = (let w = demo_layer (GzipJson (map encode_entry demo_record) True) (\<lambda>_ _. None)
     in w\<lparr>wfs := (wfs w)\<lparr>names := (''/g/l1/new'', 3) # names (wfs w)\<rparr>\<rparr>)"

lemma fallback_overwrites_linked_record_witness:
  "\<exists>w'. checksumForGraphIDNoTarsplit id (\<lambda>_. None) (NewVfsChecksums (demo_archiver (Inr ([], Some (EOther 5)))) ''/v'')
       ''l1'' [] ''/g/l1/new'' demo_linked = Ret (Inl (EOther 5), w') \<and>
     node_at (wfs demo_linked) ''/g/l1/old'' = Some (Reg (GzipJson (map encode_entry demo_record) True)) \<and>
     node_at (wfs w') ''/g/l1/old'' \<in> {Some (Reg (Raw [])), Some (Reg (GzipJson [] True))}"
proof -
  let ?d = "NewVfsChecksums (demo_archiver (Inr ([], Some (EOther 5)))) ''/v''"
  have j: "Join [''/v'', ''dir'', ''l1''] = ''/v/dir/l1''" by code_simp
  have t: "TarStream ?d ''l1'' [] demo_linked = Ret (Inr (([], Some (EOther 5)), Ret), demo_linked)"
    by (simp add: NewVfsChecksums_def vfs_TarStream_def archive_Tar_def demo_archiver_def plain_stream_def
        vfs_Mount_def j w_Lstat_def w_node_at_def mounted_at_def node_at_def demo_linked_def demo_layer_def
        demo_layer_fs_def Let_def del: Join.simps)
  have n: "map_of (names (wfs demo_linked)) ''/g/l1/old'' = Some 3" "map_of (names (wfs demo_linked)) ''/g/l1/new'' = Some 3"
    "map_of (nodes (wfs demo_linked)) 3 = Some (Reg (GzipJson (map encode_entry demo_record) True))"
    "faults (wfs demo_linked) OpCreate ''/g/l1/new'' = None"
    by (simp_all add: demo_linked_def demo_layer_def demo_layer_fs_def Let_def)
  then obtain s where "os_Create ''/g/l1/new'' (wfs demo_linked) = (Inr 3, s)"
    by (simp add: os_Create_def resolve_def resolve_fuel.simps node_at_def)
  moreover obtain x s1 where "write_ino ''/g/l1/new'' 3 (gzip_Close (NewJSONPacker (\<lambda>_. None))) s = (x, s1)"
    by fastforce
  ultimately obtain w' where
    r: "checksumForGraphIDNoTarsplit id (\<lambda>_. None) ?d ''l1'' [] ''/g/l1/new'' demo_linked = Ret (Inl (EOther 5), w')"
    using t failed_split [of "EOther 5" id "\<lambda>_. None"]
    by (auto simp: checksumForGraphIDNoTarsplit_def FromReader_eq)
  from fallback_overwrites_linked_record [OF t n r] failed_split [of "EOther 5" id "\<lambda>_. None"] r n show ?thesis
    by (auto simp: node_at_def gzip_Close_def NewJSONPacker_def)
qed

end
