(* ===== verification/MigrateV1.thy ===== *)
theory MigrateV1
  imports Checksums
begin

text \<open>
  \<open>docker/migrate/v1/migratev1.go\<close>, the part the migrator runs: walking the graph directory and
  computing a checksum for every layer with a pool of workers.

  \<open>calculateLayerChecksum\<close> is given as one function and again as the sequence of its file operations
  (\<open>job_step\<close>), so that the interleavings of the workers, and the states in which the program may be
  killed, are the states of the step relation \<open>pool_step\<close>.  A call of \<open>ChecksumForGraphID\<close> is one step.
\<close>

declare Join.simps [simp del]

section \<open>Names and identifiers\<close>

definition graphDirName :: string where "graphDirName = ''graph''"
definition tarDataFileName :: string where "tarDataFileName = ''tar-data.json.gz''"
definition migrationDiffIDFileName :: string where "migrationDiffIDFileName = ''.migration-diffid''"
definition migrationSizeFileName :: string where "migrationSizeFileName = ''.migration-size''"
definition migrationTarDataFileName :: string where "migrationTarDataFileName = ''.migration-tardata''"

text \<open>\<open>imagev1.ValidateID\<close>: 64 lower-case hexadecimal digits.\<close>

definition validHex :: "string \<Rightarrow> bool" where
  "validHex s \<longleftrightarrow> length s = 64 \<and> list_all is_lower_hex s"

definition ValidateID :: "string \<Rightarrow> err option" where
  "ValidateID s = (if validHex s then None else Some (ErrText (''image ID '' @ [CHR 0x27] @ s @ [CHR 0x27] @ '' is invalid '')))"

section \<open>getParent\<close>

text \<open>\<open>json.Unmarshal\<close> into the struct with the fields \<open>Parent\<close> and \<open>parent_id\<close>.\<close>

definition decode_parent_field :: "string \<times> json \<Rightarrow> (string \<times> digest) \<times> err option \<Rightarrow> (string \<times> digest) \<times> err option" where
  "decode_parent_field kv st =
     (let ((parent, parentID), er) = st; k = fold_key (fst kv);
          first = (\<lambda>x. case er of None \<Rightarrow> Some x | Some y \<Rightarrow> Some y)
      in if k = ''parent'' then
           (case decode_string (snd kv) parent of
              Inl x \<Rightarrow> ((parent, parentID), first x) | Inr s \<Rightarrow> ((s, parentID), er))
         else if k = ''parent_id'' then
           (case decode_string (snd kv) parentID of
              Inl x \<Rightarrow> ((parent, parentID), first x) | Inr s \<Rightarrow> ((parent, s), er))
         else st)"

definition ErrSyntaxJSON :: err where "ErrSyntaxJSON = ErrText ''invalid character''"

definition unmarshal_parent :: "blob \<Rightarrow> (string \<times> digest) res" where
  "unmarshal_parent b =
     (case b of
        JsonDoc JNull \<Rightarrow> Inr ([], [])
      | JsonDoc (JObj kvs) \<Rightarrow>
          (let (v, er) = fold decode_parent_field kvs (([], []), None)
           in case er of Some x \<Rightarrow> Inl x | None \<Rightarrow> Inr v)
      | JsonDoc _ \<Rightarrow> Inl ErrUnmarshalType
      | _ \<Rightarrow> Inl ErrSyntaxJSON)"

definition getParent :: "fs \<Rightarrow> string \<Rightarrow> string res outcome" where
  "getParent s confDir =
     (case ReadFile s (Join [confDir, ''json'']) of
        Inl e \<Rightarrow> Ret (Inl e)
      | Inr imageJSON \<Rightarrow>
          (case unmarshal_parent imageJSON of
             Inl e \<Rightarrow> Ret (Inl e)
           | Inr (parent, parentID) \<Rightarrow>
               bind_outcome (if parent = [] \<and> parentID \<noteq> [] then digest_Hex parentID else Ret parent) (\<lambda>p1.
                 Ret (Inr
                   (case ReadFile s (Join [confDir, ''parent'']) of
                      Inl _ \<Rightarrow> p1
                    | Inr b \<Rightarrow> if 0 < length (blob_bytes s b) then blob_bytes s b else p1)))))"

section \<open>calculateLayerChecksum\<close>

type_synonym checksumCalculator =
  "string \<Rightarrow> string \<Rightarrow> string \<Rightarrow> string \<Rightarrow> world \<Rightarrow> ((digest \<times> int64) res \<times> world) outcome"

abbreviation layer_file :: "string \<Rightarrow> string \<Rightarrow> string \<Rightarrow> string" where
  "layer_file graphDir gid f \<equiv> Join [graphDir, gid, f]"

definition diffIDFile :: "string \<Rightarrow> string \<Rightarrow> string" where
  "diffIDFile graphDir gid = layer_file graphDir gid migrationDiffIDFileName"

definition sizeFile :: "string \<Rightarrow> string \<Rightarrow> string" where
  "sizeFile graphDir gid = layer_file graphDir gid migrationSizeFileName"

definition tmpFile :: "string \<Rightarrow> string \<Rightarrow> string" where
  "tmpFile graphDir gid = layer_file graphDir gid (migrationDiffIDFileName @ ''.tmp'')"

definition newTarData :: "string \<Rightarrow> string \<Rightarrow> string" where
  "newTarData graphDir gid = layer_file graphDir gid migrationTarDataFileName"

definition calculateLayerChecksum ::
  "checksumCalculator \<Rightarrow> string \<Rightarrow> string \<Rightarrow> world \<Rightarrow> (err option \<times> world) outcome" where
  "calculateLayerChecksum ls graphDir gid w =
     (case os_Lstat (wfs w) (diffIDFile graphDir gid) of
        Inr _ \<Rightarrow> Ret (None, w)
      | Inl e \<Rightarrow>
          if \<not> os_IsNotExist e then Ret (Some e, w)
          else
            bind_outcome (getParent (wfs w) (Join [graphDir, gid])) (\<lambda>pr.
              case pr of
                Inl e \<Rightarrow> Ret (Some e, w)
              | Inr parent \<Rightarrow>
                  bind_outcome (ls gid parent (layer_file graphDir gid tarDataFileName) (newTarData graphDir gid) w)
                    (\<lambda>(r, w1).
                       case r of
                         Inl e \<Rightarrow> Ret (Some e, w1)
                       | Inr (diffID, sz) \<Rightarrow>
                           (case WriteFile (sizeFile graphDir gid) (Raw (Itoa (sint sz))) (wfs w1) of
                              (Inl e, s) \<Rightarrow> Ret (Some e, w1\<lparr>wfs := s\<rparr>)
                            | (Inr _, s) \<Rightarrow>
                                (case WriteFile (tmpFile graphDir gid) (Raw diffID) s of
                                   (Inl e, s2) \<Rightarrow> Ret (Some e, w1\<lparr>wfs := s2\<rparr>)
                                 | (Inr _, s2) \<Rightarrow>
                                     (case os_Rename (tmpFile graphDir gid) (diffIDFile graphDir gid) s2 of
                                        (Inl e, s3) \<Rightarrow> Ret (Some e, w1\<lparr>wfs := s3\<rparr>)
                                      | (Inr _, s3) \<Rightarrow> Ret (None, w1\<lparr>wfs := s3\<rparr>)))))))"

section \<open>The same, one file operation at a time\<close>

datatype job =
    Start
  | Checksum string
  | SizeOpen digest int64
  | SizeWrite digest int64 nat
  | TmpOpen digest
  | TmpWrite digest nat
  | Publish digest
  | Finished "err option"

fun job_step :: "checksumCalculator \<Rightarrow> string \<Rightarrow> string \<Rightarrow> job \<Rightarrow> world \<Rightarrow> (job \<times> world) outcome" where
  "job_step ls graphDir gid Start w =
     (case os_Lstat (wfs w) (diffIDFile graphDir gid) of
        Inr _ \<Rightarrow> Ret (Finished None, w)
      | Inl e \<Rightarrow>
          if \<not> os_IsNotExist e then Ret (Finished (Some e), w)
          else
            bind_outcome (getParent (wfs w) (Join [graphDir, gid])) (\<lambda>pr.
              Ret (case pr of Inl e \<Rightarrow> Finished (Some e) | Inr parent \<Rightarrow> Checksum parent, w)))"
| "job_step ls graphDir gid (Checksum parent) w =
     bind_outcome (ls gid parent (layer_file graphDir gid tarDataFileName) (newTarData graphDir gid) w) (\<lambda>(r, w1).
       Ret (case r of Inl e \<Rightarrow> Finished (Some e) | Inr (diffID, sz) \<Rightarrow> SizeOpen diffID sz, w1))"
| "job_step ls graphDir gid (SizeOpen d sz) w =
     (let (r, s) = os_Create (sizeFile graphDir gid) (wfs w)
      in Ret (case r of Inl e \<Rightarrow> Finished (Some e) | Inr f \<Rightarrow> SizeWrite d sz f, w\<lparr>wfs := s\<rparr>))"
| "job_step ls graphDir gid (SizeWrite d sz f) w =
     (let (r, s) = write_ino (sizeFile graphDir gid) f (Raw (Itoa (sint sz))) (wfs w)
      in Ret (case r of Inl e \<Rightarrow> Finished (Some e) | Inr _ \<Rightarrow> TmpOpen d, w\<lparr>wfs := s\<rparr>))"
| "job_step ls graphDir gid (TmpOpen d) w =
     (let (r, s) = os_Create (tmpFile graphDir gid) (wfs w)
      in Ret (case r of Inl e \<Rightarrow> Finished (Some e) | Inr f \<Rightarrow> TmpWrite d f, w\<lparr>wfs := s\<rparr>))"
| "job_step ls graphDir gid (TmpWrite d f) w =
     (let (r, s) = write_ino (tmpFile graphDir gid) f (Raw d) (wfs w)
      in Ret (case r of Inl e \<Rightarrow> Finished (Some e) | Inr _ \<Rightarrow> Publish d, w\<lparr>wfs := s\<rparr>))"
| "job_step ls graphDir gid (Publish d) w =
     (let (r, s) = os_Rename (tmpFile graphDir gid) (diffIDFile graphDir gid) (wfs w)
      in Ret (Finished (case r of Inl e \<Rightarrow> Some e | Inr _ \<Rightarrow> None), w\<lparr>wfs := s\<rparr>))"
| "job_step ls graphDir gid (Finished r) w = Ret (Finished r, w)"

fun run_job :: "nat \<Rightarrow> checksumCalculator \<Rightarrow> string \<Rightarrow> string \<Rightarrow> job \<Rightarrow> world \<Rightarrow> (job \<times> world) outcome" where
  "run_job 0 ls graphDir gid j w = Ret (j, w)"
| "run_job (Suc n) ls graphDir gid j w =
     bind_outcome (job_step ls graphDir gid j w) (\<lambda>(j', w'). run_job n ls graphDir gid j' w')"

section \<open>CalculateLayerChecksums\<close>

text \<open>The ids that are put on the work queue.\<close>

definition work_ids :: "(string \<Rightarrow> digest option) \<Rightarrow> string list \<Rightarrow> string list" where
  "work_ids mappings dir = filter (\<lambda>v1ID. ValidateID v1ID = None \<and> mappings v1ID = None) dir"

record pool =
  po_queue :: "string list"
  po_running :: "(string \<times> job) list"
  po_done :: "(string \<times> err option) list"
  po_world :: world

definition pool_start :: "(string \<Rightarrow> digest option) \<Rightarrow> string list \<Rightarrow> world \<Rightarrow> pool" where
  "pool_start mappings dir w =
     \<lparr>po_queue = work_ids mappings dir, po_running = [], po_done = [], po_world = w\<rparr>"

text \<open>A worker takes the next id, does one operation of its job, or is done with it.\<close>

inductive pool_step :: "checksumCalculator \<Rightarrow> string \<Rightarrow> nat \<Rightarrow> pool \<Rightarrow> pool \<Rightarrow> bool"
  for ls graphDir workers where
  take: "po_queue po = gid # q \<Longrightarrow> length (po_running po) < workers \<Longrightarrow>
     pool_step ls graphDir workers po (po\<lparr>po_queue := q, po_running := (gid, Start) # po_running po\<rparr>)"
| work: "map_of (po_running po) gid = Some j \<Longrightarrow> (\<forall>r. j \<noteq> Finished r) \<Longrightarrow>
     job_step ls graphDir gid j (po_world po) = Ret (j', w') \<Longrightarrow>
     pool_step ls graphDir workers po (po\<lparr>po_running := AList.update gid j' (po_running po), po_world := w'\<rparr>)"
| retire: "map_of (po_running po) gid = Some (Finished r) \<Longrightarrow>
     pool_step ls graphDir workers po
       (po\<lparr>po_running := AList.delete gid (po_running po), po_done := (gid, r) # po_done po\<rparr>)"

inductive pool_reach :: "checksumCalculator \<Rightarrow> string \<Rightarrow> nat \<Rightarrow> pool \<Rightarrow> pool \<Rightarrow> bool"
  for ls graphDir workers po where
  start: "pool_reach ls graphDir workers po po"
| more: "pool_reach ls graphDir workers po po1 \<Longrightarrow> pool_step ls graphDir workers po1 po2 \<Longrightarrow>
     pool_reach ls graphDir workers po po2"

text \<open>
  The states in which the call may return: the queue was filled from the graph directory, is empty
  again, and every worker is idle.  When the directory cannot be read, the call returns at once
  (and leaves the workers waiting for the queue, which is never closed).
\<close>

definition CalculateLayerChecksums ::
  "checksumCalculator \<Rightarrow> nat \<Rightarrow> string \<Rightarrow> (string \<Rightarrow> digest option) \<Rightarrow> world \<Rightarrow> pool \<Rightarrow> bool" where
  "CalculateLayerChecksums ls workers root mappings w po \<longleftrightarrow>
     (case ReadDir (wfs w) (Join [root, graphDirName]) of
        Inl _ \<Rightarrow> po = pool_start mappings [] w
      | Inr dir \<Rightarrow>
          pool_reach ls (Join [root, graphDirName]) workers (pool_start mappings dir w) po \<and>
          po_queue po = [] \<and> po_running po = [])"

section \<open>Running one job to its end\<close>

lemma run_job_Finished [simp]: "run_job n ls graphDir gid (Finished r) v = Ret (Finished r, v)"
  by (induction n) simp_all

lemma run_job_Publish:
  "run_job (Suc n) ls graphDir gid (Publish d) v =
     (case os_Rename (tmpFile graphDir gid) (diffIDFile graphDir gid) (wfs v) of
        (Inl e, s) \<Rightarrow> Ret (Finished (Some e), v\<lparr>wfs := s\<rparr>) | (Inr _, s) \<Rightarrow> Ret (Finished None, v\<lparr>wfs := s\<rparr>))"
  by (auto split: prod.split sum.split)

lemma run_job_TmpOpen:
  "run_job (Suc (Suc (Suc n))) ls graphDir gid (TmpOpen d) v =
     (case WriteFile (tmpFile graphDir gid) (Raw d) (wfs v) of
        (Inl e, s) \<Rightarrow> Ret (Finished (Some e), v\<lparr>wfs := s\<rparr>)
      | (Inr _, s) \<Rightarrow> run_job (Suc n) ls graphDir gid (Publish d) (v\<lparr>wfs := s\<rparr>))"
  by (auto simp: WriteFile_def Let_def simp del: run_job.simps(2) job_step.simps(7)
      simp: run_job.simps(2) [of "Suc n"] run_job.simps(2) [of "Suc (Suc n)"] split: prod.split sum.split)

lemma run_job_SizeOpen:
  "run_job 5 ls graphDir gid (SizeOpen d k) v =
     (case WriteFile (sizeFile graphDir gid) (Raw (Itoa (sint k))) (wfs v) of
        (Inl e, s) \<Rightarrow> Ret (Finished (Some e), v\<lparr>wfs := s\<rparr>)
      | (Inr _, s) \<Rightarrow> run_job 3 ls graphDir gid (TmpOpen d) (v\<lparr>wfs := s\<rparr>))"
  by (auto simp: WriteFile_def Let_def numeral_eq_Suc simp del: run_job.simps(2) job_step.simps(5)
      simp: run_job.simps(2) [of "Suc (Suc (Suc n))" for n] split: prod.split sum.split)

lemma run_job_three:
  "run_job 3 ls graphDir gid (TmpOpen d) v =
     (case WriteFile (tmpFile graphDir gid) (Raw d) (wfs v) of
        (Inl e, s) \<Rightarrow> Ret (Finished (Some e), v\<lparr>wfs := s\<rparr>)
      | (Inr _, s) \<Rightarrow>
          (case os_Rename (tmpFile graphDir gid) (diffIDFile graphDir gid) s of
             (Inl e, s3) \<Rightarrow> Ret (Finished (Some e), v\<lparr>wfs := s3\<rparr>)
           | (Inr _, s3) \<Rightarrow> Ret (Finished None, v\<lparr>wfs := s3\<rparr>)))"
  unfolding numeral_3_eq_3 run_job_TmpOpen run_job_Publish by (auto split: prod.split sum.split)

lemma run_job_Checksum:
  "run_job 6 ls graphDir gid (Checksum parent) v =
     bind_outcome (ls gid parent (layer_file graphDir gid tarDataFileName) (newTarData graphDir gid) v)
       (\<lambda>(r, w1). case r of Inl e \<Rightarrow> Ret (Finished (Some e), w1) | Inr (d, k) \<Rightarrow> run_job 5 ls graphDir gid (SizeOpen d k) w1)"
  using run_job.simps(2) [of 5 ls graphDir gid "Checksum parent" v]
  by (cases "ls gid parent (layer_file graphDir gid tarDataFileName) (newTarData graphDir gid) v")
    (auto split: sum.splits)

lemma run_job_Start:
  "run_job 7 ls graphDir gid Start w =
     bind_outcome (job_step ls graphDir gid Start w) (\<lambda>(j, w'). run_job 6 ls graphDir gid j w')"
  using run_job.simps(2) [of 6 ls graphDir gid Start w] by simp

text \<open>
  C17: The sequence of operations refines the function: seven steps of a job, alone, do what
  \<open>calculateLayerChecksum\<close> does, on every branch.
\<close>

theorem run_job_refines:
  "run_job 7 ls graphDir gid Start w =
     bind_outcome (calculateLayerChecksum ls graphDir gid w) (\<lambda>(er, w'). Ret (Finished er, w'))"
proof -
  have sum: "run_job 6 ls graphDir gid (Checksum parent) w =
      bind_outcome (bind_outcome (ls gid parent (layer_file graphDir gid tarDataFileName) (newTarData graphDir gid) w)
        (\<lambda>(r, w1).
           case r of
             Inl e \<Rightarrow> Ret (Some e, w1)
           | Inr (diffID, sz) \<Rightarrow>
               (case WriteFile (sizeFile graphDir gid) (Raw (Itoa (sint sz))) (wfs w1) of
                  (Inl e, s) \<Rightarrow> Ret (Some e, w1\<lparr>wfs := s\<rparr>)
                | (Inr _, s) \<Rightarrow>
                    (case WriteFile (tmpFile graphDir gid) (Raw diffID) s of
                       (Inl e, s2) \<Rightarrow> Ret (Some e, w1\<lparr>wfs := s2\<rparr>)
                     | (Inr _, s2) \<Rightarrow>
                         (case os_Rename (tmpFile graphDir gid) (diffIDFile graphDir gid) s2 of
                            (Inl e, s3) \<Rightarrow> Ret (Some e, w1\<lparr>wfs := s3\<rparr>)
                          | (Inr _, s3) \<Rightarrow> Ret (None, w1\<lparr>wfs := s3\<rparr>))))))
        (\<lambda>(er, w'). Ret (Finished er, w'))" for parent
    by (cases "ls gid parent (layer_file graphDir gid tarDataFileName) (newTarData graphDir gid) w")
      (auto simp: run_job_Checksum run_job_SizeOpen run_job_three split: prod.split sum.split)
  obtain pr where pr: "getParent (wfs w) (Join [graphDir, gid]) = pr" by blast
  show ?thesis
    unfolding run_job_Start calculateLayerChecksum_def job_step.simps(1) pr
    by (cases pr) (simp_all add: sum split: sum.split)
qed

lemma returns_digest_Hex: "returns (digest_Hex d) \<longleftrightarrow> CHR '':'' \<in> set d"
  using index_byte_None [of "CHR '':''" d]
  by (simp add: digest_Hex_def sepIndex_def del: not_None_eq split: option.split) auto

text \<open>
  \<open>getParent\<close> panics exactly when the layer's \<open>json\<close> file decodes to an empty \<open>Parent\<close> and a
  non-empty \<open>parent_id\<close> without a colon; nothing checks the digest before \<open>Hex\<close> is called.
\<close>

lemma getParent_panic_iff:
  "returns (getParent s confDir) \<longleftrightarrow>
     \<not> (\<exists>b parentID. ReadFile s (Join [confDir, ''json'']) = Inr b \<and> unmarshal_parent b = Inr ([], parentID) \<and>
          parentID \<noteq> [] \<and> CHR '':'' \<notin> set parentID)"
proof -
  have bind: "returns (bind_outcome r (\<lambda>x. Ret (h x))) = returns r" for r :: "string outcome" and h :: "string \<Rightarrow> string res"
    by (cases r) auto
  show ?thesis
    by (auto simp: getParent_def bind returns_digest_Hex split: sum.split prod.split)
qed

section \<open>The pool of workers\<close>

fun job_rank :: "job \<Rightarrow> nat" where
  "job_rank Start = 7"
| "job_rank (Checksum _) = 6"
| "job_rank (SizeOpen _ _) = 5"
| "job_rank (SizeWrite _ _ _) = 4"
| "job_rank (TmpOpen _) = 3"
| "job_rank (TmpWrite _ _) = 2"
| "job_rank (Publish _) = 1"
| "job_rank (Finished _) = 0"

lemma job_step_rank:
  "job_step ls graphDir gid j w = Ret (j', w') \<Longrightarrow> \<forall>r. j \<noteq> Finished r \<Longrightarrow> job_rank j' < job_rank j"
  by (cases j) (auto simp: Let_def simp del: bind_outcome_eq_Ret elim!: bind_outcomeE
      split: sum.splits if_splits prod.splits)

definition ranks :: "(string \<times> job) list \<Rightarrow> nat" where
  "ranks al = sum_list (map (\<lambda>p. Suc (job_rank (snd p))) al)"

lemma ranks_update:
  "map_of al k = Some j \<Longrightarrow> job_rank j' < job_rank j \<Longrightarrow> ranks (AList.update k j' al) < ranks al"
  by (induction al) (auto simp: ranks_def split: if_splits)

lemma ranks_delete_le: "ranks (AList.delete k al) \<le> ranks al"
  by (induction al) (auto simp: ranks_def)

lemma ranks_delete: "map_of al k = Some j \<Longrightarrow> ranks (AList.delete k al) < ranks al"
proof (induction al)
  case (Cons p al)
  then show ?case using ranks_delete_le [of k al] by (cases p) (auto simp: ranks_def split: if_splits)
qed simp

definition pool_rank :: "pool \<Rightarrow> nat" where
  "pool_rank po = 9 * length (po_queue po) + ranks (po_running po)"

lemma pool_step_rank: "pool_step ls graphDir workers po po' \<Longrightarrow> pool_rank po' < pool_rank po"
  by (erule pool_step.cases)
    (auto simp: pool_rank_def job_step_rank ranks_update ranks_delete, simp add: ranks_def)

text \<open>Every id is queued, running or done, exactly one of them.\<close>

definition pool_ids :: "pool \<Rightarrow> string list" where
  "pool_ids po = po_queue po @ map fst (po_running po) @ map fst (po_done po)"

lemma keys_update: "map_of al k = Some v \<Longrightarrow> map fst (AList.update k v' al) = map fst al"
  by (induction al) (auto split: if_splits)

lemma keys_delete: "set (map fst (AList.delete k al)) = set (map fst al) - {k}"
  by (auto simp: AList.delete_eq)

lemma pool_ids_step:
  assumes "pool_step ls graphDir workers po po'" and "distinct (pool_ids po)"
  shows "distinct (pool_ids po') \<and> set (pool_ids po') = set (pool_ids po)"
  using assms
proof (cases rule: pool_step.cases)
  case (take gid q)
  with assms(2) show ?thesis by (auto simp: pool_ids_def)
next
  case (work gid j j' w')
  with assms(2) show ?thesis by (simp add: pool_ids_def keys_update)
next
  case (retire gid r)
  then have "gid \<in> set (map fst (po_running po))" by (auto dest: map_of_SomeD intro: rev_image_eqI)
  with retire assms(2) show ?thesis
    using keys_delete [of gid "po_running po"] AList.distinct_delete [of "po_running po" gid]
    by (auto simp: pool_ids_def)
qed

lemma pool_ids_reach:
  "pool_reach ls graphDir workers po po' \<Longrightarrow> distinct (pool_ids po) \<Longrightarrow>
     distinct (pool_ids po') \<and> set (pool_ids po') = set (pool_ids po)"
  by (induction rule: pool_reach.induct) (auto dest: pool_ids_step)

lemma pool_ids_start: "distinct dir \<Longrightarrow> distinct (pool_ids (pool_start mappings dir w)) \<and>
    set (pool_ids (pool_start mappings dir w)) = set (work_ids mappings dir)"
  by (simp add: pool_ids_def pool_start_def work_ids_def)

lemma pool_reach_trans:
  "pool_reach ls graphDir workers b c \<Longrightarrow> pool_reach ls graphDir workers a b \<Longrightarrow> pool_reach ls graphDir workers a c"
  by (induction rule: pool_reach.induct) (auto intro: pool_reach.more)

lemma pool_progress:
  assumes "0 < workers" and "po_queue po \<noteq> [] \<or> po_running po \<noteq> []"
    and "\<And>gid j. map_of (po_running po) gid = Some j \<Longrightarrow> returns (job_step ls graphDir gid j (po_world po))"
  shows "\<exists>po'. pool_step ls graphDir workers po po'"
proof (cases "po_running po")
  case Nil
  with assms(1,2) obtain gid q where "po_queue po = gid # q" "length (po_running po) < workers"
    by (cases "po_queue po") auto
  then show ?thesis by (blast intro: pool_step.take)
next
  case (Cons p al)
  then obtain gid j where gj: "map_of (po_running po) gid = Some j"
    using that [of "fst p" "snd p"] by (cases p) simp
  show ?thesis
  proof (cases "\<exists>r. j = Finished r")
    case True
    with gj show ?thesis by (auto intro: pool_step.retire)
  next
    case False
    from assms(3) [OF gj] obtain j' w' where "job_step ls graphDir gid j (po_world po) = Ret (j', w')"
      by (cases "job_step ls graphDir gid j (po_world po)") auto
    with gj False show ?thesis by (blast intro: pool_step.work)
  qed
qed

text \<open>What is left when nothing can go on: nothing at all, or jobs in a call that panicked or hangs.\<close>

lemma pool_stopped:
  assumes "0 < workers" and "\<nexists>po'. pool_step ls graphDir workers po po'"
  shows "po_queue po = [] \<and> po_running po = [] \<or>
     (\<exists>gid j. map_of (po_running po) gid = Some j \<and> \<not> returns (job_step ls graphDir gid j (po_world po)))"
  using pool_progress [OF assms(1), of po ls graphDir] assms(2) by blast

text \<open>
  C10: The pool comes to its end.  Every step of the workers lowers the rank, so no run from a state is longer than its
  rank; and a reachable state in which no worker can go on is either the end, where exactly the valid ids without a
  mapping have been handled, each of them once, or one in which the step of some job panics or hangs.
\<close>

theorem pool_finishes:
  assumes "0 < workers" and "distinct dir" and "pool_reach ls graphDir workers (pool_start mappings dir w) po"
  shows "(\<forall>po'. pool_step ls graphDir workers po po' \<longrightarrow> pool_rank po' < pool_rank po) \<and>
         ((\<nexists>po'. pool_step ls graphDir workers po po') \<longrightarrow>
            po_queue po = [] \<and> po_running po = [] \<and> distinct (map fst (po_done po)) \<and>
            set (map fst (po_done po)) = {v1ID \<in> set dir. validHex v1ID \<and> mappings v1ID = None} \<or>
            (\<exists>gid j. map_of (po_running po) gid = Some j \<and> \<not> returns (job_step ls graphDir gid j (po_world po))))"
proof -
  from pool_ids_reach [OF assms(3)] pool_ids_start [OF assms(2)]
  have "distinct (pool_ids po) \<and> set (pool_ids po) = set (work_ids mappings dir)" by simp
  then have "distinct (map fst (po_done po)) \<and>
      set (map fst (po_done po)) = {v1ID \<in> set dir. validHex v1ID \<and> mappings v1ID = None}"
    if "po_queue po = []" "po_running po = []"
    using that by (auto simp: pool_ids_def work_ids_def ValidateID_def split: if_splits)
  with pool_stopped [OF assms(1)] pool_step_rank show ?thesis by blast
qed

text \<open>A graph directory with one layer that has no \<open>json\<close> file.\<close>

definition demo_id :: string where "demo_id = replicate 64 (CHR ''a'')"

definition demo_ls :: checksumCalculator where
  "demo_ls gid parent old new w = Ret (Inl ENOENT, w)"

lemma demo_job_Start:
  "job_step demo_ls ''/g'' gid Start (demo_layer (Raw []) (\<lambda>_ _. Some ENOENT)) =
     Ret (Finished (Some ENOENT), demo_layer (Raw []) (\<lambda>_ _. Some ENOENT))"
  by (simp add: os_Lstat_def getParent_def ReadFile_def os_Open_def os_IsNotExist_def demo_layer_def demo_layer_fs_def)

definition demo_end :: pool where
  "demo_end = \<lparr>po_queue = [], po_running = [], po_done = [(demo_id, Some ENOENT)],
     po_world = demo_layer (Raw []) (\<lambda>_ _. Some ENOENT)\<rparr>"

lemma demo_end_reached: "pool_reach demo_ls ''/g'' 1 (pool_start (\<lambda>_. None) [demo_id, ''.''] (demo_layer (Raw []) (\<lambda>_ _. Some ENOENT))) demo_end"
proof -
  let ?w = "demo_layer (Raw []) (\<lambda>_ _. Some ENOENT)"
  let ?p0 = "pool_start (\<lambda>_. None) [demo_id, ''.''] ?w"
  let ?p1 = "?p0\<lparr>po_queue := [], po_running := [(demo_id, Start)]\<rparr>"
  let ?p2 = "?p1\<lparr>po_running := [(demo_id, Finished (Some ENOENT))], po_world := ?w\<rparr>"
  have v: "work_ids (\<lambda>_. None) [demo_id, ''.''] = [demo_id]" by code_simp
  have "pool_step demo_ls ''/g'' 1 ?p0 ?p1"
    using pool_step.take [of ?p0 demo_id "[]" 1 demo_ls "''/g''"] v by (simp add: pool_start_def)
  moreover have "pool_step demo_ls ''/g'' 1 ?p1 ?p2"
    using pool_step.work [of ?p1 demo_id Start demo_ls "''/g''" "Finished (Some ENOENT)" ?w 1] demo_job_Start
    by (simp add: pool_start_def)
  moreover have "pool_step demo_ls ''/g'' 1 ?p2 demo_end"
    using pool_step.retire [of ?p2 demo_id "Some ENOENT" demo_ls "''/g''" 1] v
    by (simp add: pool_start_def demo_end_def)
  ultimately show ?thesis by (meson pool_reach.intros)
qed

lemma pool_finishes_witness:
  "(\<nexists>po'. pool_step demo_ls ''/g'' 1 demo_end po') \<and> set (map fst (po_done demo_end)) = {v1ID \<in> {demo_id, ''.''}. validHex v1ID}"
proof -
  have n: "\<nexists>po'. pool_step demo_ls ''/g'' 1 demo_end po'"
    by (auto simp: demo_end_def elim!: pool_step.cases)
  have d: "distinct [demo_id, ''.'']" by (simp add: demo_id_def) code_simp
  from pool_finishes [OF zero_less_one d demo_end_reached] n show ?thesis by (auto simp: demo_end_def)
qed

end
