(* ===== verification/MigrateSafety.thy ===== *)
theory MigrateSafety
  imports MigrateV1 Devicemapper
begin

text \<open>
  What the workers leave on disk.  At every moment of every run of the pool, and so also when the
  program is killed, a layer with a \<open>.migration-diffid\<close> file has a complete one, and with it a
  complete \<open>.migration-size\<close> file; both hold the results of one call of the checksum calculator.
\<close>

declare Join.simps [simp del]

section \<open>Layer files\<close>

definition migration_path :: "string \<Rightarrow> string \<Rightarrow> bool" where
  "migration_path g p \<longleftrightarrow>
     (\<exists>gid. validHex gid \<and> (p = diffIDFile g gid \<or> p = sizeFile g gid \<or> p = tmpFile g gid))"

definition tardata_path :: "string \<Rightarrow> string \<Rightarrow> bool" where
  "tardata_path g p \<longleftrightarrow>
     (\<exists>gid. validHex gid \<and> (p = newTarData g gid \<or> p = layer_file g gid tarDataFileName))"

text \<open>
  Names refer to allocated inodes, layer files are no symbolic links, and the files the migration
  writes are not linked to anything else.
\<close>

definition tidy :: "string \<Rightarrow> fs \<Rightarrow> bool" where
  "tidy g s \<longleftrightarrow>
     (\<forall>p i. map_of (names s) p = Some i \<longrightarrow> i < next_ino s \<and> map_of (nodes s) i \<noteq> None) \<and>
     (\<forall>p t. migration_path g p \<or> tardata_path g p \<longrightarrow> node_at s p \<noteq> Some (Symlink t)) \<and>
     (\<forall>p q i. migration_path g p \<longrightarrow> map_of (names s) p = Some i \<longrightarrow> map_of (names s) q = Some i \<longrightarrow> q = p)"

definition same_at :: "fs \<Rightarrow> fs \<Rightarrow> string \<Rightarrow> bool" where
  "same_at s s' p \<longleftrightarrow> map_of (names s') p = map_of (names s) p \<and> node_at s' p = node_at s p"

lemma same_at_refl [simp]: "same_at s s p"
  by (simp add: same_at_def)

lemma same_at_trans: "same_at s s1 p \<Longrightarrow> same_at s1 s2 p \<Longrightarrow> same_at s s2 p"
  by (simp add: same_at_def)

lemma validHex_plain: "validHex gid \<Longrightarrow> plain gid"
proof -
  assume v: "validHex gid"
  then have "list_all is_lower_hex gid" "length gid = 64" by (auto simp: validHex_def)
  moreover have "\<not> is_lower_hex slash" by code_simp
  ultimately show ?thesis by (auto simp: plain_def list_all_iff)
qed

lemma plain_file_names:
  "plain migrationDiffIDFileName" "plain migrationSizeFileName" "plain (migrationDiffIDFileName @ ''.tmp'')"
  "plain migrationTarDataFileName" "plain tarDataFileName"
  by code_simp+

lemma layer_file_eq:
  assumes "clean_abs g" and "validHex a" and "validHex b" and "plain x" and "plain y"
  shows "layer_file g a x = layer_file g b y \<longleftrightarrow> a = b \<and> x = y"
  using assms validHex_plain [of a] validHex_plain [of b]
  by (simp add: Join3 append_sep_eq plainD)

lemma layer_file_not_below:
  assumes "clean_abs g" and "validHex a" and "validHex b" and "plain x" and "plain y"
  shows "below (layer_file g a x) (layer_file g b y) \<longleftrightarrow> a = b \<and> x = y"
proof -
  have "\<not> prefix (layer_file g a x @ [slash]) (layer_file g b y)"
  proof
    assume "prefix (layer_file g a x @ [slash]) (layer_file g b y)"
    then obtain z where "g @ slash # a @ slash # x @ slash # z = g @ slash # b @ slash # y"
      using assms validHex_plain [of a] validHex_plain [of b] by (auto simp: Join3 prefix_def)
    then have "x @ slash # z = y"
      using assms(2,3) validHex_plain [of a] validHex_plain [of b] append_sep_eq [of slash a b] by (auto simp: plainD)
    with assms(5) show False by (auto simp: plain_def)
  qed
  then show ?thesis using layer_file_eq [OF assms] by (auto simp: below_def)
qed

lemmas file_names_distinct [simp] =
  migrationDiffIDFileName_def migrationSizeFileName_def migrationTarDataFileName_def tarDataFileName_def

lemmas layer_files = diffIDFile_def sizeFile_def tmpFile_def newTarData_def

lemma layer_files_inj:
  assumes "clean_abs g" and "validHex a" and "validHex b"
  shows "sizeFile g a \<noteq> diffIDFile g b" "tmpFile g a \<noteq> diffIDFile g b" "tmpFile g a \<noteq> sizeFile g b"
    "sizeFile g a = sizeFile g b \<longleftrightarrow> a = b" "diffIDFile g a = diffIDFile g b \<longleftrightarrow> a = b" "tmpFile g a = tmpFile g b \<longleftrightarrow> a = b"
  unfolding layer_files
  by (simp_all only: layer_file_eq [OF assms] plain_file_names) simp_all

lemma tardata_not_migration:
  assumes "clean_abs g" and "tardata_path g p"
  shows "\<not> migration_path g p"
  using assms unfolding tardata_path_def migration_path_def layer_files
  by (auto simp only: layer_file_eq plain_file_names) simp_all

lemma migration_not_below:
  assumes "clean_abs g" and "validHex gid" and "migration_path g p"
  shows "\<not> below (newTarData g gid) p"
  using assms unfolding migration_path_def layer_files
  by (auto simp only: layer_file_not_below plain_file_names) simp_all

section \<open>What the file operations keep\<close>

lemma resolve_layer:
  "tidy g s \<Longrightarrow> migration_path g p \<or> tardata_path g p \<Longrightarrow> resolve s p = Inr p"
  unfolding resolve_def resolve_fuel.simps [of 40]
  by (auto simp: tidy_def split: option.splits node.splits)

lemma tidy_private:
  "tidy g s \<Longrightarrow> migration_path g p \<Longrightarrow> map_of (names s) p = Some i \<Longrightarrow> map_of (names s) q = Some i \<Longrightarrow> q = p"
  by (auto simp: tidy_def)

lemma tidy_inode: "tidy g s \<Longrightarrow> map_of (names s) p = Some i \<Longrightarrow> i < next_ino s \<and> map_of (nodes s) i \<noteq> None"
  by (auto simp: tidy_def)

text \<open>Setting the content of a regular file through one of its names.\<close>

lemma set_node_keeps:
  assumes t: "tidy g s" and q: "map_of (names s) q = Some i"
    and s': "names s' = names s" "next_ino s' = next_ino s" "nodes s' = AList.update i (Reg b) (nodes s)"
  shows "tidy g s'" and "\<And>p. migration_path g p \<Longrightarrow> p \<noteq> q \<Longrightarrow> same_at s s' p"
    and "node_at s' q = Some (Reg b)"
proof -
  show "tidy g s'" using t unfolding tidy_def s' by (auto simp: node_at_def s' split: option.splits)
  show "same_at s s' p" if "migration_path g p" "p \<noteq> q" for p
    using tidy_private [OF t that(1)] q that(2) by (auto simp: same_at_def node_at_def s' split: option.splits)
  show "node_at s' q = Some (Reg b)" using q by (simp add: node_at_def s')
qed

lemma new_name_keeps:
  assumes t: "tidy g s" and q: "map_of (names s) q = None" and n: "n = Reg b \<or> n = Dir"
    and s': "names s' = AList.update q (next_ino s) (names s)" "next_ino s' = Suc (next_ino s)"
      "nodes s' = AList.update (next_ino s) n (nodes s)"
  shows "tidy g s'" and "\<And>p. p \<noteq> q \<Longrightarrow> same_at s s' p"
proof -
  have fr: "map_of (names s) p \<noteq> Some (next_ino s)" for p using tidy_inode [OF t, of p] by auto
  show sm: "same_at s s' p" if "p \<noteq> q" for p
    using that fr [of p] by (auto simp: same_at_def node_at_def s' split: option.splits)
  have "node_at s' p \<noteq> Some (Symlink t)" if "migration_path g p \<or> tardata_path g p" for p t
    using that sm [of p] t n by (cases "p = q") (auto simp: tidy_def same_at_def node_at_def s')
  moreover have "i < next_ino s' \<and> map_of (nodes s') i \<noteq> None" if "map_of (names s') p = Some i" for p i
    using that tidy_inode [OF t, of p i] by (auto simp: s' split: if_splits)
  moreover have "y = x" if "migration_path g x" "map_of (names s') x = Some i" "map_of (names s') y = Some i" for x y i
    using that(2,3) fr [of x] fr [of y] tidy_private [OF t that(1), of i y] by (auto simp: s' split: if_splits)
  ultimately show "tidy g s'" unfolding tidy_def by blast
qed

lemma os_Create_cases:
  "os_Create q s = (r, s') \<Longrightarrow> resolve s q = Inr q \<Longrightarrow>
     (\<exists>e. r = Inl e \<and> s' = s) \<or> (\<exists>i. r = Inr i \<and> map_of (names s) q = Some i \<and> s' = emit (EvTrunc i) s) \<or>
     (r = Inr (next_ino s) \<and> map_of (names s) q = None \<and> s' = emit (EvCreate q (next_ino s)) s)"
  by (auto simp: os_Create_def split: option.splits node.splits if_splits)

lemma os_Link_cases:
  "os_Link a b s = (r, s') \<Longrightarrow> s' = s \<or> (\<exists>i. map_of (names s) a = Some i \<and> s' = emit (EvLink i b) s)"
  by (auto simp: os_Link_def split: option.splits if_splits)

lemma os_Rename_cases:
  "os_Rename a b s = (r, s') \<Longrightarrow> map_of (names s) a = Some i \<Longrightarrow>
     (\<exists>e. r = Inl e \<and> s' = s) \<or> map_of (names s) b = Some i \<or> is_dir_at s a \<or> (r = Inr () \<and> s' = emit (EvRename a b) s)"
  by (auto simp: os_Rename_def split: if_splits option.splits)

lemma Create_keeps:
  assumes t: "tidy g s" and q: "migration_path g q \<or> tardata_path g q" and c: "os_Create q s = (r, s')"
  shows "tidy g s'" and "\<And>p. migration_path g p \<Longrightarrow> p \<noteq> q \<Longrightarrow> same_at s s' p" and "faults s' = faults s"
    and "\<And>i. r = Inr i \<Longrightarrow> map_of (names s') q = Some i"
proof -
  consider (err) e where "r = Inl e" "s' = s"
    | (trunc) i where "r = Inr i" "map_of (names s) q = Some i" "s' = emit (EvTrunc i) s"
    | (new) "r = Inr (next_ino s)" "map_of (names s) q = None" "s' = emit (EvCreate q (next_ino s)) s"
    using os_Create_cases [OF c resolve_layer [OF t q]] by metis
  then have "tidy g s' \<and> (\<forall>p. migration_path g p \<longrightarrow> p \<noteq> q \<longrightarrow> same_at s s' p) \<and> faults s' = faults s \<and>
      (\<forall>i. r = Inr i \<longrightarrow> map_of (names s') q = Some i)"
  proof cases
    case err
    with t show ?thesis by simp
  next
    case trunc
    have "tidy g s'" "\<And>p. migration_path g p \<Longrightarrow> p \<noteq> q \<Longrightarrow> same_at s s' p"
      using set_node_keeps(1,2) [OF t trunc(2), of s' "Raw []"] trunc(3) by simp_all
    with trunc show ?thesis by simp
  next
    case new
    have "tidy g s'" "\<And>p. p \<noteq> q \<Longrightarrow> same_at s s' p"
      using new_name_keeps [OF t new(2), of "Reg (Raw [])" "Raw []" s'] new(3) by simp_all
    with new show ?thesis by simp
  qed
  then show "tidy g s'" "\<And>p. migration_path g p \<Longrightarrow> p \<noteq> q \<Longrightarrow> same_at s s' p" "faults s' = faults s"
    "\<And>i. r = Inr i \<Longrightarrow> map_of (names s') q = Some i" by auto
qed

lemma write_keeps:
  assumes t: "tidy g s" and q: "map_of (names s) q = Some i" and c: "write_ino p0 i b s = (r, s')"
  shows "tidy g s'" and "\<And>p. migration_path g p \<Longrightarrow> p \<noteq> q \<Longrightarrow> same_at s s' p" and "faults s' = faults s"
    and "map_of (names s') = map_of (names s)" and "r = Inr u \<Longrightarrow> node_at s' q = Some (Reg b)"
proof -
  consider (err) e where "r = Inl e" "s' = s" | (ok) "r = Inr ()" "s' = emit (EvWrite i b) s"
    using c by (auto simp: write_ino_def split: option.splits)
  then have "tidy g s' \<and> (\<forall>p. migration_path g p \<longrightarrow> p \<noteq> q \<longrightarrow> same_at s s' p) \<and> faults s' = faults s \<and>
      map_of (names s') = map_of (names s) \<and> (r = Inr () \<longrightarrow> node_at s' q = Some (Reg b))"
  proof cases
    case err
    with t show ?thesis by simp
  next
    case ok
    then show ?thesis using set_node_keeps [OF t q, of s' b] by simp
  qed
  then show "tidy g s'" "\<And>p. migration_path g p \<Longrightarrow> p \<noteq> q \<Longrightarrow> same_at s s' p" "faults s' = faults s"
    "map_of (names s') = map_of (names s)" "r = Inr u \<Longrightarrow> node_at s' q = Some (Reg b)" by auto
qed

lemma RemoveAll_keeps:
  assumes t: "tidy g s" and q: "\<And>p. migration_path g p \<Longrightarrow> \<not> below q p" and c: "os_RemoveAll q s = (r, s')"
  shows "tidy g s'" and "\<And>p. migration_path g p \<Longrightarrow> same_at s s' p" and "faults s' = faults s"
proof -
  have n: "map_of (names s') p = (if r = Inr () \<and> below q p then None else map_of (names s) p)" for p
    using c map_of_filter_key [of "\<lambda>x. \<not> below q x" "names s" p]
    by (auto simp: os_RemoveAll_def split: option.splits)
  have o: "nodes s' = nodes s" "next_ino s' = next_ino s" "faults s' = faults s"
    using c by (auto simp: os_RemoveAll_def split: option.splits)
  show "tidy g s'" using t unfolding tidy_def o n by (auto simp: node_at_def n o split: if_splits option.splits)
  show "same_at s s' p" if "migration_path g p" for p using q [OF that] by (auto simp: same_at_def node_at_def n o split: option.split)
  show "faults s' = faults s" by (rule o)
qed

lemma Link_keeps:
  assumes t: "tidy g s" and ca: "clean_abs g" and a: "tardata_path g a" and b: "tardata_path g b"
    and c: "os_Link a b s = (r, s')"
  shows "tidy g s'" and "\<And>p. migration_path g p \<Longrightarrow> same_at s s' p" and "faults s' = faults s"
proof -
  consider (err) "s' = s" | (ok) i where "map_of (names s) a = Some i" "s' = emit (EvLink i b) s"
    using os_Link_cases [OF c] by blast
  then have "tidy g s' \<and> (\<forall>p. migration_path g p \<longrightarrow> same_at s s' p) \<and> faults s' = faults s"
  proof cases
    case err
    with t show ?thesis by simp
  next
    case ok
    note na = tardata_not_migration [OF ca a] and nb = tardata_not_migration [OF ca b]
    have n: "map_of (names s') = (map_of (names s))(b \<mapsto> i)" "nodes s' = nodes s" "next_ino s' = next_ino s"
      using ok by simp_all
    have "migration_path g p \<Longrightarrow> same_at s s' p" for p using nb by (auto simp: same_at_def node_at_def n split: option.split)
    moreover have "node_at s' p \<noteq> Some (Symlink x)" if "migration_path g p \<or> tardata_path g p" for p x
    proof (cases "p = b")
      case True
      then have "node_at s' p = node_at s a" using ok(1) by (simp add: node_at_def n)
      with t a show ?thesis by (auto simp: tidy_def)
    next
      case False
      then have "node_at s' p = node_at s p" by (simp add: node_at_def n split: option.split)
      with t that show ?thesis by (auto simp: tidy_def)
    qed
    moreover have "y = x" if "migration_path g x" "map_of (names s') x = Some k" "map_of (names s') y = Some k" for x y k
      using that tidy_private [OF t that(1), of k y] tidy_private [OF t that(1), of k a] ok(1) na nb
      by (auto simp: n split: if_splits)
    moreover have "k < next_ino s' \<and> map_of (nodes s') k \<noteq> None" if "map_of (names s') p = Some k" for p k
      using that tidy_inode [OF t] ok(1) by (auto simp: n split: if_splits)
    ultimately show ?thesis using ok unfolding tidy_def by auto
  qed
  then show "tidy g s'" "\<And>p. migration_path g p \<Longrightarrow> same_at s s' p" "faults s' = faults s" by auto
qed

text \<open>Publishing: the temporary file gets the name of the diffid file.\<close>

lemma Rename_keeps:
  assumes t: "tidy g s" and a: "migration_path g a" and b: "migration_path g b" and ab: "a \<noteq> b"
    and n: "node_at s a = Some (Reg x)" and c: "os_Rename a b s = (r, s')"
  shows "tidy g s'" and "\<And>p. migration_path g p \<Longrightarrow> p \<noteq> a \<Longrightarrow> p \<noteq> b \<Longrightarrow> same_at s s' p" and "faults s' = faults s"
    and "r = Inr u \<Longrightarrow> node_at s' b = Some (Reg x)" and "r = Inl e \<Longrightarrow> s' = s"
proof -
  obtain i where i: "map_of (names s) a = Some i" "map_of (nodes s) i = Some (Reg x)"
    using n by (auto simp: node_at_def split: option.splits)
  have "map_of (names s) b \<noteq> Some i" using tidy_private [OF t a i(1), of b] ab by auto
  then consider (err) e where "r = Inl e" "s' = s" | (ok) "r = Inr ()" "s' = emit (EvRename a b) s"
    using os_Rename_cases [OF c i(1)] n by (auto simp: is_dir_at_def)
  then have "tidy g s' \<and> (\<forall>p. migration_path g p \<longrightarrow> p \<noteq> a \<longrightarrow> p \<noteq> b \<longrightarrow> same_at s s' p) \<and> faults s' = faults s \<and>
      (r = Inr () \<longrightarrow> node_at s' b = Some (Reg x)) \<and> (\<forall>e. r = Inl e \<longrightarrow> s' = s)"
  proof cases
    case err
    with t show ?thesis by simp
  next
    case ok
    have m: "map_of (names s') = (map_of (names s))(a := None, b \<mapsto> i)" "nodes s' = nodes s" "next_ino s' = next_ino s"
      using ok i by simp_all
    have "node_at s' p \<noteq> Some (Symlink y)" if "migration_path g p \<or> tardata_path g p" for p y
      using t that i by (auto simp: tidy_def node_at_def m split: if_splits option.splits)
    moreover have "z = y" if "migration_path g y" "map_of (names s') y = Some k" "map_of (names s') z = Some k" for y z k
      using that(2,3)
      by (cases "y = b"; cases "z = b")
        (auto simp: m split: if_splits dest: tidy_private [OF t that(1)], (metis tidy_private [OF t a i(1)])+)
    moreover have "k < next_ino s' \<and> map_of (nodes s') k \<noteq> None" if "map_of (names s') p = Some k" for p k
      using that tidy_inode [OF t] i by (auto simp: m split: if_splits)
    ultimately have "tidy g s'" unfolding tidy_def by blast
    moreover have "faults s' = faults s" using ok(2) by simp
    ultimately show ?thesis using ok(1) i ab by (auto simp: same_at_def node_at_def m split: option.split)
  qed
  then show "tidy g s'" "\<And>p. migration_path g p \<Longrightarrow> p \<noteq> a \<Longrightarrow> p \<noteq> b \<Longrightarrow> same_at s s' p" "faults s' = faults s"
    "r = Inr u \<Longrightarrow> node_at s' b = Some (Reg x)" "r = Inl e \<Longrightarrow> s' = s" by auto
qed

section \<open>The contract of a checksum calculator\<close>

definition computed :: "checksumCalculator \<Rightarrow> string \<Rightarrow> string \<Rightarrow> digest \<Rightarrow> int \<Rightarrow> bool" where
  "computed ls g gid d n \<longleftrightarrow>
     (\<exists>parent w0 w1 sz. ls gid parent (layer_file g gid tarDataFileName) (newTarData g gid) w0 = Ret (Inr (d, sz), w1) \<and>
        n = sint sz)"

text \<open>
  What a call may do to the world: the directory stays tidy, the files of the migration stay as they are, and so does \<open>ok\<close>,
  what the storage driver relies on.
\<close>

definition preserves :: "string \<Rightarrow> (world \<Rightarrow> bool) \<Rightarrow> world \<Rightarrow> world \<Rightarrow> bool" where
  "preserves g ok w w' \<longleftrightarrow>
     tidy g (wfs w') \<and> ok w' \<and> (\<forall>p. migration_path g p \<longrightarrow> same_at (wfs w) (wfs w') p) \<and> faults (wfs w') = faults (wfs w)"

lemma preserves_refl: "tidy g (wfs w) \<Longrightarrow> ok w \<Longrightarrow> preserves g ok w w"
  by (simp add: preserves_def)

lemma preserves_trans: "preserves g ok w w1 \<Longrightarrow> preserves g ok w1 w2 \<Longrightarrow> preserves g ok w w2"
  unfolding preserves_def by (metis same_at_trans)

lemma preservesD: "preserves g ok w w' \<Longrightarrow> tidy g (wfs w')" "preserves g ok w w' \<Longrightarrow> ok w'"
  by (simp_all add: preserves_def)

text \<open>
  A calculator leaves the files of the migration alone; \<open>good\<close> holds of its results, and of what is published for other
  reasons.
\<close>

locale checksum_calculator =
  fixes ls :: checksumCalculator and g :: string and ok :: "world \<Rightarrow> bool" and good :: "string \<Rightarrow> digest \<Rightarrow> int \<Rightarrow> bool"
  assumes clean_dir: "clean_abs g"
    and ok_wfs: "ok (w\<lparr>wfs := s\<rparr>) = ok w"
    and ls_good: "computed ls g gid d n \<Longrightarrow> good gid d n"
    and ls_keeps: "validHex gid \<Longrightarrow> tidy g (wfs w) \<Longrightarrow> ok w \<Longrightarrow>
      ls gid parent (layer_file g gid tarDataFileName) (newTarData g gid) w = Ret (r, w') \<Longrightarrow> preserves g ok w w'"

text \<open>A published layer is complete.\<close>

definition complete :: "(string \<Rightarrow> digest \<Rightarrow> int \<Rightarrow> bool) \<Rightarrow> string \<Rightarrow> string \<Rightarrow> fs \<Rightarrow> bool" where
  "complete good g gid s \<longleftrightarrow>
     (node_at s (diffIDFile g gid) \<noteq> None \<longrightarrow>
        (\<exists>d n. node_at s (diffIDFile g gid) = Some (Reg (Raw d)) \<and>
               node_at s (sizeFile g gid) = Some (Reg (Raw (Itoa n))) \<and> good gid d n))"

fun job_inv :: "(string \<Rightarrow> digest \<Rightarrow> int \<Rightarrow> bool) \<Rightarrow> string \<Rightarrow> string \<Rightarrow> fs \<Rightarrow> job \<Rightarrow> bool" where
  "job_inv good g gid s Start \<longleftrightarrow> True"
| "job_inv good g gid s (Checksum parent) \<longleftrightarrow> node_at s (diffIDFile g gid) = None"
| "job_inv good g gid s (SizeOpen d sz) \<longleftrightarrow> node_at s (diffIDFile g gid) = None \<and> good gid d (sint sz)"
| "job_inv good g gid s (SizeWrite d sz f) \<longleftrightarrow>
     node_at s (diffIDFile g gid) = None \<and> good gid d (sint sz) \<and> map_of (names s) (sizeFile g gid) = Some f"
| "job_inv good g gid s (TmpOpen d) \<longleftrightarrow>
     node_at s (diffIDFile g gid) = None \<and>
     (\<exists>n. good gid d n \<and> node_at s (sizeFile g gid) = Some (Reg (Raw (Itoa n))))"
| "job_inv good g gid s (TmpWrite d f) \<longleftrightarrow>
     node_at s (diffIDFile g gid) = None \<and>
     (\<exists>n. good gid d n \<and> node_at s (sizeFile g gid) = Some (Reg (Raw (Itoa n)))) \<and>
     map_of (names s) (tmpFile g gid) = Some f"
| "job_inv good g gid s (Publish d) \<longleftrightarrow>
     node_at s (diffIDFile g gid) = None \<and>
     (\<exists>n. good gid d n \<and> node_at s (sizeFile g gid) = Some (Reg (Raw (Itoa n)))) \<and>
     node_at s (tmpFile g gid) = Some (Reg (Raw d))"
| "job_inv good g gid s (Finished r) \<longleftrightarrow> (r = None \<longrightarrow> node_at s (diffIDFile g gid) \<noteq> None)"

text \<open>The three files of one layer decide about its job.\<close>

definition own_files :: "string \<Rightarrow> string \<Rightarrow> string set" where
  "own_files g gid = {diffIDFile g gid, sizeFile g gid, tmpFile g gid}"

lemma own_migration: "validHex gid \<Longrightarrow> p \<in> own_files g gid \<Longrightarrow> migration_path g p"
  by (auto simp: own_files_def migration_path_def)

lemma own_disjoint:
  assumes "clean_abs g" "validHex a" "validHex b" "a \<noteq> b" "p \<in> own_files g a"
  shows "p \<notin> own_files g b"
  using assms layer_files_inj [OF assms(1,2,3)] layer_files_inj [OF assms(1,3,2)] by (auto simp: own_files_def)

lemma job_inv_same:
  "job_inv good g gid s j \<Longrightarrow> \<forall>p \<in> own_files g gid. same_at s s' p \<Longrightarrow> job_inv good g gid s' j"
  by (cases j) (auto simp: same_at_def own_files_def)

lemma complete_same:
  "complete good g gid s \<Longrightarrow> \<forall>p \<in> own_files g gid. same_at s s' p \<Longrightarrow> complete good g gid s'"
  by (auto simp: complete_def same_at_def own_files_def)

definition no_false_ENOENT :: "fs \<Rightarrow> bool" where
  "no_false_ENOENT s \<longleftrightarrow> (\<forall>p. faults s OpLstat p \<noteq> Some ENOENT)"

text \<open>What one step of a job guarantees.\<close>

definition step_ok :: "(string \<Rightarrow> digest \<Rightarrow> int \<Rightarrow> bool) \<Rightarrow> string \<Rightarrow> string \<Rightarrow> fs \<Rightarrow> job \<Rightarrow> fs \<Rightarrow> bool" where
  "step_ok good g gid s j' s' \<longleftrightarrow>
     tidy g s' \<and> faults s' = faults s \<and> job_inv good g gid s' j' \<and> complete good g gid s' \<and>
     (\<forall>p. migration_path g p \<longrightarrow> p \<notin> own_files g gid \<longrightarrow> same_at s s' p)"

context checksum_calculator
begin

lemma unpublished_complete: "node_at s (diffIDFile g gid) = None \<Longrightarrow> complete good g gid s"
  by (simp add: complete_def)

lemma own_paths:
  assumes "validHex gid"
  shows "migration_path g (diffIDFile g gid)" "migration_path g (sizeFile g gid)" "migration_path g (tmpFile g gid)"
    "sizeFile g gid \<noteq> diffIDFile g gid" "tmpFile g gid \<noteq> diffIDFile g gid" "tmpFile g gid \<noteq> sizeFile g gid"
  using assms layer_files_inj [OF clean_dir assms assms] by (auto simp: migration_path_def)

lemma Start_ok:
  assumes "validHex gid" "tidy g (wfs w)" "no_false_ENOENT (wfs w)" "complete good g gid (wfs w)"
    and "job_step ls g gid Start w = Ret (j', w')"
  shows "step_ok good g gid (wfs w) j' (wfs w')"
proof -
  have "w' = w" and "job_inv good g gid (wfs w) j'"
    using assms(3,5)
    by (auto simp: os_Lstat_def no_false_ENOENT_def os_IsNotExist_def simp del: bind_outcome_eq_Ret elim!: bind_outcomeE
        split: option.splits if_splits sum.splits)
  with assms show ?thesis by (simp add: step_ok_def)
qed

lemma Checksum_ok:
  assumes v: "validHex gid" and t: "tidy g (wfs w)" and i: "ok w" and j: "job_inv good g gid (wfs w) (Checksum parent)"
    and st: "job_step ls g gid (Checksum parent) w = Ret (j', w')"
  shows "step_ok good g gid (wfs w) j' (wfs w')"
proof -
  from st obtain r where r: "ls gid parent (layer_file g gid tarDataFileName) (newTarData g gid) w = Ret (r, w')"
    and j': "j' = (case r of Inl e \<Rightarrow> Finished (Some e) | Inr (diffID, sz) \<Rightarrow> SizeOpen diffID sz)" by auto
  note k = ls_keeps [OF v t i r, unfolded preserves_def]
  have d: "node_at (wfs w') (diffIDFile g gid) = None"
    using k j own_paths(1) [OF v] by (auto simp: same_at_def)
  have "job_inv good g gid (wfs w') j'"
    using d r ls_good by (fastforce simp: j' computed_def split: sum.split)
  with k d show ?thesis by (auto simp: step_ok_def unpublished_complete)
qed

lemma SizeOpen_ok:
  assumes v: "validHex gid" and t: "tidy g (wfs w)" and j: "job_inv good g gid (wfs w) (SizeOpen d sz)"
    and st: "job_step ls g gid (SizeOpen d sz) w = Ret (j', w')"
  shows "step_ok good g gid (wfs w) j' (wfs w')"
proof -
  obtain r s' where c: "os_Create (sizeFile g gid) (wfs w) = (r, s')" by fastforce
  note o = own_paths [OF v]
  note k = Create_keeps [OF t disjI1 [OF o(2)] c]
  have n: "node_at s' (diffIDFile g gid) = None" using k(2) [OF o(1)] o(4) j by (simp add: same_at_def)
  with st c j k n show ?thesis
    by (auto simp: step_ok_def own_files_def unpublished_complete split: sum.split)
qed

lemma SizeWrite_ok:
  assumes v: "validHex gid" and t: "tidy g (wfs w)" and j: "job_inv good g gid (wfs w) (SizeWrite d sz f)"
    and st: "job_step ls g gid (SizeWrite d sz f) w = Ret (j', w')"
  shows "step_ok good g gid (wfs w) j' (wfs w')"
proof -
  obtain r s' where c: "write_ino (sizeFile g gid) f (Raw (Itoa (sint sz))) (wfs w) = (r, s')" by fastforce
  note o = own_paths [OF v]
  from j have "map_of (names (wfs w)) (sizeFile g gid) = Some f" by simp
  note k = write_keeps [OF t this c]
  have n: "node_at s' (diffIDFile g gid) = None" using k(2) [OF o(1)] o(4) j by (simp add: same_at_def)
  with st c j k n show ?thesis
    by (auto simp: step_ok_def own_files_def unpublished_complete split: sum.split)
qed

lemma TmpOpen_ok:
  assumes v: "validHex gid" and t: "tidy g (wfs w)" and j: "job_inv good g gid (wfs w) (TmpOpen d)"
    and st: "job_step ls g gid (TmpOpen d) w = Ret (j', w')"
  shows "step_ok good g gid (wfs w) j' (wfs w')"
proof -
  obtain r s' where c: "os_Create (tmpFile g gid) (wfs w) = (r, s')" by fastforce
  note o = own_paths [OF v]
  note k = Create_keeps [OF t disjI1 [OF o(3)] c]
  have "same_at (wfs w) s' (diffIDFile g gid)" "same_at (wfs w) s' (sizeFile g gid)"
    using k(2) [OF o(1)] k(2) [OF o(2)] o(5,6) by auto
  with st c j k show ?thesis
    by (auto simp: step_ok_def own_files_def unpublished_complete same_at_def split: sum.split)
qed

lemma TmpWrite_ok:
  assumes v: "validHex gid" and t: "tidy g (wfs w)" and j: "job_inv good g gid (wfs w) (TmpWrite d f)"
    and st: "job_step ls g gid (TmpWrite d f) w = Ret (j', w')"
  shows "step_ok good g gid (wfs w) j' (wfs w')"
proof -
  obtain r s' where c: "write_ino (tmpFile g gid) f (Raw d) (wfs w) = (r, s')" by fastforce
  note o = own_paths [OF v]
  from j have "map_of (names (wfs w)) (tmpFile g gid) = Some f" by simp
  note k = write_keeps [OF t this c]
  have "same_at (wfs w) s' (diffIDFile g gid)" "same_at (wfs w) s' (sizeFile g gid)"
    using k(2) [OF o(1)] k(2) [OF o(2)] o(5,6) by auto
  with st c j k show ?thesis
    by (auto simp: step_ok_def own_files_def unpublished_complete same_at_def split: sum.split)
qed

lemma Publish_ok:
  assumes v: "validHex gid" and t: "tidy g (wfs w)" and j: "job_inv good g gid (wfs w) (Publish d)"
    and st: "job_step ls g gid (Publish d) w = Ret (j', w')"
  shows "step_ok good g gid (wfs w) j' (wfs w')"
proof -
  obtain r s' where c: "os_Rename (tmpFile g gid) (diffIDFile g gid) (wfs w) = (r, s')" by fastforce
  note o = own_paths [OF v]
  from j have n: "node_at (wfs w) (tmpFile g gid) = Some (Reg (Raw d))" by simp
  note k = Rename_keeps [OF t o(3) o(1) o(5) n c]
  have sz: "same_at (wfs w) s' (sizeFile g gid)" using k(2) [OF o(2)] o(4,6) by auto
  have "complete good g gid s'"
  proof (cases r)
    case (Inl e)
    with k(5) j show ?thesis by (simp add: unpublished_complete)
  next
    case (Inr u)
    with k(4) j sz show ?thesis by (auto simp: complete_def same_at_def)
  qed
  with st c k show ?thesis by (cases r) (auto simp: step_ok_def own_files_def)
qed

lemma job_step_ok:
  assumes "validHex gid" "tidy g (wfs w)" "no_false_ENOENT (wfs w)" "complete good g gid (wfs w)"
    and "job_inv good g gid (wfs w) j" and "job_step ls g gid j w = Ret (j', w')" and "ok w"
  shows "step_ok good g gid (wfs w) j' (wfs w')"
proof (cases j)
  case Start
  then show ?thesis using Start_ok [OF assms(1-4)] assms(6) by simp
next
  case (Checksum parent)
  then show ?thesis using Checksum_ok [OF assms(1,2,7)] assms(5,6) by blast
next
  case (SizeOpen d sz)
  then show ?thesis using SizeOpen_ok [OF assms(1,2)] assms(5,6) by blast
next
  case (SizeWrite d sz f)
  then show ?thesis using SizeWrite_ok [OF assms(1,2)] assms(5,6) by blast
next
  case (TmpOpen d)
  then show ?thesis using TmpOpen_ok [OF assms(1,2)] assms(5,6) by blast
next
  case (TmpWrite d f)
  then show ?thesis using TmpWrite_ok [OF assms(1,2)] assms(5,6) by blast
next
  case (Publish d)
  then show ?thesis using Publish_ok [OF assms(1,2)] assms(5,6) by blast
next
  case (Finished r)
  with assms show ?thesis by (auto simp: step_ok_def)
qed

lemma job_step_world_ok:
  assumes "validHex gid" "tidy g (wfs w)" "ok w" and "job_step ls g gid j w = Ret (j', w')"
  shows "ok w'"
  using assms ok_wfs ls_keeps [OF assms(1-3)]
  by (cases j) (fastforce simp: preserves_def simp del: bind_outcome_eq_Ret elim!: bind_outcomeE split: prod.splits sum.splits if_splits)+

text \<open>The invariant of the whole pool.\<close>

definition pool_ok :: "pool \<Rightarrow> bool" where
  "pool_ok po \<longleftrightarrow>
     tidy g (wfs (po_world po)) \<and> ok (po_world po) \<and> no_false_ENOENT (wfs (po_world po)) \<and>
     (\<forall>gid. validHex gid \<longrightarrow> complete good g gid (wfs (po_world po))) \<and>
     (\<forall>gid j. map_of (po_running po) gid = Some j \<longrightarrow> validHex gid \<and> job_inv good g gid (wfs (po_world po)) j) \<and>
     (\<forall>gid r. (gid, r) \<in> set (po_done po) \<longrightarrow> validHex gid \<and> job_inv good g gid (wfs (po_world po)) (Finished r)) \<and>
     (\<forall>gid \<in> set (po_queue po). validHex gid) \<and> distinct (pool_ids po)"

lemma pool_work_ok:
  assumes ok: "pool_ok po" and run: "map_of (po_running po) gid = Some j"
    and st: "job_step ls g gid j (po_world po) = Ret (j', w')"
  shows "pool_ok (po\<lparr>po_running := AList.update gid j' (po_running po), po_world := w'\<rparr>)"
proof -
  let ?s = "wfs (po_world po)" and ?s' = "wfs w'"
  from ok run have v: "validHex gid" and j: "job_inv good g gid ?s j"
    and t: "tidy g ?s" "no_false_ENOENT ?s" "complete good g gid ?s" and i: "ok (po_world po)" by (auto simp: pool_ok_def)
  note so = job_step_ok [OF v t j st i] and io = job_step_world_ok [OF v t(1) i st]
  have other: "\<forall>p \<in> own_files g b. same_at ?s ?s' p" if "validHex b" "b \<noteq> gid" for b
    using so own_disjoint [OF clean_dir that(1) v that(2)] own_migration [OF that(1)]
    by (auto simp: step_ok_def)
  have "complete good g b ?s'" if "validHex b" for b
    using so ok that complete_same [OF _ other] by (cases "b = gid") (auto simp: step_ok_def pool_ok_def)
  moreover have "validHex b \<and> job_inv good g b ?s' k"
    if "map_of (AList.update gid j' (po_running po)) b = Some k" for b k
    using so ok that v job_inv_same [OF _ other] by (cases "b = gid") (auto simp: step_ok_def pool_ok_def)
  moreover have "validHex b \<and> job_inv good g b ?s' (Finished r)" if "(b, r) \<in> set (po_done po)" for b r
  proof -
    from run have "gid \<in> set (map fst (po_running po))" by (auto dest: map_of_SomeD intro: rev_image_eqI)
    moreover have "b \<in> set (map fst (po_done po))" using that by (auto intro: rev_image_eqI)
    ultimately have "b \<noteq> gid" using ok by (auto simp: pool_ok_def pool_ids_def)
    with ok that show ?thesis using job_inv_same [of good g b ?s "Finished r" ?s'] other [of b] by (auto simp: pool_ok_def simp del: job_inv.simps)
  qed
  ultimately show ?thesis
    using so io ok run by (simp add: pool_ok_def step_ok_def no_false_ENOENT_def pool_ids_def keys_update)
qed

lemma pool_step_ok: "pool_step ls g workers po po' \<Longrightarrow> pool_ok po \<Longrightarrow> pool_ok po'"
proof -
  assume st: "pool_step ls g workers po po'" and ok: "pool_ok po"
  then have d: "distinct (pool_ids po')" using pool_ids_step by (auto simp: pool_ok_def)
  from st show ?thesis
  proof (cases rule: pool_step.cases)
    case (take gid q)
    with ok d show ?thesis by (auto simp: pool_ok_def)
  next
    case (work gid j j' w')
    with ok show ?thesis using pool_work_ok by blast
  next
    case (retire gid r)
    from ok retire(2) have "validHex gid \<and> job_inv good g gid (wfs (po_world po)) (Finished r)"
      by (auto simp: pool_ok_def simp del: job_inv.simps)
    with ok d retire(1) show ?thesis by (auto simp: pool_ok_def simp del: job_inv.simps split: if_splits)
  qed
qed

lemma pool_reach_ok: "pool_reach ls g workers po po' \<Longrightarrow> pool_ok po \<Longrightarrow> pool_ok po'"
  by (induction rule: pool_reach.induct) (auto dest: pool_step_ok)

lemma pool_start_ok:
  "tidy g (wfs w) \<Longrightarrow> ok w \<Longrightarrow> no_false_ENOENT (wfs w) \<Longrightarrow> \<forall>gid. validHex gid \<longrightarrow> complete good g gid (wfs w) \<Longrightarrow>
     distinct dir \<Longrightarrow> pool_ok (pool_start mappings dir w)"
  using pool_ids_start [of dir mappings w]
  by (auto simp: pool_ok_def pool_start_def work_ids_def ValidateID_def split: if_splits)

end

section \<open>The checksum calculator of the migrator preserves the contract\<close>

definition careful :: "string \<Rightarrow> (world \<Rightarrow> bool) \<Rightarrow> release \<Rightarrow> bool" where
  "careful g ok rel \<longleftrightarrow> (\<forall>w w'. tidy g (wfs w) \<longrightarrow> ok w \<longrightarrow> rel w = Ret w' \<longrightarrow> preserves g ok w w')"

lemma carefulD: "careful g ok rel \<Longrightarrow> preserves g ok w w1 \<Longrightarrow> rel w1 = Ret w2 \<Longrightarrow> preserves g ok w w2"
  unfolding careful_def by (meson preservesD preserves_trans)

text \<open>
  What a storage driver promises the migration: mounting, archiving and what they hand out to be run later leave the
  directory of the layers alone.
\<close>

locale careful_driver =
  fixes g :: string and ok :: "world \<Rightarrow> bool" and drv :: mounter
  assumes ok_wfs: "ok (w\<lparr>wfs := s\<rparr>) = ok w"
    and mnt_keeps: "tidy g (wfs w) \<Longrightarrow> ok w \<Longrightarrow> Mount drv gid w = (r, w') \<Longrightarrow>
      preserves g ok w w' \<and> (\<forall>path rel. r = Inr (path, Some rel) \<longrightarrow> careful g ok rel)"
    and ts_keeps: "tidy g (wfs w) \<Longrightarrow> ok w \<Longrightarrow> TarStream drv gid parent w = Ret (r', w') \<Longrightarrow>
      preserves g ok w w' \<and> (\<forall>st close. r' = Inr (st, close) \<longrightarrow> careful g ok close)"
begin

lemma assemble_keeps:
  assumes "tidy g (wfs w)" "ok w" "assembleTarTo drv gid u sz d w = Ret (x, w')"
  shows "preserves g ok w w'"
proof -
  obtain m w1 where m: "Mount drv gid w = (m, w1)" by fastforce
  note k = mnt_keeps [OF assms(1,2) m]
  show ?thesis
  proof (cases m)
    case (Inl e)
    with assms(3) m k show ?thesis by (simp add: assembleTarTo_def)
  next
    case (Inr pr)
    obtain path rel where pr: "pr = (path, rel)" by fastforce
    show ?thesis
    proof (cases rel)
      case None
      with assms(3) m k Inr pr show ?thesis by (auto simp: assembleTarTo_def split: option.splits)
    next
      case (Some r)
      with assms(3) m Inr pr have "r w1 = Ret w'" by (auto simp: assembleTarTo_def split: option.splits)
      with k Some Inr pr show ?thesis by (auto intro: carefulD)
    qed
  qed
qed

lemma fs_keeps:
  assumes "ok w" and "tidy g s'" and "\<And>p. migration_path g p \<Longrightarrow> same_at (wfs w) s' p" and "faults s' = faults (wfs w)"
  shows "preserves g ok w (w\<lparr>wfs := s'\<rparr>)"
  using assms ok_wfs by (simp add: preserves_def)

lemma relink_keeps:
  assumes ca: "clean_abs g" and v: "validHex gid" and t: "tidy g (wfs w)" and i: "ok w"
    and r1: "os_RemoveAll (newTarData g gid) (wfs w) = (x1, s1)"
    and r2: "os_Link (layer_file g gid tarDataFileName) (newTarData g gid) s1 = (x2, s2)"
  shows "preserves g ok w (w\<lparr>wfs := s2\<rparr>)"
proof -
  have td: "tardata_path g (layer_file g gid tarDataFileName)" "tardata_path g (newTarData g gid)"
    using v by (auto simp: tardata_path_def)
  note k1 = RemoveAll_keeps [OF t migration_not_below [OF ca v] r1]
  note k2 = Link_keeps [OF k1(1) ca td r2]
  show ?thesis using k1 k2 by (intro fs_keeps [OF i]) (auto intro: same_at_trans)
qed

lemma tarsplit_keeps:
  assumes ca: "clean_abs g" and v: "validHex gid" and t: "tidy g (wfs w)" and i: "ok w"
    and c: "checksum_tarsplit drv gid (layer_file g gid tarDataFileName) (newTarData g gid) w = Ret (r, w')"
  shows "preserves g ok w w'"
proof -
  have "w' = w \<or> (\<exists>u sz d x w1. assembleTarTo drv gid u sz d w = Ret (x, w1) \<and> (w' = w1 \<or>
      (\<exists>x1 s1 x2 s2. os_RemoveAll (newTarData g gid) (wfs w1) = (x1, s1) \<and>
         os_Link (layer_file g gid tarDataFileName) (newTarData g gid) s1 = (x2, s2) \<and> w' = w1\<lparr>wfs := s2\<rparr>)))"
    using c by (auto simp: checksum_tarsplit_def Let_def simp del: bind_outcome_eq_Ret elim!: bind_outcomeE
        split: if_splits sum.splits option.splits prod.splits) blast+
  moreover have "preserves g ok w (w1\<lparr>wfs := s2\<rparr>)"
    if "assembleTarTo drv gid u sz d w = Ret (x, w1)" "os_RemoveAll (newTarData g gid) (wfs w1) = (x1, s1)"
      "os_Link (layer_file g gid tarDataFileName) (newTarData g gid) s1 = (x2, s2)" for u sz d x w1 x1 s1 x2 s2
  proof -
    note k = assemble_keeps [OF t i that(1)]
    show ?thesis by (rule preserves_trans [OF k relink_keeps [OF ca v preservesD [OF k] that(2,3)]])
  qed
  ultimately show ?thesis using preserves_refl [where g = g and ok = ok, OF t i] assemble_keeps [OF t i] by blast
qed

lemma fallback_keeps:
  assumes ca: "clean_abs g" and v: "validHex gid" and t: "tidy g (wfs w)" and i: "ok w"
    and c: "checksumForGraphIDNoTarsplit ord wfail drv gid parent (newTarData g gid) w = Ret (r, w')"
  shows "preserves g ok w w'"
proof -
  let ?new = "newTarData g gid"
  have td: "tardata_path g ?new" using v by (auto simp: tardata_path_def)
  note nm = tardata_not_migration [OF ca td]
  from c obtain tr w1 where ts: "TarStream drv gid parent w = Ret (tr, w1)"
    by (auto simp: checksumForGraphIDNoTarsplit_def simp del: bind_outcome_eq_Ret elim!: bind_outcomeE)
  note k0 = ts_keeps [OF t i ts]
  show ?thesis
  proof (cases tr)
    case (Inl e)
    with c ts k0 show ?thesis by (simp add: checksumForGraphIDNoTarsplit_def)
  next
    case (Inr sc)
    then obtain st close where sc: "sc = (st, close)" and cl: "careful g ok close" using k0 by (cases sc) auto
    obtain x s where cr: "os_Create ?new (wfs w1) = (x, s)" by fastforce
    note k1 = Create_keeps [OF preservesD(1) [OF conjunct1 [OF k0]] disjI2 [OF td] cr]
    have k1': "preserves g ok w1 (w1\<lparr>wfs := s\<rparr>)" using k1 nm k0 by (intro fs_keeps) (auto dest: preservesD)
    show ?thesis
    proof (cases x)
      case (Inl e)
      with c ts \<open>tr = Inr sc\<close> sc cr have "close (w1\<lparr>wfs := s\<rparr>) = Ret w'" by (auto simp: checksumForGraphIDNoTarsplit_def)
      from carefulD [OF cl k1' this] k0 show ?thesis by (blast intro: preserves_trans)
    next
      case x: (Inr f)
      from c ts \<open>tr = Inr sc\<close> sc cr x obtain p y s1 where wr: "write_ino ?new f (gzip_Close p) s = (y, s1)"
        and cw: "close (w1\<lparr>wfs := s1\<rparr>) = Ret w'"
        by (auto simp: checksumForGraphIDNoTarsplit_def simp del: bind_outcome_eq_Ret elim!: bind_outcomeE
            split: prod.splits)
      note k2 = write_keeps [OF k1(1) k1(4) [OF x] wr]
      have "preserves g ok w1 (w1\<lparr>wfs := s1\<rparr>)"
        using k1 k2 nm k0 by (intro fs_keeps) (auto dest: preservesD intro: same_at_trans)
      from carefulD [OF cl this cw] k0 show ?thesis by (blast intro: preserves_trans)
    qed
  qed
qed

lemma calculator:
  assumes "clean_abs g" and "\<And>gid d n. computed (ChecksumForGraphID ord wfail drv) g gid d n \<Longrightarrow> good gid d n"
  shows "checksum_calculator (ChecksumForGraphID ord wfail drv) g ok good"
proof
  fix gid parent w r w'
  assume v: "validHex gid" and t: "tidy g (wfs w)" and i: "ok w"
    and c: "ChecksumForGraphID ord wfail drv gid parent (layer_file g gid tarDataFileName) (newTarData g gid) w = Ret (r, w')"
  from c obtain r1 w1 where
    c1: "checksum_tarsplit drv gid (layer_file g gid tarDataFileName) (newTarData g gid) w = Ret (r1, w1)"
    by (auto simp: ChecksumForGraphID_def simp del: bind_outcome_eq_Ret elim!: bind_outcomeE)
  note k1 = tarsplit_keeps [OF assms(1) v t i c1]
  show "preserves g ok w w'"
  proof (cases r1)
    case (Inr x)
    with c c1 k1 show ?thesis by (simp add: ChecksumForGraphID_def)
  next
    case (Inl e)
    with c c1 have "checksumForGraphIDNoTarsplit ord wfail drv gid parent (newTarData g gid) w1 = Ret (r, w')"
      by (simp add: ChecksumForGraphID_def)
    from fallback_keeps [OF assms(1) v preservesD [OF k1] this] k1 show ?thesis by (blast intro: preserves_trans)
  qed
qed (use assms ok_wfs in auto)

end

text \<open>The four drivers that only read.\<close>

lemma readonly_careful:
  assumes "readonly_driver ld (Mount drv) (TarStream drv)"
  shows "careful_driver g (\<lambda>_. True) drv"
proof
  fix w gid r w' assume t: "tidy g (wfs w)" and m: "Mount drv gid w = (r, w')"
  from m readonly_driver.mnt_spec [OF assms, of gid w] have "w' = w" "\<forall>path rel. r \<noteq> Inr (path, Some rel)" by auto
  with t show "preserves g (\<lambda>_. True) w w' \<and> (\<forall>path rel. r = Inr (path, Some rel) \<longrightarrow> careful g (\<lambda>_. True) rel)"
    by (simp add: preserves_def)
next
  fix w gid parent and r :: "(stream \<times> release) res" and w'
  assume t: "tidy g (wfs w)" and ts: "TarStream drv gid parent w = Ret (r, w')"
  with readonly_driver.ts_world [OF assms] have w': "w' = w" by blast
  have "close = Ret" if "r = Inr (st, close)" for st close
    using readonly_driver.ts_Ret [OF assms, of gid parent w st close w'] ts that by simp
  with w' t show "preserves g (\<lambda>_. True) w w' \<and> (\<forall>st close. r = Inr (st, close) \<longrightarrow> careful g (\<lambda>_. True) close)"
    by (auto simp: careful_def preserves_def)
qed simp

lemma readonly_drivers:
  "readonly_driver (\<lambda>gid. Join [root, ''diff'', gid]) (Mount (NewAufsChecksums ar root)) (TarStream (NewAufsChecksums ar root))"
  "readonly_driver (\<lambda>gid. Join [root, ''subvolumes'', gid]) (Mount (NewBtrfsChecksums ar root)) (TarStream (NewBtrfsChecksums ar root))"
  "readonly_driver (\<lambda>gid. Join [root, gid, ''root'']) (Mount (NewOverlayChecksums ar root)) (TarStream (NewOverlayChecksums ar root))"
  "readonly_driver (\<lambda>gid. Join [root, ''dir'', gid]) (Mount (NewVfsChecksums ar root)) (TarStream (NewVfsChecksums ar root))"
  using aufs.readonly_driver_axioms btrfs.readonly_driver_axioms overlay.readonly_driver_axioms vfs.readonly_driver_axioms
  by (simp_all add: NewAufsChecksums_def NewBtrfsChecksums_def NewOverlayChecksums_def NewVfsChecksums_def)

text \<open>
  The devicemapper driver makes and removes temporary directories.  It leaves the layers alone as long as the directory of
  the layers is not below \<open>/tmp\<close>.
\<close>

definition dm_mounter :: "'c archiver \<Rightarrow> mounter" where
  "dm_mounter ar = \<lparr>Mount = dm_Mount, TarStream = dm_TarStream ar\<rparr>"

definition tmp_mounts :: "world \<Rightarrow> bool" where
  "tmp_mounts w \<longleftrightarrow> (\<forall>gid m. map_of (w_mounts w) gid = Some m \<longrightarrow> (\<exists>k. mnt_path m = tmp_name k))"

definition clear_of_tmp :: "string \<Rightarrow> bool" where
  "clear_of_tmp g \<longleftrightarrow> clean_abs g \<and> \<not> prefix ''/tmp/'' (g @ ''/'')"

lemma tmp_not_below:
  assumes "clear_of_tmp g" and "migration_path g p"
  shows "\<not> below (tmp_name k) p"
proof
  assume b: "below (tmp_name k) p"
  from assms obtain gid f where v: "validHex gid" and f: "plain f" and p: "p = layer_file g gid f"
    unfolding migration_path_def layer_files using plain_file_names by blast
  have c: "clean_abs g" using assms(1) by (simp add: clear_of_tmp_def)
  have p': "p = g @ slash # gid @ slash # f" using Join3 [OF c validHex_plain [OF v] f] p by simp
  have "prefix (tmp_name k) p" using b by (auto simp: below_def prefix_def)
  then obtain r where r: "p = ''/tmp'' @ slash # r" by (auto simp: tmp_name_eq prefix_def)
  with p' have e: "g @ slash # gid @ slash # f = ''/tmp'' @ slash # r" by simp
  show False
  proof (cases "length g < 4")
    case True
    have "(g @ slash # gid @ slash # f) ! length g = (''/tmp'' @ slash # r) ! length g" using e by metis
    then have n: "(''/tmp'' @ slash # r) ! length g = slash" by (metis nth_append_length)
    have "length g \<noteq> 0" using c by (auto simp: clean_abs_def)
    with True consider "length g = 1" | "length g = 2" | "length g = 3" by linarith
    then show False using n by cases simp_all
  next
    case False
    then have "take 5 (g @ slash # gid @ slash # f) = take 5 (g @ ''/'')" by (simp add: take_Cons')
    moreover have "take 5 (''/tmp'' @ slash # r) = ''/tmp/''" by simp
    ultimately have "take 5 (g @ ''/'') = ''/tmp/''" using e by metis
    then have "prefix ''/tmp/'' (g @ ''/'')" by (metis take_is_prefix)
    with assms(1) show False by (simp add: clear_of_tmp_def)
  qed
qed

lemma tmp_mounts_frame [simp]:
  "tmp_mounts (w\<lparr>wfs := s\<rparr>) = tmp_mounts w" "tmp_mounts (w\<lparr>w_devs := d\<rparr>) = tmp_mounts w"
  by (simp_all add: tmp_mounts_def)

lemma tmp_mounts_set: "tmp_mounts w \<Longrightarrow> \<exists>k. mnt_path m = tmp_name k \<Longrightarrow> tmp_mounts (set_mount gid m w)"
  by (auto simp: tmp_mounts_def set_mount_def)

lemma preserves_same_fs: "preserves g tmp_mounts w w1 \<Longrightarrow> wfs w' = wfs w1 \<Longrightarrow> tmp_mounts w' \<Longrightarrow> preserves g tmp_mounts w w'"
  by (simp add: preserves_def)

lemma w_TempDir_keeps:
  assumes c: "clear_of_tmp g" and t: "tidy g (wfs w)" and i: "tmp_mounts w" and d: "w_TempDir w = (r, w')"
  shows "preserves g tmp_mounts w w' \<and> (\<forall>p. r = Inr p \<longrightarrow> (\<exists>k. p = tmp_name k))"
proof (cases r)
  case (Inl e)
  with d have "w' = w" by (auto dest: w_TempDir_err)
  with Inl t i show ?thesis by (simp add: preserves_refl)
next
  case (Inr p)
  obtain s where s: "TempDir ''migrate-devicemapper'' (wfs w) = (Inr p, s)" "w' = w\<lparr>wfs := s\<rparr>"
    using d Inr by (auto simp: w_TempDir_def split: prod.splits)
  have k: "\<exists>k. p = tmp_name k" using TempDir_tmp(1) [of w p w'] d Inr by (auto simp: has_tmp_def)
  have e: "map_of (names (wfs w)) p = None" "s = emit (EvMkdir p (next_ino (wfs w))) (wfs w)" "faults s = faults (wfs w)"
    using s(1) TempDir_Inr [OF s(1)] by (auto simp: TempDir_def split: option.splits)
  have n: "names s = AList.update p (next_ino (wfs w)) (names (wfs w))" "next_ino s = Suc (next_ino (wfs w))"
    "nodes s = AList.update (next_ino (wfs w)) Dir (nodes (wfs w))"
    by (simp_all add: e(2) emit_def Let_def)
  note nk = new_name_keeps [OF t e(1) disjI2 [OF refl] n]
  have "p \<noteq> q" if "migration_path g q" for q using tmp_not_below [OF c that] k by (auto simp: below_def)
  then have "\<forall>q. migration_path g q \<longrightarrow> same_at (wfs w) s q" using nk(2) by metis
  with nk(1) e(3) i s(2) have "preserves g tmp_mounts w w'" by (simp add: preserves_def)
  with k Inr show ?thesis by simp
qed

lemma dm_umount_keeps:
  assumes c: "clear_of_tmp g"
  shows "careful g tmp_mounts (dm_umount gid)"
  unfolding careful_def
proof (intro allI impI)
  fix w w' assume t: "tidy g (wfs w)" and i: "tmp_mounts w" and u: "dm_umount gid w = Ret w'"
  from u obtain m where m: "map_of (w_mounts w) gid = Some m" by (auto simp: dm_umount_def split: option.splits)
  with i obtain k where k: "mnt_path m = tmp_name k" by (auto simp: tmp_mounts_def)
  let ?m1 = "m\<lparr>activity := activity m - 1\<rparr>"
  let ?w1 = "set_mount gid ?m1 w"
  have i1: "tmp_mounts ?w1" by (rule tmp_mounts_set [OF i]) (use k in auto)
  have f1: "wfs ?w1 = wfs w" by (simp add: set_mount_def)
  show "preserves g tmp_mounts w w'"
  proof (cases "activity ?m1 = 0")
    case False
    with u m have "w' = ?w1" by (simp add: dm_umount_def Let_def)
    with i1 f1 t show ?thesis by (simp add: preserves_def)
  next
    case True
    obtain x ds where d: "UnmountDevice gid (mnt_path ?m1) (w_devs ?w1) = (x, ds)" by fastforce
    obtain y w2 where r: "w_RemoveAll (mnt_path ?m1) (?w1\<lparr>w_devs := ds\<rparr>) = (y, w2)" by fastforce
    have w': "w' = w2\<lparr>w_mounts := AList.delete gid (w_mounts w2)\<rparr>"
      using u m True d r by (simp add: dm_umount_def Let_def)
    have w2: "w_mounts w2 = w_mounts ?w1 \<and> (wfs w2 = wfs w \<or> (\<exists>x. os_RemoveAll (tmp_name k) (wfs w) = (x, wfs w2)))"
      using r f1 k by (auto simp: w_RemoveAll_def split: option.splits prod.splits)
    have "tidy g (wfs w2) \<and> (\<forall>p. migration_path g p \<longrightarrow> same_at (wfs w) (wfs w2) p) \<and> faults (wfs w2) = faults (wfs w)"
      using w2 t RemoveAll_keeps [OF t tmp_not_below [OF c]] by (metis same_at_refl)
    moreover have "tmp_mounts w'"
      using i1 w2 w' by (auto simp: tmp_mounts_def delete_conv' split: if_splits)
    ultimately show ?thesis using w' by (simp add: preserves_def)
  qed
qed

lemma dm_Mount_keeps:
  assumes c: "clear_of_tmp g" and t: "tidy g (wfs w)" and i: "tmp_mounts w" and m: "dm_Mount gid w = (r, w')"
  shows "preserves g tmp_mounts w w' \<and> (\<forall>path rel. r = Inr (path, Some rel) \<longrightarrow> careful g tmp_mounts rel)"
proof -
  have rel: "\<forall>path rel. r = Inr (path, Some rel) \<longrightarrow> rel = dm_umount gid"
    using m by (auto simp: dm_Mount_def Let_def split: prod.splits sum.splits option.splits)
  obtain er w1 where e: "dm_entry gid w = (er, w1)" by fastforce
  have k1: "preserves g tmp_mounts w w1 \<and> (\<forall>m. er = Inr m \<longrightarrow> (\<exists>k. mnt_path m = tmp_name k))"
  proof (cases "map_of (w_mounts w) gid")
    case (Some m)
    with e i t show ?thesis by (auto simp: dm_entry_def tmp_mounts_def preserves_refl)
  next
    case None
    obtain d w0 where d: "w_TempDir w = (d, w0)" by fastforce
    note k = w_TempDir_keeps [OF c t i d]
    show ?thesis
    proof (cases d)
      case (Inl e')
      with e None d k show ?thesis by (auto simp: dm_entry_def)
    next
      case (Inr p)
      let ?m = "\<lparr>activity = 0, mnt_path = p\<rparr>"
      have w1: "er = Inr ?m" "w1 = set_mount gid ?m w0" using e None d Inr by (simp_all add: dm_entry_def Let_def)
      have "tmp_mounts w1" unfolding w1 using k Inr by (intro tmp_mounts_set) (auto dest: preservesD)
      with k Inr w1 show ?thesis by (auto intro: preserves_same_fs simp: set_mount_def)
    qed
  qed
  show ?thesis
  proof (cases er)
    case (Inl e')
    with m e k1 show ?thesis by (auto simp: dm_Mount_def)
  next
    case (Inr mn)
    obtain a w2 where a: "dm_attach gid mn w1 = (a, w2)" by fastforce
    have w2: "wfs w2 = wfs w1" "tmp_mounts w2"
      using a k1 by (auto simp: dm_attach_def dest: preservesD(2) split: if_splits prod.splits)
    have k2: "preserves g tmp_mounts w w2" using k1 w2 by (auto intro: preserves_same_fs)
    show ?thesis
    proof (cases a)
      case (Some e')
      with m e Inr a k2 show ?thesis by (auto simp: dm_Mount_def)
    next
      case None
      let ?w3 = "set_mount gid (mn\<lparr>activity := activity mn + 1\<rparr>) w2"
      have "tmp_mounts ?w3" by (rule tmp_mounts_set [OF w2(2)]) (use k1 Inr in auto)
      then have k3: "preserves g tmp_mounts w ?w3" using k2 by (auto intro: preserves_same_fs simp: set_mount_def)
      obtain d w4 where d: "w_TempDir ?w3 = (d, w4)" by fastforce
      have "preserves g tmp_mounts ?w3 w4" using w_TempDir_keeps [OF c preservesD [OF k3] d] by blast
      with k3 have k4: "preserves g tmp_mounts w w4" by (rule preserves_trans)
      have "w' = ?w3 \<or> w' = w4"
        using m e Inr a None d by (auto simp: dm_Mount_def Let_def split: sum.splits)
      with k3 k4 rel dm_umount_keeps [OF c] show ?thesis by auto
    qed
  qed
qed

lemma careful_bind:
  assumes "careful g ok f" and "careful g ok h"
  shows "careful g ok (\<lambda>w. bind_outcome (f w) h)"
  unfolding careful_def
proof (intro allI impI)
  fix w w' assume k: "tidy g (wfs w)" "ok w" and r: "bind_outcome (f w) h = Ret w'"
  then obtain w1 where w1: "f w = Ret w1" "h w1 = Ret w'" by auto
  show "preserves g ok w w'" by (rule carefulD [OF assms(2) carefulD [OF assms(1) preserves_refl w1(1)] w1(2)]) (rule k)+
qed

lemma dm_careful:
  assumes c: "clear_of_tmp g"
  shows "careful_driver g tmp_mounts (dm_mounter ar)"
proof
  fix w gid r w' assume t: "tidy g (wfs w)" "tmp_mounts w" and m: "Mount (dm_mounter ar) gid w = (r, w')"
  then show "preserves g tmp_mounts w w' \<and> (\<forall>path rel. r = Inr (path, Some rel) \<longrightarrow> careful g tmp_mounts rel)"
    using dm_Mount_keeps [OF c t] by (simp add: dm_mounter_def)
next
  fix w gid parent and r :: "(stream \<times> release) res" and w'
  assume t: "tidy g (wfs w)" "tmp_mounts w" and "TarStream (dm_mounter ar) gid parent w = Ret (r, w')"
  then have ts: "dm_TarStream ar gid parent w = Ret (r, w')" by (simp add: dm_mounter_def)
  note um = dm_umount_keeps [OF c]
  obtain m1 w1 where m1: "dm_Mount gid w = (m1, w1)" by fastforce
  note k1 = conjunct1 [OF dm_Mount_keeps [OF c t m1]]
  obtain m2 w2 where m2: "dm_Mount parent w1 = (m2, w2)" by fastforce
  note k2 = preserves_trans [OF k1 conjunct1 [OF dm_Mount_keeps [OF c preservesD [OF k1] m2]]]
  have un: "preserves g tmp_mounts w y" if "preserves g tmp_mounts w x" "dm_umount h x = Ret y" for h x y
    by (rule carefulD [OF um that])
  have "preserves g tmp_mounts w w'"
  proof (cases m1)
    case (Inl e)
    with ts m1 k1 show ?thesis by (simp add: dm_TarStream_def)
  next
    case (Inr pr)
    obtain mainPath rel where pr: "pr = (mainPath, rel)" by fastforce
    show ?thesis
    proof (cases "parent = []")
      case True
      with ts m1 Inr pr k1 show ?thesis by (auto simp: dm_TarStream_def split: sum.splits)
    next
      case False
      from ts m1 Inr pr m2 False have "w' = w2 \<or> dm_umount gid w2 = Ret w' \<or>
          (\<exists>w3. dm_umount parent w2 = Ret w3 \<and> dm_umount gid w3 = Ret w')"
        by (auto simp: dm_TarStream_def split: sum.splits)
      then show ?thesis using k2 un by blast
    qed
  qed
  moreover have "close = dm_umount gid \<or> close = (\<lambda>w. bind_outcome (dm_umount parent w) (dm_umount gid))" if "r = Inr (st, close)" for st close
    using ts that by (auto simp: dm_TarStream_def split: sum.splits prod.splits if_splits)
  ultimately show "preserves g tmp_mounts w w' \<and> (\<forall>st close. r = Inr (st, close) \<longrightarrow> careful g tmp_mounts close)"
    using um careful_bind [OF um um] by blast
qed simp

text \<open>The default root directory of the program, \<open>/var/lib/docker\<close>.\<close>

lemma clear_default: "clear_of_tmp ''/var/lib/docker/graph''"
  unfolding clear_of_tmp_def by code_simp

lemmas clean_default = conjunct1 [OF clear_default [unfolded clear_of_tmp_def]]

interpretation aufs_careful: careful_driver "''/var/lib/docker/graph''" "\<lambda>_. True" "NewAufsChecksums ar root"
  by (rule readonly_careful [OF readonly_drivers(1)])

interpretation btrfs_careful: careful_driver "''/var/lib/docker/graph''" "\<lambda>_. True" "NewBtrfsChecksums ar root"
  by (rule readonly_careful [OF readonly_drivers(2)])

interpretation overlay_careful: careful_driver "''/var/lib/docker/graph''" "\<lambda>_. True" "NewOverlayChecksums ar root"
  by (rule readonly_careful [OF readonly_drivers(3)])

interpretation vfs_careful: careful_driver "''/var/lib/docker/graph''" "\<lambda>_. True" "NewVfsChecksums ar root"
  by (rule readonly_careful [OF readonly_drivers(4)])

interpretation dm_careful: careful_driver "''/var/lib/docker/graph''" tmp_mounts "dm_mounter ar"
  by (rule dm_careful [OF clear_default])

lemma computed_valid:
  assumes "computed (ChecksumForGraphID ord wfail drv) g gid d n"
  shows "Validate d = None"
proof -
  from assms obtain parent w0 w1 sz where c: "ChecksumForGraphID ord wfail drv gid parent
      (layer_file g gid tarDataFileName) (newTarData g gid) w0 = Ret (Inr (d, sz), w1)"
    by (auto simp: computed_def)
  then obtain r1 w2 where c1: "checksum_tarsplit drv gid (layer_file g gid tarDataFileName) (newTarData g gid) w0 = Ret (r1, w2)"
    by (auto simp: ChecksumForGraphID_def simp del: bind_outcome_eq_Ret elim!: bind_outcomeE)
  show ?thesis
  proof (cases r1)
    case (Inr x)
    with c c1 have "checksum_tarsplit drv gid (layer_file g gid tarDataFileName) (newTarData g gid) w0 = Ret (Inr (d, sz), w2)"
      by (simp add: ChecksumForGraphID_def)
    from tarsplit_success [OF this] show ?thesis by auto
  next
    case (Inl e)
    with c c1 have "checksumForGraphIDNoTarsplit ord wfail drv gid parent (newTarData g gid) w2 = Ret (Inr (d, sz), w1)"
      by (simp add: ChecksumForGraphID_def)
    from fallback_success [OF this] show ?thesis by auto
  qed
qed

section \<open>Crash safety\<close>

text \<open>Any of the five drivers, on a directory of layers it leaves alone.\<close>

definition drives :: "string \<Rightarrow> 'c archiver \<Rightarrow> mounter \<Rightarrow> world \<Rightarrow> bool" where
  "drives g ar drv w \<longleftrightarrow>
     (\<exists>root. drv \<in> {NewAufsChecksums ar root, NewBtrfsChecksums ar root, NewOverlayChecksums ar root, NewVfsChecksums ar root}) \<or>
     drv = dm_mounter ar \<and> w_mounts w = [] \<and> clear_of_tmp g"

lemma drives_careful: "drives g ar drv w \<Longrightarrow> \<exists>ok. careful_driver g ok drv \<and> ok w"
proof -
  assume "drives g ar drv w"
  then consider ld where "readonly_driver ld (Mount drv) (TarStream drv)" | "drv = dm_mounter ar" "w_mounts w = []" "clear_of_tmp g"
    unfolding drives_def using readonly_drivers by blast
  then show ?thesis
  proof cases
    case 1
    then show ?thesis using readonly_careful by blast
  next
    case 2
    then have "tmp_mounts w" by (simp add: tmp_mounts_def)
    with 2 dm_careful show ?thesis by blast
  qed
qed

lemma published_and_done:
  assumes drv: "drives g ar drv w"
    and g: "clean_abs g" and t: "tidy g (wfs w)" and f: "no_false_ENOENT (wfs w)" and d: "distinct dir"
    and good: "\<And>gid d n. computed (ChecksumForGraphID ord wfail drv) g gid d n \<Longrightarrow> good gid d n"
    and start: "\<forall>gid. validHex gid \<longrightarrow> complete good g gid (wfs w)"
    and run: "pool_reach (ChecksumForGraphID ord wfail drv) g workers (pool_start mappings dir w) po"
  shows "\<forall>gid. validHex gid \<longrightarrow> complete good g gid (wfs (po_world po))"
    and "\<forall>gid. (gid, None) \<in> set (po_done po) \<longrightarrow> node_at (wfs (po_world po)) (diffIDFile g gid) \<noteq> None"
proof -
  from drives_careful [OF drv] obtain ok where cd: "careful_driver g ok drv" and i: "ok w" by blast
  have c: "checksum_calculator (ChecksumForGraphID ord wfail drv) g ok good"
    by (rule careful_driver.calculator [OF cd g good])
  note p = checksum_calculator.pool_reach_ok [OF c run checksum_calculator.pool_start_ok [OF c t i f start d],
      unfolded checksum_calculator.pool_ok_def [OF c]]
  then show "\<forall>gid. validHex gid \<longrightarrow> complete good g gid (wfs (po_world po))" by blast
  from p show "\<forall>gid. (gid, None) \<in> set (po_done po) \<longrightarrow> node_at (wfs (po_world po)) (diffIDFile g gid) \<noteq> None"
    by fastforce
qed

text \<open>
  C2: At every moment of every run of the workers, with any number of them, in any interleaving of
  their file operations and whatever operations fail, a layer that has a \<open>.migration-diffid\<close> file has a
  complete one: a valid digest, and beside it a complete \<open>.migration-size\<close> file, both being the results
  of one call of \<open>ChecksumForGraphID\<close> for that layer.  So killing the program never leaves a layer that
  a later run would take for finished although it is not.  And a layer whose job ended without an error
  has been published.  This holds for all five drivers, from a graph directory whose published layers are
  complete and whose migration files are neither links nor hard-linked to other files, which for devicemapper is
  not below \<open>/tmp\<close>, and as long as \<open>Lstat\<close> does not deny a file that exists.
\<close>

theorem published_layers_complete:
  assumes "drives g ar drv w"
    and "clean_abs g" and "tidy g (wfs w)" and "no_false_ENOENT (wfs w)" and "distinct dir"
    and "\<forall>gid. validHex gid \<longrightarrow> complete (computed (ChecksumForGraphID ord wfail drv) g) g gid (wfs w)"
    and "pool_reach (ChecksumForGraphID ord wfail drv) g workers (pool_start mappings dir w) po"
  shows "(\<forall>gid nd. validHex gid \<longrightarrow> node_at (wfs (po_world po)) (diffIDFile g gid) = Some nd \<longrightarrow>
            (\<exists>d n. nd = Reg (Raw d) \<and> Validate d = None \<and>
              node_at (wfs (po_world po)) (sizeFile g gid) = Some (Reg (Raw (Itoa n))) \<and>
              computed (ChecksumForGraphID ord wfail drv) g gid d n)) \<and>
         (\<forall>gid. (gid, None) \<in> set (po_done po) \<longrightarrow> node_at (wfs (po_world po)) (diffIDFile g gid) \<noteq> None)"
proof -
  note p = published_and_done [OF assms(1-5) _ assms(6,7)]
  from p(1) have "\<forall>gid. validHex gid \<longrightarrow> complete (computed (ChecksumForGraphID ord wfail drv) g) g gid (wfs (po_world po))" by blast
  then show ?thesis using p(2) computed_valid unfolding complete_def by fastforce
qed

definition demo_fresh_layer :: world where
  "demo_fresh_layer =
     (let w = demo_layer (Raw []) (\<lambda>op _. if op = OpOpen then Some (EOther 5) else None)
      in w\<lparr>wfs := (wfs w)\<lparr>names := [(Join [''/v'', ''dir'', demo_id], 1), (Join [''/g'', demo_id], 1)]\<rparr>\<rparr>)"

definition demo_published :: world where
  "demo_published =
     (let w = demo_layer (Raw []) (\<lambda>_ _. None)
      in w\<lparr>wfs := (wfs w)\<lparr>names := [(diffIDFile ''/g'' demo_id, 5), (sizeFile ''/g'' demo_id, 6)],
             nodes := [(5, Reg (Raw (FromBytes []))), (6, Reg (Raw (Itoa 0)))], next_ino := 7\<rparr>\<rparr>)"

lemma demo_computed:
  "computed (ChecksumForGraphID id (\<lambda>_. None) (NewVfsChecksums (demo_archiver (Inr ([], None))) ''/v'')) ''/g'' demo_id (FromBytes []) 0"
proof -
  let ?new = "newTarData ''/g'' demo_id" and ?d = "NewVfsChecksums (demo_archiver (Inr ([], None))) ''/v''"
  have p: "?new \<noteq> Join [''/g'', demo_id]" "?new \<noteq> Join [''/v'', ''dir'', demo_id]" "path_Dir ?new = Join [''/g'', demo_id]"
    "Join [''/v'', ''dir'', demo_id] \<noteq> Join [''/g'', demo_id]"
    by code_simp+
  have ts: "checksum_tarsplit ?d demo_id (layer_file ''/g'' demo_id tarDataFileName) ?new demo_fresh_layer =
      Ret (Inl (EOther 5), demo_fresh_layer) \<or> checksum_tarsplit ?d demo_id (layer_file ''/g'' demo_id tarDataFileName) ?new
      demo_fresh_layer = Ret (Inl (ErrText ''no tar-split file''), demo_fresh_layer)"
    by (simp add: checksum_tarsplit_def ReadFile_def os_Open_def demo_fresh_layer_def demo_layer_def demo_layer_fs_def Let_def)
  have m: "TarStream ?d demo_id [] demo_fresh_layer = Ret (Inr (([], None), Ret), demo_fresh_layer)"
    using p by (simp add: NewVfsChecksums_def vfs_TarStream_def vfs_Mount_def w_Lstat_def w_node_at_def mounted_at_def node_at_def
        archive_Tar_def demo_archiver_def plain_stream_def demo_fresh_layer_def demo_layer_def demo_layer_fs_def Let_def)
  have "\<exists>s. os_Create ?new (wfs demo_fresh_layer) = (Inr 4, s)"
    using p by (simp add: os_Create_def resolve_def resolve_fuel.simps node_at_def is_dir_at_def demo_fresh_layer_def
        demo_layer_def demo_layer_fs_def Let_def)
  then obtain s where s: "os_Create ?new (wfs demo_fresh_layer) = (Inr 4, s)" by blast
  obtain x s1 where "write_ino ?new 4 (gzip_Close ((NewJSONPacker (\<lambda>_. None))\<lparr>pk_docs := [encode_entry (stored 0 (segment []))], pk_pos := 1\<rparr>)) s = (x, s1)"
    by fastforce
  with m s empty_split [of "\<lambda>_. None" id] have "checksumForGraphIDNoTarsplit id (\<lambda>_. None) ?d demo_id [] ?new demo_fresh_layer =
      Ret (Inr (FromBytes [], 0), demo_fresh_layer\<lparr>wfs := s1\<rparr>)"
    by (simp add: checksumForGraphIDNoTarsplit_def FromReader_eq)
  with ts have "ChecksumForGraphID id (\<lambda>_. None) ?d demo_id [] (layer_file ''/g'' demo_id tarDataFileName) ?new demo_fresh_layer =
      Ret (Inr (FromBytes [], 0), demo_fresh_layer\<lparr>wfs := s1\<rparr>)"
    by (auto simp: ChecksumForGraphID_def)
  then show ?thesis unfolding computed_def by (metis signed_0)
qed

lemma published_layers_complete_witness:
  "\<exists>d n. node_at (wfs demo_published) (diffIDFile ''/g'' demo_id) = Some (Reg (Raw d)) \<and> Validate d = None \<and>
     node_at (wfs demo_published) (sizeFile ''/g'' demo_id) = Some (Reg (Raw (Itoa n)))"
proof -
  let ?d = "NewVfsChecksums (demo_archiver (Inr ([], None))) ''/v''"
  let ?ls = "ChecksumForGraphID id (\<lambda>_. None) ?d"
  have g: "clean_abs ''/g''" by code_simp
  have v: "validHex demo_id" by code_simp
  have dr: "drives ''/g'' (demo_archiver (Inr ([], None))) ?d demo_published" by (auto simp: drives_def)
  note sep = layer_files_inj(1) [OF g v v]
  have n: "node_at (wfs demo_published) p = (if p = diffIDFile ''/g'' demo_id then Some (Reg (Raw (FromBytes [])))
      else if p = sizeFile ''/g'' demo_id then Some (Reg (Raw (Itoa 0))) else None)" for p
    by (simp add: demo_published_def demo_layer_def demo_layer_fs_def Let_def node_at_def)
  have t: "tidy ''/g'' (wfs demo_published)"
    unfolding tidy_def n
    using sep by (auto simp: demo_published_def demo_layer_def demo_layer_fs_def Let_def split: if_splits)
  have f: "no_false_ENOENT (wfs demo_published)"
    by (simp add: no_false_ENOENT_def demo_published_def demo_layer_def demo_layer_fs_def Let_def)
  have c: "\<forall>gid. validHex gid \<longrightarrow> complete (computed ?ls ''/g'') ''/g'' gid (wfs demo_published)"
  proof (intro allI impI)
    fix gid assume h: "validHex gid"
    note inj = layer_files_inj(1) [OF g v h] layer_files_inj(5) [OF g h v]
    show "complete (computed ?ls ''/g'') ''/g'' gid (wfs demo_published)"
    proof (cases "gid = demo_id")
      case True
      with demo_computed sep show ?thesis by (auto simp: complete_def n)
    next
      case False
      then have "node_at (wfs demo_published) (diffIDFile ''/g'' gid) = None" using inj by (auto simp: n)
      then show ?thesis by (simp add: complete_def)
    qed
  qed
  have "node_at (wfs demo_published) (diffIDFile ''/g'' demo_id) = Some (Reg (Raw (FromBytes [])))" by (simp add: n)
  then show ?thesis
    using published_layers_complete [OF dr g t f _ c pool_reach.start, where dir = "[]" and mappings = "\<lambda>_. None"] v
    by (auto simp: pool_start_def)
qed

end
