(* ===== verification/Migrator.thy ===== *)
theory Migrator
  imports MigrateSafety
begin

text \<open>
  \<open>migrator.go\<close>: the choice of the storage driver and the program's \<open>main\<close>.  \<open>order\<close> is the order in
  which Go visits the keys of the map \<open>drivers\<close>, which it chooses at will.
\<close>

definition autoDriver :: string where "autoDriver = ''auto''"

type_synonym mounterFunc = "string \<Rightarrow> string list \<Rightarrow> world \<Rightarrow> (mounter \<times> world) res"

definition drivers ::
  "(string \<Rightarrow> string list \<Rightarrow> device_set res) \<Rightarrow> 'c archiver \<Rightarrow> (string \<times> mounterFunc) list" where
  "drivers newDeviceSet ar =
     [(''aufs'', \<lambda>root opts w. Inr (NewAufsChecksums ar root, w)),
      (''overlay'', \<lambda>root opts w. Inr (NewOverlayChecksums ar root, w)),
      (''btrfs'', \<lambda>root opts w. Inr (NewBtrfsChecksums ar root, w)),
      (''devicemapper'', NewDevicemapperChecksums newDeviceSet ar),
      (''vfs'', \<lambda>root opts w. Inr (NewVfsChecksums ar root, w))]"

definition driver_names :: "string list" where
  "driver_names = [''aufs'', ''overlay'', ''btrfs'', ''devicemapper'', ''vfs'']"

lemma drivers_dom: "map fst (drivers nds ar) = driver_names"
  by (simp add: drivers_def driver_names_def)

definition findDriver :: "string list \<Rightarrow> fs \<Rightarrow> string \<Rightarrow> string res" where
  "findDriver order s root =
     (let found = filter (\<lambda>name. res_ok (os_Stat s (Join [root, name]))) order
      in if length found = 0 then Inl (ErrText (''no storage driver directory was found at '' @ root))
         else if length found > 1 then Inl (ErrText (''multiple storage drivers found at '' @ root))
         else Inr (hd found))"

definition validateGraphDir :: "string list \<Rightarrow> fs \<Rightarrow> string \<Rightarrow> string \<Rightarrow> string res" where
  "validateGraphDir order s root driver =
     (case os_Stat s root of
        Inl e \<Rightarrow> Inl e
      | Inr _ \<Rightarrow>
          (case (if driver = autoDriver then findDriver order s root else Inr driver) of
             Inl e \<Rightarrow> Inl e
           | Inr driver \<Rightarrow>
               if driver \<notin> set driver_names then Inl (ErrText (''unknown storage driver '' @ driver))
               else
                 (case os_Stat s (Join [root, driver]) of
                    Inl e \<Rightarrow> Inl e
                  | Inr _ \<Rightarrow> Inr driver)))"

text \<open>
  \<open>main\<close> with its flags: it ends with an error, or runs the workers over the graph directory with no
  mappings; \<open>po\<close> is a state in which they may end.
\<close>

datatype exit = Fatal err | Done pool

inductive migrator_main ::
  "(string \<Rightarrow> string list \<Rightarrow> device_set res) \<Rightarrow> 'c archiver \<Rightarrow>
   ((string \<times> string) list \<Rightarrow> (string \<times> string) list) \<Rightarrow> (int64 \<Rightarrow> err option) \<Rightarrow> nat \<Rightarrow>
   string \<Rightarrow> string \<Rightarrow> string list \<Rightarrow> world \<Rightarrow> exit \<Rightarrow> bool"
  for newDeviceSet ar ord wfail workers root driver opts w where
  invalid: "set order = set driver_names \<Longrightarrow> distinct order \<Longrightarrow> validateGraphDir order (wfs w) root driver = Inl e \<Longrightarrow>
    migrator_main newDeviceSet ar ord wfail workers root driver opts w (Fatal e)"
| no_driver: "set order = set driver_names \<Longrightarrow> distinct order \<Longrightarrow> validateGraphDir order (wfs w) root driver = Inr name \<Longrightarrow>
    map_of (drivers newDeviceSet ar) name = Some mk \<Longrightarrow> mk (Join [root, name]) opts w = Inl e \<Longrightarrow>
    migrator_main newDeviceSet ar ord wfail workers root driver opts w (Fatal e)"
| migrated: "set order = set driver_names \<Longrightarrow> distinct order \<Longrightarrow> validateGraphDir order (wfs w) root driver = Inr name \<Longrightarrow>
    map_of (drivers newDeviceSet ar) name = Some mk \<Longrightarrow> mk (Join [root, name]) opts w = Inr (mnt, w1) \<Longrightarrow>
    CalculateLayerChecksums (ChecksumForGraphID ord wfail mnt) workers root (\<lambda>_. None) w1 po \<Longrightarrow>
    migrator_main newDeviceSet ar ord wfail workers root driver opts w (Done po)"

inductive_cases migrator_DoneE: "migrator_main nds ar ord wfail workers root driver opts w (Done po)"

section \<open>Properties\<close>

definition present :: "fs \<Rightarrow> string \<Rightarrow> string set" where
  "present s root = {name \<in> set driver_names. res_ok (os_Stat s (Join [root, name]))}"

lemma findDriver_spec:
  assumes "set order = set driver_names" and "distinct order"
  shows "findDriver order s root =
     (if present s root = {} then Inl (ErrText (''no storage driver directory was found at '' @ root))
      else if card (present s root) > 1 then Inl (ErrText (''multiple storage drivers found at '' @ root))
      else Inr (the_elem (present s root)))"
proof -
  let ?f = "filter (\<lambda>name. res_ok (os_Stat s (Join [root, name]))) order"
  have s: "set ?f = present s root" using assms(1) by (auto simp: present_def)
  have l: "length ?f = card (present s root)" using distinct_card [of ?f] assms(2) s by simp
  show ?thesis
  proof (cases "length ?f = 1")
    case True
    then obtain x where x: "?f = [x]" by (cases ?f) auto
    with s have "present s root = {x}" by auto
    with x show ?thesis by (simp add: findDriver_def)
  next
    case False
    have "?f = [] \<longleftrightarrow> present s root = {}" using s by (metis set_empty)
    with False l show ?thesis by (cases ?f; cases "tl ?f") (simp_all add: findDriver_def Let_def)
  qed
qed

lemma validateGraphDir_order:
  assumes "set order = set driver_names" and "distinct order"
    and "set order' = set driver_names" and "distinct order'"
  shows "validateGraphDir order s root driver = validateGraphDir order' s root driver"
proof -
  have eq: "findDriver order s root = findDriver order' s root"
    unfolding findDriver_spec [OF assms(1,2)] findDriver_spec [OF assms(3,4)] ..
  show ?thesis unfolding validateGraphDir_def eq ..
qed

text \<open>
  The driver that is found does not depend on the order in which Go visits the map of drivers:
  two orders of the same keys give the same result, a name or an error.
\<close>

lemma findDriver_order_irrelevant:
  assumes "set order = set driver_names" and "distinct order"
    and "set order' = set driver_names" and "distinct order'"
  shows "findDriver order s root = findDriver order' s root \<and>
         validateGraphDir order s root driver = validateGraphDir order' s root driver"
  using validateGraphDir_order [OF assms] findDriver_spec [OF assms(1,2), of s root] findDriver_spec [OF assms(3,4), of s root]
  by simp

lemma findDriver_order_irrelevant_witness:
  "validateGraphDir driver_names (demo_layer_fs (Raw []) (\<lambda>_ _. None)) ''/'' ''auto'' =
     validateGraphDir (rev driver_names) (demo_layer_fs (Raw []) (\<lambda>_ _. None)) ''/'' ''auto''"
  by (rule findDriver_order_irrelevant [THEN conjunct2]) (auto simp: driver_names_def)

text \<open>
  C28: \<open>validateGraphDir\<close> accepts exactly this: the root directory exists, the driver that is returned is a
  known one with a directory in the root, and it is the one that was asked for or, with \<open>auto\<close>, the only
  known driver with a directory there.
\<close>

theorem validateGraphDir_correct:
  assumes "set order = set driver_names" and "distinct order"
  shows "validateGraphDir order s root driver = Inr name \<longleftrightarrow>
     res_ok (os_Stat s root) \<and> name \<in> set driver_names \<and> res_ok (os_Stat s (Join [root, name])) \<and>
     (if driver = autoDriver
      then {n \<in> set driver_names. res_ok (os_Stat s (Join [root, n]))} = {name} else name = driver)"
proof -
  let ?P = "present s root"
  have fin: "finite ?P" by (simp add: present_def)
  have "findDriver order s root = Inr x \<longleftrightarrow> ?P = {x}" for x
  proof -
    have one: "?P = {x}" if "?P \<noteq> {}" "\<not> card ?P > 1" "the_elem ?P = x"
    proof -
      have "0 < card ?P" using that(1) fin by (simp add: card_gt_0_iff)
      with that(2) have "card ?P = 1" by linarith
      then obtain y where "?P = {y}" by (rule card_1_singletonE)
      with that(3) show ?thesis by simp
    qed
    show ?thesis
    proof
      assume "findDriver order s root = Inr x"
      then have "?P \<noteq> {}" "\<not> card ?P > 1" "the_elem ?P = x"
        unfolding findDriver_spec [OF assms] by (auto split: if_splits)
      then show "?P = {x}" by (rule one)
    qed (simp add: findDriver_spec [OF assms])
  qed
  moreover have "validateGraphDir order s root driver = Inr name \<longleftrightarrow>
      res_ok (os_Stat s root) \<and> name \<in> set driver_names \<and> res_ok (os_Stat s (Join [root, name])) \<and>
      (if driver = autoDriver then findDriver order s root = Inr name else name = driver)"
    by (cases "os_Stat s root"; cases "driver = autoDriver"; cases "findDriver order s root")
      (auto simp: validateGraphDir_def res_ok_iff split: sum.splits if_splits)
  ultimately show ?thesis
    unfolding present_def by auto
qed

definition demo_root :: fs where
  "demo_root = (demo_layer_fs (Raw []) (\<lambda>_ _. None))\<lparr>names := [(''/r'', 1), (''/r/vfs'', 1), (''/r/graph'', 1)]\<rparr>"

lemma validateGraphDir_correct_witness:
  "validateGraphDir (rev driver_names) demo_root ''/r'' ''auto'' = Inr ''vfs''"
proof (subst validateGraphDir_correct)
  show "set (rev driver_names) = set driver_names" by simp
  show "distinct (rev driver_names)" by code_simp
  have "res_ok (os_Stat demo_root (Join [''/r'', n])) \<longleftrightarrow> n = ''vfs''" if "n \<in> set driver_names" for n
  proof -
    have "list_all (\<lambda>n. res_ok (os_Stat demo_root (Join [''/r'', n])) = (n = ''vfs'')) driver_names" by code_simp
    with that show ?thesis by (simp add: list_all_iff)
  qed
  moreover have "res_ok (os_Stat demo_root ''/r'')" "''vfs'' \<in> set driver_names" by code_simp+
  ultimately show "res_ok (os_Stat demo_root ''/r'') \<and> ''vfs'' \<in> set driver_names \<and>
      res_ok (os_Stat demo_root (Join [''/r'', ''vfs''])) \<and>
      (if ''auto'' = autoDriver then {n \<in> set driver_names. res_ok (os_Stat demo_root (Join [''/r'', n]))} = {''vfs''}
       else ''vfs'' = ''auto'')"
    by (auto simp: autoDriver_def)
qed

end
