(* ===== verification/Changes.thy ===== *)
theory Changes
  imports GoPath
begin

text \<open>
  The comparison of two directory trees in \<open>docker/pkg/archive\<close> (\<open>changes.go\<close>, \<open>changes_unix.go\<close>,
  \<open>whiteouts.go\<close>, and \<open>pkg/system/stat.go\<close>): the trees of \<open>FileInfo\<close>s, the walk over them that
  lists what was added, modified and deleted, and a specification of that list by lookups alone.

  The children of a \<open>FileInfo\<close> are a Go map, which is walked in an arbitrary order: here they are an
  association list in an arbitrary order.  The parent pointer of the code only serves \<open>path\<close> and the
  test whether an info is the root: the model passes the path down, and the root, the one info
  without a stat, is the one with \<open>fi_stat = None\<close>.
\<close>

section \<open>Paths below a root\<close>

lemma abs_path_Nil [simp]: "abs_path [] = [slash]"
  by (simp add: abs_path_def)

lemma Join_abs_path:
  assumes "list_all plain ws" and "list_all plain vs"
  shows "Join (abs_path ws # vs) = abs_path (ws @ vs)"
proof -
  have ne: "abs_path ws \<noteq> []" by (simp add: abs_path_def)
  consider "vs = []" | "ws = []" "vs \<noteq> []" | "ws \<noteq> []" "vs \<noteq> []" by blast
  then show ?thesis
  proof cases
    case 1
    with ne assms show ?thesis by (simp add: Clean_abs_path)
  next
    case 2
    then have "split_on slash (join_with [slash] vs) = vs"
      using assms(2) by (intro split_join) (auto simp: list_all_iff plain_def)
    with 2 assms show ?thesis
      by (simp add: join_with_Cons Clean_def rooted_def clean_comps_plain) (simp add: abs_path_def)
  next
    case 3
    with ne assms show ?thesis by (simp add: join_abs_path Clean_abs_path)
  qed
qed

lemma abs_path_snoc: "ws \<noteq> [] \<Longrightarrow> abs_path (ws @ [n]) = abs_path ws @ slash # n"
  by (simp add: abs_path_def join_with_append)

lemma split_abs_path:
  assumes "list_all plain ws" shows "filter (\<lambda>e. e \<noteq> []) (split_on slash (abs_path ws)) = ws"
proof (cases "ws = []")
  case False
  with assms have "split_on slash (join_with [slash] ws) = ws"
    by (intro split_join) (auto simp: list_all_iff plain_def)
  moreover have "filter (\<lambda>e. e \<noteq> []) ws = ws"
    using assms by (auto simp: list_all_iff plain_def intro: filter_True)
  ultimately show ?thesis by (simp add: abs_path_def)
qed simp

lemma abs_path_inject: "list_all plain ws \<Longrightarrow> list_all plain vs \<Longrightarrow> abs_path ws = abs_path vs \<longleftrightarrow> ws = vs"
  by (metis split_abs_path)

lemma Dir_Base_abs_path:
  assumes "list_all plain ws" and "plain n"
  shows "path_Dir (abs_path (ws @ [n])) = abs_path ws" and "path_Base (abs_path (ws @ [n])) = n"
proof -
  have eq: "abs_path (ws @ [n]) = (if ws = [] then [] else abs_path ws) @ slash # n"
    by (simp add: abs_path_snoc) (simp add: abs_path_def)
  have "Clean [slash] = [slash]" by (simp add: Clean_def rooted_def clean_comps_def)
  moreover have "Clean (abs_path ws @ [slash]) = abs_path ws"
    using assms(1) by (subst Clean_snoc_slash) (simp_all add: Clean_abs_path, simp add: abs_path_def)
  ultimately show "path_Dir (abs_path (ws @ [n])) = abs_path ws"
    unfolding eq path_Dir_def using assms(2) by (subst upto_last_slash_snoc) (auto dest: plainD)
  show "path_Base (abs_path (ws @ [n])) = n"
    unfolding eq using assms(2) by (rule path_Base_snoc)
qed

section \<open>Changes\<close>

datatype ChangeType = ChangeModify | ChangeAdd | ChangeDelete

definition ChangeType_String :: "ChangeType \<Rightarrow> string" where
  "ChangeType_String c = (case c of ChangeModify \<Rightarrow> ''C'' | ChangeAdd \<Rightarrow> ''A'' | ChangeDelete \<Rightarrow> ''D'')"

record Change =
  ch_Path :: string
  ch_Kind :: ChangeType

definition Change_String :: "Change \<Rightarrow> string" where
  "Change_String c = ChangeType_String (ch_Kind c) @ '' '' @ ch_Path c"

section \<open>Stat\<close>

record Timespec =
  Sec :: int64
  Nsec :: int64

text \<open>\<open>system.StatT\<close>, read through the accessors of the same names.\<close>

record StatT =
  sMode :: "32 word"
  sUID :: "32 word"
  sGID :: "32 word"
  sRdev :: "64 word"
  sSize :: int64
  sMtim :: Timespec

definition sameFsTimeSpec :: "Timespec \<Rightarrow> Timespec \<Rightarrow> bool" where
  "sameFsTimeSpec a b \<longleftrightarrow> Sec a = Sec b \<and> (Nsec a = Nsec b \<or> Nsec a = 0 \<or> Nsec b = 0)"

definition S_IFDIR :: "32 word" where "S_IFDIR = 0x4000"

definition statDifferent :: "StatT \<Rightarrow> StatT \<Rightarrow> bool" where
  "statDifferent oldStat newStat \<longleftrightarrow>
     sMode oldStat \<noteq> sMode newStat \<or> sUID oldStat \<noteq> sUID newStat \<or> sGID oldStat \<noteq> sGID newStat \<or>
     sRdev oldStat \<noteq> sRdev newStat \<or>
     (and (sMode oldStat) S_IFDIR \<noteq> S_IFDIR \<and>
       (\<not> sameFsTimeSpec (sMtim oldStat) (sMtim newStat) \<or> sSize oldStat \<noteq> sSize newStat))"

lemma statDifferent_refl [simp]: "\<not> statDifferent s s"
  by (simp add: statDifferent_def sameFsTimeSpec_def)

section \<open>Trees of FileInfo\<close>

text \<open>A nil capability and an empty one compare equal (\<open>bytes.Compare\<close>).\<close>

datatype FileInfo =
  FileInfo (fi_stat: "StatT option") (fi_capability: "bytes option") (fi_children: "(string \<times> FileInfo) list")

definition newRootFileInfo :: FileInfo where
  "newRootFileInfo = FileInfo None None []"

definition isDir :: "FileInfo \<Rightarrow> bool" where
  "isDir i \<longleftrightarrow> (case fi_stat i of None \<Rightarrow> True | Some st \<Rightarrow> and (sMode st) S_IFDIR \<noteq> 0)"

fun fi_at :: "string list \<Rightarrow> FileInfo \<Rightarrow> FileInfo option" where
  "fi_at [] i = Some i"
| "fi_at (elem # elems) i =
     (if elem \<noteq> [] then (case map_of (fi_children i) elem of None \<Rightarrow> None | Some child \<Rightarrow> fi_at elems child)
      else fi_at elems i)"

definition LookUp :: "string \<Rightarrow> FileInfo \<Rightarrow> FileInfo option" where
  "LookUp path i = (if path = [slash] then Some i else fi_at (split_on slash path) i)"

definition cap_bytes :: "bytes option \<Rightarrow> bytes" where
  "cap_bytes c = (case c of None \<Rightarrow> [] | Some b \<Rightarrow> b)"

text \<open>The test of the loop over the children; both infos have a stat, since neither is a root.\<close>

definition child_differs :: "FileInfo \<Rightarrow> FileInfo \<Rightarrow> bool" where
  "child_differs oldChild newChild \<longleftrightarrow>
     (case (fi_stat oldChild, fi_stat newChild) of
        (Some oldStat, Some newStat) \<Rightarrow>
          statDifferent oldStat newStat \<or> cap_bytes (fi_capability oldChild) \<noteq> cap_bytes (fi_capability newChild)
      | _ \<Rightarrow> False)"

text \<open>
  \<open>addChanges\<close> gives what the method appends to \<open>*changes\<close>: \<open>added\<close> is the flag of the info when it is
  called, and the directory's own entry goes before what was appended for its contents.
  \<open>children_changes\<close> is the two loops: over the info's children, deleting from the copy of the old
  children what is still there, and over what is left of the copy.
\<close>

lemma size_children_Cons [simp]:
  "size_list (size_prod (\<lambda>_. 0) size) ((n, c) # cs) = Suc (Suc (size c + size_list (size_prod (\<lambda>_. 0) size) cs))"
  by simp

function (sequential) addChanges :: "bool \<Rightarrow> string \<Rightarrow> FileInfo option \<Rightarrow> FileInfo \<Rightarrow> Change list"
  and children_changes :: "string \<Rightarrow> (string \<times> FileInfo) list \<Rightarrow> (string \<times> FileInfo) list \<Rightarrow> Change list" where
  "addChanges added path oldInfo (FileInfo st cap children) =
     (let own = (case oldInfo of None \<Rightarrow> [\<lparr>ch_Path = path, ch_Kind = ChangeAdd\<rparr>] | Some _ \<Rightarrow> []);
          added' = (oldInfo = None \<or> added);
          dir = isDir (FileInfo st cap children);
          oldChildren = (case oldInfo of None \<Rightarrow> [] | Some i \<Rightarrow> if dir then fi_children i else []);
          new = own @ children_changes path oldChildren children
      in if new \<noteq> [] \<and> dir \<and> \<not> added' \<and> path \<noteq> [slash]
         then \<lparr>ch_Path = path, ch_Kind = ChangeModify\<rparr> # new else new)"
| "children_changes path oldChildren [] =
     map (\<lambda>(name, _). \<lparr>ch_Path = Join [path, name], ch_Kind = ChangeDelete\<rparr>) oldChildren"
| "children_changes path oldChildren ((name, newChild) # children) =
     (let p = Join [path, name]; oldChild = map_of oldChildren name;
          differs = (case oldChild of None \<Rightarrow> False | Some i \<Rightarrow> child_differs i newChild)
      in (if differs then [\<lparr>ch_Path = p, ch_Kind = ChangeModify\<rparr>] else []) @
         addChanges differs p oldChild newChild @
         children_changes path (AList.delete name oldChildren) children)"
  by pat_completeness auto
termination
  by (relation "measure (case_sum (\<lambda>(_, _, _, i). size i) (\<lambda>(_, _, cs). size_list (size_prod (\<lambda>_. 0) size) cs))") auto

declare addChanges.simps [simp del] children_changes.simps [simp del]

definition FileInfo_Changes :: "FileInfo option \<Rightarrow> FileInfo \<Rightarrow> Change list" where
  "FileInfo_Changes oldInfo newInfo = addChanges False [slash] oldInfo newInfo"

section \<open>What a comparison reports\<close>

text \<open>
  A tree is well-formed when names are plain and distinct, and only directories have children; the
  walker builds no other.
\<close>

lemma size_child: "x \<in> set cs \<Longrightarrow> size (snd x) < Suc (size_list (size_prod (\<lambda>_. 0) size) cs)"
  by (induction cs) auto

fun wf_info :: "FileInfo \<Rightarrow> bool" where
  "wf_info (FileInfo st cap cs) \<longleftrightarrow>
     distinct (map fst cs) \<and> (isDir (FileInfo st cap []) \<or> cs = []) \<and> (\<forall>x \<in> set cs. plain (fst x) \<and> wf_info (snd x))"

definition wf_children :: "(string \<times> FileInfo) list \<Rightarrow> bool" where
  "wf_children cs \<longleftrightarrow> distinct (map fst cs) \<and> (\<forall>x \<in> set cs. plain (fst x) \<and> wf_info (snd x))"

lemma wf_children_simps [simp]:
  "wf_children []"
  "wf_children ((n, c) # cs) \<longleftrightarrow> n \<notin> fst ` set cs \<and> plain n \<and> wf_info c \<and> wf_children cs"
  by (auto simp: wf_children_def)

lemma isDir_FileInfo [simp]: "isDir (FileInfo st cap cs) \<longleftrightarrow> (case st of None \<Rightarrow> True | Some s \<Rightarrow> and (sMode s) S_IFDIR \<noteq> 0)"
  by (simp add: isDir_def)

lemma wf_info_children: "wf_info i \<longleftrightarrow> wf_children (fi_children i) \<and> (isDir i \<or> fi_children i = [])"
  by (cases i) (auto simp: wf_children_def isDir_def)

lemma wf_children_lookup:
  assumes "wf_children cs" and "map_of cs n = Some c" shows "plain n" "wf_info c"
  using assms by (auto simp: wf_children_def dest!: map_of_SomeD)

lemma wf_children_delete [simp]: "wf_children cs \<Longrightarrow> wf_children (AList.delete n cs)"
  using distinct_AList_delete [of cs n] by (auto simp: wf_children_def AList.delete_eq)

text \<open>\<open>at cs x\<close> is the node the components \<open>cs\<close> lead to from \<open>x\<close>, if there is one.\<close>

definition at :: "string list \<Rightarrow> FileInfo option \<Rightarrow> FileInfo option" where
  "at cs x = Option.bind x (fi_at cs)"

definition child :: "string \<Rightarrow> FileInfo option \<Rightarrow> FileInfo option" where
  "child n x = Option.bind x (\<lambda>i. map_of (fi_children i) n)"

lemma at_simps [simp]: "at [] x = x" "at cs None = None"
  by (cases x) (simp_all add: at_def)

lemma at_Cons: "plain n \<Longrightarrow> at (n # cs) x = at cs (child n x)"
  by (cases x) (auto simp: at_def child_def plain_def split: option.splits)

definition added_at :: "FileInfo option \<Rightarrow> FileInfo option \<Rightarrow> string list \<Rightarrow> bool" where
  "added_at old new cs \<longleftrightarrow> at cs old = None \<and> at cs new \<noteq> None"

definition deleted_at :: "FileInfo option \<Rightarrow> FileInfo option \<Rightarrow> string list \<Rightarrow> bool" where
  "deleted_at old new cs \<longleftrightarrow>
     cs \<noteq> [] \<and> at cs old \<noteq> None \<and> at cs new = None \<and> (\<exists>d. at (butlast cs) new = Some d \<and> isDir d)"

definition differs_at :: "FileInfo option \<Rightarrow> FileInfo option \<Rightarrow> string list \<Rightarrow> bool" where
  "differs_at old new cs \<longleftrightarrow> (\<exists>a b. at cs old = Some a \<and> at cs new = Some b \<and> child_differs a b)"

definition touched_at :: "FileInfo option \<Rightarrow> FileInfo option \<Rightarrow> string list \<Rightarrow> bool" where
  "touched_at old new cs \<longleftrightarrow> added_at old new cs \<or> deleted_at old new cs \<or> differs_at old new cs"

definition modified_at :: "FileInfo option \<Rightarrow> FileInfo option \<Rightarrow> string list \<Rightarrow> bool" where
  "modified_at old new cs \<longleftrightarrow>
     (\<exists>a b. at cs old = Some a \<and> at cs new = Some b \<and>
        (child_differs a b \<or> isDir b \<and> (\<exists>ds. ds \<noteq> [] \<and> list_all plain ds \<and> touched_at old new (cs @ ds))))"

definition reported :: "FileInfo option \<Rightarrow> FileInfo option \<Rightarrow> ChangeType \<Rightarrow> string list \<Rightarrow> bool" where
  "reported old new k cs \<longleftrightarrow>
     (case k of ChangeAdd \<Rightarrow> added_at old new cs | ChangeDelete \<Rightarrow> deleted_at old new cs
      | ChangeModify \<Rightarrow> modified_at old new cs)"

lemmas spec_defs = reported_def added_at_def deleted_at_def differs_at_def modified_at_def touched_at_def

text \<open>One component further down.\<close>

lemma deleted_at_Cons:
  assumes "plain n"
  shows "deleted_at old new (n # cs) \<longleftrightarrow>
    (if cs = [] then child n old \<noteq> None \<and> child n new = None \<and> (\<exists>d. new = Some d \<and> isDir d)
     else deleted_at (child n old) (child n new) cs)"
  using assms by (auto simp: deleted_at_def at_Cons)

lemma touched_at_Cons:
  assumes "plain n" and "child n new \<noteq> None"
  shows "touched_at old new (n # cs) \<longleftrightarrow> touched_at (child n old) (child n new) cs"
  using assms by (auto simp: touched_at_def added_at_def differs_at_def at_Cons deleted_at_Cons) (auto simp: deleted_at_def)

lemma modified_at_Cons:
  assumes "plain n"
  shows "modified_at old new (n # cs) \<longleftrightarrow> modified_at (child n old) (child n new) cs"
proof (cases "child n new")
  case None
  then show ?thesis using assms by (simp add: modified_at_def at_Cons)
next
  case Some
  then show ?thesis using assms by (simp add: modified_at_def at_Cons touched_at_Cons)
qed

lemma reported_Cons:
  assumes "plain n" and "child n new = Some c"
  shows "reported old new k (n # cs) \<longleftrightarrow> reported (child n old) (Some c) k cs"
  using assms
  by (cases k; cases "cs = []")
    (simp_all add: reported_def added_at_def at_Cons deleted_at_Cons modified_at_Cons, simp add: deleted_at_def)

lemma reported_Cons_None:
  assumes "plain n" and "child n new = None"
  shows "reported old new k (n # cs) \<longleftrightarrow>
    k = ChangeDelete \<and> cs = [] \<and> child n old \<noteq> None \<and> (\<exists>d. new = Some d \<and> isDir d)"
  using assms
  by (cases k; cases "cs = []")
    (simp_all add: reported_def added_at_def at_Cons deleted_at_Cons modified_at_Cons, simp_all add: deleted_at_def modified_at_def)

text \<open>What the two loops over the children report.\<close>

definition child_reported ::
  "(string \<times> FileInfo) list \<Rightarrow> (string \<times> FileInfo) list \<Rightarrow> ChangeType \<Rightarrow> string \<Rightarrow> string list \<Rightarrow> bool" where
  "child_reported olds cs k n ds \<longleftrightarrow>
     (case map_of cs n of
        None \<Rightarrow> k = ChangeDelete \<and> ds = [] \<and> map_of olds n \<noteq> None
      | Some c \<Rightarrow> reported (map_of olds n) (Some c) k ds)"

definition old_children :: "FileInfo option \<Rightarrow> FileInfo \<Rightarrow> (string \<times> FileInfo) list" where
  "old_children old new = (case old of None \<Rightarrow> [] | Some i \<Rightarrow> if isDir new then fi_children i else [])"

lemma reported_child:
  assumes "wf_info new" and "plain n"
  shows "reported old (Some new) k (n # ds) \<longleftrightarrow> child_reported (old_children old new) (fi_children new) k n ds"
proof (cases "map_of (fi_children new) n")
  case None
  then have "child n (Some new) = None" by (simp add: child_def)
  with None assms(2) show ?thesis
    by (auto simp: reported_Cons_None child_reported_def old_children_def child_def split: option.splits)
next
  case (Some c)
  then have "child n (Some new) = Some c" by (simp add: child_def)
  moreover have "isDir new" using Some assms(1) by (auto simp: wf_info_children)
  then have "child n old = map_of (old_children old new) n"
    by (cases old) (simp_all add: child_def old_children_def)
  ultimately show ?thesis using Some assms(2) by (simp add: reported_Cons child_reported_def)
qed

text \<open>The code reports what the specification says, one level at a time.\<close>

lemma child_reported_Cons:
  assumes "wf_children ((n, c) # cs)" and "wf_children olds"
  shows "child_reported olds ((n, c) # cs) k m ds \<longleftrightarrow>
    (if m = n then reported (map_of olds n) (Some c) k ds else child_reported (AList.delete n olds) cs k m ds)"
  using assms by (auto simp: child_reported_def split: option.splits)

lemma child_reported_Nil:
  "child_reported olds [] k m ds \<longleftrightarrow> k = ChangeDelete \<and> ds = [] \<and> map_of olds m \<noteq> None"
  by (simp add: child_reported_def)

lemma touched_reported:
  "(\<exists>ds. ds \<noteq> [] \<and> list_all plain ds \<and> touched_at old new ds) \<longleftrightarrow>
   (\<exists>k n ds. plain n \<and> list_all plain ds \<and> reported old new k (n # ds))" (is "?L \<longleftrightarrow> ?R")
proof
  assume ?L
  then obtain ds where ds: "ds \<noteq> []" "list_all plain ds" "touched_at old new ds" by blast
  then obtain n es where [simp]: "ds = n # es" by (cases ds) auto
  from ds(3) have "\<exists>k. reported old new k ds"
    by (auto simp: touched_at_def differs_at_def modified_at_def reported_def
        intro: exI [of _ ChangeAdd] exI [of _ ChangeDelete] exI [of _ ChangeModify])
  with ds show ?R by auto
next
  assume ?R
  then obtain k n ds where r: "plain n" "list_all plain ds" "reported old new k (n # ds)" by blast
  show ?L
  proof (cases k)
    case ChangeModify
    with r(3) obtain es where "list_all plain es" "touched_at old new (n # ds @ es)"
      by (auto simp: reported_def modified_at_def) (auto simp: touched_at_def differs_at_def intro: that [of "[]"])
    with r show ?thesis by (intro exI [of _ "n # ds @ es"]) simp
  qed (use r in \<open>auto simp: reported_def touched_at_def intro!: exI [of _ "n # ds"]\<close>)
qed

lemma wf_old_children:
  assumes "\<And>i. old = Some i \<Longrightarrow> wf_info i" shows "wf_children (old_children old new)"
proof (cases old)
  case (Some i)
  then show ?thesis using assms wf_info_children [of i] by (simp add: old_children_def)
qed (simp add: old_children_def)

lemma addChanges_eq:
  "addChanges added path old info =
    (let new = (if old = None then [\<lparr>ch_Path = path, ch_Kind = ChangeAdd\<rparr>] else []) @
        children_changes path (old_children old info) (fi_children info)
     in if new \<noteq> [] \<and> isDir info \<and> old \<noteq> None \<and> \<not> added \<and> path \<noteq> [slash]
        then \<lparr>ch_Path = path, ch_Kind = ChangeModify\<rparr> # new else new)"
  by (cases info; cases old) (simp_all add: addChanges.simps old_children_def Let_def)

lemma reported_Nil:
  "reported old (Some new) k [] \<longleftrightarrow>
     (case k of ChangeAdd \<Rightarrow> old = None | ChangeDelete \<Rightarrow> False
      | ChangeModify \<Rightarrow> (\<exists>a. old = Some a \<and> (child_differs a new \<or>
          isDir new \<and> (\<exists>ds. ds \<noteq> [] \<and> list_all plain ds \<and> touched_at old (Some new) ds))))"
  by (cases k) (simp_all add: reported_def added_at_def deleted_at_def modified_at_def)

lemma abs_path_root: "list_all plain ps \<Longrightarrow> abs_path ps = [slash] \<longleftrightarrow> ps = []"
  using abs_path_inject [of ps "[]"] by simp

text \<open>The step of the proof for one info, given what its children report.\<close>

lemma addChanges_step:
  assumes "\<And>i. oldInfo = Some i \<Longrightarrow> child_differs i info \<Longrightarrow> added" and "list_all plain ps" and "ps = [] \<Longrightarrow> \<not> added"
    and inner: "\<And>c. c \<in> set (children_changes (abs_path ps) (old_children oldInfo info) (fi_children info)) \<longleftrightarrow>
      (\<exists>k n ds. plain n \<and> list_all plain ds \<and> c = \<lparr>ch_Path = abs_path (ps @ n # ds), ch_Kind = k\<rparr> \<and>
         reported oldInfo (Some info) k (n # ds))"
  shows "c \<in> set (addChanges added (abs_path ps) oldInfo info) \<longleftrightarrow>
    (\<exists>k ds. list_all plain ds \<and> c = \<lparr>ch_Path = abs_path (ps @ ds), ch_Kind = k\<rparr> \<and>
       reported oldInfo (Some info) k ds \<and> \<not> (ds = [] \<and> k = ChangeModify \<and> (added \<or> ps = [])))" (is "_ \<longleftrightarrow> ?R")
proof -
  let ?W = "children_changes (abs_path ps) (old_children oldInfo info) (fi_children info)"
  let ?T = "\<exists>ds. ds \<noteq> [] \<and> list_all plain ds \<and> touched_at oldInfo (Some info) ds"
  have "?W \<noteq> [] \<longleftrightarrow> (\<exists>c. c \<in> set ?W)" by (cases ?W) auto
  also have "\<dots> \<longleftrightarrow> ?T" unfolding inner touched_reported by blast
  finally have ne: "?W \<noteq> [] \<longleftrightarrow> ?T" .
  have split: "?R \<longleftrightarrow> (oldInfo = None \<and> c = \<lparr>ch_Path = abs_path ps, ch_Kind = ChangeAdd\<rparr>) \<or>
      (c = \<lparr>ch_Path = abs_path ps, ch_Kind = ChangeModify\<rparr> \<and> reported oldInfo (Some info) ChangeModify [] \<and>
         \<not> added \<and> ps \<noteq> []) \<or> c \<in> set ?W" (is "_ \<longleftrightarrow> ?A \<or> ?M \<or> _")
  proof
    assume ?R
    then obtain k ds where r: "list_all plain ds" "c = \<lparr>ch_Path = abs_path (ps @ ds), ch_Kind = k\<rparr>"
      "reported oldInfo (Some info) k ds" "\<not> (ds = [] \<and> k = ChangeModify \<and> (added \<or> ps = []))" by blast
    show "?A \<or> ?M \<or> c \<in> set ?W"
    proof (cases ds)
      case Nil
      with r show ?thesis by (cases k) (auto simp: reported_Nil)
    next
      case (Cons n es)
      with r have "c \<in> set ?W" unfolding inner by auto
      then show ?thesis by simp
    qed
  next
    assume "?A \<or> ?M \<or> c \<in> set ?W"
    then show ?R
    proof (elim disjE)
      assume ?A
      then show ?R by (intro exI [of _ ChangeAdd] exI [of _ "[]"]) (simp add: reported_Nil)
    next
      assume ?M
      then show ?R by (intro exI [of _ ChangeModify] exI [of _ "[]"]) simp
    next
      assume "c \<in> set ?W"
      then obtain k n ds where "plain n" "list_all plain ds" "c = \<lparr>ch_Path = abs_path (ps @ n # ds), ch_Kind = k\<rparr>"
        "reported oldInfo (Some info) k (n # ds)" unfolding inner by blast
      then show ?R by (intro exI [of _ k] exI [of _ "n # ds"]) simp
    qed
  qed
  have "reported oldInfo (Some info) ChangeModify [] \<and> \<not> added \<longleftrightarrow> oldInfo \<noteq> None \<and> isDir info \<and> ?W \<noteq> [] \<and> \<not> added"
    unfolding ne using assms(1) by (auto simp: reported_Nil)
  with split show ?thesis
    using abs_path_root [OF assms(2)] by (auto simp: addChanges_eq Let_def)
qed

text \<open>An info's own modification is recorded by its parent, everything else by the info.\<close>

lemma own_change_split:
  assumes "d \<Longrightarrow> R ChangeModify []"
  shows "(d \<and> c = \<lparr>ch_Path = f [], ch_Kind = ChangeModify\<rparr>) \<or>
      (\<exists>k ds. list_all plain ds \<and> c = \<lparr>ch_Path = f ds, ch_Kind = k\<rparr> \<and> R k ds \<and> \<not> (ds = [] \<and> k = ChangeModify \<and> d)) \<longleftrightarrow>
    (\<exists>k ds. list_all plain ds \<and> c = \<lparr>ch_Path = f ds, ch_Kind = k\<rparr> \<and> R k ds)"
proof -
  have "list_all plain []" by simp
  with assms show ?thesis by blast
qed

lemma children_Nil_spec:
  assumes "wf_children olds" and "list_all plain ps"
  shows "c \<in> set (children_changes (abs_path ps) olds []) \<longleftrightarrow>
    (\<exists>k n ds. plain n \<and> list_all plain ds \<and> c = \<lparr>ch_Path = abs_path (ps @ n # ds), ch_Kind = k\<rparr> \<and>
       child_reported olds [] k n ds)"
proof -
  have pl: "plain n" if "n \<in> fst ` set olds" for n using that assms(1) by (auto simp: wf_children_def)
  then have "\<lparr>ch_Path = Join [abs_path ps, n], ch_Kind = ChangeDelete\<rparr> =
      \<lparr>ch_Path = abs_path (ps @ [n]), ch_Kind = ChangeDelete\<rparr>" if "n \<in> fst ` set olds" for n
    using that assms(2) by (simp add: Join_abs_path del: Join.simps)
  then have "set (children_changes (abs_path ps) olds []) =
      (\<lambda>n. \<lparr>ch_Path = abs_path (ps @ [n]), ch_Kind = ChangeDelete\<rparr>) ` fst ` set olds"
    by (simp add: children_changes.simps image_image split_beta del: Join.simps)
  with pl show ?thesis by (auto simp: child_reported_Nil map_of_eq_None_iff simp del: Join.simps)
qed

lemma child_reported_split:
  assumes "wf_children ((n, c') # cs)" and "wf_children olds"
  shows "(\<exists>k m ds. plain m \<and> list_all plain ds \<and> c = \<lparr>ch_Path = abs_path (ps @ m # ds), ch_Kind = k\<rparr> \<and>
      child_reported olds ((n, c') # cs) k m ds) \<longleftrightarrow>
    (\<exists>k ds. list_all plain ds \<and> c = \<lparr>ch_Path = abs_path (ps @ n # ds), ch_Kind = k\<rparr> \<and>
      reported (map_of olds n) (Some c') k ds) \<or>
    (\<exists>k m ds. plain m \<and> list_all plain ds \<and> c = \<lparr>ch_Path = abs_path (ps @ m # ds), ch_Kind = k\<rparr> \<and>
      child_reported (AList.delete n olds) cs k m ds)"
proof -
  have n: "plain n" "n \<notin> fst ` set cs" using assms(1) by auto
  have "\<not> child_reported (AList.delete n olds) cs k n ds" for k ds
    using n(2) by (auto simp: child_reported_def map_of_eq_None_iff [symmetric] split: option.splits)
  then have E: "child_reported olds ((n, c') # cs) k m ds \<longleftrightarrow>
      m = n \<and> reported (map_of olds n) (Some c') k ds \<or> child_reported (AList.delete n olds) cs k m ds" for k m ds
    unfolding child_reported_Cons [OF assms] by auto
  show ?thesis unfolding E using n(1) by blast
qed

definition differs_from :: "FileInfo option \<Rightarrow> FileInfo \<Rightarrow> bool" where
  "differs_from old new \<longleftrightarrow> (case old of None \<Rightarrow> False | Some i \<Rightarrow> child_differs i new)"

lemma children_changes_Cons:
  "children_changes path olds ((n, new) # children) =
    (if differs_from (map_of olds n) new then [\<lparr>ch_Path = Join [path, n], ch_Kind = ChangeModify\<rparr>] else []) @
    addChanges (differs_from (map_of olds n) new) (Join [path, n]) (map_of olds n) new @
    children_changes path (AList.delete n olds) children"
  by (simp add: children_changes.simps Let_def differs_from_def del: Join.simps)

text \<open>What is recorded for one child, by its parent and by itself.\<close>

lemma child_changes_spec:
  assumes "c \<in> set (addChanges (differs_from old new) (abs_path (ps @ [n])) old new) \<longleftrightarrow>
      (\<exists>k ds. list_all plain ds \<and> c = \<lparr>ch_Path = abs_path ((ps @ [n]) @ ds), ch_Kind = k\<rparr> \<and>
         reported old (Some new) k ds \<and> \<not> (ds = [] \<and> k = ChangeModify \<and> (differs_from old new \<or> ps @ [n] = [])))"
  shows "c \<in> set (if differs_from old new then [\<lparr>ch_Path = abs_path (ps @ [n]), ch_Kind = ChangeModify\<rparr>] else []) \<or>
      c \<in> set (addChanges (differs_from old new) (abs_path (ps @ [n])) old new) \<longleftrightarrow>
    (\<exists>k ds. list_all plain ds \<and> c = \<lparr>ch_Path = abs_path (ps @ n # ds), ch_Kind = k\<rparr> \<and> reported old (Some new) k ds)"
proof -
  have "differs_from old new \<Longrightarrow> reported old (Some new) ChangeModify []"
    by (auto simp: differs_from_def reported_Nil split: option.splits)
  from own_change_split [where R = "reported old (Some new)" and d = "differs_from old new" and c = c and f = "\<lambda>ds. abs_path (ps @ n # ds)", OF this]
  show ?thesis using assms by (cases "differs_from old new") simp_all
qed

lemma addChanges_spec:
  "wf_info info \<Longrightarrow> (\<And>i. oldInfo = Some i \<Longrightarrow> wf_info i \<and> (child_differs i info \<longrightarrow> added)) \<Longrightarrow> list_all plain ps \<Longrightarrow>
     path = abs_path ps \<Longrightarrow> (ps = [] \<Longrightarrow> \<not> added) \<Longrightarrow>
     (c \<in> set (addChanges added path oldInfo info) \<longleftrightarrow>
       (\<exists>k ds. list_all plain ds \<and> c = \<lparr>ch_Path = abs_path (ps @ ds), ch_Kind = k\<rparr> \<and>
          reported oldInfo (Some info) k ds \<and> \<not> (ds = [] \<and> k = ChangeModify \<and> (added \<or> ps = []))))"
  and children_changes_spec:
  "wf_children children \<Longrightarrow> wf_children olds \<Longrightarrow> list_all plain ps \<Longrightarrow> path = abs_path ps \<Longrightarrow>
     (c \<in> set (children_changes path olds children) \<longleftrightarrow>
       (\<exists>k n ds. plain n \<and> list_all plain ds \<and> c = \<lparr>ch_Path = abs_path (ps @ n # ds), ch_Kind = k\<rparr> \<and>
          child_reported olds children k n ds))"
proof (induction added path oldInfo info and path olds children arbitrary: ps c and ps c
    rule: addChanges_children_changes.induct)
  case (1 added path oldInfo st cap cs)
  let ?i = "FileInfo st cap cs" and ?olds = "old_children oldInfo (FileInfo st cap cs)"
  have wf: "wf_children cs" "wf_children ?olds"
    using "1.prems"(1,2) wf_info_children [of ?i] by (auto intro: wf_old_children)
  have eq: "(case oldInfo of None \<Rightarrow> [] | Some i \<Rightarrow> if isDir ?i then fi_children i else []) = ?olds"
    by (simp add: old_children_def)
  note IH = "1.IH" [OF refl refl refl refl, unfolded eq, OF wf "1.prems"(3,4)]
  have "child_differs i ?i \<Longrightarrow> added" if "oldInfo = Some i" for i using "1.prems"(2) [OF that] by blast
  moreover have "c \<in> set (children_changes path ?olds cs) \<longleftrightarrow>
      (\<exists>k n ds. plain n \<and> list_all plain ds \<and> c = \<lparr>ch_Path = abs_path (ps @ n # ds), ch_Kind = k\<rparr> \<and>
         reported oldInfo (Some ?i) k (n # ds))" for c
    unfolding IH by (simp add: reported_child [OF "1.prems"(1)] cong: conj_cong)
  ultimately show ?case
    unfolding "1.prems"(4) using "1.prems"(3,5) by (intro addChanges_step) auto
next
  case (2 path olds)
  then show ?case by (simp add: children_Nil_spec)
next
  case (3 path olds n c' cs)
  have wf: "plain n" "wf_info c'" "wf_children cs" using "3.prems"(1) by auto
  have p: "Join [path, n] = abs_path (ps @ [n])"
    using "3.prems"(3,4) wf(1) by (simp add: Join_abs_path del: Join.simps)
  note IH = "3.IH" [OF refl refl refl, folded differs_from_def]
  have "c \<in> set (addChanges (differs_from (map_of olds n) c') (Join [path, n]) (map_of olds n) c') \<longleftrightarrow>
      (\<exists>k ds. list_all plain ds \<and> c = \<lparr>ch_Path = abs_path ((ps @ [n]) @ ds), ch_Kind = k\<rparr> \<and>
         reported (map_of olds n) (Some c') k ds \<and>
         \<not> (ds = [] \<and> k = ChangeModify \<and> (differs_from (map_of olds n) c' \<or> ps @ [n] = [])))"
    using "3.prems"(2,3) wf p wf_children_lookup(2) [of olds n]
    by (intro IH(1)) (auto simp: differs_from_def)
  note own = child_changes_spec [OF this [unfolded p]]
  have "c \<in> set (children_changes path (AList.delete n olds) cs) \<longleftrightarrow>
      (\<exists>k m ds. plain m \<and> list_all plain ds \<and> c = \<lparr>ch_Path = abs_path (ps @ m # ds), ch_Kind = k\<rparr> \<and>
         child_reported (AList.delete n olds) cs k m ds)"
    using "3.prems" wf by (intro IH(2)) auto
  with own show ?case
    unfolding child_reported_split [OF "3.prems"(1,2)] children_changes_Cons p 
    by (simp only: set_append Un_iff disj_assoc [symmetric])
qed

section \<open>Paths are reported once\<close>

lemma reported_unique: "reported old new k cs \<Longrightarrow> reported old new k' cs \<Longrightarrow> k = k'"
  by (auto simp: reported_def added_at_def deleted_at_def modified_at_def split: ChangeType.splits)

lemma plain_snoc_inject:
  assumes "list_all plain ps" "plain n" "plain m" "list_all plain ds" "list_all plain es"
    and "abs_path (ps @ n # ds) = abs_path (ps @ m # es)"
  shows "n = m" and "ds = es"
  using assms by (simp_all add: abs_path_inject)

lemma distinct_changes:
  "wf_info info \<Longrightarrow> (\<And>i. oldInfo = Some i \<Longrightarrow> wf_info i \<and> (child_differs i info \<longrightarrow> added)) \<Longrightarrow> list_all plain ps \<Longrightarrow>
     path = abs_path ps \<Longrightarrow> (ps = [] \<Longrightarrow> \<not> added) \<Longrightarrow>
     distinct (map ch_Path (addChanges added path oldInfo info)) \<and>
     (oldInfo \<noteq> None \<and> added \<longrightarrow> path \<notin> ch_Path ` set (addChanges added path oldInfo info))"
  and
  "wf_children children \<Longrightarrow> wf_children olds \<Longrightarrow> list_all plain ps \<Longrightarrow> path = abs_path ps \<Longrightarrow>
     distinct (map ch_Path (children_changes path olds children))"
proof (induction added path oldInfo info and path olds children arbitrary: ps and ps
    rule: addChanges_children_changes.induct)
  case (1 added path oldInfo st cap cs)
  let ?i = "FileInfo st cap cs" and ?olds = "old_children oldInfo (FileInfo st cap cs)"
  have wf: "wf_children cs" "wf_children ?olds"
    using "1.prems"(1,2) wf_info_children [of ?i] by (auto intro: wf_old_children)
  have eq: "(case oldInfo of None \<Rightarrow> [] | Some i \<Rightarrow> if isDir ?i then fi_children i else []) = ?olds"
    by (simp add: old_children_def)
  note IH = "1.IH" [OF refl refl refl refl, unfolded eq, OF wf "1.prems"(3,4)]
  have "abs_path ps \<noteq> abs_path (ps @ n # ds)" if "plain n" "list_all plain ds" for n ds
    using that "1.prems"(3) by (simp add: abs_path_inject)
  then have "ch_Path c \<noteq> path" if "c \<in> set (children_changes path ?olds cs)" for c
    using that unfolding children_changes_spec [OF wf "1.prems"(3,4)] unfolding "1.prems"(4) by force
  then have "path \<notin> ch_Path ` set (children_changes path ?olds cs)" by blast
  with IH show ?case by (auto simp: addChanges_eq Let_def)
next
  case (2 path olds)
  have "inj_on (\<lambda>n. Join [path, n]) (fst ` set olds)"
  proof (rule inj_onI)
    fix n m assume nm: "n \<in> fst ` set olds" "m \<in> fst ` set olds" "Join [path, n] = Join [path, m]"
    then have "plain n" "plain m" using "2.prems"(2) by (auto simp: wf_children_def)
    with nm(3) "2.prems"(3,4) show "n = m"
      by (simp add: Join_abs_path abs_path_inject del: Join.simps)
  qed
  moreover have "distinct (map fst olds)" using "2.prems"(2) by (simp add: wf_children_def)
  ultimately have "distinct (map (\<lambda>n. Join [path, n]) (map fst olds))"
    by (simp add: distinct_map comp_inj_on del: Join.simps)
  then show ?case by (simp add: children_changes.simps comp_def split_beta del: Join.simps)
next
  case (3 path olds n c' cs)
  have wf: "plain n" "wf_info c'" "wf_children cs" "n \<notin> fst ` set cs" using "3.prems"(1) by auto
  have p: "Join [path, n] = abs_path (ps @ [n])"
    using "3.prems"(3,4) wf(1) by (simp add: Join_abs_path del: Join.simps)
  note IH = "3.IH" [OF refl refl refl, folded differs_from_def]
  let ?A = "addChanges (differs_from (map_of olds n) c') (Join [path, n]) (map_of olds n) c'"
  let ?R = "children_changes path (AList.delete n olds) cs"
  have old: "wf_info i \<and> (child_differs i c' \<longrightarrow> differs_from (map_of olds n) c')" if "map_of olds n = Some i" for i
    using that wf_children_lookup(2) [OF "3.prems"(2) that] by (simp add: differs_from_def)
  have pl: "list_all plain (ps @ [n])" using "3.prems"(3) wf(1) by simp
  have A: "distinct (map ch_Path ?A)" "differs_from (map_of olds n) c' \<longrightarrow> Join [path, n] \<notin> ch_Path ` set ?A"
    using IH(1) [OF wf(2) old pl p] by (auto simp: differs_from_def split: option.splits)
  have R: "distinct (map ch_Path ?R)" using "3.prems" wf by (intro IH(2)) auto
  have inA: "\<exists>ds. list_all plain ds \<and> ch_Path c = abs_path (ps @ n # ds)" if "c \<in> set ?A" for c
  proof -
    have "\<not> differs_from (map_of olds n) c'" if "ps @ [n] = []" using that by simp
    from \<open>c \<in> set ?A\<close> addChanges_spec [OF wf(2) old pl p this] show ?thesis by auto
  qed
  have inR: "\<exists>m ds. m \<noteq> n \<and> plain m \<and> list_all plain ds \<and> ch_Path c = abs_path (ps @ m # ds)" if "c \<in> set ?R" for c
  proof -
    have "wf_children (AList.delete n olds)" using "3.prems"(2) by simp
    from that children_changes_spec [OF wf(3) this "3.prems"(3,4)] obtain k m ds
      where m: "plain m" "list_all plain ds" "c = \<lparr>ch_Path = abs_path (ps @ m # ds), ch_Kind = k\<rparr>"
        "child_reported (AList.delete n olds) cs k m ds" by blast
    then have "m \<noteq> n" using wf(4)
      by (auto simp: child_reported_def map_of_eq_None_iff [symmetric] split: option.splits)
    with m show ?thesis by auto
  qed
  have "ch_Path c \<noteq> ch_Path d" if "c \<in> set ?A" "d \<in> set ?R" for c d
    using inA [OF that(1)] inR [OF that(2)] plain_snoc_inject(1) [OF "3.prems"(3) wf(1)] by metis
  then have "ch_Path ` set ?A \<inter> ch_Path ` set ?R = {}" by blast
  moreover have "Join [path, n] \<noteq> ch_Path d" if "d \<in> set ?R" for d
    using inR [OF that] plain_snoc_inject(1) [OF "3.prems"(3) wf(1), where ds = "[]"] unfolding p by force
  then have "Join [path, n] \<notin> ch_Path ` set ?R" by blast
  ultimately show ?case unfolding children_changes_Cons using A R by (auto simp del: Join.simps)
qed

section \<open>The changes between two trees\<close>

text \<open>Only the root has no stat.\<close>

definition wf_root :: "FileInfo \<Rightarrow> bool" where
  "wf_root i \<longleftrightarrow> wf_info i \<and> fi_stat i = None"

lemma root_not_differs: "wf_root new \<Longrightarrow> \<not> child_differs old new"
  by (auto simp: wf_root_def child_differs_def split: option.splits)

lemma FileInfo_Changes_iff:
  assumes "wf_info old" and "wf_root new"
  shows "c \<in> set (FileInfo_Changes (Some old) new) \<longleftrightarrow>
    (\<exists>k cs. cs \<noteq> [] \<and> list_all plain cs \<and> c = \<lparr>ch_Path = abs_path cs, ch_Kind = k\<rparr> \<and> reported (Some old) (Some new) k cs)"
proof -
  have "c \<in> set (addChanges False [slash] (Some old) new) \<longleftrightarrow>
      (\<exists>k ds. list_all plain ds \<and> c = \<lparr>ch_Path = abs_path ([] @ ds), ch_Kind = k\<rparr> \<and>
         reported (Some old) (Some new) k ds \<and> \<not> (ds = [] \<and> k = ChangeModify \<and> (False \<or> ([] :: string list) = [])))"
    using assms root_not_differs [OF assms(2), of old] by (intro addChanges_spec) (auto simp: wf_root_def)
  moreover have "\<not> reported (Some old) (Some new) k []" if "k \<noteq> ChangeModify" for k
    using that by (auto simp: reported_Nil split: ChangeType.splits)
  ultimately have iff: "c \<in> set (FileInfo_Changes (Some old) new) \<longleftrightarrow>
      (\<exists>k ds. list_all plain ds \<and> c = \<lparr>ch_Path = abs_path ds, ch_Kind = k\<rparr> \<and> reported (Some old) (Some new) k ds \<and>
         ds \<noteq> [])"
    unfolding FileInfo_Changes_def by (metis append_Nil)
  show ?thesis unfolding iff by blast
qed

lemma distinct_FileInfo_Changes:
  assumes "wf_info old" and "wf_root new"
  shows "distinct (map ch_Path (FileInfo_Changes (Some old) new))"
  using distinct_changes(1) [of new "Some old" False "[]" "[slash]"] assms root_not_differs [OF assms(2), of old]
  by (simp add: FileInfo_Changes_def wf_root_def)

text \<open>
  The list depends on the two trees only through what a lookup finds in them, and a node that has the
  same stat and capability in both trees may be missing from both, with everything below it.
\<close>

definition meta :: "FileInfo option \<Rightarrow> (StatT option \<times> bytes option) option" where
  "meta x = map_option (\<lambda>i. (fi_stat i, fi_capability i)) x"

definition agree_at ::
  "FileInfo option \<Rightarrow> FileInfo option \<Rightarrow> FileInfo option \<Rightarrow> FileInfo option \<Rightarrow> string list \<Rightarrow> bool" where
  "agree_at old new old' new' cs \<longleftrightarrow>
     meta (at cs old) = meta (at cs old') \<and> meta (at cs new) = meta (at cs new') \<or>
     at cs old' = None \<and> at cs new' = None \<and> meta (at cs old) = meta (at cs new)"

lemma meta_None [simp]: "meta None = None" "meta x = None \<longleftrightarrow> x = None" "None = meta x \<longleftrightarrow> x = None"
  by (simp_all add: meta_def)

lemma meta_child_differs:
  "meta (Some a) = meta (Some a') \<Longrightarrow> meta (Some b) = meta (Some b') \<Longrightarrow> child_differs a b = child_differs a' b'"
  by (cases "fi_stat a'"; cases "fi_stat b'") (simp_all add: meta_def child_differs_def)

lemma meta_isDir: "meta (Some a) = meta (Some a') \<Longrightarrow> isDir a = isDir a'"
  by (simp add: meta_def isDir_def)

lemma meta_not_differs: "meta (Some a) = meta (Some b) \<Longrightarrow> \<not> child_differs a b"
  by (simp add: meta_def child_differs_def split: option.splits)

lemma meta_SomeE:
  assumes "meta x = meta (Some b)" obtains a where "x = Some a" "meta (Some a) = meta (Some b)"
  using assms by (cases x) (auto simp: meta_def)

lemma fi_at_append: "fi_at (cs @ ds) i = Option.bind (fi_at cs i) (fi_at ds)"
  by (induction cs i rule: fi_at.induct) (auto split: option.splits)

lemma at_append: "at (cs @ ds) x = at ds (at cs x)"
  by (cases x) (simp_all add: at_def fi_at_append)

lemma at_butlast: "at cs x \<noteq> None \<Longrightarrow> at (butlast cs) x \<noteq> None"
  using at_append [of "butlast cs" "[last cs]" x] by (cases "cs = []"; cases "at (butlast cs) x") auto

lemma agree_differs:
  assumes "agree_at old new old' new' cs"
  shows "differs_at old new cs \<longleftrightarrow> differs_at old' new' cs"
proof -
  from assms consider
      "meta (at cs old) = meta (at cs old')" "meta (at cs new) = meta (at cs new')"
    | "at cs old' = None" "at cs new' = None" "meta (at cs old) = meta (at cs new)"
    by (auto simp: agree_at_def)
  then show ?thesis
  proof cases
    case 1
    then show ?thesis unfolding differs_at_def
      by (cases "at cs old"; cases "at cs new"; cases "at cs old'"; cases "at cs new'")
        (auto dest: meta_child_differs)
  next
    case 2
    then show ?thesis unfolding differs_at_def using meta_not_differs by (metis option.distinct(1))
  qed
qed

lemma agree_deleted:
  assumes "agree_at old new old' new' cs" and "agree_at old new old' new' (butlast cs)"
  shows "deleted_at old new cs \<longleftrightarrow> deleted_at old' new' cs"
proof (cases "meta (at cs old) = meta (at cs old') \<and> meta (at cs new) = meta (at cs new')")
  case True
  then have iff: "at cs old = None \<longleftrightarrow> at cs old' = None" "at cs new = None \<longleftrightarrow> at cs new' = None"
    by (metis meta_None(2))+
  show ?thesis
  proof (cases "at cs old' = None")
    case False
    then have "at (butlast cs) old' \<noteq> None" by (rule at_butlast)
    with assms(2) have "meta (at (butlast cs) new) = meta (at (butlast cs) new')" by (auto simp: agree_at_def)
    then have "(\<exists>d. at (butlast cs) new = Some d \<and> isDir d) \<longleftrightarrow> (\<exists>d. at (butlast cs) new' = Some d \<and> isDir d)"
      by (cases "at (butlast cs) new"; cases "at (butlast cs) new'") (auto dest: meta_isDir)
    with iff show ?thesis by (simp add: deleted_at_def)
  qed (use iff in \<open>simp add: deleted_at_def\<close>)
next
  case False
  with assms(1) have "at cs old' = None" "meta (at cs old) = meta (at cs new)" by (auto simp: agree_at_def)
  then show ?thesis by (auto simp: deleted_at_def)
qed

lemma agree_added: "agree_at old new old' new' cs \<Longrightarrow> added_at old new cs \<longleftrightarrow> added_at old' new' cs"
  unfolding agree_at_def added_at_def by (metis meta_None(2))

lemma reported_agree:
  assumes agree: "\<And>cs. list_all plain cs \<Longrightarrow> agree_at old new old' new' cs" and cs: "list_all plain cs"
  shows "reported old new k cs \<longleftrightarrow> reported old' new' k cs"
proof -
  have deleted: "deleted_at old new ds \<longleftrightarrow> deleted_at old' new' ds" if "list_all plain ds" for ds
    using that agree by (intro agree_deleted) (auto simp: list_all_iff dest: in_set_butlastD)
  have touched: "touched_at old new ds \<longleftrightarrow> touched_at old' new' ds" if "list_all plain ds" for ds
    using agree_added [OF agree [OF that]] agree_differs [OF agree [OF that]] deleted [OF that]
    by (simp add: touched_at_def)
  have "modified_at old new cs \<longleftrightarrow> modified_at old' new' cs"
  proof (cases "meta (at cs old) = meta (at cs old') \<and> meta (at cs new) = meta (at cs new')")
    case True
    moreover have "(\<exists>ds. ds \<noteq> [] \<and> list_all plain ds \<and> touched_at old new (cs @ ds)) \<longleftrightarrow>
        (\<exists>ds. ds \<noteq> [] \<and> list_all plain ds \<and> touched_at old' new' (cs @ ds))"
      using touched cs by (metis list_all_append)
    ultimately show ?thesis unfolding modified_at_def
      by (cases "at cs old"; cases "at cs new"; cases "at cs old'"; cases "at cs new'")
        (auto dest: meta_child_differs meta_isDir)
  next
    case False
    with agree [OF cs] have none: "at cs old' = None" "at cs new' = None" and eq: "meta (at cs old) = meta (at cs new)"
      by (auto simp: agree_at_def)
    have "\<not> touched_at old' new' (cs @ ds)" for ds
      using none by (simp add: touched_at_def added_at_def deleted_at_def differs_at_def at_append)
    with touched cs have "\<not> touched_at old new (cs @ ds)" if "list_all plain ds" for ds
      using that by simp
    with none eq show ?thesis unfolding modified_at_def using meta_not_differs by (metis option.distinct(1))
  qed
  with deleted [OF cs] agree_added [OF agree [OF cs]] show ?thesis by (cases k) (simp_all add: reported_def)
qed

end
