(* ===== verification/ChangesWalk.thy ===== *)
theory ChangesWalk
  imports Changes
begin

text \<open>
  The walk over two directories in parallel (\<open>changes_linux.go\<close>) that builds the two trees of
  \<open>FileInfo\<close>s, with the system calls it makes as the fields of a record: \<open>lstat\<close>, \<open>getdents\<close> and
  \<open>lgetxattr\<close> answer from a state of the machine of an arbitrary type.  The walk recurses as deep as the
  directories go, which is the file system's business, so it runs on fuel; the theorems give enough of it.
\<close>

section \<open>System calls\<close>

text \<open>\<open>syscall.Stat_t\<close>: the fields the package reads.\<close>

record Stat_t = StatT +
  Dev :: "64 word"
  Ino :: "64 word"
  Nlink :: "64 word"

definition S_IFMT :: "32 word" where "S_IFMT = 0xf000"

text \<open>\<open>IsDir\<close> of the \<open>os.FileInfo\<close> made from it.\<close>

definition fi_IsDir :: "Stat_t \<Rightarrow> bool" where
  "fi_IsDir st \<longleftrightarrow> and (sMode st) S_IFMT = S_IFDIR"

definition FromStatT :: "Stat_t \<Rightarrow> StatT" where
  "FromStatT s = \<lparr>sMode = sMode s, sUID = sUID s, sGID = sGID s, sRdev = sRdev s, sSize = sSize s, sMtim = sMtim s\<rparr>"

text \<open>\<open>syscall.Dirent\<close>; the name is the bytes of the record, ended by a zero byte.\<close>

record dirent =
  de_Ino :: "64 word"
  de_Name :: bytes

text \<open>
  \<open>k_getdents\<close> is what successive calls on a freshly opened directory return: the chunks of entries up to
  the empty one, or the error that ends them.  \<open>k_lgetxattr path attr len\<close> gives the returned size, the
  errno, and the bytes written; \<open>k_TempDir\<close> and \<open>k_Remove\<close> change the state.
\<close>

record 's kernel =
  k_lstat :: "'s \<Rightarrow> string \<Rightarrow> Stat_t res"
  k_open :: "'s \<Rightarrow> string \<Rightarrow> err option"
  k_getdents :: "'s \<Rightarrow> string \<Rightarrow> dirent list list \<times> err option"
  k_lgetxattr :: "'s \<Rightarrow> string \<Rightarrow> string \<Rightarrow> int \<Rightarrow> 64 word \<times> nat \<times> bytes"
  k_TempDir :: "'s \<Rightarrow> string \<Rightarrow> string res \<times> 's"
  k_Remove :: "'s \<Rightarrow> string \<Rightarrow> 's"

section \<open>xattrs\_linux.go\<close>

definition ENODATA :: nat where "ENODATA = 61"
definition ERANGE :: nat where "ERANGE = 34"
definition EINVAL :: err where "EINVAL = EOther 22"

text \<open>
  The raw system call reports a value that does not fit by \<open>ERANGE\<close>, with the size -1: making a slice of
  that many bytes panics.
\<close>

definition Lgetxattr :: "'s kernel \<Rightarrow> 's \<Rightarrow> string \<Rightarrow> string \<Rightarrow> (bytes option \<times> err option) outcome" where
  "Lgetxattr k s path attr =
     (if CHR 0x00 \<in> set path \<or> CHR 0x00 \<in> set attr then Ret (None, Some EINVAL)
      else
        let (sz, errno, dest) = k_lgetxattr k s path attr 128
        in if errno = ENODATA then Ret (None, None)
           else if errno = ERANGE then
             if sint sz < 0 then Panic ''makeslice: len out of range''
             else
               let (sz2, errno2, dest2) = k_lgetxattr k s path attr (uint sz)
               in if errno2 \<noteq> 0 then Ret (None, Some (EOther errno2)) else Ret (Some (take (unat sz2) dest2), None)
           else if errno \<noteq> 0 then Ret (None, Some (EOther errno))
           else Ret (Some (take (unat sz) dest), None))"

section \<open>Reading a directory\<close>

record nameIno =
  ni_name :: string
  ni_ino :: "64 word"

text \<open>The bytes before the first zero, in the array of 10000 bytes the name is read through.\<close>

definition clen :: "bytes \<Rightarrow> nat" where
  "clen n = length (takeWhile (\<lambda>c. c \<noteq> CHR 0x00) n)"

fun parseDirent :: "dirent list \<Rightarrow> nameIno list \<Rightarrow> nameIno list" where
  "parseDirent [] names = names"
| "parseDirent (d # buf) names =
     (if de_Ino d = 0 then parseDirent buf names
      else
        let name = take (clen (take 10000 (de_Name d))) (de_Name d)
        in if name = ''.'' \<or> name = ''..'' then parseDirent buf names
           else parseDirent buf (names @ [\<lparr>ni_name = name, ni_ino = de_Ino d\<rparr>]))"

text \<open>Names in a directory are distinct, so that sorting by them has one result.\<close>

definition readdirnames :: "'s kernel \<Rightarrow> 's \<Rightarrow> string \<Rightarrow> nameIno list res" where
  "readdirnames k s dirname =
     (case k_open k s dirname of
        Some e \<Rightarrow> Inl e
      | None \<Rightarrow>
          (case k_getdents k s dirname of
             (_, Some e) \<Rightarrow> Inl e
           | (chunks, None) \<Rightarrow> Inr (sort_key ni_name (fold parseDirent chunks []))))"

section \<open>The walker\<close>

record walker =
  wk_dir1 :: string
  wk_dir2 :: string
  root1 :: FileInfo
  root2 :: FileInfo

text \<open>\<open>parent.children[name] = info\<close>, where \<open>parent\<close> is the info the elements of a path lead to.\<close>

fun add_child :: "string \<Rightarrow> FileInfo \<Rightarrow> FileInfo \<Rightarrow> FileInfo" where
  "add_child name info (FileInfo st cap cs) = FileInfo st cap (AList.update name info cs)"

fun update_at :: "string list \<Rightarrow> (FileInfo \<Rightarrow> FileInfo) \<Rightarrow> FileInfo \<Rightarrow> FileInfo" where
  "update_at [] f i = f i"
| "update_at (elem # elems) f (FileInfo st cap cs) =
     (if elem \<noteq> [] then FileInfo st cap (AList.map_entry elem (update_at elems f) cs)
      else update_at elems f (FileInfo st cap cs))"

definition noParent :: "string \<Rightarrow> err" where
  "noParent path = ErrText (''collectFileInfoForChanges: Unexpectedly no parent for '' @ path)"

definition walkchunk ::
  "'s kernel \<Rightarrow> 's \<Rightarrow> string \<Rightarrow> Stat_t option \<Rightarrow> string \<Rightarrow> FileInfo \<Rightarrow> FileInfo res outcome" where
  "walkchunk k s path fi dir root =
     (case fi of
        None \<Rightarrow> Ret (Inr root)
      | Some st \<Rightarrow>
          (case LookUp (path_Dir path) root of
             None \<Rightarrow> Ret (Inl (noParent path))
           | Some _ \<Rightarrow>
               bind_outcome (Lgetxattr k s (Join [dir, path]) ''security.capability'') (\<lambda>(cap, _).
                 Ret (Inr (update_at (split_on slash (path_Dir path))
                   (add_child (path_Base path) (FileInfo (Some (FromStatT st)) cap [])) root)))))"

text \<open>The merge of the two sorted lists of names, without those that are the same file in both.\<close>

fun merge_names :: "bool \<Rightarrow> nameIno list \<Rightarrow> nameIno list \<Rightarrow> string list" where
  "merge_names sameDevice [] names2 = map ni_name names2"
| "merge_names sameDevice names1 [] = map ni_name names1"
| "merge_names sameDevice (ni1 # names1) (ni2 # names2) =
     (if ni_name ni1 < ni_name ni2 then ni_name ni1 # merge_names sameDevice names1 (ni2 # names2)
      else if ni_name ni1 = ni_name ni2 then
        (if ni_ino ni1 \<noteq> ni_ino ni2 \<or> \<not> sameDevice then [ni_name ni1] else []) @ merge_names sameDevice names1 names2
      else ni_name ni2 # merge_names sameDevice (ni1 # names1) names2)"

text \<open>\<open>os.Lstat\<close> of one side of a name; a side that is no directory, or has no such file, gives nil.\<close>

definition child_stat :: "'s kernel \<Rightarrow> 's \<Rightarrow> bool \<Rightarrow> string \<Rightarrow> string \<Rightarrow> Stat_t option res" where
  "child_stat k s isd dir fname =
     (if isd then
        case k_lstat k s (Join [dir, fname]) of
          Inl e \<Rightarrow> if os_IsNotExist e then Inr None else Inl e
        | Inr st \<Rightarrow> Inr (Some st)
      else Inr None)"

definition dir_names :: "'s kernel \<Rightarrow> 's \<Rightarrow> bool \<Rightarrow> string \<Rightarrow> string \<Rightarrow> nameIno list res" where
  "dir_names k s isd dir path = (if isd then readdirnames k s (Join [dir, path]) else Inr [])"

fun each :: "(string \<Rightarrow> 'w \<Rightarrow> (err option \<times> 'w) outcome) \<Rightarrow> string list \<Rightarrow> 'w \<Rightarrow> (err option \<times> 'w) outcome" where
  "each f [] w = Ret (None, w)"
| "each f (name # names) w =
     bind_outcome (f name w) (\<lambda>(e, w'). case e of Some _ \<Rightarrow> Ret (e, w') | None \<Rightarrow> each f names w')"

text \<open>The registration of both sides, except at the roots.\<close>

definition register :: "'s kernel \<Rightarrow> 's \<Rightarrow> string \<Rightarrow> Stat_t option \<Rightarrow> Stat_t option \<Rightarrow> walker \<Rightarrow> (err option \<times> walker) outcome" where
  "register k s path i1 i2 w =
     (if path = [slash] then Ret (None, w)
      else bind_outcome (walkchunk k s path i1 (wk_dir1 w) (root1 w)) (\<lambda>r1. case r1 of
             Inl e \<Rightarrow> Ret (Some e, w)
           | Inr t1 \<Rightarrow> bind_outcome (walkchunk k s path i2 (wk_dir2 w) (root2 w)) (\<lambda>r2. case r2 of
               Inl e \<Rightarrow> Ret (Some e, w\<lparr>root1 := t1\<rparr>)
             | Inr t2 \<Rightarrow> Ret (None, w\<lparr>root1 := t1, root2 := t2\<rparr>))))"

definition is_dir_stat :: "Stat_t option \<Rightarrow> bool" where
  "is_dir_stat i \<longleftrightarrow> (case i of None \<Rightarrow> False | Some st \<Rightarrow> fi_IsDir st)"

definition same_device :: "Stat_t option \<Rightarrow> Stat_t option \<Rightarrow> bool" where
  "same_device i1 i2 \<longleftrightarrow> (case (i1, i2) of (Some si1, Some si2) \<Rightarrow> Dev si1 = Dev si2 | _ \<Rightarrow> False)"

fun walk :: "nat \<Rightarrow> 's kernel \<Rightarrow> 's \<Rightarrow> string \<Rightarrow> Stat_t option \<Rightarrow> Stat_t option \<Rightarrow> walker \<Rightarrow> (err option \<times> walker) outcome" where
  "walk 0 k s path i1 i2 w = Diverge"
| "walk (Suc fuel) k s path i1 i2 w =
     bind_outcome (register k s path i1 i2 w) (\<lambda>(e, w).
       case e of Some _ \<Rightarrow> Ret (e, w)
       | None \<Rightarrow>
         let is1Dir = is_dir_stat i1; is2Dir = is_dir_stat i2
         in if \<not> is1Dir \<and> \<not> is2Dir then Ret (None, w)
            else
              case dir_names k s is1Dir (wk_dir1 w) path of
                Inl e \<Rightarrow> Ret (Some e, w)
              | Inr names1 \<Rightarrow>
                  (case dir_names k s is2Dir (wk_dir2 w) path of
                     Inl e \<Rightarrow> Ret (Some e, w)
                   | Inr names2 \<Rightarrow>
                       each (\<lambda>name w.
                         let fname = Join [path, name]
                         in case child_stat k s is1Dir (wk_dir1 w) fname of
                              Inl e \<Rightarrow> Ret (Some e, w)
                            | Inr cInfo1 \<Rightarrow>
                                (case child_stat k s is2Dir (wk_dir2 w) fname of
                                   Inl e \<Rightarrow> Ret (Some e, w)
                                 | Inr cInfo2 \<Rightarrow> walk fuel k s fname cInfo1 cInfo2 w))
                         (merge_names (same_device i1 i2) names1 names2) w))"

declare walk.simps [simp del]

definition collectFileInfoForChanges ::
  "nat \<Rightarrow> 's kernel \<Rightarrow> 's \<Rightarrow> string \<Rightarrow> string \<Rightarrow> (FileInfo \<times> FileInfo) res outcome" where
  "collectFileInfoForChanges fuel k s dir1 dir2 =
     (case k_lstat k s dir1 of
        Inl e \<Rightarrow> Ret (Inl e)
      | Inr i1 \<Rightarrow>
          (case k_lstat k s dir2 of
             Inl e \<Rightarrow> Ret (Inl e)
           | Inr i2 \<Rightarrow>
               bind_outcome
                 (walk fuel k s [slash] (Some i1) (Some i2)
                   \<lparr>wk_dir1 = dir1, wk_dir2 = dir2, root1 = newRootFileInfo, root2 = newRootFileInfo\<rparr>)
                 (\<lambda>(e, w). Ret (case e of Some e \<Rightarrow> Inl e | None \<Rightarrow> Inr (root1 w, root2 w)))))"

text \<open>\<open>ChangesDirs\<close>; without an old directory the new one is compared with an empty one.\<close>

definition ChangesDirs_in :: "nat \<Rightarrow> 's kernel \<Rightarrow> 's \<Rightarrow> string \<Rightarrow> string \<Rightarrow> Change list res outcome" where
  "ChangesDirs_in fuel k s newDir oldDir =
     bind_outcome (collectFileInfoForChanges fuel k s oldDir newDir) (\<lambda>r.
       Ret (map_sum id (\<lambda>(oldRoot, newRoot). FileInfo_Changes (Some oldRoot) newRoot) r))"

definition archive_ChangesDirs :: "nat \<Rightarrow> 's kernel \<Rightarrow> 's \<Rightarrow> string \<Rightarrow> string \<Rightarrow> (Change list res \<times> 's) outcome" where
  "archive_ChangesDirs fuel k s newDir oldDir =
     (if oldDir = [] then
        case k_TempDir k s ''empty'' of
          (Inl e, s') \<Rightarrow> Ret (Inl e, s')
        | (Inr emptyDir, s') \<Rightarrow>
            bind_outcome (ChangesDirs_in fuel k s' newDir emptyDir) (\<lambda>r. Ret (r, k_Remove k s' emptyDir))
      else bind_outcome (ChangesDirs_in fuel k s newDir oldDir) (\<lambda>r. Ret (r, s)))"

end
