(* ===== verification/TarExport.thy ===== *)
theory TarExport
  imports ChangesWalk TarReader
begin

text \<open>
  Writing the changes of a layer as a tar archive (\<open>ExportChanges\<close> of \<open>changes.go\<close>, \<open>addTarFile\<close> of
  \<open>archive.go\<close>, \<open>archive_unix.go\<close>, \<open>ToContainer\<close> of \<open>idtools\<close>).

  \<open>archive/tar\<close>'s writer (Go 1.5) is modelled by the entries it has written and its state: the number of
  bytes the current entry still lacks, and the error that, once set, makes every later call fail.  The
  time of day is a function of the number of entries seen.
\<close>

section \<open>The tar writer\<close>

record tar_writer =
  tw_entries :: "(header \<times> bytes) list"
  tw_nb :: nat
  tw_err :: "err option"
  tw_closed :: bool

definition NewWriter :: tar_writer where
  "NewWriter = \<lparr>tw_entries = [], tw_nb = 0, tw_err = None, tw_closed = False\<rparr>"

definition ErrWriteAfterClose :: err where "ErrWriteAfterClose = ErrText ''archive/tar: write after close''"
definition ErrWriteTooLong :: err where "ErrWriteTooLong = ErrText ''archive/tar: write too long''"

definition missedWriting :: "nat \<Rightarrow> err" where
  "missedWriting n = ErrText (''archive/tar: missed writing '' @ show_nat n @ '' bytes'')"

definition tw_Flush :: "tar_writer \<Rightarrow> tar_writer" where
  "tw_Flush tw = (if 0 < tw_nb tw then tw\<lparr>tw_err := Some (missedWriting (tw_nb tw))\<rparr> else tw)"

text \<open>A header of negative size (no code here makes one) leaves nothing to write.\<close>

definition tw_WriteHeader :: "header \<Rightarrow> tar_writer \<Rightarrow> err option \<times> tar_writer" where
  "tw_WriteHeader hdr tw =
     (if tw_closed tw then (Some ErrWriteAfterClose, tw)
      else
        let tw1 = (if tw_err tw = None then tw_Flush tw else tw)
        in if tw_err tw1 \<noteq> None then (tw_err tw1, tw1)
           else (None, tw1\<lparr>tw_entries := tw_entries tw1 @ [(hdr, [])], tw_nb := nat (sint (Size hdr))\<rparr>))"

definition append_last :: "bytes \<Rightarrow> (header \<times> bytes) list \<Rightarrow> (header \<times> bytes) list" where
  "append_last b es = (if es = [] then [] else butlast es @ [(fst (last es), snd (last es) @ b)])"

definition tw_Write :: "bytes \<Rightarrow> tar_writer \<Rightarrow> err option \<times> tar_writer" where
  "tw_Write b tw =
     (if tw_closed tw then (Some ErrWriteAfterClose, tw)
      else if tw_err tw \<noteq> None then (tw_err tw, tw)
      else
        let c = take (tw_nb tw) b; tw1 = tw\<lparr>tw_entries := append_last c (tw_entries tw), tw_nb := tw_nb tw - length c\<rparr>
        in (if tw_nb tw < length b then Some ErrWriteTooLong else None, tw1))"

text \<open>\<open>Close\<close> also writes the two blocks that end the archive, unless there was an error.\<close>

definition tw_Close :: "tar_writer \<Rightarrow> err option \<times> tar_writer" where
  "tw_Close tw =
     (if tw_err tw \<noteq> None \<or> tw_closed tw then (tw_err tw, tw)
      else let tw1 = (tw_Flush tw)\<lparr>tw_closed := True\<rparr> in (tw_err tw1, tw1))"

definition has_end_mark :: "tar_writer \<Rightarrow> bool" where
  "has_end_mark tw \<longleftrightarrow> tw_closed tw \<and> tw_err tw = None"

section \<open>idtools.go\<close>

record IDMap =
  ContainerID :: int
  HostID :: int
  IDSize :: int

fun ToContainer_loop :: "int \<Rightarrow> IDMap list \<Rightarrow> int res" where
  "ToContainer_loop hostID [] = Inl (ErrText (''Host ID '' @ Itoa hostID @ '' cannot be mapped to a container ID''))"
| "ToContainer_loop hostID (m # idMap) =
     (if HostID m \<le> hostID \<and> hostID \<le> HostID m + IDSize m - 1 then Inr (ContainerID m + (hostID - HostID m))
      else ToContainer_loop hostID idMap)"

definition ToContainer :: "int \<Rightarrow> IDMap list option \<Rightarrow> int res" where
  "ToContainer hostID idMap = (case idMap of None \<Rightarrow> Inr hostID | Some ms \<Rightarrow> ToContainer_loop hostID ms)"

section \<open>Headers\<close>

text \<open>The kernel also reads links and files; \<open>k_read\<close> is the content up to its end or a read error.\<close>

record 's file_kernel = "'s kernel" +
  k_readlink :: "'s \<Rightarrow> string \<Rightarrow> string res"
  k_read :: "'s \<Rightarrow> string \<Rightarrow> stream res"

definition TypeReg :: char where "TypeReg = CHR ''0''"
definition TypeLink :: char where "TypeLink = CHR ''1''"
definition TypeSymlink :: char where "TypeSymlink = CHR ''2''"
definition TypeDir :: char where "TypeDir = CHR ''5''"
definition TypeFifo :: char where "TypeFifo = CHR ''6''"

definition file_type :: "Stat_t \<Rightarrow> 32 word" where
  "file_type st = and (sMode st) S_IFMT"

text \<open>The header of an entry about which nothing is known, Go's zero value.\<close>

definition zero_header :: header where
  "zero_header = \<lparr>Name = [], Mode = 0, Uid = 0, Gid = 0, Size = 0, ModTime = (0, 0), Typeflag = CHR 0x00, Linkname = [],
     Uname = [], Gname = [], Devmajor = 0, Devminor = 0, AccessTime = (0, 0), ChangeTime = (0, 0), Xattrs = []\<rparr>"

text \<open>
  \<open>tar.FileInfoHeader\<close> on Linux: the permission and type bits of the mode as they are in \<open>st_mode\<close>, a
  size for regular files only.  Access and change time, which no caller reads back, are left out.
\<close>

definition FileInfoHeader :: "Stat_t \<Rightarrow> string \<Rightarrow> header" where
  "FileInfoHeader st link =
     (let t = file_type st
      in zero_header\<lparr>Mode := ucast (and (sMode st) 0xffff), Uid := ucast (sUID st), Gid := ucast (sGID st),
           ModTime := (Sec (sMtim st), Nsec (sMtim st)),
           Size := (if t = 0x8000 then sSize st else 0),
           Linkname := (if t = 0xa000 then link else []),
           Typeflag :=
             (if t = 0x8000 then TypeReg else if t = 0x4000 then TypeDir else if t = 0xa000 then TypeSymlink
              else if t = 0x2000 then TypeChar else if t = 0x6000 then TypeBlock else if t = 0x1000 then TypeFifo
              else CHR 0x00)\<rparr>)"

definition major :: "64 word \<Rightarrow> 64 word" where "major device = and (drop_bit 8 device) 0xfff"
definition minor :: "64 word \<Rightarrow> 64 word" where
  "minor device = or (and device 0xff) (and (drop_bit 12 device) 0xfff00)"

text \<open>The test is one of bits: it is also true of directories and symbolic links, whose \<open>Rdev\<close> is 0.\<close>

definition setHeaderForSpecialDevice :: "header \<Rightarrow> Stat_t \<Rightarrow> header \<times> 64 word" where
  "setHeaderForSpecialDevice hdr s =
     (if and (sMode s) 0x6000 \<noteq> 0 \<or> and (sMode s) 0x2000 \<noteq> 0
      then hdr\<lparr>Devmajor := major (sRdev s), Devminor := minor (sRdev s)\<rparr> else hdr, Ino s)"

definition hasHardlinks :: "Stat_t \<Rightarrow> bool" where
  "hasHardlinks fi \<longleftrightarrow> 1 < Nlink fi"

definition canonicalTarName :: "string \<Rightarrow> bool \<Rightarrow> string" where
  "canonicalTarName name isd = (if isd \<and> \<not> suffix [slash] name then name @ [slash] else name)"

definition WhiteoutPrefix :: string where "WhiteoutPrefix = ''.wh.''"

section \<open>tarAppender\<close>

record tarAppender =
  TarWriter :: tar_writer
  SeenFiles :: "(64 word \<times> string) list"
  UIDMaps :: "IDMap list option"
  GIDMaps :: "IDMap list option"

text \<open>The hard link rule: the first name of an inode is kept, later names are links to it.\<close>

definition link_header :: "Stat_t \<Rightarrow> string \<Rightarrow> 64 word \<Rightarrow> header \<Rightarrow> tarAppender \<Rightarrow> header \<times> tarAppender" where
  "link_header fi name inode hdr ta =
     (if \<not> fi_IsDir fi \<and> hasHardlinks fi then
        case map_of (SeenFiles ta) inode of
          Some oldpath \<Rightarrow> (hdr\<lparr>Typeflag := TypeLink, Linkname := oldpath, Size := 0\<rparr>, ta)
        | None \<Rightarrow> (hdr, ta\<lparr>SeenFiles := AList.update inode name (SeenFiles ta)\<rparr>)
      else (hdr, ta))"

definition remap_ids :: "Stat_t \<Rightarrow> header \<Rightarrow> tarAppender \<Rightarrow> header res" where
  "remap_ids fi hdr ta =
     (if \<not> prefix WhiteoutPrefix (path_Base (Name hdr)) \<and> (UIDMaps ta \<noteq> None \<or> GIDMaps ta \<noteq> None) then
        case ToContainer (uint (sUID fi)) (UIDMaps ta) of
          Inl e \<Rightarrow> Inl e
        | Inr xUID \<Rightarrow>
            (case ToContainer (uint (sGID fi)) (GIDMaps ta) of
               Inl e \<Rightarrow> Inl e
             | Inr xGID \<Rightarrow> Inr (hdr\<lparr>Uid := of_int xUID, Gid := of_int xGID\<rparr>))
      else Inr hdr)"

text \<open>
  The copy through a buffer of 32768 bytes: a read error leaves what is in the buffer unwritten.
\<close>

definition copy_file :: "'s file_kernel \<Rightarrow> 's \<Rightarrow> string \<Rightarrow> tarAppender \<Rightarrow> err option \<times> tarAppender" where
  "copy_file k s path ta =
     (case k_read k s path of
        Inl e \<Rightarrow> (Some e, ta)
      | Inr (content, er) \<Rightarrow>
          let flushed = (case er of None \<Rightarrow> content | Some _ \<Rightarrow> take (length content div 32768 * 32768) content);
              (e, tw) = (if flushed = [] then (None, TarWriter ta) else tw_Write flushed (TarWriter ta))
          in (case e of Some _ \<Rightarrow> e | None \<Rightarrow> er, ta\<lparr>TarWriter := tw\<rparr>))"

definition addTarFile :: "'s file_kernel \<Rightarrow> 's \<Rightarrow> string \<Rightarrow> string \<Rightarrow> tarAppender \<Rightarrow> (err option \<times> tarAppender) outcome" where
  "addTarFile k s path name ta =
     (case k_lstat k s path of
        Inl e \<Rightarrow> Ret (Some e, ta)
      | Inr fi \<Rightarrow>
          (case (if file_type fi = 0xa000 then k_readlink k s path else Inr []) of
             Inl e \<Rightarrow> Ret (Some e, ta)
           | Inr link \<Rightarrow>
               let name = canonicalTarName name (fi_IsDir fi);
                   (hdr, inode) = setHeaderForSpecialDevice ((FileInfoHeader fi link)\<lparr>Name := name\<rparr>) fi;
                   (hdr, ta) = link_header fi name inode hdr ta
               in bind_outcome (Lgetxattr (kernel.truncate k) s path ''security.capability'') (\<lambda>(capability, _).
                    let hdr = (case capability of None \<Rightarrow> hdr
                      | Some c \<Rightarrow> hdr\<lparr>Xattrs := [(''security.capability'', c)]\<rparr>)
                    in case remap_ids fi hdr ta of
                         Inl e \<Rightarrow> Ret (Some e, ta)
                       | Inr hdr \<Rightarrow>
                           (case tw_WriteHeader hdr (TarWriter ta) of
                              (Some e, tw) \<Rightarrow> Ret (Some e, ta\<lparr>TarWriter := tw\<rparr>)
                            | (None, tw) \<Rightarrow>
                                Ret (if Typeflag hdr = TypeReg then copy_file k s path (ta\<lparr>TarWriter := tw\<rparr>)
                                     else (None, ta\<lparr>TarWriter := tw\<rparr>))))))"

section \<open>ExportChanges\<close>

text \<open>The header of a whiteout; the entry has no type flag and no mode.\<close>

definition whiteout_header :: "int64 \<times> int64 \<Rightarrow> string \<Rightarrow> header" where
  "whiteout_header timestamp path =
     (let whiteOut = Join [path_Dir path, WhiteoutPrefix @ path_Base path]
      in zero_header\<lparr>Name := drop 1 whiteOut, Size := 0, ModTime := timestamp, AccessTime := timestamp, ChangeTime := timestamp\<rparr>)"

text \<open>Errors are logged and dropped.\<close>

definition export_change ::
  "'s file_kernel \<Rightarrow> 's \<Rightarrow> (nat \<Rightarrow> int64 \<times> int64) \<Rightarrow> string \<Rightarrow> nat \<Rightarrow> Change \<Rightarrow> tarAppender \<Rightarrow> tarAppender outcome" where
  "export_change k s now dir i c ta =
     (if ch_Kind c = ChangeDelete then
        Ret (ta\<lparr>TarWriter := snd (tw_WriteHeader (whiteout_header (now i) (ch_Path c)) (TarWriter ta))\<rparr>)
      else bind_outcome (addTarFile k s (Join [dir, ch_Path c]) (drop 1 (ch_Path c)) ta) (\<lambda>(_, ta). Ret ta))"

fun export_loop ::
  "'s file_kernel \<Rightarrow> 's \<Rightarrow> (nat \<Rightarrow> int64 \<times> int64) \<Rightarrow> string \<Rightarrow> nat \<Rightarrow> Change list \<Rightarrow> tarAppender \<Rightarrow> tarAppender outcome" where
  "export_loop k s now dir i [] ta = Ret ta"
| "export_loop k s now dir i (c # cs) ta =
     bind_outcome (export_change k s now dir i c ta) (export_loop k s now dir (Suc i) cs)"

text \<open>The writer when the goroutine is done; the reader of the pipe has seen its entries.\<close>

definition archive_ExportChanges ::
  "'s file_kernel \<Rightarrow> 's \<Rightarrow> (nat \<Rightarrow> int64 \<times> int64) \<Rightarrow> string \<Rightarrow> Change list \<Rightarrow> IDMap list option \<Rightarrow> IDMap list option \<Rightarrow>
   tar_writer outcome" where
  "archive_ExportChanges k s now dir changes uidMaps gidMaps =
     bind_outcome
       (export_loop k s now dir 0 (sort_key ch_Path changes)
         \<lparr>TarWriter = NewWriter, SeenFiles = [], UIDMaps = uidMaps, GIDMaps = gidMaps\<rparr>)
       (\<lambda>ta. Ret (snd (tw_Close (TarWriter ta))))"

end
