(* ===== verification/FileMatch.thy ===== *)
theory FileMatch
  imports GoPath
begin

text \<open>
  The patterns that keep files out of an archive (\<open>docker/pkg/fileutils/fileutils.go\<close>): cleaning the
  patterns, turning one into a regular expression, and matching a path and its parent directories.

  Go's \<open>regexp\<close> is modelled for the expressions that \<open>regexpMatch\<close> makes of wildcards and ordinary
  ASCII characters.  Anything else (classes, groups and the like, which a pattern can also contain) is
  left to the record \<open>go_regexp\<close>, as is the syntax check of \<open>filepath.Match\<close> on patterns that have a
  bracket or a backslash; it has nothing to complain about in others.
\<close>

section \<open>Runes\<close>

text \<open>The units \<open>regexp\<close> reads: encodings of characters, and single bytes where there is none.\<close>

function runes :: "string \<Rightarrow> string list" where
  "runes s = (if s = [] then [] else let n = max 1 (rune_len s) in take n s # runes (drop n s))"
  by pat_completeness auto
termination
  by (relation "measure length") (auto simp: max_def)

declare runes.simps [simp del]

abbreviation newline :: char where "newline \<equiv> CHR 0x0A"
abbreviation backslash :: char where "backslash \<equiv> CHR 0x5C"

section \<open>regexp\<close>

text \<open>
  What an expression made here consists of: a character, \<open>[^/]\<close>, \<open>[^/]*\<close>, \<open>.*\<close>, and
  \<open>((.*/)|([^/]*))\<close>.  A dot does not match a newline.
\<close>

datatype rx_item = Lit char | NotSlash | NotSlashes | DotStar | SomeDirs

function rx_match :: "rx_item list \<Rightarrow> string list \<Rightarrow> bool" where
  "rx_match [] s \<longleftrightarrow> s = []"
| "rx_match (Lit c # r) s \<longleftrightarrow> (case s of [] \<Rightarrow> False | x # t \<Rightarrow> x = [c] \<and> rx_match r t)"
| "rx_match (NotSlash # r) s \<longleftrightarrow> (case s of [] \<Rightarrow> False | x # t \<Rightarrow> x \<noteq> [slash] \<and> rx_match r t)"
| "rx_match (NotSlashes # r) s \<longleftrightarrow> rx_match r s \<or> (case s of [] \<Rightarrow> False | x # t \<Rightarrow> x \<noteq> [slash] \<and> rx_match (NotSlashes # r) t)"
| "rx_match (DotStar # r) s \<longleftrightarrow> rx_match r s \<or> (case s of [] \<Rightarrow> False | x # t \<Rightarrow> x \<noteq> [newline] \<and> rx_match (DotStar # r) t)"
| "rx_match (SomeDirs # r) s \<longleftrightarrow> rx_match (DotStar # Lit slash # r) s \<or> rx_match (NotSlashes # r) s"
  by pat_completeness auto
termination
  by (relation "measures [\<lambda>(r, s). sum_list (map (\<lambda>i. if i = SomeDirs then 3 else 1) r), \<lambda>(r, s). length s]") auto

declare rx_match.simps [simp del]

definition rx_special :: "char \<Rightarrow> bool" where
  "rx_special c \<longleftrightarrow> c \<in> set ''.$^*+?()[]{}|'' \<or> c = backslash"

definition ascii :: "char \<Rightarrow> bool" where
  "ascii c \<longleftrightarrow> (of_char c :: nat) < 128"

definition ascii_punct :: "char \<Rightarrow> bool" where
  "ascii_punct c \<longleftrightarrow> (let n = (of_char c :: nat) in 33 \<le> n \<and> n \<le> 47 \<or> 58 \<le> n \<and> n \<le> 64 \<or> 91 \<le> n \<and> n \<le> 96 \<or> 123 \<le> n \<and> n \<le> 126)"

definition not_slash :: string where "not_slash = ''[^/]''"
definition not_slashes :: string where "not_slashes = ''[^/]*''"
definition some_dirs :: string where "some_dirs = ''((.*/)|([^/]*))''"
definition dot_star :: string where "dot_star = ''.*''"

lemmas rx_texts = not_slash_def not_slashes_def some_dirs_def dot_star_def

function rx_parse :: "string \<Rightarrow> rx_item list option" where
  "rx_parse s =
     (if s = ''$'' then Some []
      else if prefix some_dirs s then map_option ((#) SomeDirs) (rx_parse (drop 15 s))
      else if prefix not_slashes s then map_option ((#) NotSlashes) (rx_parse (drop 5 s))
      else if prefix not_slash s then map_option ((#) NotSlash) (rx_parse (drop 4 s))
      else if prefix dot_star s then map_option ((#) DotStar) (rx_parse (drop 2 s))
      else case s of
             [] \<Rightarrow> None
           | c # t \<Rightarrow>
               if c = backslash then
                 (case t of [] \<Rightarrow> None | d # u \<Rightarrow> if ascii_punct d then map_option ((#) (Lit d)) (rx_parse u) else None)
               else if rx_special c \<or> \<not> ascii c then None
               else map_option ((#) (Lit c)) (rx_parse t))"
  by pat_completeness auto
termination
  by (relation "measure length") (auto simp: rx_texts prefix_def)

declare rx_parse.simps [simp del]

record go_regexp =
  rx_Match :: "string \<Rightarrow> string \<Rightarrow> err option"
  rx_MatchString :: "string \<Rightarrow> string \<Rightarrow> bool res"

definition ErrBadPattern :: err where "ErrBadPattern = ErrText ''syntax error in pattern''"

definition MatchString :: "go_regexp \<Rightarrow> string \<Rightarrow> string \<Rightarrow> bool res" where
  "MatchString gx regStr path =
     (case regStr of
        [] \<Rightarrow> rx_MatchString gx regStr path
      | c # rest \<Rightarrow>
          if c = CHR ''^'' then
            (case rx_parse rest of None \<Rightarrow> rx_MatchString gx regStr path | Some items \<Rightarrow> Inr (rx_match items (runes path)))
          else rx_MatchString gx regStr path)"

text \<open>The error of \<open>filepath.Match\<close>, which is called for it alone.\<close>

definition path_Match_err :: "go_regexp \<Rightarrow> string \<Rightarrow> string \<Rightarrow> err option" where
  "path_Match_err gx pattern path =
     (if CHR ''['' \<in> set pattern \<or> backslash \<in> set pattern then rx_Match gx pattern path else None)"

section \<open>regexpMatch\<close>

text \<open>The loop of \<open>regexpMatch\<close> over the runes of the pattern; characters of many bytes stand for themselves.\<close>

fun skip_slash :: "string \<Rightarrow> string" where
  "skip_slash [] = []"
| "skip_slash (c # cs) = (if c = slash then cs else c # cs)"

lemma length_skip_slash: "length (skip_slash cs) \<le> length cs"
  by (cases cs) auto

function to_regexp :: "string \<Rightarrow> string" where
  "to_regexp [] = []"
| "to_regexp (ch # cs) =
     (if ch = CHR ''*'' then
        (case cs of
           [] \<Rightarrow> not_slashes @ to_regexp cs
         | d # ds \<Rightarrow>
             if d = CHR ''*'' then (if ds = [] then dot_star else some_dirs) @ to_regexp (skip_slash ds)
             else not_slashes @ to_regexp cs)
      else if ch = CHR ''?'' then not_slash @ to_regexp cs
      else if ch = CHR ''.'' \<or> ch = CHR ''$'' then backslash # ch # to_regexp cs
      else if ch = backslash then
        (case cs of [] \<Rightarrow> [backslash] | d # ds \<Rightarrow> backslash # d # to_regexp ds)
      else ch # to_regexp cs)"
  by pat_completeness auto
termination
  by (relation "measure length") (auto intro: le_imp_less_Suc length_skip_slash le_SucI)

declare to_regexp.simps(2) [simp del]

definition regexpMatch :: "go_regexp \<Rightarrow> string \<Rightarrow> string \<Rightarrow> bool res" where
  "regexpMatch gx pattern path =
     (case path_Match_err gx pattern path of
        Some e \<Rightarrow> Inl e
      | None \<Rightarrow>
          (case MatchString gx (''^'' @ to_regexp (coerce_utf8 pattern) @ ''$'') path of
             Inl _ \<Rightarrow> Inl ErrBadPattern
           | Inr b \<Rightarrow> Inr b))"

section \<open>Lists of patterns\<close>

text \<open>No pattern here is empty: an empty one is dropped, and \<open>Clean\<close> never returns one.\<close>

definition exclusion :: "string \<Rightarrow> bool" where
  "exclusion pattern \<longleftrightarrow> (case pattern of [] \<Rightarrow> False | c # _ \<Rightarrow> c = CHR ''!'')"

definition ErrIllegalExclusion :: err where "ErrIllegalExclusion = ErrText ''Illegal exclusion pattern: !''"

fun clean_loop :: "string list \<Rightarrow> string list \<times> string list list \<times> bool \<Rightarrow> (string list \<times> string list list \<times> bool) res" where
  "clean_loop [] acc = Inr acc"
| "clean_loop (p # patterns) (cleanedPatterns, patternDirs, exceptions) =
     (let pattern = TrimSpace p
      in if pattern = [] then clean_loop patterns (cleanedPatterns, patternDirs, exceptions)
         else if exclusion pattern \<and> length pattern = 1 then Inl ErrIllegalExclusion
         else
           let cleaned = Clean pattern; body = (if exclusion cleaned then drop 1 cleaned else cleaned)
           in clean_loop patterns
                (cleanedPatterns @ [cleaned], patternDirs @ [split_on slash body], exceptions \<or> exclusion pattern))"

definition CleanPatterns :: "string list \<Rightarrow> (string list \<times> string list list \<times> bool) res" where
  "CleanPatterns patterns = clean_loop patterns ([], [], False)"

text \<open>
  One pattern with its directories: whether it matches the file, or else one of its parents.  The two
  slices always have the same length.
\<close>

definition pattern_match :: "go_regexp \<Rightarrow> string \<Rightarrow> string \<Rightarrow> string list \<Rightarrow> bool res" where
  "pattern_match gx path pattern dirs =
     (let parentPath = path_Dir path; parentPathDirs = split_on slash parentPath
      in case regexpMatch gx pattern path of
           Inl e \<Rightarrow> Inl (ErrText (''Error in pattern ('' @ pattern @ '')''))
         | Inr match \<Rightarrow>
             if \<not> match \<and> parentPath \<noteq> ''.'' \<and> length dirs \<le> length parentPathDirs then
               (case regexpMatch gx (join_with [slash] dirs) (join_with [slash] (take (length dirs) parentPathDirs)) of
                  Inl _ \<Rightarrow> Inr False | Inr m \<Rightarrow> Inr m)
             else Inr match)"

fun matches_loop :: "go_regexp \<Rightarrow> string \<Rightarrow> (string \<times> string list) list \<Rightarrow> bool \<Rightarrow> bool res" where
  "matches_loop gx path [] matched = Inr matched"
| "matches_loop gx path ((pattern, dirs) # rest) matched =
     (let negative = exclusion pattern
      in case pattern_match gx path (if negative then drop 1 pattern else pattern) dirs of
           Inl e \<Rightarrow> Inl e
         | Inr match \<Rightarrow> matches_loop gx path rest (if match then \<not> negative else matched))"

definition OptimizedMatches :: "go_regexp \<Rightarrow> string \<Rightarrow> string list \<Rightarrow> string list list \<Rightarrow> bool res" where
  "OptimizedMatches gx path patterns patDirs = matches_loop gx path (zip patterns patDirs) False"

definition Matches :: "go_regexp \<Rightarrow> string \<Rightarrow> string list \<Rightarrow> bool res" where
  "Matches gx path patterns =
     (let path = Clean path
      in if path = ''.'' then Inr False
         else case CleanPatterns patterns of
                Inl e \<Rightarrow> Inl e
              | Inr (patterns, patDirs, _) \<Rightarrow> OptimizedMatches gx path patterns patDirs)"

end
