(* ===== verification/TarTree.thy ===== *)
theory TarTree
  imports TarExport FileMatch
begin

text \<open>
  Archiving a whole directory: \<open>TarWithOptions\<close> of \<open>docker/pkg/archive/archive.go\<close>, with the walk and the
  relative paths of \<open>path/filepath\<close> it uses.
\<close>

section \<open>path/filepath\<close>

text \<open>\<open>Rel\<close> on cleaned paths: the parts after the root, without the parts they share.\<close>

definition path_parts :: "string \<Rightarrow> string list" where
  "path_parts p = (if p = [slash] \<or> p = ''.'' then [] else split_on slash (if rooted p then drop 1 p else p))"

fun strip_common :: "string list \<Rightarrow> string list \<Rightarrow> string list \<times> string list" where
  "strip_common (b # bs) (t # ts) = (if b = t then strip_common bs ts else (b # bs, t # ts))"
| "strip_common bs ts = (bs, ts)"

definition path_Rel :: "string \<Rightarrow> string \<Rightarrow> string res" where
  "path_Rel basepath targpath =
     (let base = Clean basepath; targ = Clean targpath; failed = Inl (ErrText (''Rel: can't make '' @ targ @ '' relative to '' @ base))
      in if targ = base then Inr ''.''
         else if rooted base \<noteq> rooted targ then failed
         else
           (case strip_common (path_parts base) (path_parts targ) of
              ([], ts) \<Rightarrow> Inr (join_with [slash] ts)
            | (b # bs, ts) \<Rightarrow>
                if b = ''..'' then failed else Inr (join_with [slash] (map (\<lambda>_. ''..'') (b # bs) @ ts))))"

definition SkipDir :: err where "SkipDir = ErrText ''skip this directory''"

text \<open>
  \<open>Walk\<close> reads a directory sorted by name.  The function it calls has a state of its own, here \<open>'a\<close>, and
  gets no file information when there is an error for it instead.
\<close>

type_synonym 'a walk_fn = "string \<Rightarrow> Stat_t option \<Rightarrow> err option \<Rightarrow> 'a \<Rightarrow> (err option \<times> 'a) outcome"

definition readDirNames :: "'s file_kernel \<Rightarrow> 's \<Rightarrow> string \<Rightarrow> string list res" where
  "readDirNames k s path = map_sum id (map ni_name) (readdirnames (kernel.truncate k) s path)"

text \<open>What becomes of an error for one name: a skipped directory is no error of the directory it is in.\<close>

definition pass_error :: "bool \<Rightarrow> err option \<times> 'a \<Rightarrow> err option \<times> 'a" where
  "pass_error skippable r = (if skippable \<and> fst r = Some SkipDir then (None, snd r) else r)"

fun file_walk :: "nat \<Rightarrow> 's file_kernel \<Rightarrow> 's \<Rightarrow> 'a walk_fn \<Rightarrow> string \<Rightarrow> Stat_t \<Rightarrow> 'a \<Rightarrow> (err option \<times> 'a) outcome" where
  "file_walk 0 k s walkFn path info a = Diverge"
| "file_walk (Suc fuel) k s walkFn path info a =
     bind_outcome (walkFn path (Some info) None a) (\<lambda>(e, a).
       case e of
         Some _ \<Rightarrow> Ret (pass_error (fi_IsDir info) (e, a))
       | None \<Rightarrow>
           if \<not> fi_IsDir info then Ret (None, a)
           else
             case readDirNames k s path of
               Inl e \<Rightarrow> walkFn path (Some info) (Some e) a
             | Inr ns \<Rightarrow>
                 each (\<lambda>name a.
                   let filename = Join [path, name]
                   in case k_lstat k s filename of
                        Inl e \<Rightarrow> bind_outcome (walkFn filename None (Some e) a) (\<lambda>r. Ret (pass_error True r))
                      | Inr fileInfo \<Rightarrow>
                          bind_outcome (file_walk fuel k s walkFn filename fileInfo a) (\<lambda>r. Ret (pass_error (fi_IsDir fileInfo) r)))
                   ns a)"

definition path_Walk :: "nat \<Rightarrow> 's file_kernel \<Rightarrow> 's \<Rightarrow> string \<Rightarrow> 'a walk_fn \<Rightarrow> 'a \<Rightarrow> (err option \<times> 'a) outcome" where
  "path_Walk fuel k s root walkFn a =
     (case k_lstat k s root of
        Inl e \<Rightarrow> walkFn root None (Some e) a
      | Inr info \<Rightarrow> file_walk fuel k s walkFn root info a)"

section \<open>Options\<close>

datatype Compression = Uncompressed | Bzip2 | Gzip | Xz

definition Extension :: "Compression \<Rightarrow> string" where
  "Extension compression =
     (case compression of Uncompressed \<Rightarrow> ''tar'' | Bzip2 \<Rightarrow> ''tar.bz2'' | Gzip \<Rightarrow> ''tar.gz'' | Xz \<Rightarrow> ''tar.xz'')"

text \<open>The error of \<open>CompressStream\<close>; the bytes a compressing writer makes are the business of its library.\<close>

definition CompressStream :: "Compression \<Rightarrow> err option" where
  "CompressStream compression =
     (if compression = Uncompressed \<or> compression = Gzip then None
      else Some (ErrText (''Unsupported compression format '' @ Extension compression)))"

text \<open>The options for making archives; \<open>RebaseNames\<close> is a map, which has the empty string for other names.\<close>

record TarOptions =
  IncludeFiles :: "string list"
  ExcludePatterns :: "string list"
  opt_Compression :: Compression
  opt_UIDMaps :: "IDMap list option"
  opt_GIDMaps :: "IDMap list option"
  IncludeSourceDir :: bool
  RebaseNames :: "(string \<times> string) list"

section \<open>copy.go\<close>

definition specifiesCurrentDir :: "string \<Rightarrow> bool" where
  "specifiesCurrentDir path \<longleftrightarrow> path_Base path = ''.''"

definition SplitPathDirEntry :: "string \<Rightarrow> string \<times> string" where
  "SplitPathDirEntry path =
     (let cleanedPath = Clean path @ (if specifiesCurrentDir path then [slash, CHR ''.''] else [])
      in (path_Dir cleanedPath, path_Base cleanedPath))"

section \<open>TarWithOptions\<close>

definition getWalkRoot :: "string \<Rightarrow> string \<Rightarrow> string" where
  "getWalkRoot srcPath incl = srcPath @ [slash] @ incl"

text \<open>\<open>strings.Replace\<close> of the first occurrence.\<close>

fun replace_first :: "string \<Rightarrow> string \<Rightarrow> string \<Rightarrow> string" where
  "replace_first w new [] = (if w = [] then new else [])"
| "replace_first w new (c # s) = (if prefix w (c # s) then new @ drop (length w) (c # s) else c # replace_first w new s)"

text \<open>The name in the archive of a file that goes into it.\<close>

definition rebase_name :: "string \<Rightarrow> string \<Rightarrow> string \<Rightarrow> string" where
  "rebase_name rebaseName incl relFilePath =
     (if rebaseName \<noteq> [] then replace_first incl (if rebaseName \<noteq> [slash] then rebaseName else []) relFilePath else relFilePath)"

text \<open>The function given to \<open>Walk\<close>; its state is the set of paths seen and the appender.\<close>

definition tar_walk_fn ::
  "go_regexp \<Rightarrow> 's file_kernel \<Rightarrow> 's \<Rightarrow> TarOptions \<Rightarrow> string list \<times> string list list \<times> bool \<Rightarrow> string \<Rightarrow> string \<Rightarrow>
   (string set \<times> tarAppender) walk_fn" where
  "tar_walk_fn gx k s options cleaned srcPath incl filePath f err st =
     (let (patterns, patDirs, exceptions) = cleaned; (seen, ta) = st;
          isd = (case f of None \<Rightarrow> False | Some fi \<Rightarrow> fi_IsDir fi);
          rebaseName = (case map_of (RebaseNames options) incl of None \<Rightarrow> [] | Some n \<Rightarrow> n)
      in if err \<noteq> None then Ret (None, st)
         else
           case path_Rel srcPath filePath of
             Inl _ \<Rightarrow> Ret (None, st)
           | Inr rel \<Rightarrow>
               if \<not> IncludeSourceDir options \<and> rel = ''.'' \<and> isd then Ret (None, st)
               else
                 let relFilePath = (if IncludeSourceDir options \<and> incl = ''.'' \<and> rel \<noteq> ''.'' then join_with [slash] [''.'', rel] else rel)
                 in case (if incl \<noteq> relFilePath then OptimizedMatches gx relFilePath patterns patDirs else Inr False) of
                      Inl e \<Rightarrow> Ret (Some e, st)
                    | Inr skip \<Rightarrow>
                        if skip then Ret (if \<not> exceptions \<and> isd then Some SkipDir else None, st)
                        else if relFilePath \<in> seen then Ret (None, st)
                        else bind_outcome (addTarFile k s filePath (rebase_name rebaseName incl relFilePath) ta)
                               (\<lambda>(_, ta). Ret (None, insert relFilePath seen, ta)))"

text \<open>The includes one after the other; an error ends the walk of its own include only.\<close>

fun include_loop ::
  "nat \<Rightarrow> go_regexp \<Rightarrow> 's file_kernel \<Rightarrow> 's \<Rightarrow> TarOptions \<Rightarrow> string list \<times> string list list \<times> bool \<Rightarrow> string \<Rightarrow> string list \<Rightarrow>
   string set \<times> tarAppender \<Rightarrow> (string set \<times> tarAppender) outcome" where
  "include_loop fuel gx k s options cleaned srcPath [] st = Ret st"
| "include_loop fuel gx k s options cleaned srcPath (incl # incls) st =
     bind_outcome (path_Walk fuel k s (getWalkRoot srcPath incl) (tar_walk_fn gx k s options cleaned srcPath incl) st)
       (\<lambda>(_, st). include_loop fuel gx k s options cleaned srcPath incls st)"

text \<open>The writer when the goroutine is done; \<open>Inl\<close> is an error before it starts.\<close>

definition archive_TarWithOptions ::
  "nat \<Rightarrow> go_regexp \<Rightarrow> 's file_kernel \<Rightarrow> 's \<Rightarrow> string \<Rightarrow> TarOptions \<Rightarrow> tar_writer res outcome" where
  "archive_TarWithOptions fuel gx k s srcPath options =
     (case CleanPatterns (ExcludePatterns options) of
        Inl e \<Rightarrow> Ret (Inl e)
      | Inr cleaned \<Rightarrow>
          (case CompressStream (opt_Compression options) of
             Some e \<Rightarrow> Ret (Inl e)
           | None \<Rightarrow>
               (case k_lstat k s srcPath of
                  Inl _ \<Rightarrow> Ret (Inr (snd (tw_Close NewWriter)))
                | Inr stat \<Rightarrow>
                    let (srcPath, incls) =
                          (if \<not> fi_IsDir stat then let (dir, base) = SplitPathDirEntry srcPath in (dir, [base])
                           else (srcPath, IncludeFiles options));
                        incls = (if incls = [] then [''.''] else incls);
                        ta = \<lparr>TarWriter = NewWriter, SeenFiles = [], UIDMaps = opt_UIDMaps options, GIDMaps = opt_GIDMaps options\<rparr>
                    in bind_outcome (include_loop fuel gx k s options cleaned srcPath incls ({}, ta))
                         (\<lambda>(_, ta). Ret (Inr (snd (tw_Close (TarWriter ta))))))))"

definition no_options :: TarOptions where
  "no_options =
     \<lparr>IncludeFiles = [], ExcludePatterns = [], opt_Compression = Uncompressed, opt_UIDMaps = None, opt_GIDMaps = None,
      IncludeSourceDir = False, RebaseNames = []\<rparr>"

text \<open>\<open>Tar\<close>, which only sets the compression.\<close>

definition archive_Tar_dir ::
  "nat \<Rightarrow> go_regexp \<Rightarrow> 's file_kernel \<Rightarrow> 's \<Rightarrow> string \<Rightarrow> Compression \<Rightarrow> tar_writer res outcome" where
  "archive_Tar_dir fuel gx k s path compression =
     archive_TarWithOptions fuel gx k s path (no_options\<lparr>opt_Compression := compression\<rparr>)"

end
