(* ===== verification/FileMatchSpec.thy ===== *)
theory FileMatchSpec
  imports FileMatch
begin

text \<open>
  What the patterns mean: \<open>regexpMatch\<close> against a direct definition of the wildcards, and lists of
  patterns by the last one that applies.
\<close>

section \<open>Wildcards\<close>

text \<open>
  \<open>?\<close> is one character and \<open>*\<close> any number of them, except slashes; \<open>**\<close> at the end is everything up to a
  newline; \<open>**\<close> with or without a slash after it is a sequence of whole directories or part of one name.
\<close>

definition name_part :: "string list \<Rightarrow> bool" where
  "name_part u \<longleftrightarrow> [slash] \<notin> set u"

definition dirs_part :: "string list \<Rightarrow> bool" where
  "dirs_part u \<longleftrightarrow> (\<exists>w. u = w @ [[slash]] \<and> [newline] \<notin> set w)"

function glob :: "string \<Rightarrow> string list \<Rightarrow> bool" where
  "glob [] s \<longleftrightarrow> s = []"
| "glob (c # cs) s \<longleftrightarrow>
     (if c = CHR ''*'' then
        (case cs of
           [] \<Rightarrow> name_part s
         | d # ds \<Rightarrow>
             if d = CHR ''*'' then
               (if ds = [] then [newline] \<notin> set s
                else \<exists>u v. s = u @ v \<and> (dirs_part u \<or> name_part u) \<and> glob (skip_slash ds) v)
             else \<exists>u v. s = u @ v \<and> name_part u \<and> glob cs v)
      else if c = CHR ''?'' then \<exists>x v. s = x # v \<and> x \<noteq> [slash] \<and> glob cs v
      else \<exists>v. s = [c] # v \<and> glob cs v)"
  by pat_completeness auto
termination
  by (relation "measure (\<lambda>(p, _). length p)") (auto intro: le_imp_less_Suc length_skip_slash le_SucI)

declare glob.simps(2) [simp del]

text \<open>
  The wildcards as they are meant: the same, where \<open>**\<close> at the end accepts all, and no character is special in a path but the
  slash.
\<close>

function wild :: "string \<Rightarrow> string list \<Rightarrow> bool" where
  "wild [] s \<longleftrightarrow> s = []"
| "wild (c # cs) s \<longleftrightarrow>
     (if c = CHR ''*'' then
        (case cs of
           [] \<Rightarrow> name_part s
         | d # ds \<Rightarrow>
             if d = CHR ''*'' then
               ds = [] \<or> (\<exists>u v. s = u @ v \<and> (suffix [[slash]] u \<or> name_part u) \<and> wild (skip_slash ds) v)
             else \<exists>u v. s = u @ v \<and> name_part u \<and> wild cs v)
      else if c = CHR ''?'' then \<exists>x v. s = x # v \<and> x \<noteq> [slash] \<and> wild cs v
      else \<exists>v. s = [c] # v \<and> wild cs v)"
  by pat_completeness auto
termination
  by (relation "measure (\<lambda>(p, _). length p)") (auto intro: le_imp_less_Suc length_skip_slash le_SucI)

declare wild.simps(2) [simp del]

lemma dirs_part_suffix: "dirs_part u \<Longrightarrow> suffix [[slash]] u" "[newline] \<notin> set u \<Longrightarrow> dirs_part u \<longleftrightarrow> suffix [[slash]] u"
  by (auto simp: dirs_part_def suffix_def)

lemma glob_wild: "glob p s \<Longrightarrow> wild p s"
proof (induction p s rule: wild.induct)
  case (2 c cs s)
  note simps = wild.simps(2) [of c cs s] glob.simps(2) [of c cs s]
  show ?case
  proof (cases "c = CHR ''*''")
    case True
    show ?thesis
    proof (cases cs)
      case (Cons d ds)
      then show ?thesis using True "2.prems" "2.IH"(1,2) dirs_part_suffix(1) unfolding simps by (cases "d = CHR ''*''"; cases "ds = []") (simp; blast)+
    qed (use True "2.prems" in \<open>simp add: wild.simps(2) glob.simps(2)\<close>)
  next
    case False
    with "2.prems" "2.IH"(3,4) show ?thesis unfolding simps by (cases "c = CHR ''?''") (simp; blast)+
  qed
qed simp

lemma wild_glob: "wild p s \<Longrightarrow> [newline] \<notin> set s \<Longrightarrow> glob p s"
proof (induction p s rule: wild.induct)
  case (2 c cs s)
  note simps = wild.simps(2) [of c cs s] glob.simps(2) [of c cs s]
  have sub: "s = u @ v \<Longrightarrow> [newline] \<notin> set u \<and> [newline] \<notin> set v" for u v using "2.prems"(2) by auto
  show ?case
  proof (cases "c = CHR ''*''")
    case True
    show ?thesis
    proof (cases cs)
      case (Cons d ds)
      then show ?thesis using True "2.prems" "2.IH"(1,2) dirs_part_suffix(2) sub unfolding simps by (cases "d = CHR ''*''"; cases "ds = []") (simp; blast)+
    qed (use True "2.prems" in \<open>simp add: wild.simps(2) glob.simps(2)\<close>)
  next
    case False
    with "2.prems" "2.IH"(3,4) show ?thesis unfolding simps by (cases "c = CHR ''?''") (auto)
  qed
qed simp

text \<open>The characters a pattern may have besides the wildcards, and themselves.\<close>

definition glob_char :: "char \<Rightarrow> bool" where
  "glob_char c \<longleftrightarrow> ascii c \<and> (c \<in> set ''*?.$'' \<or> \<not> rx_special c)"

lemma rx_match_Cons [simp]:
  "rx_match [] s \<longleftrightarrow> s = []"
  "rx_match (Lit c # r) s \<longleftrightarrow> (\<exists>v. s = [c] # v \<and> rx_match r v)"
  "rx_match (NotSlash # r) s \<longleftrightarrow> (\<exists>x v. s = x # v \<and> x \<noteq> [slash] \<and> rx_match r v)"
  by (auto simp: rx_match.simps split: list.splits)

lemma split_Cons:
  "(\<exists>u v. x # t = u @ v \<and> P u \<and> Q v) \<longleftrightarrow> P [] \<and> Q (x # t) \<or> (\<exists>u v. t = u @ v \<and> P (x # u) \<and> Q v)"
  unfolding Cons_eq_append_conv by blast

lemma rx_match_NotSlashes: "rx_match (NotSlashes # r) s \<longleftrightarrow> (\<exists>u v. s = u @ v \<and> name_part u \<and> rx_match r v)"
proof (induction s)
  case Nil
  then show ?case by (simp add: rx_match.simps(4) name_part_def)
next
  case (Cons x t)
  then show ?case unfolding split_Cons rx_match.simps(4) [of r "x # t"] by (auto simp: name_part_def)
qed

lemma rx_match_DotStar: "rx_match (DotStar # r) s \<longleftrightarrow> (\<exists>u v. s = u @ v \<and> [newline] \<notin> set u \<and> rx_match r v)"
proof (induction s)
  case Nil
  then show ?case by (simp add: rx_match.simps(5))
next
  case (Cons x t)
  then show ?case unfolding split_Cons rx_match.simps(5) [of r "x # t"] by auto
qed

lemma rx_match_SomeDirs:
  "rx_match (SomeDirs # r) s \<longleftrightarrow> (\<exists>u v. s = u @ v \<and> (dirs_part u \<or> name_part u) \<and> rx_match r v)"
proof -
  have "rx_match (DotStar # Lit slash # r) s \<longleftrightarrow> (\<exists>u v. s = u @ v \<and> dirs_part u \<and> rx_match r v)"
    unfolding rx_match_DotStar rx_match_Cons
  proof (intro iffI; elim exE conjE)
    fix u v w assume "s = u @ v" "[newline] \<notin> set u" "v = [slash] # w" "rx_match r w"
    then show "\<exists>u v. s = u @ v \<and> dirs_part u \<and> rx_match r v"
      by (intro exI [of _ "u @ [[slash]]"] exI [of _ w]) (simp add: dirs_part_def)
  next
    fix u v assume a: "s = u @ v" "dirs_part u" "rx_match r v"
    then obtain w where "u = w @ [[slash]]" "[newline] \<notin> set w" by (auto simp: dirs_part_def)
    with a show "\<exists>u v. s = u @ v \<and> [newline] \<notin> set u \<and> (\<exists>w. v = [slash] # w \<and> rx_match r w)"
      by (intro exI [of _ w] exI [of _ "[slash] # v"]) simp
  qed
  then show ?thesis unfolding rx_match.simps(6) by (auto simp: rx_match_NotSlashes)
qed

text \<open>Reading back the expression made of a pattern.\<close>

lemma rx_parse_items [simp]:
  shows "rx_parse ''$'' = Some []"
    and "rx_parse (some_dirs @ s) = map_option ((#) SomeDirs) (rx_parse s)"
    and "rx_parse (not_slashes @ s) = map_option ((#) NotSlashes) (rx_parse s)"
    and "rx_parse (dot_star @ s) = map_option ((#) DotStar) (rx_parse s)"
    and "ascii_punct c \<Longrightarrow> rx_parse (backslash # c # s) = map_option ((#) (Lit c)) (rx_parse s)"
    and "ascii c \<Longrightarrow> \<not> rx_special c \<Longrightarrow> rx_parse (c # s) = map_option ((#) (Lit c)) (rx_parse s)"
  subgoal by (subst rx_parse.simps) simp
  subgoal by (subst rx_parse.simps) (simp add: rx_texts)
  subgoal by (subst rx_parse.simps) (simp add: rx_texts)
  subgoal by (subst rx_parse.simps) (simp add: rx_texts)
  subgoal by (subst rx_parse.simps) (simp add: rx_texts)
  subgoal by (subst rx_parse.simps) (auto simp: rx_texts rx_special_def)
  done

lemma rx_parse_not_slash: "\<not> prefix ''*'' s \<Longrightarrow> rx_parse (not_slash @ s) = map_option ((#) NotSlash) (rx_parse s)"
  by (subst rx_parse.simps) (auto simp: rx_texts)

lemma to_regexp_no_star: "\<not> prefix ''*'' (to_regexp p @ ''$'')"
proof (cases p)
  case (Cons c cs)
  then show ?thesis by (auto simp: to_regexp.simps(2) rx_texts split: list.splits)
qed simp

lemma set_skip_slash: "set (skip_slash cs) \<subseteq> set cs"
  by (cases cs) auto

lemma to_regexp_parses:
  assumes "\<forall>c \<in> set p. glob_char c"
  shows "\<exists>items. rx_parse (to_regexp p @ ''$'') = Some items \<and> (\<forall>s. rx_match items s = glob p s)"
  using assms
proof (induction p rule: to_regexp.induct)
  case 1
  then show ?case by simp
next
  case (2 ch cs)
  show ?case
  proof (cases "ch = CHR ''*''")
    case star: True
    show ?thesis
    proof (cases cs)
      case Nil
      then show ?thesis using star
        by (auto simp: to_regexp.simps(2) glob.simps(2) intro!: exI [of _ "[NotSlashes]"] simp: rx_match_NotSlashes)
    next
      case (Cons d ds)
      show ?thesis
      proof (cases "d = CHR ''*''")
        case dd: True
        show ?thesis
        proof (cases "ds = []")
          case True
          then show ?thesis using star dd Cons
            by (auto simp: to_regexp.simps(2) glob.simps(2) intro!: exI [of _ "[DotStar]"] simp: rx_match_DotStar)
        next
          case False
          have "\<forall>c \<in> set (skip_slash ds). glob_char c" using "2.prems" Cons set_skip_slash [of ds] by auto
          with "2.IH"(2) [OF star Cons dd] obtain items where
            "rx_parse (to_regexp (skip_slash ds) @ ''$'') = Some items" "\<forall>s. rx_match items s = glob (skip_slash ds) s" by blast
          then show ?thesis using star dd Cons False
            by (auto simp: to_regexp.simps(2) glob.simps(2) intro!: exI [of _ "SomeDirs # items"] simp: rx_match_SomeDirs)
        qed
      next
        case False
        from "2.IH"(3) [OF star Cons False] "2.prems" obtain items where
          "rx_parse (to_regexp cs @ ''$'') = Some items" "\<forall>s. rx_match items s = glob cs s" by auto
        then show ?thesis using star False Cons
          by (auto simp: to_regexp.simps(2) glob.simps(2) intro!: exI [of _ "NotSlashes # items"] simp: rx_match_NotSlashes)
      qed
    qed
  next
    case nostar: False
    have sub: "\<forall>c \<in> set cs. glob_char c" and ch: "glob_char ch" using "2.prems" by simp_all
    then have "ch \<noteq> backslash" by (auto simp: glob_char_def rx_special_def)
    with nostar sub "2.IH"(4,5,7) obtain items where
      items: "rx_parse (to_regexp cs @ ''$'') = Some items" "\<forall>s. rx_match items s = glob cs s" by blast
    consider "ch = CHR ''?''" | "ch = CHR ''.'' \<or> ch = CHR ''$''" | "\<not> rx_special ch" "ascii ch" "ch \<noteq> CHR ''?''"
      using ch nostar by (auto simp: glob_char_def rx_special_def)
    then show ?thesis
    proof cases
      case 1
      with items rx_parse_not_slash [OF to_regexp_no_star [of cs]] show ?thesis
        by (auto simp: to_regexp.simps(2) glob.simps(2) intro!: exI [of _ "NotSlash # items"])
    next
      case 2
      with items show ?thesis
        by (auto simp: to_regexp.simps(2) glob.simps(2) ascii_punct_def intro!: exI [of _ "Lit ch # items"])
    next
      case 3
      with items nostar \<open>ch \<noteq> backslash\<close> show ?thesis
        by (auto simp: to_regexp.simps(2) glob.simps(2) rx_special_def intro!: exI [of _ "Lit ch # items"])
    qed
  qed
qed

lemma ascii_rune: "ascii c \<Longrightarrow> rune_len (c # s) = 1"
  by (simp add: rune_len_def ascii_def in_range_def)

lemma runes_Nil [simp]: "runes [] = []"
  by (simp add: runes.simps)

lemma concat_runes: "concat (runes s) = s"
proof (induction s rule: runes.induct)
  case (1 s)
  then show ?case by (cases "s = []") (simp_all add: runes.simps [of s] Let_def)
qed

lemma newline_in_runes: "newline \<notin> set s \<Longrightarrow> [newline] \<notin> set (runes s)"
proof
  assume n: "newline \<notin> set s" and "[newline] \<in> set (runes s)"
  then have "newline \<in> set (concat (runes s))" by (auto intro!: bexI [of _ "[newline]"])
  with n show False by (simp add: concat_runes)
qed

lemma runes_ascii: "ascii c \<Longrightarrow> runes (c # s) = [c] # runes s"
  by (subst runes.simps) (simp add: ascii_rune)

lemma coerce_ascii: "\<forall>c \<in> set s. ascii c \<Longrightarrow> coerce_utf8 s = s"
proof (rule coerce_utf8_valid, induction s)
  case (Cons c s)
  then show ?case by (subst ValidString.simps) (simp add: ascii_rune)
qed simp

lemma regexpMatch_safe:
  assumes "\<forall>c \<in> set p. glob_char c"
  shows "regexpMatch gx p path = Inr (glob p (runes path))"
proof -
  obtain items where i: "rx_parse (to_regexp p @ ''$'') = Some items" "\<forall>s. rx_match items s = glob p s"
    using to_regexp_parses [OF assms] by blast
  have "\<not> glob_char CHR ''[''" "\<not> glob_char backslash" by (simp_all add: glob_char_def rx_special_def)
  then have "CHR ''['' \<notin> set p" "backslash \<notin> set p" using assms by blast+
  moreover have "coerce_utf8 p = p" using assms by (intro coerce_ascii) (simp add: glob_char_def)
  ultimately show ?thesis using i by (simp add: regexpMatch_def path_Match_err_def MatchString_def)
qed

section \<open>Lists of patterns\<close>

definition rel_path :: "string list \<Rightarrow> string" where
  "rel_path cs = join_with [slash] cs"

lemma rel_path_split: "rel_path (split_on slash p) = p"
  by (simp add: rel_path_def join_split)

lemma split_rel_path: "cs \<noteq> [] \<Longrightarrow> list_all plain cs \<Longrightarrow> split_on slash (rel_path cs) = cs"
  unfolding rel_path_def by (intro split_join) (auto simp: list_all_iff plain_def)

lemma not_rooted_rel_path: "cs \<noteq> [] \<Longrightarrow> list_all plain cs \<Longrightarrow> \<not> rooted (rel_path cs)"
  by (cases cs; cases "hd cs") (auto simp: rel_path_def rooted_def join_with_Cons plain_def)

lemma Clean_rel_path: "cs \<noteq> [] \<Longrightarrow> list_all plain cs \<Longrightarrow> Clean (rel_path cs) = rel_path cs"
proof -
  assume cs: "cs \<noteq> []" "list_all plain cs"
  moreover have "rel_path cs \<noteq> []" using split_rel_path [OF cs] cs(2) by (cases "rel_path cs") (auto simp: plain_def)
  ultimately show ?thesis
    by (simp add: Clean_def not_rooted_rel_path split_rel_path clean_comps_plain) (simp add: rel_path_def)
qed

lemma Dir_rel_path:
  assumes "list_all plain cs" and "plain n"
  shows "path_Dir (rel_path (cs @ [n])) = (if cs = [] then ''.'' else rel_path cs)"
proof (cases "cs = []")
  case True
  then have "upto_last_slash (rel_path (cs @ [n])) = []" using assms(2) by (auto simp: rel_path_def upto_last_slash_def plain_def)
  with True show ?thesis by (simp add: path_Dir_def Clean_def rooted_def clean_comps_def)
next
  case False
  then have "rel_path (cs @ [n]) = rel_path cs @ slash # n" by (simp add: rel_path_def join_with_append)
  moreover have "rel_path cs \<noteq> []" using split_rel_path [OF False assms(1)] False assms(1) by (cases "rel_path cs") (auto simp: plain_def)
  ultimately show ?thesis
    using False assms by (simp add: path_Dir_def upto_last_slash_snoc plainD Clean_snoc_slash Clean_rel_path)
qed

text \<open>A pattern applies to a path that it matches, or one of whose parents of as many parts it matches.\<close>

definition covers :: "string \<Rightarrow> string list \<Rightarrow> bool" where
  "covers p cs \<longleftrightarrow> glob p (runes (rel_path cs)) \<or>
     (let n = length (split_on slash p) in n < length cs \<and> glob p (runes (rel_path (take n cs))))"

lemma pattern_match_covers:
  assumes p: "\<forall>c \<in> set p. glob_char c" and cs: "cs \<noteq> []" "list_all plain cs"
  shows "pattern_match gx (rel_path cs) p (split_on slash p) = Inr (covers p cs)"
proof -
  obtain ds n where d: "cs = ds @ [n]" "list_all plain ds" "plain n" using cs by (cases cs rule: rev_cases) auto
  have dir: "path_Dir (rel_path cs) = (if ds = [] then ''.'' else rel_path ds)" using d by (simp add: Dir_rel_path)
  have "rel_path ds \<noteq> ''.''" if "ds \<noteq> []"
  proof
    assume "rel_path ds = ''.''"
    with split_rel_path [OF that d(2)] have "ds = [''.'']" by simp
    with d(2) show False by (simp add: plain_def)
  qed
  moreover have "take (length ps) cs = take (length ps) ds" if "length ps \<le> length ds" for ps :: "string list"
    using that d(1) by simp
  ultimately show ?thesis
    using d(1) split_rel_path [OF _ d(2)]
    unfolding pattern_match_def dir regexpMatch_safe [OF p] rel_path_def [symmetric] rel_path_split covers_def Let_def
    by (cases "ds = []") (auto simp: less_Suc_eq_le)
qed

text \<open>A pattern with its mark, and what follows it.\<close>

definition body :: "string \<Rightarrow> string" where
  "body p = (if exclusion p then drop 1 p else p)"

definition safe_pattern :: "string \<Rightarrow> bool" where
  "safe_pattern p \<longleftrightarrow> (\<forall>c \<in> set (body p). glob_char c)"

definition last_decides :: "(string \<Rightarrow> bool) \<Rightarrow> string list \<Rightarrow> bool \<Rightarrow> bool" where
  "last_decides applies patterns d = (case filter applies patterns of [] \<Rightarrow> d | xs \<Rightarrow> \<not> exclusion (last xs))"

lemma last_decides_Cons: "last_decides f (p # ps) d = last_decides f ps (if f p then \<not> exclusion p else d)"
  by (auto simp: last_decides_def split: list.splits)

lemma matches_loop_Cons:
  "matches_loop gx path ((p, dirs) # rest) matched =
    (case pattern_match gx path (body p) dirs of
       Inl e \<Rightarrow> Inl e | Inr match \<Rightarrow> matches_loop gx path rest (if match then \<not> exclusion p else matched))"
  by (simp only: matches_loop.simps Let_def body_def)

lemma matches_loop_last:
  assumes "\<forall>p \<in> set patterns. safe_pattern p" and cs: "cs \<noteq> []" "list_all plain cs"
  shows "matches_loop gx (rel_path cs) (zip patterns (map (\<lambda>p. split_on slash (body p)) patterns)) d =
    Inr (last_decides (\<lambda>p. covers (body p) cs) patterns d)"
  using assms(1)
proof (induction patterns arbitrary: d)
  case Nil
  then show ?case by (simp add: last_decides_def)
next
  case (Cons p ps)
  have "pattern_match gx (rel_path cs) (body p) (split_on slash (body p)) = Inr (covers (body p) cs)"
    using Cons.prems by (intro pattern_match_covers cs) (simp add: safe_pattern_def)
  then have "matches_loop gx (rel_path cs) (zip (p # ps) (map (\<lambda>p. split_on slash (body p)) (p # ps))) d =
      matches_loop gx (rel_path cs) (zip ps (map (\<lambda>p. split_on slash (body p)) ps)) (if covers (body p) cs then \<not> exclusion p else d)"
    unfolding list.map zip_Cons_Cons matches_loop_Cons by simp
  with Cons show ?case by (simp add: last_decides_Cons del: matches_loop.simps)
qed

text \<open>A pattern of printable ASCII characters has no white space to trim.\<close>

definition printable :: "char \<Rightarrow> bool" where
  "printable c \<longleftrightarrow> 33 \<le> (of_char c :: nat) \<and> (of_char c :: nat) < 127"

lemma space_seqs_unprintable: "\<forall>w \<in> set space_seqs. w \<noteq> [] \<and> (\<forall>c \<in> set w. \<not> printable c)"
  by (simp add: space_seqs_def printable_def of_char_byte upt_rec)

lemma no_space_at:
  assumes "\<forall>w \<in> set seqs. w \<noteq> [] \<and> (\<forall>c \<in> set w. \<not> printable c)" and "\<forall>c \<in> set s. printable c"
  shows "space_at seqs s = 0"
proof -
  have "\<not> prefix w s" if "w \<in> set seqs" for w
  proof
    assume "prefix w s"
    then have "set w \<subseteq> set s" by (rule set_mono_prefix)
    with assms that show False by (cases w) auto
  qed
  then have "find (\<lambda>w. prefix w s) seqs = None" by (simp add: find_None_iff)
  then show ?thesis by (simp add: space_at_def)
qed

lemma TrimSpace_printable: "\<forall>c \<in> set s. printable c \<Longrightarrow> TrimSpace s = s"
  using no_space_at [OF space_seqs_unprintable, of s] no_space_at [of "map rev space_seqs" "rev s"] space_seqs_unprintable
  by (simp add: TrimSpace_def trim_left_fuel_id Let_def)

lemma clean_loop_dirs:
  assumes "clean_loop ps (cl, map (\<lambda>p. split_on slash (body p)) cl, ex) = Inr (cl', dirs, ex')"
  shows "dirs = map (\<lambda>p. split_on slash (body p)) cl'"
  using assms
proof (induction ps arbitrary: cl ex)
  case (Cons p ps)
  show ?case
  proof (cases "TrimSpace p = []")
    case True
    with Cons show ?thesis by simp
  next
    case False
    have "clean_loop ps (cl @ [Clean (TrimSpace p)], map (\<lambda>p. split_on slash (body p)) (cl @ [Clean (TrimSpace p)]),
        ex \<or> exclusion (TrimSpace p)) = Inr (cl', dirs, ex')"
      using Cons.prems False by (simp add: Let_def body_def [of "Clean (TrimSpace p)"] split: if_splits)
    then show ?thesis by (rule Cons.IH)
  qed
qed simp

lemma CleanPatterns_dirs: "CleanPatterns ps = Inr (cl, dirs, ex) \<Longrightarrow> dirs = map (\<lambda>p. split_on slash (body p)) cl"
  using clean_loop_dirs [of ps "[]" False] by (simp add: CleanPatterns_def)

lemma OptimizedMatches_safe:
  assumes "CleanPatterns ps = Inr (cl, dirs, ex)" and "\<forall>p \<in> set cl. safe_pattern p" and "cs \<noteq> []" and "list_all plain cs"
  shows "OptimizedMatches gx (rel_path cs) cl dirs = Inr (last_decides (\<lambda>p. covers (body p) cs) cl False)"
  unfolding OptimizedMatches_def CleanPatterns_dirs [OF assms(1)] by (rule matches_loop_last [OF assms(2-4)])

section \<open>The patterns of the aufs driver\<close>

lemma glob_literal:
  assumes "c \<notin> set ''*?''" and "ascii c"
  shows "glob (c # p) (runes s) \<longleftrightarrow> (\<exists>t. s = c # t \<and> glob p (runes t))"
proof (cases s)
  case Nil
  then show ?thesis using assms(1) by (simp add: glob.simps(2))
next
  case (Cons d t)
  have "runes (d # t) = [c] # v \<longleftrightarrow> d = c \<and> v = runes t" for v
  proof
    assume r: "runes (d # t) = [c] # v"
    have "hd (hd (runes (d # t))) = d" by (subst runes.simps) (simp add: hd_take Let_def max_def)
    then have "d = c" using r by simp
    with r runes_ascii [OF assms(2), of t] show "d = c \<and> v = runes t" by simp
  qed (use runes_ascii [OF assms(2)] in simp)
  with Cons assms(1) show ?thesis by (auto simp: glob.simps(2))
qed

text \<open>Every byte of an encoding but the first is at least 128.\<close>

lemma in_range_high: "in_range lo hi c \<Longrightarrow> 128 \<le> lo \<Longrightarrow> \<not> ascii c"
  by (simp add: in_range_def ascii_def)

lemma rune_tail_high: "\<exists>u v. t = u @ v \<and> length u = rune_len (a # t) - 1 \<and> (\<forall>c \<in> set u. \<not> ascii c)"
proof -
  let ?P = "\<lambda>n. \<exists>u v. t = u @ v \<and> length u = n - 1 \<and> (\<forall>c \<in> set u. \<not> ascii c)"
  have zero: "?P 0" "?P 1" by simp_all
  consider "in_range 0 127 a" | "in_range 194 223 a" "\<not> in_range 0 127 a"
    | "in_range 224 239 a" "\<not> in_range 194 223 a" "\<not> in_range 0 127 a"
    | "in_range 240 244 a" "\<not> in_range 224 239 a" "\<not> in_range 194 223 a" "\<not> in_range 0 127 a"
    | "\<not> in_range 240 244 a" "\<not> in_range 224 239 a" "\<not> in_range 194 223 a" "\<not> in_range 0 127 a" by blast
  then show "?P (rune_len (a # t))"
  proof cases
    case 1
    then show ?thesis using zero by (simp add: rune_len_def)
  next
    case 2
    show ?thesis
    proof (cases t)
      case (Cons b u)
      have "?P 2" if "cont b" using that Cons in_range_high by (intro exI [of _ "[b]"] exI [of _ u]) auto
      with zero 2 Cons show ?thesis by (simp add: rune_len_def)
    qed (use zero 2 in \<open>simp add: rune_len_def\<close>)
  next
    case 3
    show ?thesis
    proof (cases "\<exists>b c u. t = b # c # u")
      case True
      then obtain b c u where t: "t = b # c # u" by blast
      define lo where "lo = (if of_char a = (224::nat) then 160 else 128 :: nat)"
      define hi where "hi = (if of_char a = (237::nat) then 159 else 191 :: nat)"
      have "?P 3" if "in_range lo hi b \<and> cont c"
        using that t in_range_high by (intro exI [of _ "[b, c]"] exI [of _ u]) (auto simp: lo_def split: if_splits)
      moreover have "rune_len (a # t) = (if in_range lo hi b \<and> cont c then 3 else 0)"
        using 3 t by (simp only: rune_len_def lo_def hi_def list.case if_False if_True)
      ultimately show ?thesis using zero(1) by presburger
    next
      case False
      then have "rune_len (a # t) = 0" using 3 by (auto simp: rune_len_def split: list.splits)
      with zero(1) show ?thesis by simp
    qed
  next
    case 4
    show ?thesis
    proof (cases "\<exists>b c d u. t = b # c # d # u")
      case True
      then obtain b c d u where t: "t = b # c # d # u" by blast
      define lo where "lo = (if of_char a = (240::nat) then 144 else 128 :: nat)"
      define hi where "hi = (if of_char a = (244::nat) then 143 else 191 :: nat)"
      have "?P 4" if "in_range lo hi b \<and> cont c \<and> cont d"
        using that t in_range_high by (intro exI [of _ "[b, c, d]"] exI [of _ u]) (auto simp: lo_def split: if_splits)
      moreover have "rune_len (a # t) = (if in_range lo hi b \<and> cont c \<and> cont d then 4 else 0)"
        using 4 t by (simp only: rune_len_def lo_def hi_def list.case if_False if_True)
      ultimately show ?thesis using zero(1) by presburger
    next
      case False
      then have "rune_len (a # t) = 0" using 4 by (auto simp: rune_len_def split: list.splits)
      with zero(1) show ?thesis by simp
    qed
  next
    case 5
    then show ?thesis using zero by (simp add: rune_len_def)
  qed
qed

lemma rune_no_slash:
  assumes "s \<noteq> []" shows "slash \<notin> set (tl (take (max 1 (rune_len s)) s))"
proof -
  obtain a t where s: "s = a # t" using assms by (cases s) auto
  obtain u v where u: "t = u @ v" "length u = rune_len s - 1" "\<forall>c \<in> set u. \<not> ascii c" using rune_tail_high [of t a] s by blast
  have "tl (take (max 1 (rune_len s)) s) = take (max 1 (rune_len s) - 1) t" using s by (simp add: tl_take)
  also have "\<dots> = u" using u(1,2) by (simp add: max_def)
  finally show ?thesis using u(3) by (auto simp: ascii_def)
qed

lemma slash_runes: "[slash] \<in> set (runes s) \<longleftrightarrow> slash \<in> set s"
proof (induction s rule: runes.induct)
  case (1 s)
  show ?case
  proof (cases "s = []")
    case False
    let ?n = "max 1 (rune_len s)"
    obtain c t where s: "s = c # t" using False by (cases s) auto
    have n: "slash \<notin> set (tl (take ?n s))" by (rule rune_no_slash [OF False])
    have split: "set s = set (take ?n s) \<union> set (drop ?n s)" by (metis append_take_drop_id set_append)
    have t: "take ?n s = c # tl (take ?n s)" using s by (cases ?n) auto
    have "take ?n s = [slash] \<longleftrightarrow> slash \<in> set (take ?n s)"
    proof
      assume "slash \<in> set (take ?n s)"
      then have c: "c = slash" using n t by (metis set_ConsD)
      then have "rune_len s = 1" using s by (simp add: ascii_rune ascii_def)
      with s c show "take ?n s = [slash]" by simp
    qed simp
    moreover have "runes s = take ?n s # runes (drop ?n s)" using False by (subst runes.simps) (simp add: Let_def)
    ultimately show ?thesis using "1.IH" [OF False refl] split by (metis Un_iff list.set_intros(1,2) set_ConsD)
  qed simp
qed

lemma glob_prefix:
  assumes "\<forall>c \<in> set p. c \<notin> set ''*?'' \<and> ascii c"
  shows "glob (p @ ''*'') (runes s) \<longleftrightarrow> (\<exists>t. s = p @ t \<and> slash \<notin> set t)" and "glob p (runes s) \<longleftrightarrow> s = p"
proof -
  show "glob (p @ ''*'') (runes s) \<longleftrightarrow> (\<exists>t. s = p @ t \<and> slash \<notin> set t)"
    using assms
  proof (induction p arbitrary: s)
    case Nil
    show ?case by (simp add: glob.simps(2) name_part_def slash_runes)
  next
    case (Cons c p)
    then show ?case by (auto simp: glob_literal)
  qed
  have "runes s = [] \<longleftrightarrow> s = []" for s by (subst runes.simps) (simp add: Let_def)
  with assms show "glob p (runes s) \<longleftrightarrow> s = p"
    by (induction p arbitrary: s) (auto simp: glob_literal)
qed

text \<open>A pattern without slashes is about the first name of a path, since it also covers what is below it.\<close>

lemma rel_path_Cons: "rel_path (n # cs) = (if cs = [] then n else n @ slash # rel_path cs)"
  by (simp add: rel_path_def join_with_Cons)

lemma covers_one_part:
  assumes "slash \<notin> set p" and cs: "cs \<noteq> []" "list_all plain cs"
    and g: "\<And>s. glob p (runes s) \<Longrightarrow> slash \<notin> set s"
  shows "covers p cs \<longleftrightarrow> glob p (runes (hd cs))"
proof -
  obtain n ds where nd: "cs = n # ds" using cs(1) by (cases cs) auto
  have "\<not> glob p (runes (rel_path cs))" if "ds \<noteq> []" using g [of "rel_path cs"] that by (auto simp: nd rel_path_Cons)
  then show ?thesis using split_on_none [OF assms(1)] by (cases "ds = []") (auto simp: covers_def nd rel_path_Cons)
qed

lemma covers_name:
  assumes "\<forall>c \<in> set p. c \<notin> set ''*?/'' \<and> ascii c" and cs: "cs \<noteq> []" "list_all plain cs"
  shows "covers p cs \<longleftrightarrow> hd cs = p" and "covers (p @ ''*'') cs \<longleftrightarrow> prefix p (hd cs)"
proof -
  have ns: "slash \<notin> set p" using assms(1) by auto
  have lit: "\<forall>c \<in> set p. c \<notin> set ''*?'' \<and> ascii c" using assms(1) by simp
  have "plain (hd cs)" using cs by (cases cs) auto
  then have "slash \<notin> set (hd cs)" by (rule plainD)
  then have "(\<exists>t. hd cs = p @ t \<and> slash \<notin> set t) \<longleftrightarrow> prefix p (hd cs)" by (auto simp: prefix_def)
  then show "covers (p @ ''*'') cs \<longleftrightarrow> prefix p (hd cs)"
    using ns by (subst covers_one_part [OF _ cs]) (auto simp: glob_prefix [OF lit])
  show "covers p cs \<longleftrightarrow> hd cs = p"
    using ns by (subst covers_one_part [OF ns cs]) (auto simp: glob_prefix [OF lit])
qed

end
