(* ===== verification/ChangesSpec.thy ===== *)
theory ChangesSpec
  imports ChangesWalk
begin

text \<open>
  What the parallel walk builds, and that leaving out the files that are the same inode in both
  directories does not change the list of changes: \<open>archive.ChangesDirs\<close> reports exactly the differences
  of the two directory trees.
\<close>

section \<open>Merging two sorted lists of names\<close>

definition inode_of :: "nameIno list \<Rightarrow> string \<Rightarrow> 64 word option" where
  "inode_of ns n = map_of (map (\<lambda>x. (ni_name x, ni_ino x)) ns) n"

lemma inode_of_simps [simp]:
  "inode_of [] n = None" "inode_of (x # ns) n = (if n = ni_name x then Some (ni_ino x) else inode_of ns n)"
  by (simp_all add: inode_of_def)

lemma inode_of_None: "inode_of ns n = None \<longleftrightarrow> n \<notin> ni_name ` set ns"
  by (induction ns) auto

abbreviation sorted_names :: "nameIno list \<Rightarrow> bool" where
  "sorted_names ns \<equiv> sorted_wrt (<) (map ni_name ns)"

lemma inode_of_tail:
  assumes "sorted_names (x # ns)" and "n \<le> ni_name x" shows "inode_of ns n = None"
  using assms by (auto simp: inode_of_None dest: leD)

lemma inode_of_Some: "(\<exists>i. inode_of ns n = Some i) \<longleftrightarrow> n \<in> ni_name ` set ns"
  using inode_of_None [of ns n] by auto

lemma set_merge_names:
  assumes "sorted_names ns1" and "sorted_names ns2"
  shows "n \<in> set (merge_names d ns1 ns2) \<longleftrightarrow>
    (inode_of ns1 n \<noteq> None \<or> inode_of ns2 n \<noteq> None) \<and> \<not> (d \<and> inode_of ns1 n \<noteq> None \<and> inode_of ns1 n = inode_of ns2 n)"
  using assms
proof (induction d ns1 ns2 rule: merge_names.induct)
  case (3 d x ns1 y ns2)
  note tails = inode_of_tail [OF "3.prems"(1)] inode_of_tail [OF "3.prems"(2)]
  consider "ni_name x < ni_name y" | "ni_name x = ni_name y" | "ni_name y < ni_name x" by fastforce
  then show ?case
  proof cases
    case 1
    with "3.IH"(1) "3.prems" tails(1) [of "ni_name x"] tails(2) [of "ni_name x"] show ?thesis by auto
  next
    case 2
    with "3.IH"(2) "3.prems" tails(1) [of "ni_name x"] tails(2) [of "ni_name x"] show ?thesis by auto
  next
    case 3
    with "3.IH"(3) "3.prems" tails(1) [of "ni_name y"] tails(2) [of "ni_name y"] show ?thesis by auto
  qed
qed (auto simp: inode_of_Some)

lemma sorted_merge_names:
  assumes "sorted_names ns1" and "sorted_names ns2"
  shows "sorted_wrt (<) (merge_names d ns1 ns2)"
  using assms
proof (induction d ns1 ns2 rule: merge_names.induct)
  case (3 d x ns1 y ns2)
  have less: "ni_name x < n" if "inode_of ns1 n \<noteq> None" for n
    using inode_of_tail [OF "3.prems"(1), of n] that by force
  have less': "ni_name y < n" if "inode_of ns2 n \<noteq> None" for n
    using inode_of_tail [OF "3.prems"(2), of n] that by force
  consider "ni_name x < ni_name y" | "ni_name x = ni_name y" | "ni_name y < ni_name x" by fastforce
  then show ?case
  proof cases
    case 1
    have "ni_name x < n" if "n \<in> set (merge_names d ns1 (y # ns2))" for n
      using that set_merge_names [of ns1 "y # ns2" n d] "3.prems" less less' 1 by (auto split: if_splits intro: less_trans)
    with 1 "3.IH"(1) "3.prems" show ?thesis by auto
  next
    case 2
    have "ni_name x < n" if "n \<in> set (merge_names d ns1 ns2)" for n
      using that set_merge_names [of ns1 ns2 n d] "3.prems" less less' 2 by auto
    with 2 "3.IH"(2) "3.prems" show ?thesis by auto
  next
    case 3
    have "ni_name y < n" if "n \<in> set (merge_names d (x # ns1) ns2)" for n
      using that set_merge_names [of "x # ns1" ns2 n d] "3.prems" less less' 3 by (auto split: if_splits intro: less_trans)
    with 3 "3.IH"(3) "3.prems" show ?thesis by auto
  qed
qed simp_all

section \<open>Directory trees\<close>

datatype ftree = FTree (ft_stat: Stat_t) (ft_cap: "bytes option") (ft_entries: "(string \<times> ftree) list")

lemma size_entry: "x \<in> set es \<Longrightarrow> size (snd x) < Suc (size_list (size_prod (\<lambda>_. 0) size) es)"
  by (induction es) auto

fun wf_ftree :: "ftree \<Rightarrow> bool" where
  "wf_ftree (FTree st cap es) \<longleftrightarrow>
     distinct (map fst es) \<and> (fi_IsDir st \<or> es = []) \<and> (\<forall>x \<in> set es. plain (fst x) \<and> wf_ftree (snd x))"

fun height :: "ftree \<Rightarrow> nat" where
  "height (FTree st cap es) = Suc (foldr max (map (\<lambda>x. height (snd x)) es) 0)"

definition ft_child :: "string \<Rightarrow> ftree option \<Rightarrow> ftree option" where
  "ft_child n q = Option.bind q (\<lambda>t. map_of (ft_entries t) n)"

fun ft_at :: "string list \<Rightarrow> ftree option \<Rightarrow> ftree option" where
  "ft_at [] q = q"
| "ft_at (n # cs) q = ft_at cs (ft_child n q)"

definition wf_opt :: "ftree option \<Rightarrow> bool" where
  "wf_opt q \<longleftrightarrow> (case q of None \<Rightarrow> True | Some t \<Rightarrow> wf_ftree t)"

definition height_opt :: "ftree option \<Rightarrow> nat" where
  "height_opt q = (case q of None \<Rightarrow> 0 | Some t \<Rightarrow> height t)"

lemma wf_ft_child: "wf_opt q \<Longrightarrow> wf_opt (ft_child n q)"
proof (cases q)
  case (Some t)
  then show "wf_opt q \<Longrightarrow> ?thesis" by (cases t) (auto simp: wf_opt_def ft_child_def dest: map_of_SomeD split: option.splits)
qed (simp add: wf_opt_def ft_child_def)

lemma le_foldr_max: "x \<in> set xs \<Longrightarrow> x \<le> foldr max xs (0 :: nat)"
  by (induction xs) auto

lemma height_ft_child: "q \<noteq> None \<Longrightarrow> height_opt (ft_child n q) < height_opt q"
proof (cases "ft_child n q")
  case (Some c)
  then obtain t where t: "q = Some t" "map_of (ft_entries t) n = Some c" by (cases q) (auto simp: ft_child_def)
  obtain st cap es where [simp]: "t = FTree st cap es" by (cases t) auto
  from t(2) have "height c \<in> set (map (\<lambda>x. height (snd x)) es)"
    by (force dest: map_of_SomeD)
  from le_foldr_max [OF this] show ?thesis using t Some by (simp add: height_opt_def)
next
  case None
  assume "q \<noteq> None"
  then obtain st cap es where "q = Some (FTree st cap es)" by (metis ftree.exhaust option.exhaust)
  with None show ?thesis by (simp add: height_opt_def)
qed

section \<open>A kernel that shows a tree\<close>

definition listing :: "ftree \<Rightarrow> nameIno list" where
  "listing t = sort_key ni_name (map (\<lambda>x. \<lparr>ni_name = fst x, ni_ino = Ino (ft_stat (snd x))\<rparr>) (ft_entries t))"

text \<open>
  Below the path \<open>base\<close> every file of the tree answers \<open>lstat\<close> and \<open>lgetxattr\<close>, a directory lists its
  entries with their inode numbers, and a name that a directory has not is reported missing.
\<close>

definition serves_node :: "'s kernel \<Rightarrow> 's \<Rightarrow> string list \<Rightarrow> ftree \<Rightarrow> bool" where
  "serves_node k s path t \<longleftrightarrow>
     k_lstat k s (abs_path path) = Inr (ft_stat t) \<and>
     (\<exists>e. Lgetxattr k s (abs_path path) ''security.capability'' = Ret (ft_cap t, e)) \<and>
     (fi_IsDir (ft_stat t) \<longrightarrow>
        readdirnames k s (abs_path path) = Inr (listing t) \<and>
        (\<forall>n. plain n \<longrightarrow> map_of (ft_entries t) n = None \<longrightarrow> k_lstat k s (abs_path (path @ [n])) = Inl ENOENT))"

definition serves :: "'s kernel \<Rightarrow> 's \<Rightarrow> string list \<Rightarrow> ftree option \<Rightarrow> bool" where
  "serves k s base q \<longleftrightarrow> (\<forall>cs t. list_all plain cs \<longrightarrow> ft_at cs q = Some t \<longrightarrow> serves_node k s (base @ cs) t)"

lemma serves_child: "serves k s base q \<Longrightarrow> plain n \<Longrightarrow> serves k s (base @ [n]) (ft_child n q)"
  unfolding serves_def
proof (intro allI impI)
  fix cs t
  assume q: "\<forall>cs t. list_all plain cs \<longrightarrow> ft_at cs q = Some t \<longrightarrow> serves_node k s (base @ cs) t"
    and "plain n" "list_all plain cs" "ft_at cs (ft_child n q) = Some t"
  then show "serves_node k s ((base @ [n]) @ cs) t" using q [rule_format, of "n # cs" t] by simp
qed

lemma serves_here: "serves k s base (Some t) \<Longrightarrow> serves_node k s base t"
  unfolding serves_def by (drule spec [of _ "[]"]) simp

lemma Join_abs_paths:
  assumes "list_all plain ws" and "list_all plain vs" and "ws \<noteq> []"
  shows "Join [abs_path ws, abs_path vs] = abs_path (ws @ vs)"
proof -
  have split: "split_on slash (join_with [slash] ws @ slash # ys) = ws @ split_on slash ys"
    if "list_all plain ws" "ws \<noteq> []" for ws ys
    using that
  proof (induction ws)
    case (Cons w ws)
    then show ?case by (cases ws) (auto simp: split_on_append plainD)
  qed simp
  have "fold (\<lambda>w st. clean_push True st w) (split_on slash (join_with [slash] vs)) st = rev vs @ st" for st
  proof (cases "vs = []")
    case False
    then have "split_on slash (join_with [slash] vs) = vs"
      using assms(2) by (intro split_join) (auto simp: list_all_iff plain_def)
    then show ?thesis using assms(2) by (simp add: fold_clean_plain)
  qed simp
  then have "clean_comps True (split_on slash (abs_path ws @ slash # abs_path vs)) = ws @ vs"
    using assms by (simp add: abs_path_def split clean_comps_def fold_clean_plain)
  then show ?thesis by (simp add: Clean_def rooted_def abs_path_def)
qed

section \<open>Updating a tree at a path\<close>

lemma map_entry_map_entry: "AList.map_entry k f (AList.map_entry k g cs) = AList.map_entry k (f \<circ> g) cs"
  by (induction cs) auto

lemma map_entry_update: "AList.map_entry k f (AList.update k v cs) = AList.update k (f v) cs"
  by (induction cs) auto

lemma map_of_map_entry: "map_of (AList.map_entry k f cs) n = (if n = k then map_option f (map_of cs k) else map_of cs n)"
  by (induction cs) auto

lemma update_at_Cons:
  "update_at (n # ps) f i =
    (if n \<noteq> [] then FileInfo (fi_stat i) (fi_capability i) (AList.map_entry n (update_at ps f) (fi_children i))
     else update_at ps f i)"
  by (cases i) simp

lemma update_at_update_at: "update_at ps f (update_at ps g r) = update_at ps (\<lambda>i. f (g i)) r"
proof (induction ps arbitrary: r)
  case (Cons n ps)
  then have "update_at ps f \<circ> update_at ps g = update_at ps (\<lambda>i. f (g i))" by auto
  with Cons show ?case by (simp add: update_at_Cons map_entry_map_entry)
qed simp

lemma update_at_append: "update_at (ps @ qs) f r = update_at ps (update_at qs f) r"
proof (induction ps arbitrary: r)
  case (Cons n ps)
  then have "update_at (ps @ qs) f = update_at ps (update_at qs f)" by auto
  then show ?case by (simp add: update_at_Cons)
qed simp

lemma update_at_add_child: "n \<noteq> [] \<Longrightarrow> update_at [n] f (add_child n c i) = add_child n (f c) i"
  by (cases i) (simp add: map_entry_update)

lemma update_at_child:
  assumes "n \<noteq> []"
  shows "update_at (ps @ [n]) f (update_at ps (add_child n c) r) = update_at ps (add_child n (f c)) r"
proof -
  have "(\<lambda>i. update_at [n] f (add_child n c i)) = add_child n (f c)"
    using update_at_add_child [OF assms] by auto
  then show ?thesis by (simp only: update_at_append update_at_update_at)
qed

lemma map_entry_id: "AList.map_entry k (\<lambda>x. x) cs = cs"
  by (induction cs) auto

lemma update_at_id: "update_at ps (\<lambda>i. i) r = r"
proof (induction ps arbitrary: r)
  case (Cons n ps)
  then have "update_at ps (\<lambda>i. i) = (\<lambda>i. i)" by auto
  then show ?case by (cases r) (simp add: map_entry_id)
qed simp

lemma fi_at_update_at: "fi_at ps (update_at ps f r) = map_option f (fi_at ps r)"
proof (induction ps arbitrary: r)
  case (Cons n ps)
  then show ?case by (auto simp: update_at_Cons map_of_map_entry split: option.splits)
qed simp

lemma fi_at_add_child: "n \<noteq> [] \<Longrightarrow> fi_at [n] (add_child n c i) = Some c"
  by (cases i) simp

lemma fi_at_new_child:
  assumes "n \<noteq> []" and "fi_at ps r \<noteq> None"
  shows "fi_at (ps @ [n]) (update_at ps (add_child n c) r) = Some c"
  using assms by (auto simp: fi_at_append fi_at_update_at simp del: fi_at.simps intro: fi_at_add_child)

section \<open>What the walk builds\<close>

text \<open>A name that is the same inode of the same device in both directories is left out of both trees.\<close>

definition same_inode :: "ftree option \<Rightarrow> ftree option \<Rightarrow> string \<Rightarrow> bool" where
  "same_inode q1 q2 n \<longleftrightarrow>
     (case (q1, q2, ft_child n q1, ft_child n q2) of
        (Some t1, Some t2, Some c1, Some c2) \<Rightarrow>
          Dev (ft_stat t1) = Dev (ft_stat t2) \<and> Ino (ft_stat c1) = Ino (ft_stat c2)
      | _ \<Rightarrow> False)"

fun pruned_at :: "string list \<Rightarrow> ftree option \<Rightarrow> ftree option \<Rightarrow> ftree option" where
  "pruned_at [] q1 q2 = q1"
| "pruned_at (n # cs) q1 q2 = (if same_inode q1 q2 n then None else pruned_at cs (ft_child n q1) (ft_child n q2))"

lemma same_inode_sym: "same_inode q1 q2 n = same_inode q2 q1 n"
  by (auto simp: same_inode_def split: option.splits)

lemma ft_child_None [simp]: "ft_child n None = None"
  by (simp add: ft_child_def)

lemma pruned_at_None [simp]: "pruned_at cs None q2 = None"
  by (induction cs arbitrary: q2) (auto simp: same_inode_def)

definition node_meta :: "ftree \<Rightarrow> StatT option \<times> bytes option" where
  "node_meta t = (Some (FromStatT (ft_stat t)), ft_cap t)"

definition rep :: "FileInfo \<Rightarrow> ftree option \<Rightarrow> ftree option \<Rightarrow> bool" where
  "rep T q1 q2 \<longleftrightarrow> wf_info T \<and> (\<forall>cs. list_all plain cs \<longrightarrow> meta (at cs (Some T)) = map_option node_meta (pruned_at cs q1 q2))"

definition rep_children :: "(string \<times> FileInfo) list \<Rightarrow> ftree option \<Rightarrow> ftree option \<Rightarrow> bool" where
  "rep_children L q1 q2 \<longleftrightarrow> wf_children L \<and> (\<forall>n cs. plain n \<longrightarrow> list_all plain cs \<longrightarrow>
     meta (at cs (map_of L n)) = map_option node_meta (pruned_at (n # cs) q1 q2))"

definition add_all :: "(string \<times> FileInfo) list \<Rightarrow> FileInfo \<Rightarrow> FileInfo" where
  "add_all L i = fold (\<lambda>x. add_child (fst x) (snd x)) L i"

lemma AList_update_fresh: "n \<notin> fst ` set cs \<Longrightarrow> AList.update n c cs = cs @ [(n, c)]"
  by (induction cs) auto

lemma add_all_fresh:
  "distinct (map fst (cs @ L)) \<Longrightarrow> add_all L (FileInfo st cap cs) = FileInfo st cap (cs @ L)"
proof (induction L arbitrary: cs)
  case (Cons x L)
  then show ?case using Cons.IH [of "cs @ [x]"] by (cases x) (auto simp: add_all_def AList_update_fresh)
qed (simp add: add_all_def)

lemma add_all_simps [simp]:
  "add_all [] = (\<lambda>i. i)" "add_all (x # L) = (\<lambda>i. add_all L (add_child (fst x) (snd x) i))"
  by (auto simp: add_all_def)

definition put :: "string list \<Rightarrow> string \<Rightarrow> ftree option \<Rightarrow> FileInfo \<Rightarrow> FileInfo \<Rightarrow> FileInfo" where
  "put ps n q T r = (case q of None \<Rightarrow> r | Some _ \<Rightarrow> update_at ps (add_child n T) r)"

definition upd_roots :: "(FileInfo \<Rightarrow> FileInfo) \<Rightarrow> (FileInfo \<Rightarrow> FileInfo) \<Rightarrow> walker \<Rightarrow> walker" where
  "upd_roots g1 g2 w = w\<lparr>root1 := g1 (root1 w), root2 := g2 (root2 w)\<rparr>"

lemma upd_roots_simps [simp]:
  "root1 (upd_roots g1 g2 w) = g1 (root1 w)" "root2 (upd_roots g1 g2 w) = g2 (root2 w)"
  "wk_dir1 (upd_roots g1 g2 w) = wk_dir1 w" "wk_dir2 (upd_roots g1 g2 w) = wk_dir2 w"
  by (simp_all add: upd_roots_def)

definition has_node :: "string list \<Rightarrow> ftree option \<Rightarrow> FileInfo \<Rightarrow> bool" where
  "has_node ps q r \<longleftrightarrow> q = None \<or> fi_at ps r \<noteq> None"

text \<open>One side of the loop over the names.\<close>

definition rep_names :: "(string \<times> FileInfo) list \<Rightarrow> string list \<Rightarrow> ftree option \<Rightarrow> ftree option \<Rightarrow> bool" where
  "rep_names L names q1 q2 \<longleftrightarrow> distinct (map fst L) \<and>
     (\<forall>n. case map_of L n of
        None \<Rightarrow> n \<in> set names \<longrightarrow> ft_child n q1 = None
      | Some T \<Rightarrow> n \<in> set names \<and> ft_child n q1 \<noteq> None \<and> rep T (ft_child n q1) (ft_child n q2))"

lemma rep_names_Cons:
  assumes L: "rep_names L names q1 q2" and "n \<notin> set names"
    and T: "\<And>c. ft_child n q1 = Some c \<Longrightarrow> rep T (Some c) (ft_child n q2)"
  shows "\<exists>L'. rep_names L' (n # names) q1 q2 \<and>
    (\<forall>r. update_at ps (add_all L) (put ps n (ft_child n q1) T r) = update_at ps (add_all L') r)"
proof (cases "ft_child n q1")
  case None
  with L show ?thesis
    by (intro exI [of _ L]) (auto simp: rep_names_def put_def split: option.splits)
next
  case (Some c)
  have "map_of L n = None"
  proof (cases "map_of L n")
    case (Some T')
    then show ?thesis using L assms(2) unfolding rep_names_def by (metis option.simps(5))
  qed
  then have "n \<notin> fst ` set L" by (simp add: map_of_eq_None_iff)
  with L T [OF Some] Some have "rep_names ((n, T) # L) (n # names) q1 q2"
    by (auto simp: rep_names_def split: option.splits)
  then show ?thesis using Some
    by (intro exI [of _ "(n, T) # L"]) (simp add: put_def update_at_update_at)
qed

lemma has_node_put: "has_node ps q r \<Longrightarrow> has_node ps q (put ps n q' T r)"
  by (auto simp: has_node_def put_def fi_at_update_at split: option.splits)

lemma each_names:
  assumes f: "\<And>n w. n \<in> set names \<Longrightarrow> has_node ps q1 (root1 w) \<Longrightarrow> has_node ps q2 (root2 w) \<Longrightarrow>
      wk_dir1 w = d1 \<Longrightarrow> wk_dir2 w = d2 \<Longrightarrow>
      \<exists>T1 T2. f n w = Ret (None, upd_roots (put ps n (ft_child n q1) T1) (put ps n (ft_child n q2) T2) w) \<and>
        (\<forall>c. ft_child n q1 = Some c \<longrightarrow> rep T1 (Some c) (ft_child n q2)) \<and>
        (\<forall>c. ft_child n q2 = Some c \<longrightarrow> rep T2 (Some c) (ft_child n q1))"
    and "distinct names" and "has_node ps q1 (root1 w)" and "has_node ps q2 (root2 w)" and "wk_dir1 w = d1" and "wk_dir2 w = d2"
  shows "\<exists>L1 L2. each f names w = Ret (None, upd_roots (update_at ps (add_all L1)) (update_at ps (add_all L2)) w) \<and>
    rep_names L1 names q1 q2 \<and> rep_names L2 names q2 q1"
  using assms
proof (induction names arbitrary: w)
  case Nil
  have "upd_roots (update_at ps (add_all [])) (update_at ps (add_all [])) w = w"
    using update_at_id [of ps] by (simp add: upd_roots_def add_all_def)
  moreover have "rep_names [] [] q q'" for q q' by (simp add: rep_names_def)
  ultimately show ?case by (metis each.simps(1))
next
  case (Cons n names)
  obtain T1 T2 where T: "f n w = Ret (None, upd_roots (put ps n (ft_child n q1) T1) (put ps n (ft_child n q2) T2) w)"
    "\<And>c. ft_child n q1 = Some c \<Longrightarrow> rep T1 (Some c) (ft_child n q2)"
    "\<And>c. ft_child n q2 = Some c \<Longrightarrow> rep T2 (Some c) (ft_child n q1)"
    using Cons.prems(1) [of n w] Cons.prems(3-6) by auto
  let ?w = "upd_roots (put ps n (ft_child n q1) T1) (put ps n (ft_child n q2) T2) w"
  have "\<exists>L1 L2. each f names ?w = Ret (None, upd_roots (update_at ps (add_all L1)) (update_at ps (add_all L2)) ?w) \<and>
      rep_names L1 names q1 q2 \<and> rep_names L2 names q2 q1"
    using Cons.prems by (intro Cons.IH) (auto intro: has_node_put)
  then obtain L1 L2 where L: "each f names ?w = Ret (None, upd_roots (update_at ps (add_all L1)) (update_at ps (add_all L2)) ?w)"
    "rep_names L1 names q1 q2" "rep_names L2 names q2 q1" by blast
  have n: "n \<notin> set names" using Cons.prems(2) by simp
  obtain L1' L2' where
    1: "rep_names L1' (n # names) q1 q2" "\<And>r. update_at ps (add_all L1) (put ps n (ft_child n q1) T1 r) = update_at ps (add_all L1') r"
    and 2: "rep_names L2' (n # names) q2 q1" "\<And>r. update_at ps (add_all L2) (put ps n (ft_child n q2) T2 r) = update_at ps (add_all L2') r"
    using rep_names_Cons [OF L(2) n T(2)] rep_names_Cons [OF L(3) n T(3)] by metis
  have "each f (n # names) w = Ret (None, upd_roots (update_at ps (add_all L1')) (update_at ps (add_all L2')) w)"
    using T(1) L(1) 1(2) 2(2) by (simp add: upd_roots_def)
  with 1 2 show ?case by blast
qed

section \<open>The names that are walked\<close>

definition entries_of :: "ftree option \<Rightarrow> nameIno list" where
  "entries_of q = (case q of None \<Rightarrow> [] | Some t \<Rightarrow> if fi_IsDir (ft_stat t) then listing t else [])"

lemma wf_opt_simps [simp]: "wf_opt None" "wf_opt (Some t) = wf_ftree t"
  by (simp_all add: wf_opt_def)

lemma wf_ftree_iff:
  "wf_ftree t \<longleftrightarrow> distinct (map fst (ft_entries t)) \<and> (fi_IsDir (ft_stat t) \<or> ft_entries t = []) \<and>
     (\<forall>x \<in> set (ft_entries t). plain (fst x) \<and> wf_ftree (snd x))"
  by (cases t) simp

lemma wf_ftreeD:
  assumes "wf_ftree t"
  shows "distinct (map fst (ft_entries t))" and "fi_IsDir (ft_stat t) \<or> ft_entries t = []"
    and "(n, c) \<in> set (ft_entries t) \<Longrightarrow> plain n \<and> wf_ftree c"
  using assms wf_ftree_iff [of t] by auto

lemma map_of_same_set:
  assumes "distinct (map fst xs)" and "distinct (map fst ys)" and "set xs = set ys" shows "map_of xs = map_of ys"
  using map_of_inject_set [OF assms(1,2)] assms(3) by simp

lemma map_of_map_snd: "map_of (map (\<lambda>x. (fst x, f (snd x))) es) n = map_option f (map_of es n)"
  by (induction es) auto

lemma listing_spec:
  assumes "wf_ftree t"
  shows "sorted_names (listing t)" and "inode_of (listing t) n = map_option (\<lambda>c. Ino (ft_stat c)) (map_of (ft_entries t) n)"
proof -
  let ?f = "\<lambda>x. \<lparr>ni_name = fst x, ni_ino = Ino (ft_stat (snd x))\<rparr>"
  let ?es = "map ?f (ft_entries t)"
  have d: "distinct (map fst (ft_entries t))" using assms by (rule wf_ftreeD(1))
  then have names: "distinct (map ni_name ?es)" by (simp add: comp_def)
  then have "distinct (map ni_name (listing t))"
    unfolding listing_def by (simp only: distinct_map distinct_sort set_sort)
  moreover have "sorted (map ni_name (listing t))" by (simp add: listing_def)
  ultimately show "sorted_names (listing t)" by (simp add: strict_sorted_iff)
  let ?g = "\<lambda>x. (ni_name x, ni_ino x)"
  have "map_of (map ?g (listing t)) = map_of (map ?g ?es)"
    using \<open>distinct (map ni_name (listing t))\<close> names
    by (intro map_of_same_set) (simp_all add: comp_def, simp add: listing_def image_image)
  moreover have "map_of (map ?g ?es) n = map_option (\<lambda>c. Ino (ft_stat c)) (map_of (ft_entries t) n)"
    using map_of_map_snd [of "\<lambda>c. Ino (ft_stat c)" "ft_entries t" n] by (simp add: comp_def)
  ultimately show "inode_of (listing t) n = map_option (\<lambda>c. Ino (ft_stat c)) (map_of (ft_entries t) n)"
    by (simp add: inode_of_def)
qed

lemma entries_of_spec:
  assumes "wf_opt q"
  shows "sorted_names (entries_of q)" and "inode_of (entries_of q) n = map_option (\<lambda>c. Ino (ft_stat c)) (ft_child n q)"
proof -
  have "ft_entries t = []" if "q = Some t" "\<not> fi_IsDir (ft_stat t)" for t
    using that assms by (auto simp: wf_ftree_iff [of t])
  then show "sorted_names (entries_of q)" "inode_of (entries_of q) n = map_option (\<lambda>c. Ino (ft_stat c)) (ft_child n q)"
    using assms by (auto simp: entries_of_def ft_child_def listing_spec split: option.splits)
qed

definition walk_names :: "ftree option \<Rightarrow> ftree option \<Rightarrow> string list" where
  "walk_names q1 q2 = merge_names (same_device (map_option ft_stat q1) (map_option ft_stat q2)) (entries_of q1) (entries_of q2)"

lemma set_walk_names:
  assumes "wf_opt q1" and "wf_opt q2"
  shows "n \<in> set (walk_names q1 q2) \<longleftrightarrow> (ft_child n q1 \<noteq> None \<or> ft_child n q2 \<noteq> None) \<and> \<not> same_inode q1 q2 n"
  unfolding walk_names_def set_merge_names [OF entries_of_spec(1) [OF assms(1)] entries_of_spec(1) [OF assms(2)]]
    entries_of_spec(2) [OF assms(1)] entries_of_spec(2) [OF assms(2)]
  by (cases q1; cases q2; cases "ft_child n q1"; cases "ft_child n q2") (auto simp: same_device_def same_inode_def)

lemma distinct_walk_names:
  assumes "wf_opt q1" and "wf_opt q2" shows "distinct (walk_names q1 q2)"
  using sorted_merge_names [OF entries_of_spec(1) [OF assms(1)] entries_of_spec(1) [OF assms(2)]]
  by (simp add: walk_names_def strict_sorted_iff)

lemma plain_child: "wf_opt q \<Longrightarrow> ft_child n q \<noteq> None \<Longrightarrow> plain n"
  by (cases q) (auto simp: ft_child_def dest!: map_of_SomeD dest: wf_ftreeD(3))

lemma rep_names_children:
  assumes L: "rep_names L (walk_names q1 q2) q1 q2" and wf: "wf_opt q1" "wf_opt q2"
  shows "rep_children L q1 q2"
proof -
  have look: "case map_of L n of None \<Rightarrow> n \<in> set (walk_names q1 q2) \<longrightarrow> ft_child n q1 = None
      | Some T \<Rightarrow> n \<in> set (walk_names q1 q2) \<and> ft_child n q1 \<noteq> None \<and> rep T (ft_child n q1) (ft_child n q2)" for n
    using L by (simp add: rep_names_def)
  have "plain n \<and> wf_info T" if "(n, T) \<in> set L" for n T
  proof -
    have "map_of L n = Some T" using that L by (simp add: rep_names_def)
    with look [of n] show ?thesis using plain_child [OF wf(1)] by (simp add: rep_def)
  qed
  then have "wf_children L" using L by (auto simp: wf_children_def rep_names_def)
  moreover have "meta (at cs (map_of L n)) = map_option node_meta (pruned_at (n # cs) q1 q2)"
    if "plain n" "list_all plain cs" for n cs
  proof (cases "map_of L n")
    case None
    then have "ft_child n q1 = None \<or> same_inode q1 q2 n" using look [of n] by (auto simp: set_walk_names [OF wf])
    with None show ?thesis by auto
  next
    case (Some T)
    with look [of n] that(2) show ?thesis by (auto simp: set_walk_names [OF wf] rep_def)
  qed
  ultimately show ?thesis by (simp add: rep_children_def)
qed

lemma rep_node:
  assumes "rep_children L (Some t) q2" and "wf_ftree t"
  shows "rep (FileInfo (Some (FromStatT (ft_stat t))) (ft_cap t) L) (Some t) q2"
proof -
  let ?i = "FileInfo (Some (FromStatT (ft_stat t))) (ft_cap t) L"
  have dir: "isDir ?i" if "fi_IsDir (ft_stat t)"
  proof -
    have "and (sMode (ft_stat t)) S_IFDIR \<noteq> 0"
    proof
      assume "and (sMode (ft_stat t)) S_IFDIR = 0"
      then have "and (and (sMode (ft_stat t)) S_IFMT) S_IFDIR = 0"
        by (metis and.commute and.left_commute and_zero_eq)
      with that show False by (simp add: fi_IsDir_def S_IFDIR_def)
    qed
    then show ?thesis by (simp add: FromStatT_def)
  qed
  have "L = []" if nd: "\<not> fi_IsDir (ft_stat t)"
  proof (rule ccontr)
    assume "L \<noteq> []"
    then obtain n T where nT: "(n, T) \<in> set L" by (cases L) auto
    then have p: "plain n" and "map_of L n = Some T" using assms(1) by (auto simp: rep_children_def wf_children_def)
    moreover have "ft_child n (Some t) = None" using nd assms(2) by (auto simp: wf_ftree_iff [of t] ft_child_def)
    then have "pruned_at [n] (Some t) q2 = None" by simp
    ultimately show False using assms(1) unfolding rep_children_def by (metis at_simps(1) list.pred_inject(1) meta_None(2) option.distinct(1) option.map_disc_iff)
  qed
  with dir assms(1) have "wf_info ?i" by (auto simp: wf_info_children rep_children_def)
  moreover have "meta (at cs (Some ?i)) = map_option node_meta (pruned_at cs (Some t) q2)" if "list_all plain cs" for cs
  proof (cases cs)
    case (Cons n ds)
    with that have "at cs (Some ?i) = at ds (map_of L n)" by (simp add: at_Cons child_def)
    with assms(1) that Cons show ?thesis by (simp add: rep_children_def del: pruned_at.simps)
  qed (simp add: meta_def node_meta_def)
  ultimately show ?thesis by (simp add: rep_def)
qed

section \<open>The walk\<close>

definition walk_contents ::
  "nat \<Rightarrow> 's kernel \<Rightarrow> 's \<Rightarrow> string \<Rightarrow> Stat_t option \<Rightarrow> Stat_t option \<Rightarrow> walker \<Rightarrow> (err option \<times> walker) outcome" where
  "walk_contents fuel k s path i1 i2 w =
     (if \<not> is_dir_stat i1 \<and> \<not> is_dir_stat i2 then Ret (None, w)
      else
        case dir_names k s (is_dir_stat i1) (wk_dir1 w) path of
          Inl e \<Rightarrow> Ret (Some e, w)
        | Inr names1 \<Rightarrow>
            (case dir_names k s (is_dir_stat i2) (wk_dir2 w) path of
               Inl e \<Rightarrow> Ret (Some e, w)
             | Inr names2 \<Rightarrow>
                 each (\<lambda>name w.
                   case child_stat k s (is_dir_stat i1) (wk_dir1 w) (Join [path, name]) of
                     Inl e \<Rightarrow> Ret (Some e, w)
                   | Inr cInfo1 \<Rightarrow>
                       (case child_stat k s (is_dir_stat i2) (wk_dir2 w) (Join [path, name]) of
                          Inl e \<Rightarrow> Ret (Some e, w)
                        | Inr cInfo2 \<Rightarrow> walk fuel k s (Join [path, name]) cInfo1 cInfo2 w))
                   (merge_names (same_device i1 i2) names1 names2) w))"

lemma walk_Suc:
  "walk (Suc fuel) k s path i1 i2 w =
    bind_outcome (register k s path i1 i2 w) (\<lambda>(e, w). case e of Some _ \<Rightarrow> Ret (e, w) | None \<Rightarrow> walk_contents fuel k s path i1 i2 w)"
  unfolding walk.simps walk_contents_def Let_def by (rule refl)

text \<open>The two directories and the nodes the walk is at.\<close>

definition base_ok :: "'s kernel \<Rightarrow> 's \<Rightarrow> string list \<Rightarrow> string list \<Rightarrow> ftree option \<Rightarrow> bool" where
  "base_ok k s base ps q \<longleftrightarrow> base \<noteq> [] \<and> list_all plain base \<and> list_all plain ps \<and> wf_opt q \<and> serves k s (base @ ps) q"

lemma base_ok_child: "base_ok k s base ps q \<Longrightarrow> plain n \<Longrightarrow> base_ok k s base (ps @ [n]) (ft_child n q)"
  using serves_child [of k s "base @ ps" q n] by (auto simp: base_ok_def wf_ft_child)

lemma base_ok_Join: "base_ok k s base ps q \<Longrightarrow> Join [abs_path base, abs_path ps] = abs_path (base @ ps)"
  by (simp add: base_ok_def Join_abs_paths del: Join.simps)

lemma base_ok_dir_names:
  assumes "base_ok k s base ps q"
  shows "dir_names k s (is_dir_stat (map_option ft_stat q)) (abs_path base) (abs_path ps) = Inr (entries_of q)"
  using base_ok_Join [OF assms] assms serves_here [of k s "base @ ps"]
  by (cases q) (auto simp: dir_names_def is_dir_stat_def entries_of_def base_ok_def serves_node_def simp del: Join.simps)

lemma base_ok_child_stat:
  assumes "base_ok k s base ps q" and n: "plain n"
  shows "child_stat k s (is_dir_stat (map_option ft_stat q)) (abs_path base) (abs_path (ps @ [n])) =
    Inr (map_option ft_stat (ft_child n q))"
proof (cases "is_dir_stat (map_option ft_stat q)")
  case True
  then obtain t where t: "q = Some t" "fi_IsDir (ft_stat t)" by (auto simp: is_dir_stat_def split: option.splits)
  note J = base_ok_Join [OF base_ok_child [OF assms]]
  show ?thesis
  proof (cases "ft_child n q")
    case None
    with t n assms(1) serves_here [of k s "base @ ps" t] show ?thesis
      using J True by (auto simp: child_stat_def ft_child_def base_ok_def serves_node_def os_IsNotExist_def simp del: Join.simps)
  next
    case (Some c)
    with base_ok_child [OF assms] have "serves_node k s (base @ ps @ [n]) c"
      by (auto simp: base_ok_def dest: serves_here)
    then show ?thesis using J True Some by (simp add: child_stat_def serves_node_def del: Join.simps)
  qed
next
  case False
  then have "ft_child n q = None" using assms(1)
    by (cases q) (auto simp: is_dir_stat_def base_ok_def ft_child_def dest: wf_ftreeD(2))
  with False show ?thesis by (simp add: child_stat_def)
qed

lemma walkchunk_ok:
  assumes "base_ok k s base (ps @ [n]) q" and "has_node ps q r"
  shows "\<exists>cap. walkchunk k s (abs_path (ps @ [n])) (map_option ft_stat q) (abs_path base) r =
      Ret (Inr (put ps n q (FileInfo (Some (FromStatT (ft_stat (the q)))) cap []) r)) \<and> (\<forall>t. q = Some t \<longrightarrow> cap = ft_cap t)"
proof (cases q)
  case None
  then show ?thesis by (simp add: walkchunk_def put_def)
next
  case (Some t)
  have p: "list_all plain ps" "plain n" using assms(1) by (auto simp: base_ok_def)
  have "serves_node k s (base @ ps @ [n]) t" using assms(1) Some by (auto simp: base_ok_def dest: serves_here)
  then obtain e where cap: "Lgetxattr k s (abs_path (base @ ps @ [n])) ''security.capability'' = Ret (ft_cap t, e)"
    by (auto simp: serves_node_def)
  have skip: "fi_at (filter (\<lambda>e. e \<noteq> []) es) i = fi_at es i" for es i
    by (induction es i rule: fi_at.induct) (auto split: option.splits)
  have skip': "update_at (filter (\<lambda>e. e \<noteq> []) es) f i = update_at es f i" for es f i
  proof (induction es arbitrary: i)
    case (Cons e es)
    then have "update_at (filter (\<lambda>e. e \<noteq> []) es) f = update_at es f" by auto
    with Cons show ?case by (simp add: update_at_Cons)
  qed simp
  have "fi_at (split_on slash (abs_path ps)) r = fi_at ps r"
    using skip [of "split_on slash (abs_path ps)" r] split_abs_path [OF p(1)] by simp
  moreover have "update_at (split_on slash (abs_path ps)) f r = update_at ps f r" for f
    using skip' [of "split_on slash (abs_path ps)" f r] split_abs_path [OF p(1)] by simp
  moreover have "LookUp (abs_path ps) r \<noteq> None"
    using assms(2) Some calculation(1) by (simp add: LookUp_def has_node_def)
  ultimately show ?thesis
    using Some cap Dir_Base_abs_path [OF p] base_ok_Join [OF assms(1)]
    by (auto simp: walkchunk_def put_def simp del: Join.simps)
qed

lemma register_ok:
  assumes "base_ok k s b1 (ps @ [n]) q1" and "base_ok k s b2 (ps @ [n]) q2"
    and "has_node ps q1 (root1 w)" and "has_node ps q2 (root2 w)"
    and "wk_dir1 w = abs_path b1" and "wk_dir2 w = abs_path b2"
  shows "\<exists>c1 c2. register k s (abs_path (ps @ [n])) (map_option ft_stat q1) (map_option ft_stat q2) w =
      Ret (None, upd_roots (put ps n q1 (FileInfo (Some (FromStatT (ft_stat (the q1)))) c1 []))
                           (put ps n q2 (FileInfo (Some (FromStatT (ft_stat (the q2)))) c2 [])) w) \<and>
      (\<forall>t. q1 = Some t \<longrightarrow> c1 = ft_cap t) \<and> (\<forall>t. q2 = Some t \<longrightarrow> c2 = ft_cap t)"
proof -
  have "list_all plain (ps @ [n])" using assms(1) by (simp add: base_ok_def)
  then have "abs_path (ps @ [n]) \<noteq> [slash]" using abs_path_root by blast
  with walkchunk_ok [OF assms(1,3)] walkchunk_ok [OF assms(2,4)] assms(5,6) show ?thesis
    by (fastforce simp: register_def upd_roots_def)
qed

text \<open>The directory part of the walk, when the walk of its entries is right.\<close>

lemma walk_contents_ok:
  assumes b1: "base_ok k s b1 ps q1" and b2: "base_ok k s b2 ps q2"
    and w: "has_node ps q1 (root1 w)" "has_node ps q2 (root2 w)" "wk_dir1 w = abs_path b1" "wk_dir2 w = abs_path b2"
    and walk: "\<And>n w. ft_child n q1 \<noteq> None \<or> ft_child n q2 \<noteq> None \<Longrightarrow> base_ok k s b1 (ps @ [n]) (ft_child n q1) \<Longrightarrow> base_ok k s b2 (ps @ [n]) (ft_child n q2) \<Longrightarrow>
      has_node ps (ft_child n q1) (root1 w) \<Longrightarrow> has_node ps (ft_child n q2) (root2 w) \<Longrightarrow>
      wk_dir1 w = abs_path b1 \<Longrightarrow> wk_dir2 w = abs_path b2 \<Longrightarrow>
      \<exists>T1 T2. walk fuel k s (abs_path (ps @ [n])) (map_option ft_stat (ft_child n q1)) (map_option ft_stat (ft_child n q2)) w =
          Ret (None, upd_roots (put ps n (ft_child n q1) T1) (put ps n (ft_child n q2) T2) w) \<and>
        (\<forall>c. ft_child n q1 = Some c \<longrightarrow> rep T1 (Some c) (ft_child n q2)) \<and>
        (\<forall>c. ft_child n q2 = Some c \<longrightarrow> rep T2 (Some c) (ft_child n q1))"
  shows "\<exists>L1 L2. walk_contents fuel k s (abs_path ps) (map_option ft_stat q1) (map_option ft_stat q2) w =
      Ret (None, upd_roots (update_at ps (add_all L1)) (update_at ps (add_all L2)) w) \<and>
      rep_children L1 q1 q2 \<and> rep_children L2 q2 q1"
proof -
  let ?i1 = "map_option ft_stat q1" and ?i2 = "map_option ft_stat q2" and ?p = "abs_path ps"
  let ?f = "\<lambda>name w. case child_stat k s (is_dir_stat ?i1) (wk_dir1 w) (Join [?p, name]) of
       Inl e \<Rightarrow> Ret (Some e, w)
     | Inr cInfo1 \<Rightarrow> (case child_stat k s (is_dir_stat ?i2) (wk_dir2 w) (Join [?p, name]) of
          Inl e \<Rightarrow> Ret (Some e, w) | Inr cInfo2 \<Rightarrow> walk fuel k s (Join [?p, name]) cInfo1 cInfo2 w)"
  have wf: "wf_opt q1" "wf_opt q2" and ps: "list_all plain ps" using b1 b2 by (auto simp: base_ok_def)
  have set_eq: "set (walk_names q1 q2) = set (walk_names q2 q1)"
    using set_walk_names [OF wf] set_walk_names [OF wf(2,1)] same_inode_sym by blast
  have names: "rep_names L (walk_names q1 q2) q2 q1 = rep_names L (walk_names q2 q1) q2 q1" for L
    unfolding rep_names_def set_eq ..
  have step: "\<exists>T1 T2. ?f n w = Ret (None, upd_roots (put ps n (ft_child n q1) T1) (put ps n (ft_child n q2) T2) w) \<and>
        (\<forall>c. ft_child n q1 = Some c \<longrightarrow> rep T1 (Some c) (ft_child n q2)) \<and>
        (\<forall>c. ft_child n q2 = Some c \<longrightarrow> rep T2 (Some c) (ft_child n q1))"
    if n: "n \<in> set (walk_names q1 q2)" and h: "has_node ps q1 (root1 w)" "has_node ps q2 (root2 w)"
      "wk_dir1 w = abs_path b1" "wk_dir2 w = abs_path b2" for n w
  proof -
    have pl: "plain n" using n plain_child wf by (auto simp: set_walk_names [OF wf])
    have "Join [?p, n] = abs_path (ps @ [n])" using ps pl by (simp add: Join_abs_path del: Join.simps)
    then have "?f n w = walk fuel k s (abs_path (ps @ [n])) (map_option ft_stat (ft_child n q1)) (map_option ft_stat (ft_child n q2)) w"
      using base_ok_child_stat [OF b1 pl] base_ok_child_stat [OF b2 pl] h(3,4) by (simp del: Join.simps)
    moreover have "has_node ps (ft_child n q1) (root1 w)" "has_node ps (ft_child n q2) (root2 w)"
      using h(1,2) by (auto simp: has_node_def)
    moreover have "ft_child n q1 \<noteq> None \<or> ft_child n q2 \<noteq> None" using n by (simp add: set_walk_names [OF wf])
    ultimately show ?thesis
      using walk [OF _ base_ok_child [OF b1 pl] base_ok_child [OF b2 pl] _ _ h(3,4)] by (simp del: Join.simps)
  qed
  have "\<exists>L1 L2. each ?f (walk_names q1 q2) w =
        Ret (None, upd_roots (update_at ps (add_all L1)) (update_at ps (add_all L2)) w) \<and>
      rep_names L1 (walk_names q1 q2) q1 q2 \<and> rep_names L2 (walk_names q1 q2) q2 q1"
    by (rule each_names [OF step distinct_walk_names [OF wf] w]) assumption+
  then obtain L1 L2 where L: "each ?f (walk_names q1 q2) w =
        Ret (None, upd_roots (update_at ps (add_all L1)) (update_at ps (add_all L2)) w)"
      "rep_names L1 (walk_names q1 q2) q1 q2" "rep_names L2 (walk_names q1 q2) q2 q1" by blast
  have "walk_contents fuel k s ?p ?i1 ?i2 w = each ?f (walk_names q1 q2) w"
  proof (cases "is_dir_stat ?i1 \<or> is_dir_stat ?i2")
    case True
    then have "\<not> (\<not> is_dir_stat ?i1 \<and> \<not> is_dir_stat ?i2)" by blast
    then show ?thesis
      using base_ok_dir_names [OF b1] base_ok_dir_names [OF b2]
      by (simp only: walk_contents_def walk_names_def w(3,4) if_False sum.case)
  next
    case False
    then have "entries_of q1 = []" "entries_of q2 = []"
      by (auto simp: is_dir_stat_def entries_of_def split: option.splits)
    with False show ?thesis by (simp add: walk_contents_def walk_names_def del: Join.simps)
  qed
  with L(1) have "walk_contents fuel k s ?p ?i1 ?i2 w =
      Ret (None, upd_roots (update_at ps (add_all L1)) (update_at ps (add_all L2)) w)" by (simp only:)
  moreover have "rep_children L1 q1 q2" by (rule rep_names_children [OF L(2) wf])
  moreover have "rep_children L2 q2 q1" by (rule rep_names_children [OF L(3) [unfolded names] wf(2,1)])
  ultimately show ?thesis by blast
qed

text \<open>Enough fuel for the depth of both trees, and the walk of a name registers it with all that is below.\<close>

lemma put_add_all:
  assumes "n \<noteq> []" and "distinct (map fst L)" and "\<And>t. q = Some t \<Longrightarrow> c = ft_cap t" and "q = None \<Longrightarrow> L = []"
  shows "update_at (ps @ [n]) (add_all L) (put ps n q (FileInfo st c []) r) =
    put ps n q (FileInfo st c L) r"
proof (cases q)
  case None
  then show ?thesis using assms(4) by (simp add: put_def update_at_id)
next
  case (Some t)
  then show ?thesis
    using update_at_child [OF assms(1)] add_all_fresh [of "[]" L] assms(2) by (simp add: put_def)
qed

lemma rep_children_None: "rep_children L None q2 \<Longrightarrow> L = []"
proof (rule ccontr)
  assume "rep_children L None q2" "L \<noteq> []"
  then obtain n T L' where "L = (n, T) # L'" by (cases L) auto
  with \<open>rep_children L None q2\<close> have "map_of L n = Some T" "plain n" by (auto simp: rep_children_def)
  with \<open>rep_children L None q2\<close> have "meta (at [] (Some T)) = map_option node_meta (pruned_at [n] None q2)"
    unfolding rep_children_def by (metis list.pred_inject(1))
  then show False by simp
qed

lemma rep_children_distinct: "rep_children L q1 q2 \<Longrightarrow> distinct (map fst L)"
  by (simp add: rep_children_def wf_children_def)

lemma walk_ok:
  assumes "base_ok k s b1 (ps @ [n]) q1" and "base_ok k s b2 (ps @ [n]) q2"
    and "has_node ps q1 (root1 w)" and "has_node ps q2 (root2 w)"
    and "wk_dir1 w = abs_path b1" and "wk_dir2 w = abs_path b2"
    and "height_opt q1 < fuel" and "height_opt q2 < fuel"
  shows "\<exists>T1 T2. walk fuel k s (abs_path (ps @ [n])) (map_option ft_stat q1) (map_option ft_stat q2) w =
      Ret (None, upd_roots (put ps n q1 T1) (put ps n q2 T2) w) \<and>
    (\<forall>t. q1 = Some t \<longrightarrow> rep T1 (Some t) q2) \<and> (\<forall>t. q2 = Some t \<longrightarrow> rep T2 (Some t) q1)"
  using assms
proof (induction fuel arbitrary: ps n q1 q2 w)
  case (Suc fuel)
  let ?qs = "ps @ [n]"
  let ?F = "\<lambda>q c L. FileInfo (Some (FromStatT (ft_stat (the q)))) c L"
  have n: "plain n" and wf: "wf_opt q1" "wf_opt q2" using Suc.prems(1,2) by (auto simp: base_ok_def)
  then have ne: "n \<noteq> []" by (auto dest: plainD)
  obtain c1 c2 where reg: "register k s (abs_path ?qs) (map_option ft_stat q1) (map_option ft_stat q2) w =
      Ret (None, upd_roots (put ps n q1 (?F q1 c1 [])) (put ps n q2 (?F q2 c2 [])) w)"
    and cap: "\<And>t. q1 = Some t \<Longrightarrow> c1 = ft_cap t" "\<And>t. q2 = Some t \<Longrightarrow> c2 = ft_cap t"
    using register_ok [OF Suc.prems(1-6)] by blast
  let ?w = "upd_roots (put ps n q1 (?F q1 c1 [])) (put ps n q2 (?F q2 c2 [])) w"
  have has: "has_node ?qs q1 (root1 ?w)" "has_node ?qs q2 (root2 ?w)"
    using Suc.prems(3,4) ne by (auto simp: has_node_def put_def fi_at_new_child split: option.splits)
  have "\<exists>L1 L2. walk_contents fuel k s (abs_path ?qs) (map_option ft_stat q1) (map_option ft_stat q2) ?w =
      Ret (None, upd_roots (update_at ?qs (add_all L1)) (update_at ?qs (add_all L2)) ?w) \<and>
      rep_children L1 q1 q2 \<and> rep_children L2 q2 q1"
  proof (rule walk_contents_ok [OF Suc.prems(1,2) has])
    fix m w
    assume ex: "ft_child m q1 \<noteq> None \<or> ft_child m q2 \<noteq> None"
    have "height_opt (ft_child m q1) < fuel" "height_opt (ft_child m q2) < fuel"
      using Suc.prems(7,8) ex height_ft_child [of q1 m] height_ft_child [of q2 m]
      by (cases "q1 = None"; cases "q2 = None"; auto simp: height_opt_def split: option.splits)+
    then show "base_ok k s b1 (?qs @ [m]) (ft_child m q1) \<Longrightarrow> base_ok k s b2 (?qs @ [m]) (ft_child m q2) \<Longrightarrow>
      has_node ?qs (ft_child m q1) (root1 w) \<Longrightarrow> has_node ?qs (ft_child m q2) (root2 w) \<Longrightarrow>
      wk_dir1 w = abs_path b1 \<Longrightarrow> wk_dir2 w = abs_path b2 \<Longrightarrow>
      \<exists>T1 T2. walk fuel k s (abs_path (?qs @ [m])) (map_option ft_stat (ft_child m q1)) (map_option ft_stat (ft_child m q2)) w =
          Ret (None, upd_roots (put ?qs m (ft_child m q1) T1) (put ?qs m (ft_child m q2) T2) w) \<and>
        (\<forall>c. ft_child m q1 = Some c \<longrightarrow> rep T1 (Some c) (ft_child m q2)) \<and>
        (\<forall>c. ft_child m q2 = Some c \<longrightarrow> rep T2 (Some c) (ft_child m q1))"
      by (intro Suc.IH)
  qed (use Suc.prems in simp_all)
  then obtain L1 L2 where C: "walk_contents fuel k s (abs_path ?qs) (map_option ft_stat q1) (map_option ft_stat q2) ?w =
      Ret (None, upd_roots (update_at ?qs (add_all L1)) (update_at ?qs (add_all L2)) ?w)"
    and L: "rep_children L1 q1 q2" "rep_children L2 q2 q1" by blast
  have "upd_roots (update_at ?qs (add_all L1)) (update_at ?qs (add_all L2)) ?w =
      upd_roots (put ps n q1 (?F q1 c1 L1)) (put ps n q2 (?F q2 c2 L2)) w"
  proof -
    have "update_at ?qs (add_all L1) (put ps n q1 (?F q1 c1 []) r) = put ps n q1 (?F q1 c1 L1) r" for r
      using L(1) rep_children_None cap(1) by (intro put_add_all [OF ne rep_children_distinct [OF L(1)]]) auto
    moreover have "update_at ?qs (add_all L2) (put ps n q2 (?F q2 c2 []) r) = put ps n q2 (?F q2 c2 L2) r" for r
      using L(2) rep_children_None cap(2) by (intro put_add_all [OF ne rep_children_distinct [OF L(2)]]) auto
    ultimately show ?thesis by (simp add: upd_roots_def)
  qed
  with reg C have "walk (Suc fuel) k s (abs_path ?qs) (map_option ft_stat q1) (map_option ft_stat q2) w =
      Ret (None, upd_roots (put ps n q1 (?F q1 c1 L1)) (put ps n q2 (?F q2 c2 L2)) w)"
    by (simp add: walk_Suc)
  moreover have "rep (?F q1 c1 L1) (Some t) q2" if "q1 = Some t" for t
    using rep_node [of L1 t q2] L(1) that cap(1) wf(1) by simp
  moreover have "rep (?F q2 c2 L2) (Some t) q1" if "q2 = Some t" for t
    using rep_node [of L2 t q1] L(2) that cap(2) wf(2) by simp
  ultimately show ?case by blast
qed simp

section \<open>The two trees the walk returns\<close>

lemma height_opt_pos: "ft_child n q \<noteq> None \<Longrightarrow> 0 < height_opt (ft_child n q) \<and> height_opt (ft_child n q) < height_opt q"
proof -
  assume c: "ft_child n q \<noteq> None"
  then have "q \<noteq> None" by (cases q) auto
  moreover obtain x where "ft_child n q = Some x" using c by blast
  then have "0 < height_opt (ft_child n q)" by (cases x) (simp add: height_opt_def)
  ultimately show ?thesis by (simp add: height_ft_child)
qed

lemma collect_ok:
  assumes b1: "base_ok k s d1 [] (Some t1)" and b2: "base_ok k s d2 [] (Some t2)"
    and fuel: "height t1 < fuel" "height t2 < fuel"
  shows "\<exists>L1 L2. collectFileInfoForChanges fuel k s (abs_path d1) (abs_path d2) =
      Ret (Inr (FileInfo None None L1, FileInfo None None L2)) \<and>
      rep_children L1 (Some t1) (Some t2) \<and> rep_children L2 (Some t2) (Some t1)"
proof -
  obtain f where f: "fuel = Suc f" using fuel by (cases fuel) auto
  let ?w = "\<lparr>wk_dir1 = abs_path d1, wk_dir2 = abs_path d2, root1 = newRootFileInfo, root2 = newRootFileInfo\<rparr>"
  have stat: "k_lstat k s (abs_path d1) = Inr (ft_stat t1)" "k_lstat k s (abs_path d2) = Inr (ft_stat t2)"
    using b1 b2 by (auto simp: base_ok_def serves_node_def dest!: serves_here)
  have "\<exists>L1 L2. walk_contents f k s (abs_path []) (map_option ft_stat (Some t1)) (map_option ft_stat (Some t2)) ?w =
      Ret (None, upd_roots (update_at [] (add_all L1)) (update_at [] (add_all L2)) ?w) \<and>
      rep_children L1 (Some t1) (Some t2) \<and> rep_children L2 (Some t2) (Some t1)"
  proof (rule walk_contents_ok [OF b1 b2])
    fix n w
    assume "ft_child n (Some t1) \<noteq> None \<or> ft_child n (Some t2) \<noteq> None"
    then have "height_opt (ft_child n (Some t1)) < f" "height_opt (ft_child n (Some t2)) < f"
      using height_opt_pos [of n "Some t1"] height_opt_pos [of n "Some t2"] fuel f
      by (cases "ft_child n (Some t1)"; cases "ft_child n (Some t2)"; simp add: height_opt_def)+
    then show "base_ok k s d1 ([] @ [n]) (ft_child n (Some t1)) \<Longrightarrow> base_ok k s d2 ([] @ [n]) (ft_child n (Some t2)) \<Longrightarrow>
      has_node [] (ft_child n (Some t1)) (root1 w) \<Longrightarrow> has_node [] (ft_child n (Some t2)) (root2 w) \<Longrightarrow>
      wk_dir1 w = abs_path d1 \<Longrightarrow> wk_dir2 w = abs_path d2 \<Longrightarrow>
      \<exists>T1 T2. walk f k s (abs_path ([] @ [n])) (map_option ft_stat (ft_child n (Some t1))) (map_option ft_stat (ft_child n (Some t2))) w =
          Ret (None, upd_roots (put [] n (ft_child n (Some t1)) T1) (put [] n (ft_child n (Some t2)) T2) w) \<and>
        (\<forall>c. ft_child n (Some t1) = Some c \<longrightarrow> rep T1 (Some c) (ft_child n (Some t2))) \<and>
        (\<forall>c. ft_child n (Some t2) = Some c \<longrightarrow> rep T2 (Some c) (ft_child n (Some t1)))"
      by (intro walk_ok)
  qed (simp_all add: has_node_def)
  then obtain L1 L2 where C: "walk_contents f k s [slash] (Some (ft_stat t1)) (Some (ft_stat t2)) ?w =
      Ret (None, upd_roots (update_at [] (add_all L1)) (update_at [] (add_all L2)) ?w)"
    and L: "rep_children L1 (Some t1) (Some t2)" "rep_children L2 (Some t2) (Some t1)" by auto
  have "collectFileInfoForChanges fuel k s (abs_path d1) (abs_path d2) =
      Ret (Inr (FileInfo None None L1, FileInfo None None L2))"
    using C add_all_fresh [of "[]" L1] add_all_fresh [of "[]" L2] rep_children_distinct [OF L(1)] rep_children_distinct [OF L(2)]
    by (simp add: collectFileInfoForChanges_def stat f walk_Suc register_def newRootFileInfo_def)
  with L show ?thesis by blast
qed

section \<open>Leaving out what is the same in both\<close>

text \<open>The tree of infos of a whole directory.\<close>

fun tree_info :: "ftree \<Rightarrow> FileInfo" where
  "tree_info (FTree st cap es) = FileInfo (Some (FromStatT st)) cap (map (\<lambda>x. (fst x, tree_info (snd x))) es)"

definition root_info :: "ftree \<Rightarrow> FileInfo" where
  "root_info t = FileInfo None None (fi_children (tree_info t))"

lemma child_tree_info: "child n (map_option tree_info q) = map_option tree_info (ft_child n q)"
proof (cases q)
  case (Some t)
  then show ?thesis by (cases t) (simp add: child_def ft_child_def map_of_map_snd)
qed (simp add: child_def)

lemma at_tree_info: "list_all plain cs \<Longrightarrow> at cs (map_option tree_info q) = map_option tree_info (ft_at cs q)"
  by (induction cs arbitrary: q) (auto simp: at_Cons child_tree_info)

lemma meta_tree_info: "meta (map_option tree_info q) = map_option node_meta q"
proof (cases q)
  case (Some t)
  then show ?thesis by (cases t) (simp add: meta_def node_meta_def)
qed simp

lemma at_root:
  assumes "list_all plain (n # cs)" shows "at (n # cs) (Some (FileInfo None None L)) = at cs (map_of L n)"
  using assms by (simp add: at_Cons child_def)

lemma at_root_info:
  assumes "list_all plain (n # cs)"
  shows "meta (at (n # cs) (Some (root_info t))) = map_option node_meta (ft_at (n # cs) (Some t))"
proof -
  have "child n (Some (root_info t)) = child n (map_option tree_info (Some t))" by (simp add: child_def root_info_def)
  with assms have "at (n # cs) (Some (root_info t)) = map_option tree_info (ft_at (n # cs) (Some t))"
    using at_tree_info [of cs "ft_child n (Some t)"] child_tree_info [of n "Some t"] by (simp add: at_Cons)
  then show ?thesis using meta_tree_info by simp
qed

text \<open>The same inode of one device is the same file, with the same contents.\<close>

definition inode_identity :: "ftree option \<Rightarrow> ftree option \<Rightarrow> bool" where
  "inode_identity q1 q2 \<longleftrightarrow> (\<forall>cs n. list_all plain cs \<longrightarrow> plain n \<longrightarrow> same_inode (ft_at cs q1) (ft_at cs q2) n \<longrightarrow>
     ft_child n (ft_at cs q1) = ft_child n (ft_at cs q2))"

lemma pruned_agree:
  assumes "inode_identity q1 q2" and "list_all plain cs"
  shows "pruned_at cs q1 q2 = ft_at cs q1 \<and> pruned_at cs q2 q1 = ft_at cs q2 \<or>
    pruned_at cs q1 q2 = None \<and> pruned_at cs q2 q1 = None \<and> ft_at cs q1 = ft_at cs q2"
  using assms
proof (induction cs arbitrary: q1 q2)
  case (Cons n cs)
  show ?case
  proof (cases "same_inode q1 q2 n")
    case True
    moreover have "ft_child n q1 = ft_child n q2"
      using Cons.prems True unfolding inode_identity_def by (metis ft_at.simps(1) list.pred_inject)
    ultimately show ?thesis using same_inode_sym [of q1 q2 n] by simp
  next
    case False
    have "inode_identity (ft_child n q1) (ft_child n q2)"
      unfolding inode_identity_def
    proof (intro allI impI)
      fix ds m assume "list_all plain ds" "plain m" "same_inode (ft_at ds (ft_child n q1)) (ft_at ds (ft_child n q2)) m"
      then show "ft_child m (ft_at ds (ft_child n q1)) = ft_child m (ft_at ds (ft_child n q2))"
        using Cons.prems unfolding inode_identity_def by (metis ft_at.simps(2) list.pred_inject(2))
    qed
    from Cons.IH [OF this] Cons.prems(2) False same_inode_sym [of q1 q2 n] show ?thesis by simp
  qed
qed simp

lemma walk_trees_agree:
  assumes "inode_identity (Some t1) (Some t2)"
    and L: "rep_children L1 (Some t1) (Some t2)" "rep_children L2 (Some t2) (Some t1)" and cs: "list_all plain cs"
  shows "agree_at (Some (root_info t1)) (Some (root_info t2)) (Some (FileInfo None None L1)) (Some (FileInfo None None L2)) cs"
proof (cases cs)
  case Nil
  then show ?thesis by (simp add: agree_at_def meta_def root_info_def)
next
  case (Cons n ds)
  have "meta (at cs (Some (FileInfo None None L1))) = map_option node_meta (pruned_at cs (Some t1) (Some t2))"
    "meta (at cs (Some (FileInfo None None L2))) = map_option node_meta (pruned_at cs (Some t2) (Some t1))"
    using L cs at_root [of n ds] unfolding Cons by (auto simp: rep_children_def simp del: pruned_at.simps)
  moreover have "meta (at cs (Some (root_info t1))) = map_option node_meta (ft_at cs (Some t1))"
    "meta (at cs (Some (root_info t2))) = map_option node_meta (ft_at cs (Some t2))"
    using at_root_info [of n ds] cs unfolding Cons by blast+
  ultimately show ?thesis
    using pruned_agree [OF assms(1) cs] unfolding agree_at_def by (metis meta_None(2) option.map_disc_iff)
qed

lemma wf_root_walk: "rep_children L q1 q2 \<Longrightarrow> wf_root (FileInfo None None L)"
  by (simp add: wf_root_def rep_children_def wf_info_children isDir_def)

lemma ChangesDirs_in_reported:
  assumes b1: "base_ok k s old [] (Some t1)" and b2: "base_ok k s new [] (Some t2)"
    and "inode_identity (Some t1) (Some t2)" and "height t1 < fuel" "height t2 < fuel"
  shows "\<exists>cs. ChangesDirs_in fuel k s (abs_path new) (abs_path old) = Ret (Inr cs) \<and> distinct (map ch_Path cs) \<and>
    set cs = {\<lparr>ch_Path = abs_path p, ch_Kind = kind\<rparr> | p kind. p \<noteq> [] \<and> list_all plain p \<and>
      reported (Some (root_info t1)) (Some (root_info t2)) kind p}"
proof -
  obtain L1 L2 where L: "collectFileInfoForChanges fuel k s (abs_path old) (abs_path new) =
      Ret (Inr (FileInfo None None L1, FileInfo None None L2))"
    "rep_children L1 (Some t1) (Some t2)" "rep_children L2 (Some t2) (Some t1)"
    using collect_ok [OF assms(1,2,4,5)] by blast
  let ?R1 = "FileInfo None None L1" and ?R2 = "FileInfo None None L2"
  have wf: "wf_info ?R1" "wf_root ?R2" using wf_root_walk L(2,3) by (auto simp: wf_root_def simp del: wf_info.simps)
  have "reported (Some (root_info t1)) (Some (root_info t2)) kind p \<longleftrightarrow> reported (Some ?R1) (Some ?R2) kind p"
    if "list_all plain p" for kind p
    by (rule reported_agree [OF walk_trees_agree [OF assms(3) L(2,3)] that])
  then have "set (FileInfo_Changes (Some ?R1) ?R2) = {\<lparr>ch_Path = abs_path p, ch_Kind = kind\<rparr> | p kind. p \<noteq> [] \<and> list_all plain p \<and>
      reported (Some (root_info t1)) (Some (root_info t2)) kind p}"
    using FileInfo_Changes_iff [OF wf] by blast
  with L(1) distinct_FileInfo_Changes [OF wf] show ?thesis
    by (intro exI [of _ "FileInfo_Changes (Some ?R1) ?R2"]) (simp add: ChangesDirs_in_def)
qed

section \<open>A machine with one file system\<close>

text \<open>
  The state is the tree of all files; it shows that every hypothesis above can hold.  \<open>getdents\<close> gives
  all entries in one chunk, the two useless names first.
\<close>

definition path_node :: "ftree \<Rightarrow> string \<Rightarrow> ftree option" where
  "path_node T p = ft_at (filter (\<lambda>e. e \<noteq> [] \<and> e \<noteq> ''.'') (split_on slash p)) (Some T)"

definition tree_dirents :: "ftree \<Rightarrow> dirent list" where
  "tree_dirents t = \<lparr>de_Ino = 1, de_Name = ''.''\<rparr> # \<lparr>de_Ino = 1, de_Name = ''..''\<rparr> #
     map (\<lambda>x. \<lparr>de_Ino = Ino (ft_stat (snd x)), de_Name = fst x\<rparr>) (ft_entries t)"

definition tree_getxattr :: "ftree \<Rightarrow> string \<Rightarrow> string \<Rightarrow> int \<Rightarrow> 64 word \<times> nat \<times> bytes" where
  "tree_getxattr T p attr len =
     (case path_node T p of
        None \<Rightarrow> (-1, 2, [])
      | Some t \<Rightarrow>
          (case ft_cap t of
             None \<Rightarrow> (-1, ENODATA, [])
           | Some b \<Rightarrow> if int (length b) \<le> len then (of_nat (length b), 0, b) else (-1, ERANGE, [])))"

definition tree_kernel :: "ftree kernel" where
  "tree_kernel =
     \<lparr>k_lstat = \<lambda>T p. (case path_node T p of None \<Rightarrow> Inl ENOENT | Some t \<Rightarrow> Inr (ft_stat t)),
      k_open = \<lambda>T p. (case path_node T p of None \<Rightarrow> Some ENOENT | Some _ \<Rightarrow> None),
      k_getdents = \<lambda>T p. (case path_node T p of None \<Rightarrow> ([], Some ENOENT) | Some t \<Rightarrow> ([tree_dirents t], None)),
      k_lgetxattr = tree_getxattr,
      k_TempDir = \<lambda>T p. (Inl EEXIST, T),
      k_Remove = \<lambda>T p. T\<rparr>"

text \<open>What a real file system keeps to: inode numbers are positive, names have no zero byte and are short.\<close>

fun ftree_ok :: "ftree \<Rightarrow> bool" where
  "ftree_ok (FTree st cap es) \<longleftrightarrow>
     (case cap of None \<Rightarrow> True | Some b \<Rightarrow> length b \<le> 128) \<and>
     list_all (\<lambda>x. Ino (ft_stat (snd x)) \<noteq> 0 \<and> CHR 0x00 \<notin> set (fst x) \<and> length (fst x) < 256) es \<and>
     list_all (\<lambda>x. ftree_ok (snd x)) es"

lemma ftree_ok_child:
  assumes "ftree_ok t" and "ft_child n (Some t) = Some c" shows "ftree_ok c" "CHR 0x00 \<notin> set n"
  using assms by (cases t; auto simp: ft_child_def list_all_iff dest!: map_of_SomeD)+

lemma ft_at_None [simp]: "ft_at cs None = None"
  by (induction cs) auto

lemma ft_at_append: "ft_at (cs @ ds) q = ft_at ds (ft_at cs q)"
  by (induction cs arbitrary: q) auto

lemma ftree_ok_at:
  assumes "ft_at cs (Some T) = Some t" and "ftree_ok T" shows "ftree_ok t \<and> CHR 0x00 \<notin> \<Union> (set ` set cs)"
  using assms
proof (induction cs arbitrary: T)
  case (Cons n cs)
  obtain c where c: "ft_child n (Some T) = Some c" using Cons.prems(1) by (cases "ft_child n (Some T)") auto
  with Cons.IH [of c] Cons.prems ftree_ok_child [OF Cons.prems(2) c] show ?case by simp
qed simp

lemma wf_ft_at: "wf_opt q \<Longrightarrow> wf_opt (ft_at cs q)"
  by (induction cs arbitrary: q) (auto simp: wf_ft_child)

lemma path_node_abs: "list_all plain cs \<Longrightarrow> path_node T (abs_path cs) = ft_at cs (Some T)"
proof -
  assume pl: "list_all plain cs"
  have "filter (\<lambda>e. e \<noteq> [] \<and> e \<noteq> ''.'') xs = filter (\<lambda>e. e \<noteq> ''.'') (filter (\<lambda>e. e \<noteq> []) xs)" for xs
    by (simp add: conj_commute)
  moreover have "filter (\<lambda>e. e \<noteq> ''.'') cs = cs" using pl by (auto simp: list_all_iff plain_def intro: filter_True)
  ultimately show ?thesis by (simp only: path_node_def split_abs_path [OF pl])
qed

lemma abs_path_no_zero: "CHR 0x00 \<notin> \<Union> (set ` set cs) \<Longrightarrow> CHR 0x00 \<notin> set (abs_path cs)"
proof (induction cs)
  case (Cons w cs)
  then show ?case by (cases cs) (auto simp: abs_path_def)
qed simp

lemma parseDirent_entries:
  assumes "\<forall>x \<in> set es. plain (fst x) \<and> Ino (ft_stat (snd x)) \<noteq> 0 \<and> CHR 0x00 \<notin> set (fst x) \<and> length (fst x) < 256"
  shows "parseDirent (map (\<lambda>x. \<lparr>de_Ino = Ino (ft_stat (snd x)), de_Name = fst x\<rparr>) es) names =
    names @ map (\<lambda>x. \<lparr>ni_name = fst x, ni_ino = Ino (ft_stat (snd x))\<rparr>) es"
  using assms
proof (induction es arbitrary: names)
  case (Cons x es)
  have "takeWhile (\<lambda>c. c \<noteq> CHR 0x00) (fst x) = fst x"
    unfolding takeWhile_eq_all_conv using Cons.prems by auto
  then have "clen (fst x) = length (fst x)" by (simp only: clen_def)
  with Cons show ?case by (simp add: Let_def plain_def)
qed simp

lemma tree_kernel_readdirnames:
  assumes "list_all plain cs" and "ft_at cs (Some T) = Some t" and "wf_ftree T" and "ftree_ok T"
  shows "readdirnames tree_kernel T (abs_path cs) = Inr (listing t)"
proof -
  have wf: "wf_ftree t" using wf_ft_at [of "Some T" cs] assms by simp
  have "ftree_ok t" using ftree_ok_at [OF assms(2,4)] by simp
  then have "\<forall>x \<in> set (ft_entries t). plain (fst x) \<and> Ino (ft_stat (snd x)) \<noteq> 0 \<and> CHR 0x00 \<notin> set (fst x) \<and> length (fst x) < 256"
    using wf by (cases t) (auto simp: list_all_iff)
  from parseDirent_entries [OF this, of "[]"] show ?thesis
    by (simp add: readdirnames_def tree_kernel_def path_node_abs [OF assms(1)] assms(2) tree_dirents_def listing_def clen_def)
qed

lemma tree_kernel_Lgetxattr:
  assumes "list_all plain cs" and "ft_at cs (Some T) = Some t" and "ftree_ok T"
  shows "Lgetxattr tree_kernel T (abs_path cs) ''security.capability'' = Ret (ft_cap t, None)"
proof -
  note ok = ftree_ok_at [OF assms(2,3)]
  have "length b \<le> 128" if "ft_cap t = Some b" for b using ok that by (cases t) simp
  then show ?thesis
    using abs_path_no_zero [of cs] ok path_node_abs [OF assms(1), of T] assms(2)
    by (cases "ft_cap t") (auto simp: Lgetxattr_def tree_kernel_def tree_getxattr_def ENODATA_def ERANGE_def unat_of_nat)
qed

lemma tree_kernel_serves:
  assumes "wf_ftree T" and "ftree_ok T" and "list_all plain base"
  shows "serves tree_kernel T base (ft_at base (Some T))"
  unfolding serves_def
proof (intro allI impI)
  fix cs t assume cs: "list_all plain cs" "ft_at cs (ft_at base (Some T)) = Some t"
  then have pl: "list_all plain (base @ cs)" and t: "ft_at (base @ cs) (Some T) = Some t"
    using assms(3) by (simp_all add: ft_at_append)
  have "k_lstat tree_kernel T (abs_path ((base @ cs) @ [n])) = Inl ENOENT"
    if "plain n" "map_of (ft_entries t) n = None" for n
  proof -
    have "list_all plain ((base @ cs) @ [n])" using pl that(1) by simp
    moreover have "ft_at ((base @ cs) @ [n]) (Some T) = None"
      using that(2) t unfolding ft_at_append [of "base @ cs" "[n]"] by (simp add: ft_child_def)
    ultimately show ?thesis by (simp add: tree_kernel_def path_node_abs del: append_assoc)
  qed
  then show "serves_node tree_kernel T (base @ cs) t"
    using tree_kernel_readdirnames [OF pl t assms(1,2)] tree_kernel_Lgetxattr [OF pl t assms(2)]
    by (simp add: serves_node_def) (simp add: tree_kernel_def path_node_abs [OF pl] t)
qed

section \<open>Properties\<close>

text \<open>
  A demonstration machine: \<open>/o\<close> is the old directory, \<open>/n\<close> the new one.  They share the inode of \<open>s\<close>;
  \<open>d/f\<close> has another size in the new one, \<open>d/x\<close> is gone, \<open>a\<close> is new.
\<close>

definition demo_stat :: "32 word \<Rightarrow> int64 \<Rightarrow> 64 word \<Rightarrow> Stat_t" where
  "demo_stat mode sz ino =
     \<lparr>sMode = mode, sUID = 0, sGID = 0, sRdev = 0, sSize = sz, sMtim = \<lparr>Sec = 1, Nsec = 0\<rparr>, Dev = 1, Ino = ino, Nlink = 1\<rparr>"

definition demo_dir :: "64 word \<Rightarrow> (string \<times> ftree) list \<Rightarrow> ftree" where
  "demo_dir ino es = FTree (demo_stat 0x41ED 0 ino) None es"

definition demo_file :: "64 word \<Rightarrow> int64 \<Rightarrow> ftree" where
  "demo_file ino sz = FTree (demo_stat 0x81A4 sz ino) None []"

definition demo_old :: ftree where
  "demo_old = demo_dir 2 [(''s'', demo_file 9 7), (''d'', demo_dir 3 [(''f'', demo_file 4 1), (''x'', demo_file 5 1)])]"

definition demo_new :: ftree where
  "demo_new = demo_dir 6 [(''d'', demo_dir 7 [(''f'', demo_file 8 2)]), (''s'', demo_file 9 7), (''a'', demo_file 10 3)]"

definition demo_tree :: ftree where
  "demo_tree = demo_dir 11 [(''o'', demo_old), (''n'', demo_new)]"

lemmas demo_tree_defs = demo_tree_def demo_old_def demo_new_def demo_dir_def demo_file_def demo_stat_def

lemma demo_tree_ok: "wf_ftree demo_tree" "ftree_ok demo_tree" "wf_ftree demo_old" "wf_ftree demo_new"
  by (simp_all add: demo_tree_defs plain_def fi_IsDir_def S_IFMT_def S_IFDIR_def)

lemma demo_heights: "height demo_old < 3 + 1" "height demo_new < 3 + 1"
  by (simp_all add: demo_tree_defs)

lemma demo_base:
  "base_ok tree_kernel demo_tree [''o''] [] (Some demo_old)" "base_ok tree_kernel demo_tree [''n''] [] (Some demo_new)"
proof -
  have "ft_at [''o''] (Some demo_tree) = Some demo_old" "ft_at [''n''] (Some demo_tree) = Some demo_new"
    by (simp_all add: demo_tree_def demo_dir_def ft_child_def)
  with tree_kernel_serves [OF demo_tree_ok(1,2), of "[''o'']"] tree_kernel_serves [OF demo_tree_ok(1,2), of "[''n'']"]
  show "base_ok tree_kernel demo_tree [''o''] [] (Some demo_old)" "base_ok tree_kernel demo_tree [''n''] [] (Some demo_new)"
    using demo_tree_ok by (simp_all add: base_ok_def plain_def)
qed

lemma demo_inodes: "inode_identity (Some demo_old) (Some demo_new)"
  unfolding inode_identity_def
proof (intro allI impI)
  fix cs n
  assume same: "same_inode (ft_at cs (Some demo_old)) (ft_at cs (Some demo_new)) n"
  have node: "ft_child m (Some demo_old) = (if m = ''s'' then Some (demo_file 9 7) else if m = ''d''
        then Some (demo_dir 3 [(''f'', demo_file 4 1), (''x'', demo_file 5 1)]) else None)"
    "ft_child m (Some demo_new) = (if m = ''d'' then Some (demo_dir 7 [(''f'', demo_file 8 2)]) else if m = ''s''
        then Some (demo_file 9 7) else if m = ''a'' then Some (demo_file 10 3) else None)"
    "ft_child m (Some (demo_dir i es)) = map_of es m" "ft_child m (Some (demo_file i sz)) = None" for m i es sz
    by (simp_all add: ft_child_def demo_old_def demo_new_def demo_dir_def demo_file_def)
  show "ft_child n (ft_at cs (Some demo_old)) = ft_child n (ft_at cs (Some demo_new))"
  proof (cases cs)
    case Nil
    with same show ?thesis
      by (auto simp: same_inode_def node split: if_splits) (simp_all add: demo_tree_defs)
  next
    case (Cons m ds)
    show ?thesis
    proof (cases "m = ''d''")
      case d: True
      show ?thesis
      proof (cases ds)
        case Nil
        with same Cons d show ?thesis
          by (auto simp: same_inode_def node split: if_splits option.splits) (simp_all add: demo_tree_defs)
      next
        case (Cons l es)
        with same \<open>cs = m # ds\<close> d show ?thesis
          by (cases "l = ''f''"; cases "l = ''x''"; cases es) (auto simp: same_inode_def node split: option.splits)
      qed
    next
      case False
      with same Cons show ?thesis
        by (cases "m = ''s''"; cases ds) (auto simp: same_inode_def node split: option.splits if_splits)
    qed
  qed
qed

text \<open>
  C19: comparing two directories reports every difference, each path once and nothing else: a path that is
  only in the new tree is added, one that is only in the old is deleted if its parent is still a directory,
  one that is in both is modified if its stat or capability differs or, for a directory, if something
  below it is reported.  Files the walk never looks at, because they are one inode in both trees, are no
  exception.
\<close>

theorem ChangesDirs_correct:
  assumes "base_ok k s old [] (Some t1)" and "base_ok k s new [] (Some t2)"
    and "inode_identity (Some t1) (Some t2)" and "height t1 < fuel" and "height t2 < fuel"
  shows "\<exists>cs. archive_ChangesDirs fuel k s (abs_path new) (abs_path old) = Ret (Inr cs, s) \<and> distinct (map ch_Path cs) \<and>
    (\<forall>p kind. p \<noteq> [] \<and> list_all plain p \<longrightarrow>
      \<lparr>ch_Path = abs_path p, ch_Kind = kind\<rparr> \<in> set cs \<longleftrightarrow> reported (Some (root_info t1)) (Some (root_info t2)) kind p)"
proof -
  obtain cs where cs: "ChangesDirs_in fuel k s (abs_path new) (abs_path old) = Ret (Inr cs)" "distinct (map ch_Path cs)"
    "set cs = {\<lparr>ch_Path = abs_path p, ch_Kind = kind\<rparr> | p kind. p \<noteq> [] \<and> list_all plain p \<and>
      reported (Some (root_info t1)) (Some (root_info t2)) kind p}"
    using ChangesDirs_in_reported [OF assms] by blast
  moreover have "abs_path old \<noteq> []" by (simp add: abs_path_def)
  ultimately show ?thesis
    by (intro exI [of _ cs]) (auto simp: archive_ChangesDirs_def abs_path_inject)
qed

theorem ChangesDirs_correct_witness:
  "\<exists>cs. archive_ChangesDirs 4 tree_kernel demo_tree (abs_path [''n'']) (abs_path [''o'']) = Ret (Inr cs, demo_tree) \<and>
    \<lparr>ch_Path = abs_path [''a''], ch_Kind = ChangeAdd\<rparr> \<in> set cs \<and>
    \<lparr>ch_Path = abs_path [''s''], ch_Kind = ChangeModify\<rparr> \<notin> set cs"
proof -
  obtain cs where cs: "archive_ChangesDirs 4 tree_kernel demo_tree (abs_path [''n'']) (abs_path [''o'']) = Ret (Inr cs, demo_tree)"
    and iff: "\<And>p kind. p \<noteq> [] \<and> list_all plain p \<Longrightarrow> \<lparr>ch_Path = abs_path p, ch_Kind = kind\<rparr> \<in> set cs \<longleftrightarrow>
      reported (Some (root_info demo_old)) (Some (root_info demo_new)) kind p"
    using ChangesDirs_correct [OF demo_base demo_inodes, of 4] demo_heights by auto
  have "reported (Some (root_info demo_old)) (Some (root_info demo_new)) ChangeAdd [''a'']"
    by (simp add: reported_def added_at_def at_def root_info_def demo_tree_defs)
  moreover have "\<not> reported (Some (root_info demo_old)) (Some (root_info demo_new)) ChangeModify [''s'']"
    by (simp add: reported_def modified_at_def at_def root_info_def demo_tree_defs child_differs_def)
      (simp add: isDir_def FromStatT_def S_IFDIR_def)
  moreover have "plain ''a''" "plain ''s''" by (simp_all add: plain_def)
  ultimately have "\<lparr>ch_Path = abs_path [''a''], ch_Kind = ChangeAdd\<rparr> \<in> set cs"
    "\<lparr>ch_Path = abs_path [''s''], ch_Kind = ChangeModify\<rparr> \<notin> set cs" using iff by auto
  with cs show ?thesis by blast
qed

lemma set_changes_agree:
  assumes "wf_info a" "wf_root b" "wf_info a'" "wf_root b'"
    and "\<And>cs. list_all plain cs \<Longrightarrow> agree_at (Some a) (Some b) (Some a') (Some b') cs"
  shows "set (FileInfo_Changes (Some a) b) = set (FileInfo_Changes (Some a') b')"
  using FileInfo_Changes_iff [OF assms(1,2)] FileInfo_Changes_iff [OF assms(3,4)] reported_agree [OF assms(5)] by blast

lemma wf_tree_info: "wf_ftree t \<Longrightarrow> wf_info (tree_info t)"
proof (induction t)
  case (FTree st cap es)
  have "wf_info (tree_info (snd x))" if "x \<in> set es" for x
    using FTree.IH [of x "snd x"] FTree.prems that by (cases x) auto
  moreover have "and (sMode st) S_IFDIR \<noteq> 0" if "fi_IsDir st"
  proof
    assume "and (sMode st) S_IFDIR = 0"
    then have "and (and (sMode st) S_IFMT) S_IFDIR = 0" by (metis and.commute and.left_commute and_zero_eq)
    with that show False by (simp add: fi_IsDir_def S_IFDIR_def)
  qed
  ultimately show ?case using FTree.prems by (auto simp: comp_def FromStatT_def)
qed

lemma wf_root_info: "wf_ftree t \<Longrightarrow> wf_root (root_info t)"
  using wf_info_children [of "tree_info t"] wf_tree_info [of t] wf_info_children [of "root_info t"]
  by (simp add: wf_root_def root_info_def isDir_def)

text \<open>
  C21: leaving out the files that are the same inode in both directories is sound: the trees of the
  optimised walk give the same changes as the complete trees of the two directories, whenever one inode
  of a device is one file.
\<close>

theorem pruned_walk_equivalent:
  assumes "base_ok k s d1 [] (Some t1)" and "base_ok k s d2 [] (Some t2)"
    and "inode_identity (Some t1) (Some t2)" and "height t1 < fuel" and "height t2 < fuel"
  shows "\<exists>r1 r2. collectFileInfoForChanges fuel k s (abs_path d1) (abs_path d2) = Ret (Inr (r1, r2)) \<and>
    set (FileInfo_Changes (Some r1) r2) = set (FileInfo_Changes (Some (root_info t1)) (root_info t2))"
proof -
  obtain L1 L2 where L: "collectFileInfoForChanges fuel k s (abs_path d1) (abs_path d2) =
      Ret (Inr (FileInfo None None L1, FileInfo None None L2))"
    "rep_children L1 (Some t1) (Some t2)" "rep_children L2 (Some t2) (Some t1)"
    using collect_ok [OF assms(1,2,4,5)] by blast
  have wf: "wf_ftree t1" "wf_ftree t2" using assms(1,2) by (simp_all add: base_ok_def)
  have "set (FileInfo_Changes (Some (root_info t1)) (root_info t2)) =
      set (FileInfo_Changes (Some (FileInfo None None L1)) (FileInfo None None L2))"
  proof (rule set_changes_agree [OF _ wf_root_info [OF wf(2)] _ wf_root_walk [OF L(3)]])
    show "wf_info (root_info t1)" "wf_info (FileInfo None None L1)"
      using wf_root_info [OF wf(1)] wf_root_walk [OF L(2)] by (simp_all only: wf_root_def)
  qed (rule walk_trees_agree [OF assms(3) L(2,3)])
  with L(1) show ?thesis by auto
qed

theorem pruned_walk_equivalent_witness:
  "\<exists>r1 r2. collectFileInfoForChanges 4 tree_kernel demo_tree (abs_path [''o'']) (abs_path [''n'']) = Ret (Inr (r1, r2)) \<and>
    set (FileInfo_Changes (Some r1) r2) = set (FileInfo_Changes (Some (root_info demo_old)) (root_info demo_new))"
  using pruned_walk_equivalent [OF demo_base demo_inodes, of 4] demo_heights by auto

definition same_infos :: "FileInfo \<Rightarrow> FileInfo \<Rightarrow> bool" where
  "same_infos a b \<longleftrightarrow> (\<forall>cs. list_all plain cs \<longrightarrow> meta (at cs (Some a)) = meta (at cs (Some b)))"

text \<open>
  The order in which Go walks its maps does not show in what is exported: two pairs of trees that
  answer every lookup alike give, sorted by path, the same list of changes.
\<close>

lemma changes_order_independent:
  assumes "wf_info old" and "wf_root new" and "wf_info old'" and "wf_root new'"
    and "same_infos old old'" and "same_infos new new'"
  shows "sort_key ch_Path (FileInfo_Changes (Some old) new) = sort_key ch_Path (FileInfo_Changes (Some old') new')"
proof -
  let ?C = "FileInfo_Changes (Some old) new" and ?D = "FileInfo_Changes (Some old') new'"
  have set_eq: "set ?C = set ?D"
    using assms(5,6) by (intro set_changes_agree [OF assms(1-4)]) (simp add: agree_at_def same_infos_def)
  have dist: "distinct (map ch_Path ?C)" "distinct (map ch_Path ?D)"
    using distinct_FileInfo_Changes [OF assms(1,2)] distinct_FileInfo_Changes [OF assms(3,4)] .
  then have inj: "inj_on ch_Path (set ?C)" "distinct ?C" "distinct ?D" by (simp_all add: distinct_map)
  show ?thesis
  proof (rule map_sorted_distinct_set_unique)
    show "distinct (map ch_Path (sort_key ch_Path ?C))" "distinct (map ch_Path (sort_key ch_Path ?D))"
      using dist by (simp_all only: distinct_map distinct_sort set_sort)
  qed (simp_all add: set_eq inj(1) [unfolded set_eq])
qed

definition demo_reordered :: FileInfo where
  "demo_reordered = FileInfo None None (rev (fi_children (root_info demo_new)))"

theorem changes_order_independent_witness:
  "demo_reordered \<noteq> root_info demo_new \<and>
   sort_key ch_Path (FileInfo_Changes (Some (root_info demo_old)) (root_info demo_new)) =
   sort_key ch_Path (FileInfo_Changes (Some (root_info demo_old)) demo_reordered)"
proof -
  have wf: "wf_root (root_info demo_old)" "wf_root (root_info demo_new)"
    using wf_root_info demo_tree_ok(3,4) by blast+
  have "child n (Some (root_info demo_new)) = child n (Some demo_reordered)" for n
    by (simp add: child_def demo_reordered_def root_info_def demo_new_def demo_dir_def)
  then have "same_infos (root_info demo_new) demo_reordered"
    unfolding same_infos_def
  proof (intro allI impI)
    fix cs assume cs: "list_all plain cs"
    show "meta (at cs (Some (root_info demo_new))) = meta (at cs (Some demo_reordered))"
    proof (cases cs)
      case Nil
      then show ?thesis by (simp add: meta_def demo_reordered_def root_info_def)
    next
      case (Cons n ds)
      with cs \<open>\<And>n. child n (Some (root_info demo_new)) = child n (Some demo_reordered)\<close> show ?thesis
        by (simp add: at_Cons)
    qed
  qed
  moreover have "wf_root demo_reordered"
    using wf(2) wf_info_children [of demo_reordered] wf_info_children [of "root_info demo_new"]
    by (simp add: wf_root_def wf_children_def demo_reordered_def isDir_def rev_map [symmetric] del: wf_info.simps)
  moreover have "same_infos (root_info demo_old) (root_info demo_old)" by (simp add: same_infos_def)
  moreover have "wf_info (root_info demo_old)" using wf(1) by (simp add: wf_root_def)
  moreover have "demo_reordered \<noteq> root_info demo_new"
    by (simp add: demo_reordered_def root_info_def demo_new_def demo_dir_def)
  ultimately show ?thesis using changes_order_independent [OF _ wf(2)] by blast
qed

text \<open>
  The test that spares directories the comparison of time and size is a test of one bit, which
  sockets and block devices have too: one of those that only changed in time or size is not reported.
\<close>

lemma special_files_not_compared:
  assumes "and (sMode st) S_IFMT = 0xC000 \<or> and (sMode st) S_IFMT = 0x6000"
  shows "\<not> statDifferent st (st\<lparr>sSize := sz, sMtim := t\<rparr>)"
proof -
  have "and S_IFMT S_IFDIR = S_IFDIR" by (simp add: S_IFMT_def S_IFDIR_def)
  then have "and (sMode st) S_IFDIR = and (and (sMode st) S_IFMT) S_IFDIR" by (simp add: and.assoc)
  also have "\<dots> = S_IFDIR" using assms by (auto simp: S_IFDIR_def)
  finally show ?thesis by (simp add: statDifferent_def)
qed

lemma special_files_not_compared_witness:
  "\<not> statDifferent (FromStatT (demo_stat 0xC1ED 0 5)) ((FromStatT (demo_stat 0xC1ED 0 5))\<lparr>sSize := 9, sMtim := \<lparr>Sec = 2, Nsec = 0\<rparr>\<rparr>)"
  by (rule special_files_not_compared) (simp add: FromStatT_def demo_stat_def S_IFMT_def)

text \<open>
  An extended attribute that does not fit into 128 bytes is not read but panics: the system call
  answers \<open>ERANGE\<close> with the size -1, and a slice of that many bytes cannot be made.
\<close>

lemma Lgetxattr_long_value_panics:
  assumes "CHR 0x00 \<notin> set path" and "CHR 0x00 \<notin> set attr" and "k_lgetxattr k s path attr 128 = (-1, ERANGE, d)"
  shows "Lgetxattr k s path attr = Panic ''makeslice: len out of range''"
  using assms by (simp add: Lgetxattr_def ENODATA_def ERANGE_def)

lemma Lgetxattr_long_value_panics_witness:
  "Lgetxattr tree_kernel (FTree (demo_stat 0x81A4 1 4) (Some (replicate 129 CHR ''x'')) []) [slash] ''security.capability'' =
    Panic ''makeslice: len out of range''"
  by (rule Lgetxattr_long_value_panics)
    (simp_all add: tree_kernel_def tree_getxattr_def path_node_def)

end
