(* ===== verification/ExportSpec.thy ===== *)
theory ExportSpec
  imports TarExport ChangesSpec
begin

text \<open>
  Properties of the exported archive: what it contains when every file can be read, that hard links
  refer back whatever fails, and what is lost when one file cannot be read.
\<close>

section \<open>The tar writer\<close>

text \<open>While the archive is written, the writer is open and an error is sticky.\<close>

lemma tw_WriteHeader_cases:
  assumes "tw_WriteHeader hdr tw = (e, tw')" and "\<not> tw_closed tw"
  obtains (fails) "e \<noteq> None" "tw_err tw' \<noteq> None" "tw_entries tw' = tw_entries tw" "\<not> tw_closed tw'" "tw_err tw \<noteq> None \<or> 0 < tw_nb tw"
  | (writes) "e = None" "tw_err tw = None" "tw_nb tw = 0"
      "tw' = tw\<lparr>tw_entries := tw_entries tw @ [(hdr, [])], tw_nb := nat (sint (Size hdr))\<rparr>"
proof (cases "tw_err tw = None \<and> tw_nb tw = 0")
  case True
  then have "e = None \<and> tw' = tw\<lparr>tw_entries := tw_entries tw @ [(hdr, [])], tw_nb := nat (sint (Size hdr))\<rparr>"
    using assms by (simp add: tw_WriteHeader_def tw_Flush_def Let_def)
  with True writes show ?thesis by blast
next
  case False
  show ?thesis
  proof (cases "tw_err tw")
    case None
    with False assms have "e = Some (missedWriting (tw_nb tw))" "tw' = tw\<lparr>tw_err := Some (missedWriting (tw_nb tw))\<rparr>"
      by (auto simp: tw_WriteHeader_def tw_Flush_def Let_def)
    with False None assms(2) show ?thesis by (intro fails) simp_all
  next
    case (Some x)
    with assms have "e = Some x \<and> tw' = tw" by (simp add: tw_WriteHeader_def tw_Flush_def Let_def)
    with Some assms(2) fails show ?thesis by simp
  qed
qed

lemma tw_Write_fields:
  assumes "tw_Write b tw = (e, tw')"
  shows "tw_closed tw' = tw_closed tw" "tw_err tw' = tw_err tw" "map fst (tw_entries tw') = map fst (tw_entries tw)"
proof -
  have m: "map fst (append_last c es) = map fst es" for c es
    by (cases es rule: rev_cases) (auto simp: append_last_def)
  show "tw_closed tw' = tw_closed tw" "tw_err tw' = tw_err tw" "map fst (tw_entries tw') = map fst (tw_entries tw)"
    using assms m by (auto simp: tw_Write_def Let_def split: if_splits)
qed

lemma copy_file_fields:
  assumes "copy_file k s path ta = (e, ta')"
  shows "SeenFiles ta' = SeenFiles ta" "UIDMaps ta' = UIDMaps ta" "GIDMaps ta' = GIDMaps ta"
    "tw_closed (TarWriter ta') = tw_closed (TarWriter ta)" "tw_err (TarWriter ta') = tw_err (TarWriter ta)"
    "map fst (tw_entries (TarWriter ta')) = map fst (tw_entries (TarWriter ta))"
  using assms tw_Write_fields
  by (auto simp: copy_file_def Let_def split: sum.splits prod.splits if_splits)

section \<open>Hard links refer back\<close>

definition links_back :: "header list \<Rightarrow> bool" where
  "links_back hs \<longleftrightarrow> (\<forall>i < length hs. Typeflag (hs ! i) = TypeLink \<longrightarrow> (\<exists>j < i. Name (hs ! j) = Linkname (hs ! i)))"

lemma links_back_snoc:
  "links_back hs \<Longrightarrow> (Typeflag h = TypeLink \<Longrightarrow> Linkname h \<in> Name ` set hs) \<Longrightarrow> links_back (hs @ [h])"
  unfolding links_back_def
proof (intro allI impI)
  fix i
  assume hs: "\<forall>i < length hs. Typeflag (hs ! i) = TypeLink \<longrightarrow> (\<exists>j < i. Name (hs ! j) = Linkname (hs ! i))"
    and h: "Typeflag h = TypeLink \<Longrightarrow> Linkname h \<in> Name ` set hs"
    and i: "i < length (hs @ [h])" "Typeflag ((hs @ [h]) ! i) = TypeLink"
  show "\<exists>j < i. Name ((hs @ [h]) ! j) = Linkname ((hs @ [h]) ! i)"
  proof (cases "i < length hs")
    case True
    with hs i obtain j where "j < i" "Name (hs ! j) = Linkname (hs ! i)" by auto
    with True show ?thesis by (intro exI [of _ j]) simp
  next
    case False
    with i have [simp]: "i = length hs" by simp
    with i h obtain j where "j < length hs" "Linkname h = Name (hs ! j)" by (auto simp: in_set_conv_nth)
    then show ?thesis by (intro exI [of _ j]) simp
  qed
qed

definition export_inv :: "tarAppender \<Rightarrow> bool" where
  "export_inv ta \<longleftrightarrow> UIDMaps ta = None \<and> GIDMaps ta = None \<and> \<not> tw_closed (TarWriter ta) \<and>
     links_back (map fst (tw_entries (TarWriter ta))) \<and>
     (tw_err (TarWriter ta) = None \<longrightarrow> snd ` set (SeenFiles ta) \<subseteq> Name ` fst ` set (tw_entries (TarWriter ta)))"

text \<open>A header that is written keeps the invariant if it is no link to an unknown name.\<close>

lemma export_inv_WriteHeader:
  assumes inv: "links_back (map fst (tw_entries tw))" "\<not> tw_closed tw"
    and w: "tw_WriteHeader hdr tw = (e, tw')"
    and link: "tw_err tw = None \<Longrightarrow> Typeflag hdr = TypeLink \<Longrightarrow> Linkname hdr \<in> Name ` fst ` set (tw_entries tw)"
    and seen: "tw_err tw = None \<Longrightarrow> snd ` set seen \<subseteq> insert (Name hdr) (Name ` fst ` set (tw_entries tw))"
  shows "links_back (map fst (tw_entries tw'))" "\<not> tw_closed tw'"
    "tw_err tw' = None \<Longrightarrow> snd ` set seen \<subseteq> Name ` fst ` set (tw_entries tw')"
    "e = None \<Longrightarrow> tw_err tw' = None" 
proof -
  from w inv(2) show "links_back (map fst (tw_entries tw'))"
  proof (cases rule: tw_WriteHeader_cases)
    case writes
    with inv(1) link show ?thesis by (auto intro!: links_back_snoc)
  qed (use inv(1) in simp)
  from w inv(2) show "\<not> tw_closed tw'" by (cases rule: tw_WriteHeader_cases) (use inv(2) in auto)
  from w inv(2) show "tw_err tw' = None \<Longrightarrow> snd ` set seen \<subseteq> Name ` fst ` set (tw_entries tw')"
    by (cases rule: tw_WriteHeader_cases) (use seen in auto)
  from w inv(2) show "e = None \<Longrightarrow> tw_err tw' = None" by (cases rule: tw_WriteHeader_cases) auto
qed

lemma snd_set_update: "(a, b) \<in> set (AList.update x v xs) \<Longrightarrow> b = v \<or> b \<in> snd ` set xs"
  by (induction xs) (auto split: if_splits intro: rev_image_eqI)

lemma link_header_cases:
  assumes "link_header fi name inode hdr ta = (hdr', ta')" and "Typeflag hdr \<noteq> TypeLink"
  shows "TarWriter ta' = TarWriter ta" "UIDMaps ta' = UIDMaps ta" "GIDMaps ta' = GIDMaps ta" "Name hdr' = Name hdr"
    "Typeflag hdr' = TypeLink \<Longrightarrow> Linkname hdr' \<in> snd ` set (SeenFiles ta) \<and> SeenFiles ta' = SeenFiles ta"
    "snd ` set (SeenFiles ta') \<subseteq> insert name (snd ` set (SeenFiles ta))"
proof -
  show "TarWriter ta' = TarWriter ta" "UIDMaps ta' = UIDMaps ta" "GIDMaps ta' = GIDMaps ta" "Name hdr' = Name hdr"
    using assms by (auto simp: link_header_def split: if_splits option.splits)
  show "Linkname hdr' \<in> snd ` set (SeenFiles ta) \<and> SeenFiles ta' = SeenFiles ta" if "Typeflag hdr' = TypeLink"
    using assms that by (force simp: link_header_def dest!: map_of_SomeD split: if_splits option.splits)
  show "snd ` set (SeenFiles ta') \<subseteq> insert name (snd ` set (SeenFiles ta))"
    using assms(1) by (auto simp: link_header_def dest: snd_set_update split: if_splits option.splits)
qed

lemma FileInfoHeader_no_link: "Typeflag (FileInfoHeader st link) \<noteq> TypeLink"
  by (simp add: FileInfoHeader_def Let_def TypeReg_def TypeDir_def TypeSymlink_def TypeLink_def TypeChar_def TypeBlock_def TypeFifo_def)

lemma FileInfoHeader_reg:
  "Size (FileInfoHeader st link) = (if file_type st = 0x8000 then sSize st else 0)"
  "Typeflag (FileInfoHeader st link) = TypeReg \<longleftrightarrow> file_type st = 0x8000"
  by (simp_all add: FileInfoHeader_def Let_def zero_header_def TypeReg_def TypeDir_def TypeSymlink_def TypeLink_def TypeChar_def
      TypeBlock_def TypeFifo_def)

lemma setHeader_fields:
  assumes "setHeaderForSpecialDevice hdr fi = (hdr', inode)"
  shows "Typeflag hdr' = Typeflag hdr" "Name hdr' = Name hdr" "Size hdr' = Size hdr" "inode = Ino fi"
  using assms by (auto simp: setHeaderForSpecialDevice_def split: if_splits)

lemma remap_ids_None: "UIDMaps ta = None \<Longrightarrow> GIDMaps ta = None \<Longrightarrow> remap_ids fi hdr ta = Inr hdr"
  by (simp add: remap_ids_def)

text \<open>
  What \<open>addTarFile\<close> does after the header is made, with the identity maps of the migrator: it writes the
  header and copies the file.
\<close>

lemma addTarFile_Ret:
  assumes "addTarFile k s path name ta = Ret (e, ta')" and maps: "UIDMaps ta = None" "GIDMaps ta = None"
  obtains (early) "ta' = ta" "e \<noteq> None"
      "(\<exists>x. k_lstat k s path = Inl x) \<or> (\<exists>fi x. k_lstat k s path = Inr fi \<and> file_type fi = 0xa000 \<and> k_readlink k s path = Inl x)"
  | (header) fi hdr h' ta1 xs e1 tw where
      "k_lstat k s path = Inr fi" "Typeflag hdr \<noteq> TypeLink" "Name hdr = canonicalTarName name (fi_IsDir fi)"
      "Size hdr = (if file_type fi = 0x8000 then sSize fi else 0)" "Typeflag hdr = TypeReg \<longleftrightarrow> file_type fi = 0x8000"
      "link_header fi (canonicalTarName name (fi_IsDir fi)) (Ino fi) hdr ta = (h', ta1)"
      "tw_WriteHeader (h'\<lparr>Xattrs := xs\<rparr>) (TarWriter ta1) = (e1, tw)"
      "if e1 = None \<and> Typeflag h' = TypeReg then copy_file k s path (ta1\<lparr>TarWriter := tw\<rparr>) = (e, ta')
       else e = e1 \<and> ta' = ta1\<lparr>TarWriter := tw\<rparr>"
proof (cases "k_lstat k s path")
  case (Inl x)
  with assms(1) early show ?thesis by (auto simp: addTarFile_def)
next
  case (Inr fi)
  let ?r = "if file_type fi = 0xa000 then k_readlink k s path else Inr []"
  show ?thesis
  proof (cases ?r)
    case (Inl x)
    with Inr assms(1) early show ?thesis by (auto simp: addTarFile_def split: if_splits)
  next
    case link: (Inr link)
    let ?n = "canonicalTarName name (fi_IsDir fi)"
    obtain hdr inode where sh: "setHeaderForSpecialDevice ((FileInfoHeader fi link)\<lparr>Name := ?n\<rparr>) fi = (hdr, inode)" by fastforce
    note f = setHeader_fields [OF sh]
    obtain h' ta1 where lh: "link_header fi ?n inode hdr ta = (h', ta1)" by fastforce
    have nl: "Typeflag hdr \<noteq> TypeLink" using f(1) FileInfoHeader_no_link [of fi link] by simp
    have maps1: "UIDMaps ta1 = None" "GIDMaps ta1 = None" using link_header_cases(2,3) [OF lh nl] maps by simp_all
    obtain cap x where cap: "Lgetxattr (kernel.truncate k) s path ''security.capability'' = Ret (cap, x)"
      using assms(1) by (cases "Lgetxattr (kernel.truncate k) s path ''security.capability''")
        (auto simp: addTarFile_def Inr link sh lh Let_def simp del: bind_outcome_eq_Ret)
    define xs where "xs = (case cap of None \<Rightarrow> Xattrs h' | Some c \<Rightarrow> [(''security.capability'', c)])"
    have hx: "(case cap of None \<Rightarrow> h' | Some c \<Rightarrow> h'\<lparr>Xattrs := [(''security.capability'', c)]\<rparr>) = h'\<lparr>Xattrs := xs\<rparr>"
      by (cases cap) (simp_all add: xs_def)
    obtain e1 tw where wh: "tw_WriteHeader (h'\<lparr>Xattrs := xs\<rparr>) (TarWriter ta1) = (e1, tw)" by fastforce
    have "if e1 = None \<and> Typeflag h' = TypeReg then copy_file k s path (ta1\<lparr>TarWriter := tw\<rparr>) = (e, ta')
        else e = e1 \<and> ta' = ta1\<lparr>TarWriter := tw\<rparr>"
      using assms(1) wh by (cases e1) (auto simp: addTarFile_def Inr link sh lh cap hx remap_ids_None [OF maps1] Let_def split: if_splits)
    moreover have "Size hdr = (if file_type fi = 0x8000 then sSize fi else 0)" "Typeflag hdr = TypeReg \<longleftrightarrow> file_type fi = 0x8000"
      using f(1,3) FileInfoHeader_reg [of fi link] by simp_all
    ultimately show ?thesis using header [OF Inr nl _ _ _ lh [unfolded f(4)] wh] f(2) by simp
  qed
qed

lemma export_inv_addTarFile:
  assumes "export_inv ta" and add: "addTarFile k s path name ta = Ret (e, ta')"
  shows "export_inv ta'"
proof -
  have maps: "UIDMaps ta = None" "GIDMaps ta = None" and opn: "\<not> tw_closed (TarWriter ta)"
    and lb: "links_back (map fst (tw_entries (TarWriter ta)))"
    and seen: "tw_err (TarWriter ta) = None \<Longrightarrow> snd ` set (SeenFiles ta) \<subseteq> Name ` fst ` set (tw_entries (TarWriter ta))"
    using assms(1) by (auto simp: export_inv_def)
  from add maps show ?thesis
  proof (cases rule: addTarFile_Ret)
    case early
    with assms(1) show ?thesis by simp
  next
    case (header fi hdr h' ta1 xs e1 tw)
    note lh = link_header_cases [OF header(6,2)]
    have link: "Linkname (h'\<lparr>Xattrs := xs\<rparr>) \<in> Name ` fst ` set (tw_entries (TarWriter ta1))"
      if "tw_err (TarWriter ta1) = None" "Typeflag (h'\<lparr>Xattrs := xs\<rparr>) = TypeLink"
      using that lh(1,5) seen by auto
    have names: "snd ` set (SeenFiles ta1) \<subseteq> insert (Name (h'\<lparr>Xattrs := xs\<rparr>)) (Name ` fst ` set (tw_entries (TarWriter ta1)))"
      if "tw_err (TarWriter ta1) = None"
      using that lh(1,4,6) seen header(3) by auto
    have "links_back (map fst (tw_entries tw))" "\<not> tw_closed tw"
      "tw_err tw = None \<Longrightarrow> snd ` set (SeenFiles ta1) \<subseteq> Name ` fst ` set (tw_entries tw)"
      using export_inv_WriteHeader [OF _ _ header(7) link names] lb opn lh(1) by simp_all
    then have "export_inv (ta1\<lparr>TarWriter := tw\<rparr>)" using lh(2,3) maps by (simp add: export_inv_def)
    moreover have "export_inv t'" if "export_inv t" "copy_file k s path t = (e, t')" for t t'
    proof -
      have "Name ` fst ` set (tw_entries (TarWriter t')) = Name ` set (map fst (tw_entries (TarWriter t)))"
        using copy_file_fields(6) [OF that(2)] by (metis list.set_map)
      with that(1) copy_file_fields [OF that(2)] show ?thesis by (simp add: export_inv_def)
    qed
    ultimately show ?thesis using header(8) by (auto split: if_splits)
  qed
qed

lemma export_loop_induct:
  assumes "export_loop k s now dir i cs ta = Ret ta'" and "P ta"
    and step: "\<And>i c ta ta'. c \<in> set cs \<Longrightarrow> P ta \<Longrightarrow> export_change k s now dir i c ta = Ret ta' \<Longrightarrow> P ta'"
  shows "P ta'"
  using assms
proof (induction cs arbitrary: i ta)
  case (Cons c cs)
  then obtain t where "export_change k s now dir i c ta = Ret t" "export_loop k s now dir (Suc i) cs t = Ret ta'"
    by (auto elim: bind_outcomeE)
  with Cons show ?case by (metis list.set_intros)
qed simp

lemma export_change_cases:
  assumes "export_change k s now dir i c ta = Ret ta'"
  obtains (delete) e tw where "ch_Kind c = ChangeDelete"
      "tw_WriteHeader (whiteout_header (now i) (ch_Path c)) (TarWriter ta) = (e, tw)" "ta' = ta\<lparr>TarWriter := tw\<rparr>"
  | (content) e where "ch_Kind c \<noteq> ChangeDelete" "addTarFile k s (Join [dir, ch_Path c]) (drop 1 (ch_Path c)) ta = Ret (e, ta')"
proof (cases "ch_Kind c = ChangeDelete")
  case True
  obtain e tw where "tw_WriteHeader (whiteout_header (now i) (ch_Path c)) (TarWriter ta) = (e, tw)" by fastforce
  with True assms delete show ?thesis by (simp add: export_change_def)
next
  case False
  with assms content show ?thesis
    by (auto simp: export_change_def simp del: Join.simps elim!: bind_outcomeE)
qed

lemma whiteout_no_link: "Typeflag (whiteout_header t p) \<noteq> TypeLink" "Size (whiteout_header t p) = 0"
  by (simp_all add: whiteout_header_def Let_def zero_header_def TypeLink_def)

lemma export_inv_change:
  assumes "export_inv ta" and "export_change k s now dir i c ta = Ret ta'" shows "export_inv ta'"
  using assms(2)
proof (cases rule: export_change_cases)
  case (delete e tw)
  have seen: "snd ` set (SeenFiles ta) \<subseteq> insert (Name (whiteout_header (now i) (ch_Path c))) (Name ` fst ` set (tw_entries (TarWriter ta)))"
    if "tw_err (TarWriter ta) = None" using assms(1) that by (auto simp: export_inv_def)
  have "links_back (map fst (tw_entries tw))" "\<not> tw_closed tw"
    "tw_err tw = None \<Longrightarrow> snd ` set (SeenFiles ta) \<subseteq> Name ` fst ` set (tw_entries tw)"
    using export_inv_WriteHeader [OF _ _ delete(2) _ seen] assms(1) whiteout_no_link(1) by (auto simp: export_inv_def)
  with assms(1) delete(3) show ?thesis by (simp add: export_inv_def)
next
  case (content e)
  show ?thesis by (rule export_inv_addTarFile [OF assms(1) content(2)])
qed

lemma tw_Close_entries: "tw_entries (snd (tw_Close tw)) = tw_entries tw"
  by (simp add: tw_Close_def tw_Flush_def Let_def)

definition start_appender :: tarAppender where
  "start_appender = \<lparr>TarWriter = NewWriter, SeenFiles = [], UIDMaps = None, GIDMaps = None\<rparr>"

lemma ExportChanges_Ret:
  assumes "archive_ExportChanges k s now dir cs None None = Ret tw"
  obtains ta where "export_loop k s now dir 0 (sort_key ch_Path cs) start_appender = Ret ta" "tw = snd (tw_Close (TarWriter ta))"
  using assms by (auto simp: archive_ExportChanges_def start_appender_def elim!: bind_outcomeE)

section \<open>A file that cannot be read to its size\<close>

definition stuck :: "tar_writer \<Rightarrow> bool" where
  "stuck tw \<longleftrightarrow> \<not> tw_closed tw \<and> (tw_err tw \<noteq> None \<or> 0 < tw_nb tw)"

lemma stuck_WriteHeader:
  assumes "stuck tw" and "tw_WriteHeader hdr tw = (e, tw')" shows "e \<noteq> None" "stuck tw'" "tw_entries tw' = tw_entries tw"
proof -
  have nc: "\<not> tw_closed tw" using assms(1) by (simp add: stuck_def)
  from assms(2) nc have "e \<noteq> None \<and> stuck tw' \<and> tw_entries tw' = tw_entries tw"
  proof (cases rule: tw_WriteHeader_cases)
    case writes
    with assms(1) show ?thesis by (simp add: stuck_def)
  qed (simp add: stuck_def)
  then show "e \<noteq> None" "stuck tw'" "tw_entries tw' = tw_entries tw" by simp_all
qed

definition same_entries :: "tarAppender \<Rightarrow> tarAppender \<Rightarrow> bool" where
  "same_entries ta ta' \<longleftrightarrow> stuck (TarWriter ta') \<and> tw_entries (TarWriter ta') = tw_entries (TarWriter ta) \<and>
     UIDMaps ta' = None \<and> GIDMaps ta' = None"

lemma stuck_change:
  assumes "stuck (TarWriter ta)" "UIDMaps ta = None" "GIDMaps ta = None" and "export_change k s now dir i c ta = Ret ta'"
  shows "same_entries ta ta'"
  using assms(4)
proof (cases rule: export_change_cases)
  case (delete e tw)
  then show ?thesis using stuck_WriteHeader [OF assms(1) delete(2)] assms(2,3) by (simp add: same_entries_def)
next
  case (content e)
  from content(2) assms(2,3) show ?thesis
  proof (cases rule: addTarFile_Ret)
    case early
    then show ?thesis using assms(1-3) by (simp add: same_entries_def)
  next
    case (header fi hdr h' ta1 xs e1 tw)
    note lh = link_header_cases [OF header(6,2)]
    have "stuck (TarWriter ta1)" using assms(1) lh(1) by simp
    from stuck_WriteHeader [OF this header(7)] header(8) lh(1-3) assms(2,3) show ?thesis
      by (auto simp: same_entries_def)
  qed
qed

lemma stuck_loop:
  assumes "export_loop k s now dir i cs ta = Ret ta'" and "stuck (TarWriter ta)" "UIDMaps ta = None" "GIDMaps ta = None"
  shows "same_entries ta ta'"
  using assms(1)
proof (rule export_loop_induct)
  show "same_entries ta ta" using assms(2-4) by (simp add: same_entries_def)
  fix i c t t' assume "same_entries ta t" "export_change k s now dir i c t = Ret t'"
  with stuck_change [of t k s now dir i c t'] show "same_entries ta t'" by (auto simp: same_entries_def)
qed

lemma stuck_Close: "stuck tw \<Longrightarrow> \<not> has_end_mark (snd (tw_Close tw))"
  by (auto simp: stuck_def has_end_mark_def tw_Close_def tw_Flush_def Let_def)

lemma export_loop_append:
  "export_loop k s now dir i (xs @ ys) ta = bind_outcome (export_loop k s now dir i xs ta) (export_loop k s now dir (i + length xs) ys)"
proof (induction xs arbitrary: i ta)
  case (Cons c xs)
  show ?case by (cases "export_change k s now dir i c ta") (simp_all add: Cons)
qed simp

section \<open>When every file can be read\<close>

definition readable :: "'s file_kernel \<Rightarrow> 's \<Rightarrow> string \<Rightarrow> bool" where
  "readable k s p \<longleftrightarrow>
     (case k_lstat k s p of
        Inl _ \<Rightarrow> False
      | Inr fi \<Rightarrow>
          (file_type fi = 0xa000 \<longrightarrow> (\<exists>l. k_readlink k s p = Inr l)) \<and>
          (\<exists>c. Lgetxattr (kernel.truncate k) s p ''security.capability'' = Ret c) \<and>
          (file_type fi = 0x8000 \<longrightarrow> (\<exists>b. k_read k s p = Inr (b, None) \<and> int (length b) = sint (sSize fi))))"

text \<open>Every entry has the bytes its header promises.\<close>

definition complete_entries :: "(header \<times> bytes) list \<Rightarrow> bool" where
  "complete_entries es \<longleftrightarrow> (\<forall>x \<in> set es. int (length (snd x)) = sint (Size (fst x)))"

definition whole :: "tarAppender \<Rightarrow> bool" where
  "whole ta \<longleftrightarrow> UIDMaps ta = None \<and> GIDMaps ta = None \<and> \<not> tw_closed (TarWriter ta) \<and> tw_err (TarWriter ta) = None \<and>
     tw_nb (TarWriter ta) = 0 \<and> complete_entries (tw_entries (TarWriter ta))"

definition entry_names :: "tarAppender \<Rightarrow> string list" where
  "entry_names ta = map (\<lambda>x. Name (fst x)) (tw_entries (TarWriter ta))"

definition export_name :: "'s file_kernel \<Rightarrow> 's \<Rightarrow> string \<Rightarrow> Change \<Rightarrow> string" where
  "export_name k s dir c =
     (if ch_Kind c = ChangeDelete then drop 1 (Join [path_Dir (ch_Path c), WhiteoutPrefix @ path_Base (ch_Path c)])
      else canonicalTarName (drop 1 (ch_Path c))
        (case k_lstat k s (Join [dir, ch_Path c]) of Inl _ \<Rightarrow> False | Inr fi \<Rightarrow> fi_IsDir fi))"

lemma whole_WriteHeader:
  assumes "tw_err tw = None" "tw_nb tw = 0" "\<not> tw_closed tw"
  shows "tw_WriteHeader hdr tw = (None, tw\<lparr>tw_entries := tw_entries tw @ [(hdr, [])], tw_nb := nat (sint (Size hdr))\<rparr>)"
  using assms by (simp add: tw_WriteHeader_def tw_Flush_def Let_def)

lemma whole_copy:
  assumes "k_read k s path = Inr (b, None)" and "int (length b) = sint (Size h)"
    and "TarWriter ta = tw\<lparr>tw_entries := es @ [(h, [])], tw_nb := nat (sint (Size h))\<rparr>" and "tw_err tw = None" "\<not> tw_closed tw"
  shows "copy_file k s path ta = (None, ta\<lparr>TarWriter := tw\<lparr>tw_entries := es @ [(h, b)], tw_nb := 0\<rparr>\<rparr>)"
proof -
  have n: "nat (sint (Size h)) = length b" using assms(2) by simp
  show ?thesis
  proof (cases "b = []")
    case True
    with assms n show ?thesis by (cases ta) (simp add: copy_file_def)
  next
    case False
    with assms n show ?thesis by (simp add: copy_file_def tw_Write_def append_last_def Let_def)
  qed
qed

lemma addTarFile_returns:
  assumes "readable k s path" and "UIDMaps ta = None" "GIDMaps ta = None"
  shows "\<exists>e ta'. addTarFile k s path name ta = Ret (e, ta')"
proof -
  obtain fi where fi: "k_lstat k s path = Inr fi" using assms(1) by (auto simp: readable_def split: sum.splits)
  obtain c where c: "Lgetxattr (kernel.truncate k) s path ''security.capability'' = Ret c"
    using assms(1) fi by (auto simp: readable_def)
  obtain r where r: "(if file_type fi = 0xa000 then k_readlink k s path else Inr []) = Inr r"
    using assms(1) fi by (cases "file_type fi = 0xa000") (auto simp: readable_def)
  show ?thesis
    using c by (auto simp: addTarFile_def fi r Let_def split: prod.splits sum.splits option.splits)
qed

lemma whole_addTarFile:
  assumes "whole ta" and rd: "readable k s path"
  shows "\<exists>ta'. addTarFile k s path name ta = Ret (None, ta') \<and> whole ta' \<and>
    entry_names ta' = entry_names ta @ [canonicalTarName name (case k_lstat k s path of Inl _ \<Rightarrow> False | Inr fi \<Rightarrow> fi_IsDir fi)]"
proof -
  have maps: "UIDMaps ta = None" "GIDMaps ta = None" using assms(1) by (simp_all add: whole_def)
  obtain e ta' where add: "addTarFile k s path name ta = Ret (e, ta')" using addTarFile_returns [OF rd maps] by blast
  from add maps show ?thesis
  proof (cases rule: addTarFile_Ret)
    case early
    with rd show ?thesis by (auto simp: readable_def split: sum.splits)
  next
    case (header fi hdr h' ta1 xs e1 tw)
    note lh = link_header_cases [OF header(6,2)]
    let ?h = "h'\<lparr>Xattrs := xs\<rparr>" and ?w = "TarWriter ta"
    have w: "tw_err ?w = None" "tw_nb ?w = 0" "\<not> tw_closed ?w" "complete_entries (tw_entries ?w)"
      using assms(1) by (simp_all add: whole_def)
    have wh: "e1 = None" "tw = ?w\<lparr>tw_entries := tw_entries ?w @ [(?h, [])], tw_nb := nat (sint (Size ?h))\<rparr>"
      using header(7) whole_WriteHeader [OF w(1-3)] lh(1) by auto
    have cases: "h' = hdr \<or> Typeflag h' = TypeLink \<and> Size h' = 0"
      using header(6) by (auto simp: link_header_def split: if_splits option.splits)
    have name: "Name ?h = canonicalTarName name (case k_lstat k s path of Inl _ \<Rightarrow> False | Inr fi \<Rightarrow> fi_IsDir fi)"
      using lh(4) header(1,3) by simp
    show ?thesis
    proof (cases "Typeflag h' = TypeReg")
      case True
      then have "h' = hdr" using cases by (auto simp: TypeReg_def TypeLink_def)
      with True header(4,5) have "file_type fi = 0x8000" "Size ?h = sSize fi" by simp_all
      with rd header(1) obtain b where b: "k_read k s path = Inr (b, None)" "int (length b) = sint (Size ?h)"
        by (auto simp: readable_def)
      have "copy_file k s path (ta1\<lparr>TarWriter := tw\<rparr>) =
          (None, (ta1\<lparr>TarWriter := tw\<rparr>)\<lparr>TarWriter := ?w\<lparr>tw_entries := tw_entries ?w @ [(?h, b)], tw_nb := 0\<rparr>\<rparr>)"
        by (rule whole_copy [OF b]) (use wh w in simp_all)
      with header(8) wh(1) True have ta': "e = None" "ta' = ta1\<lparr>TarWriter := ?w\<lparr>tw_entries := tw_entries ?w @ [(?h, b)], tw_nb := 0\<rparr>\<rparr>"
        by simp_all
      with w b lh(2,3) maps name show ?thesis
        unfolding add by (auto simp: whole_def entry_names_def complete_entries_def)
    next
      case False
      then have "Size ?h = 0" using cases header(4,5) by (auto split: if_splits)
      with wh w lh(2,3) maps name header(8) False show ?thesis
        unfolding add by (auto simp: whole_def entry_names_def complete_entries_def)
    qed
  qed
qed

lemma whole_change:
  assumes "whole ta" and "ch_Kind c = ChangeDelete \<or> readable k s (Join [dir, ch_Path c])"
  shows "\<exists>ta'. export_change k s now dir i c ta = Ret ta' \<and> whole ta' \<and> entry_names ta' = entry_names ta @ [export_name k s dir c]"
proof (cases "ch_Kind c = ChangeDelete")
  case True
  have w: "tw_err (TarWriter ta) = None" "tw_nb (TarWriter ta) = 0" "\<not> tw_closed (TarWriter ta)"
    using assms(1) by (simp_all add: whole_def)
  have "Name (whiteout_header t (ch_Path c)) = export_name k s dir c" for t
    using True by (simp add: whiteout_header_def export_name_def Let_def del: Join.simps)
  moreover have "export_change k s now dir i c ta = Ret (ta\<lparr>TarWriter := (TarWriter ta)
      \<lparr>tw_entries := tw_entries (TarWriter ta) @ [(whiteout_header (now i) (ch_Path c), [])], tw_nb := 0\<rparr>\<rparr>)"
    using True whole_WriteHeader [OF w] by (simp add: export_change_def whiteout_no_link)
  ultimately show ?thesis
    using assms(1) by (simp add: whole_def entry_names_def complete_entries_def whiteout_no_link)
next
  case False
  with assms obtain ta' where "addTarFile k s (Join [dir, ch_Path c]) (drop 1 (ch_Path c)) ta = Ret (None, ta')" "whole ta'"
    "entry_names ta' = entry_names ta @ [export_name k s dir c]"
    using whole_addTarFile [OF assms(1), of k s "Join [dir, ch_Path c]" "drop 1 (ch_Path c)"]
    by (auto simp: export_name_def simp del: Join.simps)
  with False show ?thesis by (simp add: export_change_def del: Join.simps)
qed

lemma whole_loop:
  assumes "whole ta" and "\<forall>c \<in> set cs. ch_Kind c = ChangeDelete \<or> readable k s (Join [dir, ch_Path c])"
  shows "\<exists>ta'. export_loop k s now dir i cs ta = Ret ta' \<and> whole ta' \<and> entry_names ta' = entry_names ta @ map (export_name k s dir) cs"
  using assms
proof (induction cs arbitrary: i ta)
  case (Cons c cs)
  have "ch_Kind c = ChangeDelete \<or> readable k s (Join [dir, ch_Path c])" using Cons.prems(2) by simp
  from whole_change [OF Cons.prems(1) this] obtain t where t: "export_change k s now dir i c ta = Ret t" "whole t"
    "entry_names t = entry_names ta @ [export_name k s dir c]" by blast
  from Cons.IH [OF t(2), of "Suc i"] Cons.prems(2) t show ?case by auto
qed simp

lemma ExportChanges_whole:
  assumes "\<forall>c \<in> set cs. ch_Kind c = ChangeDelete \<or> readable k s (Join [dir, ch_Path c])"
  shows "\<exists>tw. archive_ExportChanges k s now dir cs None None = Ret tw \<and> has_end_mark tw \<and> complete_entries (tw_entries tw) \<and>
    map (\<lambda>x. Name (fst x)) (tw_entries tw) = map (export_name k s dir) (sort_key ch_Path cs)"
proof -
  have w: "whole start_appender" by (simp add: whole_def start_appender_def NewWriter_def complete_entries_def)
  have r: "\<forall>c \<in> set (sort_key ch_Path cs). ch_Kind c = ChangeDelete \<or> readable k s (Join [dir, ch_Path c])"
    using assms by simp
  from whole_loop [OF w r, of now 0] obtain ta where ta: "export_loop k s now dir 0 (sort_key ch_Path cs) start_appender = Ret ta" "whole ta"
    "entry_names ta = entry_names start_appender @ map (export_name k s dir) (sort_key ch_Path cs)" by blast
  have "entry_names start_appender = []" by (simp add: entry_names_def start_appender_def NewWriter_def)
  with ta show ?thesis
    by (auto simp: archive_ExportChanges_def start_appender_def [symmetric] has_end_mark_def tw_Close_def tw_Flush_def whole_def entry_names_def)
qed

section \<open>The archive of a difference\<close>

definition tar_path :: "string list \<Rightarrow> string" where
  "tar_path p = join_with [slash] p"

lemma drop_abs_path: "drop 1 (abs_path p) = tar_path p"
  by (simp add: abs_path_def tar_path_def)

lemma plain_whiteout: "plain n \<Longrightarrow> plain (WhiteoutPrefix @ n)"
  by (auto simp: plain_def WhiteoutPrefix_def)

lemma export_name_delete:
  assumes "list_all plain ps" "plain n" "c = \<lparr>ch_Path = abs_path (ps @ [n]), ch_Kind = ChangeDelete\<rparr>"
  shows "export_name k s dir c = tar_path (ps @ [WhiteoutPrefix @ n])"
proof -
  have "Join [abs_path ps, WhiteoutPrefix @ n] = abs_path (ps @ [WhiteoutPrefix @ n])"
    using assms(1) plain_whiteout [OF assms(2)] by (simp add: Join_abs_path del: Join.simps)
  then show ?thesis
    using assms(3) Dir_Base_abs_path [OF assms(1,2)] drop_abs_path by (simp add: export_name_def del: Join.simps drop_Suc_Cons)
qed

lemma reported_exists:
  assumes "reported old (Some new) k p" and "k \<noteq> ChangeDelete" shows "at p (Some new) \<noteq> None"
  using assms by (cases k) (auto simp: reported_def added_at_def modified_at_def)

definition is_dir_in :: "ftree \<Rightarrow> string list \<Rightarrow> bool" where
  "is_dir_in t p \<longleftrightarrow> (case ft_at p (Some t) of None \<Rightarrow> False | Some x \<Rightarrow> fi_IsDir (ft_stat x))"

lemma export_name_content:
  assumes b: "base_ok (kernel.truncate k) s new [] (Some t)" and p: "p \<noteq> []" "list_all plain p"
    and ex: "at p (Some (root_info t)) \<noteq> None" and c: "c = \<lparr>ch_Path = abs_path p, ch_Kind = kind\<rparr>" "kind \<noteq> ChangeDelete"
  shows "export_name k s (abs_path new) c = canonicalTarName (tar_path p) (is_dir_in t p)"
    and "Join [abs_path new, ch_Path c] = abs_path (new @ p)"
proof -
  obtain n ds where nd: "p = n # ds" using p(1) by (cases p) auto
  have "meta (at p (Some (root_info t))) = map_option node_meta (ft_at p (Some t))"
    using at_root_info [of n ds t] p(2) nd by simp
  with ex obtain x where x: "ft_at p (Some t) = Some x" by (cases "ft_at p (Some t)") auto
  show j: "Join [abs_path new, ch_Path c] = abs_path (new @ p)"
    using b p(2) c(1) by (simp add: base_ok_def Join_abs_paths del: Join.simps)
  have "serves_node (kernel.truncate k) s (new @ p) x"
    using b x p(2) by (auto simp: base_ok_def serves_def)
  then have "k_lstat k s (abs_path (new @ p)) = Inr (ft_stat x)" by (simp add: serves_node_def kernel.defs)
  with j c x show "export_name k s (abs_path new) c = canonicalTarName (tar_path p) (is_dir_in t p)"
    by (simp add: export_name_def is_dir_in_def drop_abs_path [symmetric] del: Join.simps)
qed

lemma export_names_of_changes:
  fixes t1 t2 :: ftree
  assumes b: "base_ok (kernel.truncate k) s new [] (Some t2)"
    and cs: "C = {\<lparr>ch_Path = abs_path p, ch_Kind = kind\<rparr> | p kind. p \<noteq> [] \<and> list_all plain p \<and>
      reported (Some (root_info t1)) (Some (root_info t2)) kind p}"
  shows "export_name k s (abs_path new) ` C =
      {tar_path (ps @ [WhiteoutPrefix @ n]) | ps n. list_all plain (ps @ [n]) \<and>
         reported (Some (root_info t1)) (Some (root_info t2)) ChangeDelete (ps @ [n])} \<union>
      {canonicalTarName (tar_path p) (is_dir_in t2 p) | p kind. p \<noteq> [] \<and> list_all plain p \<and> kind \<noteq> ChangeDelete \<and>
         reported (Some (root_info t1)) (Some (root_info t2)) kind p}" (is "_ = ?D \<union> ?C")
proof (intro equalityI subsetI)
  fix x assume "x \<in> export_name k s (abs_path new) ` C"
  then obtain p kind where p: "x = export_name k s (abs_path new) \<lparr>ch_Path = abs_path p, ch_Kind = kind\<rparr>"
    "p \<noteq> []" "list_all plain p" "reported (Some (root_info t1)) (Some (root_info t2)) kind p" unfolding cs by blast
  show "x \<in> ?D \<union> ?C"
  proof (cases "kind = ChangeDelete")
    case True
    obtain ps n where "p = ps @ [n]" using p(2) by (cases p rule: rev_cases) auto
    with p True export_name_delete [of ps n _ k s "abs_path new", OF _ _ refl] have "x \<in> ?D" by auto
    then show ?thesis ..
  next
    case False
    with p export_name_content(1) [OF b p(2,3) reported_exists [OF p(4) False] refl False] have "x \<in> ?C" by blast
    then show ?thesis ..
  qed
next
  fix x assume "x \<in> ?D \<union> ?C"
  then show "x \<in> export_name k s (abs_path new) ` C"
  proof
    assume "x \<in> ?D"
    then obtain ps n where d: "x = tar_path (ps @ [WhiteoutPrefix @ n])" "list_all plain (ps @ [n])" "reported (Some (root_info t1)) (Some (root_info t2)) ChangeDelete (ps @ [n])" by blast
    then have "\<lparr>ch_Path = abs_path (ps @ [n]), ch_Kind = ChangeDelete\<rparr> \<in> C" unfolding cs by blast
    moreover have "x = export_name k s (abs_path new) \<lparr>ch_Path = abs_path (ps @ [n]), ch_Kind = ChangeDelete\<rparr>"
      using d(1,2) export_name_delete [of ps n _ k s "abs_path new", OF _ _ refl] by simp
    ultimately show ?thesis by blast
  next
    assume "x \<in> ?C"
    then obtain p kind where p: "x = canonicalTarName (tar_path p) (is_dir_in t2 p)" "p \<noteq> []" "list_all plain p"
      "kind \<noteq> ChangeDelete" "reported (Some (root_info t1)) (Some (root_info t2)) kind p" by blast
    then have "\<lparr>ch_Path = abs_path p, ch_Kind = kind\<rparr> \<in> C" unfolding cs by blast
    with p(1) export_name_content(1) [OF b p(2,3) reported_exists [OF p(5,4)] refl p(4)] show ?thesis by (metis image_eqI)
  qed
qed

section \<open>Properties\<close>

text \<open>
  C22: when every added or modified file can be read, the archive has exactly one entry per change, in the
  order of the paths, each with all the bytes its header promises, and its end mark.
\<close>

theorem exported_archive_complete:
  assumes "\<forall>c \<in> set cs. ch_Kind c = ChangeDelete \<or> readable k s (Join [dir, ch_Path c])"
  shows "\<exists>tw. archive_ExportChanges k s now dir cs None None = Ret tw \<and> has_end_mark tw \<and> complete_entries (tw_entries tw) \<and>
    map (\<lambda>x. Name (fst x)) (tw_entries tw) = map (export_name k s dir) (sort_key ch_Path cs)"
  by (rule ExportChanges_whole [OF assms])

text \<open>A directory \<open>/r\<close> with two names of one file, one of them missing its content.\<close>

definition demo_links :: "bool \<Rightarrow> unit file_kernel" where
  "demo_links ok =
     \<lparr>k_lstat = \<lambda>_ p. if p = ''/r/a'' \<or> p = ''/r/b'' then Inr ((demo_stat 0x81A4 2 5)\<lparr>Nlink := 2\<rparr>) else Inl ENOENT,
      k_open = \<lambda>_ _. None, k_getdents = \<lambda>_ _. ([], None), k_lgetxattr = \<lambda>_ _ _ _. (-1, ENODATA, []),
      k_TempDir = \<lambda>_ _. (Inl EEXIST, ()), k_Remove = \<lambda>_ _. (),
      k_readlink = \<lambda>_ _. Inl ENOENT,
      k_read = \<lambda>_ _. if ok then Inr (''hi'', None) else Inl (EOther 13)\<rparr>"

definition demo_changes :: "Change list" where
  "demo_changes =
     [\<lparr>ch_Path = ''/a'', ch_Kind = ChangeAdd\<rparr>, \<lparr>ch_Path = ''/b'', ch_Kind = ChangeAdd\<rparr>,
      \<lparr>ch_Path = ''/c'', ch_Kind = ChangeDelete\<rparr>]"

lemma demo_changes_sorted [simp]: "sort_key ch_Path demo_changes = demo_changes"
  by (simp add: demo_changes_def)

lemma demo_joins: "Join [''/r'', ''/a''] = ''/r/a''" "Join [''/r'', ''/b''] = ''/r/b''" "Join [''/r'', ''/c''] = ''/r/c''"
  by (simp_all add: Clean_def rooted_def clean_comps_def clean_push.simps)

lemma demo_readable: "readable (demo_links True) () ''/r/a''" "readable (demo_links True) () ''/r/b''"
  by (simp_all add: readable_def demo_links_def Lgetxattr_def kernel.defs demo_stat_def file_type_def S_IFMT_def)

theorem exported_archive_complete_witness:
  "\<exists>tw. archive_ExportChanges (demo_links True) () (\<lambda>_. (7, 0)) ''/r'' demo_changes None None = Ret tw \<and> has_end_mark tw \<and>
    map (\<lambda>x. Name (fst x)) (tw_entries tw) = [''a'', ''b'', ''.wh.c'']"
proof -
  have "\<forall>c \<in> set demo_changes. ch_Kind c = ChangeDelete \<or> readable (demo_links True) () (Join [''/r'', ch_Path c])"
    using demo_readable by (simp add: demo_changes_def demo_joins del: Join.simps)
  note archive = exported_archive_complete [OF this, of "\<lambda>_. (7, 0)"]
  have "\<not> fi_IsDir ((demo_stat 0x81A4 2 5)\<lparr>Nlink := 2\<rparr>)" by (simp add: fi_IsDir_def demo_stat_def S_IFMT_def S_IFDIR_def)
  then have "export_name (demo_links True) () ''/r'' \<lparr>ch_Path = ''/a'', ch_Kind = ChangeAdd\<rparr> = ''a''"
    "export_name (demo_links True) () ''/r'' \<lparr>ch_Path = ''/b'', ch_Kind = ChangeAdd\<rparr> = ''b''"
    by (simp_all add: export_name_def demo_joins canonicalTarName_def demo_links_def del: Join.simps)
  moreover have "export_name (demo_links True) () ''/r'' \<lparr>ch_Path = ''/c'', ch_Kind = ChangeDelete\<rparr> = ''.wh.c''"
    using export_name_delete [of "[]" "''c''", OF _ _ refl] by (simp add: plain_def abs_path_def tar_path_def WhiteoutPrefix_def)
  ultimately have names: "map (export_name (demo_links True) () ''/r'') demo_changes = [''a'', ''b'', ''.wh.c'']"
    by (simp only: demo_changes_def list.map)
  from archive obtain tw where "archive_ExportChanges (demo_links True) () (\<lambda>_. (7, 0)) ''/r'' demo_changes None None = Ret tw"
    "has_end_mark tw" "map (\<lambda>x. Name (fst x)) (tw_entries tw) = [''a'', ''b'', ''.wh.c'']"
    unfolding demo_changes_sorted names by (elim exE conjE)
  then show ?thesis by (intro exI [of _ tw] conjI)
qed

text \<open>
  C23: whatever fails, every hard link in the archive names an earlier entry of it.
\<close>

theorem exported_links_refer_back:
  assumes "archive_ExportChanges k s now dir cs None None = Ret tw"
    and "i < length (tw_entries tw)" and "Typeflag (fst (tw_entries tw ! i)) = TypeLink"
  shows "\<exists>j < i. Name (fst (tw_entries tw ! j)) = Linkname (fst (tw_entries tw ! i))"
proof -
  obtain ta where ta: "export_loop k s now dir 0 (sort_key ch_Path cs) start_appender = Ret ta" "tw = snd (tw_Close (TarWriter ta))"
    by (rule ExportChanges_Ret [OF assms(1)])
  have "export_inv ta"
    using ta(1)
  proof (rule export_loop_induct)
    show "export_inv start_appender" by (simp add: export_inv_def start_appender_def NewWriter_def links_back_def)
  qed (rule export_inv_change)
  then have "links_back (map fst (tw_entries tw))" using ta(2) by (simp add: export_inv_def tw_Close_entries)
  with assms(2,3) show ?thesis by (fastforce simp: links_back_def)
qed

lemma demo_archive_entries:
  "case archive_ExportChanges (demo_links True) () (\<lambda>_. (7, 0)) ''/r'' demo_changes None None of
     Ret tw \<Rightarrow> length (tw_entries tw) = 3 \<and> Typeflag (fst (tw_entries tw ! 1)) = TypeLink | _ \<Rightarrow> False"
  by code_simp

theorem exported_links_refer_back_witness:
  "\<exists>tw. archive_ExportChanges (demo_links True) () (\<lambda>_. (7, 0)) ''/r'' demo_changes None None = Ret tw \<and>
    Typeflag (fst (tw_entries tw ! 1)) = TypeLink \<and> Name (fst (tw_entries tw ! 0)) = Linkname (fst (tw_entries tw ! 1))"
proof -
  obtain tw where tw: "archive_ExportChanges (demo_links True) () (\<lambda>_. (7, 0)) ''/r'' demo_changes None None = Ret tw"
    "length (tw_entries tw) = 3" "Typeflag (fst (tw_entries tw ! 1)) = TypeLink"
    using demo_archive_entries by (auto split: outcome.splits)
  then show ?thesis using exported_links_refer_back [OF tw(1), of 1] by auto
qed

text \<open>
  C39: after a regular file whose content falls short of the size in its header (it could not be opened,
  or shrank), nothing else gets into the archive and its end mark is missing; the caller is not told.
\<close>

theorem short_file_truncates_archive:
  assumes "sort_key ch_Path cs = before @ after"
    and "export_loop k s now dir 0 before \<lparr>TarWriter = NewWriter, SeenFiles = [], UIDMaps = None, GIDMaps = None\<rparr> = Ret ta"
    and "0 < tw_nb (TarWriter ta)" and "archive_ExportChanges k s now dir cs None None = Ret tw"
  shows "tw_entries tw = tw_entries (TarWriter ta) \<and> \<not> has_end_mark tw"
proof -
  obtain ta2 where ta2: "export_loop k s now dir 0 (sort_key ch_Path cs) start_appender = Ret ta2" "tw = snd (tw_Close (TarWriter ta2))"
    by (rule ExportChanges_Ret [OF assms(4)])
  have loop: "export_loop k s now dir 0 before start_appender = Ret ta" using assms(2) by (simp add: start_appender_def)
  then have "export_inv ta"
  proof (rule export_loop_induct)
    show "export_inv start_appender" by (simp add: export_inv_def start_appender_def NewWriter_def links_back_def)
  qed (rule export_inv_change)
  then have st: "stuck (TarWriter ta)" "UIDMaps ta = None" "GIDMaps ta = None"
    using assms(3) by (simp_all add: stuck_def export_inv_def)
  have "export_loop k s now dir (length before) after ta = Ret ta2"
    using ta2(1) loop by (simp add: assms(1) export_loop_append)
  from stuck_loop [OF this st] show ?thesis
    using ta2(2) stuck_Close [of "TarWriter ta2"] by (simp add: same_entries_def tw_Close_entries)
qed

lemma demo_short_file:
  "case export_loop (demo_links False) () (\<lambda>_. (7, 0)) ''/r'' 0 (take 1 demo_changes)
     \<lparr>TarWriter = NewWriter, SeenFiles = [], UIDMaps = None, GIDMaps = None\<rparr> of
     Ret ta \<Rightarrow> tw_nb (TarWriter ta) = 2 \<and> length (tw_entries (TarWriter ta)) = 1 | _ \<Rightarrow> False"
  "case archive_ExportChanges (demo_links False) () (\<lambda>_. (7, 0)) ''/r'' demo_changes None None of Ret tw \<Rightarrow> True | _ \<Rightarrow> False"
  by code_simp+

theorem short_file_truncates_archive_witness:
  "\<exists>tw. archive_ExportChanges (demo_links False) () (\<lambda>_. (7, 0)) ''/r'' demo_changes None None = Ret tw \<and>
    length (tw_entries tw) = 1 \<and> \<not> has_end_mark tw"
proof -
  obtain ta where ta: "export_loop (demo_links False) () (\<lambda>_. (7, 0)) ''/r'' 0 (take 1 demo_changes)
     \<lparr>TarWriter = NewWriter, SeenFiles = [], UIDMaps = None, GIDMaps = None\<rparr> = Ret ta"
    "0 < tw_nb (TarWriter ta)" "length (tw_entries (TarWriter ta)) = 1"
    using demo_short_file(1) by (auto split: outcome.splits)
  obtain tw where tw: "archive_ExportChanges (demo_links False) () (\<lambda>_. (7, 0)) ''/r'' demo_changes None None = Ret tw"
    using demo_short_file(2) by (auto split: outcome.splits)
  have "sort_key ch_Path demo_changes = take 1 demo_changes @ drop 1 demo_changes" by simp
  from short_file_truncates_archive [OF this ta(1,2) tw] tw ta(3) show ?thesis by auto
qed

lemma difference_archive_names:
  assumes "base_ok (kernel.truncate k) s old [] (Some t1)" and "base_ok (kernel.truncate k) s new [] (Some t2)"
    and "inode_identity (Some t1) (Some t2)" and "height t1 < fuel" and "height t2 < fuel"
    and "\<forall>p kind. list_all plain p \<and> kind \<noteq> ChangeDelete \<and> reported (Some (root_info t1)) (Some (root_info t2)) kind p \<longrightarrow>
      readable k s (abs_path (new @ p))"
  shows "\<exists>cs tw. archive_ChangesDirs fuel (kernel.truncate k) s (abs_path new) (abs_path old) = Ret (Inr cs, s) \<and>
    archive_ExportChanges k s now (abs_path new) cs None None = Ret tw \<and> has_end_mark tw \<and>
    set (map (\<lambda>x. Name (fst x)) (tw_entries tw)) =
      {tar_path (ps @ [WhiteoutPrefix @ n]) | ps n. list_all plain (ps @ [n]) \<and>
         reported (Some (root_info t1)) (Some (root_info t2)) ChangeDelete (ps @ [n])} \<union>
      {canonicalTarName (tar_path p) (is_dir_in t2 p) | p kind. p \<noteq> [] \<and> list_all plain p \<and> kind \<noteq> ChangeDelete \<and>
         reported (Some (root_info t1)) (Some (root_info t2)) kind p}"
proof -
  let ?rep = "reported (Some (root_info t1)) (Some (root_info t2))"
  obtain cs where cs: "ChangesDirs_in fuel (kernel.truncate k) s (abs_path new) (abs_path old) = Ret (Inr cs)"
    "set cs = {\<lparr>ch_Path = abs_path p, ch_Kind = kind\<rparr> | p kind. p \<noteq> [] \<and> list_all plain p \<and> ?rep kind p}"
    using ChangesDirs_in_reported [OF assms(1-5)] by blast
  have "abs_path old \<noteq> []" by (simp add: abs_path_def)
  then have ch: "archive_ChangesDirs fuel (kernel.truncate k) s (abs_path new) (abs_path old) = Ret (Inr cs, s)"
    using cs(1) by (simp add: archive_ChangesDirs_def)
  note content = export_name_content [OF assms(2)]
  have "ch_Kind c = ChangeDelete \<or> readable k s (Join [abs_path new, ch_Path c])" if c: "c \<in> set cs" for c
  proof (cases "ch_Kind c = ChangeDelete")
    case False
    from c cs(2) obtain p kind where p: "c = \<lparr>ch_Path = abs_path p, ch_Kind = kind\<rparr>" "p \<noteq> []" "list_all plain p" "?rep kind p" by blast
    with False have k: "kind \<noteq> ChangeDelete" by simp
    have "Join [abs_path new, ch_Path c] = abs_path (new @ p)"
      by (rule content(2) [OF p(2,3) reported_exists [OF p(4) k] p(1) k])
    with assms(6) [rule_format, of p kind] p k show ?thesis by (simp del: Join.simps)
  qed simp
  then obtain tw where tw: "archive_ExportChanges k s now (abs_path new) cs None None = Ret tw" "has_end_mark tw"
    "map (\<lambda>x. Name (fst x)) (tw_entries tw) = map (export_name k s (abs_path new)) (sort_key ch_Path cs)"
    using ExportChanges_whole [of cs k s "abs_path new" now] by blast
  have "set (map (\<lambda>x. Name (fst x)) (tw_entries tw)) = export_name k s (abs_path new) ` set cs" by (simp only: tw(3) set_map set_sort)
  with export_names_of_changes [OF assms(2) cs(2)] show ?thesis using ch tw(1,2) by (simp only:) blast
qed

text \<open>The machine of one file system again, whose files hold as many bytes as their size says.\<close>

definition tree_files :: "ftree file_kernel" where
  "tree_files = kernel.extend tree_kernel
     \<lparr>k_readlink = \<lambda>T p. Inr [],
      k_read = \<lambda>T p. (case path_node T p of
        None \<Rightarrow> Inl ENOENT | Some t \<Rightarrow> Inr (replicate (nat (sint (sSize (ft_stat t)))) CHR ''x'', None))\<rparr>"

lemma truncate_tree_files [simp]: "kernel.truncate tree_files = tree_kernel"
  by (simp add: tree_files_def kernel.defs)

fun ftree_sizes :: "ftree \<Rightarrow> bool" where
  "ftree_sizes (FTree st cap es) \<longleftrightarrow> 0 \<le> sint (sSize st) \<and> list_all (\<lambda>x. ftree_sizes (snd x)) es"

lemma ftree_sizes_at: "ft_at cs (Some T) = Some t \<Longrightarrow> ftree_sizes T \<Longrightarrow> ftree_sizes t"
proof (induction cs arbitrary: T)
  case (Cons n cs)
  obtain c where c: "ft_child n (Some T) = Some c" using Cons.prems(1) by (cases "ft_child n (Some T)") auto
  then have "ftree_sizes c" using Cons.prems(2) by (cases T) (auto simp: ft_child_def list_all_iff dest!: map_of_SomeD)
  with Cons.IH [of c] Cons.prems(1) c show ?case by simp
qed simp

lemma tree_files_readable:
  assumes "list_all plain cs" and "ft_at cs (Some T) = Some t" and "ftree_ok T" and "ftree_sizes T"
  shows "readable tree_files T (abs_path cs)"
proof -
  have "0 \<le> sint (sSize (ft_stat t))" using ftree_sizes_at [OF assms(2,4)] by (cases t) simp
  moreover have "k_lstat tree_files T (abs_path cs) = Inr (ft_stat t)"
    "k_readlink tree_files T (abs_path cs) = Inr []"
    "k_read tree_files T (abs_path cs) = Inr (replicate (nat (sint (sSize (ft_stat t)))) CHR ''x'', None)"
    using path_node_abs [OF assms(1), of T] assms(2) by (simp_all add: tree_files_def tree_kernel_def kernel.defs)
  ultimately show ?thesis
    using tree_kernel_Lgetxattr [OF assms(1-3)] by (simp add: readable_def)
qed

end
