(* ===== verification/TarTreeSpec.thy ===== *)
theory TarTreeSpec
  imports TarTree FileMatchSpec ExportSpec
begin

text \<open>
  What a whole-directory archive contains: the files of the tree in the order of the walk, without those the
  patterns exclude.
\<close>

section \<open>Relative paths\<close>

lemma path_parts_abs: "list_all plain ws \<Longrightarrow> path_parts (abs_path ws) = ws"
proof (cases "ws = []")
  case False
  assume pl: "list_all plain ws"
  then have "split_on slash (join_with [slash] ws) = ws"
    using False by (intro split_join) (auto simp: list_all_iff plain_def)
  moreover have "abs_path ws \<noteq> [slash]" using abs_path_inject [OF pl, of "[]"] False by simp
  ultimately show ?thesis by (simp add: path_parts_def rooted_def abs_path_def)
qed (simp add: path_parts_def)

lemma strip_common_append: "strip_common ws (ws @ vs) = ([], vs)"
  by (induction ws) (cases vs; simp)+

lemma path_Rel_below:
  assumes "list_all plain ws" and "list_all plain vs" and "vs \<noteq> []"
  shows "path_Rel (abs_path ws) (abs_path (ws @ vs)) = Inr (rel_path vs)"
proof -
  have "abs_path (ws @ vs) \<noteq> abs_path ws" using abs_path_inject [of "ws @ vs" ws] assms by simp
  moreover have "rooted (abs_path us)" for us by (simp add: abs_path_def rooted_def)
  ultimately show ?thesis
    using assms by (simp add: path_Rel_def Clean_abs_path path_parts_abs strip_common_append rel_path_def)
qed

text \<open>The path with a dot that the walk starts at.\<close>

definition dot_path :: "string list \<Rightarrow> string" where
  "dot_path ws = abs_path ws @ [slash, CHR ''.'']"

lemma split_on_last: "split_on c (s @ c # t) = split_on c s @ split_on c t"
proof (induction s)
  case (Cons x s)
  then show ?case by (cases "split_on c s") auto
qed simp

lemma clean_dot: "list_all plain ws \<Longrightarrow> clean_comps True (split_on slash (abs_path ws) @ ''.'' # vs) = clean_comps True (ws @ vs)"
proof -
  assume pl: "list_all plain ws"
  have "fold (\<lambda>w st. clean_push True st w) (split_on slash (join_with [slash] ws)) st = rev ws @ st" for st
  proof (cases "ws = []")
    case False
    then have "split_on slash (join_with [slash] ws) = ws"
      using pl by (intro split_join) (auto simp: list_all_iff plain_def)
    with pl show ?thesis by (simp add: fold_clean_plain)
  qed simp
  moreover have "clean_push True st ''.'' = st" for st by (simp add: clean_push.simps)
  ultimately show ?thesis using pl by (simp add: clean_comps_def abs_path_def fold_clean_plain)
qed

lemma Clean_dot_path: "list_all plain ws \<Longrightarrow> Clean (dot_path ws) = abs_path ws"
proof -
  assume pl: "list_all plain ws"
  have "split_on slash (dot_path ws) = split_on slash (abs_path ws) @ [''.'']"
    unfolding dot_path_def by (simp add: split_on_last)
  moreover have "rooted (dot_path ws)" by (simp add: dot_path_def abs_path_def rooted_def)
  ultimately show ?thesis
    using clean_dot [OF pl, of "[]"] pl by (simp add: Clean_def clean_comps_plain) (simp add: abs_path_def)
qed

lemma path_Rel_dot: "list_all plain ws \<Longrightarrow> path_Rel (abs_path ws) (dot_path ws) = Inr ''.''"
  by (simp add: path_Rel_def Clean_abs_path Clean_dot_path)

lemma Join_dot_path: "list_all plain ws \<Longrightarrow> plain n \<Longrightarrow> Join [dot_path ws, n] = abs_path (ws @ [n])"
proof -
  assume pl: "list_all plain ws" "plain n"
  have "split_on slash (dot_path ws @ slash # n) = split_on slash (abs_path ws) @ [''.'', n]"
    unfolding dot_path_def using pl(2) by (simp add: split_on_last split_on_none plainD)
  moreover have "rooted (dot_path ws @ slash # n)" by (simp add: dot_path_def abs_path_def rooted_def)
  ultimately have "Clean (dot_path ws @ slash # n) = abs_path (ws @ [n])"
    using clean_dot [OF pl(1), of "[n]"] pl by (simp add: Clean_def clean_comps_plain) (simp add: abs_path_def)
  moreover have "dot_path ws \<noteq> []" by (simp add: dot_path_def)
  ultimately show ?thesis by simp
qed

lemma rel_path_inject: "cs \<noteq> [] \<Longrightarrow> ds \<noteq> [] \<Longrightarrow> list_all plain cs \<Longrightarrow> list_all plain ds \<Longrightarrow> rel_path cs = rel_path ds \<longleftrightarrow> cs = ds"
  by (metis split_rel_path)

section \<open>The paths of a tree\<close>

text \<open>All paths below a directory: a directory before its contents, the names in order.\<close>

function tree_paths :: "ftree \<Rightarrow> string list list" where
  "tree_paths (FTree st cap es) = concat (map (\<lambda>(n, c). [n] # map ((#) n) (tree_paths c)) (sort_key fst es))"
  by pat_completeness auto
termination
  by (relation "measure size") (auto dest!: size_entry simp: less_Suc_eq)

lemma size_list_insort: "size_list f (insort_key k x xs) = Suc (f x + size_list f xs)"
  by (induction xs) auto

lemma size_list_sort: "size_list f (sort_key k xs) = size_list f xs"
  by (induction xs) (simp_all add: size_list_insort)

text \<open>
  What the walk adds of the part of the tree at \<open>ps\<close>, when \<open>D\<close> says which paths match: without exceptions
  an excluded directory is not entered.
\<close>

function visit :: "bool \<Rightarrow> (string list \<Rightarrow> bool) \<Rightarrow> string list \<Rightarrow> ftree \<Rightarrow> string list list"
  and visit_below :: "bool \<Rightarrow> (string list \<Rightarrow> bool) \<Rightarrow> string list \<Rightarrow> (string \<times> ftree) list \<Rightarrow> string list list" where
  "visit ex D ps (FTree st cap es) =
     (let below = visit_below ex D ps (sort_key fst es) in if D ps then (if ex then below else []) else ps # below)"
| "visit_below ex D ps [] = []"
| "visit_below ex D ps ((n, c) # es) = visit ex D (ps @ [n]) c @ visit_below ex D ps es"
  by pat_completeness auto
termination
proof (relation "measure (case_sum (\<lambda>(_, _, _, t). 2 * size t) (\<lambda>(_, _, _, es). Suc (2 * size_list (size_prod (\<lambda>_. 0) size) es)))")
  show "(Inr (ex, D, ps, sort_key fst es), Inl (ex, D, ps, FTree st cap es)) \<in>
    measure (case_sum (\<lambda>(_, _, _, t). 2 * size t) (\<lambda>(_, _, _, es). Suc (2 * size_list (size_prod (\<lambda>_. 0) size) es)))" for ex D ps st cap es
    by (simp add: size_list_sort)
qed auto

declare tree_paths.simps [simp del] visit.simps [simp del] visit_below.simps [simp del]

text \<open>The paths that are kept: with exceptions the path itself decides, else also every directory on the way.\<close>

definition kept :: "bool \<Rightarrow> (string list \<Rightarrow> bool) \<Rightarrow> string list \<Rightarrow> bool" where
  "kept ex D p \<longleftrightarrow> (if ex then \<not> D p else \<forall>q. prefix q p \<and> q \<noteq> [] \<longrightarrow> \<not> D q)"

definition kept_from :: "bool \<Rightarrow> (string list \<Rightarrow> bool) \<Rightarrow> string list \<Rightarrow> string list \<Rightarrow> bool" where
  "kept_from ex D ps p \<longleftrightarrow> (if ex then \<not> D (ps @ p) else \<forall>q. prefix q p \<longrightarrow> \<not> D (ps @ q))"

definition kept_below :: "bool \<Rightarrow> (string list \<Rightarrow> bool) \<Rightarrow> string list \<Rightarrow> string list \<Rightarrow> bool" where
  "kept_below ex D ps p \<longleftrightarrow> (if ex then \<not> D (ps @ p) else \<forall>q. prefix q p \<and> q \<noteq> [] \<longrightarrow> \<not> D (ps @ q))"

lemma kept_from_Nil: "kept_from ex D ps [] \<longleftrightarrow> \<not> D ps"
  by (simp add: kept_from_def)

lemma kept_below_Cons: "kept_below ex D ps (n # p) \<longleftrightarrow> kept_from ex D (ps @ [n]) p"
  by (auto simp: kept_below_def kept_from_def prefix_Cons)

lemma kept_from_below: "kept_from ex D ps p \<longleftrightarrow> (ex \<or> \<not> D ps) \<and> (if p = [] then \<not> D ps else kept_below ex D ps p)"
proof (cases "p = []")
  case False
  then show ?thesis by (auto simp: kept_from_def kept_below_def dest: spec [of _ "[]"])
qed (auto simp: kept_from_def)

definition sub_paths :: "(string \<times> ftree) list \<Rightarrow> string list list" where
  "sub_paths es = concat (map (\<lambda>(n, c). [n] # map ((#) n) (tree_paths c)) es)"

lemma tree_paths_sub: "tree_paths (FTree st cap es) = sub_paths (sort_key fst es)"
  by (simp add: tree_paths.simps sub_paths_def)

lemma sub_paths_simps [simp]:
  "sub_paths [] = []" "sub_paths ((n, c) # es) = map ((#) n) ([] # tree_paths c) @ sub_paths es"
  by (simp_all add: sub_paths_def)

lemma sub_paths_not_Nil: "p \<in> set (sub_paths es) \<Longrightarrow> p \<noteq> []"
  by (induction es) auto

lemma tree_paths_not_Nil: "p \<in> set (tree_paths t) \<Longrightarrow> p \<noteq> []"
  by (cases t) (auto simp: tree_paths_sub dest: sub_paths_not_Nil)

lemma visit_kept:
  "visit ex D ps t = map ((@) ps) (filter (kept_from ex D ps) ([] # tree_paths t))"
  "visit_below ex D ps es = map ((@) ps) (filter (kept_below ex D ps) (sub_paths es))"
proof (induction ex D ps t and ex D ps es rule: visit_visit_below.induct)
  case (1 ex D ps st cap es)
  have "filter (kept_from ex D ps) (sub_paths (sort_key fst es)) =
      (if ex \<or> \<not> D ps then filter (kept_below ex D ps) (sub_paths (sort_key fst es)) else [])"
    using sub_paths_not_Nil [of _ "sort_key fst es"] by (auto intro!: filter_cong simp: kept_from_below filter_empty_conv)
  then show ?case using 1 by (auto simp: visit.simps tree_paths_sub kept_from_Nil Let_def)
next
  case (3 ex D ps n c es)
  have "map ((@) ps) (filter (kept_below ex D ps) (map ((#) n) xs)) = map ((@) (ps @ [n])) (filter (kept_from ex D (ps @ [n])) xs)" for xs
    by (simp add: filter_map comp_def kept_below_Cons)
  with 3 show ?case by (simp add: visit_below.simps del: list.map filter.simps)
qed (simp add: visit_below.simps)

section \<open>The walk\<close>

text \<open>Whether the patterns exclude a path, by the last one that covers it.\<close>

definition excluded :: "string list \<Rightarrow> string list \<Rightarrow> bool" where
  "excluded cl p \<longleftrightarrow> last_decides (\<lambda>q. covers (body q) p) cl False"

abbreviation exclude :: "string list \<Rightarrow> TarOptions" where
  "exclude pats \<equiv> no_options\<lparr>ExcludePatterns := pats\<rparr>"

lemma rel_path_not_dot: "list_all plain ps \<Longrightarrow> ps \<noteq> [] \<Longrightarrow> rel_path ps \<noteq> ''.''"
proof
  assume pl: "list_all plain ps" "ps \<noteq> []" and "rel_path ps = ''.''"
  then have "ps = [''.'']" using split_rel_path [OF pl(2,1)] by simp
  with pl show False by (simp add: plain_def)
qed

lemma tar_walk_fn_step:
  assumes cl: "CleanPatterns pats = Inr (cl, dirs, ex)" "\<forall>p \<in> set cl. safe_pattern p"
    and pl: "list_all plain base" "list_all plain ps" "ps \<noteq> []"
  shows "tar_walk_fn gx k s (exclude pats) (cl, dirs, ex) (abs_path base) ''.'' (abs_path (base @ ps)) (Some fi) None (seen, ta) =
    (if excluded cl ps then Ret (if \<not> ex \<and> fi_IsDir fi then Some SkipDir else None, (seen, ta))
     else if rel_path ps \<in> seen then Ret (None, (seen, ta))
     else bind_outcome (addTarFile k s (abs_path (base @ ps)) (rel_path ps) ta) (\<lambda>(_, ta). Ret (None, insert (rel_path ps) seen, ta)))"
proof -
  have "rel_path ps \<noteq> ''.''" by (rule rel_path_not_dot [OF pl(2,3)])
  then show ?thesis
    using path_Rel_below [OF pl] OptimizedMatches_safe [OF cl pl(3,2), of gx]
    by (simp add: tar_walk_fn_def no_options_def rebase_name_def excluded_def Let_def)
qed

lemma tar_walk_fn_root:
  assumes "list_all plain base" and "fi_IsDir fi"
  shows "tar_walk_fn gx k s (exclude pats) cleaned (abs_path base) ''.'' (dot_path base) (Some fi) None st = Ret (None, st)"
  using assms by (cases st; cases cleaned) (simp add: tar_walk_fn_def path_Rel_dot no_options_def)

definition fresh :: "string list \<Rightarrow> string set \<times> tarAppender \<Rightarrow> bool" where
  "fresh ps st \<longleftrightarrow> (\<forall>q. list_all plain q \<longrightarrow> rel_path (ps @ q) \<notin> fst st)"

text \<open>A walk below \<open>ps\<close> has added an entry for each path of a list, and every entry is complete.\<close>

definition archived :: "ftree \<Rightarrow> string list \<Rightarrow> string list list \<Rightarrow> string set \<times> tarAppender \<Rightarrow> (err option \<times> string set \<times> tarAppender) outcome \<Rightarrow> bool" where
  "archived T ps L st r \<longleftrightarrow>
     (\<exists>seen ta. r = Ret (None, seen, ta) \<and> whole ta \<and>
        entry_names ta = entry_names (snd st) @ map (\<lambda>p. canonicalTarName (rel_path p) (is_dir_in T p)) L \<and>
        seen \<subseteq> fst st \<union> {rel_path (ps @ q) | q. list_all plain q})"

lemma fresh_sibling:
  assumes "fresh (ps @ [n]) st" and "seen \<subseteq> fst st \<union> {rel_path ((ps @ [m]) @ q) | q. list_all plain q}"
    and "n \<noteq> m" "list_all plain ps" "plain n" "plain m"
  shows "fresh (ps @ [n]) (seen, ta)"
  unfolding fresh_def fst_conv
proof (intro allI impI notI)
  fix q assume q: "list_all plain q" "rel_path ((ps @ [n]) @ q) \<in> seen"
  with assms(1,2) obtain q' where "rel_path ((ps @ [n]) @ q) = rel_path ((ps @ [m]) @ q')" "list_all plain q'"
    by (auto simp: fresh_def)
  then have "(ps @ [n]) @ q = (ps @ [m]) @ q'" using assms(4-6) q(1) by (subst (asm) rel_path_inject) simp_all
  with assms(3) show False by simp
qed

lemma archived_children:
  assumes "\<And>n c st. (n, c) \<in> set es \<Longrightarrow> fresh (ps @ [n]) st \<Longrightarrow> whole (snd st) \<Longrightarrow>
      archived T (ps @ [n]) (visit ex D (ps @ [n]) c) st (f n st)"
    and "distinct (map fst es)" and "list_all plain ps" and "\<forall>x \<in> set es. plain (fst x) \<and> fresh (ps @ [fst x]) st" and "whole (snd st)"
  shows "archived T ps (visit_below ex D ps es) st (each f (map fst es) st)"
  using assms
proof (induction es arbitrary: st)
  case Nil
  then show ?case by (cases st) (simp add: archived_def visit_below.simps)
next
  case (Cons x es)
  obtain n c where x: "x = (n, c)" by (cases x)
  have "archived T (ps @ [n]) (visit ex D (ps @ [n]) c) st (f n st)" using Cons.prems(1,4,5) x by simp
  then obtain seen ta where st1: "f n st = Ret (None, seen, ta)" "whole ta"
    "entry_names ta = entry_names (snd st) @ map (\<lambda>p. canonicalTarName (rel_path p) (is_dir_in T p)) (visit ex D (ps @ [n]) c)"
    "seen \<subseteq> fst st \<union> {rel_path ((ps @ [n]) @ q) | q. list_all plain q}" unfolding archived_def by (elim exE conjE)
  have pn: "plain n" using Cons.prems(4) x by simp
  have "plain (fst y) \<and> fresh (ps @ [fst y]) (seen, ta)" if "y \<in> set es" for y
  proof -
    have "fst y \<noteq> n" using Cons.prems(2) x that by (cases y) (auto intro: rev_image_eqI)
    with Cons.prems(3,4) that pn fresh_sibling [OF _ st1(4)] show ?thesis by simp
  qed
  then have "archived T ps (visit_below ex D ps es) (seen, ta) (each f (map fst es) (seen, ta))"
    using Cons.prems(1-3) st1(2) by (intro Cons.IH) simp_all
  then obtain seen2 ta2 where st2: "each f (map fst es) (seen, ta) = Ret (None, seen2, ta2)" "whole ta2"
    "entry_names ta2 = entry_names ta @ map (\<lambda>p. canonicalTarName (rel_path p) (is_dir_in T p)) (visit_below ex D ps es)"
    "seen2 \<subseteq> seen \<union> {rel_path (ps @ q) | q. list_all plain q}" unfolding archived_def fst_conv snd_conv by (elim exE conjE)
  have "{rel_path ((ps @ [n]) @ q) | q. list_all plain q} \<subseteq> {rel_path (ps @ q) | q. list_all plain q}"
  proof
    fix y assume "y \<in> {rel_path ((ps @ [n]) @ q) | q. list_all plain q}"
    then obtain q where "y = rel_path (ps @ n # q)" "list_all plain (n # q)" using pn by auto
    then show "y \<in> {rel_path (ps @ q) | q. list_all plain q}" by blast
  qed
  then have "seen2 \<subseteq> fst st \<union> {rel_path (ps @ q) | q. list_all plain q}" using st1(4) st2(4) by blast
  with st1(1,3) st2 show ?case
    unfolding archived_def by (intro exI [of _ seen2] exI [of _ ta2]) (simp add: x visit_below.simps)
qed

lemma insort_key_map: "insort_key f (g x) (map g xs) = map g (insort_key (\<lambda>y. f (g y)) x xs)"
  by (induction xs) auto

lemma sort_key_map: "sort_key f (map g xs) = map g (sort_key (\<lambda>y. f (g y)) xs)"
  by (induction xs) (simp_all add: insort_key_map)

lemma listing_names: "map ni_name (listing t) = map fst (sort_key fst (ft_entries t))"
  by (simp add: listing_def sort_key_map comp_def)

text \<open>Files below a directory that the kernel shows, all of them readable.\<close>

definition shown :: "'s file_kernel \<Rightarrow> 's \<Rightarrow> string list \<Rightarrow> ftree \<Rightarrow> bool" where
  "shown k s base T \<longleftrightarrow> base_ok (kernel.truncate k) s base [] (Some T) \<and>
     (\<forall>p x. list_all plain p \<and> ft_at p (Some T) = Some x \<longrightarrow> readable k s (abs_path (base @ p)))"

lemma shown_node:
  assumes "shown k s base T" and "list_all plain p" and "ft_at p (Some T) = Some t"
  shows "list_all plain base" "base \<noteq> []" "wf_ftree t" "readable k s (abs_path (base @ p))"
    "k_lstat k s (abs_path (base @ p)) = Inr (ft_stat t)"
    "fi_IsDir (ft_stat t) \<Longrightarrow> readDirNames k s (abs_path (base @ p)) = Inr (map fst (sort_key fst (ft_entries t)))"
proof -
  have b: "base_ok (kernel.truncate k) s base [] (Some T)" using assms(1) by (simp add: shown_def)
  then show "list_all plain base" "base \<noteq> []" by (simp_all add: base_ok_def)
  show "wf_ftree t" using wf_ft_at [of "Some T" p] b assms(3) by (simp add: base_ok_def)
  show "readable k s (abs_path (base @ p))" using assms by (simp add: shown_def)
  have "serves_node (kernel.truncate k) s (base @ p) t" using b assms(2,3) by (simp add: base_ok_def serves_def)
  then show "k_lstat k s (abs_path (base @ p)) = Inr (ft_stat t)"
    "fi_IsDir (ft_stat t) \<Longrightarrow> readDirNames k s (abs_path (base @ p)) = Inr (map fst (sort_key fst (ft_entries t)))"
    by (simp_all add: serves_node_def kernel.defs readDirNames_def listing_names)
qed

text \<open>The loop over the names of a directory, and what it does for the contents of one the tree has.\<close>

definition dir_loop :: "nat \<Rightarrow> 's file_kernel \<Rightarrow> 's \<Rightarrow> 'a walk_fn \<Rightarrow> string \<Rightarrow> string list \<Rightarrow> 'a \<Rightarrow> (err option \<times> 'a) outcome" where
  "dir_loop fuel k s walkFn path = each (\<lambda>name a.
     let filename = Join [path, name]
     in case k_lstat k s filename of
          Inl e \<Rightarrow> bind_outcome (walkFn filename None (Some e) a) (\<lambda>r. Ret (pass_error True r))
        | Inr fileInfo \<Rightarrow>
            bind_outcome (file_walk fuel k s walkFn filename fileInfo a) (\<lambda>r. Ret (pass_error (fi_IsDir fileInfo) r)))"

lemma file_walk_Suc:
  "file_walk (Suc fuel) k s walkFn path info a =
     bind_outcome (walkFn path (Some info) None a) (\<lambda>(e, a).
       case e of
         Some _ \<Rightarrow> Ret (pass_error (fi_IsDir info) (e, a))
       | None \<Rightarrow>
           if \<not> fi_IsDir info then Ret (None, a)
           else
             case readDirNames k s path of
               Inl e \<Rightarrow> walkFn path (Some info) (Some e) a
             | Inr ns \<Rightarrow> dir_loop fuel k s walkFn path ns a)"
  by (simp only: file_walk.simps dir_loop_def)

declare file_walk.simps(2) [simp del]

lemma pass_error_None [simp]: "pass_error b (None, a) = (None, a)"
  by (simp add: pass_error_def)

lemma dir_loop_archived:
  assumes sh: "shown k s base T" and ps: "list_all plain ps" "ft_at ps (Some T) = Some (FTree st cap es)"
    and path: "\<And>n. plain n \<Longrightarrow> Join [path, n] = abs_path (base @ ps @ [n])"
    and sub: "\<And>n c a. (n, c) \<in> set es \<Longrightarrow> fresh (ps @ [n]) a \<Longrightarrow> whole (snd a) \<Longrightarrow>
      archived T (ps @ [n]) (visit ex D (ps @ [n]) c) a (file_walk fuel k s fn (abs_path (base @ ps @ [n])) (ft_stat c) a)"
    and fr: "\<And>n. plain n \<Longrightarrow> fresh (ps @ [n]) a" and "whole (snd a)"
  shows "archived T ps (visit_below ex D ps (sort_key fst es)) a (dir_loop fuel k s fn path (map fst (sort_key fst es)) a)"
  unfolding dir_loop_def
proof (rule archived_children)
  have wf: "wf_ftree (FTree st cap es)" using shown_node(3) [OF sh ps] .
  then have d: "distinct (map fst es)" and pl: "\<forall>x \<in> set es. plain (fst x)" by auto
  show "distinct (map fst (sort_key fst es))" using d by (simp only: distinct_map distinct_sort set_sort)
  show "\<forall>x \<in> set (sort_key fst es). plain (fst x) \<and> fresh (ps @ [fst x]) a" using pl fr by simp
  fix n c b assume n: "(n, c) \<in> set (sort_key fst es)" "fresh (ps @ [n]) b" "whole (snd b)"
  then have nc: "(n, c) \<in> set es" "plain n" using pl by auto
  then have "ft_at (ps @ [n]) (Some T) = Some c" using ps(2) d by (simp add: ft_at_append ft_child_def)
  then have "k_lstat k s (abs_path (base @ ps @ [n])) = Inr (ft_stat c)"
    using shown_node(5) [OF sh, of "ps @ [n]" c] ps(1) nc(2) by simp
  with sub [OF nc(1) n(2,3)] path [OF nc(2)]
  show "archived T (ps @ [n]) (visit ex D (ps @ [n]) c) b
      (let filename = Join [path, n]
       in case k_lstat k s filename of
            Inl e \<Rightarrow> bind_outcome (fn filename None (Some e) b) (\<lambda>r. Ret (pass_error True r))
          | Inr fileInfo \<Rightarrow>
              bind_outcome (file_walk fuel k s fn filename fileInfo b) (\<lambda>r. Ret (pass_error (fi_IsDir fileInfo) r)))"
    by (auto simp: archived_def Let_def simp del: Join.simps)
qed (use assms in simp_all)

lemma archived_here: "whole ta \<Longrightarrow> archived T ps [] (seen, ta) (Ret (None, seen, ta))"
  by (simp add: archived_def)

lemma archived_Cons:
  assumes "archived T ps L (insert (rel_path ps) (fst a), ta) r"
    and "entry_names ta = entry_names (snd a) @ [canonicalTarName (rel_path ps) (is_dir_in T ps)]"
  shows "archived T ps (ps # L) a r"
proof -
  obtain seen tb where r: "r = Ret (None, seen, tb)" "whole tb"
    "entry_names tb = entry_names ta @ map (\<lambda>p. canonicalTarName (rel_path p) (is_dir_in T p)) L"
    "seen \<subseteq> insert (rel_path ps) (fst a) \<union> {rel_path (ps @ q) | q. list_all plain q}"
    using assms(1) unfolding archived_def fst_conv snd_conv by (elim exE conjE)
  have "rel_path ps \<in> {rel_path (ps @ q) | q. list_all plain q}" by (intro CollectI exI [of _ "[]"]) simp
  with r(4) have "seen \<subseteq> fst a \<union> {rel_path (ps @ q) | q. list_all plain q}" by blast
  with r(1-3) assms(2) show ?thesis unfolding archived_def by (intro exI [of _ seen] exI [of _ tb]) simp
qed

lemma fresh_child: "fresh ps a \<Longrightarrow> plain n \<Longrightarrow> fresh (ps @ [n]) a"
proof -
  assume a: "fresh ps a" "plain n"
  have "rel_path ((ps @ [n]) @ q) \<notin> fst a" if "list_all plain q" for q
    using a that unfolding fresh_def by (auto dest: spec [of _ "n # q"])
  then show ?thesis by (simp add: fresh_def)
qed

lemma fresh_child_insert:
  assumes "fresh ps (seen, ta)" and "list_all plain ps" "ps \<noteq> []" "plain n"
  shows "fresh (ps @ [n]) (insert (rel_path ps) seen, tb)"
proof -
  have "rel_path ((ps @ [n]) @ q) \<noteq> rel_path ps" if "list_all plain q" for q
    using assms(2-4) that by (subst rel_path_inject) simp_all
  moreover have "fresh (ps @ [n]) (seen, ta)" by (rule fresh_child [OF assms(1,4)])
  ultimately show ?thesis by (simp add: fresh_def)
qed

lemma walk_node:
  assumes cl: "CleanPatterns pats = Inr (cl, dirs, ex)" "\<forall>p \<in> set cl. safe_pattern p" and sh: "shown k s base T"
    and "list_all plain ps" "ps \<noteq> []" "ft_at ps (Some T) = Some t" "height t \<le> fuel" "fresh ps a" "whole (snd a)"
  shows "archived T ps (visit ex (excluded cl) ps t) a
    (file_walk fuel k s (tar_walk_fn gx k s (exclude pats) (cl, dirs, ex) (abs_path base) ''.'') (abs_path (base @ ps)) (ft_stat t) a)"
  using assms(4-)
proof (induction fuel arbitrary: ps t a)
  case 0
  then show ?case by (cases t) simp
next
  case (Suc fuel)
  let ?fn = "tar_walk_fn gx k s (exclude pats) (cl, dirs, ex) (abs_path base) ''.''" and ?path = "abs_path (base @ ps)"
  let ?D = "excluded cl"
  obtain st cap es where t: "t = FTree st cap es" by (cases t)
  obtain seen ta where a: "a = (seen, ta)" by (cases a)
  note node = shown_node [OF sh Suc.prems(1,3)]
  have wf: "wf_ftree (FTree st cap es)" using node(3) t by simp
  define cont where "cont b = (if \<not> fi_IsDir st then Ret (None, b)
    else case readDirNames k s ?path of Inl e \<Rightarrow> ?fn ?path (Some st) (Some e) b
         | Inr ns \<Rightarrow> dir_loop fuel k s ?fn ?path ns b)" for b
  have cont: "archived T ps (visit_below ex ?D ps (sort_key fst es)) b (cont b)"
    if "\<And>n. plain n \<Longrightarrow> fresh (ps @ [n]) b" "whole (snd b)" for b
  proof (cases "fi_IsDir st")
    case True
    have "archived T ps (visit_below ex ?D ps (sort_key fst es)) b (dir_loop fuel k s ?fn ?path (map fst (sort_key fst es)) b)"
    proof (rule dir_loop_archived [OF sh Suc.prems(1) Suc.prems(3) [unfolded t]])
      fix n assume "plain n"
      then show "Join [?path, n] = abs_path (base @ ps @ [n])"
        using Join_abs_path [of "base @ ps" "[n]"] node(1) Suc.prems(1) by (simp del: Join.simps)
    next
      fix n c d assume nc: "(n, c) \<in> set es" "fresh (ps @ [n]) d" "whole (snd d)"
      then have "plain n" "map_of es n = Some c" using wf by auto
      moreover have "height c \<le> fuel" using Suc.prems(4) t nc(1) le_foldr_max [of "height c" "map (\<lambda>x. height (snd x)) es"] by force
      ultimately have "archived T (ps @ [n]) (visit ex ?D (ps @ [n]) c) d (file_walk fuel k s ?fn (abs_path (base @ (ps @ [n]))) (ft_stat c) d)"
        using Suc.prems(1,3) t nc(2,3) by (intro Suc.IH) (simp_all add: ft_at_append ft_child_def)
      then show "archived T (ps @ [n]) (visit ex ?D (ps @ [n]) c) d (file_walk fuel k s ?fn (abs_path (base @ ps @ [n])) (ft_stat c) d)" .
    qed (use that in simp_all)
    then show ?thesis using True node(6) t by (simp add: cont_def)
  next
    case False
    then have "es = []" using wf by simp
    with False that(2) show ?thesis by (cases b) (simp add: cont_def visit_below.simps archived_here)
  qed
  have step: "file_walk (Suc fuel) k s ?fn ?path st b = bind_outcome (?fn ?path (Some st) None b)
      (\<lambda>(e, b). case e of Some _ \<Rightarrow> Ret (pass_error (fi_IsDir st) (e, b)) | None \<Rightarrow> cont b)" for b
    unfolding file_walk_Suc cont_def ..
  note fn = tar_walk_fn_step [OF cl node(1) Suc.prems(1,2), of gx k s st seen ta]
  show ?case
  proof (cases "?D ps")
    case True
    have "archived T ps (visit_below ex ?D ps (sort_key fst es)) a (cont a)"
      using Suc.prems(5,6) by (intro cont fresh_child)
    moreover have "archived T ps [] a (Ret (None, a))" "archived T ps [] a (Ret (pass_error True (Some SkipDir, a)))"
      using Suc.prems(6) a by (simp_all add: archived_here pass_error_def)
    moreover have "cont a = Ret (None, a)" if "\<not> fi_IsDir st" using that by (simp add: cont_def)
    moreover have "file_walk (Suc fuel) k s ?fn ?path st a =
        (if \<not> ex \<and> fi_IsDir st then Ret (pass_error True (Some SkipDir, a)) else cont a)"
      using True fn a by (simp add: step)
    ultimately show ?thesis using True by (cases ex; cases "fi_IsDir st") (simp_all add: t visit.simps Let_def)
  next
    case False
    have "rel_path ps \<notin> seen" using Suc.prems(5) a by (auto simp: fresh_def dest: spec [of _ "[]"])
    moreover obtain tb where tb: "addTarFile k s ?path (rel_path ps) ta = Ret (None, tb)" "whole tb"
      "entry_names tb = entry_names ta @ [canonicalTarName (rel_path ps) (is_dir_in T ps)]"
      using whole_addTarFile [OF _ node(4), of ta "rel_path ps"] Suc.prems(3,6) a node(5) by (auto simp: is_dir_in_def)
    ultimately have "?fn ?path (Some st) None a = Ret (None, insert (rel_path ps) seen, tb)"
      using fn False a by simp
    moreover have "archived T ps (visit_below ex ?D ps (sort_key fst es)) (insert (rel_path ps) seen, tb) (cont (insert (rel_path ps) seen, tb))"
      using fresh_child_insert [OF Suc.prems(5) [unfolded a] Suc.prems(1,2)] tb(2) by (intro cont) simp_all
    then have "archived T ps (visit_below ex ?D ps (sort_key fst es)) (insert (rel_path ps) (fst a), tb) (cont (insert (rel_path ps) seen, tb))"
      by (simp add: a)
    then have "archived T ps (ps # visit_below ex ?D ps (sort_key fst es)) a (cont (insert (rel_path ps) seen, tb))"
      by (rule archived_Cons) (simp add: a tb(3))
    ultimately show ?thesis using False by (simp add: t step visit.simps Let_def)
  qed
qed

section \<open>The archive of a directory\<close>

lemma rel_path_tar_path: "rel_path = tar_path"
  by (rule ext) (simp add: rel_path_def tar_path_def)

text \<open>For the kernel, a directory and the same with a dot after it are one file.\<close>

definition dot_ok :: "'s file_kernel \<Rightarrow> 's \<Rightarrow> string list \<Rightarrow> bool" where
  "dot_ok k s base \<longleftrightarrow> k_lstat k s (dot_path base) = k_lstat k s (abs_path base) \<and>
     readDirNames k s (dot_path base) = readDirNames k s (abs_path base)"

lemma TarWithOptions_entries:
  assumes cl: "CleanPatterns pats = Inr (cl, dirs, ex)" "\<forall>p \<in> set cl. safe_pattern p" and sh: "shown k s base T"
    and dir: "fi_IsDir (ft_stat T)" and dot: "dot_ok k s base" and fuel: "height T \<le> fuel"
  shows "\<exists>tw. archive_TarWithOptions fuel gx k s (abs_path base) (exclude pats) = Ret (Inr tw) \<and> has_end_mark tw \<and>
    complete_entries (tw_entries tw) \<and>
    map (\<lambda>x. Name (fst x)) (tw_entries tw) =
      map (\<lambda>p. canonicalTarName (tar_path p) (is_dir_in T p)) (filter (kept ex (excluded cl)) (tree_paths T))"
proof -
  obtain st cap es where T: "T = FTree st cap es" by (cases T)
  obtain n where n: "fuel = Suc n" using fuel T by (cases fuel) simp_all
  have at: "ft_at [] (Some T) = Some (FTree st cap es)" by (simp add: T)
  note node = shown_node [OF sh _ at, simplified]
  let ?fn = "tar_walk_fn gx k s (exclude pats) (cl, dirs, ex) (abs_path base) ''.''" and ?a = "({}, start_appender)"
  have w: "whole start_appender" by (simp add: whole_def start_appender_def NewWriter_def complete_entries_def)
  have "archived T [] (visit_below ex (excluded cl) [] (sort_key fst es)) ?a (dir_loop n k s ?fn (dot_path base) (map fst (sort_key fst es)) ?a)"
  proof (rule dir_loop_archived [OF sh _ at])
    fix m assume "plain m"
    then show "Join [dot_path base, m] = abs_path (base @ [] @ [m])" using Join_dot_path [OF node(1)] by simp
  next
    fix m c d assume mc: "(m, c) \<in> set es" "fresh ([] @ [m]) d" "whole (snd d)"
    have wf: "wf_ftree (FTree st cap es)" using node(3) by simp
    then have "plain m" "map_of es m = Some c" using mc(1) by auto
    moreover have "height c \<le> n" using fuel n T mc(1) le_foldr_max [of "height c" "map (\<lambda>x. height (snd x)) es"] by force
    ultimately have "archived T [m] (visit ex (excluded cl) [m] c) d (file_walk n k s ?fn (abs_path (base @ [m])) (ft_stat c) d)"
      using T mc(2,3) by (intro walk_node [OF cl sh]) (simp_all add: ft_child_def)
    then show "archived T ([] @ [m]) (visit ex (excluded cl) ([] @ [m]) c) d (file_walk n k s ?fn (abs_path (base @ [] @ [m])) (ft_stat c) d)"
      by simp
  qed (use w in \<open>simp_all add: fresh_def\<close>)
  then obtain seen ta where walk: "dir_loop n k s ?fn (dot_path base) (map fst (sort_key fst es)) ?a = Ret (None, seen, ta)" "whole ta"
    "entry_names ta = entry_names start_appender @ map (\<lambda>p. canonicalTarName (rel_path p) (is_dir_in T p)) (visit_below ex (excluded cl) [] (sort_key fst es))"
    unfolding archived_def fst_conv snd_conv by (elim exE conjE)
  have "visit_below ex (excluded cl) [] (sort_key fst es) = filter (kept ex (excluded cl)) (tree_paths T)"
  proof -
    have "kept_below ex D [] = kept ex D" for D by (rule ext) (simp add: kept_below_def kept_def)
    then show ?thesis by (simp add: visit_kept T tree_paths_sub append_Nil [abs_def])
  qed
  moreover have "entry_names start_appender = []" by (simp add: entry_names_def start_appender_def NewWriter_def)
  moreover have "path_Walk fuel k s (getWalkRoot (abs_path base) ''.'') ?fn ?a = Ret (None, seen, ta)"
  proof -
    have r: "getWalkRoot (abs_path base) ''.'' = dot_path base" by (simp add: getWalkRoot_def dot_path_def)
    have l: "k_lstat k s (dot_path base) = Inr st" "readDirNames k s (dot_path base) = Inr (map fst (sort_key fst es))"
      using dot node(5,6) dir T by (simp_all add: dot_ok_def)
    show ?thesis
      using tar_walk_fn_root [OF node(1), of st gx k s pats "(cl, dirs, ex)" ?a] dir T walk(1)
      by (simp add: path_Walk_def r l n file_walk_Suc)
  qed
  moreover have "CompressStream Uncompressed = None" by (simp add: CompressStream_def)
  ultimately have "archive_TarWithOptions fuel gx k s (abs_path base) (exclude pats) = Ret (Inr (snd (tw_Close (TarWriter ta))))"
    using cl(1) node(5) dir T by (simp add: archive_TarWithOptions_def no_options_def start_appender_def)
  with walk(2,3) show ?thesis
    using \<open>visit_below ex (excluded cl) [] (sort_key fst es) = filter (kept ex (excluded cl)) (tree_paths T)\<close>
      \<open>entry_names start_appender = []\<close>
    by (auto simp: has_end_mark_def tw_Close_def tw_Flush_def whole_def entry_names_def rel_path_tar_path)
qed

section \<open>The machine with one file system\<close>

lemma path_node_dot: "path_node T (dot_path base) = path_node T (abs_path base)"
  by (simp add: path_node_def dot_path_def split_on_last)

lemma tree_files_dot_ok: "dot_ok tree_files T base"
proof -
  have "k_lstat tree_files T (dot_path base) = k_lstat tree_files T (abs_path base)"
    "k_open tree_kernel T (dot_path base) = k_open tree_kernel T (abs_path base)"
    "k_getdents tree_kernel T (dot_path base) = k_getdents tree_kernel T (abs_path base)"
    by (simp_all add: tree_files_def tree_kernel_def kernel.defs path_node_dot)
  then show ?thesis by (simp only: dot_ok_def readDirNames_def readdirnames_def truncate_tree_files)
qed

lemma tree_files_shown:
  assumes "wf_ftree T" "ftree_ok T" "ftree_sizes T" and "list_all plain base" "base \<noteq> []" and t: "ft_at base (Some T) = Some t"
  shows "shown tree_files T base t"
  unfolding shown_def truncate_tree_files
proof (intro conjI allI impI)
  have "wf_ftree t" using wf_ft_at [of "Some T" base] assms(1) t by simp
  with assms t tree_kernel_serves [OF assms(1,2,4)] show "base_ok tree_kernel T base [] (Some t)" by (simp add: base_ok_def)
  fix p x assume p: "list_all plain p \<and> ft_at p (Some t) = Some x"
  with assms t show "readable tree_files T (abs_path (base @ p))"
    by (intro tree_files_readable [where t = x]) (simp_all add: ft_at_append)
qed

section \<open>Properties\<close>

text \<open>
  C27: What a pattern of ASCII wildcards and ordinary characters matches: on every path without a newline, exactly what the
  wildcards mean; on any other path, nothing else; and matching it is no error.  Patterns with characters that are special
  in a regular expression, such as a plus sign or a parenthesis, are not covered.
\<close>

theorem regexpMatch_glob:
  assumes "\<forall>c \<in> set pattern. glob_char c"
  shows "\<exists>b. regexpMatch gx pattern path = Inr b \<and> (b \<longrightarrow> wild pattern (runes path)) \<and>
     (newline \<notin> set path \<longrightarrow> (b \<longleftrightarrow> wild pattern (runes path)))"
  using regexpMatch_safe [OF assms, of gx path] glob_wild wild_glob newline_in_runes by auto

theorem regexpMatch_glob_witness:
  "\<forall>gx. regexpMatch gx ''*.go'' ''main.go'' = Inr True"
proof
  fix gx
  have "runes ''main.go'' = [''m'', ''a'', ''i'', ''n''] @ [''.'', ''g'', ''o'']" by (simp add: runes_ascii ascii_def)
  then have "wild ''*.go'' (runes ''main.go'')"
    by (simp add: wild.simps(2) name_part_def)
  with regexpMatch_glob [of "''*.go''" gx "''main.go''"] show "regexpMatch gx ''*.go'' ''main.go'' = Inr True"
    by (auto simp: glob_char_def ascii_def rx_special_def)
qed

text \<open>
  C26: the archive of a directory whose files can all be read has one complete entry for each path of the
  tree that is kept, in the order of the walk, and its end mark.  The last pattern that covers a path
  decides whether it is excluded; as long as no pattern is an exception, what is below an excluded
  directory is left out too.
\<close>

theorem TarWithOptions_correct:
  assumes "CleanPatterns pats = Inr (cl, dirs, ex)" and "\<forall>p \<in> set cl. safe_pattern p" and "shown k s base T"
    and "fi_IsDir (ft_stat T)" and "dot_ok k s base" and "height T \<le> fuel"
  shows "\<exists>tw. archive_TarWithOptions fuel gx k s (abs_path base) (no_options\<lparr>ExcludePatterns := pats\<rparr>) = Ret (Inr tw) \<and>
    has_end_mark tw \<and> complete_entries (tw_entries tw) \<and>
    map (\<lambda>x. Name (fst x)) (tw_entries tw) =
      map (\<lambda>p. canonicalTarName (tar_path p) (is_dir_in T p)) (filter (kept ex (excluded cl)) (tree_paths T))"
  by (rule TarWithOptions_entries [OF assms])

lemma demo_paths: "tree_paths demo_new = [[''a''], [''d''], [''d'', ''f''], [''s'']]"
  by (simp add: demo_new_def demo_dir_def demo_file_def tree_paths.simps list_less_def)

lemmas clean_simps = Clean_def rooted_def clean_comps_def clean_push.simps

lemma demo_pattern: "CleanPatterns [''s''] = Inr ([''s''], [[''s'']], False)"
  by (simp add: CleanPatterns_def TrimSpace_printable printable_def exclusion_def Let_def clean_simps)

lemma demo_excluded: "p \<noteq> [] \<Longrightarrow> list_all plain p \<Longrightarrow> excluded [''s''] p \<longleftrightarrow> hd p = ''s''"
  using covers_name(1) [of "''s''" p]
  by (simp add: excluded_def last_decides_def body_def exclusion_def ascii_def)

lemma demo_kept: "filter (kept False (excluded [''s''])) (tree_paths demo_new) = [[''a''], [''d''], [''d'', ''f'']]"
proof -
  have pre: "prefix q [n] \<and> q \<noteq> [] \<longleftrightarrow> q = [n]" "prefix q [n, m] \<and> q \<noteq> [] \<longleftrightarrow> q = [n] \<or> q = [n, m]" for q and n m :: string
    by (auto simp: prefix_Cons)
  have "kept False (excluded [''s'']) [''a'']" "kept False (excluded [''s'']) [''d'']"
    "kept False (excluded [''s'']) [''d'', ''f'']" "\<not> kept False (excluded [''s'']) [''s'']"
    unfolding kept_def if_False pre by (auto simp: demo_excluded plain_def)
  then show ?thesis by (simp add: demo_paths)
qed

definition demo_regexp :: go_regexp where
  "demo_regexp = \<lparr>rx_Match = \<lambda>_ _. None, rx_MatchString = \<lambda>_ _. Inr False\<rparr>"

theorem TarWithOptions_correct_witness:
  "\<exists>tw. archive_TarWithOptions 3 demo_regexp tree_files demo_tree (abs_path [''n'']) (no_options\<lparr>ExcludePatterns := [''s'']\<rparr>) = Ret (Inr tw) \<and>
    has_end_mark tw \<and> map (\<lambda>x. Name (fst x)) (tw_entries tw) = [''a'', ''d/'', ''d/f'']"
proof -
  have "ftree_sizes demo_tree" by (simp add: demo_tree_defs)
  then have sh: "shown tree_files demo_tree [''n''] demo_new"
    by (intro tree_files_shown demo_tree_ok) (simp_all add: plain_def demo_tree_def demo_dir_def ft_child_def)
  have safe: "\<forall>p \<in> set [''s'']. safe_pattern p"
    by (simp add: safe_pattern_def body_def exclusion_def glob_char_def ascii_def rx_special_def)
  have dir: "fi_IsDir (ft_stat demo_new)" and h: "height demo_new \<le> 3"
    by (simp_all add: demo_tree_defs fi_IsDir_def S_IFMT_def S_IFDIR_def)
  have ns: "map (\<lambda>p. canonicalTarName (tar_path p) (is_dir_in demo_new p)) [[''a''], [''d''], [''d'', ''f'']] = [''a'', ''d/'', ''d/f'']"
    by (simp add: canonicalTarName_def tar_path_def is_dir_in_def suffix_to_prefix demo_tree_defs ft_child_def fi_IsDir_def S_IFMT_def S_IFDIR_def)
  show ?thesis
    using TarWithOptions_correct [OF demo_pattern safe sh dir tree_files_dot_ok h, of demo_regexp]
    unfolding demo_kept ns by (elim exE conjE) (intro exI conjI)
qed

section \<open>Exceptions\<close>

lemma tree_paths_iff: "wf_ftree t \<Longrightarrow> p \<in> set (tree_paths t) \<longleftrightarrow> p \<noteq> [] \<and> ft_at p (Some t) \<noteq> None"
proof (induction t arbitrary: p)
  case (FTree st cap es)
  have d: "distinct (map fst es)" using FTree.prems by simp
  show ?case
  proof (cases p)
    case Nil
    then show ?thesis using tree_paths_not_Nil by blast
  next
    case (Cons n q)
    have "p \<in> set (tree_paths (FTree st cap es)) \<longleftrightarrow> (\<exists>c. (n, c) \<in> set es \<and> (q = [] \<or> q \<in> set (tree_paths c)))"
      using Cons by (auto simp: tree_paths.simps)
    also have "\<dots> \<longleftrightarrow> (\<exists>c. map_of es n = Some c \<and> (q = [] \<or> q \<in> set (tree_paths c)))" using d by simp
    also have "\<dots> \<longleftrightarrow> (\<exists>c. map_of es n = Some c \<and> ft_at q (Some c) \<noteq> None)"
    proof -
      have "q = [] \<or> q \<in> set (tree_paths c) \<longleftrightarrow> ft_at q (Some c) \<noteq> None" if c: "map_of es n = Some c" for c
      proof -
        have "(n, c) \<in> set es" "wf_ftree c" using c FTree.prems by (auto dest: map_of_SomeD)
        with FTree.IH [of "(n, c)" c q] show ?thesis by (cases q) auto
      qed
      then show ?thesis by blast
    qed
    also have "\<dots> \<longleftrightarrow> p \<noteq> [] \<and> ft_at p (Some (FTree st cap es)) \<noteq> None"
      using Cons by (cases "map_of es n") (simp_all add: ft_child_def)
    finally show ?thesis .
  qed
qed

lemma ft_at_plain: "wf_ftree t \<Longrightarrow> ft_at p (Some t) \<noteq> None \<Longrightarrow> list_all plain p"
proof (induction p arbitrary: t)
  case (Cons n p)
  obtain c where c: "map_of (ft_entries t) n = Some c" "ft_at p (Some c) \<noteq> None"
    using Cons.prems(2) by (cases "map_of (ft_entries t) n") (auto simp: ft_child_def)
  then have "plain n" "wf_ftree c" using wf_ftreeD(3) [OF Cons.prems(1) map_of_SomeD [OF c(1)]] by simp_all
  with Cons.IH c(2) show ?case by simp
qed simp

text \<open>A file is in the archive just if its path is kept.\<close>

lemma file_archived_iff:
  assumes wf: "wf_ftree T" and p: "ft_at p (Some T) = Some c" "p \<noteq> []" "\<not> fi_IsDir (ft_stat c)"
  shows "tar_path p \<in> set (map (\<lambda>p. canonicalTarName (tar_path p) (is_dir_in T p)) (filter K (tree_paths T))) \<longleftrightarrow> K p"
proof
  have name: "canonicalTarName (tar_path p) (is_dir_in T p) = tar_path p" using p by (simp add: is_dir_in_def canonicalTarName_def)
  have pl: "list_all plain p" using ft_at_plain [OF wf] p(1) by simp
  {
    assume "tar_path p \<in> set (map (\<lambda>p. canonicalTarName (tar_path p) (is_dir_in T p)) (filter K (tree_paths T)))"
    then obtain q where q: "q \<in> set (tree_paths T)" "K q" "tar_path p = canonicalTarName (tar_path q) (is_dir_in T q)" by auto
    then have qp: "q \<noteq> []" "list_all plain q" using tree_paths_iff [OF wf] ft_at_plain [OF wf] by blast+
    have "last (split_on slash (rel_path p)) \<noteq> []" using split_rel_path [OF p(2) pl] p(2) pl by (cases p rule: rev_cases) (auto simp: plain_def)
    then have "tar_path p \<noteq> tar_path q @ [slash]" by (auto simp: rel_path_tar_path split_on_snoc_sep)
    with q(3) have "tar_path p = tar_path q" by (auto simp: canonicalTarName_def split: if_splits)
    with qp p(2) pl rel_path_inject [of p q] have "p = q" by (simp add: rel_path_tar_path)
    with q(2) show "K p" by simp
  next
    assume "K p"
    moreover have "p \<in> set (tree_paths T)" using tree_paths_iff [OF wf] p by simp
    ultimately have "canonicalTarName (tar_path p) (is_dir_in T p) \<in> set (map (\<lambda>p. canonicalTarName (tar_path p) (is_dir_in T p)) (filter K (tree_paths T)))"
      unfolding set_map by (intro imageI) simp
    with name show "tar_path p \<in> set (map (\<lambda>p. canonicalTarName (tar_path p) (is_dir_in T p)) (filter K (tree_paths T)))" by simp
  }
qed

text \<open>Closed instances of the wildcards are decided by the matcher.\<close>

lemma glob_eval: "\<forall>c \<in> set p. glob_char c \<Longrightarrow> glob p (runes s) \<longleftrightarrow> regexpMatch demo_regexp p s = Inr True"
  using regexpMatch_safe [of p demo_regexp s] by simp

definition deep :: "string list" where "deep = [''a'', ''b'', ''x'', ''f'']"

lemma dirs_matches:
  "regexpMatch demo_regexp ''**/x'' ''a/b/x'' = Inr True" "regexpMatch demo_regexp ''**/x'' ''a/b/x/f'' = Inr False"
  "regexpMatch demo_regexp ''**/x'' ''a/b'' = Inr False"
  by code_simp+

lemma dirs_covers: "covers ''**/x'' [''a'', ''b'', ''x'']" "\<not> covers ''**/x'' deep" "\<not> covers ''q'' deep"
proof -
  have g: "\<forall>c \<in> set ''**/x''. glob_char c" by (simp add: glob_char_def ascii_def rx_special_def)
  have s: "split_on slash ''**/x'' = [''**'', ''x'']" by simp
  have r: "rel_path [''a'', ''b'', ''x''] = ''a/b/x''" "rel_path deep = ''a/b/x/f''" "rel_path (take 2 deep) = ''a/b''"
    by (simp_all add: rel_path_def deep_def)
  show "covers ''**/x'' [''a'', ''b'', ''x'']" using dirs_matches(1) by (simp add: covers_def r glob_eval [OF g])
  show "\<not> covers ''**/x'' deep" using dirs_matches(2,3) r(3)
    by (simp add: covers_def s r(2) glob_eval [OF g] numeral_2_eq_2)
  show "\<not> covers ''q'' deep" using covers_name(1) [of "''q''" deep] by (simp add: deep_def plain_def ascii_def)
qed

lemma dirs_kept: "\<not> kept False (excluded [''**/x'']) deep" "kept True (excluded [''**/x'', ''!q'']) deep"
proof -
  have "excluded [''**/x''] [''a'', ''b'', ''x'']"
    using dirs_covers(1) by (simp add: excluded_def last_decides_def body_def exclusion_def)
  moreover have "prefix [''a'', ''b'', ''x''] deep" by (simp add: deep_def)
  ultimately show "\<not> kept False (excluded [''**/x'']) deep" unfolding kept_def by auto
  show "kept True (excluded [''**/x'', ''!q'']) deep"
    using dirs_covers(2,3) by (simp add: kept_def excluded_def last_decides_def body_def exclusion_def)
qed

lemma dirs_clean:
  "CleanPatterns [''**/x''] = Inr ([''**/x''], [[''**'', ''x'']], False)"
  "CleanPatterns [''**/x'', ''!q''] = Inr ([''**/x'', ''!q''], [[''**'', ''x''], [''q'']], True)"
  by (simp_all add: CleanPatterns_def TrimSpace_printable printable_def exclusion_def Let_def clean_simps)

text \<open>
  C40: an exception for one file brings in the contents of directories that other patterns exclude: with the
  pattern \<open>**/x\<close> alone the file \<open>a/b/x/f\<close> is left out with its directory, with the exception \<open>!q\<close> for
  another file added it is archived.
\<close>

theorem exceptions_reveal_contents:
  assumes "shown k s base T" and "fi_IsDir (ft_stat T)" and "dot_ok k s base" and "height T \<le> fuel"
    and f: "ft_at [''a'', ''b'', ''x'', ''f''] (Some T) = Some c" "\<not> fi_IsDir (ft_stat c)"
  shows "\<exists>tw1 tw2. archive_TarWithOptions fuel gx k s (abs_path base) (no_options\<lparr>ExcludePatterns := [''**/x'']\<rparr>) = Ret (Inr tw1) \<and>
    archive_TarWithOptions fuel gx k s (abs_path base) (no_options\<lparr>ExcludePatterns := [''**/x'', ''!q'']\<rparr>) = Ret (Inr tw2) \<and>
    ''a/b/x/f'' \<notin> set (map (\<lambda>x. Name (fst x)) (tw_entries tw1)) \<and> ''a/b/x/f'' \<in> set (map (\<lambda>x. Name (fst x)) (tw_entries tw2))"
proof -
  have safe: "\<forall>p \<in> set [''**/x'']. safe_pattern p" "\<forall>p \<in> set [''**/x'', ''!q'']. safe_pattern p"
    by (simp_all add: safe_pattern_def body_def exclusion_def glob_char_def ascii_def rx_special_def)
  have wf: "wf_ftree T" using shown_node(3) [OF assms(1), of "[]" T] by simp
  have d: "tar_path deep = ''a/b/x/f''" by (simp add: tar_path_def deep_def)
  have iff: "''a/b/x/f'' \<in> set (map (\<lambda>p. canonicalTarName (tar_path p) (is_dir_in T p)) (filter K (tree_paths T))) \<longleftrightarrow> K deep" for K
    unfolding d [symmetric] using f by (intro file_archived_iff [OF wf]) (simp_all add: deep_def)
  note entries = TarWithOptions_entries [OF _ _ assms(1-4)]
  from entries [OF dirs_clean(1) safe(1), of gx] entries [OF dirs_clean(2) safe(2), of gx] show ?thesis
    by (elim exE conjE, intro exI conjI) (assumption+, simp_all only: iff dirs_kept not_False_eq_True)
qed

definition deep_tree :: ftree where
  "deep_tree = demo_dir 30 [(''n'', demo_dir 31 [(''a'', demo_dir 32 [(''b'', demo_dir 33 [(''x'', demo_dir 34 [(''f'', demo_file 35 1)])])])])]"

theorem exceptions_reveal_contents_witness:
  "\<exists>tw1 tw2. archive_TarWithOptions 5 demo_regexp tree_files deep_tree (abs_path [''n'']) (no_options\<lparr>ExcludePatterns := [''**/x'']\<rparr>) = Ret (Inr tw1) \<and>
    archive_TarWithOptions 5 demo_regexp tree_files deep_tree (abs_path [''n'']) (no_options\<lparr>ExcludePatterns := [''**/x'', ''!q'']\<rparr>) = Ret (Inr tw2) \<and>
    ''a/b/x/f'' \<notin> set (map (\<lambda>x. Name (fst x)) (tw_entries tw1)) \<and> ''a/b/x/f'' \<in> set (map (\<lambda>x. Name (fst x)) (tw_entries tw2))"
proof (rule exceptions_reveal_contents [OF _ _ tree_files_dot_ok])
  let ?T = "demo_dir 31 [(''a'', demo_dir 32 [(''b'', demo_dir 33 [(''x'', demo_dir 34 [(''f'', demo_file 35 1)])])])]"
  have ok: "wf_ftree deep_tree" "ftree_ok deep_tree" "ftree_sizes deep_tree"
    by (simp_all add: deep_tree_def demo_tree_defs plain_def fi_IsDir_def S_IFMT_def S_IFDIR_def)
  show "shown tree_files deep_tree [''n''] ?T"
    by (rule tree_files_shown [OF ok]) (simp_all add: plain_def deep_tree_def demo_dir_def ft_child_def)
  show "fi_IsDir (ft_stat ?T)" "height ?T \<le> 5" "\<not> fi_IsDir (ft_stat (demo_file 35 1))"
    by (simp_all add: demo_tree_defs fi_IsDir_def S_IFMT_def S_IFDIR_def)
  show "ft_at [''a'', ''b'', ''x'', ''f''] (Some ?T) = Some (demo_file 35 1)" by (simp add: demo_dir_def ft_child_def)
qed

text \<open>
  Two more oddities of the patterns.  \<open>**\<close> at the end, meant to accept everything, does not accept a name with
  a newline; and cleaning a pattern with its mark can lose the mark.
\<close>

lemma double_star_newline: "regexpMatch gx ''**'' [CHR ''a'', newline, CHR ''b''] = Inr False"
proof -
  have "\<forall>c \<in> set ''**''. glob_char c" by (simp add: glob_char_def ascii_def rx_special_def)
  moreover have "runes [CHR ''a'', newline, CHR ''b''] = [''a'', [newline], ''b'']" by (simp add: runes_ascii ascii_def)
  ultimately show ?thesis by (simp add: regexpMatch_safe glob.simps(2))
qed

lemma cleaning_loses_exception: "CleanPatterns [''!/../x''] = Inr ([''x''], [[''x'']], True)"
  by (simp add: CleanPatterns_def TrimSpace_printable printable_def exclusion_def Let_def clean_simps)

end
