(* ===== verification/LayerDiff.thy ===== *)
theory LayerDiff
  imports TarTreeSpec Mounters
begin

text \<open>
  The drivers with the model of \<open>docker/pkg/archive\<close> in place of their archiver: the tar stream of a layer
  with a parent is the archive of the difference of the two directories, that of a layer without one the
  archive of its directory, and the aufs driver archives the branch of a layer without its metadata.
\<close>

text \<open>
  The kernel's state is the world of the drivers.  \<open>enc\<close> is the byte format of the tar writer.  A walk that panics or does not end has no place in the interface,
  whose calls return; it is an error here, and the theorem is about calls that return.
\<close>

definition docker_archive ::
  "nat \<Rightarrow> go_regexp \<Rightarrow> world file_kernel \<Rightarrow> (nat \<Rightarrow> int64 \<times> int64) \<Rightarrow> (tar_writer \<Rightarrow> bytes) \<Rightarrow> Change list archiver" where
  "docker_archive fuel gx k now enc =
     \<lparr>TarWithOptions = \<lambda>w path pats. (case archive_TarWithOptions fuel gx k w path (no_options\<lparr>ExcludePatterns := pats\<rparr>) of
        Ret (Inr tw) \<Rightarrow> Inr (enc tw, None) | Ret (Inl e) \<Rightarrow> Inl e | _ \<Rightarrow> Inl (ErrText ''no return'')),
      ChangesDirs = \<lambda>w newDir oldDir. (case archive_ChangesDirs fuel (kernel.truncate k) w newDir oldDir of
        Ret (r, _) \<Rightarrow> r | _ \<Rightarrow> Inl (ErrText ''no return'')),
      ExportChanges = \<lambda>w dir cs. (case archive_ExportChanges k w now dir cs None None of
        Ret tw \<Rightarrow> Inr (enc tw, None) | _ \<Rightarrow> Inl (ErrText ''no return''))\<rparr>"

lemma Diff_docker_archive:
  assumes "archive_ChangesDirs fuel (kernel.truncate k) w new old = Ret (Inr cs, w)"
    and "archive_ExportChanges k w now new cs None None = Ret tw"
  shows "Diff (docker_archive fuel gx k now enc) w new old = Inr (enc tw, None)"
  using assms by (simp add: Diff_def docker_archive_def)

lemma overlay_dir:
  assumes "list_all plain r" and "plain gid"
  shows "Join [abs_path r, gid, ''root''] = abs_path (r @ [gid, ''root''])"
  using Join_abs_path [of r "[gid, ''root'']"] assms by (simp add: plain_def del: Join.simps)

lemma overlay_TarStream_Diff:
  assumes "w_Lstat w (Join [root, gid, ''root'']) = Inr n1" and "w_Lstat w (Join [root, parent, ''root'']) = Inr n2"
    and "parent \<noteq> []" and "Diff ar w (Join [root, gid, ''root'']) (Join [root, parent, ''root'']) = Inr st"
  shows "overlay_TarStream ar root gid parent w = Ret (Inr (st, Ret), w)"
  using assms by (simp add: overlay_TarStream_def overlay_Mount_def Let_def plain_stream_def del: Join.simps)

text \<open>
  C20: the tar stream the overlay driver gives for a layer with a parent is an archive with its end mark
  whose entries name exactly the differences of the two layers' directories: whiteouts for what the layer
  deletes, the paths it adds or modifies; and closing it does nothing else.
\<close>

theorem overlay_layer_stream:
  assumes "list_all plain r" and "plain gid" and "plain parent"
    and "w_Lstat w (abs_path (r @ [gid, ''root''])) = Inr n1" and "w_Lstat w (abs_path (r @ [parent, ''root''])) = Inr n2"
    and "base_ok (kernel.truncate k) w (r @ [parent, ''root'']) [] (Some t1)"
    and "base_ok (kernel.truncate k) w (r @ [gid, ''root'']) [] (Some t2)"
    and "inode_identity (Some t1) (Some t2)" and "height t1 < fuel" and "height t2 < fuel"
    and "\<forall>p kind. list_all plain p \<and> kind \<noteq> ChangeDelete \<and> reported (Some (root_info t1)) (Some (root_info t2)) kind p \<longrightarrow>
      readable k w (abs_path ((r @ [gid, ''root'']) @ p))"
  shows "\<exists>tw. overlay_TarStream (docker_archive fuel gx k now enc) (abs_path r) gid parent w =
      Ret (Inr ((enc tw, None), Ret), w) \<and> has_end_mark tw \<and>
    set (map (\<lambda>x. Name (fst x)) (tw_entries tw)) =
      {tar_path (ps @ [WhiteoutPrefix @ n]) | ps n. list_all plain (ps @ [n]) \<and>
         reported (Some (root_info t1)) (Some (root_info t2)) ChangeDelete (ps @ [n])} \<union>
      {canonicalTarName (tar_path p) (is_dir_in t2 p) | p kind. p \<noteq> [] \<and> list_all plain p \<and> kind \<noteq> ChangeDelete \<and>
         reported (Some (root_info t1)) (Some (root_info t2)) kind p}"
proof -
  obtain cs tw where a: "archive_ChangesDirs fuel (kernel.truncate k) w (abs_path (r @ [gid, ''root''])) (abs_path (r @ [parent, ''root''])) =
      Ret (Inr cs, w)" "archive_ExportChanges k w now (abs_path (r @ [gid, ''root''])) cs None None = Ret tw" "has_end_mark tw"
    and names: "set (map (\<lambda>x. Name (fst x)) (tw_entries tw)) =
      {tar_path (ps @ [WhiteoutPrefix @ n]) | ps n. list_all plain (ps @ [n]) \<and>
         reported (Some (root_info t1)) (Some (root_info t2)) ChangeDelete (ps @ [n])} \<union>
      {canonicalTarName (tar_path p) (is_dir_in t2 p) | p kind. p \<noteq> [] \<and> list_all plain p \<and> kind \<noteq> ChangeDelete \<and>
         reported (Some (root_info t1)) (Some (root_info t2)) kind p}"
    using difference_archive_names [OF assms(6-11), of now] by (elim exE conjE)
  have "parent \<noteq> []" using assms(3) by (rule plainD)
  then have "overlay_TarStream (docker_archive fuel gx k now enc) (abs_path r) gid parent w = Ret (Inr ((enc tw, None), Ret), w)"
    using overlay_TarStream_Diff [of w "abs_path r" gid n1 parent n2 "docker_archive fuel gx k now enc" "(enc tw, None)"]
      Diff_docker_archive [OF a(1,2)] assms(1-5) by (simp add: overlay_dir del: Join.simps)
  with a(3) names show ?thesis by (intro exI [of _ tw] conjI)
qed

text \<open>The demonstration trees as two layers \<open>l0\<close> and \<open>l1\<close> below \<open>/v\<close>.\<close>

definition demo_layers :: ftree where
  "demo_layers = demo_dir 20 [(''v'', demo_dir 21 [(''l0'', demo_dir 22 [(''root'', demo_old)]), (''l1'', demo_dir 23 [(''root'', demo_new)])])]"

definition world_files :: "ftree \<Rightarrow> world file_kernel" where
  "world_files T =
     \<lparr>k_lstat = \<lambda>_. k_lstat tree_files T, k_open = \<lambda>_. k_open tree_files T, k_getdents = \<lambda>_. k_getdents tree_files T,
      k_lgetxattr = \<lambda>_. k_lgetxattr tree_files T, k_TempDir = \<lambda>w _. (Inl EEXIST, w), k_Remove = \<lambda>w _. w,
      k_readlink = \<lambda>_. k_readlink tree_files T, k_read = \<lambda>_. k_read tree_files T\<rparr>"

definition demo_layers_world :: world where
  "demo_layers_world =
     \<lparr>wfs = \<lparr>names = [(''/v/l0/root'', 1), (''/v/l1/root'', 1)], nodes = [(1, Dir)], next_ino = 2,
        faults = (\<lambda>_ _. None), render = (\<lambda>_. []), log = []\<rparr>, w_mounts = [],
      w_devs = \<lparr>ds_Devices = [], ds_stored = (\<lambda>_. None), ds_deferredRemove = False, ds_active = [],
        ds_pending = [], ds_kmounts = [], ds_content = [], ds_faults = (\<lambda>_ _. None)\<rparr>\<rparr>"

lemma world_files_fields:
  "k_lstat (kernel.truncate (world_files T)) w = k_lstat tree_kernel T"
  "k_open (kernel.truncate (world_files T)) w = k_open tree_kernel T"
  "k_getdents (kernel.truncate (world_files T)) w = k_getdents tree_kernel T"
  "k_lgetxattr (kernel.truncate (world_files T)) w = k_lgetxattr tree_kernel T"
  "k_lstat (world_files T) w = k_lstat tree_files T" "k_readlink (world_files T) w = k_readlink tree_files T"
  "k_read (world_files T) w = k_read tree_files T"
  by (simp_all add: world_files_def tree_files_def kernel.defs)

lemma world_files_Lgetxattr:
  "Lgetxattr (kernel.truncate (world_files T)) w p a = Lgetxattr tree_kernel T p a"
  unfolding Lgetxattr_def world_files_fields ..

lemma world_files_serves: "serves (kernel.truncate (world_files T)) w base q = serves tree_kernel T base q"
  unfolding serves_def serves_node_def world_files_Lgetxattr readdirnames_def world_files_fields ..

lemma world_files_readable: "readable (world_files T) w p = readable tree_files T p"
  unfolding readable_def world_files_Lgetxattr world_files_fields truncate_tree_files ..

lemma demo_layers_ok: "wf_ftree demo_layers" "ftree_ok demo_layers" "ftree_sizes demo_layers"
  by (simp_all add: demo_layers_def demo_tree_defs plain_def fi_IsDir_def S_IFMT_def S_IFDIR_def)

lemma demo_layers_base:
  "base_ok (kernel.truncate (world_files demo_layers)) w ([''v''] @ [''l0'', ''root'']) [] (Some demo_old)"
  "base_ok (kernel.truncate (world_files demo_layers)) w ([''v''] @ [''l1'', ''root'']) [] (Some demo_new)"
proof -
  have pl: "list_all plain [''v'', ''l0'', ''root'']" "list_all plain [''v'', ''l1'', ''root'']" by (simp_all add: plain_def)
  have "ft_at [''v'', ''l0'', ''root''] (Some demo_layers) = Some demo_old" "ft_at [''v'', ''l1'', ''root''] (Some demo_layers) = Some demo_new"
    by (simp_all add: demo_layers_def demo_dir_def ft_child_def)
  with tree_kernel_serves [OF demo_layers_ok(1,2) pl(1)] tree_kernel_serves [OF demo_layers_ok(1,2) pl(2)] pl demo_tree_ok
  show "base_ok (kernel.truncate (world_files demo_layers)) w ([''v''] @ [''l0'', ''root'']) [] (Some demo_old)"
    "base_ok (kernel.truncate (world_files demo_layers)) w ([''v''] @ [''l1'', ''root'']) [] (Some demo_new)"
    by (simp_all add: base_ok_def world_files_serves)
qed

lemma at_root_exists:
  assumes "list_all plain p" and "at p (Some (root_info t)) \<noteq> None" shows "\<exists>x. ft_at p (Some t) = Some x"
proof (cases p)
  case (Cons n ds)
  then have "meta (at p (Some (root_info t))) = map_option node_meta (ft_at p (Some t))"
    using at_root_info [of n ds t] assms(1) by simp
  with assms(2) show ?thesis by (cases "ft_at p (Some t)") auto
qed simp

lemma demo_layers_readable:
  assumes "list_all plain p" and "at p (Some (root_info demo_new)) \<noteq> None"
  shows "readable (world_files demo_layers) w (abs_path (([''v''] @ [''l1'', ''root'']) @ p))"
proof -
  obtain x where "ft_at p (Some demo_new) = Some x" using at_root_exists [OF assms] by blast
  moreover have "ft_at [''v'', ''l1'', ''root''] (Some demo_layers) = Some demo_new"
    by (simp add: demo_layers_def demo_dir_def ft_child_def)
  ultimately have "ft_at ([''v'', ''l1'', ''root''] @ p) (Some demo_layers) = Some x" by (simp only: ft_at_append)
  moreover have "list_all plain ([''v'', ''l1'', ''root''] @ p)" using assms(1) by (simp add: plain_def)
  ultimately show ?thesis using tree_files_readable demo_layers_ok(2,3) by (simp add: world_files_readable)
qed

lemma demo_layers_Lstat:
  "w_Lstat demo_layers_world (abs_path ([''v''] @ [''l0'', ''root''])) = Inr Dir"
  "w_Lstat demo_layers_world (abs_path ([''v''] @ [''l1'', ''root''])) = Inr Dir"
  by (simp_all add: w_Lstat_def w_node_at_def mounted_at_def node_at_def demo_layers_world_def abs_path_def)

theorem overlay_layer_stream_witness:
  "\<exists>tw. overlay_TarStream (docker_archive 4 demo_regexp (world_files demo_layers) (\<lambda>_. (7, 0)) (\<lambda>_. []))
      (abs_path [''v'']) ''l1'' ''l0'' demo_layers_world = Ret (Inr (([], None), Ret), demo_layers_world) \<and> has_end_mark tw \<and>
    tar_path [''d'', ''.wh.x''] \<in> set (map (\<lambda>x. Name (fst x)) (tw_entries tw))"
proof -
  have pl: "list_all plain [''v'']" "plain ''l1''" "plain ''l0''" by (simp_all add: plain_def)
  have rd: "\<forall>p kind. list_all plain p \<and> kind \<noteq> ChangeDelete \<and> reported (Some (root_info demo_old)) (Some (root_info demo_new)) kind p \<longrightarrow>
      readable (world_files demo_layers) demo_layers_world (abs_path (([''v''] @ [''l1'', ''root'']) @ p))"
    using demo_layers_readable reported_exists by blast
  have h: "height demo_old < 4" "height demo_new < 4" using demo_heights by simp_all
  obtain tw where tw: "overlay_TarStream (docker_archive 4 demo_regexp (world_files demo_layers) (\<lambda>_. (7, 0)) (\<lambda>_. []))
      (abs_path [''v'']) ''l1'' ''l0'' demo_layers_world = Ret (Inr (([], None), Ret), demo_layers_world)" "has_end_mark tw"
    "set (map (\<lambda>x. Name (fst x)) (tw_entries tw)) =
      {tar_path (ps @ [WhiteoutPrefix @ n]) | ps n. list_all plain (ps @ [n]) \<and>
         reported (Some (root_info demo_old)) (Some (root_info demo_new)) ChangeDelete (ps @ [n])} \<union>
      {canonicalTarName (tar_path p) (is_dir_in demo_new p) | p kind. p \<noteq> [] \<and> list_all plain p \<and> kind \<noteq> ChangeDelete \<and>
         reported (Some (root_info demo_old)) (Some (root_info demo_new)) kind p}"
    using overlay_layer_stream [OF pl demo_layers_Lstat(2,1) demo_layers_base demo_inodes h rd,
      where now = "\<lambda>_. (7, 0)" and enc = "\<lambda>_. []" and gx = demo_regexp] by (elim exE conjE)
  have "reported (Some (root_info demo_old)) (Some (root_info demo_new)) ChangeDelete ([''d''] @ [''x''])"
    by (simp add: reported_def deleted_at_def at_def root_info_def demo_tree_defs) (simp add: isDir_def FromStatT_def S_IFDIR_def)
  then have "tar_path ([''d''] @ [WhiteoutPrefix @ ''x'']) \<in>
      {tar_path (ps @ [WhiteoutPrefix @ n]) | ps n. list_all plain (ps @ [n]) \<and>
         reported (Some (root_info demo_old)) (Some (root_info demo_new)) ChangeDelete (ps @ [n])}"
    by (intro CollectI exI [of _ "[''d'']"] exI [of _ "''x''"]) (simp add: plain_def)
  then have "tar_path [''d'', ''.wh.x''] \<in> set (map (\<lambda>x. Name (fst x)) (tw_entries tw))"
    unfolding tw(3) by (simp add: WhiteoutPrefix_def)
  with tw(1,2) show ?thesis by (intro exI [of _ tw] conjI)
qed

section \<open>Layers without a parent\<close>

lemma archive_no_patterns:
  assumes "shown k s base T" and "fi_IsDir (ft_stat T)" and "dot_ok k s base" and "height T \<le> fuel"
  shows "\<exists>tw. archive_TarWithOptions fuel gx k s (abs_path base) (no_options\<lparr>ExcludePatterns := []\<rparr>) = Ret (Inr tw) \<and>
    has_end_mark tw \<and> complete_entries (tw_entries tw) \<and>
    map (\<lambda>x. Name (fst x)) (tw_entries tw) = map (\<lambda>p. canonicalTarName (tar_path p) (is_dir_in T p)) (tree_paths T)"
proof -
  have "CleanPatterns [] = Inr ([], [], False)" by (simp add: CleanPatterns_def)
  moreover have "kept False (excluded []) p" for p by (simp add: kept_def excluded_def last_decides_def)
  then have "filter (kept False (excluded [])) (tree_paths T) = tree_paths T" by (simp add: filter_True)
  ultimately show ?thesis using TarWithOptions_entries [OF _ _ assms, of "[]" "[]" "[]" False gx] by simp
qed

lemma docker_archive_dir:
  assumes "archive_TarWithOptions fuel gx k w path (no_options\<lparr>ExcludePatterns := pats\<rparr>) = Ret (Inr tw)"
  shows "TarWithOptions (docker_archive fuel gx k now enc) w path pats = Inr (enc tw, None)"
  using assms by (simp add: docker_archive_def)

text \<open>
  C24: for a layer without a parent the drivers overlay, vfs and btrfs give the archive of the layer's
  directory: one complete entry for each path below it, in the order of the walk, and the end mark.
\<close>

theorem base_layer_stream:
  assumes "(m, base) \<in> {(NewOverlayChecksums (docker_archive fuel gx k now enc) (abs_path r), r @ [gid, ''root'']),
      (NewVfsChecksums (docker_archive fuel gx k now enc) (abs_path r), r @ [''dir'', gid]),
      (NewBtrfsChecksums (docker_archive fuel gx k now enc) (abs_path r), r @ [''subvolumes'', gid])}"
    and "list_all plain r" and "plain gid" and "w_Lstat w (abs_path base) = Inr n"
    and "shown k w base T" and "fi_IsDir (ft_stat T)" and "dot_ok k w base" and "height T \<le> fuel"
  shows "\<exists>tw. TarStream m gid [] w = Ret (Inr ((enc tw, None), Ret), w) \<and> has_end_mark tw \<and> complete_entries (tw_entries tw) \<and>
    map (\<lambda>x. Name (fst x)) (tw_entries tw) = map (\<lambda>p. canonicalTarName (tar_path p) (is_dir_in T p)) (tree_paths T)"
proof -
  obtain tw where tw: "archive_TarWithOptions fuel gx k w (abs_path base) (no_options\<lparr>ExcludePatterns := []\<rparr>) = Ret (Inr tw)"
    "has_end_mark tw" "complete_entries (tw_entries tw)"
    "map (\<lambda>x. Name (fst x)) (tw_entries tw) = map (\<lambda>p. canonicalTarName (tar_path p) (is_dir_in T p)) (tree_paths T)"
    using archive_no_patterns [OF assms(5-8), of gx] by (elim exE conjE)
  have j: "Join [abs_path r, gid, ''root''] = abs_path (r @ [gid, ''root''])"
    "Join [abs_path r, ''dir'', gid] = abs_path (r @ [''dir'', gid])"
    "Join [abs_path r, ''subvolumes'', gid] = abs_path (r @ [''subvolumes'', gid])"
    using assms(2,3) by (simp_all add: Join_abs_path plain_def del: Join.simps)
  have "TarStream m gid [] w = Ret (Inr ((enc tw, None), Ret), w)"
    using assms(1,4) docker_archive_dir [OF tw(1), of now enc]
    by (auto simp: NewOverlayChecksums_def NewVfsChecksums_def NewBtrfsChecksums_def overlay_TarStream_def vfs_TarStream_def
        btrfs_TarStream_def overlay_Mount_def vfs_Mount_def btrfs_Mount_def j archive_Tar_def plain_stream_def Let_def simp del: Join.simps)
  with tw(2-4) show ?thesis by (intro exI [of _ tw] conjI)
qed

lemma world_files_shown:
  assumes "shown tree_files T base t" shows "shown (world_files T) w base t"
proof -
  have b: "base_ok tree_kernel T base [] (Some t)" using assms by (simp add: shown_def)
  have "base_ok (kernel.truncate (world_files T)) w base [] (Some t)"
    using b unfolding base_ok_def by (simp add: world_files_serves)
  with assms show ?thesis by (simp add: shown_def world_files_readable)
qed

lemma world_files_dot_ok: "dot_ok (world_files T) w base"
  using tree_files_dot_ok [of T base] by (simp only: dot_ok_def readDirNames_def readdirnames_def world_files_fields truncate_tree_files)

lemma demo_layers_shown: "shown (world_files demo_layers) w [''v'', ''l1'', ''root''] demo_new"
  by (intro world_files_shown tree_files_shown demo_layers_ok)
    (simp_all add: plain_def demo_layers_def demo_dir_def ft_child_def)

theorem base_layer_stream_witness:
  "\<exists>tw. TarStream (NewOverlayChecksums (docker_archive 3 demo_regexp (world_files demo_layers) (\<lambda>_. (7, 0)) (\<lambda>_. [])) (abs_path [''v'']))
      ''l1'' [] demo_layers_world = Ret (Inr (([], None), Ret), demo_layers_world) \<and> has_end_mark tw \<and>
    map (\<lambda>x. Name (fst x)) (tw_entries tw) = map (\<lambda>p. canonicalTarName (tar_path p) (is_dir_in demo_new p)) [[''a''], [''d''], [''d'', ''f''], [''s'']]"
proof -
  let ?m = "NewOverlayChecksums (docker_archive 3 demo_regexp (world_files demo_layers) (\<lambda>_. (7, 0)) (\<lambda>_. [])) (abs_path [''v''])"
  have d: "fi_IsDir (ft_stat demo_new)" "height demo_new \<le> 3"
    by (simp_all add: demo_tree_defs fi_IsDir_def S_IFMT_def S_IFDIR_def)
  have l: "w_Lstat demo_layers_world (abs_path [''v'', ''l1'', ''root'']) = Inr Dir" using demo_layers_Lstat(2) by simp
  have m: "(?m, [''v'', ''l1'', ''root'']) \<in> {(?m, [''v''] @ [''l1'', ''root'']),
      (NewVfsChecksums (docker_archive 3 demo_regexp (world_files demo_layers) (\<lambda>_. (7, 0)) (\<lambda>_. [])) (abs_path [''v'']), [''v''] @ [''dir'', ''l1'']),
      (NewBtrfsChecksums (docker_archive 3 demo_regexp (world_files demo_layers) (\<lambda>_. (7, 0)) (\<lambda>_. [])) (abs_path [''v'']), [''v''] @ [''subvolumes'', ''l1''])}"
    by simp
  have pl: "list_all plain [''v'']" "plain ''l1''" by (simp_all add: plain_def)
  show ?thesis
    using base_layer_stream [OF m pl l demo_layers_shown d(1) world_files_dot_ok d(2)] unfolding demo_paths
    by (elim exE conjE) (intro exI conjI)
qed

section \<open>Branches of aufs\<close>

definition aufs_metadata :: "string list \<Rightarrow> bool" where
  "aufs_metadata p \<longleftrightarrow> prefix WhiteoutMetaPrefix (hd p) \<and> hd p \<noteq> WhiteoutOpaqueDir"

lemma aufs_patterns:
  "CleanPatterns [WhiteoutMetaPrefix @ ''*'', ''!'' @ WhiteoutOpaqueDir] =
    Inr ([''.wh..wh.*'', ''!.wh..wh..opq''], [[''.wh..wh.*''], [''.wh..wh..opq'']], True)"
  by (simp add: CleanPatterns_def TrimSpace_printable printable_def exclusion_def Let_def clean_simps WhiteoutMetaPrefix_def WhiteoutOpaqueDir_def)

lemma aufs_excluded:
  assumes "p \<noteq> []" and "list_all plain p"
  shows "excluded [''.wh..wh.*'', ''!.wh..wh..opq''] p \<longleftrightarrow> aufs_metadata p"
proof -
  have "covers (''.wh..wh.'' @ ''*'') p \<longleftrightarrow> prefix ''.wh..wh.'' (hd p)" "covers ''.wh..wh..opq'' p \<longleftrightarrow> hd p = ''.wh..wh..opq''"
    by (rule covers_name [OF _ assms], simp add: ascii_def)+
  then show ?thesis
    by (simp add: excluded_def last_decides_def body_def exclusion_def aufs_metadata_def WhiteoutMetaPrefix_def WhiteoutOpaqueDir_def)
qed

text \<open>
  C25: the stream the aufs driver gives for a layer is the archive of its branch without the metadata of
  aufs: a path is left out just if its first name has the metadata prefix and is not the mark of an opaque
  directory.  Every other path of the branch, marks deeper down included, has one complete entry.
\<close>

theorem aufs_layer_stream:
  assumes "list_all plain r" and "plain gid" and "w_Lstat w (abs_path (r @ [''diff'', gid])) = Inr n"
    and "shown k w (r @ [''diff'', gid]) T" and "fi_IsDir (ft_stat T)" and "dot_ok k w (r @ [''diff'', gid])" and "height T \<le> fuel"
  shows "\<exists>tw. aufs_TarStream (docker_archive fuel gx k now enc) (abs_path r) gid parent w = Ret (Inr ((enc tw, None), Ret), w) \<and>
    has_end_mark tw \<and> complete_entries (tw_entries tw) \<and>
    map (\<lambda>x. Name (fst x)) (tw_entries tw) =
      map (\<lambda>p. canonicalTarName (tar_path p) (is_dir_in T p)) (filter (\<lambda>p. \<not> aufs_metadata p) (tree_paths T))"
proof -
  let ?pats = "[WhiteoutMetaPrefix @ ''*'', ''!'' @ WhiteoutOpaqueDir]" and ?cl = "[''.wh..wh.*'', ''!.wh..wh..opq'']"
  have safe: "\<forall>p \<in> set ?cl. safe_pattern p"
    by (simp add: safe_pattern_def body_def exclusion_def glob_char_def ascii_def rx_special_def)
  obtain tw where tw: "archive_TarWithOptions fuel gx k w (abs_path (r @ [''diff'', gid])) (no_options\<lparr>ExcludePatterns := ?pats\<rparr>) = Ret (Inr tw)"
    "has_end_mark tw" "complete_entries (tw_entries tw)"
    "map (\<lambda>x. Name (fst x)) (tw_entries tw) =
      map (\<lambda>p. canonicalTarName (tar_path p) (is_dir_in T p)) (filter (kept True (excluded ?cl)) (tree_paths T))"
    using TarWithOptions_entries [OF aufs_patterns safe assms(4-7), of gx] by (elim exE conjE)
  have wf: "wf_ftree T" using shown_node(3) [OF assms(4), of "[]" T] by simp
  have "filter (kept True (excluded ?cl)) (tree_paths T) = filter (\<lambda>p. \<not> aufs_metadata p) (tree_paths T)"
    using tree_paths_iff [OF wf] ft_at_plain [OF wf] by (intro filter_cong refl) (simp add: kept_def aufs_excluded)
  moreover have "Join [abs_path r, ''diff'', gid] = abs_path (r @ [''diff'', gid])"
    using assms(1,2) by (simp add: Join_abs_path plain_def del: Join.simps)
  then have "aufs_TarStream (docker_archive fuel gx k now enc) (abs_path r) gid parent w = Ret (Inr ((enc tw, None), Ret), w)"
    using assms(3) docker_archive_dir [OF tw(1), of now enc]
    by (simp add: aufs_TarStream_def aufs_Mount_def plain_stream_def Let_def del: Join.simps)
  ultimately show ?thesis using tw(2-4) by (intro exI [of _ tw] conjI) simp_all
qed

definition demo_branch :: ftree where
  "demo_branch = demo_dir 42 [(''.wh..wh.plnk'', demo_dir 43 [(''l'', demo_file 44 1)]), (''.wh..wh..opq'', demo_file 45 0), (''f'', demo_file 46 2)]"

definition demo_aufs :: ftree where
  "demo_aufs = demo_dir 40 [(''v'', demo_dir 41 [(''diff'', demo_dir 47 [(''l1'', demo_branch)])])]"

definition demo_aufs_world :: world where
  "demo_aufs_world = demo_layers_world\<lparr>wfs := (wfs demo_layers_world)\<lparr>names := [(''/v/diff/l1'', 1)]\<rparr>\<rparr>"

lemma demo_aufs_ok: "wf_ftree demo_aufs" "ftree_ok demo_aufs" "ftree_sizes demo_aufs"
  by (simp_all add: demo_aufs_def demo_branch_def demo_tree_defs plain_def fi_IsDir_def S_IFMT_def S_IFDIR_def)

lemma demo_branch_paths:
  "tree_paths demo_branch = [[''.wh..wh..opq''], [''.wh..wh.plnk''], [''.wh..wh.plnk'', ''l''], [''f'']]"
  by (simp add: demo_branch_def demo_dir_def demo_file_def tree_paths.simps list_less_def)

theorem aufs_layer_stream_witness:
  "\<exists>tw. aufs_TarStream (docker_archive 3 demo_regexp (world_files demo_aufs) (\<lambda>_. (7, 0)) (\<lambda>_. [])) (abs_path [''v'']) ''l1'' ''l0'' demo_aufs_world =
      Ret (Inr (([], None), Ret), demo_aufs_world) \<and> has_end_mark tw \<and>
    map (\<lambda>x. Name (fst x)) (tw_entries tw) = [''.wh..wh..opq'', ''f'']"
proof -
  have d: "fi_IsDir (ft_stat demo_branch)" "height demo_branch \<le> 3"
    by (simp_all add: demo_branch_def demo_tree_defs fi_IsDir_def S_IFMT_def S_IFDIR_def)
  have sh: "shown (world_files demo_aufs) demo_aufs_world ([''v''] @ [''diff'', ''l1'']) demo_branch"
    by (intro world_files_shown tree_files_shown demo_aufs_ok)
      (simp_all add: plain_def demo_aufs_def demo_dir_def ft_child_def)
  have l: "w_Lstat demo_aufs_world (abs_path ([''v''] @ [''diff'', ''l1''])) = Inr Dir"
    by (simp add: w_Lstat_def w_node_at_def mounted_at_def node_at_def demo_aufs_world_def demo_layers_world_def abs_path_def)
  have pl: "list_all plain [''v'']" "plain ''l1''" by (simp_all add: plain_def)
  have "map (\<lambda>p. canonicalTarName (tar_path p) (is_dir_in demo_branch p)) (filter (\<lambda>p. \<not> aufs_metadata p) (tree_paths demo_branch)) =
      [''.wh..wh..opq'', ''f'']"
    unfolding demo_branch_paths
    by (simp add: aufs_metadata_def WhiteoutMetaPrefix_def WhiteoutOpaqueDir_def canonicalTarName_def tar_path_def is_dir_in_def
        demo_branch_def demo_tree_defs ft_child_def fi_IsDir_def S_IFMT_def S_IFDIR_def)
  with aufs_layer_stream [OF pl l sh d(1) world_files_dot_ok d(2), of demo_regexp "\<lambda>_. (7, 0)" "\<lambda>_. []" "''l0''"] show ?thesis
    by (elim exE conjE) (intro exI conjI; simp)
qed

end
