(* ===== verification/BaseImage.thy ===== *)
theory BaseImage
  imports ThinPool
begin

text \<open>
  The base image of \<open>daemon/graphdriver/devmapper/deviceset.go\<close>: the thin device with the empty hash that
  every other device is a snapshot of.  \<open>setupBaseImage\<close> looks it up, checks that it is the one of the
  last run by the UUID of its file system, grows it when the user asks for a larger one, and creates it
  when it is missing or was left half made.  \<open>ProbeFsType\<close> and \<open>joinMountOptions\<close> are those of \<open>mount.go\<close>.

  The programs the code runs (\<open>blkid\<close>, \<open>mkfs\<close>, \<open>resize2fs\<close> and so on) and the bytes of block devices are
  not under \<open>src/\<close>: the record \<open>sysops\<close> holds them as functions on a state of type \<open>'w\<close> that the model never
  looks into.  \<open>bs_log\<close> records the command lines run, the latest first.
\<close>

section \<open>State\<close>

record 'w sysops =
  sy_run :: "string list \<Rightarrow> 'w \<Rightarrow> string res \<times> 'w"
  sy_lookPath :: "string \<Rightarrow> bool"
  sy_procFilesystems :: "'w \<Rightarrow> string res"
  sy_device :: "string \<Rightarrow> 'w \<Rightarrow> bytes res"
  sy_mount :: "string \<Rightarrow> string \<Rightarrow> string \<Rightarrow> 'w \<Rightarrow> err option"
  sy_statMnt :: "err option"
  sy_mkdirMnt :: "err option"
  sy_rmMnt :: "err option"

text \<open>What the kernel tells of a pool's use, next to its transaction id.\<close>

record pool_usage =
  pu_sectors :: "64 word"
  pu_dataUsed :: "64 word"
  pu_dataTotal :: "64 word"
  pu_metaUsed :: "64 word"
  pu_metaTotal :: "64 word"

text \<open>
  The fields of \<open>DeviceSet\<close> that set-up reads and writes, around the metadata side \<open>bs_pool\<close>; \<open>userBaseSize\<close>
  is a variable of the package.  \<open>bs_mnt\<close> tells whether the directory \<open>/run/docker/mnt\<close> exists.
\<close>

record 'w base_set =
  bs_pool :: thin_pool
  bs_devicePrefix :: string
  bs_filesystem :: string
  bs_mountOptions :: string
  bs_mkfsArgs :: "string list"
  bs_thinPoolDevice :: string
  bs_BaseDeviceUUID :: string
  bs_BaseDeviceFilesystem :: string
  bs_userBaseSize :: bool
  bs_usage :: "pool_usage res"
  bs_mnt :: bool
  bs_sys :: "'w sysops"
  bs_world :: 'w
  bs_log :: "string list list"

section \<open>Sequences of fallible steps\<close>

text \<open>
  A step returns an error or nil with the new state, or panics.  \<open>seq\<close> is the early return of Go,
  \<open>always\<close> a deferred call whose result is dropped, \<open>context\<close> an error wrapped into a message.
\<close>

type_synonym 's action = "'s \<Rightarrow> (err option \<times> 's) outcome"
type_synonym 'w step = "'w base_set action"

definition seq :: "'s action \<Rightarrow> 's action \<Rightarrow> 's action" where
  "seq a b s = bind_outcome (a s) (\<lambda>(r, s1). case r of Some e \<Rightarrow> Ret (Some e, s1) | None \<Rightarrow> b s1)"

definition always :: "'s action \<Rightarrow> ('s \<Rightarrow> 's) \<Rightarrow> 's action" where
  "always a f s = bind_outcome (a s) (\<lambda>(r, s1). Ret (r, f s1))"

definition wrapped :: "string \<Rightarrow> 's action \<Rightarrow> 's action" where
  "wrapped msg a s = bind_outcome (a s) (\<lambda>(r, s1). Ret (map_option (\<lambda>_. ErrText msg) r, s1))"

definition on_pool :: "(thin_pool \<Rightarrow> err option \<times> thin_pool) \<Rightarrow> 'w step" where
  "on_pool f s = (case f (bs_pool s) of (r, p) \<Rightarrow> Ret (r, s\<lparr>bs_pool := p\<rparr>))"

definition on_pool_out :: "(thin_pool \<Rightarrow> (err option \<times> thin_pool) outcome) \<Rightarrow> 'w step" where
  "on_pool_out f s = bind_outcome (f (bs_pool s)) (\<lambda>(r, p). Ret (r, s\<lparr>bs_pool := p\<rparr>))"

definition devs_of :: "(device_set \<Rightarrow> err option \<times> device_set) \<Rightarrow> thin_pool \<Rightarrow> err option \<times> thin_pool" where
  "devs_of f p = (case f (tp_ds p) of (r, ds) \<Rightarrow> (r, p\<lparr>tp_ds := ds\<rparr>))"

section \<open>Names, commands and file systems\<close>

definition getDevName :: "string \<Rightarrow> string" where
  "getDevName name = ''/dev/mapper/'' @ name"

definition info_Name :: "'w base_set \<Rightarrow> string \<Rightarrow> string" where
  "info_Name s hash = bs_devicePrefix s @ ''-'' @ (if hash = [] then ''base'' else hash)"

definition DevName :: "'w base_set \<Rightarrow> string \<Rightarrow> string" where
  "DevName s hash = getDevName (info_Name s hash)"

definition joinMountOptions :: "string \<Rightarrow> string \<Rightarrow> string" where
  "joinMountOptions a b = (if a = [] then b else if b = [] then a else a @ '','' @ b)"

definition exec_Output :: "string list \<Rightarrow> 'w base_set \<Rightarrow> string res \<times> 'w base_set" where
  "exec_Output cmd s =
     (case sy_run (bs_sys s) cmd (bs_world s) of
        (r, w) \<Rightarrow> (r, s\<lparr>bs_world := w, bs_log := cmd # bs_log s\<rparr>))"

definition exec_Run :: "string list \<Rightarrow> 'w step" where
  "exec_Run cmd s =
     (case exec_Output cmd s of (Inl e, s1) \<Rightarrow> Ret (Some e, s1) | (Inr _, s1) \<Rightarrow> Ret (None, s1))"

definition blkid_cmd :: "string \<Rightarrow> string list" where
  "blkid_cmd dev = [''blkid'', ''-s'', ''UUID'', ''-o'', ''value'', dev]"

definition trim_uuid :: "string \<Rightarrow> string" where
  "trim_uuid out = TrimSpace (if suffix [byte 10] out then butlast out else out)"

definition getDeviceUUID :: "string \<Rightarrow> 'w base_set \<Rightarrow> string res \<times> 'w base_set" where
  "getDeviceUUID dev s =
     (case exec_Output (blkid_cmd dev) s of
        (Inl e, s1) \<Rightarrow> (Inl (ErrText ''devmapper: Failed to find uuid for device''), s1)
      | (Inr out, s1) \<Rightarrow> (Inr (trim_uuid out), s1))"

text \<open>The magic strings \<open>ProbeFsType\<close> looks for, with their offsets.\<close>

definition probes :: "(string \<times> bytes \<times> nat) list" where
  "probes = [(''btrfs'', ''_BHRfS_M'', 65600), (''ext4'', [byte 83, byte 239], 1080), (''xfs'', ''XFSB'', 0)]"

definition probe_len :: nat where
  "probe_len = fold (\<lambda>(_, magic, off) l. max l (off + length magic)) probes 0"

definition ProbeFsType :: "string \<Rightarrow> 'w base_set \<Rightarrow> string res" where
  "ProbeFsType dev s =
     (case sy_device (bs_sys s) dev (bs_world s) of
        Inl e \<Rightarrow> Inl e
      | Inr content \<Rightarrow>
          (let buffer = take probe_len content
           in if buffer = [] then Inl EOF
              else if length buffer \<noteq> probe_len then Inl (ErrText ''devmapper: unable to detect filesystem type, short read'')
              else
                (case find (\<lambda>(_, magic, off). take (length magic) (drop off buffer) = magic) probes of
                   Some (name, _) \<Rightarrow> Inr name
                 | None \<Rightarrow> Inl (ErrText ''devmapper: Unknown filesystem type''))))"

text \<open>
  The lines a \<open>bufio.Scanner\<close> gives: a line that does not fit its buffer of 64 kB ends the scan, an empty
  last line is none, and a carriage return at the end of a line is dropped.
\<close>

definition scan_lines :: "string \<Rightarrow> string list" where
  "scan_lines t =
     (let ls = split_on (byte 10) t;
          ls' = (if last ls = [] then butlast ls else ls)
      in map (\<lambda>l. if suffix [byte 13] l then butlast l else l) (takeWhile (\<lambda>l. length l < 65536) ls'))"

definition xfsSupported :: "'w base_set \<Rightarrow> bool \<times> 'w base_set" where
  "xfsSupported s =
     (if \<not> sy_lookPath (bs_sys s) ''mkfs.xfs'' then (False, s)
      else
        (let s1 = snd (exec_Output [''modprobe'', ''xfs''] s)
         in case sy_procFilesystems (bs_sys s1) (bs_world s1) of
              Inl e \<Rightarrow> (False, s1)
            | Inr t \<Rightarrow> (list_ex (suffix (byte 9 # ''xfs'')) (scan_lines t), s1)))"

definition determineDefaultFS :: "'w base_set \<Rightarrow> string \<times> 'w base_set" where
  "determineDefaultFS s = (case xfsSupported s of (b, s1) \<Rightarrow> (if b then ''xfs'' else ''ext4'', s1))"

section \<open>The metadata of the device set\<close>

definition encode_set :: "'w base_set \<Rightarrow> json" where
  "encode_set s =
     JObj [(''next_device_id'', JInt (tp_NextDeviceID (bs_pool s))),
           (''BaseDeviceUUID'', JStr (coerce_utf8 (bs_BaseDeviceUUID s))),
           (''BaseDeviceFilesystem'', JStr (coerce_utf8 (bs_BaseDeviceFilesystem s)))]"

definition saveDeviceSetMetaData :: "'w step" where
  "saveDeviceSetMetaData s = on_pool (writeMetaFile (encode_set s) deviceSetMetaFile) s"

definition decode_set_field :: "string \<times> json \<Rightarrow> 'w base_set \<times> err option \<Rightarrow> 'w base_set \<times> err option" where
  "decode_set_field kv st =
     (let s = fst st; k = fold_key (fst kv); j = snd kv
      in if k = ''next_device_id'' then
           keep_first st (map_sum id (\<lambda>v. s\<lparr>bs_pool := (bs_pool s)\<lparr>tp_NextDeviceID := v\<rparr>\<rparr>)
             (decode_goint j (tp_NextDeviceID (bs_pool s))))
         else if k = ''basedeviceuuid'' then
           keep_first st (map_sum id (\<lambda>v. s\<lparr>bs_BaseDeviceUUID := v\<rparr>) (decode_string j (bs_BaseDeviceUUID s)))
         else if k = ''basedevicefilesystem'' then
           keep_first st (map_sum id (\<lambda>v. s\<lparr>bs_BaseDeviceFilesystem := v\<rparr>)
             (decode_string j (bs_BaseDeviceFilesystem s)))
         else st)"

text \<open>Unmarshalling into the struct itself: \<open>null\<close> leaves it alone.\<close>

definition loadDeviceSetMetaData :: "'w step" where
  "loadDeviceSetMetaData s =
     (case read_meta deviceSetMetaFile (bs_pool s) of
        Inl e \<Rightarrow> Ret (if os_IsNotExist e then None else Some e, s)
      | Inr (JsonDoc JNull) \<Rightarrow> Ret (None, s)
      | Inr (JsonDoc (JObj kvs)) \<Rightarrow> (case fold decode_set_field kvs (s, None) of (s1, r) \<Rightarrow> Ret (r, s1))
      | Inr _ \<Rightarrow> Ret (Some ErrUnmarshalType, s))"

definition saveBaseDeviceFilesystem :: "string \<Rightarrow> 'w step" where
  "saveBaseDeviceFilesystem fs s = saveDeviceSetMetaData (s\<lparr>bs_BaseDeviceFilesystem := fs\<rparr>)"

section \<open>Activating, verifying, creating\<close>

definition mount_side :: "thin_info \<Rightarrow> devInfo" where
  "mount_side info = \<lparr>di_Deleted = ti_Deleted info, di_mountCount = 0, di_mountPath = []\<rparr>"

definition activate_thin :: "thin_info \<Rightarrow> 'w step" where
  "activate_thin info = on_pool (devs_of (activateDeviceIfNeeded (ti_Hash info) (mount_side info) False))"

definition deactivate_thin :: "thin_info \<Rightarrow> 'w base_set \<Rightarrow> 'w base_set" where
  "deactivate_thin info s = s\<lparr>bs_pool := snd (devs_of (deactivateDevice (ti_Hash info)) (bs_pool s))\<rparr>"

definition store_uuid :: "thin_info \<Rightarrow> 'w step" where
  "store_uuid info s =
     (case getDeviceUUID (DevName s (ti_Hash info)) s of
        (Inl e, s1) \<Rightarrow> Ret (Some e, s1)
      | (Inr uuid, s1) \<Rightarrow> saveDeviceSetMetaData (s1\<lparr>bs_BaseDeviceUUID := uuid\<rparr>))"

definition saveBaseDeviceUUID :: "thin_info \<Rightarrow> 'w step" where
  "saveBaseDeviceUUID info = seq (activate_thin info) (always (store_uuid info) (deactivate_thin info))"

definition probe_fs :: "thin_info \<Rightarrow> 'w step" where
  "probe_fs info s =
     (if bs_BaseDeviceFilesystem s \<noteq> [] then Ret (None, s)
      else
        (case ProbeFsType (DevName s (ti_Hash info)) s of
           Inl e \<Rightarrow> Ret (Some e, s)
         | Inr fsType \<Rightarrow> saveBaseDeviceFilesystem fsType s))"

definition verify_uuid :: "thin_info \<Rightarrow> 'w step" where
  "verify_uuid info s =
     (case getDeviceUUID (DevName s (ti_Hash info)) s of
        (Inl e, s1) \<Rightarrow> Ret (Some e, s1)
      | (Inr uuid, s1) \<Rightarrow>
          if bs_BaseDeviceUUID s1 \<noteq> uuid then
            Ret (Some (ErrText ''devmapper: Current Base Device UUID does not match with stored UUID''), s1)
          else seq (probe_fs info) (\<lambda>s2. Ret (None, s2\<lparr>bs_filesystem := bs_BaseDeviceFilesystem s2\<rparr>)) s1)"

definition verifyBaseDeviceUUIDFS :: "thin_info \<Rightarrow> 'w step" where
  "verifyBaseDeviceUUIDFS info = seq (activate_thin info) (always (verify_uuid info) (deactivate_thin info))"

definition setupVerifyBaseImageUUIDFS :: "thin_info \<Rightarrow> 'w step" where
  "setupVerifyBaseImageUUIDFS info s =
     (if bs_BaseDeviceUUID s = []
      then wrapped ''devmapper: Could not query and save base device UUID'' (saveBaseDeviceUUID info) s
      else wrapped ''devmapper: Base Device UUID and Filesystem verification failed'' (verifyBaseDeviceUUIDFS info) s)"

definition make_fs :: "string \<Rightarrow> string list \<Rightarrow> string \<Rightarrow> 'w step" where
  "make_fs fs args dev s =
     (if fs = ''xfs'' then exec_Run (''mkfs.xfs'' # args) s
      else if fs = ''ext4'' then
        bind_outcome (exec_Run ([''mkfs.ext4'', ''-E'', ''nodiscard,lazy_itable_init=0,lazy_journal_init=0''] @ args) s)
          (\<lambda>(r, s1). seq
             (\<lambda>s2. case r of None \<Rightarrow> Ret (None, s2)
                | Some _ \<Rightarrow> exec_Run ([''mkfs.ext4'', ''-E'', ''nodiscard,lazy_itable_init=0''] @ args) s2)
             (exec_Run [''tune2fs'', ''-c'', ''-1'', ''-i'', ''0'', dev]) s1)
      else Ret (Some (ErrText (''devmapper: Unsupported filesystem type '' @ fs)), s))"

definition createFilesystem :: "thin_info \<Rightarrow> 'w step" where
  "createFilesystem info s =
     (let dev = DevName s (ti_Hash info);
          args = bs_mkfsArgs s @ [dev];
          s1 = (if bs_filesystem s = []
                then (case determineDefaultFS s of (fs, s') \<Rightarrow> s'\<lparr>bs_filesystem := fs\<rparr>) else s)
      in seq (saveBaseDeviceFilesystem (bs_filesystem s1)) (\<lambda>s2. make_fs (bs_filesystem s2) args dev s2) s1)"

text \<open>\<open>info\<close> is the pointer in the map of devices: its flag is set there, and reset when saving fails.\<close>

definition mark_initialized :: "thin_info \<Rightarrow> thin_pool \<Rightarrow> err option \<times> thin_pool" where
  "mark_initialized info p =
     (let info1 = info\<lparr>ti_Initialized := True\<rparr>
      in case saveMetadata info1 (set_thin info1 p) of
           (Some e, p1) \<Rightarrow> (Some e, set_thin info p1)
         | (None, p1) \<Rightarrow> (None, p1))"

definition createBaseImage :: "'w step" where
  "createBaseImage s =
     bind_outcome (createRegisterDevice [] (bs_pool s)) (\<lambda>(r, p).
       case r of
         Inl e \<Rightarrow> Ret (Some e, s\<lparr>bs_pool := p\<rparr>)
       | Inr info \<Rightarrow>
           seq (activate_thin info)
             (seq (createFilesystem info)
               (seq (on_pool (mark_initialized info))
                 (wrapped ''devmapper: Could not query and save base device UUID''
                   (saveBaseDeviceUUID (info\<lparr>ti_Initialized := True\<rparr>)))))
             (s\<lparr>bs_pool := p\<rparr>))"

section \<open>Growing\<close>

definition fsMountPoint :: string where "fsMountPoint = ''/run/docker/mnt''"

definition update_ds :: "(device_set \<Rightarrow> device_set) \<Rightarrow> 'w base_set \<Rightarrow> 'w base_set" where
  "update_ds f s = s\<lparr>bs_pool := (bs_pool s)\<lparr>tp_ds := f (tp_ds (bs_pool s))\<rparr>\<rparr>"

text \<open>
  \<open>os.RemoveAll\<close> on the mount point: while a device is still mounted there, its files go and the
  directory stays.
\<close>

definition remove_mnt :: "'w base_set \<Rightarrow> 'w base_set" where
  "remove_mnt s =
     (if sy_rmMnt (bs_sys s) \<noteq> None then s
      else
        (case map_of (ds_kmounts (tp_ds (bs_pool s))) fsMountPoint of
           None \<Rightarrow> s\<lparr>bs_mnt := False\<rparr>
         | Some hash \<Rightarrow>
             update_ds (\<lambda>ds. ds\<lparr>ds_content := map (\<lambda>(h, files). (h, if h = hash then [] else files)) (ds_content ds)\<rparr>) s))"

definition resize_fs :: "thin_info \<Rightarrow> 'w step" where
  "resize_fs info s =
     (let dev = DevName s (ti_Hash info)
      in if bs_BaseDeviceFilesystem s = ''ext4'' then wrapped ''Failed to grow rootfs'' (exec_Run [''resize2fs'', dev]) s
         else if bs_BaseDeviceFilesystem s = ''xfs'' then wrapped ''Failed to grow rootfs'' (exec_Run [''xfs_growfs'', dev]) s
         else Ret (Some (ErrText (''Unsupported filesystem type '' @ bs_BaseDeviceFilesystem s)), s))"

definition grow_options :: "'w base_set \<Rightarrow> string" where
  "grow_options s =
     joinMountOptions (if bs_BaseDeviceFilesystem s = ''xfs'' then joinMountOptions [] ''nouuid'' else [])
       (bs_mountOptions s)"

definition grow_mounted :: "thin_info \<Rightarrow> 'w step" where
  "grow_mounted info s =
     (let ds = tp_ds (bs_pool s);
          r = (if fsMountPoint \<in> fst ` set (ds_kmounts ds) then None
               else sy_mount (bs_sys s) (DevName s (ti_Hash info)) (bs_BaseDeviceFilesystem s) (grow_options s) (bs_world s))
      in case r of
           Some e \<Rightarrow> Ret (Some (ErrText ''Error mounting''), s)
         | None \<Rightarrow>
             always (resize_fs info) (update_ds (\<lambda>ds. snd (kumount fsMountPoint ds)))
               (update_ds (mount_Mount fsMountPoint (ti_Hash info)) s))"

definition grow_at :: "thin_info \<Rightarrow> 'w step" where
  "grow_at info s =
     (if (case sy_statMnt (bs_sys s) of Some e \<Rightarrow> os_IsNotExist e | None \<Rightarrow> \<not> bs_mnt s)
      then
        (case sy_mkdirMnt (bs_sys s) of
           Some e \<Rightarrow> Ret (Some e, s)
         | None \<Rightarrow> always (grow_mounted info) remove_mnt (s\<lparr>bs_mnt := True\<rparr>))
      else grow_mounted info s)"

definition growFS :: "thin_info \<Rightarrow> 'w step" where
  "growFS info =
     seq (wrapped ''Error activating devmapper device'' (activate_thin info))
       (always (grow_at info) (deactivate_thin info))"

text \<open>
  The repeated calls of \<open>getBaseDeviceSize\<close> find the device in the map after the first, so one call
  stands for them all.
\<close>

definition resize_base :: "thin_info \<Rightarrow> 'w step" where
  "resize_base info s =
     (let info1 = info\<lparr>ti_Size := tp_baseFsSize (bs_pool s)\<rparr>
      in seq (on_pool (\<lambda>p. case saveMetadata info1 (set_thin info1 p) of
                 (Some e, p1) \<Rightarrow> (Some e, p1\<lparr>tp_Devices := AList.delete (ti_Hash info) (tp_Devices p1)\<rparr>)
               | (None, p1) \<Rightarrow> (None, p1)))
           (growFS info1) s)"

definition checkGrowBaseDeviceFS :: "thin_info \<Rightarrow> 'w step" where
  "checkGrowBaseDeviceFS info s =
     (if \<not> bs_userBaseSize s then Ret (None, s)
      else
        bind_outcome (getBaseDeviceSize (bs_pool s)) (\<lambda>(sz, p).
          (let s1 = s\<lparr>bs_pool := p\<rparr>
           in if tp_baseFsSize p < sz then Ret (Some (ErrText ''devmapper: Base device size cannot be smaller''), s1)
              else if tp_baseFsSize p = sz then Ret (None, s1)
              else resize_base info s1)))"

section \<open>Setting up\<close>

definition poolStatus :: "'w base_set \<Rightarrow> (64 word \<times> pool_usage) res" where
  "poolStatus s =
     (case tp_faults (bs_pool s) PoolStatus of
        Some e \<Rightarrow> Inl e
      | None \<Rightarrow> (case bs_usage s of Inl e \<Rightarrow> Inl e | Inr u \<Rightarrow> Inr (dk_tid (tp_disk (bs_pool s)), u)))"

definition checkThinPool :: "'w step" where
  "checkThinPool s =
     (case poolStatus s of
        Inl e \<Rightarrow> Ret (Some e, s)
      | Inr (transactionID, u) \<Rightarrow>
          if pu_dataUsed u \<noteq> 0 then
            Ret (Some (ErrText ''devmapper: Unable to take ownership of thin-pool that already has used data blocks''), s)
          else if transactionID \<noteq> 0 then
            Ret (Some (ErrText ''devmapper: Unable to take ownership of thin-pool with non-zero transaction ID''), s)
          else Ret (None, s))"

definition setupBaseImage :: "'w step" where
  "setupBaseImage s =
     bind_outcome (thin_lookupDevice [] (bs_pool s)) (\<lambda>(r, p).
       (let s1 = s\<lparr>bs_pool := p\<rparr>
        in case r of
             Inr oldInfo \<Rightarrow>
               if ti_Initialized oldInfo \<and> \<not> ti_Deleted oldInfo then
                 seq (setupVerifyBaseImageUUIDFS oldInfo) (checkGrowBaseDeviceFS oldInfo) s1
               else seq (on_pool_out (thin_DeleteDevice [] True)) createBaseImage s1
           | Inl _ \<Rightarrow>
               if bs_thinPoolDevice s1 \<noteq> [] then seq checkThinPool createBaseImage s1
               else createBaseImage s1))"

end
