(* ===== verification/BaseImageSpec.thy ===== *)
theory BaseImageSpec
  imports BaseImage ThinPoolCrash
begin

text \<open>
  What setting up the base image guarantees.  Steps are reasoned about with triples: \<open>valid P a Q E\<close> says
  that from a state with \<open>P\<close> the step leads to one with \<open>Q\<close> when it returns nil and to one with \<open>E\<close> when it
  returns an error.
\<close>

section \<open>Triples\<close>

definition valid :: "('s \<Rightarrow> bool) \<Rightarrow> 's action \<Rightarrow> ('s \<Rightarrow> bool) \<Rightarrow> ('s \<Rightarrow> bool) \<Rightarrow> bool" where
  "valid P a Q E \<longleftrightarrow> (\<forall>s r s'. P s \<longrightarrow> a s = Ret (r, s') \<longrightarrow> (if r = None then Q s' else E s'))"

lemma validI: "(\<And>s r s'. P s \<Longrightarrow> a s = Ret (r, s') \<Longrightarrow> if r = None then Q s' else E s') \<Longrightarrow> valid P a Q E"
  by (simp add: valid_def)

lemma validD: "valid P a Q E \<Longrightarrow> P s \<Longrightarrow> a s = Ret (r, s') \<Longrightarrow> if r = None then Q s' else E s'"
  by (simp add: valid_def)

lemma valid_weaken:
  "valid P a Q E \<Longrightarrow> (\<And>s. P' s \<Longrightarrow> P s) \<Longrightarrow> (\<And>s. Q s \<Longrightarrow> Q' s) \<Longrightarrow> (\<And>s. E s \<Longrightarrow> E' s) \<Longrightarrow> valid P' a Q' E'"
  unfolding valid_def by (metis (full_types))

lemma valid_seq: "valid P a R E \<Longrightarrow> valid R b Q E \<Longrightarrow> valid P (seq a b) Q E"
  unfolding valid_def seq_def
  by (auto elim!: bind_outcomeE split: option.splits; metis (full_types) option.distinct(1))

lemma valid_always:
  "valid P a (\<lambda>s. Q (f s)) (\<lambda>s. E (f s)) \<Longrightarrow> valid P (always a f) Q E"
  unfolding valid_def always_def by (auto elim!: bind_outcomeE)

lemma valid_if: "valid P a Q E \<Longrightarrow> valid P b Q E \<Longrightarrow> valid P (\<lambda>s. if c s then a s else b s) Q E"
  by (auto simp: valid_def)

lemma valid_wrapped: "valid P a Q E \<Longrightarrow> valid P (wrapped msg a) Q E"
  unfolding valid_def wrapped_def by (auto elim!: bind_outcomeE)

lemma valid_on_pool:
  "(\<And>s r p. P s \<Longrightarrow> f (bs_pool s) = (r, p) \<Longrightarrow> if r = None then Q (s\<lparr>bs_pool := p\<rparr>) else E (s\<lparr>bs_pool := p\<rparr>)) \<Longrightarrow>
     valid P (on_pool f) Q E"
  unfolding valid_def on_pool_def by (auto split: prod.splits)

text \<open>A step that keeps a property, whatever it returns.\<close>

definition keeps :: "('s \<Rightarrow> bool) \<Rightarrow> 's action \<Rightarrow> bool" where
  "keeps I a \<longleftrightarrow> (\<forall>s r s'. I s \<longrightarrow> a s = Ret (r, s') \<longrightarrow> I s')"

lemma keepsI: "(\<And>s r s'. I s \<Longrightarrow> a s = Ret (r, s') \<Longrightarrow> I s') \<Longrightarrow> keeps I a"
  by (auto simp: keeps_def)

lemma keepsD: "keeps I a \<Longrightarrow> a s = Ret (r, s') \<Longrightarrow> I s \<Longrightarrow> I s'"
  by (auto simp: keeps_def)

lemma valid_keeps: "keeps I a \<Longrightarrow> valid I a I I"
  by (auto simp: keeps_def valid_def)

lemma seqE:
  assumes "seq a b s = Ret (r, s')"
  obtains (first) e where "a s = Ret (Some e, s')" and "r = Some e"
  | (second) s1 where "a s = Ret (None, s1)" and "b s1 = Ret (r, s')"
  using assms by (auto simp: seq_def simp del: bind_outcome_eq_Ret elim!: bind_outcomeE split: option.splits)

lemma keeps_seq: "keeps I a \<Longrightarrow> keeps I b \<Longrightarrow> keeps I (seq a b)"
  by (rule keepsI) (erule seqE; blast dest: keepsD)

lemma keeps_always: "keeps I a \<Longrightarrow> (\<And>s. I (f s) = I s) \<Longrightarrow> keeps I (always a f)"
  unfolding keeps_def always_def by (auto elim!: bind_outcomeE)

lemma keeps_wrapped: "keeps I a \<Longrightarrow> keeps I (wrapped msg a)"
  unfolding keeps_def wrapped_def by (auto elim!: bind_outcomeE)


section \<open>Frames of the steps\<close>

abbreviation base_of :: "'w base_set \<Rightarrow> thin_info option" where
  "base_of s \<equiv> map_of (tp_Devices (bs_pool s)) []"

text \<open>
  \<open>kept D s0 s\<close>: since \<open>s0\<close> the pool lost and gained no device, only the file of the device set and those
  named in \<open>D\<close> may have changed, and no file system was made.
\<close>

definition kept :: "string set \<Rightarrow> 'w base_set \<Rightarrow> 'w base_set \<Rightarrow> bool" where
  "kept D s0 s \<longleftrightarrow>
     same_pool (tp_disk (bs_pool s0)) (tp_disk (bs_pool s)) \<and>
     (\<forall>name. name \<noteq> deviceSetMetaFile \<longrightarrow> name \<notin> D \<longrightarrow>
        vfile (tp_disk (bs_pool s)) name = vfile (tp_disk (bs_pool s0)) name) \<and>
     (\<exists>cmds. bs_log s = cmds @ bs_log s0 \<and> (\<forall>c \<in> set cmds. hd c \<in> {''blkid'', ''resize2fs'', ''xfs_growfs''})) \<and>
     tp_baseFsSize (bs_pool s) = tp_baseFsSize (bs_pool s0) \<and> bs_userBaseSize s = bs_userBaseSize s0 \<and>
     bs_sys s = bs_sys s0 \<and> bs_devicePrefix s = bs_devicePrefix s0"

lemma keptD:
  assumes "kept D s0 s"
  shows "same_pool (tp_disk (bs_pool s0)) (tp_disk (bs_pool s))"
    and "name \<noteq> deviceSetMetaFile \<Longrightarrow> name \<notin> D \<Longrightarrow> vfile (tp_disk (bs_pool s)) name = vfile (tp_disk (bs_pool s0)) name"
  using assms by (simp_all add: kept_def)

lemma kept_refl [simp]: "kept D s s"
  by (simp add: kept_def)

lemma same_pool_trans: "same_pool a b \<Longrightarrow> same_pool b c \<Longrightarrow> same_pool a c"
  by (simp add: same_pool_def)

lemma kept_devs [simp]:
  "kept D s0 (s\<lparr>bs_pool := (bs_pool s)\<lparr>tp_ds := ds\<rparr>\<rparr>) = kept D s0 s"
  "kept D s0 (s\<lparr>bs_pool := (bs_pool s)\<lparr>tp_Devices := devs\<rparr>\<rparr>) = kept D s0 s"
  "kept D s0 (s\<lparr>bs_BaseDeviceUUID := u\<rparr>) = kept D s0 s" "kept D s0 (s\<lparr>bs_BaseDeviceFilesystem := f\<rparr>) = kept D s0 s"
  "kept D s0 (s\<lparr>bs_filesystem := f\<rparr>) = kept D s0 s" "kept D s0 (s\<lparr>bs_mnt := b\<rparr>) = kept D s0 s"
  by (simp_all add: kept_def)

lemma kept_ds_simps [simp]: "kept D s0 (update_ds f s) = kept D s0 s" "base_of (update_ds f s) = base_of s"
  by (simp_all add: update_ds_def)

text \<open>What the code learned from \<open>blkid\<close> about the base device.\<close>

definition confirmed :: "'w base_set \<Rightarrow> bool" where
  "confirmed s \<longleftrightarrow>
     (\<exists>w out w'. sy_run (bs_sys s) (blkid_cmd (DevName s [])) w = (Inr out, w') \<and> bs_BaseDeviceUUID s = trim_uuid out)"

lemma DevName_cong: "bs_devicePrefix s = bs_devicePrefix s' \<Longrightarrow> DevName s = DevName s'"
  by (simp add: DevName_def info_Name_def fun_eq_iff)

lemma confirmed_simps [simp]:
  "confirmed (s\<lparr>bs_pool := p\<rparr>) = confirmed s" "confirmed (s\<lparr>bs_BaseDeviceFilesystem := f\<rparr>) = confirmed s"
  "confirmed (s\<lparr>bs_filesystem := f\<rparr>) = confirmed s" "confirmed (s\<lparr>bs_mnt := b\<rparr>) = confirmed s"
  "confirmed (s\<lparr>bs_world := w, bs_log := l\<rparr>) = confirmed s" "confirmed (update_ds g s) = confirmed s"
  by (simp_all add: confirmed_def update_ds_def DevName_def info_Name_def)

text \<open>The property that runs through the steps after the base device was looked up.\<close>

definition holds :: "string set \<Rightarrow> 'w base_set \<Rightarrow> thin_info \<Rightarrow> bool \<Rightarrow> 'w base_set \<Rightarrow> bool" where
  "holds D s0 info c s \<longleftrightarrow> kept D s0 s \<and> base_of s = Some info \<and> (c \<longrightarrow> confirmed s)"

lemma holds_simps [simp]:
  "holds D s0 i c (s\<lparr>bs_pool := (bs_pool s)\<lparr>tp_ds := ds\<rparr>\<rparr>) = holds D s0 i c s"
  "holds D s0 i c (s\<lparr>bs_BaseDeviceFilesystem := f\<rparr>) = holds D s0 i c s"
  "holds D s0 i c (s\<lparr>bs_filesystem := f\<rparr>) = holds D s0 i c s" "holds D s0 i c (s\<lparr>bs_mnt := b\<rparr>) = holds D s0 i c s"
  "holds D s0 i c (update_ds g s) = holds D s0 i c s"
  by (simp_all add: holds_def)

lemma holds_deactivate [simp]: "holds D s0 i c (deactivate_thin info s) = holds D s0 i c s"
  by (simp add: deactivate_thin_def devs_of_def split: prod.split)

lemma holds_remove_mnt [simp]: "holds D s0 i c (remove_mnt s) = holds D s0 i c s"
  by (simp add: remove_mnt_def split: option.split)

lemma holds_weaken: "holds D s0 i True s \<Longrightarrow> holds D s0 i False s"
  by (simp add: holds_def)

lemma holds_exec:
  assumes "exec_Output cmd s = (r, s')" and "holds D s0 i c s" and "hd cmd \<in> {''blkid'', ''resize2fs'', ''xfs_growfs''}"
  shows "holds D s0 i c s'"
proof -
  obtain w where s': "s' = s\<lparr>bs_world := w, bs_log := cmd # bs_log s\<rparr>"
    using assms(1) by (auto simp: exec_Output_def split: prod.splits)
  obtain cmds where "bs_log s = cmds @ bs_log s0" "\<forall>c \<in> set cmds. hd c \<in> {''blkid'', ''resize2fs'', ''xfs_growfs''}"
    using assms(2) by (auto simp: holds_def kept_def)
  then have "\<exists>cmds. cmd # bs_log s = cmds @ bs_log s0 \<and> (\<forall>c \<in> set cmds. hd c \<in> {''blkid'', ''resize2fs'', ''xfs_growfs''})"
    using assms(3) by (intro exI [of _ "cmd # cmds"]) auto
  then show ?thesis using assms(2) by (simp add: s' holds_def kept_def)
qed

lemma visible_names: "\<not> prefix ''.'' deviceSetMetaFile" "\<not> prefix ''.'' ''base''" "deviceSetMetaFile \<noteq> ''base''" "transactionMetaFile \<noteq> ''base''"
  by code_simp+

text \<open>Saving a metadata file that may change, from any pool that differs from the one of \<open>s\<close> in memory only.\<close>

lemma kept_write:
  assumes "writeMetaFile j file p = (r, p')" and "kept D s0 s" and "file \<in> insert deviceSetMetaFile D" and "\<not> prefix ''.'' file"
    and "p = (bs_pool s)\<lparr>tp_Devices := devs\<rparr>"
  shows "kept D s0 (s\<lparr>bs_pool := p'\<rparr>)" and "tp_Devices p' = devs"
proof -
  note W = writeMetaFile_steps(1-3) [OF assms(1,4)]
  obtain d t where p': "p' = p\<lparr>tp_disk := d, tp_trace := t\<rparr>" using W(1) by (auto simp: only_disk_def)
  show "tp_Devices p' = devs" by (simp add: p' assms(5))
  have d: "tp_disk p' = d" "tp_disk p = tp_disk (bs_pool s)" by (simp_all add: p' assms(5))
  have "same_pool (tp_disk (bs_pool s0)) d"
    using same_pool_trans keptD(1) [OF assms(2)] W(2) unfolding d by blast
  moreover have "name \<noteq> deviceSetMetaFile \<longrightarrow> name \<notin> D \<longrightarrow> vfile d name = vfile (tp_disk (bs_pool s0)) name" for name
    using W(3) [unfolded d] keptD(2) [OF assms(2), of name] assms(3) by (cases "r = None") auto
  ultimately show "kept D s0 (s\<lparr>bs_pool := p'\<rparr>)" using assms(2) by (simp add: p' assms(5) kept_def)
qed

lemma holds_save: "keeps (holds D s0 i c) saveDeviceSetMetaData"
proof (rule keepsI)
  fix s r s' assume h: "holds D s0 i c s" and r: "saveDeviceSetMetaData s = Ret (r, s')"
  obtain p where w: "writeMetaFile (encode_set s) deviceSetMetaFile (bs_pool s) = (r, p)" "s' = s\<lparr>bs_pool := p\<rparr>"
    using r by (auto simp: saveDeviceSetMetaData_def on_pool_def split: prod.splits)
  from kept_write [OF w(1), of D s0 s "tp_Devices (bs_pool s)"] h visible_names(1)
  show "holds D s0 i c s'" by (simp add: holds_def w(2))
qed

lemma holds_activate: "keeps (holds D s0 i c) (activate_thin info)"
  by (rule keepsI) (auto simp: activate_thin_def on_pool_def devs_of_def split: prod.splits)


section \<open>Verifying and growing\<close>

lemma holds_UUID [simp]: "holds D s0 i False (s\<lparr>bs_BaseDeviceUUID := u\<rparr>) = holds D s0 i False s"
  by (simp add: holds_def)

lemma getDeviceUUID_holds:
  assumes "getDeviceUUID (DevName s []) s = (r, s')" and "holds D s0 i c s"
  shows "holds D s0 i c s'" and "bs_BaseDeviceUUID s' = bs_BaseDeviceUUID s"
    and "r = Inr uuid \<Longrightarrow> confirmed (s'\<lparr>bs_BaseDeviceUUID := uuid\<rparr>)"
proof -
  obtain q where e: "exec_Output (blkid_cmd (DevName s [])) s = (q, s')"
    and r: "r = (case q of Inl e \<Rightarrow> Inl (ErrText ''devmapper: Failed to find uuid for device'') | Inr out \<Rightarrow> Inr (trim_uuid out))"
    using assms(1) by (auto simp: getDeviceUUID_def split: prod.splits sum.splits)
  show "holds D s0 i c s'" by (rule holds_exec [OF e assms(2)]) (simp add: blkid_cmd_def)
  show "bs_BaseDeviceUUID s' = bs_BaseDeviceUUID s" using e by (auto simp: exec_Output_def split: prod.splits)
  show "r = Inr uuid \<Longrightarrow> confirmed (s'\<lparr>bs_BaseDeviceUUID := uuid\<rparr>)"
    using e r by (fastforce simp: exec_Output_def confirmed_def DevName_def info_Name_def split: prod.splits sum.splits)
qed

lemma holds_store:
  assumes "ti_Hash info = []"
  shows "valid (holds D s0 i c) (store_uuid info) (holds D s0 i True) (holds D s0 i False)"
proof (rule validI)
  fix s r s' assume h: "holds D s0 i c s" and r: "store_uuid info s = Ret (r, s')"
  obtain q s1 where g: "getDeviceUUID (DevName s []) s = (q, s1)" by fastforce
  have h1: "holds D s0 i False s1" using getDeviceUUID_holds(1) [OF g h] by (simp add: holds_def)
  show "if r = None then holds D s0 i True s' else holds D s0 i False s'"
  proof (cases q)
    case (Inl e)
    with g r assms h1 show ?thesis by (auto simp: store_uuid_def)
  next
    case (Inr uuid)
    from Inr g h have "holds D s0 i True (s1\<lparr>bs_BaseDeviceUUID := uuid\<rparr>)"
      using h1 getDeviceUUID_holds(3) [OF g h] by (simp add: holds_def)
    with Inr g r assms keepsD [OF holds_save, of "s1\<lparr>bs_BaseDeviceUUID := uuid\<rparr>" r s' D s0 i True]
    show ?thesis by (auto simp: store_uuid_def holds_def split: if_splits)
  qed
qed

lemma holds_probe: "keeps (holds D s0 i c) (probe_fs info)"
proof (rule keepsI)
  fix s r s' assume h: "holds D s0 i c s" and r: "probe_fs info s = Ret (r, s')"
  from r consider "s' = s" | f where "saveDeviceSetMetaData (s\<lparr>bs_BaseDeviceFilesystem := f\<rparr>) = Ret (r, s')"
    by (auto simp: probe_fs_def saveBaseDeviceFilesystem_def split: if_splits sum.splits)
  then show "holds D s0 i c s'"
    by cases (use h in \<open>auto dest: keepsD [OF holds_save, of _ _ _ D s0 i c]\<close>)
qed

lemma holds_verify:
  assumes "ti_Hash info = []"
  shows "valid (holds D s0 i c) (verify_uuid info) (holds D s0 i True) (holds D s0 i False)"
proof (rule validI)
  fix s r s' assume h: "holds D s0 i c s" and r: "verify_uuid info s = Ret (r, s')"
  obtain q s1 where g: "getDeviceUUID (DevName s []) s = (q, s1)" by fastforce
  note G = getDeviceUUID_holds [OF g h]
  have h1: "holds D s0 i False s1" using G(1) by (simp add: holds_def)
  show "if r = None then holds D s0 i True s' else holds D s0 i False s'"
  proof (cases "\<exists>uuid. q = Inr uuid \<and> bs_BaseDeviceUUID s1 = uuid")
    case False
    with g r assms h1 show ?thesis by (auto simp: verify_uuid_def split: sum.splits)
  next
    case True
    then obtain uuid where q: "q = Inr uuid" "bs_BaseDeviceUUID s1 = uuid" by blast
    have "s1\<lparr>bs_BaseDeviceUUID := uuid\<rparr> = s1" using q(2) by simp
    with G(3) [OF q(1)] h1 have t: "holds D s0 i True s1" by (simp add: holds_def)
    have v: "keeps (holds D s0 i True) (seq (probe_fs info) (\<lambda>s2. Ret (None, s2\<lparr>bs_filesystem := bs_BaseDeviceFilesystem s2\<rparr>)))"
      by (rule keeps_seq [OF holds_probe], rule keepsI) auto
    have "seq (probe_fs info) (\<lambda>s2. Ret (None, s2\<lparr>bs_filesystem := bs_BaseDeviceFilesystem s2\<rparr>)) s1 = Ret (r, s')"
      using g r assms q by (simp add: verify_uuid_def)
    from keepsD [OF v this t] have "holds D s0 i True s'" .
    with holds_weaken [OF this] show ?thesis by simp
  qed
qed

lemma holds_saveUUID:
  assumes "ti_Hash info = []"
  shows "valid (holds D s0 i False) (saveBaseDeviceUUID info) (holds D s0 i True) (holds D s0 i False)"
  unfolding saveBaseDeviceUUID_def
  by (rule valid_seq [OF valid_keeps [OF holds_activate] valid_always]) (use holds_store [OF assms] in simp)

lemma holds_setupVerify:
  assumes "ti_Hash info = []"
  shows "valid (holds D s0 i False) (setupVerifyBaseImageUUIDFS info) (holds D s0 i True) (holds D s0 i False)"
proof -
  have "valid (holds D s0 i False) (verifyBaseDeviceUUIDFS info) (holds D s0 i True) (holds D s0 i False)"
    unfolding verifyBaseDeviceUUIDFS_def
    by (rule valid_seq [OF valid_keeps [OF holds_activate] valid_always]) (use holds_verify [OF assms] in simp)
  with holds_saveUUID [OF assms] show ?thesis
    unfolding setupVerifyBaseImageUUIDFS_def [abs_def] by (intro valid_if valid_wrapped)
qed

lemma holds_run: "hd cmd \<in> {''blkid'', ''resize2fs'', ''xfs_growfs''} \<Longrightarrow> keeps (holds D s0 i c) (exec_Run cmd)"
  by (rule keepsI) (auto simp: exec_Run_def dest: holds_exec split: prod.splits sum.splits)

lemma holds_resize: "keeps (holds D s0 i c) (resize_fs info)"
proof (rule keepsI)
  fix s r s' assume h: "holds D s0 i c s" and r: "resize_fs info s = Ret (r, s')"
  have k: "keeps (holds D s0 i c) (wrapped msg (exec_Run [''resize2fs'', d]))"
    "keeps (holds D s0 i c) (wrapped msg (exec_Run [''xfs_growfs'', d]))" for msg d
    by (intro keeps_wrapped holds_run; simp)+
  from r h show "holds D s0 i c s'"
    by (auto simp: resize_fs_def Let_def dest: keepsD [OF k(1)] keepsD [OF k(2)] split: if_splits)
qed

lemma holds_grow_mounted: "keeps (holds D s0 i c) (grow_mounted info)"
proof (rule keepsI)
  fix s r s' assume h: "holds D s0 i c s" and r: "grow_mounted info s = Ret (r, s')"
  have v: "keeps (holds D s0 i c) (always (resize_fs info) (update_ds (\<lambda>ds. snd (kumount fsMountPoint ds))))"
    by (rule keeps_always [OF holds_resize]) simp
  from r h show "holds D s0 i c s'"
    by (auto simp: grow_mounted_def Let_def dest: keepsD [OF v] split: if_splits option.splits)
qed

lemma holds_growFS: "keeps (holds D s0 i c) (growFS info)"
proof -
  have m: "keeps (holds D s0 i c) (always (grow_mounted info) remove_mnt)"
    by (rule keeps_always [OF holds_grow_mounted]) simp
  have "keeps (holds D s0 i c) (grow_at info)"
    by (rule keepsI) (auto simp: grow_at_def dest: keepsD [OF m] keepsD [OF holds_grow_mounted] split: if_splits option.splits)
  then show ?thesis unfolding growFS_def
    by (intro keeps_seq keeps_wrapped keeps_always holds_activate) simp_all
qed


text \<open>The base device after set-up: the one from before, possibly larger.\<close>

definition grown :: "thin_info \<Rightarrow> thin_info \<Rightarrow> bool" where
  "grown info i \<longleftrightarrow> (\<exists>sz. ti_Size info \<le> sz \<and> i = info\<lparr>ti_Size := sz\<rparr>)"

lemma grown_refl [simp]: "grown info info"
  unfolding grown_def by (rule exI [of _ "ti_Size info"]) simp

definition base_kept :: "'w base_set \<Rightarrow> thin_info \<Rightarrow> 'w base_set \<Rightarrow> bool" where
  "base_kept s0 info s \<longleftrightarrow> kept {''base''} s0 s \<and> (\<forall>i. base_of s = Some i \<longrightarrow> grown info i)"

lemma resize_base_holds:
  assumes h: "holds {''base''} s0 info True s" and i: "ti_Hash info = []" and sz: "ti_Size info < tp_baseFsSize (bs_pool s)"
    and r: "resize_base info s = Ret (r, s')"
  shows "base_kept s0 info s'" and "r = None \<Longrightarrow> holds {''base''} s0 (info\<lparr>ti_Size := tp_baseFsSize (bs_pool s0)\<rparr>) True s'"
proof -
  let ?i = "info\<lparr>ti_Size := tp_baseFsSize (bs_pool s0)\<rparr>"
  have b: "tp_baseFsSize (bs_pool s) = tp_baseFsSize (bs_pool s0)" using h by (simp add: holds_def kept_def)
  have g: "grown info ?i" unfolding grown_def using sz b by (intro exI [of _ "tp_baseFsSize (bs_pool s0)"]) simp
  obtain er p where w: "writeMetaFile (encode_info ?i) ''base'' ((bs_pool s)\<lparr>tp_Devices := AList.update [] ?i (tp_Devices (bs_pool s))\<rparr>) = (er, p)"
    by fastforce
  have K: "kept {''base''} s0 (s\<lparr>bs_pool := p\<rparr>)" "tp_Devices p = AList.update [] ?i (tp_Devices (bs_pool s))"
    using kept_write [OF w, of "{''base''}" s0 s] h visible_names(2) by (auto simp: holds_def)
  have save: "saveMetadata ?i (set_thin ?i (bs_pool s)) = (er, p)"
    using w i by (simp add: saveMetadata_def set_thin_def metadataFile_def)
  have "base_kept s0 info s' \<and> (r = None \<longrightarrow> holds {''base''} s0 ?i True s')"
  proof (cases er)
    case (Some e)
    with r save b i have "s' = s\<lparr>bs_pool := p\<lparr>tp_Devices := AList.delete [] (tp_Devices p)\<rparr>\<rparr>" "r = Some e"
      by (auto simp: resize_base_def Let_def seq_def on_pool_def)
    moreover have "kept {''base''} s0 (s\<lparr>bs_pool := p\<lparr>tp_Devices := x\<rparr>\<rparr>)" for x using K(1) by (simp add: kept_def)
    ultimately show ?thesis by (simp add: base_kept_def delete_conv)
  next
    case None
    from r save b None have gr: "growFS ?i (s\<lparr>bs_pool := p\<rparr>) = Ret (r, s')"
      by (simp add: resize_base_def Let_def seq_def on_pool_def)
    have "holds {''base''} s0 ?i True (s\<lparr>bs_pool := p\<rparr>)" using K h by (simp add: holds_def update_conv)
    from keepsD [OF holds_growFS gr this] g show ?thesis by (simp add: holds_def base_kept_def)
  qed
  then show "base_kept s0 info s'" and "r = None \<Longrightarrow> holds {''base''} s0 ?i True s'" by blast+
qed

lemma checkGrow_holds:
  assumes h: "holds {''base''} s0 info True s" and i: "ti_Hash info = []"
    and r: "checkGrowBaseDeviceFS info s = Ret (r, s')"
  shows "base_kept s0 info s'"
    and "r = None \<Longrightarrow> \<exists>i. holds {''base''} s0 i True s' \<and> grown info i \<and> (bs_userBaseSize s0 \<longrightarrow> ti_Size i = tp_baseFsSize (bs_pool s0))"
proof -
  have c: "bs_userBaseSize s = bs_userBaseSize s0" "tp_baseFsSize (bs_pool s) = tp_baseFsSize (bs_pool s0)" "base_of s = Some info"
    using h by (simp_all add: holds_def kept_def)
  have k: "base_kept s0 info s" using h by (simp add: holds_def base_kept_def)
  have sz: "getBaseDeviceSize (bs_pool s) = Ret (ti_Size info, bs_pool s)"
    using c(3) by (simp add: getBaseDeviceSize_def thin_lookupDevice_def)
  have "base_kept s0 info s' \<and> (r = None \<longrightarrow>
      (\<exists>i. holds {''base''} s0 i True s' \<and> grown info i \<and> (bs_userBaseSize s0 \<longrightarrow> ti_Size i = tp_baseFsSize (bs_pool s0))))"
  proof (cases "bs_userBaseSize s \<and> ti_Size info < tp_baseFsSize (bs_pool s)")
    case False
    with r sz c have "s' = s" "r = None \<longrightarrow> \<not> bs_userBaseSize s0 \<or> ti_Size info = tp_baseFsSize (bs_pool s0)"
      by (auto simp: checkGrowBaseDeviceFS_def Let_def split: if_splits)
    with h k show ?thesis by (auto intro!: exI [of _ info])
  next
    case True
    then have "\<not> tp_baseFsSize (bs_pool s) < ti_Size info" "tp_baseFsSize (bs_pool s) \<noteq> ti_Size info" by auto
    with r sz True have rb: "resize_base info s = Ret (r, s')" by (simp add: checkGrowBaseDeviceFS_def Let_def)
    have "grown info (info\<lparr>ti_Size := tp_baseFsSize (bs_pool s0)\<rparr>)"
      unfolding grown_def using conjunct2 [OF True] c(2) by (intro exI [of _ "tp_baseFsSize (bs_pool s0)"]) simp
    with resize_base_holds [OF h i conjunct2 [OF True] rb] show ?thesis
      by (auto intro!: exI [of _ "info\<lparr>ti_Size := tp_baseFsSize (bs_pool s0)\<rparr>"])
  qed
  then show "base_kept s0 info s'" and "r = None \<Longrightarrow> \<exists>i. holds {''base''} s0 i True s' \<and> grown info i \<and> (bs_userBaseSize s0 \<longrightarrow> ti_Size i = tp_baseFsSize (bs_pool s0))"
    by blast+
qed

section \<open>An initialised base device\<close>

lemma fold_decode_hash: "ti_Hash (fst (fold decode_info_field kvs st)) = ti_Hash (fst st)"
proof (induction kvs arbitrary: st)
  case (Cons kv kvs)
  have "ti_Hash (fst (decode_info_field kv st)) = ti_Hash (fst st)"
    by (auto simp: decode_info_field_def Let_def keep_first_def map_sum_def split: sum.splits)
  with Cons show ?case by simp
qed simp

lemma lookup_base:
  assumes "thin_lookupDevice [] p = Ret (Inr info, p')" and "\<forall>i. map_of (tp_Devices p) [] = Some i \<longrightarrow> ti_Hash i = []"
  shows "ti_Hash info = []" and "map_of (tp_Devices p') [] = Some info" and "\<exists>devs. p' = p\<lparr>tp_Devices := devs\<rparr>"
proof -
  have "decode_info [] b = Ret (Some i) \<Longrightarrow> ti_Hash i = []" for b i
    using fold_decode_hash by (auto simp: decode_info_def Let_def split: blob.splits json.splits prod.splits option.splits if_splits)
      (metis fst_conv thin_info.select_convs(1))
  then have l: "loadMetadata [] p = Ret (Some i) \<Longrightarrow> ti_Hash i = []" for i
    by (auto simp: loadMetadata_def split: sum.splits)
  show "ti_Hash info = []" "map_of (tp_Devices p') [] = Some info"
    using assms l by (auto simp: thin_lookupDevice_def update_conv split: option.splits)
  show "\<exists>devs. p' = p\<lparr>tp_Devices := devs\<rparr>" using lookup_frame [OF assms(1)] by blast
qed

lemma setup_initialised:
  assumes r: "setupBaseImage s = Ret (r, s')" and l: "thin_lookupDevice [] (bs_pool s) = Ret (Inr info, p)"
    and i: "ti_Initialized info" "\<not> ti_Deleted info" and w: "\<forall>i. base_of s = Some i \<longrightarrow> ti_Hash i = []"
  shows "base_kept s info s'"
    and "r = None \<Longrightarrow> \<exists>i. holds {''base''} s i True s' \<and> grown info i \<and> (bs_userBaseSize s \<longrightarrow> ti_Size i = tp_baseFsSize (bs_pool s))"
proof -
  note L = lookup_base [OF l w]
  let ?s = "s\<lparr>bs_pool := p\<rparr>"
  have h: "holds {''base''} s info False ?s" using L by (auto simp: holds_def kept_def)
  have "seq (setupVerifyBaseImageUUIDFS info) (checkGrowBaseDeviceFS info) ?s = Ret (r, s')"
    using r l i by (simp add: setupBaseImage_def Let_def)
  then have "base_kept s info s' \<and> (r = None \<longrightarrow>
      (\<exists>i. holds {''base''} s i True s' \<and> grown info i \<and> (bs_userBaseSize s \<longrightarrow> ti_Size i = tp_baseFsSize (bs_pool s))))"
  proof (cases rule: seqE)
    case (first e)
    with validD [OF holds_setupVerify [OF L(1)] h first(1)] show ?thesis by (simp add: holds_def base_kept_def)
  next
    case (second s1)
    from validD [OF holds_setupVerify [OF L(1)] h second(1)] have "holds {''base''} s info True s1" by simp
    from checkGrow_holds [OF this L(1) second(2)] show ?thesis by blast
  qed
  then show "base_kept s info s'"
    and "r = None \<Longrightarrow> \<exists>i. holds {''base''} s i True s' \<and> grown info i \<and> (bs_userBaseSize s \<longrightarrow> ti_Size i = tp_baseFsSize (bs_pool s))"
    by blast+
qed

text \<open>
  C11: A base device that the set-up finds, initialised and not marked deleted, survives the start-up, whatever fails after its
  lookup: no file system is made, no thin device is created or deleted, no metadata file other than the base device's own and the
  one of the device set changes, and the base device never gets smaller.
\<close>

theorem base_image_survives:
  assumes "setupBaseImage s = Ret (r, s')" and "thin_lookupDevice [] (bs_pool s) = Ret (Inr info, p)"
    and "ti_Initialized info" and "\<not> ti_Deleted info" and "\<forall>i. base_of s = Some i \<longrightarrow> ti_Hash i = []"
  shows "same_pool (tp_disk (bs_pool s)) (tp_disk (bs_pool s')) \<and>
     (\<forall>name. name \<notin> {''base'', deviceSetMetaFile} \<longrightarrow>
        vfile (tp_disk (bs_pool s')) name = vfile (tp_disk (bs_pool s)) name) \<and>
     (\<exists>cmds. bs_log s' = cmds @ bs_log s \<and> (\<forall>c \<in> set cmds. hd c \<in> {''blkid'', ''resize2fs'', ''xfs_growfs''})) \<and>
     (\<forall>i. base_of s' = Some i \<longrightarrow> (\<exists>sz. ti_Size info \<le> sz \<and> i = info\<lparr>ti_Size := sz\<rparr>))"
  using setup_initialised(1) [OF assms] by (simp_all add: base_kept_def kept_def grown_def)


section \<open>A new base device\<close>

lemma create_loop_made:
  "create_loop n dm_CreateDevice k0 s = Ret (Inr k, s') \<Longrightarrow> k \<in> set (dk_ids (tp_disk s'))"
proof (induction n arbitrary: k0 s)
  case (Suc n)
  obtain er s1 where c: "dm_CreateDevice k0 s = (er, s1)" by fastforce
  show ?case
  proof (cases er)
    case None
    with c have "k0 \<in> set (dk_ids (tp_disk s1))" by (auto simp: dm_CreateDevice_def commit_def split: option.splits if_splits)
    with Suc.prems c None show ?thesis by simp
  next
    case (Some e)
    with Suc.prems c show ?thesis
      by (auto simp del: bind_outcome_eq_Ret elim!: bind_outcomeE dest!: Suc.IH split: if_splits sum.splits prod.splits)
  qed
qed simp

lemma createRegister_registered:
  assumes "createRegisterDevice h s = Ret (Inr info, s')"
  shows "map_of (tp_Devices s') h = Some info \<and> ti_Hash info = h \<and> ti_Size info = tp_baseFsSize s \<and> \<not> ti_Deleted info \<and>
     ti_DeviceID info \<in> set (dk_ids (tp_disk s'))"
proof -
  let ?sz = "tp_baseFsSize s"
  from assms(1) obtain k k1 s2 s3 s4 where lp: "create_loop create_fuel dm_CreateDevice k1 s2 = Ret (Inr k, s3)"
    and rg: "registerDevice k h ?sz (tx_OpenTransactionID (tp_transaction s3)) s3 = (Inr info, s4)"
    and cl: "closeTransaction s4 = (None, s')"
    by (auto simp: createRegisterDevice_def create_register_def simp del: bind_outcome_eq_Ret elim!: bind_outcomeE
        split: sum.splits prod.splits option.splits)
  have d: "tp_Devices s' = tp_Devices s4" "dk_ids (tp_disk s') = dk_ids (tp_disk s4)"
    using cl by (auto simp: closeTransaction_def updatePoolTransactionID_def SetTransactionID_def commit_def
        split: option.splits if_splits prod.splits)
  obtain j p where w: "writeMetaFile j (metadataFile h) p = (None, s4)" "p = s3\<lparr>tp_Devices := AList.update h info (tp_Devices s3)\<rparr>"
    and i: "ti_Hash info = h" "ti_Size info = ?sz" "\<not> ti_Deleted info" "ti_DeviceID info = k"
    using rg by (auto simp: registerDevice_def Let_def saveMetadata_def split: prod.splits option.splits)
  have s4: "only_disk p s4" "dk_ids (tp_disk s4) = dk_ids (tp_disk p)"
    using w(1) by (auto simp: writeMetaFile_def Let_def commit_def put_file_def remove_file_def only_disk_def split: option.splits)
  then have "tp_Devices s4 = AList.update h info (tp_Devices s3)" using w(2) by (simp add: only_disk_simps)
  with d i s4(2) w(2) create_loop_made [OF lp] show ?thesis by (simp add: update_conv)
qed

text \<open>Steps that leave the devices of the pool alone and only add to the commands run.\<close>

definition steady :: "int list \<Rightarrow> string list list \<Rightarrow> 'w base_set \<Rightarrow> bool" where
  "steady ids l s \<longleftrightarrow> dk_ids (tp_disk (bs_pool s)) = ids \<and> suffix l (bs_log s)"

lemma steady_simps [simp]:
  "steady ids l (s\<lparr>bs_BaseDeviceFilesystem := f\<rparr>) = steady ids l s" "steady ids l (s\<lparr>bs_filesystem := f\<rparr>) = steady ids l s"
  by (simp_all add: steady_def)

lemma steady_save: "keeps (steady ids l) saveDeviceSetMetaData"
  by (rule keepsI) (auto simp: saveDeviceSetMetaData_def on_pool_def steady_def same_pool_def split: prod.splits
      dest!: writeMetaFile_steps(2) [OF _ visible_names(1)])

lemma steady_activate: "keeps (steady ids l) (activate_thin info)"
  by (rule keepsI) (auto simp: activate_thin_def on_pool_def devs_of_def steady_def split: prod.splits)

lemma steady_mark: "ti_Hash info = [] \<Longrightarrow> keeps (steady ids l) (on_pool (mark_initialized info))"
  by (rule keepsI) (auto simp: on_pool_def mark_initialized_def saveMetadata_def metadataFile_def set_thin_def steady_def same_pool_def Let_def
      split: prod.splits option.splits dest!: writeMetaFile_steps(2) [OF _ visible_names(2)])

lemma run_log:
  assumes "exec_Run cmd s = Ret (r, s')"
  shows "bs_pool s' = bs_pool s" and "bs_log s' = cmd # bs_log s"
  using assms by (auto simp: exec_Run_def exec_Output_def split: prod.splits sum.splits)

lemma steady_run: "keeps (steady ids l) (exec_Run cmd)"
  by (rule keepsI) (auto simp: steady_def run_log suffix_def)

text \<open>A file system that was made shows in the commands.\<close>

definition mkfs_run :: "string list list \<Rightarrow> string list list \<Rightarrow> bool" where
  "mkfs_run l l' \<longleftrightarrow> (\<exists>cmds. l' = cmds @ l \<and> (\<exists>c \<in> set cmds. hd c \<in> {''mkfs.ext4'', ''mkfs.xfs''}))"

lemma mkfs_run_more: "mkfs_run l l' \<Longrightarrow> suffix k l \<Longrightarrow> suffix l' l'' \<Longrightarrow> mkfs_run k l''"
  by (auto simp: mkfs_run_def suffix_def)

lemma make_fs_runs:
  assumes "make_fs fs args dev s = Ret (None, s')"
  shows "dk_ids (tp_disk (bs_pool s')) = dk_ids (tp_disk (bs_pool s))" and "mkfs_run (bs_log s) (bs_log s')"
proof -
  obtain c er s1 where c: "exec_Run c s = Ret (er, s1)" "hd c \<in> {''mkfs.ext4'', ''mkfs.xfs''}"
    and k: "steady ids l s1 \<Longrightarrow> steady ids l s'" for ids l
  proof (cases "fs = ''xfs''")
    case True
    with assms that [of "''mkfs.xfs'' # args" None s'] show ?thesis by (simp add: make_fs_def)
  next
    case False
    let ?c1 = "[''mkfs.ext4'', ''-E'', ''nodiscard,lazy_itable_init=0,lazy_journal_init=0''] @ args"
    let ?c2 = "[''mkfs.ext4'', ''-E'', ''nodiscard,lazy_itable_init=0''] @ args" and ?c3 = "[''tune2fs'', ''-c'', ''-1'', ''-i'', ''0'', dev]"
    from assms False obtain er s1 where r: "exec_Run ?c1 s = Ret (er, s1)"
      "seq (\<lambda>s2. case er of None \<Rightarrow> Ret (None, s2) | Some _ \<Rightarrow> exec_Run ?c2 s2) (exec_Run ?c3) s1 = Ret (None, s')"
      by (auto simp: make_fs_def simp del: bind_outcome_eq_Ret elim!: bind_outcomeE split: if_splits)
    have "keeps (steady ids l) (seq (\<lambda>s2. case er of None \<Rightarrow> Ret (None, s2) | Some _ \<Rightarrow> exec_Run ?c2 s2) (exec_Run ?c3))" for ids l
      by (rule keeps_seq [OF _ steady_run], rule keepsI) (auto dest: keepsD [OF steady_run] split: option.splits)
    with r that [of ?c1 er s1] show ?thesis by (auto dest: keepsD)
  qed
  have "steady (dk_ids (tp_disk (bs_pool s))) (c # bs_log s) s1" using run_log [OF c(1)] by (simp add: steady_def)
  from k [OF this] c(2) show "dk_ids (tp_disk (bs_pool s')) = dk_ids (tp_disk (bs_pool s))" "mkfs_run (bs_log s) (bs_log s')"
    by (auto simp: steady_def mkfs_run_def suffix_def)
qed

lemma steady_default:
  assumes "determineDefaultFS s = (b, s1)"
  shows "bs_pool s1 = bs_pool s \<and> suffix (bs_log s) (bs_log s1)"
  using assms by (auto simp: determineDefaultFS_def xfsSupported_def exec_Output_def Let_def suffix_def split: prod.splits sum.splits if_splits)

lemma createFilesystem_runs:
  assumes "createFilesystem info s = Ret (None, s')"
  shows "dk_ids (tp_disk (bs_pool s')) = dk_ids (tp_disk (bs_pool s))" and "mkfs_run (bs_log s) (bs_log s')"
proof -
  let ?s = "if bs_filesystem s = [] then (case determineDefaultFS s of (fs, s') \<Rightarrow> s'\<lparr>bs_filesystem := fs\<rparr>) else s"
  have "steady (dk_ids (tp_disk (bs_pool s))) (bs_log s) ?s"
    using steady_default [of s] by (cases "determineDefaultFS s") (auto simp: steady_def)
  moreover from assms obtain args dev s2 where s2: "saveBaseDeviceFilesystem (bs_filesystem ?s) ?s = Ret (None, s2)"
    "make_fs (bs_filesystem s2) args dev s2 = Ret (None, s')"
    unfolding createFilesystem_def Let_def by (auto elim!: seqE)
  ultimately have "steady (dk_ids (tp_disk (bs_pool s))) (bs_log s) s2"
    unfolding saveBaseDeviceFilesystem_def by (auto dest!: keepsD [OF steady_save])
  then show "dk_ids (tp_disk (bs_pool s')) = dk_ids (tp_disk (bs_pool s))" "mkfs_run (bs_log s) (bs_log s')"
    using make_fs_runs [OF s2(2)] mkfs_run_more by (auto simp: steady_def)
qed

text \<open>The state of a base device whose creation came as far as its metadata file.\<close>

lemma mark_initialized_done:
  assumes "on_pool (mark_initialized info) s = Ret (None, s')" and "ti_Hash info = []"
  shows "base_of s' = Some (info\<lparr>ti_Initialized := True\<rparr>)"
    and "vfile (tp_disk (bs_pool s')) ''base'' = Some (JsonDoc (encode_info (info\<lparr>ti_Initialized := True\<rparr>)))"
    and "bs_userBaseSize s' = bs_userBaseSize s"
proof -
  let ?i = "info\<lparr>ti_Initialized := True\<rparr>"
  obtain p where s': "s' = s\<lparr>bs_pool := p\<rparr>"
    and w: "writeMetaFile (encode_info ?i) ''base'' ((bs_pool s)\<lparr>tp_Devices := AList.update [] ?i (tp_Devices (bs_pool s))\<rparr>) = (None, p)"
    using assms by (auto simp: on_pool_def mark_initialized_def saveMetadata_def set_thin_def metadataFile_def Let_def
        split: prod.splits option.splits)
  note W = writeMetaFile_steps(1,3) [OF w visible_names(2)]
  from W show "base_of s' = Some ?i" "vfile (tp_disk (bs_pool s')) ''base'' = Some (JsonDoc (encode_info ?i))" "bs_userBaseSize s' = bs_userBaseSize s"
    by (simp_all add: s' only_disk_simps update_conv)
qed

lemma createBaseImage_done:
  assumes "createBaseImage s = Ret (None, s')"
  shows "\<exists>i. base_of s' = Some i \<and> ti_Initialized i \<and> \<not> ti_Deleted i \<and> ti_Size i = tp_baseFsSize (bs_pool s) \<and> confirmed s' \<and>
     vfile (tp_disk (bs_pool s')) ''base'' = Some (JsonDoc (encode_info i)) \<and>
     ti_DeviceID i \<in> set (dk_ids (tp_disk (bs_pool s'))) \<and> mkfs_run (bs_log s) (bs_log s')"
proof -
  from assms obtain info p where c: "createRegisterDevice [] (bs_pool s) = Ret (Inr info, p)" and
    r: "seq (activate_thin info) (seq (createFilesystem info) (seq (on_pool (mark_initialized info))
         (wrapped ''devmapper: Could not query and save base device UUID'' (saveBaseDeviceUUID (info\<lparr>ti_Initialized := True\<rparr>)))))
       (s\<lparr>bs_pool := p\<rparr>) = Ret (None, s')"
    by (auto simp: createBaseImage_def simp del: bind_outcome_eq_Ret elim!: bind_outcomeE split: sum.splits)
  from c have i: "map_of (tp_Devices p) [] = Some info" "ti_Hash info = []" "ti_Size info = tp_baseFsSize (bs_pool s)" "\<not> ti_Deleted info"
    "ti_DeviceID info \<in> set (dk_ids (tp_disk p))" using createRegister_registered [OF c] by simp_all
  let ?i = "info\<lparr>ti_Initialized := True\<rparr>"
  from r obtain s1 s2 s3 where st: "activate_thin info (s\<lparr>bs_pool := p\<rparr>) = Ret (None, s1)" "createFilesystem info s1 = Ret (None, s2)"
    "on_pool (mark_initialized info) s2 = Ret (None, s3)"
    "wrapped ''devmapper: Could not query and save base device UUID'' (saveBaseDeviceUUID ?i) s3 = Ret (None, s')"
    by (auto elim!: seqE)
  have "steady (dk_ids (tp_disk p)) (bs_log s) s1" using keepsD [OF steady_activate [of _ "bs_log s"] st(1)] by (simp add: steady_def)
  with createFilesystem_runs [OF st(2)] have "dk_ids (tp_disk (bs_pool s2)) = dk_ids (tp_disk p)" "mkfs_run (bs_log s) (bs_log s2)"
    using mkfs_run_more by (auto simp: steady_def)
  moreover have "steady (dk_ids (tp_disk (bs_pool s2))) (bs_log s2) s3"
    using keepsD [OF steady_mark [OF i(2), of _ "bs_log s2"] st(3)] by (simp add: steady_def)
  ultimately have m: "dk_ids (tp_disk (bs_pool s3)) = dk_ids (tp_disk p)" "mkfs_run (bs_log s) (bs_log s3)"
    using mkfs_run_more by (auto simp: steady_def)
  note M = mark_initialized_done [OF st(3) i(2)]
  have "holds {} s3 ?i False s3" using M(1) by (simp add: holds_def)
  moreover have "ti_Hash ?i = []" using i(2) by simp
  ultimately have "holds {} s3 ?i True s'" using validD [OF valid_wrapped [OF holds_saveUUID] _ st(4)] by simp
  then have h: "base_of s' = Some ?i" "confirmed s'" "kept {} s3 s'" by (simp_all add: holds_def)
  from h(3) have "dk_ids (tp_disk (bs_pool s')) = dk_ids (tp_disk p)" "suffix (bs_log s3) (bs_log s')"
    using m(1) by (auto simp: kept_def same_pool_def suffix_def)
  with m(2) have "ti_DeviceID ?i \<in> set (dk_ids (tp_disk (bs_pool s')))" "mkfs_run (bs_log s) (bs_log s')"
    using i(5) mkfs_run_more by auto
  with h keptD(2) [OF h(3), of "''base''"] M(2) i visible_names(3) show ?thesis by (intro exI [of _ ?i]) auto
qed


text \<open>Deleting a device does not touch the size asked for.\<close>

lemma size_writeMetaFile: "writeMetaFile j f p = (r, p') \<Longrightarrow> tp_baseFsSize p' = tp_baseFsSize p"
  by (auto simp: writeMetaFile_def commit_def Let_def split: option.splits)

lemma size_steps:
  "saveMetadata i p = (r, p') \<Longrightarrow> tp_baseFsSize p' = tp_baseFsSize p"
  "dm_DeleteDevice k p = (r, p') \<Longrightarrow> tp_baseFsSize p' = tp_baseFsSize p"
  "closeTransaction p = (r, p') \<Longrightarrow> tp_baseFsSize p' = tp_baseFsSize p"
  "unregisterDevice h p = (r, p') \<Longrightarrow> tp_baseFsSize p' = tp_baseFsSize p"
  "thin_markFree k p = Ret p' \<Longrightarrow> tp_baseFsSize p' = tp_baseFsSize p"
  "openTransaction h k p = (r, p') \<Longrightarrow> tp_baseFsSize p' = tp_baseFsSize p"
  "markForDeferredDeletion i p = (r, p') \<Longrightarrow> tp_baseFsSize p' = tp_baseFsSize p"
  by (auto simp: saveMetadata_def dm_DeleteDevice_def commit_def closeTransaction_def updatePoolTransactionID_def SetTransactionID_def
      unregisterDevice_def removeMetadata_def remove_meta_def thin_markFree_def openTransaction_def saveTransactionMetaData_def
      allocateTransactionID_def markForDeferredDeletion_def set_thin_def Let_def dest!: size_writeMetaFile
      split: option.splits prod.splits if_splits)

lemma size_deleteTransaction:
  "deleteTransaction info b p = Ret (r, p') \<Longrightarrow> tp_baseFsSize p' = tp_baseFsSize p"
  by (auto simp: deleteTransaction_def Let_def simp del: bind_outcome_eq_Ret elim!: bind_outcomeE dest!: size_steps
      split: prod.splits option.splits if_splits)

lemma size_DeleteDevice:
  assumes "thin_DeleteDevice h b p = Ret (r, p')"
  shows "tp_baseFsSize p' = tp_baseFsSize p"
proof -
  have d: "tp_baseFsSize (snd (issueDiscard info p)) = tp_baseFsSize p" for info p
    by (simp add: issueDiscard_def split: prod.splits)
  have "deleteDevice info b q = Ret (r, p') \<Longrightarrow> tp_baseFsSize p' = tp_baseFsSize q" for info q
    by (auto simp: deleteDevice_def Let_def d dest!: size_deleteTransaction split: prod.splits option.splits if_splits)
  moreover have "thin_lookupDevice h p = Ret (q, p1) \<Longrightarrow> tp_baseFsSize p1 = tp_baseFsSize p" for q p1
    by (auto dest: lookup_frame)
  ultimately show ?thesis using assms
    by (auto simp: thin_DeleteDevice_def simp del: bind_outcome_eq_Ret elim!: bind_outcomeE split: sum.splits option.splits if_splits)
qed

text \<open>
  C12: When setting up the base image reports success, there is an initialised base device that is not about
  to be deleted; the UUID the device set keeps is one \<open>blkid\<close> printed for it; and when the user asked for
  a size, the device has that size.
\<close>

theorem base_image_ready:
  assumes "setupBaseImage s = Ret (None, s')" and "\<forall>i. base_of s = Some i \<longrightarrow> ti_Hash i = []"
  shows "\<exists>i. base_of s' = Some i \<and> ti_Initialized i \<and> \<not> ti_Deleted i \<and> confirmed s' \<and>
     (bs_userBaseSize s \<longrightarrow> ti_Size i = tp_baseFsSize (bs_pool s))"
proof -
  obtain q p where l: "thin_lookupDevice [] (bs_pool s) = Ret (q, p)"
    using assms(1) by (auto simp: setupBaseImage_def simp del: bind_outcome_eq_Ret elim!: bind_outcomeE)
  have sz: "tp_baseFsSize p = tp_baseFsSize (bs_pool s)" using lookup_frame [OF l] by auto
  have made: ?thesis if "createBaseImage s1 = Ret (None, s')" "tp_baseFsSize (bs_pool s1) = tp_baseFsSize (bs_pool s)" for s1
    using createBaseImage_done [OF that(1)] that(2) by auto
  show ?thesis
  proof (cases q)
    case (Inl e)
    with assms(1) l obtain s1 where "createBaseImage s1 = Ret (None, s')" "bs_pool s1 = p"
      by (auto simp: setupBaseImage_def Let_def checkThinPool_def elim!: seqE split: if_splits sum.splits)
    with made sz show ?thesis by simp
  next
    case (Inr info)
    show ?thesis
    proof (cases "ti_Initialized info \<and> \<not> ti_Deleted info")
      case True
      with setup_initialised(2) [OF assms(1) l [unfolded Inr] _ _ assms(2)] show ?thesis
        by (auto simp: holds_def grown_def)
    next
      case False
      with assms(1) l Inr obtain s1 where s1: "on_pool_out (thin_DeleteDevice [] True) (s\<lparr>bs_pool := p\<rparr>) = Ret (None, s1)"
        "createBaseImage s1 = Ret (None, s')" by (auto simp: setupBaseImage_def Let_def elim!: seqE)
      then have "tp_baseFsSize (bs_pool s1) = tp_baseFsSize p"
        by (auto simp: on_pool_out_def dest: size_DeleteDevice)
      with made s1(2) sz show ?thesis by simp
    qed
  qed
qed

text \<open>
  C13: A base device on another pool than last time is refused: when an initialised base device that is not marked deleted has a
  file system whose UUID differs from the one stored, or \<open>blkid\<close> fails, set-up returns an error; nothing on the disk has
  changed, and at most \<open>blkid\<close> was run.
\<close>

theorem foreign_base_refused:
  assumes "thin_lookupDevice [] (bs_pool s) = Ret (Inr info, p)" and "ti_Initialized info" and "\<not> ti_Deleted info"
    and "ti_Hash info = []" and "bs_BaseDeviceUUID s \<noteq> []"
    and "\<forall>out w. sy_run (bs_sys s) (blkid_cmd (DevName s [])) (bs_world s) = (Inr out, w) \<longrightarrow> trim_uuid out \<noteq> bs_BaseDeviceUUID s"
  shows "\<exists>e s'. setupBaseImage s = Ret (Some e, s') \<and> tp_disk (bs_pool s') = tp_disk (bs_pool s) \<and>
     tp_trace (bs_pool s') = tp_trace (bs_pool s) \<and> bs_log s' \<in> {bs_log s, blkid_cmd (DevName s []) # bs_log s}"
proof -
  obtain devs where p: "p = (bs_pool s)\<lparr>tp_Devices := devs\<rparr>" using lookup_frame [OF assms(1)] by blast
  obtain r ds where a: "activateDeviceIfNeeded [] (mount_side info) False (tp_ds p) = (r, ds)" by fastforce
  obtain q w where c: "sy_run (bs_sys s) (blkid_cmd (DevName s [])) (bs_world s) = (q, w)" by fastforce
  have d: "DevName (s\<lparr>bs_pool := x\<rparr>) h = DevName s h" for x h by (simp add: DevName_def info_Name_def)
  show ?thesis
    using assms p a c d
    by (cases r; cases q)
      (auto simp: setupBaseImage_def Let_def seq_def setupVerifyBaseImageUUIDFS_def wrapped_def verifyBaseDeviceUUIDFS_def
        activate_thin_def on_pool_def devs_of_def always_def verify_uuid_def getDeviceUUID_def exec_Output_def deactivate_thin_def
        split: prod.splits)
qed

text \<open>
  The code never takes over a thin pool it did not fill: with a pool given by the user and no base device known,
  a pool that has data blocks in use or a transaction id other than 0 is refused, with no command run and nothing written.
\<close>

lemma used_pool_refused:
  assumes "thin_lookupDevice [] (bs_pool s) = Ret (Inl e, p)" and "bs_thinPoolDevice s \<noteq> []"
    and "\<And>u. bs_usage s = Inr u \<Longrightarrow> pu_dataUsed u \<noteq> 0 \<or> dk_tid (tp_disk (bs_pool s)) \<noteq> 0"
  shows "\<exists>e s'. setupBaseImage s = Ret (Some e, s') \<and> tp_disk (bs_pool s') = tp_disk (bs_pool s) \<and>
     tp_trace (bs_pool s') = tp_trace (bs_pool s) \<and> bs_log s' = bs_log s"
proof -
  have p: "p = bs_pool s" using assms(1) by (auto simp: thin_lookupDevice_def split: option.splits)
  show ?thesis
    using assms p by (cases "tp_faults (bs_pool s) PoolStatus"; cases "bs_usage s")
      (auto simp: setupBaseImage_def Let_def seq_def checkThinPool_def poolStatus_def)
qed


section \<open>When nothing fails\<close>

definition quiet :: "thin_pool \<Rightarrow> bool" where
  "quiet p \<longleftrightarrow> tp_faults p = (\<lambda>_. None) \<and> ds_faults (tp_ds p) = (\<lambda>_ _. None)"

lemma retry_busy_ok: "f i = None \<Longrightarrow> 0 < n \<Longrightarrow> retry_busy n i f = None"
  by (cases n) auto

lemma activate_ok:
  assumes "ds_faults ds = (\<lambda>_ _. None)" and "\<not> di_Deleted info \<or> ig"
  shows "\<exists>ds'. activateDeviceIfNeeded h info ig ds = (None, ds') \<and> ds_faults ds' = (\<lambda>_ _. None) \<and> ds_Devices ds' = ds_Devices ds"
  using assms
  by (auto simp: activateDeviceIfNeeded_def cancelDeferredRemoval_def retry_busy_ok split: prod.splits option.splits if_splits)

lemma deactivate_ok:
  assumes "ds_faults ds = (\<lambda>_ _. None)"
  shows "\<exists>ds'. deactivateDevice h ds = (None, ds') \<and> ds_faults ds' = (\<lambda>_ _. None) \<and> ds_Devices ds' = ds_Devices ds"
  using assms by (auto simp: deactivateDevice_def removeDevice_def retry_busy_ok split: prod.splits option.splits if_splits)

lemma temp_names_inj: "inj (\<lambda>n. ''.tmp'' @ show_nat n)"
proof (rule injI)
  fix i j assume "''.tmp'' @ show_nat i = ''.tmp'' @ show_nat j"
  then have "read_nat 0 (show_nat i) = read_nat 0 (show_nat j)" by simp
  then show "i = j" by (simp add: read_show_nat)
qed

lemma temp_file_found: "temp_file files \<noteq> None"
proof
  let ?c = "(\<lambda>n. ''.tmp'' @ show_nat n) ` {0..<length files + 1}"
  assume t: "temp_file files = None"
  have "?c \<subseteq> fst ` set files"
  proof
    fix x assume "x \<in> ?c"
    then have "x \<in> set (map (\<lambda>n. ''.tmp'' @ show_nat n) [0..<length files + 1])" by (simp only: set_map set_upt)
    moreover have "\<forall>x \<in> set (map (\<lambda>n. ''.tmp'' @ show_nat n) [0..<length files + 1]). map_of files x \<noteq> None"
      using t unfolding temp_file_def find_None_iff by (simp only: not_ex de_Morgan_conj Ball_def imp_conv_disj simp_thms)
    ultimately have "map_of files x \<noteq> None" by blast
    then show "x \<in> fst ` set files" unfolding map_of_eq_None_iff by blast
  qed
  then have "card ?c \<le> card (fst ` set files)" by (rule card_mono [rotated]) simp
  also have "\<dots> \<le> length files" using card_image_le [of "set files" fst] card_length [of files] by simp
  also have "card ?c = length files + 1" using card_image [OF inj_on_subset [OF temp_names_inj]] by simp
  finally show False by simp
qed

lemma write_ok:
  assumes "tp_faults p = (\<lambda>_. None)" and "\<not> prefix ''.'' file"
  shows "\<exists>d t. writeMetaFile j file p = (None, p\<lparr>tp_disk := d, tp_trace := t\<rparr>) \<and> same_pool (tp_disk p) d \<and>
     vfile d = (vfile (tp_disk p))(file \<mapsto> JsonDoc j)"
proof -
  obtain tmp where "temp_file (dk_files (tp_disk p)) = Some tmp" using temp_file_found by blast
  then obtain p' where w: "writeMetaFile j file p = (None, p')"
    using assms(1) by (auto simp: writeMetaFile_def Let_def)
  note W = writeMetaFile_steps(1-3) [OF w assms(2)]
  from W(1) obtain d t where "p' = p\<lparr>tp_disk := d, tp_trace := t\<rparr>" by (auto simp: only_disk_def)
  with w W(2,3) show ?thesis by auto
qed


text \<open>The ids of the pool are marked in the bitmap, and the transaction ids agree.\<close>

definition sound_ids :: "thin_pool \<Rightarrow> bool" where
  "sound_ids p \<longleftrightarrow>
     bitmap_ok (tp_deviceIDMap p) \<and> (\<forall>k \<in> set (dk_ids (tp_disk p)). valid_id k \<and> used (tp_deviceIDMap p) k) \<and>
     dk_tid (tp_disk p) = tp_TransactionID p"

lemma transaction_written:
  assumes "quiet p"
  shows "\<exists>d t. openTransaction h k p = (None, p\<lparr>tp_transaction := \<lparr>tx_OpenTransactionID = tp_TransactionID p + 1,
      tx_DeviceIDHash = h, tx_DeviceID = k\<rparr>, tp_disk := d, tp_trace := t\<rparr>) \<and> same_pool (tp_disk p) d"
proof -
  let ?p = "p\<lparr>tp_transaction := \<lparr>tx_OpenTransactionID = tp_TransactionID p + 1, tx_DeviceIDHash = h, tx_DeviceID = k\<rparr>\<rparr>"
  have "tp_faults ?p = (\<lambda>_. None)" using assms by (simp add: quiet_def)
  from write_ok [OF this transaction_visible, of "encode_transaction (tp_transaction ?p)"] obtain d t where
    "writeMetaFile (encode_transaction (tp_transaction ?p)) transactionMetaFile ?p = (None, ?p\<lparr>tp_disk := d, tp_trace := t\<rparr>)"
    "same_pool (tp_disk p) d" by auto
  moreover have tx: "(tp_transaction p)\<lparr>tx_OpenTransactionID := a, tx_DeviceIDHash := b, tx_DeviceID := c\<rparr> =
      \<lparr>tx_OpenTransactionID = a, tx_DeviceIDHash = b, tx_DeviceID = c\<rparr>" for a b c by (cases "tp_transaction p") simp
  ultimately show ?thesis
    by (intro exI [of _ d] exI [of _ t]) (simp add: openTransaction_def saveTransactionMetaData_def allocateTransactionID_def Let_def tx)
qed

lemma registered:
  assumes "tp_faults p = (\<lambda>_. None)" and "\<not> prefix ''.'' (metadataFile h)"
  shows "\<exists>info p'. registerDevice k h sz tid p = (Inr info, p') \<and> ti_Hash info = h \<and> \<not> ti_Deleted info \<and>
     same_pool (tp_disk p) (tp_disk p') \<and> tp_faults p' = (\<lambda>_. None) \<and> tp_ds p' = tp_ds p \<and> tp_TransactionID p' = tp_TransactionID p"
proof -
  let ?i = "\<lparr>ti_Hash = h, ti_DeviceID = k, ti_Size = sz, ti_TransactionID = tid, ti_Initialized = False, ti_Deleted = False\<rparr>"
  let ?p = "p\<lparr>tp_Devices := AList.update h ?i (tp_Devices p)\<rparr>"
  have "tp_faults ?p = (\<lambda>_. None)" using assms(1) by simp
  from write_ok [OF this assms(2), of "encode_info ?i"] obtain d t where
    "writeMetaFile (encode_info ?i) (metadataFile h) ?p = (None, ?p\<lparr>tp_disk := d, tp_trace := t\<rparr>)" "same_pool (tp_disk p) d" by auto
  with assms(1) show ?thesis by (simp add: registerDevice_def saveMetadata_def Let_def)
qed

lemma closed:
  assumes "tp_faults p = (\<lambda>_. None)" and "dk_tid (tp_disk p) = tp_TransactionID p"
  shows "\<exists>p'. closeTransaction p = (None, p') \<and> tp_faults p' = (\<lambda>_. None) \<and> tp_ds p' = tp_ds p \<and> tp_deviceIDMap p' = tp_deviceIDMap p \<and>
     dk_ids (tp_disk p') = dk_ids (tp_disk p) \<and> dk_tid (tp_disk p') = tp_TransactionID p'"
  using assms by (simp add: closeTransaction_def updatePoolTransactionID_def SetTransactionID_def commit_def)

lemma create_device_ok:
  assumes q: "quiet p" and ids: "sound_ids p" and free: "valid_id k0" "\<not> used (tp_deviceIDMap p) k0" and v: "\<not> prefix ''.'' (metadataFile h)"
  shows "\<exists>info p'. createRegisterDevice h p = Ret (Inr info, p') \<and> quiet p' \<and> ti_Hash info = h \<and> \<not> ti_Deleted info"
proof -
  have ok: "bitmap_ok (tp_deviceIDMap p)" using ids by (simp add: sound_ids_def)
  from getNextFree_cases [OF ok, of "tp_NextDeviceID p"] free obtain k m' where
    n: "getNextFreeDeviceID (tp_NextDeviceID p) (tp_deviceIDMap p) = Ret (Inr k, k, m')" "\<not> used (tp_deviceIDMap p) k" by blast
  define p1 where "p1 = p\<lparr>tp_NextDeviceID := k, tp_deviceIDMap := m'\<rparr>"
  have p1: "thin_nextID p = Ret (Inr k, p1)" "quiet p1" "tp_disk p1 = tp_disk p" "tp_TransactionID p1 = tp_TransactionID p" "tp_ds p1 = tp_ds p"
    using n(1) q by (simp_all add: thin_nextID_def p1_def quiet_def)
  from transaction_written [OF p1(2), of h k] p1 obtain p2 where o: "openTransaction h k p1 = (None, p2)" "tp_faults p2 = (\<lambda>_. None)"
    "same_pool (tp_disk p) (tp_disk p2)" "tp_TransactionID p2 = tp_TransactionID p" "tp_ds p2 = tp_ds p" by (auto simp: quiet_def)
  have k: "k \<notin> set (dk_ids (tp_disk p2))" using n(2) ids o(3) by (auto simp: sound_ids_def same_pool_def)
  define p3 where "p3 = commit (\<lambda>d. d\<lparr>dk_ids := k # dk_ids d\<rparr>) p2"
  have p3: "tp_faults p3 = (\<lambda>_. None)" "dk_tid (tp_disk p3) = tp_TransactionID p3" "tp_ds p3 = tp_ds p"
    using o ids by (simp_all add: p3_def commit_def same_pool_def sound_ids_def)
  obtain n where cf: "create_fuel = Suc n" by (simp add: create_fuel_def)
  have l: "create_loop create_fuel dm_CreateDevice k p2 = Ret (Inr k, p3)"
    using k o(2) by (simp add: cf dm_CreateDevice_def p3_def)
  from registered [OF p3(1) v, of k "tp_baseFsSize p" "tx_OpenTransactionID (tp_transaction p3)"] obtain info p4 where
    r: "registerDevice k h (tp_baseFsSize p) (tx_OpenTransactionID (tp_transaction p3)) p3 = (Inr info, p4)" "ti_Hash info = h" "\<not> ti_Deleted info"
    "same_pool (tp_disk p3) (tp_disk p4)" "tp_faults p4 = (\<lambda>_. None)" "tp_ds p4 = tp_ds p" "tp_TransactionID p4 = tp_TransactionID p3"
    using p3(3) by auto
  have "dk_tid (tp_disk p4) = tp_TransactionID p4" using r(4,7) p3(2) by (simp add: same_pool_def)
  from closed [OF r(5) this] obtain p5 where c: "closeTransaction p4 = (None, p5)" "tp_faults p5 = (\<lambda>_. None)" "tp_ds p5 = tp_ds p" using r(6) by auto
  have "createRegisterDevice h p = Ret (Inr info, p5)"
    using p1(1) o(1) l r(1) c(1) by (simp add: createRegisterDevice_def create_register_def)
  with c q r(2,3) show ?thesis by (simp add: quiet_def)
qed

lemma delete_device_ok:
  assumes q: "quiet p" and ids: "sound_ids p" and i: "map_of (tp_Devices p) h = Some info" "ti_Hash info = h"
    and k: "ti_DeviceID info \<in> set (dk_ids (tp_disk p))" and m: "map_of (ds_Devices (tp_ds p)) h = None"
  shows "\<exists>p'. thin_DeleteDevice h True p = Ret (None, p') \<and> quiet p' \<and> sound_ids p' \<and>
     valid_id (ti_DeviceID info) \<and> \<not> used (tp_deviceIDMap p') (ti_DeviceID info)"
proof -
  let ?k = "ti_DeviceID info"
  have vk: "valid_id ?k" and ok: "bitmap_ok (tp_deviceIDMap p)" and tid: "dk_tid (tp_disk p) = tp_TransactionID p"
    using ids k by (auto simp: sound_ids_def)
  obtain ds1 where d1: "snd (issueDiscard info p) = p\<lparr>tp_ds := ds1\<rparr>" "ds_faults ds1 = (\<lambda>_ _. None)"
    using activate_ok [of "tp_ds p" "\<lparr>di_Deleted = ti_Deleted info, di_mountCount = 0, di_mountPath = []\<rparr>" True h] q i(2)
    by (auto simp: issueDiscard_def quiet_def)
  define p1 where "p1 = (if tp_doBlkDiscard p then snd (issueDiscard info p) else p)"
  obtain ds1' where p1: "p1 = p\<lparr>tp_ds := ds1'\<rparr>" "ds_faults ds1' = (\<lambda>_ _. None)"
    using d1 q by (cases "tp_doBlkDiscard p") (auto simp: p1_def quiet_def intro: that [of "tp_ds p"])
  from deactivate_ok [OF p1(2), of h] obtain ds2 where d2: "deactivateDevice h (tp_ds p1) = (None, ds2)" "ds_faults ds2 = (\<lambda>_ _. None)"
    using p1(1) by auto
  let ?p2 = "p\<lparr>tp_ds := ds2\<rparr>"
  have q2: "quiet ?p2" using q d2 by (simp add: quiet_def)
  from transaction_written [OF q2, of h ?k] q obtain p3 where o: "openTransaction h ?k ?p2 = (None, p3)" "tp_faults p3 = (\<lambda>_. None)"
    "same_pool (tp_disk p) (tp_disk p3)" "tp_TransactionID p3 = tp_TransactionID p" "tp_ds p3 = ds2" "tp_deviceIDMap p3 = tp_deviceIDMap p"
    by (auto simp: quiet_def)
  define p4 where "p4 = commit (\<lambda>d. d\<lparr>dk_ids := removeAll ?k (dk_ids d)\<rparr>) p3"
  have dl: "dm_DeleteDevice ?k p3 = (None, p4)" using o(2,3) k by (simp add: dm_DeleteDevice_def same_pool_def p4_def)
  define p5 where "p5 = commit (remove_file (metadataFile h)) (p4\<lparr>tp_Devices := AList.delete h (tp_Devices p4)\<rparr>)"
  have un: "unregisterDevice h p4 = (None, p5)"
    using o(2) by (simp add: unregisterDevice_def removeMetadata_def remove_meta_def p5_def p4_def)
  define p6 where "p6 = (if ti_Deleted info then p5\<lparr>tp_nrDeletedDevices := tp_nrDeletedDevices p5 - 1\<rparr> else p5)"
  from markDeviceIDFree_valid [OF vk ok] obtain m' where m': "markDeviceIDFree ?k (tp_deviceIDMap p) = Ret m'" "bitmap_ok m'"
    "\<forall>j. valid_id j \<longrightarrow> used m' j \<longleftrightarrow> used (tp_deviceIDMap p) j \<and> j \<noteq> ?k" by blast
  define p7 where "p7 = p6\<lparr>tp_deviceIDMap := m'\<rparr>"
  have p6: "tp_faults p6 = (\<lambda>_. None)" "dk_tid (tp_disk p6) = tp_TransactionID p6" "tp_ds p6 = ds2" "tp_deviceIDMap p6 = tp_deviceIDMap p"
    "dk_ids (tp_disk p6) = removeAll ?k (dk_ids (tp_disk p))"
    using o tid by (simp_all add: p6_def p5_def p4_def commit_def remove_file_def same_pool_def)
  have fr: "thin_markFree ?k p6 = Ret p7" using m'(1) p6(4) by (simp add: thin_markFree_def p7_def)
  have "tp_faults p7 = (\<lambda>_. None)" "dk_tid (tp_disk p7) = tp_TransactionID p7" using p6(1,2) by (simp_all add: p7_def)
  from closed [OF this] p6 obtain p8 where c: "closeTransaction p7 = (None, p8)" "tp_faults p8 = (\<lambda>_. None)" "tp_ds p8 = ds2"
    "tp_deviceIDMap p8 = m'" "dk_ids (tp_disk p8) = removeAll ?k (dk_ids (tp_disk p))" "dk_tid (tp_disk p8) = tp_TransactionID p8"
    by (auto simp: p7_def)
  have "deleteTransaction info True ?p2 = Ret (None, p8)"
    using o(1) dl un fr c(1) by (simp add: deleteTransaction_def i(2) p6_def Let_def)
  then have "thin_DeleteDevice h True p = Ret (None, p8)"
    using i m d2 by (simp add: thin_DeleteDevice_def thin_lookupDevice_def deleteDevice_def p1_def [symmetric]) (simp add: p1(1))
  moreover have "quiet p8" using c d2 by (simp add: quiet_def)
  moreover have "sound_ids p8" using ids m'(2,3) c by (auto simp: sound_ids_def)
  ultimately show ?thesis using vk m'(3) c(4) by auto
qed


text \<open>Steps that succeed and keep a property.\<close>

definition works :: "('s \<Rightarrow> bool) \<Rightarrow> 's action \<Rightarrow> bool" where
  "works I a \<longleftrightarrow> (\<forall>s. I s \<longrightarrow> (\<exists>s'. a s = Ret (None, s') \<and> I s'))"

lemma worksI: "(\<And>s. I s \<Longrightarrow> \<exists>s'. a s = Ret (None, s') \<and> I s') \<Longrightarrow> works I a"
  by (simp add: works_def)

lemma worksE:
  assumes "works I a" and "I s"
  obtains s' where "a s = Ret (None, s')" and "I s'"
  using assms by (auto simp: works_def)

lemma works_seq: "works I a \<Longrightarrow> works I b \<Longrightarrow> works I (seq a b)"
  by (fastforce simp: works_def seq_def)

lemma works_always: "works I a \<Longrightarrow> (\<And>s. I s \<Longrightarrow> I (f s)) \<Longrightarrow> works I (always a f)"
  by (fastforce simp: works_def always_def)

lemma works_wrapped: "works I a \<Longrightarrow> works I (wrapped msg a)"
  by (fastforce simp: works_def wrapped_def)

text \<open>No system call fails, every command succeeds, and the file system asked for is one the code knows.\<close>

definition able :: "'w base_set \<Rightarrow> bool" where
  "able s \<longleftrightarrow>
     quiet (bs_pool s) \<and> (\<forall>cmd w. \<exists>out w'. sy_run (bs_sys s) cmd w = (Inr out, w')) \<and>
     bs_filesystem s \<in> {[], ''ext4'', ''xfs''}"

lemma able_simps [simp]:
  "able (s\<lparr>bs_BaseDeviceUUID := u\<rparr>) = able s" "able (s\<lparr>bs_BaseDeviceFilesystem := f\<rparr>) = able s"
  "able (s\<lparr>bs_world := w, bs_log := l\<rparr>) = able s"
  by (simp_all add: able_def)

lemma able_activate: "\<not> ti_Deleted info \<Longrightarrow> works able (activate_thin info)"
  using activate_ok [of _ "mount_side info" False "ti_Hash info"]
  by (fastforce simp: works_def able_def activate_thin_def on_pool_def devs_of_def quiet_def mount_side_def)

lemma able_deactivate: "able s \<Longrightarrow> able (deactivate_thin info s)"
  using deactivate_ok [of "tp_ds (bs_pool s)" "ti_Hash info"]
  by (auto simp: able_def deactivate_thin_def devs_of_def quiet_def split: prod.splits)

lemma able_write:
  assumes "able s" and "\<not> prefix ''.'' file" and "p = (bs_pool s)\<lparr>tp_Devices := devs\<rparr>"
  shows "\<exists>p'. writeMetaFile j file p = (None, p') \<and> able (s\<lparr>bs_pool := p'\<rparr>)"
proof -
  have "tp_faults p = (\<lambda>_. None)" using assms(1,3) by (simp add: able_def quiet_def)
  from write_ok [OF this assms(2), of j] assms show ?thesis by (auto simp: able_def quiet_def)
qed

lemma able_save: "works able saveDeviceSetMetaData"
proof (rule worksI)
  fix s :: "'a base_set" assume "able s"
  from able_write [OF this visible_names(1), of "bs_pool s" "tp_Devices (bs_pool s)" "encode_set s"]
  show "\<exists>s'. saveDeviceSetMetaData s = Ret (None, s') \<and> able s'" by (auto simp: saveDeviceSetMetaData_def on_pool_def)
qed

lemma able_mark:
  assumes "ti_Hash info = []"
  shows "works able (on_pool (mark_initialized info))"
proof (rule worksI)
  fix s :: "'a base_set" assume "able s"
  let ?i = "info\<lparr>ti_Initialized := True\<rparr>"
  from able_write [OF \<open>able s\<close> visible_names(2) refl, of "encode_info ?i" "AList.update [] ?i (tp_Devices (bs_pool s))"] assms
  show "\<exists>s'. on_pool (mark_initialized info) s = Ret (None, s') \<and> able s'"
    by (auto simp: on_pool_def mark_initialized_def saveMetadata_def metadataFile_def set_thin_def Let_def)
qed

lemma able_Output:
  assumes "able s"
  shows "\<exists>out s'. exec_Output cmd s = (Inr out, s') \<and> able s' \<and> bs_filesystem s' = bs_filesystem s"
proof -
  from assms obtain out w where "sy_run (bs_sys s) cmd (bs_world s) = (Inr out, w)" unfolding able_def by blast
  with assms show ?thesis by (simp add: exec_Output_def)
qed

lemma able_run: "works able (exec_Run cmd)"
proof (rule worksI)
  fix s :: "'a base_set" assume "able s"
  from able_Output [OF this, of cmd] show "\<exists>s'. exec_Run cmd s = Ret (None, s') \<and> able s'" by (auto simp: exec_Run_def)
qed

lemma able_store: "works able (store_uuid info)"
proof (rule worksI)
  fix s :: "'a base_set" assume "able s"
  from able_Output [OF this, of "blkid_cmd (DevName s (ti_Hash info))"] obtain out s1 where
    e: "exec_Output (blkid_cmd (DevName s (ti_Hash info))) s = (Inr out, s1)" "able s1" by blast
  from e(2) have "able (s1\<lparr>bs_BaseDeviceUUID := trim_uuid out\<rparr>)" by simp
  then obtain s' where "saveDeviceSetMetaData (s1\<lparr>bs_BaseDeviceUUID := trim_uuid out\<rparr>) = Ret (None, s')" "able s'"
    by (rule worksE [OF able_save])
  with e(1) show "\<exists>s'. store_uuid info s = Ret (None, s') \<and> able s'" by (simp add: store_uuid_def getDeviceUUID_def)
qed

lemma able_make_fs:
  assumes fs: "fs = ''ext4'' \<or> fs = ''xfs''"
  shows "works able (make_fs fs args dev)"
proof (rule worksI)
  fix s :: "'a base_set" assume a: "able s"
  have r: "\<exists>s'. exec_Run cmd s = Ret (None, s') \<and> able s'" for cmd by (rule worksE [OF able_run a]) blast
  show "\<exists>s'. make_fs fs args dev s = Ret (None, s') \<and> able s'"
  proof (cases "fs = ''xfs''")
    case True
    with r show ?thesis by (simp add: make_fs_def)
  next
    case False
    obtain s1 where s1: "exec_Run ([''mkfs.ext4'', ''-E'', ''nodiscard,lazy_itable_init=0,lazy_journal_init=0''] @ args) s = Ret (None, s1)"
      "able s1" using r by blast
    obtain s2 where "exec_Run [''tune2fs'', ''-c'', ''-1'', ''-i'', ''0'', dev] s1 = Ret (None, s2)" "able s2"
      by (rule worksE [OF able_run s1(2)])
    with False fs s1(1) show ?thesis by (simp add: make_fs_def seq_def)
  qed
qed

lemma able_createFilesystem: "works able (createFilesystem info)"
proof (rule worksI)
  fix s :: "'a base_set" assume a: "able s"
  let ?s = "if bs_filesystem s = [] then (case determineDefaultFS s of (fs, s') \<Rightarrow> s'\<lparr>bs_filesystem := fs\<rparr>) else s"
  have s: "able ?s \<and> bs_filesystem ?s \<in> {''ext4'', ''xfs''}"
  proof (cases "bs_filesystem s = []")
    case False
    with a show ?thesis by (simp add: able_def)
  next
    case True
    obtain b s1 where d: "determineDefaultFS s = (b, s1)" by fastforce
    from able_Output [OF a, of "[''modprobe'', ''xfs'']"] have "able (snd (exec_Output [''modprobe'', ''xfs''] s))" by auto
    with a have "able s1 \<and> b \<in> {''ext4'', ''xfs''}"
      using d by (auto simp: determineDefaultFS_def xfsSupported_def Let_def split: if_splits sum.splits)
    with True d show ?thesis by (simp add: able_def)
  qed
  from s have "able (?s\<lparr>bs_BaseDeviceFilesystem := bs_filesystem ?s\<rparr>)" by simp
  then obtain s2 where s2: "saveDeviceSetMetaData (?s\<lparr>bs_BaseDeviceFilesystem := bs_filesystem ?s\<rparr>) = Ret (None, s2)" "able s2"
    by (rule worksE [OF able_save])
  have "bs_filesystem s2 = bs_filesystem ?s"
    using s2(1) by (auto simp: saveDeviceSetMetaData_def on_pool_def split: prod.splits)
  with s have "bs_filesystem s2 = ''ext4'' \<or> bs_filesystem s2 = ''xfs''" by auto
  from able_make_fs [OF this, of "bs_mkfsArgs s @ [DevName s (ti_Hash info)]" "DevName s (ti_Hash info)"] s2(2) obtain s3 where
    "make_fs (bs_filesystem s2) (bs_mkfsArgs s @ [DevName s (ti_Hash info)]) (DevName s (ti_Hash info)) s2 = Ret (None, s3)" "able s3"
    by (rule worksE)
  with s2(1) show "\<exists>s'. createFilesystem info s = Ret (None, s') \<and> able s'"
    by (simp add: createFilesystem_def Let_def saveBaseDeviceFilesystem_def seq_def)
qed

lemma createBaseImage_works:
  assumes a: "able s" and ids: "sound_ids (bs_pool s)" and free: "valid_id k" "\<not> used (tp_deviceIDMap (bs_pool s)) k"
  shows "\<exists>s'. createBaseImage s = Ret (None, s')"
proof -
  have "\<not> prefix ''.'' (metadataFile [])" using visible_names(2) by (simp add: metadataFile_def)
  from create_device_ok [OF _ ids free this] a obtain info p where c: "createRegisterDevice [] (bs_pool s) = Ret (Inr info, p)"
    "quiet p" "ti_Hash info = []" "\<not> ti_Deleted info" by (auto simp: able_def)
  have u: "works able (wrapped msg (saveBaseDeviceUUID (info\<lparr>ti_Initialized := True\<rparr>)))" for msg
    unfolding saveBaseDeviceUUID_def
    by (intro works_wrapped works_seq works_always able_store) (auto intro: able_activate able_deactivate simp: c(4))
  have "works able (seq (activate_thin info) (seq (createFilesystem info) (seq (on_pool (mark_initialized info))
      (wrapped ''devmapper: Could not query and save base device UUID'' (saveBaseDeviceUUID (info\<lparr>ti_Initialized := True\<rparr>))))))"
    by (intro works_seq able_activate able_createFilesystem able_mark c u)
  moreover have "able (s\<lparr>bs_pool := p\<rparr>)" using a c(2) by (simp add: able_def)
  ultimately show ?thesis using c(1) by (auto simp: createBaseImage_def works_def)
qed

lemma setup_completes:
  assumes "able s" and "sound_ids (bs_pool s)" and "thin_lookupDevice [] (bs_pool s) = Ret (q, p)"
    and "\<And>e. q = Inl e \<Longrightarrow> (\<exists>k. valid_id k \<and> \<not> used (tp_deviceIDMap (bs_pool s)) k) \<and>
           (bs_thinPoolDevice s = [] \<or> (\<exists>u. bs_usage s = Inr u \<and> pu_dataUsed u = 0 \<and> dk_tid (tp_disk (bs_pool s)) = 0))"
    and "\<And>info. q = Inr info \<Longrightarrow> (\<not> ti_Initialized info \<or> ti_Deleted info) \<and> ti_Hash info = [] \<and>
           ti_DeviceID info \<in> set (dk_ids (tp_disk (bs_pool s))) \<and> map_of (ds_Devices (tp_ds (bs_pool s))) [] = None"
  shows "\<exists>s' s1. setupBaseImage s = Ret (None, s') \<and> createBaseImage s1 = Ret (None, s') \<and> bs_log s1 = bs_log s \<and>
     tp_baseFsSize (bs_pool s1) = tp_baseFsSize (bs_pool s)"
proof (cases q)
  case (Inl e)
  have p: "p = bs_pool s" using assms(3) Inl by (auto simp: thin_lookupDevice_def split: option.splits)
  from assms(4) [OF Inl] obtain k where k: "valid_id k" "\<not> used (tp_deviceIDMap (bs_pool s)) k" by blast
  from createBaseImage_works [OF assms(1,2) k] obtain s' where c: "createBaseImage s = Ret (None, s')" by blast
  with assms(1,3) assms(4) [OF Inl] Inl p have "setupBaseImage s = Ret (None, s')"
    by (auto simp: setupBaseImage_def Let_def seq_def checkThinPool_def poolStatus_def able_def quiet_def)
  with c show ?thesis by blast
next
  case (Inr info)
  from lookup_frame [OF assms(3)] Inr obtain devs where p: "p = (bs_pool s)\<lparr>tp_Devices := devs\<rparr>" "map_of devs [] = Some info" by blast
  note i = assms(5) [OF Inr]
  have q: "quiet p" "sound_ids p" using assms(1,2) p(1) by (simp_all add: able_def quiet_def sound_ids_def)
  from delete_device_ok [OF q, of "[]" info] i p obtain p' where d: "thin_DeleteDevice [] True p = Ret (None, p')" "quiet p'" "sound_ids p'"
    "valid_id (ti_DeviceID info)" "\<not> used (tp_deviceIDMap p') (ti_DeviceID info)" by auto
  have "able (s\<lparr>bs_pool := p'\<rparr>)" using assms(1) d(2) by (simp add: able_def)
  from createBaseImage_works [OF this, of "ti_DeviceID info"] d obtain s' where c: "createBaseImage (s\<lparr>bs_pool := p'\<rparr>) = Ret (None, s')" by auto
  with d i assms(3) Inr have "setupBaseImage s = Ret (None, s')"
    by (auto simp: setupBaseImage_def Let_def seq_def on_pool_out_def)
  moreover have "tp_baseFsSize p' = tp_baseFsSize (bs_pool s)" using size_DeleteDevice [OF d(1)] p(1) by simp
  ultimately show ?thesis using c by (intro exI [of _ s'] exI [of _ "s\<lparr>bs_pool := p'\<rparr>"]) simp
qed

text \<open>
  C14: Setting up makes progress: when nothing fails, a missing base device is created, and one whose creation was cut
  short, or that is marked for deletion, is replaced.  Set-up then reports success, a file system has been made, and there is an
  initialised base device that is not marked deleted, of the size asked for, whose thin device is in the pool, whose metadata file is
  written and whose UUID is the one \<open>blkid\<close> printed.
\<close>

theorem base_image_completed:
  assumes "able s" and "sound_ids (bs_pool s)" and "thin_lookupDevice [] (bs_pool s) = Ret (q, p)"
    and "\<And>e. q = Inl e \<Longrightarrow> (\<exists>k. valid_id k \<and> \<not> used (tp_deviceIDMap (bs_pool s)) k) \<and>
           (bs_thinPoolDevice s = [] \<or> (\<exists>u. bs_usage s = Inr u \<and> pu_dataUsed u = 0 \<and> dk_tid (tp_disk (bs_pool s)) = 0))"
    and "\<And>info. q = Inr info \<Longrightarrow> (\<not> ti_Initialized info \<or> ti_Deleted info) \<and> ti_Hash info = [] \<and>
           ti_DeviceID info \<in> set (dk_ids (tp_disk (bs_pool s))) \<and> map_of (ds_Devices (tp_ds (bs_pool s))) [] = None"
  shows "\<exists>s' i cmds. setupBaseImage s = Ret (None, s') \<and> base_of s' = Some i \<and> ti_Initialized i \<and> \<not> ti_Deleted i \<and>
     ti_Size i = tp_baseFsSize (bs_pool s) \<and> ti_DeviceID i \<in> set (dk_ids (tp_disk (bs_pool s'))) \<and>
     vfile (tp_disk (bs_pool s')) ''base'' = Some (JsonDoc (encode_info i)) \<and> confirmed s' \<and>
     bs_log s' = cmds @ bs_log s \<and> (\<exists>c \<in> set cmds. hd c \<in> {''mkfs.ext4'', ''mkfs.xfs''})"
proof -
  have "\<exists>s' s1. setupBaseImage s = Ret (None, s') \<and> createBaseImage s1 = Ret (None, s') \<and> bs_log s1 = bs_log s \<and>
     tp_baseFsSize (bs_pool s1) = tp_baseFsSize (bs_pool s)" by (rule setup_completes [OF assms])
  then obtain s' s1 where "setupBaseImage s = Ret (None, s')" "createBaseImage s1 = Ret (None, s')"
    "bs_log s1 = bs_log s" "tp_baseFsSize (bs_pool s1) = tp_baseFsSize (bs_pool s)" by blast
  with createBaseImage_done [of s1 s'] show ?thesis by (auto simp: mkfs_run_def)
qed

text \<open>
  The error of the lookup is dropped, so a base device whose metadata file cannot be loaded counts as missing: with the loopback
  devices, set-up alone would make a new base device with a new file system and report success.  What prevents it is the scan of the
  metadata files before, which refuses one that it cannot load.
\<close>

lemma undecodable_base_replaced:
  assumes "able s" and "sound_ids (bs_pool s)" and "thin_lookupDevice [] (bs_pool s) = Ret (Inl e, p)" and "bs_thinPoolDevice s = []"
    and "valid_id k" and "\<not> used (tp_deviceIDMap (bs_pool s)) k"
  shows "\<exists>s'. setupBaseImage s = Ret (None, s') \<and> mkfs_run (bs_log s) (bs_log s')"
proof -
  from setup_completes [OF assms(1-3)] assms(4-6) obtain s' s1 where
    "setupBaseImage s = Ret (None, s')" "createBaseImage s1 = Ret (None, s')" "bs_log s1 = bs_log s" by auto
  with createBaseImage_done [of s1 s'] show ?thesis by auto
qed


section \<open>A growth that fails\<close>

text \<open>What does not change while the base device is verified and grown.\<close>

definition settled :: "'w base_set \<Rightarrow> 'w base_set \<Rightarrow> bool" where
  "settled s s' \<longleftrightarrow>
     quiet (bs_pool s') \<and> bs_sys s' = bs_sys s \<and> bs_devicePrefix s' = bs_devicePrefix s \<and> bs_userBaseSize s' = bs_userBaseSize s \<and>
     bs_BaseDeviceFilesystem s' = bs_BaseDeviceFilesystem s \<and> tp_baseFsSize (bs_pool s') = tp_baseFsSize (bs_pool s)"

lemma settled_DevName: "settled s s' \<Longrightarrow> DevName s' = DevName s"
  by (simp add: settled_def DevName_def info_Name_def fun_eq_iff)

lemma quiet_deactivate: "quiet (bs_pool s) \<Longrightarrow> quiet (bs_pool (deactivate_thin i s))"
  using deactivate_ok [of "tp_ds (bs_pool s)" "ti_Hash i"] by (auto simp: quiet_def deactivate_thin_def devs_of_def)

lemma deactivate_simps [simp]:
  "bs_sys (deactivate_thin i s) = bs_sys s" "bs_devicePrefix (deactivate_thin i s) = bs_devicePrefix s"
  "bs_userBaseSize (deactivate_thin i s) = bs_userBaseSize s" "bs_BaseDeviceFilesystem (deactivate_thin i s) = bs_BaseDeviceFilesystem s"
  "tp_baseFsSize (bs_pool (deactivate_thin i s)) = tp_baseFsSize (bs_pool s)" "bs_log (deactivate_thin i s) = bs_log s"
  "tp_disk (bs_pool (deactivate_thin i s)) = tp_disk (bs_pool s)" "tp_Devices (bs_pool (deactivate_thin i s)) = tp_Devices (bs_pool s)"
  by (simp_all add: deactivate_thin_def devs_of_def split: prod.split)

lemma activated:
  assumes "quiet (bs_pool s)" and "\<not> ti_Deleted info"
  obtains ds where "activate_thin info s = Ret (None, s\<lparr>bs_pool := (bs_pool s)\<lparr>tp_ds := ds\<rparr>\<rparr>)" and "ds_faults ds = (\<lambda>_ _. None)"
  using activate_ok [of "tp_ds (bs_pool s)" "mount_side info" False "ti_Hash info"] assms
  by (auto simp: quiet_def mount_side_def activate_thin_def on_pool_def devs_of_def)

lemma verified:
  assumes q: "quiet (bs_pool s)" and i: "\<not> ti_Deleted info" "ti_Hash info = []"
    and u: "bs_BaseDeviceUUID s \<noteq> []" "trim_uuid out = bs_BaseDeviceUUID s" and f: "bs_BaseDeviceFilesystem s \<noteq> []"
    and b: "\<forall>w. \<exists>w'. sy_run (bs_sys s) (blkid_cmd (DevName s [])) w = (Inr out, w')"
  shows "\<exists>s'. setupVerifyBaseImageUUIDFS info s = Ret (None, s') \<and> settled s s' \<and> tp_Devices (bs_pool s') = tp_Devices (bs_pool s) \<and>
     tp_disk (bs_pool s') = tp_disk (bs_pool s) \<and> bs_log s' = blkid_cmd (DevName s []) # bs_log s"
proof -
  obtain ds where a: "activate_thin info s = Ret (None, s\<lparr>bs_pool := (bs_pool s)\<lparr>tp_ds := ds\<rparr>\<rparr>)" "ds_faults ds = (\<lambda>_ _. None)"
    by (rule activated [OF q i(1)])
  obtain w where w: "sy_run (bs_sys s) (blkid_cmd (DevName s [])) (bs_world s) = (Inr out, w)" using b by blast
  have d: "DevName (s\<lparr>bs_pool := x\<rparr>) h = DevName s h" for x h by (simp add: DevName_def info_Name_def)
  let ?s = "s\<lparr>bs_pool := (bs_pool s)\<lparr>tp_ds := ds\<rparr>, bs_world := w, bs_log := blkid_cmd (DevName s []) # bs_log s, bs_filesystem := bs_BaseDeviceFilesystem s\<rparr>"
  have "quiet (bs_pool ?s)" using q a(2) by (simp add: quiet_def)
  then have "settled s (deactivate_thin info ?s)" using quiet_deactivate [of ?s info] by (simp add: settled_def)
  moreover have "setupVerifyBaseImageUUIDFS info s = Ret (None, deactivate_thin info ?s)"
    using a(1) w u f i(2)
    by (simp add: setupVerifyBaseImageUUIDFS_def verifyBaseDeviceUUIDFS_def wrapped_def seq_def always_def verify_uuid_def getDeviceUUID_def
        exec_Output_def probe_fs_def d)
  ultimately show ?thesis by simp
qed

lemma growFS_fails:
  assumes q: "quiet (bs_pool s)" and i: "\<not> ti_Deleted info" "ti_Hash info = []" and f: "bs_BaseDeviceFilesystem s = ''ext4''"
    and b: "\<forall>w. \<exists>e w'. sy_run (bs_sys s) [''resize2fs'', DevName s []] w = (Inl e, w')"
  shows "\<exists>e s'. growFS info s = Ret (Some e, s') \<and> tp_disk (bs_pool s') = tp_disk (bs_pool s)"
proof -
  obtain ds where a: "activate_thin info s = Ret (None, s\<lparr>bs_pool := (bs_pool s)\<lparr>tp_ds := ds\<rparr>\<rparr>)" "ds_faults ds = (\<lambda>_ _. None)"
    by (rule activated [OF q i(1)])
  define I where "I t \<longleftrightarrow> bs_BaseDeviceFilesystem t = ''ext4'' \<and> bs_sys t = bs_sys s \<and> bs_devicePrefix t = bs_devicePrefix s \<and>
      tp_disk (bs_pool t) = tp_disk (bs_pool s)" for t :: "'a base_set"
  have I_ds: "I (update_ds g t) = I t" "I (t\<lparr>bs_mnt := m\<rparr>) = I t" for g t m by (simp_all add: I_def update_ds_def)
  have I_rm: "I (remove_mnt t) = I t" for t by (simp add: remove_mnt_def I_ds split: option.split)
  have resize: "\<exists>e t'. resize_fs info t = Ret (Some e, t') \<and> I t'" if "I t" for t
  proof -
    have "DevName t [] = DevName s []" using that by (simp add: I_def DevName_def info_Name_def)
    moreover obtain e w' where "sy_run (bs_sys s) [''resize2fs'', DevName s []] (bs_world t) = (Inl e, w')" using b by blast
    ultimately show ?thesis using that i(2) by (simp add: I_def resize_fs_def wrapped_def exec_Run_def exec_Output_def)
  qed
  have mounted: "\<exists>e t'. grow_mounted info t = Ret (Some e, t') \<and> I t'" if It: "I t" for t
  proof -
    obtain e t' where "resize_fs info (update_ds (mount_Mount fsMountPoint (ti_Hash info)) t) = Ret (Some e, t')" "I t'"
      using resize [of "update_ds (mount_Mount fsMountPoint (ti_Hash info)) t"] It by (auto simp: I_ds)
    with It show ?thesis by (auto simp: grow_mounted_def Let_def always_def I_ds split: option.split)
  qed
  have at: "\<exists>e t'. grow_at info t = Ret (Some e, t') \<and> I t'" if "I t" for t
  proof -
    from mounted [of "t\<lparr>bs_mnt := True\<rparr>"] mounted [OF that] that obtain e1 t1 e2 t2 where
      "grow_mounted info (t\<lparr>bs_mnt := True\<rparr>) = Ret (Some e1, t1)" "I t1" "grow_mounted info t = Ret (Some e2, t2)" "I t2"
      by (auto simp: I_ds)
    with that show ?thesis by (cases "sy_mkdirMnt (bs_sys t)") (auto simp: grow_at_def always_def I_rm)
  qed
  have "I (s\<lparr>bs_pool := (bs_pool s)\<lparr>tp_ds := ds\<rparr>\<rparr>)" using f by (simp add: I_def)
  from at [OF this] obtain e t where "grow_at info (s\<lparr>bs_pool := (bs_pool s)\<lparr>tp_ds := ds\<rparr>\<rparr>) = Ret (Some e, t)" "I t" by blast
  with a(1) show ?thesis by (simp add: growFS_def seq_def wrapped_def always_def I_def)
qed

text \<open>The next start after a run that ended in \<open>s1\<close>: the memory is empty, the disk is what that run left.\<close>

definition restarted :: "'w base_set \<Rightarrow> 'w base_set \<Rightarrow> bool" where
  "restarted s1 t \<longleftrightarrow> tp_disk (bs_pool t) = tp_disk (bs_pool s1) \<and> tp_Devices (bs_pool t) = []"

lemma growth_saved_then_fails:
  assumes q: "quiet (bs_pool s)" and i: "base_of s = Some info" "ti_Initialized info" "\<not> ti_Deleted info" "ti_Hash info = []"
    and sz: "bs_userBaseSize s" "ti_Size info < tp_baseFsSize (bs_pool s)"
    and u: "bs_BaseDeviceUUID s \<noteq> []" "trim_uuid out = bs_BaseDeviceUUID s" and f: "bs_BaseDeviceFilesystem s = ''ext4''"
    and b: "\<forall>w. \<exists>w'. sy_run (bs_sys s) (blkid_cmd (DevName s [])) w = (Inr out, w')"
    and r: "\<forall>w. \<exists>e w'. sy_run (bs_sys s) [''resize2fs'', DevName s []] w = (Inl e, w')"
  shows "\<exists>e s1. setupBaseImage s = Ret (Some e, s1) \<and>
     vfile (tp_disk (bs_pool s1)) ''base'' = Some (JsonDoc (encode_info (info\<lparr>ti_Size := tp_baseFsSize (bs_pool s)\<rparr>)))"
proof -
  let ?i = "info\<lparr>ti_Size := tp_baseFsSize (bs_pool s)\<rparr>"
  have f': "bs_BaseDeviceFilesystem s \<noteq> []" using f by simp
  from verified [OF q i(3,4) u f' b] obtain s2 where v: "setupVerifyBaseImageUUIDFS info s = Ret (None, s2)" "settled s s2"
    "tp_Devices (bs_pool s2) = tp_Devices (bs_pool s)" by blast
  note S = v(2) [unfolded settled_def]
  have ne: "\<not> tp_baseFsSize (bs_pool s) < ti_Size info" "tp_baseFsSize (bs_pool s) \<noteq> ti_Size info" using sz(2) by auto
  let ?p = "(bs_pool s2)\<lparr>tp_Devices := AList.update [] ?i (tp_Devices (bs_pool s2))\<rparr>"
  have "tp_faults ?p = (\<lambda>_. None)" using S by (simp add: quiet_def)
  from write_ok [OF this visible_names(2), of "encode_info ?i"] obtain d t where
    w: "writeMetaFile (encode_info ?i) ''base'' ?p = (None, ?p\<lparr>tp_disk := d, tp_trace := t\<rparr>)"
    "vfile d ''base'' = Some (JsonDoc (encode_info ?i))" by auto
  let ?s3 = "s2\<lparr>bs_pool := ?p\<lparr>tp_disk := d, tp_trace := t\<rparr>\<rparr>"
  have g: "quiet (bs_pool ?s3)" "\<not> ti_Deleted ?i" "ti_Hash ?i = []" "bs_BaseDeviceFilesystem ?s3 = ''ext4''"
    "\<forall>w. \<exists>e w'. sy_run (bs_sys ?s3) [''resize2fs'', DevName ?s3 []] w = (Inl e, w')"
    using S i f r settled_DevName [OF v(2)] by (simp_all add: quiet_def DevName_def info_Name_def)
  from growFS_fails [OF g] obtain e s1 where gr: "growFS ?i ?s3 = Ret (Some e, s1)" "tp_disk (bs_pool s1) = d" by auto
  have "set_thin ?i (bs_pool s2) = ?p" using i(4) by (simp add: set_thin_def)
  then have "resize_base info s2 = Ret (Some e, s1)"
    using S w(1) gr(1) i(4) by (simp add: resize_base_def seq_def on_pool_def saveMetadata_def metadataFile_def)
  moreover have "getBaseDeviceSize (bs_pool s2) = Ret (ti_Size info, bs_pool s2)"
    using i(1) v(3) by (simp add: getBaseDeviceSize_def thin_lookupDevice_def)
  ultimately have "checkGrowBaseDeviceFS info s2 = Ret (Some e, s1)"
    using S sz(1) ne by (simp add: checkGrowBaseDeviceFS_def Let_def)
  moreover have "thin_lookupDevice [] (bs_pool s) = Ret (Inr info, bs_pool s)" using i(1) by (simp add: thin_lookupDevice_def)
  ultimately have "setupBaseImage s = Ret (Some e, s1)" using v(1) i by (simp add: setupBaseImage_def Let_def seq_def)
  with gr(2) w(2) show ?thesis by blast
qed

lemma next_start_content:
  assumes q: "quiet (bs_pool s)" and i: "ti_Initialized info" "\<not> ti_Deleted info" "ti_Hash info = []"
    and k: "0 \<le> ti_DeviceID info" "ti_DeviceID info \<le> maxDeviceID" and size: "ti_Size info = tp_baseFsSize (bs_pool s)"
    and u: "bs_BaseDeviceUUID s \<noteq> []" "trim_uuid out = bs_BaseDeviceUUID s" and f: "bs_BaseDeviceFilesystem s \<noteq> []"
    and b: "\<forall>w. \<exists>w'. sy_run (bs_sys s) (blkid_cmd (DevName s [])) w = (Inr out, w')"
    and saved: "vfile (tp_disk (bs_pool t)) ''base'' = Some (JsonDoc (encode_info info))"
    and t: "tp_Devices (bs_pool t) = []" "settled s t" "bs_BaseDeviceUUID t = bs_BaseDeviceUUID s"
  shows "\<exists>t'. setupBaseImage t = Ret (None, t') \<and> bs_log t' = blkid_cmd (DevName s []) # bs_log t"
proof -
  note T = t(2) [unfolded settled_def]
  have d: "decode_info [] (JsonDoc (encode_info info)) = Ret (Some info)" using decode_encode_info [of info] k i(3) by simp
  have "map_of (dk_files (tp_disk (bs_pool t))) ''base'' = Some (JsonDoc (encode_info info))"
    using saved visible_names(2) by (simp add: vfile_def)
  then have "loadMetadata [] (bs_pool t) = Ret (Some info)"
    using T d by (simp add: loadMetadata_def read_meta_def metadataFile_def quiet_def)
  then have l: "thin_lookupDevice [] (bs_pool t) = Ret (Inr info, (bs_pool t)\<lparr>tp_Devices := [([], info)]\<rparr>)"
    using t(1) by (simp add: thin_lookupDevice_def)
  let ?t = "t\<lparr>bs_pool := (bs_pool t)\<lparr>tp_Devices := [([], info)]\<rparr>\<rparr>"
  have c: "quiet (bs_pool ?t)" "bs_BaseDeviceUUID ?t \<noteq> []" "trim_uuid out = bs_BaseDeviceUUID ?t" "bs_BaseDeviceFilesystem ?t \<noteq> []"
    "\<forall>w. \<exists>w'. sy_run (bs_sys ?t) (blkid_cmd (DevName ?t [])) w = (Inr out, w')"
    using T t(3) u f b settled_DevName [OF t(2)] by (simp_all add: quiet_def DevName_def info_Name_def)
  from verified [OF c(1) i(2,3) c(2-5)] obtain t2 where t2: "setupVerifyBaseImageUUIDFS info ?t = Ret (None, t2)" "settled ?t t2"
    "tp_Devices (bs_pool t2) = [([], info)]" "bs_log t2 = blkid_cmd (DevName ?t []) # bs_log t" by auto
  have "getBaseDeviceSize (bs_pool t2) = Ret (tp_baseFsSize (bs_pool s), bs_pool t2)"
    using t2(3) size by (simp add: getBaseDeviceSize_def thin_lookupDevice_def)
  moreover have "tp_baseFsSize (bs_pool t2) = tp_baseFsSize (bs_pool s)" using t2(2) T by (simp add: settled_def)
  ultimately have "checkGrowBaseDeviceFS info t2 = Ret (None, t2)" by (simp add: checkGrowBaseDeviceFS_def Let_def)
  moreover have "DevName ?t [] = DevName s []" using T by (simp add: DevName_def info_Name_def)
  ultimately show ?thesis using l t2(1,4) i by (simp add: setupBaseImage_def Let_def seq_def)
qed

text \<open>
  C37: A failed growth is never retried.  The new size is saved before the file system is grown; when \<open>resize2fs\<close>
  fails, set-up reports the error, but at the next start the sizes agree: set-up reports success having run \<open>blkid\<close>
  only, and the file system keeps its old size.
\<close>

theorem failed_growth_never_retried:
  assumes q: "quiet (bs_pool s)" and i: "base_of s = Some info" "ti_Initialized info" "\<not> ti_Deleted info" "ti_Hash info = []"
    and k: "0 \<le> ti_DeviceID info" "ti_DeviceID info \<le> maxDeviceID"
    and sz: "bs_userBaseSize s" "ti_Size info < tp_baseFsSize (bs_pool s)"
    and u: "bs_BaseDeviceUUID s \<noteq> []" "trim_uuid out = bs_BaseDeviceUUID s" and f: "bs_BaseDeviceFilesystem s = ''ext4''"
    and b: "\<forall>w. \<exists>w'. sy_run (bs_sys s) (blkid_cmd (DevName s [])) w = (Inr out, w')"
    and r: "\<forall>w. \<exists>e w'. sy_run (bs_sys s) [''resize2fs'', DevName s []] w = (Inl e, w')"
  shows "\<exists>e s1. setupBaseImage s = Ret (Some e, s1) \<and>
     (\<forall>t. restarted s1 t \<and> settled s t \<and> bs_BaseDeviceUUID t = bs_BaseDeviceUUID s \<longrightarrow>
        (\<exists>t'. setupBaseImage t = Ret (None, t') \<and> bs_log t' = blkid_cmd (DevName s []) # bs_log t))"
proof -
  have f': "bs_BaseDeviceFilesystem s \<noteq> []" using f by simp
  from growth_saved_then_fails [OF q i sz u f b r] obtain e s1 where run: "setupBaseImage s = Ret (Some e, s1)"
    and saved: "vfile (tp_disk (bs_pool s1)) ''base'' = Some (JsonDoc (encode_info (info\<lparr>ti_Size := tp_baseFsSize (bs_pool s)\<rparr>)))"
    by blast
  have "\<exists>t'. setupBaseImage t = Ret (None, t') \<and> bs_log t' = blkid_cmd (DevName s []) # bs_log t"
    if t: "restarted s1 t" "settled s t" "bs_BaseDeviceUUID t = bs_BaseDeviceUUID s" for t
    by (rule next_start_content [OF q, of "info\<lparr>ti_Size := tp_baseFsSize (bs_pool s)\<rparr>" out])
      (use i(2-4) k u f' b saved t in \<open>simp_all add: restarted_def\<close>)
  with run show ?thesis by blast
qed


section \<open>Witnesses\<close>

text \<open>A device set over the small pool, with programs of which only \<open>resize2fs\<close> fails.\<close>

definition demo_sys :: "unit sysops" where
  "demo_sys = \<lparr>sy_run = (\<lambda>cmd w. (if hd cmd = ''resize2fs'' then Inl (EOther 1) else Inr ''u'', w)), sy_lookPath = (\<lambda>_. True),
     sy_procFilesystems = (\<lambda>_. Inl ENOENT), sy_device = (\<lambda>_ _. Inl ENOENT), sy_mount = (\<lambda>_ _ _ _. None), sy_statMnt = None,
     sy_mkdirMnt = None, sy_rmMnt = None\<rparr>"

definition demo_set :: "thin_pool \<Rightarrow> string \<Rightarrow> unit base_set" where
  "demo_set p uuid = \<lparr>bs_pool = p, bs_devicePrefix = ''docker'', bs_filesystem = [], bs_mountOptions = [], bs_mkfsArgs = [],
     bs_thinPoolDevice = ''pool'', bs_BaseDeviceUUID = uuid, bs_BaseDeviceFilesystem = ''ext4'', bs_userBaseSize = True,
     bs_usage = Inr \<lparr>pu_sectors = 0, pu_dataUsed = 1, pu_dataTotal = 1, pu_metaUsed = 1, pu_metaTotal = 1\<rparr>, bs_mnt = False,
     bs_sys = demo_sys, bs_world = (), bs_log = []\<rparr>"

lemma trim_u: "trim_uuid ''u'' = ''u''"
  by code_simp

lemma demo_quiet: "quiet (demo_pool (\<lambda>_. None))"
  by (simp add: quiet_def demo_pool_def fresh_set_def demo_ds_def)

lemma demo_set_simps [simp]:
  "bs_pool (demo_set p u) = p" "bs_sys (demo_set p u) = demo_sys" "bs_BaseDeviceUUID (demo_set p u) = u"
  "bs_BaseDeviceFilesystem (demo_set p u) = ''ext4''" "bs_userBaseSize (demo_set p u)" "bs_thinPoolDevice (demo_set p u) = ''pool''"
  "bs_log (demo_set p u) = []" "bs_filesystem (demo_set p u) = []"
  by (simp_all add: demo_set_def)

lemma demo_base_of: "map_of (tp_Devices (demo_pool f)) [] = Some demo_base" "tp_baseFsSize (demo_pool f) = 10 * 1024 * 1024 * 1024"
  by (simp_all add: demo_pool_def fresh_set_def)

lemma demo_resize: "\<forall>w. \<exists>e w'. sy_run demo_sys [''resize2fs'', d] w = (Inl e, w')"
  and demo_blkid: "\<forall>w. \<exists>w'. sy_run demo_sys (blkid_cmd d) w = (Inr ''u'', w')"
  by (simp_all add: demo_sys_def blkid_cmd_def)

lemma failed_growth_never_retried_witness:
  "\<exists>e s1. setupBaseImage (demo_set (demo_pool (\<lambda>_. None)) ''u'') = Ret (Some e, s1) \<and>
     (\<forall>t. restarted s1 t \<and> settled (demo_set (demo_pool (\<lambda>_. None)) ''u'') t \<and> bs_BaseDeviceUUID t = ''u'' \<longrightarrow>
        (\<exists>t'. setupBaseImage t = Ret (None, t')))"
proof -
  have "(4096 :: 64 word) < 10 * 1024 * 1024 * 1024" by simp
  then have "ti_Size demo_base < tp_baseFsSize (demo_pool (\<lambda>_. None))" unfolding demo_base_of(2) by (simp add: demo_base_def)
  with failed_growth_never_retried [of "demo_set (demo_pool (\<lambda>_. None)) ''u''" demo_base "''u''"] demo_quiet demo_base_of(1) demo_resize demo_blkid trim_u
  show ?thesis by (simp add: demo_base_def maxDeviceID_def) blast
qed

lemma foreign_base_refused_witness:
  "\<exists>e s'. setupBaseImage (demo_set (demo_pool (\<lambda>_. None)) ''v'') = Ret (Some e, s') \<and> tp_disk (bs_pool s') = demo_disk"
proof -
  have "thin_lookupDevice [] (demo_pool (\<lambda>_. None)) = Ret (Inr demo_base, demo_pool (\<lambda>_. None))"
    using demo_base_of(1) by (simp add: thin_lookupDevice_def)
  with foreign_base_refused [of "demo_set (demo_pool (\<lambda>_. None)) ''v''" demo_base "demo_pool (\<lambda>_. None)"] trim_u
  show ?thesis by (simp add: demo_base_def demo_sys_def blkid_cmd_def demo_pool_def fresh_set_def) blast
qed

lemma used_pool_refused_witness:
  "\<exists>e s'. setupBaseImage (demo_set (fresh_set (demo_disk\<lparr>dk_files := []\<rparr>) demo_ds) []) = Ret (Some e, s') \<and> bs_log s' = []"
proof -
  have "thin_lookupDevice [] (fresh_set (demo_disk\<lparr>dk_files := []\<rparr>) demo_ds) = Ret (Inl (ErrText (''devmapper: Unknown device '' @ [])),
      fresh_set (demo_disk\<lparr>dk_files := []\<rparr>) demo_ds)"
    by (simp add: thin_lookupDevice_def loadMetadata_def read_meta_def fresh_set_def)
  with used_pool_refused [of "demo_set (fresh_set (demo_disk\<lparr>dk_files := []\<rparr>) demo_ds) []"] show ?thesis
    by (auto simp: demo_disk_def fresh_set_def)
qed

text \<open>A base device whose creation was cut short: its file system was never made.\<close>

definition half_made :: thin_info where
  "half_made = demo_base\<lparr>ti_Initialized := False\<rparr>"

definition half_pool :: thin_pool where
  "half_pool = (demo_pool (\<lambda>_. None))\<lparr>tp_Devices := [([], half_made)]\<rparr>"

definition helpful_sys :: "unit sysops" where
  "helpful_sys = demo_sys\<lparr>sy_run := (\<lambda>cmd w. (Inr ''u'', w))\<rparr>"

lemma half_able: "able ((demo_set half_pool ''u'')\<lparr>bs_sys := helpful_sys\<rparr>)"
  using demo_quiet by (simp add: able_def helpful_sys_def half_pool_def quiet_def)

lemma half_sound: "sound_ids half_pool"
proof -
  have "used (tp_deviceIDMap half_pool) 0" by (simp add: half_pool_def demo_pool_def used_def deviceIDMapSz_def)
  then show ?thesis
    by (simp add: sound_ids_def half_pool_def demo_pool_def fresh_set_def demo_disk_def bitmap_ok_def valid_id_def maxDeviceID_def)
qed

lemma half_lookup: "thin_lookupDevice [] half_pool = Ret (Inr half_made, half_pool)"
  by (simp add: thin_lookupDevice_def half_pool_def)

lemma half_facts: "\<not> ti_Initialized half_made" "ti_Hash half_made = []" "ti_DeviceID half_made = 0" "dk_ids (tp_disk half_pool) = [0]"
  "map_of (ds_Devices (tp_ds half_pool)) [] = None"
  by (simp_all add: half_made_def demo_base_def half_pool_def demo_pool_def fresh_set_def demo_disk_def demo_ds_def)

lemma base_image_completed_witness:
  "\<exists>s' i. setupBaseImage ((demo_set half_pool ''u'')\<lparr>bs_sys := helpful_sys\<rparr>) = Ret (None, s') \<and> base_of s' = Some i \<and>
     ti_Initialized i \<and> ti_DeviceID i \<in> set (dk_ids (tp_disk (bs_pool s')))"
  using base_image_completed [OF half_able, of "Inr half_made" half_pool] half_sound half_lookup half_facts by auto

text \<open>The same pool when the metadata file of the base device is damaged.\<close>

definition damaged_pool :: thin_pool where
  "damaged_pool = half_pool\<lparr>tp_Devices := [], tp_disk := (tp_disk half_pool)\<lparr>dk_files := [(''base'', Raw ''{'')]\<rparr>\<rparr>"

lemma undecodable_base_replaced_witness:
  "\<exists>s' cmds. setupBaseImage ((demo_set damaged_pool ''u'')\<lparr>bs_sys := helpful_sys, bs_thinPoolDevice := []\<rparr>) = Ret (None, s') \<and>
     bs_log s' = cmds \<and> (\<exists>c \<in> set cmds. hd c \<in> {''mkfs.ext4'', ''mkfs.xfs''})"
proof -
  let ?s = "(demo_set damaged_pool ''u'')\<lparr>bs_sys := helpful_sys, bs_thinPoolDevice := []\<rparr>"
  have a: "able ?s" using demo_quiet by (simp add: able_def helpful_sys_def damaged_pool_def half_pool_def quiet_def)
  have i: "sound_ids damaged_pool" using half_sound by (simp add: sound_ids_def damaged_pool_def)
  have "\<exists>e. thin_lookupDevice [] damaged_pool = Ret (Inl e, damaged_pool)"
    by (simp add: thin_lookupDevice_def loadMetadata_def read_meta_def metadataFile_def decode_info_def damaged_pool_def half_pool_def
        demo_pool_def fresh_set_def)
  then obtain e where l: "thin_lookupDevice [] damaged_pool = Ret (Inl e, damaged_pool)" by blast
  have "valid_id 1 \<and> \<not> used (tp_deviceIDMap damaged_pool) 1"
    by (simp add: damaged_pool_def half_pool_def demo_pool_def used_def deviceIDMapSz_def valid_id_def maxDeviceID_def)
  with undecodable_base_replaced [of ?s e damaged_pool 1] a i l show ?thesis by (auto simp: mkfs_run_def)
qed

lemma base_image_ready_witness:
  "\<exists>s' i. setupBaseImage ((demo_set half_pool ''u'')\<lparr>bs_sys := helpful_sys\<rparr>) = Ret (None, s') \<and> base_of s' = Some i \<and> ti_Initialized i \<and>
     ti_Size i = tp_baseFsSize half_pool"
proof -
  from setup_completes [OF half_able, of "Inr half_made" half_pool] half_sound half_lookup half_facts obtain s' where
    "setupBaseImage ((demo_set half_pool ''u'')\<lparr>bs_sys := helpful_sys\<rparr>) = Ret (None, s')" by auto
  moreover have "\<forall>i. base_of ((demo_set half_pool ''u'')\<lparr>bs_sys := helpful_sys\<rparr>) = Some i \<longrightarrow> ti_Hash i = []"
    using half_facts(2) by (simp add: half_pool_def)
  ultimately show ?thesis using base_image_ready by fastforce
qed

lemma base_image_survives_witness:
  "\<exists>s'. setupBaseImage ((demo_set (demo_pool (\<lambda>_. None)) ''u'')\<lparr>bs_userBaseSize := False\<rparr>) = Ret (None, s') \<and>
     same_pool demo_disk (tp_disk (bs_pool s'))"
proof -
  let ?s = "(demo_set (demo_pool (\<lambda>_. None)) ''u'')\<lparr>bs_userBaseSize := False\<rparr>"
  have l: "thin_lookupDevice [] (bs_pool ?s) = Ret (Inr demo_base, demo_pool (\<lambda>_. None))"
    using demo_base_of(1) by (simp add: thin_lookupDevice_def)
  obtain s2 where s2: "setupVerifyBaseImageUUIDFS demo_base ?s = Ret (None, s2)" "settled ?s s2"
    using verified [of ?s demo_base "''u''"] demo_quiet trim_u demo_blkid by (auto simp: demo_base_def)
  have same: "?s\<lparr>bs_pool := demo_pool (\<lambda>_. None)\<rparr> = ?s" by (simp add: demo_set_def)
  have i: "ti_Initialized demo_base" "\<not> ti_Deleted demo_base" by (simp_all add: demo_base_def)
  have "setupBaseImage ?s = seq (setupVerifyBaseImageUUIDFS demo_base) (checkGrowBaseDeviceFS demo_base) ?s"
    unfolding setupBaseImage_def l bind_outcome_simps prod.case Let_def sum.case same using i by simp
  then have "setupBaseImage ?s = Ret (None, s2)"
    using s2 by (simp add: seq_def checkGrowBaseDeviceFS_def settled_def)
  moreover from base_image_survives [OF this l] demo_base_of(1) have "same_pool demo_disk (tp_disk (bs_pool s2))"
    by (simp add: demo_base_def) (simp add: demo_pool_def fresh_set_def)
  ultimately show ?thesis by blast
qed


end
