(* ===== verification/Loopback.thy ===== *)
theory Loopback
  imports DeviceSet
begin

text \<open>
  Package \<open>pkg/loopback\<close>: attaching a file to the next free loop device and finding the loop device a file
  is attached to.  The nodes \<open>/dev/loop0\<close>, \<open>/dev/loop1\<close>, ... are a list whose entries may be missing; a file
  is known by the device and inode numbers of its directory entry, as the kernel knows it.
\<close>

section \<open>Loop devices\<close>

type_synonym file_id = "64 word \<times> 64 word"

text \<open>
  What a node does: whether it is a device, the errors of opening it and of the \<open>ioctl\<close> calls, its device number,
  and the file attached to it.
\<close>

record loop_node =
  ln_device :: bool
  ln_open :: "err option"
  ln_setFd :: "err option"
  ln_setStatus :: "err option"
  ln_clrFd :: "err option"
  ln_getStatus :: "err option"
  ln_rdev :: "64 word"
  ln_backing :: "file_id option"

type_synonym loops = "loop_node option list"

definition loop_at :: "loops \<Rightarrow> nat \<Rightarrow> loop_node option" where
  "loop_at ls i = (if i < length ls then ls ! i else None)"

definition loop_name :: "nat \<Rightarrow> string" where
  "loop_name i = ''/dev/loop'' @ show_nat i"

definition ErrAttachLoopbackDevice :: err where
  "ErrAttachLoopbackDevice = ErrText ''loopback attach failed''"

definition ErrGetLoopbackBackingFile :: err where
  "ErrGetLoopbackBackingFile = ErrText ''Unable to get loopback backing file''"

text \<open>The kernel refuses a second file on a device.\<close>

definition ioctlLoopSetFd :: "loop_node \<Rightarrow> err option" where
  "ioctlLoopSetFd n =
     (case ln_setFd n of Some e \<Rightarrow> Some e | None \<Rightarrow> if ln_backing n \<noteq> None then Some ErrBusy else None)"

section \<open>Attaching\<close>

text \<open>\<open>LOOP_CTL_GET_FREE\<close> through \<open>/dev/loop-control\<close>; on any error the search starts from what is left, 0.\<close>

definition getNextFreeLoopbackIndex :: "int res \<Rightarrow> int \<times> err option" where
  "getNextFreeLoopbackIndex ctl = (case ctl of Inl e \<Rightarrow> (0, Some e) | Inr i \<Rightarrow> (if i < 0 then 0 else i, None))"

text \<open>The loop ends at the first missing node, and every list of nodes has one.\<close>

function openNextAvailableLoopback :: "nat \<Rightarrow> file_id \<Rightarrow> loops \<Rightarrow> nat res \<times> loops" where
  "openNextAvailableLoopback i file ls =
     (case loop_at ls i of
        None \<Rightarrow> (Inl ErrAttachLoopbackDevice, ls)
      | Some n \<Rightarrow>
          if \<not> ln_device n then openNextAvailableLoopback (Suc i) file ls
          else if ln_open n \<noteq> None then (Inl ErrAttachLoopbackDevice, ls)
          else
            (case ioctlLoopSetFd n of
               Some e \<Rightarrow>
                 if e \<noteq> ErrBusy then (Inl ErrAttachLoopbackDevice, ls) else openNextAvailableLoopback (Suc i) file ls
             | None \<Rightarrow> (Inr i, ls[i := Some (n\<lparr>ln_backing := Some file\<rparr>)])))"
  by pat_completeness auto

termination
  by (relation "measure (\<lambda>(i, _, ls). length ls - i)") (auto simp: loop_at_def split: if_splits)

declare openNextAvailableLoopback.simps [simp del]

definition AttachLoopDevice :: "int res \<Rightarrow> file_id res \<Rightarrow> loops \<Rightarrow> nat res \<times> loops" where
  "AttachLoopDevice ctl sparse ls =
     (case sparse of
        Inl e \<Rightarrow> (Inl ErrAttachLoopbackDevice, ls)
      | Inr file \<Rightarrow>
          (case openNextAvailableLoopback (nat (fst (getNextFreeLoopbackIndex ctl))) file ls of
             (Inl e, ls1) \<Rightarrow> (Inl e, ls1)
           | (Inr i, ls1) \<Rightarrow>
               (case loop_at ls1 i of
                  None \<Rightarrow> (Inr i, ls1)
                | Some n \<Rightarrow>
                    (case ln_setStatus n of
                       None \<Rightarrow> (Inr i, ls1)
                     | Some e \<Rightarrow>
                         (Inl ErrAttachLoopbackDevice,
                          case ln_clrFd n of None \<Rightarrow> ls1[i := Some (n\<lparr>ln_backing := None\<rparr>)] | Some _ \<Rightarrow> ls1)))))"

section \<open>Finding\<close>

text \<open>A node without a file has no status.\<close>

definition getLoopbackBackingFile :: "loop_node \<Rightarrow> file_id res" where
  "getLoopbackBackingFile n =
     (case ln_getStatus n of
        Some e \<Rightarrow> Inl ErrGetLoopbackBackingFile
      | None \<Rightarrow>
          if \<not> ln_device n then Inl ErrGetLoopbackBackingFile
          else (case ln_backing n of None \<Rightarrow> Inl ErrGetLoopbackBackingFile | Some f \<Rightarrow> Inr f))"

fun find_loop :: "nat \<Rightarrow> file_id \<Rightarrow> loops \<Rightarrow> nat option" where
  "find_loop i file [] = None"
| "find_loop i file (None # ls) = None"
| "find_loop i file (Some n # ls) =
     (case ln_open n of
        Some e \<Rightarrow> if os_IsNotExist e then None else find_loop (Suc i) file ls
      | None \<Rightarrow> if getLoopbackBackingFile n = Inr file then Some i else find_loop (Suc i) file ls)"

definition FindLoopDeviceFor :: "file_id res \<Rightarrow> loops \<Rightarrow> nat option" where
  "FindLoopDeviceFor file ls = (case file of Inl e \<Rightarrow> None | Inr f \<Rightarrow> find_loop 0 f ls)"

section \<open>What they do\<close>

lemma find_loop_Some:
  "find_loop i file ls = Some j \<Longrightarrow>
     i \<le> j \<and> j - i < length ls \<and> (\<exists>n. ls ! (j - i) = Some n \<and> ln_device n \<and> ln_backing n = Some file)"
proof (induction ls arbitrary: i)
  case (Cons x ls)
  show ?case
  proof (cases "\<exists>n. x = Some n \<and> ln_open n = None \<and> getLoopbackBackingFile n = Inr file")
    case True
    with Cons.prems show ?thesis by (auto simp: getLoopbackBackingFile_def split: option.splits if_splits)
  next
    case False
    with Cons.prems have "find_loop (Suc i) file ls = Some j"
      by (cases x) (auto split: option.splits if_splits)
    note I = Cons.IH [OF this]
    then have e: "j - i = Suc (j - Suc i)" by linarith
    show ?thesis using I unfolding e by auto
  qed
qed simp

lemma find_loop_first:
  assumes "k < length ls" and "\<And>j. j < k \<Longrightarrow> \<exists>n. ls ! j = Some n \<and> ln_open n \<noteq> Some ENOENT \<and> ln_backing n \<noteq> Some file"
    and "ls ! k = Some n" and "ln_open n = None" and "ln_device n" and "ln_getStatus n = None" and "ln_backing n = Some file"
  shows "find_loop i file ls = Some (i + k)"
  using assms
proof (induction ls arbitrary: i k)
  case (Cons x ls)
  show ?case
  proof (cases k)
    case 0
    with Cons.prems show ?thesis by (simp add: getLoopbackBackingFile_def)
  next
    case (Suc k')
    obtain m where m: "x = Some m" "ln_open m \<noteq> Some ENOENT" "ln_backing m \<noteq> Some file" using Cons.prems(2) [of 0] Suc by auto
    have "find_loop (Suc i) file ls = Some (Suc i + k')"
    proof (rule Cons.IH)
      show "\<exists>n. ls ! j = Some n \<and> ln_open n \<noteq> Some ENOENT \<and> ln_backing n \<noteq> Some file" if "j < k'" for j
        using Cons.prems(2) [of "Suc j"] that Suc by simp
    qed (use Cons.prems Suc in auto)
    moreover have "getLoopbackBackingFile m \<noteq> Inr file" using m(3) by (auto simp: getLoopbackBackingFile_def split: option.splits)
    ultimately show ?thesis using m Suc by (auto simp: os_IsNotExist_def split: option.split)
  qed
qed simp

lemma open_next:
  "openNextAvailableLoopback i file ls = (Inr j, ls') \<Longrightarrow>
     i \<le> j \<and> j < length ls \<and> (\<exists>n. ls ! j = Some n \<and> ln_device n \<and> ln_open n = None \<and> ln_backing n = None \<and>
        ls' = ls[j := Some (n\<lparr>ln_backing := Some file\<rparr>)])"
proof (induction "length ls - i" arbitrary: i rule: less_induct)
  case less
  from less.prems obtain n where n: "loop_at ls i = Some n"
    by (auto simp: openNextAvailableLoopback.simps [of i] split: option.splits)
  then have i: "length ls - Suc i < length ls - i" by (auto simp: loop_at_def split: if_splits)
  show ?case
  proof (cases "\<not> ln_device n \<or> ln_open n = None \<and> ioctlLoopSetFd n = Some ErrBusy")
    case True
    with less.prems n have "openNextAvailableLoopback (Suc i) file ls = (Inr j, ls')"
      by (auto simp: openNextAvailableLoopback.simps [of i] split: if_splits)
    from less.hyps [OF i this] show ?thesis by auto
  next
    case False
    with less.prems n show ?thesis
      by (auto simp: openNextAvailableLoopback.simps [of i] loop_at_def ioctlLoopSetFd_def split: if_splits option.splits)
  qed
qed

text \<open>
  The device a file was attached to is the one that is found for it afterwards, provided the nodes below it
  are all there and none of them already holds the file.
\<close>

lemma attach_find_roundtrip:
  assumes "AttachLoopDevice ctl (Inr file) ls = (Inr i, ls')"
    and "\<And>j. j < i \<Longrightarrow> \<exists>n. ls ! j = Some n \<and> ln_open n \<noteq> Some ENOENT \<and> ln_backing n \<noteq> Some file"
    and "\<And>n. ls ! i = Some n \<Longrightarrow> ln_getStatus n = None"
  shows "FindLoopDeviceFor (Inr file) ls' = Some i"
proof -
  from assms(1) obtain ls1 where o: "openNextAvailableLoopback (nat (fst (getNextFreeLoopbackIndex ctl))) file ls = (Inr i, ls1)"
    by (auto simp: AttachLoopDevice_def split: prod.splits sum.splits option.splits)
  from open_next [OF o] obtain n where n: "i < length ls" "ls ! i = Some n" "ln_device n" "ln_open n = None"
    "ls1 = ls[i := Some (n\<lparr>ln_backing := Some file\<rparr>)]" by blast
  have "ls' = ls1" using assms(1) o by (auto simp: AttachLoopDevice_def split: option.splits)
  with n have ls': "ls' = ls[i := Some (n\<lparr>ln_backing := Some file\<rparr>)]" by simp
  have "find_loop 0 file ls' = Some (0 + i)"
    by (rule find_loop_first [of i _ _ "n\<lparr>ln_backing := Some file\<rparr>"]) (use n assms(2) assms(3) [OF n(2)] in \<open>auto simp: ls'\<close>)
  then show ?thesis by (simp add: FindLoopDeviceFor_def)
qed

text \<open>
  A missing node hides every device behind it: the search for an attached file gives up there, although the kernel
  hands out indexes beyond.
\<close>

lemma gap_hides_device:
  assumes "k < length ls" and "ls ! k = None" and "\<And>j n. j < k \<Longrightarrow> ls ! j = Some n \<Longrightarrow> ln_backing n \<noteq> Some file"
  shows "find_loop i file ls = None"
proof (cases "find_loop i file ls")
  case (Some j)
  have "find_loop i file (take k ls @ None # rest) = Some j \<Longrightarrow> j - i < k" for rest
  proof -
    assume a: "find_loop i file (take k ls @ None # rest) = Some j"
    have "find_loop i file (xs @ None # ys) = Some j \<Longrightarrow> j - i < length xs" for xs ys
    proof (induction xs arbitrary: i)
      case (Cons x xs)
      have "find_loop (Suc i) file (xs @ None # ys) = Some j \<Longrightarrow> j - i < Suc (length xs)"
        using Cons.IH [of "Suc i"] by auto
      with Cons.prems show ?case by (cases x) (auto split: option.splits if_splits)
    qed simp
    from this [OF a] assms(1) show "j - i < k" by simp
  qed
  moreover have "ls = take k ls @ None # drop (Suc k) ls" using id_take_nth_drop [OF assms(1)] assms(2) by simp
  ultimately have "j - i < k" using Some by metis
  with find_loop_Some [OF Some] assms(3) show ?thesis by blast
qed simp

text \<open>A free device behind a busy one.\<close>

definition demo_loop :: "file_id option \<Rightarrow> loop_node" where
  "demo_loop b = \<lparr>ln_device = True, ln_open = None, ln_setFd = None, ln_setStatus = None, ln_clrFd = None, ln_getStatus = None,
     ln_rdev = 1792, ln_backing = b\<rparr>"

lemma attach_find_roundtrip_witness:
  "\<exists>ls'. AttachLoopDevice (Inr 0) (Inr (8, 12)) [Some (demo_loop (Some (8, 11))), Some (demo_loop None)] = (Inr 1, ls') \<and>
     FindLoopDeviceFor (Inr (8, 12)) ls' = Some 1"
proof -
  let ?ls = "[Some (demo_loop (Some (8, 11))), Some (demo_loop None)]"
  have a: "AttachLoopDevice (Inr 0) (Inr (8, 12)) ?ls = (Inr 1, ?ls[1 := Some (demo_loop (Some (8, 12)))])"
    by (simp add: AttachLoopDevice_def getNextFreeLoopbackIndex_def openNextAvailableLoopback.simps loop_at_def demo_loop_def
        ioctlLoopSetFd_def)
  have "FindLoopDeviceFor (Inr (8, 12)) (?ls[1 := Some (demo_loop (Some (8, 12)))]) = Some 1"
    by (rule attach_find_roundtrip [OF a]) (simp_all add: demo_loop_def)
  with a show ?thesis by blast
qed

end
