(* ===== verification/PoolSetup.thy ===== *)
theory PoolSetup
  imports BaseImage Loopback Mounters
begin

text \<open>
  \<open>NewDeviceSet\<close> and \<open>initDevmapper\<close> of \<open>daemon/graphdriver/devmapper/deviceset.go\<close>: reading the options, checking what the
  driver supports, preparing the loopback images and the thin pool, loading the metadata and, for the daemon, setting up
  the base image.  The migrator opens an existing set: it passes \<open>doInit = false\<close>.  \<open>RAMInBytes\<close> is that of \<open>go-units\<close>.

  What the kernel, \<open>libdevmapper\<close> and the file system answer during set-up is the record \<open>dm_env\<close>.
\<close>

section \<open>Options\<close>

record dm_options =
  op_userBaseSize :: bool
  op_baseFsSize :: "64 word"
  op_dataLoopbackSize :: int64
  op_metaDataLoopbackSize :: int64
  op_filesystem :: string
  op_mkfsArgs :: "string list"
  op_mountOptions :: string
  op_metadataDevice :: string
  op_dataDevice :: string
  op_thinPoolDevice :: string
  op_doBlkDiscard :: bool
  op_foundBlkDiscard :: bool
  op_thinpBlockSize :: "32 word"
  op_overrideUdevSyncCheck :: bool
  op_enableDeferredRemoval :: bool
  op_enableDeferredDeletion :: bool

definition default_options :: dm_options where
  "default_options =
     \<lparr>op_userBaseSize = False, op_baseFsSize = 10 * 1024 * 1024 * 1024, op_dataLoopbackSize = 100 * 1024 * 1024 * 1024,
      op_metaDataLoopbackSize = 2 * 1024 * 1024 * 1024, op_filesystem = [], op_mkfsArgs = [], op_mountOptions = [],
      op_metadataDevice = [], op_dataDevice = [], op_thinPoolDevice = [], op_doBlkDiscard = True, op_foundBlkDiscard = False,
      op_thinpBlockSize = 128, op_overrideUdevSyncCheck = False, op_enableDeferredRemoval = False,
      op_enableDeferredDeletion = False\<rparr>"

text \<open>
  \<open>strings.ToLower\<close> as far as its result can equal an ASCII name: two characters beyond ASCII have an ASCII letter as
  their lower case, the Kelvin sign and the dotted capital I.
\<close>

fun ToLower :: "string \<Rightarrow> string" where
  "ToLower (a # b # c # t) =
     (if a = byte 196 \<and> b = byte 176 then CHR ''i'' # ToLower (c # t)
      else if a = byte 226 \<and> b = byte 132 \<and> c = byte 170 then CHR ''k'' # ToLower t
      else lower a # ToLower (b # c # t))"
| "ToLower [a, b] = (if a = byte 196 \<and> b = byte 176 then [CHR ''i''] else [lower a, lower b])"
| "ToLower [a] = [lower a]"
| "ToLower [] = []"

text \<open>\<open>strings.SplitN(opt, "=", 2)\<close> and both parts trimmed.\<close>

definition ParseKeyValueOpt :: "string \<Rightarrow> (string \<times> string) res" where
  "ParseKeyValueOpt opt =
     (case index_byte CHR ''='' opt of
        None \<Rightarrow> Inl (ErrText (''Unable to parse key/value option: '' @ opt))
      | Some i \<Rightarrow> Inr (TrimSpace (take i opt), TrimSpace (drop (Suc i) opt)))"

definition ParseBool :: "string \<Rightarrow> bool res" where
  "ParseBool s =
     (if s \<in> {''1'', ''t'', ''T'', ''TRUE'', ''true'', ''True''} then Inr True
      else if s \<in> {''0'', ''f'', ''F'', ''FALSE'', ''false'', ''False''} then Inr False
      else Inl ErrSyntax)"

text \<open>The units of \<open>binaryMap\<close>, by lower-case letter.\<close>

definition unit_of :: "char \<Rightarrow> nat option" where
  "unit_of c = map_of [(CHR ''k'', 10), (CHR ''m'', 20), (CHR ''g'', 30), (CHR ''t'', 40), (CHR ''p'', 50)] (lower c)"

text \<open>
  The groups of \<open>sizeRegex\<close>, \<open>^(\d+)([kKmMgGtTpP])?[bB]?$\<close>: the digits and the exponent of the unit.
\<close>

definition size_groups :: "string \<Rightarrow> (string \<times> nat) option" where
  "size_groups s =
     (let digits = takeWhile is_digit s; rest = dropWhile is_digit s
      in if digits = [] then None
         else
           (case rest of
              [] \<Rightarrow> Some (digits, 0)
            | c # t \<Rightarrow>
                (case unit_of c of
                   Some k \<Rightarrow> if t = [] \<or> t = ''b'' \<or> t = ''B'' then Some (digits, k) else None
                 | None \<Rightarrow> if rest = ''b'' \<or> rest = ''B'' then Some (digits, 0) else None)))"

text \<open>The product is taken in 64 bits.\<close>

definition RAMInBytes :: "string \<Rightarrow> int64 res" where
  "RAMInBytes s =
     (case size_groups s of
        None \<Rightarrow> Inl (ErrText (''invalid size: '' @ s))
      | Some (digits, k) \<Rightarrow>
          (case ParseInt64 digits of Inl e \<Rightarrow> Inl e | Inr n \<Rightarrow> Inr (word_of_int n * word_of_int (2 ^ k))))"

definition TrimPrefix :: "string \<Rightarrow> string \<Rightarrow> string" where
  "TrimPrefix s p = (if prefix p s then drop (length p) s else s)"

definition set_option :: "string \<Rightarrow> string \<Rightarrow> dm_options \<Rightarrow> dm_options res" where
  "set_option key val o' =
     (if key = ''dm.basesize'' then
        map_sum id (\<lambda>size. o'\<lparr>op_userBaseSize := True, op_baseFsSize := size\<rparr>) (RAMInBytes val)
      else if key = ''dm.loopdatasize'' then map_sum id (\<lambda>size. o'\<lparr>op_dataLoopbackSize := size\<rparr>) (RAMInBytes val)
      else if key = ''dm.loopmetadatasize'' then map_sum id (\<lambda>size. o'\<lparr>op_metaDataLoopbackSize := size\<rparr>) (RAMInBytes val)
      else if key = ''dm.fs'' then
        (if val \<noteq> ''ext4'' \<and> val \<noteq> ''xfs'' then Inl (ErrText (''devmapper: Unsupported filesystem '' @ val))
         else Inr (o'\<lparr>op_filesystem := val\<rparr>))
      else if key = ''dm.mkfsarg'' then Inr (o'\<lparr>op_mkfsArgs := op_mkfsArgs o' @ [val]\<rparr>)
      else if key = ''dm.mountopt'' then Inr (o'\<lparr>op_mountOptions := joinMountOptions (op_mountOptions o') val\<rparr>)
      else if key = ''dm.metadatadev'' then Inr (o'\<lparr>op_metadataDevice := val\<rparr>)
      else if key = ''dm.datadev'' then Inr (o'\<lparr>op_dataDevice := val\<rparr>)
      else if key = ''dm.thinpooldev'' then Inr (o'\<lparr>op_thinPoolDevice := TrimPrefix val ''/dev/mapper/''\<rparr>)
      else if key = ''dm.blkdiscard'' then
        map_sum id (\<lambda>b. o'\<lparr>op_foundBlkDiscard := True, op_doBlkDiscard := b\<rparr>) (ParseBool val)
      else if key = ''dm.blocksize'' then
        map_sum id (\<lambda>size. o'\<lparr>op_thinpBlockSize := drop_bit 9 (ucast size)\<rparr>) (RAMInBytes val)
      else if key = ''dm.override_udev_sync_check'' then
        map_sum id (\<lambda>b. o'\<lparr>op_overrideUdevSyncCheck := b\<rparr>) (ParseBool val)
      else if key = ''dm.use_deferred_removal'' then
        map_sum id (\<lambda>b. o'\<lparr>op_enableDeferredRemoval := b\<rparr>) (ParseBool val)
      else if key = ''dm.use_deferred_deletion'' then
        map_sum id (\<lambda>b. o'\<lparr>op_enableDeferredDeletion := b\<rparr>) (ParseBool val)
      else Inl (ErrText (''devmapper: Unknown option '' @ key)))"

definition parse_option :: "string \<Rightarrow> dm_options \<Rightarrow> dm_options res" where
  "parse_option opt o' =
     (case ParseKeyValueOpt opt of Inl e \<Rightarrow> Inl e | Inr (key, val) \<Rightarrow> set_option (ToLower key) val o')"

fun parse_options :: "string list \<Rightarrow> dm_options \<Rightarrow> dm_options res" where
  "parse_options [] o' = Inr o'"
| "parse_options (opt # opts) o' =
     (case parse_option opt o' of Inl e \<Rightarrow> Inl e | Inr o2 \<Rightarrow> parse_options opts o2)"

text \<open>Blocks are not discarded on raw devices unless the user says so.\<close>

definition discard_default :: "dm_options \<Rightarrow> dm_options" where
  "discard_default o' =
     (if \<not> op_foundBlkDiscard o' \<and> (op_dataDevice o' \<noteq> [] \<or> op_thinPoolDevice o' \<noteq> [])
      then o'\<lparr>op_doBlkDiscard := False\<rparr> else o')"

section \<open>State\<close>

record dm_env =
  en_version :: "string res"
  en_libDeferred :: bool
  en_ids :: "err option"
  en_mkRoot :: "err option"
  en_mkMeta :: "err option"
  en_statRoot :: "file_id res"
  en_poolInfo :: "string \<Rightarrow> bool res"
  en_poolType :: "string \<Rightarrow> string res"
  en_poolTable :: "string \<Rightarrow> string res"
  en_createPool :: "err option"
  en_mkLoopDir :: "err option"
  en_stat :: "string \<Rightarrow> err option"
  en_openImage :: "string \<Rightarrow> err option"
  en_truncate :: "string \<Rightarrow> err option"
  en_newFile :: "string \<Rightarrow> file_id"
  en_openDevice :: "string \<Rightarrow> err option"
  en_loopCtl :: "int res"
  en_statLoop :: "nat \<Rightarrow> err option"

text \<open>
  \<open>dm_images\<close> are the files of \<open>loopbackDir()\<close> by name, with their size; \<open>dm_pools\<close> the pools this run created: name,
  data device, metadata device and block size.
\<close>

record 'w dm_set =
  dm_base :: "'w base_set"
  dm_root :: string
  dm_opts :: dm_options
  dm_dataDevice :: string
  dm_dataLoopFile :: string
  dm_metadataDevice :: string
  dm_metadataLoopFile :: string
  dm_images :: "(string \<times> file_id \<times> int) list"
  dm_loops :: loops
  dm_pools :: "(string \<times> string \<times> string \<times> 32 word) list"
  dm_env :: dm_env

definition on_base :: "'w step \<Rightarrow> 'w dm_set action" where
  "on_base a s = bind_outcome (a (dm_base s)) (\<lambda>(r, b). Ret (r, s\<lparr>dm_base := b\<rparr>))"

definition upd_pool :: "(thin_pool \<Rightarrow> thin_pool) \<Rightarrow> 'w dm_set \<Rightarrow> 'w dm_set" where
  "upd_pool f s = s\<lparr>dm_base := (dm_base s)\<lparr>bs_pool := f (bs_pool (dm_base s))\<rparr>\<rparr>"

definition thinPoolDevice :: "'w dm_set \<Rightarrow> string" where
  "thinPoolDevice s = bs_thinPoolDevice (dm_base s)"

definition getPoolName :: "'w dm_set \<Rightarrow> string" where
  "getPoolName s = (if thinPoolDevice s = [] then bs_devicePrefix (dm_base s) @ ''-pool'' else thinPoolDevice s)"

definition loopback_file :: "string \<Rightarrow> 'w dm_set \<Rightarrow> string" where
  "loopback_file name s = Join [Join [dm_root s, ''devicemapper''], name]"

section \<open>Loopback images\<close>

definition hasImage :: "string \<Rightarrow> 'w dm_set \<Rightarrow> bool" where
  "hasImage name s \<longleftrightarrow> en_stat (dm_env s) name = None \<and> map_of (dm_images s) name \<noteq> None"

definition truncate_image :: "string \<Rightarrow> file_id \<Rightarrow> int64 \<Rightarrow> 'w dm_set \<Rightarrow> err option \<times> 'w dm_set" where
  "truncate_image name f sz s =
     (case en_truncate (dm_env s) name of
        Some e \<Rightarrow> (Some e, s)
      | None \<Rightarrow>
          if sint sz < 0 then (Some EINVAL, s)
          else (None, s\<lparr>dm_images := AList.update name (f, sint sz) (dm_images s)\<rparr>))"

definition ensureImage :: "string \<Rightarrow> int64 \<Rightarrow> 'w dm_set \<Rightarrow> string res \<times> 'w dm_set" where
  "ensureImage name sz s =
     (if en_ids (dm_env s) \<noteq> None then (Inl (the (en_ids (dm_env s))), s)
      else if en_mkLoopDir (dm_env s) \<noteq> None then (Inl (the (en_mkLoopDir (dm_env s))), s)
      else
        (case (case en_stat (dm_env s) name of Some e \<Rightarrow> Inl e | None \<Rightarrow> (case map_of (dm_images s) name of None \<Rightarrow> Inl ENOENT | Some i \<Rightarrow> Inr i)) of
           Inl e \<Rightarrow>
             if \<not> os_IsNotExist e then (Inl e, s)
             else
               (case en_openImage (dm_env s) name of
                  Some e \<Rightarrow> (Inl e, s)
                | None \<Rightarrow>
                    (let f = (case map_of (dm_images s) name of Some (f, _) \<Rightarrow> f | None \<Rightarrow> en_newFile (dm_env s) name);
                         len = (case map_of (dm_images s) name of Some (_, n) \<Rightarrow> n | None \<Rightarrow> 0)
                     in case truncate_image name f sz (s\<lparr>dm_images := AList.update name (f, len) (dm_images s)\<rparr>) of
                          (Some e, s1) \<Rightarrow> (Inl e, s1)
                        | (None, s1) \<Rightarrow> (Inr (loopback_file name s1), s1)))
         | Inr (f, len) \<Rightarrow>
             if len < sint sz then
               (case en_openImage (dm_env s) name of
                  Some e \<Rightarrow> (Inl e, s)
                | None \<Rightarrow>
                    (case truncate_image name f sz s of
                       (Some e, s1) \<Rightarrow> (Inl (ErrText ''devmapper: Unable to grow loopback file''), s1)
                     | (None, s1) \<Rightarrow> (Inr (loopback_file name s1), s1)))
             else (Inr (loopback_file name s), s)))"

definition image_id :: "string \<Rightarrow> 'w dm_set \<Rightarrow> file_id res" where
  "image_id name s =
     (case en_openImage (dm_env s) name of
        Some e \<Rightarrow> Inl e
      | None \<Rightarrow> (case map_of (dm_images s) name of None \<Rightarrow> Inl ENOENT | Some (f, _) \<Rightarrow> Inr f))"

text \<open>
  One half of making the pool: the image is checked for, made or grown, and attached.  The result is the path of the
  image, the loop device and whether the image is new.
\<close>

definition prepare_image :: "bool \<Rightarrow> string \<Rightarrow> int64 \<Rightarrow> 'w dm_set \<Rightarrow> (string \<times> nat \<times> bool) res \<times> 'w dm_set" where
  "prepare_image doInit name sz s =
     (let has = hasImage name s
      in if \<not> doInit \<and> \<not> has then (Inl (ErrText (''Loopback '' @ name @ '' file not found'')), s)
         else
           (case ensureImage name sz s of
              (Inl e, s1) \<Rightarrow> (Inl e, s1)
            | (Inr path, s1) \<Rightarrow>
                (case AttachLoopDevice (en_loopCtl (dm_env s1)) (image_id name s1) (dm_loops s1) of
                   (Inl e, ls) \<Rightarrow> (Inl e, s1\<lparr>dm_loops := ls\<rparr>)
                 | (Inr i, ls) \<Rightarrow> (Inr (path, i, \<not> has), s1\<lparr>dm_loops := ls\<rparr>))))"

text \<open>A device attached with \<open>LoFlagsAutoClear\<close> loses its file when it is closed and no pool holds it.\<close>

definition autoclear :: "nat option \<Rightarrow> 'w dm_set \<Rightarrow> 'w dm_set" where
  "autoclear h s =
     (case h of
        None \<Rightarrow> s
      | Some i \<Rightarrow>
          (case loop_at (dm_loops s) i of
             None \<Rightarrow> s
           | Some n \<Rightarrow> s\<lparr>dm_loops := (dm_loops s)[i := Some (n\<lparr>ln_backing := None\<rparr>)]\<rparr>))"

definition open_data :: "bool \<Rightarrow> 'w dm_set \<Rightarrow> (nat option \<times> bool) res \<times> 'w dm_set" where
  "open_data doInit s =
     (if dm_dataDevice s \<noteq> [] then
        (case en_openDevice (dm_env s) (dm_dataDevice s) of Some e \<Rightarrow> (Inl e, s) | None \<Rightarrow> (Inr (None, False), s))
      else
        (case prepare_image doInit ''data'' (op_dataLoopbackSize (dm_opts s)) s of
           (Inl e, s1) \<Rightarrow> (Inl e, s1)
         | (Inr (path, i, new), s1) \<Rightarrow> (Inr (Some i, new), s1\<lparr>dm_dataLoopFile := path, dm_dataDevice := loop_name i\<rparr>)))"

definition open_metadata :: "bool \<Rightarrow> 'w dm_set \<Rightarrow> (nat option \<times> bool) res \<times> 'w dm_set" where
  "open_metadata doInit s =
     (if dm_metadataDevice s \<noteq> [] then
        (case en_openDevice (dm_env s) (dm_metadataDevice s) of Some e \<Rightarrow> (Inl e, s) | None \<Rightarrow> (Inr (None, False), s))
      else
        (case prepare_image doInit ''metadata'' (op_metaDataLoopbackSize (dm_opts s)) s of
           (Inl e, s1) \<Rightarrow> (Inl e, s1)
         | (Inr (path, i, new), s1) \<Rightarrow>
             (Inr (Some i, new), s1\<lparr>dm_metadataLoopFile := path, dm_metadataDevice := loop_name i\<rparr>)))"

text \<open>Making the pool; the result tells whether an image is new.  On an error the files are closed without a pool.\<close>

definition create_pool :: "bool \<Rightarrow> 'w dm_set \<Rightarrow> bool res \<times> 'w dm_set" where
  "create_pool doInit s =
     (case open_data doInit s of
        (Inl e, s1) \<Rightarrow> (Inl e, s1)
      | (Inr (h1, new1), s1) \<Rightarrow>
          (case open_metadata doInit s1 of
             (Inl e, s2) \<Rightarrow> (Inl e, autoclear h1 s2)
           | (Inr (h2, new2), s2) \<Rightarrow>
               (case en_createPool (dm_env s2) of
                  Some e \<Rightarrow> (Inl e, autoclear h1 (autoclear h2 s2))
                | None \<Rightarrow>
                    (Inr (new1 \<or> new2),
                     s2\<lparr>dm_pools := (getPoolName s2, dm_dataDevice s2, dm_metadataDevice s2, op_thinpBlockSize (dm_opts s2)) # dm_pools s2\<rparr>))))"

section \<open>A pool that exists\<close>

definition thinPoolExists :: "string \<Rightarrow> dm_env \<Rightarrow> bool res" where
  "thinPoolExists dev env =
     (case en_poolInfo env dev of
        Inl e \<Rightarrow> Inl (ErrText ''devmapper: GetInfo() on device failed'')
      | Inr exists \<Rightarrow>
          if \<not> exists then Inr False
          else
            (case en_poolType env dev of
               Inl e \<Rightarrow> Inl (ErrText ''devmapper: GetStatus() on device failed'')
             | Inr ty \<Rightarrow> if ty \<noteq> ''thin-pool'' then Inl (ErrText ''devmapper: Device is not a thin pool'') else Inr True))"

definition dm_major :: "64 word \<Rightarrow> 64 word" where
  "dm_major device = and (drop_bit 8 device) 0xfff"

definition dm_minor :: "64 word \<Rightarrow> 64 word" where
  "dm_minor device = or (and device 0xff) (and (drop_bit 12 device) 0xfff00)"

text \<open>\<open>Sscanf\<close> with the format \<open>%s %s\<close> on a line of words separated by blanks.\<close>

definition scan_word :: "string \<Rightarrow> (string \<times> string) res" where
  "scan_word s =
     (let t = dropWhile (\<lambda>c. c = CHR '' '' \<or> c = byte 9) s;
          w = takeWhile (\<lambda>c. c \<noteq> CHR '' '' \<and> c \<noteq> byte 9 \<and> c \<noteq> byte 10) t
      in if w = [] then Inl UnexpectedEOF else Inr (w, drop (length w) t))"

definition scan_two :: "string \<Rightarrow> (string \<times> string) res" where
  "scan_two s =
     (case scan_word s of
        Inl e \<Rightarrow> Inl e
      | Inr (a, t) \<Rightarrow> (case scan_word t of Inl e \<Rightarrow> Inl e | Inr (b, _) \<Rightarrow> Inr (a, b)))"

text \<open>\<open>strconv.ParseUint(s, 10, 32)\<close>.\<close>

definition ParseUint32 :: "string \<Rightarrow> 64 word res" where
  "ParseUint32 s =
     (if s = [] then Inl ErrSyntax
      else (case read_nat 0 s of
              None \<Rightarrow> Inl ErrSyntax
            | Some n \<Rightarrow> if n < 2 ^ 32 then Inr (word_of_nat n) else Inl ErrRange))"

text \<open>The numbers of a \<open>major:minor\<close> pair; without a colon the second index is out of range.\<close>

definition parse_majmin :: "string \<Rightarrow> (64 word \<times> 64 word) res outcome" where
  "parse_majmin s =
     (let parts = split_on CHR '':'' s
      in case ParseUint32 (hd parts) of
           Inl e \<Rightarrow> Ret (Inl e)
         | Inr ma \<Rightarrow>
             (case tl parts of
                [] \<Rightarrow> Panic ''index out of range''
              | p # _ \<Rightarrow> Ret (case ParseUint32 p of Inl e \<Rightarrow> Inl e | Inr mi \<Rightarrow> Inr (ma, mi))))"

definition getThinPoolDataMetaMajMin :: "'w dm_set \<Rightarrow> ((64 word \<times> 64 word) \<times> (64 word \<times> 64 word)) res outcome" where
  "getThinPoolDataMetaMajMin s =
     (case en_poolTable (dm_env s) (getPoolName s) of
        Inl e \<Rightarrow> Ret (Inl e)
      | Inr params \<Rightarrow>
          (case scan_two params of
             Inl e \<Rightarrow> Ret (Inl e)
           | Inr (poolMetadataMajMin, poolDataMajMin) \<Rightarrow>
               bind_outcome (parse_majmin poolDataMajMin) (\<lambda>r.
                 case r of
                   Inl e \<Rightarrow> Ret (Inl e)
                 | Inr d \<Rightarrow>
                     bind_outcome (parse_majmin poolMetadataMajMin) (\<lambda>r.
                       Ret (case r of Inl e \<Rightarrow> Inl e | Inr m \<Rightarrow> Inr (d, m))))))"

definition getDeviceMajorMinor :: "nat \<Rightarrow> 'w dm_set \<Rightarrow> (64 word \<times> 64 word) res" where
  "getDeviceMajorMinor i s =
     (case en_statLoop (dm_env s) i of
        Some e \<Rightarrow> Inl e
      | None \<Rightarrow>
          (case loop_at (dm_loops s) i of None \<Rightarrow> Inl ENOENT | Some n \<Rightarrow> Inr (dm_major (ln_rdev n), dm_minor (ln_rdev n))))"

definition getLoopFileDeviceMajMin :: "string \<Rightarrow> 'w dm_set \<Rightarrow> (string \<times> 64 word \<times> 64 word) res" where
  "getLoopFileDeviceMajMin name s =
     (case image_id name s of
        Inl e \<Rightarrow> Inl e
      | Inr f \<Rightarrow>
          (case FindLoopDeviceFor (Inr f) (dm_loops s) of
             None \<Rightarrow> Inl (ErrText ''devmapper: Unable to find loopback mount'')
           | Some i \<Rightarrow>
               (case getDeviceMajorMinor i s of Inl e \<Rightarrow> Inl e | Inr (ma, mi) \<Rightarrow> Inr (loop_name i, ma, mi))))"

definition load_data_loop :: "64 word \<times> 64 word \<Rightarrow> 'w dm_set action" where
  "load_data_loop num s =
     (if dm_dataDevice s \<noteq> [] then Ret (None, s)
      else
        (case getLoopFileDeviceMajMin ''data'' s of
           Inl e \<Rightarrow> Ret (Some e, s)
         | Inr (dev, ma, mi) \<Rightarrow>
             Ret (None, if num = (ma, mi) then s\<lparr>dm_dataDevice := dev, dm_dataLoopFile := loopback_file ''data'' s\<rparr> else s)))"

definition load_metadata_loop :: "64 word \<times> 64 word \<Rightarrow> 'w dm_set action" where
  "load_metadata_loop num s =
     (if dm_metadataDevice s \<noteq> [] then Ret (None, s)
      else
        (case getLoopFileDeviceMajMin ''metadata'' s of
           Inl e \<Rightarrow> Ret (Some e, s)
         | Inr (dev, ma, mi) \<Rightarrow>
             Ret (None, if num = (ma, mi)
                        then s\<lparr>dm_metadataDevice := dev, dm_metadataLoopFile := loopback_file ''metadata'' s\<rparr> else s)))"

definition loadThinPoolLoopBackInfo :: "'w dm_set action" where
  "loadThinPoolLoopBackInfo s =
     bind_outcome (getThinPoolDataMetaMajMin s) (\<lambda>r.
       case r of
         Inl e \<Rightarrow> Ret (Some e, s)
       | Inr (d, m) \<Rightarrow> seq (load_data_loop d) (load_metadata_loop m) s)"

section \<open>Set-up\<close>

definition ErrNotSupported :: err where "ErrNotSupported = ErrText ''driver not supported''"

text \<open>Whether the kernel driver can defer removals; a version without a dot has no minor number to look at.\<close>

definition determineDriverCapabilities :: "string \<Rightarrow> bool res outcome" where
  "determineDriverCapabilities version =
     (let parts = split_on CHR ''.'' version
      in case ParseInt64 (hd parts) of
           Inl e \<Rightarrow> Ret (Inl ErrNotSupported)
         | Inr ma \<Rightarrow>
             if ma > 4 then Ret (Inr True)
             else if ma < 4 then Ret (Inr False)
             else
               (case tl parts of
                  [] \<Rightarrow> Panic ''index out of range''
                | p # _ \<Rightarrow> Ret (case ParseInt64 p of Inl e \<Rightarrow> Inl ErrNotSupported | Inr mi \<Rightarrow> Inr (mi \<ge> 27))))"

definition check_deferred :: "bool \<Rightarrow> 'w dm_set action" where
  "check_deferred support s =
     (let o' = dm_opts s
      in if op_enableDeferredRemoval o' \<and> \<not> support then
           Ret (Some (ErrText ''devmapper: Deferred removal can not be enabled as kernel does not support it''), s)
         else if op_enableDeferredRemoval o' \<and> \<not> en_libDeferred (dm_env s) then
           Ret (Some (ErrText ''devmapper: Deferred removal can not be enabled as libdm does not support it''), s)
         else
           (let s1 = (if op_enableDeferredRemoval o'
                      then upd_pool (\<lambda>p. p\<lparr>tp_ds := (tp_ds p)\<lparr>ds_deferredRemove := True\<rparr>\<rparr>) s else s)
            in if op_enableDeferredDeletion o' \<and> \<not> ds_deferredRemove (tp_ds (bs_pool (dm_base s1))) then
                 Ret (Some (ErrText ''devmapper: Deferred deletion can not be enabled as deferred removal is not enabled''), s1)
               else Ret (None, if op_enableDeferredDeletion o' then upd_pool (\<lambda>p. p\<lparr>tp_deferredDelete := True\<rparr>) s1 else s1)))"

definition capabilities :: "'w dm_set action" where
  "capabilities s =
     (case en_version (dm_env s) of
        Inl e \<Rightarrow> Ret (Some ErrNotSupported, s)
      | Inr version \<Rightarrow>
          bind_outcome (determineDriverCapabilities version) (\<lambda>r.
            case r of Inl e \<Rightarrow> Ret (Some ErrNotSupported, s) | Inr support \<Rightarrow> check_deferred support s))"

text \<open>The directories, and the prefix of device names from the numbers of the root directory.\<close>

definition prepare_root :: "'w dm_set action" where
  "prepare_root s =
     (let env = dm_env s
      in if en_ids env \<noteq> None then Ret (en_ids env, s)
         else if en_mkRoot env \<noteq> None then Ret (en_mkRoot env, s)
         else if en_mkMeta env \<noteq> None then Ret (en_mkMeta env, s)
         else
           (case en_statRoot env of
              Inl e \<Rightarrow> Ret (Some (ErrText ''devmapper: Error looking up dir''), s)
            | Inr (dev, ino) \<Rightarrow>
                Ret (None, s\<lparr>dm_base := (dm_base s)\<lparr>bs_devicePrefix :=
                  ''docker-'' @ show_nat (unat (dm_major dev)) @ '':'' @ show_nat (unat (dm_minor dev)) @ ''-'' @ show_nat (unat ino)\<rparr>\<rparr>)))"

definition load_or_set_up :: "bool \<Rightarrow> bool \<Rightarrow> 'w dm_set action" where
  "load_or_set_up doInit createdLoopback =
     seq (\<lambda>s. if createdLoopback then Ret (None, s) else on_base (on_pool_out initMetaData) s)
       (seq (on_base loadDeviceSetMetaData)
         (\<lambda>s. if doInit then on_base setupBaseImage s else Ret (None, s)))"

definition open_pool :: "bool \<Rightarrow> 'w dm_set action" where
  "open_pool doInit s =
     (case thinPoolExists (getPoolName s) (dm_env s) of
        Inl e \<Rightarrow> Ret (Some e, s)
      | Inr poolExists \<Rightarrow>
          if thinPoolDevice s \<noteq> [] then load_or_set_up doInit False s
          else if \<not> poolExists then
            (case create_pool doInit s of
               (Inl e, s1) \<Rightarrow> Ret (Some e, s1)
             | (Inr createdLoopback, s1) \<Rightarrow> load_or_set_up doInit createdLoopback s1)
          else seq loadThinPoolLoopBackInfo (load_or_set_up doInit False) s)"

definition initDevmapper :: "bool \<Rightarrow> 'w dm_set action" where
  "initDevmapper doInit = seq capabilities (seq prepare_root (open_pool doInit))"

text \<open>The machine \<open>NewDeviceSet\<close> starts on, and the set it makes before \<open>initDevmapper\<close>.\<close>

record 'w machine =
  ma_disk :: disk
  ma_ds :: device_set
  ma_faults :: "thin_op \<Rightarrow> err option"
  ma_usage :: "pool_usage res"
  ma_mnt :: bool
  ma_sys :: "'w sysops"
  ma_world :: 'w
  ma_images :: "(string \<times> file_id \<times> int) list"
  ma_loops :: loops
  ma_env :: dm_env

definition new_set :: "string \<Rightarrow> dm_options \<Rightarrow> 'w machine \<Rightarrow> 'w dm_set" where
  "new_set root o' m =
     \<lparr>dm_base =
        \<lparr>bs_pool = (fresh_set (ma_disk m) (ma_ds m))\<lparr>tp_baseFsSize := op_baseFsSize o', tp_doBlkDiscard := op_doBlkDiscard o',
                     tp_faults := ma_faults m\<rparr>,
         bs_devicePrefix = [], bs_filesystem = op_filesystem o', bs_mountOptions = op_mountOptions o', bs_mkfsArgs = op_mkfsArgs o',
         bs_thinPoolDevice = op_thinPoolDevice o', bs_BaseDeviceUUID = [], bs_BaseDeviceFilesystem = [],
         bs_userBaseSize = op_userBaseSize o', bs_usage = ma_usage m, bs_mnt = ma_mnt m, bs_sys = ma_sys m, bs_world = ma_world m,
         bs_log = []\<rparr>,
      dm_root = root, dm_opts = o', dm_dataDevice = op_dataDevice o', dm_dataLoopFile = [], dm_metadataDevice = op_metadataDevice o',
      dm_metadataLoopFile = [], dm_images = ma_images m, dm_loops = ma_loops m, dm_pools = [], dm_env = ma_env m\<rparr>"

definition NewDeviceSet :: "string \<Rightarrow> bool \<Rightarrow> string list \<Rightarrow> 'w machine \<Rightarrow> 'w dm_set res outcome" where
  "NewDeviceSet root doInit options m =
     (case parse_options options default_options of
        Inl e \<Rightarrow> Ret (Inl e)
      | Inr o' \<Rightarrow>
          bind_outcome (initDevmapper doInit (new_set root (discard_default o') m)) (\<lambda>(r, s).
            Ret (case r of Some e \<Rightarrow> Inl e | None \<Rightarrow> Inr s)))"

text \<open>
  The device set as its mount side sees it: what \<open>lookupDevice\<close> finds in the table and on disk.  \<open>open_devices\<close> is how the
  migrator opens it; a panic ends the program as an error does.
\<close>

definition mounts_of :: "thin_pool \<Rightarrow> device_set" where
  "mounts_of p =
     (tp_ds p)\<lparr>ds_Devices := map (\<lambda>(h, i). (h, mount_side i)) (tp_Devices p),
               ds_stored := (\<lambda>h. case loadMetadata h p of Ret (Some i) \<Rightarrow> Some (mount_side i) | _ \<Rightarrow> None)\<rparr>"

definition open_devices :: "'w machine \<Rightarrow> string \<Rightarrow> string list \<Rightarrow> device_set res" where
  "open_devices m root opts =
     (case NewDeviceSet root False opts m of
        Ret (Inr s) \<Rightarrow> Inr (mounts_of (bs_pool (dm_base s)))
      | Ret (Inl e) \<Rightarrow> Inl e
      | Panic msg \<Rightarrow> Inl (ErrText msg)
      | Diverge \<Rightarrow> Inl (ErrText []))"

end
