(* ===== verification/PoolSetupSpec.thy ===== *)
theory PoolSetupSpec
  imports PoolSetup BaseImageSpec Devicemapper FileMatchSpec
begin

text \<open>
  What opening a device set guarantees: which options are accepted, what sizes they stand for, that the migrator's way of
  opening a set makes nothing that is not there, and that the driver built on it starts with no device mounted.
\<close>

section \<open>Options\<close>

definition option_names :: "string set" where
  "option_names =
     {''dm.basesize'', ''dm.loopdatasize'', ''dm.loopmetadatasize'', ''dm.fs'', ''dm.mkfsarg'', ''dm.mountopt'', ''dm.metadatadev'',
      ''dm.datadev'', ''dm.thinpooldev'', ''dm.blkdiscard'', ''dm.blocksize'', ''dm.override_udev_sync_check'',
      ''dm.use_deferred_removal'', ''dm.use_deferred_deletion''}"

lemma set_option_ok:
  assumes "set_option k v o' = Inr o2" and "op_filesystem o' \<in> {[], ''ext4'', ''xfs''}"
  shows "k \<in> option_names \<and> op_filesystem o2 \<in> {[], ''ext4'', ''xfs''}"
  using assms
  by (cases "RAMInBytes v"; cases "ParseBool v") (auto simp: set_option_def option_names_def split: if_splits)

lemma parse_options_ok:
  assumes "parse_options opts o' = Inr o2" and "op_filesystem o' \<in> {[], ''ext4'', ''xfs''}"
  shows "op_filesystem o2 \<in> {[], ''ext4'', ''xfs''} \<and>
     (\<forall>opt \<in> set opts. \<exists>k v. ParseKeyValueOpt opt = Inr (k, v) \<and> ToLower k \<in> option_names)"
  using assms
proof (induction opts arbitrary: o')
  case (Cons opt opts)
  then obtain k v o1 where o1: "ParseKeyValueOpt opt = Inr (k, v)" "set_option (ToLower k) v o' = Inr o1" "parse_options opts o1 = Inr o2"
    by (auto simp: parse_option_def split: sum.splits prod.splits)
  from set_option_ok [OF o1(2) Cons.prems(2)] Cons.IH [OF o1(3)] o1(1) show ?case by auto
qed simp

text \<open>
  C36: Options that are accepted are well formed: each is a key and a value with a key the driver knows, and the file
  system they ask for is one it can make, so making the base image never ends in the case of an unsupported file system.
\<close>

theorem accepted_options_wf:
  assumes "parse_options opts default_options = Inr o'"
  shows "op_filesystem o' \<in> {[], ''ext4'', ''xfs''} \<and>
     (\<forall>opt \<in> set opts. \<exists>k v. ParseKeyValueOpt opt = Inr (k, v) \<and> ToLower k \<in> option_names)"
  using parse_options_ok [OF assms] by (simp add: default_options_def)

section \<open>Sizes\<close>

lemma take_digits: "\<forall>c \<in> set ds. is_digit c \<Longrightarrow> \<not> is_digit c \<Longrightarrow> takeWhile is_digit (ds @ c # t) = ds \<and> dropWhile is_digit (ds @ c # t) = c # t"
  by (induction ds) auto

lemma size_groups_show:
  assumes "unit_of c = Some k" and "\<not> is_digit c" and "t = [] \<or> t = ''b'' \<or> t = ''B''"
  shows "size_groups (show_nat n @ c # t) = Some (show_nat n, k)"
  using assms take_digits [of "show_nat n" c t] show_nat_digits [of _ n] show_nat_nonempty [of n]
  by (auto simp: size_groups_def Let_def)

lemma ParseInt64_show: "n < 2 ^ 63 \<Longrightarrow> ParseInt64 (show_nat n) = Inr (int n)"
  using ParseInt64_Itoa [of "int n"] by (simp add: Itoa_def)

text \<open>
  A size with a unit is that many bytes as long as the number of bytes is below 2 to the 63; beyond that the
  product wraps around and the size is accepted all the same: what is taken is the product modulo 2 to the 64.
\<close>

lemma RAMInBytes_correct:
  assumes "n < 2 ^ 63" and "unit_of c = Some k" and "\<not> is_digit c" and "t = [] \<or> t = ''b'' \<or> t = ''B''"
  shows "RAMInBytes (show_nat n @ c # t) = Inr (word_of_int (int n * 2 ^ k)) \<and>
     (int n * 2 ^ k < 2 ^ 63 \<longrightarrow> (\<exists>w. RAMInBytes (show_nat n @ c # t) = Inr w \<and> sint w = int n * 2 ^ k))"
proof -
  have r: "RAMInBytes (show_nat n @ c # t) = Inr (word_of_int (int n * 2 ^ k))"
    using size_groups_show [OF assms(2-4)] ParseInt64_show [OF assms(1)] by (simp add: RAMInBytes_def wi_hom_mult)
  have "sint (word_of_int i :: 64 word) = i" if "0 \<le> i" "i < 2 ^ 63" for i
    using that by (simp add: sint_sbintrunc' signed_take_bit_int_eq_self)
  then have "sint (word_of_int (int n * 2 ^ k) :: 64 word) = int n * 2 ^ k" if "int n * 2 ^ k < 2 ^ 63"
    using that by (metis mult_nonneg_nonneg of_nat_0_le_iff zero_le_numeral zero_le_power)
  with r show ?thesis by simp
qed

text \<open>The product of a large size wraps: 16777216 TB are taken as 0 bytes.\<close>

lemma huge_size_is_zero: "RAMInBytes ''16777216T'' = Inr 0"
proof -
  have "size_groups ''16777216T'' = Some (''16777216'', 40)" by code_simp
  moreover have "ParseInt64 ''16777216'' = Inr 16777216" by (simp add: ParseInt64_def is_digit_def)
  ultimately show ?thesis by (simp add: RAMInBytes_def)
qed

lemma RAMInBytes_correct_witness: "\<exists>w. RAMInBytes ''10g'' = Inr w \<and> sint w = 10737418240"
proof -
  have "unit_of CHR ''g'' = Some 30" "\<not> is_digit CHR ''g''" by code_simp+
  moreover have "show_nat 10 = ''10''" by code_simp
  ultimately show ?thesis using RAMInBytes_correct [of 10 "CHR ''g''" 30 "[]"] by simp
qed

section \<open>Device numbers\<close>

text \<open>The encoding of device numbers the kernel hands to user space.\<close>

definition new_encode_dev :: "64 word \<Rightarrow> 64 word \<Rightarrow> 64 word" where
  "new_encode_dev ma mi = or (or (and mi 0xff) (push_bit 8 ma)) (push_bit 12 (and mi 0xfff00))"

lemma bits_below:
  fixes x :: "64 word"
  assumes "x < 2 ^ n" and "bit x i"
  shows "i < n"
  using assms less_mask_eq [of x n] by (metis bit_and_iff bit_mask_iff)

lemma device_numbers:
  assumes "ma < 2 ^ 12" and "mi < 2 ^ 20"
  shows "dm_major (new_encode_dev ma mi) = ma" and "dm_minor (new_encode_dev ma mi) = mi"
proof -
  have m: "(0xfff :: 64 word) = mask 12" "(0xff :: 64 word) = mask 8" "(0xfff00 :: 64 word) = push_bit 8 (mask 12)"
    by (simp_all add: mask_eq_exp_minus_1 push_bit_eq_mult)
  show "dm_major (new_encode_dev ma mi) = ma"
    unfolding dm_major_def new_encode_dev_def m
    by (rule bit_eqI) (auto simp: bit_simps dest: bits_below [OF assms(1)] bits_below [OF assms(2)])
  show "dm_minor (new_encode_dev ma mi) = mi"
    unfolding dm_minor_def new_encode_dev_def m
    by (rule bit_eqI) (auto simp: bit_simps dest: bits_below [OF assms(1)] bits_below [OF assms(2)])
qed

section \<open>Opening what exists\<close>

text \<open>Loading the metadata leaves the mount side alone and creates no thin device.\<close>

definition fewer :: "thin_pool \<Rightarrow> thin_pool \<Rightarrow> bool" where
  "fewer p p' \<longleftrightarrow> tp_ds p' = tp_ds p \<and> set (dk_ids (tp_disk p')) \<subseteq> set (dk_ids (tp_disk p))"

lemma fewer_refl [simp]: "fewer p p"
  and fewer_trans [trans]: "fewer p q \<Longrightarrow> fewer q r \<Longrightarrow> fewer p r"
  by (auto simp: fewer_def)

lemma fewer_fields [simp]:
  "fewer p (q\<lparr>tp_transaction := t\<rparr>) = fewer p q" "fewer p (q\<lparr>tp_deviceIDMap := m\<rparr>) = fewer p q"
  "fewer p (q\<lparr>tp_Devices := d\<rparr>) = fewer p q" "fewer p (q\<lparr>tp_TransactionID := i\<rparr>) = fewer p q"
  "fewer p (q\<lparr>tp_nrDeletedDevices := n\<rparr>) = fewer p q"
  by (simp_all add: fewer_def)

lemma fewer_write: "writeMetaFile j f p = (r, p') \<Longrightarrow> fewer p p'"
  by (auto simp: writeMetaFile_def commit_def Let_def fewer_def put_file_def remove_file_def split: option.splits)

lemma fewer_steps:
  "saveMetadata i p = (r, p') \<Longrightarrow> fewer p p'"
  "removeMetadata h p = (r, p') \<Longrightarrow> fewer p p'"
  "removeTransactionMetaData p = (r, p') \<Longrightarrow> fewer p p'"
  "dm_DeleteDevice k p = (r, p') \<Longrightarrow> fewer p p'"
  "thin_markFree k p = Ret p' \<Longrightarrow> fewer p p'"
  "loadTransactionMetaData p = (r, p') \<Longrightarrow> fewer p p'"
  "thin_lookupDevice h p = Ret (q, p') \<Longrightarrow> fewer p p'"
  by (auto simp: saveMetadata_def removeMetadata_def removeTransactionMetaData_def remove_meta_def remove_file_def commit_def
      dm_DeleteDevice_def thin_markFree_def loadTransactionMetaData_def thin_lookupDevice_def fewer_def
      dest!: fewer_write [unfolded fewer_def] split: option.splits if_splits prod.splits sum.splits blob.splits json.splits)

lemma fewer_save_all: "save_all ds p = Ret p' \<Longrightarrow> fewer p p'"
proof (induction ds p rule: save_all.induct)
  case (3 h info ds s)
  then show ?case by (metis fewer_steps(1) fewer_trans prod.collapse save_all.simps(3))
qed auto

lemma fewer_walk: "walk_files ns p = Ret (r, p') \<Longrightarrow> fewer p p'"
proof (induction ns arbitrary: p)
  case (Cons n ns)
  have d: "deviceFileWalkFunction n p = Ret (q, p1) \<Longrightarrow> fewer p p1" for q p1
    by (auto simp: deviceFileWalkFunction_def simp del: bind_outcome_eq_Ret elim!: bind_outcomeE dest!: fewer_steps(7) split: if_splits sum.splits)
  show ?case
  proof (cases "tp_faults p (MetaLstat n) = None")
    case False
    with Cons show ?thesis by simp
  next
    case True
    with Cons.prems obtain q p1 where q: "deviceFileWalkFunction n p = Ret (q, p1)"
      "(case q of Some e \<Rightarrow> Ret (Some e, p1) | None \<Rightarrow> walk_files ns p1) = Ret (r, p')" by auto
    with Cons.IH [of p1] fewer_trans [OF d [OF q(1)]] d [OF q(1)] show ?thesis by (cases q) auto
  qed
qed simp

lemma fewer_rollback: "rollbackTransaction p = Ret p' \<Longrightarrow> fewer p p'"
  unfolding rollbackTransaction_def
  by (auto simp del: bind_outcome_eq_Ret elim!: bind_outcomeE split: prod.splits option.splits
      dest!: fewer_steps) (meson fewer_trans)+

lemma fewer_pending: "processPendingTransaction p = Ret (r, p') \<Longrightarrow> fewer p p'"
  by (auto simp: processPendingTransaction_def split: prod.splits option.splits if_splits
      dest!: fewer_steps(6) fewer_rollback dest: fewer_trans)

lemma fewer_migrate: "migrateOldMetaData p = Ret (r, p') \<Longrightarrow> fewer p p'"
  by (auto simp: migrateOldMetaData_def commit_def fewer_def split: sum.splits option.splits
      dest!: fewer_save_all [unfolded fewer_def])

lemma fewer_initMetaData:
  assumes "initMetaData p = Ret (r, p')"
  shows "fewer p p'"
proof -
  from assms obtain q p1 where m: "migrateOldMetaData p = Ret (q, p1)" and rest: "(case q of
         Some e \<Rightarrow> Ret (Some e, p1)
       | None \<Rightarrow>
           (case tp_faults p1 PoolStatus of
              Some e \<Rightarrow> Ret (Some e, p1)
            | None \<Rightarrow>
                bind_outcome (loadDeviceFilesOnStart (p1\<lparr>tp_TransactionID := dk_tid (tp_disk p1)\<rparr>)) (\<lambda>(er, s2).
                  case er of
                    Some e \<Rightarrow> Ret (Some (ErrText ''devmapper: Failed to load device files''), s2)
                  | None \<Rightarrow>
                      bind_outcome (constructDeviceIDMap (map (ti_DeviceID \<circ> snd) (tp_Devices s2)) (tp_deviceIDMap s2)) (\<lambda>m.
                        processPendingTransaction (countDeletedDevices (s2\<lparr>tp_deviceIDMap := m\<rparr>)))))) = Ret (r, p')"
    by (auto simp: initMetaData_def simp del: bind_outcome_eq_Ret elim!: bind_outcomeE)
  note f1 = fewer_migrate [OF m]
  show ?thesis
  proof (cases "q = None \<and> tp_faults p1 PoolStatus = None")
    case False
    with rest f1 show ?thesis by (auto split: option.splits)
  next
    case True
    with rest obtain er p2 where l: "loadDeviceFilesOnStart (p1\<lparr>tp_TransactionID := dk_tid (tp_disk p1)\<rparr>) = Ret (er, p2)"
      and rest2: "(case er of
                    Some e \<Rightarrow> Ret (Some (ErrText ''devmapper: Failed to load device files''), p2)
                  | None \<Rightarrow>
                      bind_outcome (constructDeviceIDMap (map (ti_DeviceID \<circ> snd) (tp_Devices p2)) (tp_deviceIDMap p2)) (\<lambda>m.
                        processPendingTransaction (countDeletedDevices (p2\<lparr>tp_deviceIDMap := m\<rparr>)))) = Ret (r, p')"
      by auto
    have "fewer (p1\<lparr>tp_TransactionID := dk_tid (tp_disk p1)\<rparr>) p2"
      using l unfolding loadDeviceFilesOnStart_def by (rule fewer_walk)
    with f1 have f2: "fewer p p2" by (auto simp: fewer_def)
    show ?thesis
    proof (cases er)
      case (Some e)
      with rest2 f2 show ?thesis by auto
    next
      case None
      with rest2 obtain m where "processPendingTransaction (countDeletedDevices (p2\<lparr>tp_deviceIDMap := m\<rparr>)) = Ret (r, p')" by auto
      moreover obtain x where "countDeletedDevices (p2\<lparr>tp_deviceIDMap := m\<rparr>) = p2\<lparr>tp_deviceIDMap := m, tp_nrDeletedDevices := x\<rparr>"
        using countDeletedDevices_frame [of "p2\<lparr>tp_deviceIDMap := m\<rparr>"] by auto
      ultimately have "fewer (p2\<lparr>tp_deviceIDMap := m, tp_nrDeletedDevices := x\<rparr>) p'" using fewer_pending by simp
      moreover have "fewer p2 (p2\<lparr>tp_deviceIDMap := m, tp_nrDeletedDevices := x\<rparr>)" by simp
      ultimately show ?thesis using f2 fewer_trans by blast
    qed
  qed
qed

text \<open>What opening without initialising leaves as it was.\<close>

definition untouched :: "'w dm_set \<Rightarrow> 'w dm_set \<Rightarrow> bool" where
  "untouched s0 s \<longleftrightarrow>
     map fst (dm_images s) = map fst (dm_images s0) \<and> bs_log (dm_base s) = bs_log (dm_base s0) \<and>
     ds_kmounts (tp_ds (bs_pool (dm_base s))) = ds_kmounts (tp_ds (bs_pool (dm_base s0))) \<and>
     set (dk_ids (tp_disk (bs_pool (dm_base s)))) \<subseteq> set (dk_ids (tp_disk (bs_pool (dm_base s0))))"

lemma untouched_refl: "untouched s s"
  by (simp add: untouched_def)

lemma untouched_fields [simp]:
  "untouched s0 (s\<lparr>dm_dataDevice := a, dm_dataLoopFile := b\<rparr>) = untouched s0 s"
  "untouched s0 (s\<lparr>dm_dataLoopFile := b, dm_dataDevice := a\<rparr>) = untouched s0 s"
  "untouched s0 (s\<lparr>dm_metadataDevice := a, dm_metadataLoopFile := b\<rparr>) = untouched s0 s"
  "untouched s0 (s\<lparr>dm_metadataLoopFile := b, dm_metadataDevice := a\<rparr>) = untouched s0 s"
  "untouched s0 (s\<lparr>dm_loops := ls\<rparr>) = untouched s0 s" "untouched s0 (s\<lparr>dm_pools := ps\<rparr>) = untouched s0 s"
  "untouched s0 (s\<lparr>dm_base := (dm_base s)\<lparr>bs_devicePrefix := x\<rparr>\<rparr>) = untouched s0 s"
  "untouched s0 (autoclear h s) = untouched s0 s"
  by (simp_all add: untouched_def autoclear_def split: option.split)

lemma untouched_capabilities: "keeps (untouched s0) capabilities"
  by (rule keepsI) (auto simp: capabilities_def check_deferred_def upd_pool_def untouched_def Let_def simp del: bind_outcome_eq_Ret
      elim!: bind_outcomeE split: sum.splits if_splits)

lemma untouched_root: "keeps (untouched s0) prepare_root"
  by (rule keepsI) (auto simp: prepare_root_def Let_def split: sum.splits if_splits)

lemma decode_set_fields:
  "bs_log (fst (fold decode_set_field kvs st)) = bs_log (fst st) \<and>
   tp_ds (bs_pool (fst (fold decode_set_field kvs st))) = tp_ds (bs_pool (fst st)) \<and>
   tp_disk (bs_pool (fst (fold decode_set_field kvs st))) = tp_disk (bs_pool (fst st))"
proof (induction kvs arbitrary: st)
  case (Cons kv kvs)
  have "bs_log (fst (decode_set_field kv st)) = bs_log (fst st) \<and> tp_ds (bs_pool (fst (decode_set_field kv st))) = tp_ds (bs_pool (fst st)) \<and>
      tp_disk (bs_pool (fst (decode_set_field kv st))) = tp_disk (bs_pool (fst st))"
    by (auto simp: decode_set_field_def Let_def keep_first_def map_sum_def split: sum.splits)
  with Cons show ?case by simp
qed simp

lemma untouched_load: "keeps (untouched s0) (on_base loadDeviceSetMetaData)"
proof (rule keepsI)
  fix s r s' assume u: "untouched s0 s" and r: "on_base loadDeviceSetMetaData s = Ret (r, s')"
  then obtain b where b: "loadDeviceSetMetaData (dm_base s) = Ret (r, b)" "s' = s\<lparr>dm_base := b\<rparr>" by (auto simp: on_base_def)
  from b(1) have "bs_log b = bs_log (dm_base s) \<and> tp_ds (bs_pool b) = tp_ds (bs_pool (dm_base s)) \<and> tp_disk (bs_pool b) = tp_disk (bs_pool (dm_base s))"
    using decode_set_fields [of _ "(dm_base s, None)"]
    by (auto simp: loadDeviceSetMetaData_def split: sum.splits blob.splits json.splits prod.splits) (metis fst_conv)+
  with u b(2) show "untouched s0 s'" by (simp add: untouched_def)
qed

lemma untouched_init: "keeps (untouched s0) (on_base (on_pool_out initMetaData))"
  by (rule keepsI) (fastforce simp: on_base_def on_pool_out_def untouched_def fewer_def dest: fewer_initMetaData)

lemma untouched_load_or_set_up: "keeps (untouched s0) (load_or_set_up False new)"
proof -
  have "keeps (untouched s0) (\<lambda>s. if new then Ret (None, s) else on_base (on_pool_out initMetaData) s)"
    using untouched_init [of s0] by (cases new) (auto simp: keeps_def)
  moreover have "keeps (untouched s0) (\<lambda>s. if False then on_base setupBaseImage s else Ret (None, s))"
    by (rule keepsI) auto
  ultimately show ?thesis unfolding load_or_set_up_def by (intro keeps_seq untouched_load)
qed

lemma untouched_data: "keeps (untouched s0) (load_data_loop num)"
  and untouched_metadata: "keeps (untouched s0) (load_metadata_loop num)"
  by (rule keepsI; auto simp: load_data_loop_def load_metadata_loop_def split: sum.splits if_splits prod.splits)+

lemma untouched_loopback_info: "keeps (untouched s0) loadThinPoolLoopBackInfo"
proof (rule keepsI)
  fix s r s' assume u: "untouched s0 s" and r: "loadThinPoolLoopBackInfo s = Ret (r, s')"
  from r consider "s' = s" | d m where "seq (load_data_loop d) (load_metadata_loop m) s = Ret (r, s')"
    by (auto simp: loadThinPoolLoopBackInfo_def simp del: bind_outcome_eq_Ret elim!: bind_outcomeE split: sum.splits)
  then show "untouched s0 s'"
    by cases (use u in \<open>auto dest: keepsD [OF keeps_seq [OF untouched_data untouched_metadata]]\<close>)
qed

lemma truncate_untouched:
  assumes "truncate_image name f sz s = (r, s')" and "map_of (dm_images s) name \<noteq> None"
  shows "untouched s0 s' = untouched s0 s"
proof -
  from assms(2) have "name \<in> set (map fst (dm_images s))" by (simp add: map_of_eq_None_iff)
  then have "map fst (AList.update name (f, sint sz) (dm_images s)) = map fst (dm_images s)" by (simp add: update_keys)
  with assms(1) show ?thesis by (auto simp: truncate_image_def untouched_def split: option.splits if_splits)
qed

lemma prepare_untouched:
  assumes "prepare_image False name sz s = (r, s')"
  shows "untouched s0 s' = untouched s0 s"
proof (cases "hasImage name s")
  case False
  with assms show ?thesis by (auto simp: prepare_image_def)
next
  case True
  obtain q s1 where e: "ensureImage name sz s = (q, s1)" by fastforce
  have "untouched s0 s1 = untouched s0 s"
    using e True by (auto simp: ensureImage_def hasImage_def dest: truncate_untouched split: if_splits option.splits prod.splits)
  with assms e True show ?thesis by (auto simp: prepare_image_def split: sum.splits prod.splits)
qed

lemma create_untouched:
  assumes "create_pool False s = (r, s')"
  shows "untouched s0 s' = untouched s0 s"
proof -
  have d: "open_data False t = (q, t') \<Longrightarrow> untouched s0 t' = untouched s0 t" for t q t'
    by (auto simp: open_data_def dest: prepare_untouched [where ?s0.0 = s0] split: if_splits option.splits prod.splits sum.splits)
  have m: "open_metadata False t = (q, t') \<Longrightarrow> untouched s0 t' = untouched s0 t" for t q t'
    by (auto simp: open_metadata_def dest: prepare_untouched [where ?s0.0 = s0] split: if_splits option.splits prod.splits sum.splits)
  from assms show ?thesis
    by (auto simp: create_pool_def dest!: d m split: prod.splits sum.splits option.splits)
qed

lemma untouched_initDevmapper: "keeps (untouched s0) (initDevmapper False)"
proof -
  have "keeps (untouched s0) (open_pool False)"
  proof (rule keepsI)
    fix s r s' assume u: "untouched s0 s" and r: "open_pool False s = Ret (r, s')"
    from r consider "s' = s" | e where "create_pool False s = (Inl e, s')"
      | new s1 where "create_pool False s = (Inr new, s1)" "load_or_set_up False new s1 = Ret (r, s')"
      | new where "load_or_set_up False new s = Ret (r, s')"
      | "seq loadThinPoolLoopBackInfo (load_or_set_up False False) s = Ret (r, s')"
      by (auto simp: open_pool_def split: sum.splits if_splits prod.splits)
    then show "untouched s0 s'"
    proof cases
      case (2 e)
      with create_untouched [OF this] u show ?thesis by blast
    next
      case (3 new s1)
      with create_untouched [OF 3(1)] u keepsD [OF untouched_load_or_set_up 3(2)] show ?thesis by blast
    next
      case (4 new)
      from keepsD [OF untouched_load_or_set_up 4 u] show ?thesis .
    next
      case 5
      from keepsD [OF keeps_seq [OF untouched_loopback_info untouched_load_or_set_up] 5 u] show ?thesis .
    qed (use u in simp)
  qed
  then show ?thesis unfolding initDevmapper_def by (intro keeps_seq untouched_capabilities untouched_root)
qed


section \<open>The driver on an opened set\<close>

lemma mount_count_mounts_of: "mount_count (mounts_of p) h = 0"
proof -
  have "map_of (map (\<lambda>(h, i). (h, mount_side i)) xs) h = map_option mount_side (map_of xs h)" for xs :: "(string \<times> thin_info) list"
    by (induction xs) auto
  then show ?thesis
    by (auto simp: mount_count_def mounts_of_def mount_side_def split: option.splits outcome.splits)
qed

text \<open>
  C16: The driver the migrator makes from an opened device set starts with nothing mounted and no reference taken, so on
  every run of it the activity of an entry is the number of handles and lost references for it, whatever fails.
\<close>

theorem opened_driver_counts:
  assumes "NewDevicemapperChecksums (open_devices m) ar root opts w = Inr (drv, w')" and "ds_kmounts (ma_ds m) = []"
  shows "dm_fresh w' \<and>
     (\<forall>v hs lost gid. dm_reach w' (v, hs, lost) \<longrightarrow> act v gid = int (count_list hs gid + count_list lost gid))"
proof -
  from assms(1) obtain s where n: "NewDeviceSet root False opts m = Ret (Inr s)" and w': "w_mounts w' = []" "w_devs w' = mounts_of (bs_pool (dm_base s))"
    by (auto simp: NewDevicemapperChecksums_def open_devices_def split: sum.splits outcome.splits)
  then obtain o' where i: "initDevmapper False (new_set root (discard_default o') m) = Ret (None, s)"
    by (auto simp: NewDeviceSet_def split: sum.splits option.splits)
  from keepsD [OF untouched_initDevmapper i untouched_refl] assms(2) have "ds_kmounts (tp_ds (bs_pool (dm_base s))) = []"
    by (simp add: untouched_def new_set_def fresh_set_def)
  then have f: "dm_fresh w'" by (simp add: dm_fresh_def w' mount_count_mounts_of) (simp add: mounts_of_def)
  have "act v gid = int (count_list hs gid + count_list lost gid)" if "dm_reach w' (v, hs, lost)" for v hs lost gid
    using counts_ok_reach [OF that f] by (simp add: counts_ok_def)
  with f show ?thesis by blast
qed

section \<open>Witnesses\<close>

text \<open>A machine whose pool is active and named by the user.\<close>

definition demo_env :: dm_env where
  "demo_env =
     \<lparr>en_version = Inr ''4.37.0'', en_libDeferred = True, en_ids = None, en_mkRoot = None, en_mkMeta = None, en_statRoot = Inr (2049, 7),
      en_poolInfo = (\<lambda>_. Inr True), en_poolType = (\<lambda>_. Inr ''thin-pool''), en_poolTable = (\<lambda>_. Inl ENOENT), en_createPool = None,
      en_mkLoopDir = None, en_stat = (\<lambda>_. None), en_openImage = (\<lambda>_. None), en_truncate = (\<lambda>_. None), en_newFile = (\<lambda>_. (0, 0)),
      en_openDevice = (\<lambda>_. None), en_loopCtl = Inr 0, en_statLoop = (\<lambda>_. None)\<rparr>"

definition demo_machine :: "bool \<Rightarrow> unit machine" where
  "demo_machine exists =
     \<lparr>ma_disk = \<lparr>dk_files = [], dk_old = None, dk_ids = [], dk_tid = 0\<rparr>, ma_ds = demo_ds, ma_faults = (\<lambda>_. None),
      ma_usage = Inl ENOENT, ma_mnt = False, ma_sys = demo_sys, ma_world = (), ma_images = [], ma_loops = [],
      ma_env = demo_env\<lparr>en_poolInfo := (\<lambda>_. Inr exists)\<rparr>\<rparr>"

lemma demo_options:
  "parse_options [''dm.thinpooldev=pool''] default_options = Inr (default_options\<lparr>op_thinPoolDevice := ''pool''\<rparr>)"
proof -
  have "\<forall>c \<in> set ''dm.thinpooldev''. printable c" "\<forall>c \<in> set ''pool''. printable c" by code_simp+
  then have "ParseKeyValueOpt ''dm.thinpooldev=pool'' = Inr (''dm.thinpooldev'', ''pool'')"
    by (simp add: ParseKeyValueOpt_def TrimSpace_printable)
  moreover have "ToLower ''dm.thinpooldev'' = ''dm.thinpooldev''" by code_simp
  ultimately show ?thesis by (simp add: parse_option_def set_option_def TrimPrefix_def)
qed

lemma accepted_options_wf_witness:
  "\<exists>k v. ParseKeyValueOpt ''dm.thinpooldev=pool'' = Inr (k, v) \<and> ToLower k \<in> option_names"
  using accepted_options_wf [OF demo_options] by simp

lemma demo_version: "determineDriverCapabilities ''4.37.0'' = Ret (Inr True)"
  by (simp add: determineDriverCapabilities_def ParseInt64_def is_digit_def)





lemma initMetaData_empty:
  assumes "tp_faults p = (\<lambda>_. None)" and "tp_disk p = \<lparr>dk_files = [], dk_old = None, dk_ids = [], dk_tid = 0\<rparr>" and "tp_Devices p = []"
  shows "\<exists>p'. initMetaData p = Ret (None, p') \<and> tp_disk p' = tp_disk p \<and> tp_faults p' = tp_faults p"
proof -
  have m: "migrateOldMetaData p = Ret (None, p)" using assms by (simp add: migrateOldMetaData_def os_IsNotExist_def)
  let ?p = "p\<lparr>tp_TransactionID := 0\<rparr>"
  have l: "loadDeviceFilesOnStart ?p = Ret (None, ?p)" using assms(2) by (simp add: loadDeviceFilesOnStart_def)
  have c: "countDeletedDevices ?p = ?p" using assms(3) by (simp add: countDeletedDevices_def)
  have "\<exists>p'. processPendingTransaction ?p = Ret (None, p') \<and> tp_disk p' = tp_disk p \<and> tp_faults p' = tp_faults p"
    using assms(1,2) by (simp add: processPendingTransaction_def loadTransactionMetaData_def read_meta_def os_IsNotExist_def)
  with m l c assms show ?thesis by (simp add: initMetaData_def)
qed

lemma demo_opened: "\<exists>s. NewDeviceSet ''/r'' False [''dm.thinpooldev=pool''] (demo_machine True) = Ret (Inr s)"
proof -
  let ?o = "default_options\<lparr>op_thinPoolDevice := ''pool''\<rparr>"
  let ?s = "new_set ''/r'' (discard_default ?o) (demo_machine True)"
  have d: "discard_default ?o = ?o\<lparr>op_doBlkDiscard := False\<rparr>" by (simp add: discard_default_def default_options_def)
  have "bs_pool (dm_base ?s) = (fresh_set (ma_disk (demo_machine True)) demo_ds)\<lparr>tp_baseFsSize := op_baseFsSize ?o, tp_doBlkDiscard := False,
      tp_faults := (\<lambda>_. None)\<rparr>" by (simp add: d new_set_def demo_machine_def)
  then have "tp_faults (bs_pool (dm_base ?s)) = (\<lambda>_. None)" "tp_disk (bs_pool (dm_base ?s)) = ma_disk (demo_machine True)"
    "tp_Devices (bs_pool (dm_base ?s)) = []" by (simp_all add: fresh_set_def)
  with initMetaData_empty [of "bs_pool (dm_base ?s)"] obtain p' where i: "initMetaData (bs_pool (dm_base ?s)) = Ret (None, p')"
    "tp_disk p' = ma_disk (demo_machine True)" "tp_faults p' = (\<lambda>_. None)" by (auto simp: demo_machine_def)
  have c: "capabilities ?s = Ret (None, ?s)"
    by (simp add: discard_default_def capabilities_def new_set_def demo_machine_def demo_env_def demo_version check_deferred_def default_options_def Let_def)
  obtain px where p: "prepare_root ?s = Ret (None, ?s\<lparr>dm_base := (dm_base ?s)\<lparr>bs_devicePrefix := px\<rparr>\<rparr>)"
    by (simp add: prepare_root_def new_set_def demo_machine_def demo_env_def)
  have "\<exists>s'. load_or_set_up False False (?s\<lparr>dm_base := (dm_base ?s)\<lparr>bs_devicePrefix := px\<rparr>\<rparr>) = Ret (None, s')"
    using i by (simp add: load_or_set_up_def seq_def on_base_def on_pool_out_def loadDeviceSetMetaData_def read_meta_def demo_machine_def
        os_IsNotExist_def)
  then obtain s' where "open_pool False (?s\<lparr>dm_base := (dm_base ?s)\<lparr>bs_devicePrefix := px\<rparr>\<rparr>) = Ret (None, s')"
    by (auto simp: open_pool_def thinPoolExists_def thinPoolDevice_def d new_set_def demo_machine_def demo_env_def)
  with c p have "initDevmapper False ?s = Ret (None, s')" by (simp add: initDevmapper_def seq_def)
  then show ?thesis unfolding NewDeviceSet_def demo_options by simp
qed

definition silent_archiver :: "unit archiver" where
  "silent_archiver = \<lparr>TarWithOptions = (\<lambda>_ _ _. Inl ENOENT), ChangesDirs = (\<lambda>_ _ _. Inl ENOENT), ExportChanges = (\<lambda>_ _ _. Inl ENOENT)\<rparr>"

lemma opened_driver_counts_witness:
  "\<exists>drv w'. NewDevicemapperChecksums (open_devices (demo_machine True)) silent_archiver ''/r'' [''dm.thinpooldev=pool''] (demo_world (\<lambda>_ _. None)) =
     Inr (drv, w') \<and> dm_fresh w'"
proof -
  obtain s where n: "NewDeviceSet ''/r'' False [''dm.thinpooldev=pool''] (demo_machine True) = Ret (Inr s)" using demo_opened by blast
  then obtain drv w' where d: "NewDevicemapperChecksums (open_devices (demo_machine True)) silent_archiver ''/r'' [''dm.thinpooldev=pool'']
      (demo_world (\<lambda>_ _. None)) = Inr (drv, w')" by (simp add: NewDevicemapperChecksums_def open_devices_def)
  have "ds_kmounts (ma_ds (demo_machine True)) = []" by (simp add: demo_machine_def demo_ds_def)
  with opened_driver_counts [OF d] d show ?thesis by blast
qed

end
