(* ===== verification/PoolStatus.thy ===== *)
theory PoolStatus
  imports PoolSetup
begin

text \<open>
  The queries and the end of a device set in \<open>daemon/graphdriver/devmapper/deviceset.go\<close>: \<open>Status\<close>, \<open>GetDeviceStatus\<close>,
  \<open>exportDeviceMetadata\<close>, \<open>ResizePool\<close> and \<open>Shutdown\<close>.  They serve the daemon.
\<close>

section \<open>Status\<close>

record disk_usage =
  du_Used :: "64 word"
  du_Total :: "64 word"
  du_Available :: "64 word"

record pool_report =
  pr_PoolName :: string
  pr_DataFile :: string
  pr_DataLoopback :: string
  pr_MetadataFile :: string
  pr_MetadataLoopback :: string
  pr_Data :: disk_usage
  pr_Metadata :: disk_usage
  pr_BaseDeviceSize :: "64 word"
  pr_BaseDeviceFS :: string
  pr_SectorSize :: "64 word"
  pr_UdevSyncSupported :: bool
  pr_DeferredRemoveEnabled :: bool
  pr_DeferredDeleteEnabled :: bool
  pr_DeferredDeletedDeviceCount :: "64 word"

text \<open>What \<open>stat\<close> and \<open>statfs\<close> say of a loopback file, and whether udev takes part.\<close>

record file_env =
  fe_regular :: "string \<Rightarrow> bool res"
  fe_statfs :: "string \<Rightarrow> (64 word \<times> 64 word) res"
  fe_udev :: bool

definition isRealFile :: "string \<Rightarrow> file_env \<Rightarrow> bool res" where
  "isRealFile loopFile fe = (if loopFile = [] then Inr False else fe_regular fe loopFile)"

definition getUnderlyingAvailableSpace :: "string \<Rightarrow> file_env \<Rightarrow> 64 word res" where
  "getUnderlyingAvailableSpace loopFile fe =
     (case fe_statfs fe loopFile of Inl e \<Rightarrow> Inl e | Inr (bfree, bsize) \<Rightarrow> Inr (bfree * bsize))"

text \<open>A loopback file can hold no more than its file system has left.\<close>

definition cap_available :: "string \<Rightarrow> file_env \<Rightarrow> disk_usage \<Rightarrow> disk_usage" where
  "cap_available loopFile fe u =
     (case isRealFile loopFile fe of
        Inr True \<Rightarrow>
          (case getUnderlyingAvailableSpace loopFile fe of
             Inr actual \<Rightarrow> if actual < du_Available u then u\<lparr>du_Available := actual\<rparr> else u
           | Inl e \<Rightarrow> u)
      | _ \<Rightarrow> u)"

definition usage_bytes :: "64 word \<Rightarrow> 64 word \<Rightarrow> 64 word \<Rightarrow> disk_usage" where
  "usage_bytes taken blocks bytes =
     \<lparr>du_Used = taken * bytes, du_Total = blocks * bytes, du_Available = blocks * bytes - taken * bytes\<rparr>"

definition zero_usage :: disk_usage where
  "zero_usage = \<lparr>du_Used = 0, du_Total = 0, du_Available = 0\<rparr>"

text \<open>Dividing by a total of no data blocks panics.\<close>

definition Status :: "file_env \<Rightarrow> 'w dm_set \<Rightarrow> (pool_report \<times> 'w dm_set) outcome" where
  "Status fe s =
     bind_outcome (getBaseDeviceSize (bs_pool (dm_base s))) (\<lambda>(sz, p).
       (let s1 = upd_pool (\<lambda>_. p) s;
            r = \<lparr>pr_PoolName = getPoolName s1, pr_DataFile = dm_dataDevice s1, pr_DataLoopback = dm_dataLoopFile s1,
                 pr_MetadataFile = dm_metadataDevice s1, pr_MetadataLoopback = dm_metadataLoopFile s1, pr_Data = zero_usage,
                 pr_Metadata = zero_usage, pr_BaseDeviceSize = sz, pr_BaseDeviceFS = bs_BaseDeviceFilesystem (dm_base s1),
                 pr_SectorSize = 0, pr_UdevSyncSupported = fe_udev fe, pr_DeferredRemoveEnabled = ds_deferredRemove (tp_ds p),
                 pr_DeferredDeleteEnabled = tp_deferredDelete p, pr_DeferredDeletedDeviceCount = tp_nrDeletedDevices p\<rparr>
        in case poolStatus (dm_base s1) of
             Inl e \<Rightarrow> Ret (r, s1)
           | Inr (_, u) \<Rightarrow>
               if pu_dataTotal u = 0 then Panic ''integer divide by zero''
               else
                 (let block = pu_sectors u div pu_dataTotal u
                  in Ret (r\<lparr>pr_Data := cap_available (dm_dataLoopFile s1) fe (usage_bytes (pu_dataUsed u) (pu_dataTotal u) (block * 512)),
                            pr_Metadata := cap_available (dm_metadataLoopFile s1) fe (usage_bytes (pu_metaUsed u) (pu_metaTotal u) 4096),
                            pr_SectorSize := block * 512\<rparr>, s1))))"

text \<open>The numbers of one thin device; they come from its status line, an argument.\<close>

record dev_status =
  dv_DeviceID :: int
  dv_Size :: "64 word"
  dv_TransactionID :: "64 word"
  dv_SizeInSectors :: "64 word"
  dv_MappedSectors :: "64 word"
  dv_HighestMappedSector :: "64 word"

definition GetDeviceStatus ::
  "(string \<Rightarrow> (64 word \<times> 64 word \<times> 64 word) res) \<Rightarrow> string \<Rightarrow> 'w base_set \<Rightarrow> (dev_status res \<times> 'w base_set) outcome" where
  "GetDeviceStatus deviceStatus hash s =
     bind_outcome (thin_lookupDevice hash (bs_pool s)) (\<lambda>(r, p).
       (let s1 = s\<lparr>bs_pool := p\<rparr>
        in case r of
             Inl e \<Rightarrow> Ret (Inl e, s1)
           | Inr info \<Rightarrow>
               bind_outcome (activate_thin info s1) (\<lambda>(er, s2).
                 case er of
                   Some e \<Rightarrow> Ret (Inl (ErrText ''devmapper: Error activating devmapper device''), s2)
                 | None \<Rightarrow>
                     (case deviceStatus (DevName s2 (ti_Hash info)) of
                        Inl e \<Rightarrow> Ret (Inl e, s2)
                      | Inr (sectors, mapped, highest) \<Rightarrow>
                          Ret (Inr \<lparr>dv_DeviceID = ti_DeviceID info, dv_Size = ti_Size info, dv_TransactionID = ti_TransactionID info,
                                    dv_SizeInSectors = sectors, dv_MappedSectors = mapped, dv_HighestMappedSector = highest\<rparr>, s2)))))"

definition exportDeviceMetadata :: "string \<Rightarrow> 'w base_set \<Rightarrow> ((int \<times> 64 word \<times> string) res \<times> 'w base_set) outcome" where
  "exportDeviceMetadata hash s =
     bind_outcome (thin_lookupDevice hash (bs_pool s)) (\<lambda>(r, p).
       Ret (case r of Inl e \<Rightarrow> Inl e | Inr info \<Rightarrow> Inr (ti_DeviceID info, ti_Size info, info_Name s (ti_Hash info)), s\<lparr>bs_pool := p\<rparr>))"

section \<open>Resizing the pool\<close>

text \<open>
  The files are the images, or block devices, whose size \<open>Stat\<close> gives as 0 and for which no loop device is found.  The
  calls to the kernel are \<open>rz_call\<close>: setting the capacity, suspending, reloading and resuming the pool.
\<close>

datatype resize_call = SetCapacity | SuspendPool | ReloadPool | ResumePool

record resize_env =
  rz_open :: "string \<Rightarrow> err option"
  rz_call :: "resize_call \<Rightarrow> err option"

definition image_of :: "string \<Rightarrow> string \<Rightarrow> string" where
  "image_of device name = (if device \<noteq> [] then device else name)"

definition ResizePool :: "resize_env \<Rightarrow> int64 \<Rightarrow> 'w dm_set \<Rightarrow> err option \<times> 'w dm_set" where
  "ResizePool rz sz s =
     (let data = image_of (dm_dataDevice s) ''data''; meta = image_of (dm_metadataDevice s) ''metadata''
      in case rz_open rz data of
           Some e \<Rightarrow> (Some e, s)
         | None \<Rightarrow>
             (let len = (case map_of (dm_images s) data of Some (_, n) \<Rightarrow> n | None \<Rightarrow> 0)
              in if len > sint sz then (Some (ErrText ''devmapper: Can't shrink file''), s)
                 else if (case map_of (dm_images s) data of Some (f, _) \<Rightarrow> FindLoopDeviceFor (Inr f) (dm_loops s) | None \<Rightarrow> None) = None
                 then (Some (ErrText ''devmapper: Unable to find loopback mount''), s)
                 else
                   (case rz_open rz meta of
                      Some e \<Rightarrow> (Some e, s)
                    | None \<Rightarrow>
                        if (case map_of (dm_images s) meta of Some (f, _) \<Rightarrow> FindLoopDeviceFor (Inr f) (dm_loops s) | None \<Rightarrow> None) = None
                        then (Some (ErrText ''devmapper: Unable to find loopback mount''), s)
                        else
                          (case truncate_image data (fst (the (map_of (dm_images s) data))) sz s of
                             (Some e, s1) \<Rightarrow> (Some (ErrText ''devmapper: Unable to grow loopback file''), s1)
                           | (None, s1) \<Rightarrow>
                               (map_option (\<lambda>_. ErrText ''devmapper: Unable to resize pool'')
                                  (find (\<lambda>r. r \<noteq> None) (map (rz_call rz) [SetCapacity, SuspendPool, ReloadPool, ResumePool])), s1)))))"

section \<open>Shutting down\<close>

text \<open>Taking one mounted device down; errors are logged.\<close>

definition shut_device :: "string \<times> devInfo \<Rightarrow> device_set \<Rightarrow> device_set" where
  "shut_device hi ds =
     (case hi of (hash, info) \<Rightarrow>
        if di_mountCount info > 0 then snd (deactivateDevice hash (snd (kumount (di_mountPath info) ds))) else ds)"

text \<open>
  \<open>deactivatePool\<close>: the pool's node exists when it did before this run or this run made it; \<open>remove\<close> is what its removal
  returns.
\<close>

definition deactivatePool :: "err option \<Rightarrow> 'w dm_set \<Rightarrow> err option \<times> 'w dm_set" where
  "deactivatePool remove s =
     (case en_poolInfo (dm_env s) (getPoolName s) of
        Inl e \<Rightarrow> (Some e, s)
      | Inr exists \<Rightarrow>
          if \<not> exists \<and> getPoolName s \<notin> fst ` set (dm_pools s) then (None, s)
          else
            (case remove of
               Some e \<Rightarrow> (Some e, s)
             | None \<Rightarrow>
                 (None, s\<lparr>dm_pools := filter (\<lambda>p. fst p \<noteq> getPoolName s) (dm_pools s),
                          dm_env := (dm_env s)\<lparr>en_poolInfo := (en_poolInfo (dm_env s))(getPoolName s := Inr False)\<rparr>\<rparr>)))"

text \<open>
  \<open>Shutdown\<close> saves the metadata first, takes every mounted device down, then the base device, and then the pool unless it
  is the user's.  Errors on the way are logged and it returns nil.
\<close>

definition shut_devices :: "'w step" where
  "shut_devices s =
     (let s1 = update_ds (\<lambda>ds. fold shut_device (ds_Devices ds) ds) s
      in bind_outcome (thin_lookupDevice [] (bs_pool s1)) (\<lambda>(r, p).
           (let s2 = s1\<lparr>bs_pool := p\<rparr>
            in Ret (None, case r of Inl _ \<Rightarrow> s2 | Inr info \<Rightarrow> deactivate_thin info s2))))"

definition Shutdown :: "err option \<Rightarrow> 'w dm_set action" where
  "Shutdown remove s =
     bind_outcome (on_base saveDeviceSetMetaData s) (\<lambda>(_, s1).
       bind_outcome (on_base shut_devices s1) (\<lambda>(_, s2).
         Ret (None, if thinPoolDevice s2 = [] then snd (deactivatePool remove s2) else s2)))"

section \<open>What they report and do\<close>

text \<open>
  The numbers add up as long as the kernel's do: with no more blocks used than there are, and fewer bytes than 64 bits can
  count, the bytes used and available are at most the total, and the total is at most the size of the pool.
\<close>

lemma usage_bytes_sums:
  assumes "unat blocks * unat bytes < 2 ^ 64" and "taken \<le> blocks"
  shows "unat (du_Used (usage_bytes taken blocks bytes)) + unat (du_Available (usage_bytes taken blocks bytes)) =
       unat (du_Total (usage_bytes taken blocks bytes))"
    and "unat (du_Total (usage_bytes taken blocks bytes)) = unat blocks * unat bytes"
proof -
  have le: "unat taken * unat bytes \<le> unat blocks * unat bytes" using assms(2) by (simp add: word_le_nat_alt)
  have total: "unat (blocks * bytes) = unat blocks * unat bytes" using assms(1) unat_mult_lem [of blocks bytes] by simp
  have used: "unat (taken * bytes) = unat taken * unat bytes" using le_less_trans [OF le assms(1)] unat_mult_lem [of taken bytes] by simp
  have "taken * bytes \<le> blocks * bytes" using le total used by (simp add: word_le_nat_alt)
  then have "unat (blocks * bytes - taken * bytes) = unat (blocks * bytes) - unat (taken * bytes)" by (rule unat_sub)
  then show "unat (du_Used (usage_bytes taken blocks bytes)) + unat (du_Available (usage_bytes taken blocks bytes)) =
       unat (du_Total (usage_bytes taken blocks bytes))"
    using le total used by (simp add: usage_bytes_def)
  show "unat (du_Total (usage_bytes taken blocks bytes)) = unat blocks * unat bytes" using total by (simp add: usage_bytes_def)
qed

lemma cap_available_less:
  "unat (du_Available (cap_available f fe u)) \<le> unat (du_Available u)" "du_Used (cap_available f fe u) = du_Used u"
  "du_Total (cap_available f fe u) = du_Total u"
  by (auto simp: cap_available_def word_le_nat_alt word_less_nat_alt split: sum.split bool.split)

lemma lookup_keeps_status:
  assumes "getBaseDeviceSize (bs_pool (dm_base s)) = Ret (sz, p)"
  shows "poolStatus (dm_base (upd_pool (\<lambda>_. p) s)) = poolStatus (dm_base s)"
proof -
  have "tp_faults p = tp_faults (bs_pool (dm_base s)) \<and> tp_disk p = tp_disk (bs_pool (dm_base s))"
    using assms by (auto simp: getBaseDeviceSize_def thin_lookupDevice_def split: option.splits)
  then show ?thesis by (simp add: poolStatus_def upd_pool_def cong: option.case_cong sum.case_cong)
qed

lemma Status_bounds:
  assumes run: "Status fe s = Ret (st, s')" and status: "poolStatus (dm_base s) = Inr (x, u)"
    and le: "pu_dataUsed u \<le> pu_dataTotal u" and small: "unat (pu_sectors u) * 512 < 2 ^ 64"
  shows "unat (du_Used (pr_Data st)) + unat (du_Available (pr_Data st)) \<le> unat (du_Total (pr_Data st)) \<and>
     unat (du_Total (pr_Data st)) \<le> unat (pu_sectors u) * 512"
proof -
  define block where "block = pu_sectors u div pu_dataTotal u"
  obtain sz p where p: "getBaseDeviceSize (bs_pool (dm_base s)) = Ret (sz, p)"
    using run by (auto simp: Status_def)
  from run p lookup_keeps_status [OF p] status
  have st: "pr_Data st = cap_available (dm_dataLoopFile (upd_pool (\<lambda>_. p) s)) fe
      (usage_bytes (pu_dataUsed u) (pu_dataTotal u) (block * 512))"
    by (auto simp: Status_def Let_def block_def split: if_splits)
  have "unat block * unat (pu_dataTotal u) \<le> unat (pu_sectors u)"
    by (simp add: block_def unat_div times_div_less_eq_dividend mult.commute)
  moreover have "unat (block * 512) = unat block * 512"
  proof -
    have "unat block * 512 \<le> unat (pu_sectors u) * 512" by (simp add: block_def unat_div div_le_dividend)
    then show ?thesis using small unat_mult_lem [of block 512] by simp
  qed
  ultimately have whole: "unat (pu_dataTotal u) * unat (block * 512) \<le> unat (pu_sectors u) * 512"
    by (simp add: mult.assoc mult.left_commute mult.commute)
  note sums = usage_bytes_sums [OF le_less_trans [OF whole small] le]
  show ?thesis
    using sums whole cap_available_less(1) [of "dm_dataLoopFile (upd_pool (\<lambda>_. p) s)" fe
        "usage_bytes (pu_dataUsed u) (pu_dataTotal u) (block * 512)"]
    unfolding st cap_available_less(2,3) by linarith
qed

lemma shut_device_frame:
  "ds_faults (shut_device hi ds) = ds_faults ds" "ds_Devices (shut_device hi ds) = ds_Devices ds"
  "ds_deferredRemove (shut_device hi ds) = ds_deferredRemove ds" "set (ds_active (shut_device hi ds)) \<subseteq> set (ds_active ds)"
  by (auto simp: shut_device_def kumount_def deactivateDevice_def removeDevice_def split: prod.splits option.splits if_splits)

text \<open>When nothing fails and removals are not deferred, no device that was mounted stays active.\<close>

lemma retry_no_fault: "0 < n \<Longrightarrow> retry_busy n k (\<lambda>_. None) = None"
  by (cases n) simp_all

lemma shut_device_inactive:
  assumes "ds_faults ds = (\<lambda>_ _. None)" and "\<not> ds_deferredRemove ds" and "di_mountCount i > 0"
  shows "h \<notin> set (ds_active (shut_device (h, i) ds))"
  using assms by (auto simp: shut_device_def kumount_def deactivateDevice_def removeDevice_def retry_no_fault)

lemma fold_shut_stays:
  "h \<notin> set (ds_active ds) \<Longrightarrow> h \<notin> set (ds_active (fold shut_device devs ds))"
proof (induction devs arbitrary: ds)
  case (Cons d devs)
  then show ?case using shut_device_frame(4) [of d ds] by auto
qed simp

lemma fold_shut_inactive:
  assumes "ds_faults ds = (\<lambda>_ _. None)" and "\<not> ds_deferredRemove ds" and "(h, i) \<in> set devs" and "di_mountCount i > 0"
  shows "h \<notin> set (ds_active (fold shut_device devs ds))"
  using assms
proof (induction devs arbitrary: ds)
  case (Cons d devs)
  show ?case
  proof (cases "d = (h, i)")
    case True
    then show ?thesis using Cons.prems fold_shut_stays shut_device_inactive by simp
  next
    case False
    then show ?thesis using Cons.prems Cons.IH [of "shut_device d ds"] by (auto simp: shut_device_frame)
  qed
qed simp

text \<open>
  Once a loop device was found or attached for the data image, its name is what \<open>ResizePool\<close> opens: no loop device has that
  node for its file, so the pool can never be resized.
\<close>

lemma resize_after_set_up_fails:
  assumes "dm_dataDevice s = loop_name i" and "map_of (dm_images s) (loop_name i) = None"
  shows "\<exists>e. ResizePool rz sz s = (Some e, s)"
proof -
  have "image_of (dm_dataDevice s) ''data'' = loop_name i" using assms(1) by (simp add: image_of_def loop_name_def)
  with assms(2) show ?thesis by (simp add: ResizePool_def Let_def split: option.split)
qed

end
