(* ===== verification/Spec2Isabelle.thy ===== *)
theory Spec2Isabelle
  imports TarRoundtrip Digest DigestSet Devicemapper DeviceIDs ThinPool ThinPoolCrash Checksums MigrateV1 MigrateSafety
    Migrator LayerDiff BaseImageSpec Loopback PoolSetupSpec PoolStatus
begin

text \<open>
  This development verifies \<open>v1.10-migrator\<close>, the program that computes, ahead of an upgrade of
  Docker to 1.10, the content digests of all layers of a Docker root directory, and the libraries under
  \<open>Godeps\<close> it runs.

  \<^bold>\<open>What the program does.\<close>  \<open>main\<close> (\<open>migrator.go\<close>) finds the storage driver of the root directory and
  hands it to \<open>CalculateLayerChecksums\<close> (\<open>docker/migrate/v1/migratev1.go\<close>).  That walks the directory
  \<open>graph\<close> and gives every layer id to a pool of workers.  For each layer a worker asks
  \<open>ChecksumForGraphID\<close> (\<open>checksums.go\<close>) for the digest and size of the layer's tar archive.  That first
  tries to assemble the archive from a tar-split record of an earlier daemon and the files of the mounted
  layer (\<open>vbatts/tar-split\<close>); if this fails, it makes a new archive, splits it again into a record and a
  digest.  The worker then publishes the result in the files \<open>.migration-size\<close> and \<open>.migration-diffid\<close>.
  Layers are mounted by one of five drivers; the one for devicemapper uses Docker's own device set
  (\<open>graphdriver/devmapper/deviceset.go\<close>), which keeps thin devices, their metadata files and a
  transaction log.

  \<^bold>\<open>Theories.\<close>
  \<^item> \<open>Prelude\<close>: errors, results (\<open>err + 'a\<close>), Go calls that may panic or diverge (\<open>outcome\<close>), lists.
  \<^item> \<open>GoStrings\<close>, \<open>GoPath\<close>, \<open>GoFS\<close>, \<open>GoHash\<close>, \<open>GoBase64\<close>: the parts of the Go library the program
    calls: strings and numbers, \<open>path/filepath\<close>, files with inodes, links and arbitrary failures, SHA-2,
    base64.
  \<^item> \<open>TarStorage\<close>, \<open>TarReader\<close>, \<open>TarAsm\<close>, \<open>TarRoundtrip\<close>: tar-split.  \<open>TarReader\<close> has
    \<open>archive/tar/reader.go\<close> with the accounting of raw bytes, \<open>TarStorage\<close> the record (\<open>tar/storage\<close>) with
    its JSON, \<open>TarAsm\<close> splitting and assembling (\<open>tar/asm\<close>); \<open>TarRoundtrip\<close> proves that assembling undoes
    splitting.
  \<^item> \<open>Digest\<close>, \<open>DigestSet\<close>: \<open>distribution/digest\<close>: digests, algorithms, verifiers; the sorted set with
    lookup by abbreviation and the table of short codes.
  \<^item> \<open>DeviceSet\<close>, \<open>Mounters\<close>, \<open>Devicemapper\<close>: mounting and unmounting thin devices, the five drivers, and
    the invariant of the devicemapper driver's table of mounts as a state machine.
  \<^item> \<open>DeviceIDs\<close>, \<open>ThinPool\<close>, \<open>ThinPoolSafety\<close>, \<open>ThinPoolCrash\<close>: the bitmap of thin device ids, the
    metadata side of the device set (files, transactions, adding, deleting, start-up), and crash safety.
  \<^item> \<open>BaseImage\<close>, \<open>BaseImageSpec\<close>: the base device all others are snapshots of: finding, verifying, growing and
    making it and its file system; a small logic of pre- and postconditions for steps that fail.  \<open>Loopback\<close>: attaching
    files to loop devices and finding them.  \<open>PoolSetup\<close>, \<open>PoolSetupSpec\<close>: options, the loopback images, making or finding
    the pool, and \<open>NewDeviceSet\<close>, on which the devicemapper driver of the migrator starts.  \<open>PoolStatus\<close>: queries, resizing
    the pool, shutting down.
  \<^item> \<open>Changes\<close>, \<open>ChangesWalk\<close>, \<open>ChangesSpec\<close>: the difference of two directories in \<open>docker/pkg/archive\<close>: the
    trees of \<open>FileInfo\<close>s and their comparison, the parallel walk that builds them and leaves out what is one
    inode in both, and what the list of changes says.  \<open>TarExport\<close>, \<open>ExportSpec\<close>: \<open>ExportChanges\<close>, which makes
    a tar archive of it, and its contents.
  \<^item> \<open>FileMatch\<close>, \<open>FileMatchSpec\<close>: the patterns of \<open>docker/pkg/fileutils\<close> and what they mean.  \<open>TarTree\<close>,
    \<open>TarTreeSpec\<close>: \<open>TarWithOptions\<close>, which archives a whole directory without what patterns exclude.
    \<open>LayerDiff\<close>: the drivers on top of all this, for layers with a parent, without one, and on aufs.
  \<^item> \<open>Checksums\<close>: \<open>checksums.go\<close>, both ways to a digest, their correctness and their agreement.
  \<^item> \<open>MigrateV1\<close>, \<open>MigrateSafety\<close>: \<open>CalculateLayerChecksums\<close> and the pool of workers as a step relation,
    its termination, and the safety of what is published, for all five drivers; devicemapper makes its mount points below
    \<open>/tmp\<close>, so that the graph directory must not be there.
  \<^item> \<open>Migrator\<close>: \<open>migrator.go\<close>; this theory: the program as a whole.

  \<^bold>\<open>How the model corresponds to the code.\<close>  A Go function is a definition of its name; where the name
  is taken, it is prefixed by its receiver (\<open>set_Lookup\<close>, \<open>dm_Mount\<close>, \<open>thin_DeleteDevice\<close>).  A struct is a record, an
  interface the record of its methods or an argument.  A function with an error result returns
  \<open>err + 'a\<close>, or an \<open>err option\<close> next to the new state; a function that can panic or not return gives an \<open>outcome\<close>.
  Machine integers are words where they may wrap around (sizes, transaction ids, the bytes of the bitmap).
  The state of the file system, the mounts and the device set is the record \<open>world\<close>; every call first asks an
  arbitrary function of the operation and its argument whether it fails, so that all error branches are
  reachable.

  \<^bold>\<open>Concurrency and crashes.\<close>  The workers interleave at single file operations (\<open>job_step\<close>); a call of
  \<open>ChecksumForGraphID\<close> is one step, because the drivers hold their lock and the calls for different layers
  touch different files.  The safety theorem is an invariant of all reachable states, so it also speaks of the
  states in which the program is killed.  The device set records every durable state it passes through
  (\<open>tp_trace\<close>), and crash safety is a statement on all of them.

  \<^bold>\<open>Interfaces.\<close>  Locales state what one part relies on in another: the drivers that only read
  (\<open>readonly_driver\<close>), the simulation between a record and the bytes it stands for
  (\<open>split_simulation\<close>), a storage driver that keeps the files of the graph directory
  (\<open>careful_driver\<close>, interpreted on all five), a calculator of checksums that leaves published files alone
  (\<open>checksum_calculator\<close>), a set of digests (\<open>digest_set\<close>), a message that creates a thin device
  (\<open>device_creator\<close>), and others in the theories of tar-split.  Each is interpreted on the definitions of the
  code.

  \<^bold>\<open>Bounds.\<close>  Symbolic links are followed 40 times, as the kernel does.  \<open>TempDir\<close> tries 10000 names, as Go
  does.  A job has seven steps and \<open>run_job_refines\<close> shows that they are all of
  \<open>calculateLayerChecksum\<close>.  \<open>create_fuel\<close> exceeds the number of thin device ids; every round of the loop it
  bounds uses up another id, and \<open>AddDevice_correct\<close> shows that it never runs out.  The walk over two
  directories recurses as deep as they go: any fuel above their heights is enough.

  \<^bold>\<open>Not modelled.\<close>  The byte format of the tar writer and compression are parameters, and so are regular
  expressions other than the wildcards of patterns.  The kernel's file system calls are a record of functions
  of the machine's state (\<open>kernel\<close>), and the theorems on archives say which directory trees those functions
  serve.  The C library behind \<open>pkg/devicemapper\<close>, the \<open>ioctl\<close>
  calls and external programs such as \<open>mkfs\<close> and \<open>blkid\<close> are outside the repository: the model holds the command
  lines and asks an arbitrary function for their results.  Of the kernel's thin pool it has the ids that exist and the
  transaction id.  The device set is used by one caller at a time, as its lock demands; its timer is not modelled.
  \<open>Migrate\<close>, unpacking archives and the layer, image and reference
  stores are code of the daemon that the migrator never calls.  Logging, flags and generated system call
  tables have no state the program depends on.
\<close>

section \<open>The program as a whole\<close>

text \<open>Every driver starts on the files as they are, and leaves a directory of layers outside \<open>/tmp\<close> alone.\<close>

lemma migrator_driver:
  assumes "map_of (drivers newDeviceSet ar) name = Some mk" and "mk root opts w = Inr (mnt, w1)" and "clear_of_tmp g"
  shows "wfs w1 = wfs w \<and> drives g ar mnt w1"
  using assms
  by (auto simp: drivers_def drives_def dm_mounter_def NewDevicemapperChecksums_def split: if_splits sum.splits)

text \<open>The layers of a graph directory that count as migrated have a valid digest and a complete size file.\<close>

definition published_well :: "string \<Rightarrow> fs \<Rightarrow> bool" where
  "published_well g s \<longleftrightarrow>
     (\<forall>gid nd. validHex gid \<longrightarrow> node_at s (diffIDFile g gid) = Some nd \<longrightarrow>
        (\<exists>d n. nd = Reg (Raw d) \<and> Validate d = None \<and> node_at s (sizeFile g gid) = Some (Reg (Raw (Itoa n)))))"

lemma published_well_complete: "published_well g s \<longleftrightarrow> (\<forall>gid. validHex gid \<longrightarrow> complete (\<lambda>_ d _. Validate d = None) g gid s)"
  by (fastforce simp: published_well_def complete_def)

text \<open>
  C1: A run of the program, with any of its five drivers: when it ends, every directory entry of the graph directory
  that is a valid layer id has been handled exactly once; every layer that was handled without an error has a
  \<open>.migration-diffid\<close> file; and every layer that has one, from this run or an earlier one, has a valid digest in it
  and a complete \<open>.migration-size\<close> file beside it.  At the start the layers that are already published are published well,
  the migration files are neither links nor hard-linked, and \<open>Lstat\<close> does not deny a file that exists; the graph
  directory can be read, has an absolute clean name and is not below \<open>/tmp\<close>, where the devicemapper driver makes its mount points.
\<close>

theorem migrator_end_to_end:
  assumes run: "migrator_main newDeviceSet ar ord wfail workers root driver opts w (Done po)"
    and g: "clear_of_tmp (Join [root, graphDirName])" and t: "tidy (Join [root, graphDirName]) (wfs w)"
    and f: "no_false_ENOENT (wfs w)" and start: "published_well (Join [root, graphDirName]) (wfs w)"
    and dir: "ReadDir (wfs w) (Join [root, graphDirName]) = Inr dir" "distinct dir"
  shows "distinct (map fst (po_done po)) \<and> set (map fst (po_done po)) = {v1ID \<in> set dir. validHex v1ID} \<and>
         (\<forall>gid. (gid, None) \<in> set (po_done po) \<longrightarrow>
            node_at (wfs (po_world po)) (diffIDFile (Join [root, graphDirName]) gid) \<noteq> None) \<and>
         (\<forall>gid nd. validHex gid \<longrightarrow> node_at (wfs (po_world po)) (diffIDFile (Join [root, graphDirName]) gid) = Some nd \<longrightarrow>
            (\<exists>d n. nd = Reg (Raw d) \<and> Validate d = None \<and>
               node_at (wfs (po_world po)) (sizeFile (Join [root, graphDirName]) gid) = Some (Reg (Raw (Itoa n)))))"
proof -
  let ?g = "Join [root, graphDirName]"
  from run obtain order name mk mnt w1 where
    mk: "map_of (drivers newDeviceSet ar) name = Some mk" "mk (Join [root, name]) opts w = Inr (mnt, w1)"
    and calc: "CalculateLayerChecksums (ChecksumForGraphID ord wfail mnt) workers root (\<lambda>_. None) w1 po"
    by (rule migrator_DoneE) blast
  from migrator_driver [OF mk g] have w1: "wfs w1 = wfs w" and drv: "drives ?g ar mnt w1" by auto
  from calc w1 dir(1) have reach: "pool_reach (ChecksumForGraphID ord wfail mnt) ?g workers
      (pool_start (\<lambda>_. None) dir w1) po" and fin: "po_queue po = []" "po_running po = []"
    by (auto simp: CalculateLayerChecksums_def)
  have c: "clean_abs ?g" using g by (simp add: clear_of_tmp_def)
  note pub = published_and_done [OF drv c t [folded w1] f [folded w1] dir(2), where good = "\<lambda>_ d _. Validate d = None",
      OF computed_valid start [folded w1, unfolded published_well_complete] reach]
  then have well: "published_well ?g (wfs (po_world po))" by (simp add: published_well_complete)
  have ids: "distinct (map fst (po_done po)) \<and> set (map fst (po_done po)) = set (work_ids (\<lambda>_. None) dir)"
    using pool_ids_reach [OF reach] pool_ids_start [OF dir(2)] fin by (simp add: pool_ids_def)
  have "ValidateID v1ID = None \<longleftrightarrow> validHex v1ID" for v1ID by (simp add: ValidateID_def)
  then have "set (work_ids (\<lambda>_. None) dir) = {v1ID \<in> set dir. validHex v1ID}" by (simp add: work_ids_def)
  with ids have "distinct (map fst (po_done po)) \<and> set (map fst (po_done po)) = {v1ID \<in> set dir. validHex v1ID}" by simp
  then show ?thesis using pub(2) well [unfolded published_well_def] by (intro conjI) simp_all
qed

text \<open>A root directory with the directory of the vfs driver and one layer that is not migrated yet.\<close>

definition demo_docker :: world where
  "demo_docker = (demo_layer (Raw []) (\<lambda>_ _. None))\<lparr>wfs := (demo_layer_fs (Raw []) (\<lambda>_ _. None))
     \<lparr>names := [(''/r'', 1), (''/r/vfs'', 1), (''/r/vfs/dir'', 1), (''/r/vfs/dir/'' @ demo_id, 1), (''/r/graph'', 1),
                (''/r/graph/'' @ demo_id, 1), (''/r/graph/'' @ demo_id @ ''/json'', 3)],
       nodes := [(1, Dir), (3, Reg (JsonDoc (JObj [])))]\<rparr>\<rparr>"

definition demo_ar :: "unit archiver" where "demo_ar = demo_archiver (Inr ([], None))"

abbreviation demo_vfs :: mounter where "demo_vfs \<equiv> NewVfsChecksums demo_ar ''/r/vfs''"

lemma demo_docker_dir: "ReadDir (wfs demo_docker) ''/r/graph'' = Inr [demo_id]"
  by code_simp

lemma demo_docker_none:
  assumes "migration_path ''/r/graph'' p \<or> tardata_path ''/r/graph'' p"
  shows "map_of (names (wfs demo_docker)) p = None"
proof -
  have g: "clean_abs ''/r/graph''" by code_simp
  have len: "14 < length migrationDiffIDFileName" "14 < length migrationSizeFileName" "14 < length migrationTarDataFileName"
    "14 < length tarDataFileName" by code_simp+
  have tmp: "14 < length (migrationDiffIDFileName @ ''.tmp'')" by code_simp
  from assms obtain gid f where f: "validHex gid" "plain f" "14 < length f" "p = layer_file ''/r/graph'' gid f"
    unfolding migration_path_def tardata_path_def layer_files using plain_file_names len tmp by metis
  have "length gid = 64" using f(1) by (simp add: validHex_def)
  moreover have "length p = 9 + (length gid + Suc (length f))"
    using Join3 [OF g validHex_plain [OF f(1)] f(2)] f(4) by simp
  ultimately have "length p > 80" using f(3) by simp
  moreover have "list_all (\<lambda>(q, i). length q < 80) (names (wfs demo_docker))" by code_simp
  ultimately show ?thesis by (cases "map_of (names (wfs demo_docker)) p") (auto simp: list_all_iff dest!: map_of_SomeD)
qed

lemma demo_docker_nodes:
  assumes "map_of (names (wfs demo_docker)) p = Some i"
  shows "i = 1 \<or> i = 3"
proof -
  have "list_all (\<lambda>(q, i). i = 1 \<or> i = 3) (names (wfs demo_docker))" by code_simp
  with assms show ?thesis by (auto simp: list_all_iff dest!: map_of_SomeD)
qed

lemma demo_docker_tidy: "tidy ''/r/graph'' (wfs demo_docker)"
proof -
  have "map_of (nodes (wfs demo_docker)) 1 = Some Dir" "map_of (nodes (wfs demo_docker)) 3 \<noteq> None" "next_ino (wfs demo_docker) = 4"
    by (simp_all add: demo_docker_def demo_layer_fs_def)
  then show ?thesis
    unfolding tidy_def by (auto simp: node_at_def demo_docker_none dest!: demo_docker_nodes)
qed

text \<open>A file system without faults, and a new file in one of its directories.\<close>

definition calm :: "fs \<Rightarrow> bool" where
  "calm s \<longleftrightarrow> faults s = (\<lambda>_ _. None)"

lemma new_file:
  assumes c: "calm s" and p: "map_of (names s) p = None" and d: "map_of (names s) (path_Dir p) = Some i"
    "map_of (nodes s) i = Some Dir" "i < next_ino s"
  shows "\<exists>s1 s2. os_Create p s = (Inr (next_ino s), s1) \<and> write_ino p (next_ino s) b s1 = (Inr (), s2) \<and> calm s2 \<and>
     map_of (names s2) = (map_of (names s))(p \<mapsto> next_ino s) \<and> map_of (nodes s2) = (map_of (nodes s))(next_ino s \<mapsto> Reg b) \<and>
     next_ino s2 = Suc (next_ino s)"
  using assms
  by (auto simp: os_Create_def write_ino_def resolve_def resolve_fuel.simps node_at_def is_dir_at_def calm_def update_conv')

lemma rename_file:
  assumes c: "calm s" and p: "map_of (names s) p = Some j" "map_of (nodes s) j = Some (Reg b)" and q: "map_of (names s) q = None"
    and d: "map_of (names s) (path_Dir q) = Some i" "map_of (nodes s) i = Some Dir"
  shows "\<exists>s1. os_Rename p q s = (Inr (), s1)"
  using assms by (auto simp: os_Rename_def node_at_def is_dir_at_def calm_def)

abbreviation demo_new :: "string \<Rightarrow> string" where "demo_new f \<equiv> layer_file ''/r/graph'' demo_id f"

lemma demo_layer_paths:
  "path_Dir (newTarData ''/r/graph'' demo_id) = ''/r/graph/'' @ demo_id"
  "path_Dir (sizeFile ''/r/graph'' demo_id) = ''/r/graph/'' @ demo_id"
  "path_Dir (tmpFile ''/r/graph'' demo_id) = ''/r/graph/'' @ demo_id"
  "path_Dir (diffIDFile ''/r/graph'' demo_id) = ''/r/graph/'' @ demo_id"
  "newTarData ''/r/graph'' demo_id \<noteq> sizeFile ''/r/graph'' demo_id" "newTarData ''/r/graph'' demo_id \<noteq> tmpFile ''/r/graph'' demo_id"
  "newTarData ''/r/graph'' demo_id \<noteq> diffIDFile ''/r/graph'' demo_id" "sizeFile ''/r/graph'' demo_id \<noteq> tmpFile ''/r/graph'' demo_id"
  "sizeFile ''/r/graph'' demo_id \<noteq> diffIDFile ''/r/graph'' demo_id" "tmpFile ''/r/graph'' demo_id \<noteq> diffIDFile ''/r/graph'' demo_id"
  "''/r/graph/'' @ demo_id \<notin> {newTarData ''/r/graph'' demo_id, sizeFile ''/r/graph'' demo_id, tmpFile ''/r/graph'' demo_id}"
  by code_simp+


lemma demo_checksum:
  "\<exists>w1. ChecksumForGraphID id (\<lambda>_. None) demo_vfs demo_id [] (demo_new tarDataFileName) (newTarData ''/r/graph'' demo_id) demo_docker =
       Ret (Inr (FromBytes [], 0), w1) \<and> calm (wfs w1) \<and> next_ino (wfs w1) = 5 \<and>
     map_of (names (wfs w1)) = (map_of (names (wfs demo_docker)))(newTarData ''/r/graph'' demo_id \<mapsto> 4) \<and>
     map_of (nodes (wfs w1)) 1 = Some Dir"
proof -
  let ?new = "newTarData ''/r/graph'' demo_id" and ?old = "demo_new tarDataFileName"
  let ?p = "(NewJSONPacker (\<lambda>_. None))\<lparr>pk_docs := [encode_entry (stored 0 (segment []))], pk_pos := 1\<rparr>"
  have v: "validHex demo_id" by code_simp
  have none: "map_of (names (wfs demo_docker)) ?new = None" "map_of (names (wfs demo_docker)) ?old = None"
    by (rule demo_docker_none, use v in \<open>auto simp: tardata_path_def\<close>)+
  have flt: "faults (wfs demo_docker) = (\<lambda>_ _. None)" by (simp add: demo_docker_def demo_layer_fs_def)
  have "ReadFile (wfs demo_docker) ?old = Inl ENOENT"
    using none(2) flt by (simp add: ReadFile_def os_Open_def resolve_def resolve_fuel.simps node_at_def)
  then have ts: "\<exists>e. checksum_tarsplit demo_vfs demo_id ?old ?new demo_docker = Ret (Inl e, demo_docker)"
    by (simp add: checksum_tarsplit_def)
  have "w_Lstat demo_docker (Join [''/r/vfs'', ''dir'', demo_id]) = Inr Dir" by code_simp
  then have m: "TarStream demo_vfs demo_id [] demo_docker = Ret (Inr (([], None), Ret), demo_docker)"
    by (simp add: demo_ar_def NewVfsChecksums_def vfs_TarStream_def vfs_Mount_def archive_Tar_def demo_archiver_def plain_stream_def)
  have "calm (wfs demo_docker)" "map_of (names (wfs demo_docker)) (path_Dir ?new) = Some 1" "next_ino (wfs demo_docker) = 4"
    "map_of (nodes (wfs demo_docker)) 1 = Some Dir"
    unfolding demo_layer_paths by (simp add: calm_def flt, code_simp+)
  with new_file [of "wfs demo_docker" ?new 1 "gzip_Close ?p"] none(1) obtain s1 s2 where
    s: "os_Create ?new (wfs demo_docker) = (Inr 4, s1)" "write_ino ?new 4 (gzip_Close ?p) s1 = (Inr (), s2)" "calm s2"
    "map_of (names s2) = (map_of (names (wfs demo_docker)))(?new \<mapsto> 4)" "next_ino s2 = 5" "map_of (nodes s2) 1 = Some Dir" by auto
  from m s(1,2) empty_split [of "\<lambda>_. None" id] have
    "checksumForGraphIDNoTarsplit id (\<lambda>_. None) demo_vfs demo_id [] ?new demo_docker =
      Ret (Inr (FromBytes [], 0), demo_docker\<lparr>wfs := s2\<rparr>)"
    by (simp add: checksumForGraphIDNoTarsplit_def FromReader_eq)
  with ts s(3-) show ?thesis by (auto simp: ChecksumForGraphID_def)
qed

text \<open>The job of the layer, from its start to the rename that publishes it.\<close>

lemma demo_job:
  "\<exists>w'. run_job 7 (ChecksumForGraphID id (\<lambda>_. None) demo_vfs) ''/r/graph'' demo_id Start demo_docker = Ret (Finished None, w')"
proof -
  let ?g = "''/r/graph''"
  let ?N = "newTarData ?g demo_id" and ?S = "sizeFile ?g demo_id" and ?T = "tmpFile ?g demo_id" and ?D = "diffIDFile ?g demo_id"
  have v: "validHex demo_id" by code_simp
  then have mp: "migration_path ?g ?S" "migration_path ?g ?T" "migration_path ?g ?D" by (auto simp: migration_path_def)
  have none: "map_of (names (wfs demo_docker)) ?S = None" "map_of (names (wfs demo_docker)) ?T = None"
    "map_of (names (wfs demo_docker)) ?D = None" by (rule demo_docker_none, simp add: mp)+
  have flt: "faults (wfs demo_docker) = (\<lambda>_ _. None)" by (simp add: demo_docker_def demo_layer_fs_def)
  have dirs: "map_of (names (wfs demo_docker)) (''/r/graph/'' @ demo_id) = Some 1" by code_simp
  have lst: "os_Lstat (wfs demo_docker) ?D = Inl ENOENT" using none(3) flt by (simp add: os_Lstat_def node_at_def)
  have par: "getParent (wfs demo_docker) (Join [?g, demo_id]) = Ret (Inr [])" by code_simp
  obtain w1 where w1: "ChecksumForGraphID id (\<lambda>_. None) demo_vfs demo_id [] (demo_new tarDataFileName) ?N demo_docker =
       Ret (Inr (FromBytes [], 0), w1)" "calm (wfs w1)" "next_ino (wfs w1) = 5"
     "map_of (names (wfs w1)) = (map_of (names (wfs demo_docker)))(?N \<mapsto> 4)" "map_of (nodes (wfs w1)) 1 = Some Dir"
    using demo_checksum by blast
  obtain s2 s3 where s3: "os_Create ?S (wfs w1) = (Inr 5, s2)" "write_ino ?S 5 (Raw (Itoa 0)) s2 = (Inr (), s3)" "calm s3"
    "map_of (names s3) = (map_of (names (wfs w1)))(?S \<mapsto> 5)" "next_ino s3 = 6" "map_of (nodes s3) 1 = Some Dir"
    using new_file [of "wfs w1" ?S 1 "Raw (Itoa 0)"] w1(2-) none(1) dirs demo_layer_paths by auto
  obtain s4 s5 where s5: "os_Create ?T s3 = (Inr 6, s4)" "write_ino ?T 6 (Raw (FromBytes [])) s4 = (Inr (), s5)" "calm s5"
    "map_of (names s5) = (map_of (names s3))(?T \<mapsto> 6)" "map_of (nodes s5) = (map_of (nodes s3))(6 \<mapsto> Reg (Raw (FromBytes [])))"
    using new_file [of s3 ?T 1 "Raw (FromBytes [])"] s3(3-) w1(4) none(2) dirs demo_layer_paths by auto
  obtain s6 where s6: "os_Rename ?T ?D s5 = (Inr (), s6)"
    using rename_file [of s5 ?T 6 "Raw (FromBytes [])" ?D 1] s5(3-) s3(4-6) w1(4) none(3) dirs demo_layer_paths by auto
  have seven: "(7::nat) = Suc (Suc (Suc (Suc (Suc (Suc (Suc 0))))))" by simp
  show ?thesis
    unfolding seven using lst par w1(1) s3(1,2) s5(1,2) s6 by (simp add: os_IsNotExist_def)
qed

text \<open>A job that runs alone, as steps of the pool.\<close>

lemma pool_run_job:
  assumes "po_running po = [(gid, j)]" and "run_job n ls g gid j (po_world po) = Ret (j', w')"
  shows "pool_reach ls g workers po (po\<lparr>po_running := [(gid, j')], po_world := w'\<rparr>)"
  using assms
proof (induction n arbitrary: j po)
  case 0
  then have "po\<lparr>po_running := [(gid, j')], po_world := w'\<rparr> = po" by (cases po) simp
  then show ?case using pool_reach.start by metis
next
  case (Suc n)
  show ?case
  proof (cases "\<exists>r. j = Finished r")
    case True
    with Suc.prems have "po\<lparr>po_running := [(gid, j')], po_world := w'\<rparr> = po" by (cases po) auto
    then show ?thesis using pool_reach.start by metis
  next
    case False
    from Suc.prems(2) obtain j1 w1 where r: "job_step ls g gid j (po_world po) = Ret (j1, w1)" "run_job n ls g gid j1 w1 = Ret (j', w')"
      by auto
    let ?po1 = "po\<lparr>po_running := [(gid, j1)], po_world := w1\<rparr>"
    have s: "pool_step ls g workers po ?po1"
      using pool_step.work [of po gid j ls g j1 w1 workers] Suc.prems(1) False r(1) by simp
    have "pool_reach ls g workers ?po1 (?po1\<lparr>po_running := [(gid, j')], po_world := w'\<rparr>)"
      by (rule Suc.IH) (use r(2) in simp_all)
    from pool_reach_trans [OF this pool_reach.more [OF pool_reach.start s]] show ?thesis by simp
  qed
qed

lemma demo_docker_calculate:
  "\<exists>w'. CalculateLayerChecksums (ChecksumForGraphID id (\<lambda>_. None) demo_vfs) 1 ''/r'' (\<lambda>_. None) demo_docker
     \<lparr>po_queue = [], po_running = [], po_done = [(demo_id, None)], po_world = w'\<rparr>"
proof -
  let ?ls = "ChecksumForGraphID id (\<lambda>_. None) demo_vfs"
  let ?p0 = "pool_start (\<lambda>_. None) [demo_id] demo_docker"
  let ?p1 = "?p0\<lparr>po_queue := [], po_running := [(demo_id, Start)]\<rparr>"
  have j: "Join [''/r'', graphDirName] = ''/r/graph''" by code_simp
  have v: "ValidateID demo_id = None" by code_simp
  obtain w' where w': "run_job 7 ?ls ''/r/graph'' demo_id Start demo_docker = Ret (Finished None, w')" using demo_job by blast
  let ?p2 = "?p1\<lparr>po_running := [(demo_id, Finished None)], po_world := w'\<rparr>"
  have a: "pool_step ?ls ''/r/graph'' 1 ?p0 ?p1"
    using pool_step.take [of ?p0 demo_id "[]" 1 ?ls "''/r/graph''"] v by (simp add: pool_start_def work_ids_def)
  have b: "pool_reach ?ls ''/r/graph'' 1 ?p1 ?p2"
    by (rule pool_run_job [where n = 7 and j = Start]) (simp_all add: pool_start_def w' del: run_job.simps)
  have "pool_step ?ls ''/r/graph'' 1 ?p2 \<lparr>po_queue = [], po_running = [], po_done = [(demo_id, None)], po_world = w'\<rparr>"
    using pool_step.retire [of ?p2 demo_id None ?ls "''/r/graph''" 1] v by (simp add: pool_start_def work_ids_def)
  from pool_reach.more [OF pool_reach_trans [OF b pool_reach.more [OF pool_reach.start a]] this] show ?thesis
    unfolding CalculateLayerChecksums_def j demo_docker_dir by auto
qed

text \<open>The program runs on that directory to its end and publishes the layer, with a valid digest and a size.\<close>

lemma migrator_end_to_end_witness:
  "\<exists>po d n. migrator_main (\<lambda>_ _. Inl ENOENT) demo_ar id (\<lambda>_. None) 1 ''/r'' ''auto'' [] demo_docker (Done po) \<and>
     po_done po = [(demo_id, None)] \<and> Validate d = None \<and>
     node_at (wfs (po_world po)) (diffIDFile ''/r/graph'' demo_id) = Some (Reg (Raw d)) \<and>
     node_at (wfs (po_world po)) (sizeFile ''/r/graph'' demo_id) = Some (Reg (Raw (Itoa n)))"
proof -
  have j: "Join [''/r'', graphDirName] = ''/r/graph''" by code_simp
  obtain w' where c: "CalculateLayerChecksums (ChecksumForGraphID id (\<lambda>_. None) demo_vfs) 1 ''/r'' (\<lambda>_. None) demo_docker
     \<lparr>po_queue = [], po_running = [], po_done = [(demo_id, None)], po_world = w'\<rparr>" (is "CalculateLayerChecksums _ _ _ _ _ ?po")
    using demo_docker_calculate by blast
  have drv: "validateGraphDir driver_names (wfs demo_docker) ''/r'' ''auto'' = Inr ''vfs''" by code_simp
  have d: "distinct driver_names" by code_simp
  have mk: "map_of (drivers (\<lambda>_ _. Inl ENOENT) demo_ar) ''vfs'' =
      Some (\<lambda>root _ w. Inr (NewVfsChecksums demo_ar root, w))" by (simp add: drivers_def)
  have r: "Join [''/r'', ''vfs''] = ''/r/vfs''" by code_simp
  have m: "migrator_main (\<lambda>_ _. Inl ENOENT) demo_ar id (\<lambda>_. None) 1 ''/r'' ''auto'' [] demo_docker (Done ?po)"
    by (rule migrator_main.migrated [OF refl d drv mk refl]) (unfold r, rule c)
  have v: "validHex demo_id" by code_simp
  have g: "clear_of_tmp (Join [''/r'', graphDirName])" unfolding j clear_of_tmp_def by code_simp
  have f: "no_false_ENOENT (wfs demo_docker)"
    by (simp add: no_false_ENOENT_def demo_docker_def demo_layer_fs_def)
  have "migration_path ''/r/graph'' (diffIDFile ''/r/graph'' gid)" if "validHex gid" for gid
    using that by (auto simp: migration_path_def)
  then have start: "published_well (Join [''/r'', graphDirName]) (wfs demo_docker)"
    unfolding j published_well_def node_at_def using demo_docker_none by simp
  note migrator_end_to_end [OF m g demo_docker_tidy [folded j] f start demo_docker_dir [folded j], unfolded j]
  then have pub: "node_at (wfs w') (diffIDFile ''/r/graph'' demo_id) \<noteq> None"
    and ok: "\<forall>gid nd. validHex gid \<longrightarrow> node_at (wfs w') (diffIDFile ''/r/graph'' gid) = Some nd \<longrightarrow>
        (\<exists>d n. nd = Reg (Raw d) \<and> Validate d = None \<and> node_at (wfs w') (sizeFile ''/r/graph'' gid) = Some (Reg (Raw (Itoa n))))"
    by simp_all
  from pub obtain nd where nd: "node_at (wfs w') (diffIDFile ''/r/graph'' demo_id) = Some nd" by blast
  with ok v obtain k n where "nd = Reg (Raw k)" "Validate k = None"
    "node_at (wfs w') (sizeFile ''/r/graph'' demo_id) = Some (Reg (Raw (Itoa n)))" by blast
  with nd m show ?thesis by fastforce
qed

end
